(* ===== verification/Neteq_Prelude.thy ===== *)
theory Neteq_Prelude
  imports Main "HOL-Library.Word" "HOL-Library.Signed_Division" "HOL-Library.Monad_Syntax"
begin

unbundle bit_operations_syntax

text \<open>
  Shared vocabulary of the development.

  C integers are kept as mathematical integers, and every conversion the code makes to a
  fixed width is written out: \<open>u8\<close>, \<open>u16\<close>, \<open>u32\<close> reduce modulo the width, \<open>s16\<close> and \<open>s32\<close>
  are the two's complement readings.  Sums, differences and products commute with these
  conversions, so a chain of 32-bit operations is wrapped once, where its value is stored,
  compared, divided or shifted right.  \<open>shl\<close> and \<open>shr\<close> are the shifts in the order C writes
  them (\<open>shr\<close> of a negative value is arithmetic), \<open>sdiv\<close> is C's truncating division.

  Memory is a list of bytes.  An access outside a list is undefined behaviour in C and is
  the value \<open>None\<close> here: a theorem that an operation returns \<open>Some\<close> states that it performs
  no access out of bounds.
\<close>

section \<open>Integer conversions\<close>

named_theorems cint_defs "definitions of the C integer conversions"
named_theorems cint_range "ranges of the C integer conversions"

type_synonym byte = "8 word"

definition u8 :: "int \<Rightarrow> int" where
  [cint_defs]: "u8 x = x mod 256"

definition u16 :: "int \<Rightarrow> int" where
  [cint_defs]: "u16 x = x mod 65536"

definition u32 :: "int \<Rightarrow> int" where
  [cint_defs]: "u32 x = x mod 4294967296"

definition s16 :: "int \<Rightarrow> int" where
  [cint_defs]: "s16 x = (x + 32768) mod 65536 - 32768"

definition s32 :: "int \<Rightarrow> int" where
  [cint_defs]: "s32 x = (x + 2147483648) mod 4294967296 - 2147483648"

abbreviation shl :: "int \<Rightarrow> nat \<Rightarrow> int" where
  "shl x n \<equiv> push_bit n x"

abbreviation shr :: "int \<Rightarrow> nat \<Rightarrow> int" where
  "shr x n \<equiv> drop_bit n x"

abbreviation c_bool :: "bool \<Rightarrow> int" where
  "c_bool b \<equiv> (if b then 1 else 0)"

lemma u8_range [cint_range]: "0 \<le> u8 x" "u8 x < 256"
  by (simp_all add: u8_def)

lemma u16_range [cint_range]: "0 \<le> u16 x" "u16 x < 65536"
  by (simp_all add: u16_def)

lemma u32_range [cint_range]: "0 \<le> u32 x" "u32 x < 4294967296"
  by (simp_all add: u32_def)

lemma s16_range [cint_range]: "-32768 \<le> s16 x" "s16 x < 32768"
  using pos_mod_bound [of 65536 "x + 32768"] pos_mod_sign [of 65536 "x + 32768"]
  by (simp_all add: s16_def)

lemma s32_range [cint_range]: "-2147483648 \<le> s32 x" "s32 x < 2147483648"
  using pos_mod_bound [of 4294967296 "x + 2147483648"] pos_mod_sign [of 4294967296 "x + 2147483648"]
  by (simp_all add: s32_def)

lemma u8_id: "0 \<le> x \<Longrightarrow> x < 256 \<Longrightarrow> u8 x = x"
  by (simp add: u8_def)

lemma u16_id: "0 \<le> x \<Longrightarrow> x < 65536 \<Longrightarrow> u16 x = x"
  by (simp add: u16_def)

lemma u32_id: "0 \<le> x \<Longrightarrow> x < 4294967296 \<Longrightarrow> u32 x = x"
  by (simp add: u32_def)

lemma s16_id: "-32768 \<le> x \<Longrightarrow> x < 32768 \<Longrightarrow> s16 x = x"
  by (simp add: s16_def)

lemma s32_id: "-2147483648 \<le> x \<Longrightarrow> x < 2147483648 \<Longrightarrow> s32 x = x"
  by (simp add: s32_def)

lemma u16_u16 [simp]: "u16 (u16 x) = u16 x"
  by (simp add: u16_def)

lemma u32_u32 [simp]: "u32 (u32 x) = u32 x"
  by (simp add: u32_def)

lemma s16_s16 [simp]: "s16 (s16 x) = s16 x"
  by (simp add: s16_def)

lemma s32_s32 [simp]: "s32 (s32 x) = s32 x"
  by (simp add: s32_def)

lemma u16_s16 [simp]: "u16 (s16 x) = u16 x"
  unfolding u16_def s16_def by (metis add_diff_cancel_right' mod_diff_left_eq)

lemma u32_s32 [simp]: "u32 (s32 x) = u32 x"
  unfolding u32_def s32_def by (metis add_diff_cancel_right' mod_diff_left_eq)

lemma s32_u32 [simp]: "s32 (u32 x) = s32 x"
  unfolding u32_def s32_def by (simp only: mod_add_left_eq)

lemma s16_u16 [simp]: "s16 (u16 x) = s16 x"
  unfolding u16_def s16_def by (simp only: mod_add_left_eq)

lemma u32_add_left [simp]: "u32 (u32 a + b) = u32 (a + b)"
  unfolding u32_def by (rule mod_add_left_eq)

lemma u32_add_right [simp]: "u32 (a + u32 b) = u32 (a + b)"
  unfolding u32_def by (rule mod_add_right_eq)

lemma u32_diff_left [simp]: "u32 (u32 a - b) = u32 (a - b)"
  unfolding u32_def by (rule mod_diff_left_eq)

lemma u32_diff_right [simp]: "u32 (a - u32 b) = u32 (a - b)"
  unfolding u32_def by (rule mod_diff_right_eq)

text \<open>The signed reading of a word is its unsigned value, less the modulus in the upper half.\<close>

lemma signed_mod_cases:
  fixes h m :: int
  assumes "0 < h" "m = 2 * h"
  shows "(x + h) mod m - h = (if x mod m < h then x mod m else x mod m - m)"
proof -
  have k: "0 \<le> x mod m" "x mod m < m"
    using assms by simp_all
  have "(x + h) mod m = (x mod m + h) mod m"
    by (simp add: mod_add_left_eq)
  also have "\<dots> = (if x mod m < h then x mod m + h else x mod m + h - m)"
  proof (cases "x mod m < h")
    case True
    with k assms show ?thesis by simp
  next
    case False
    have "(x mod m + h) mod m = (x mod m + h - m) mod m"
      by simp
    also have "\<dots> = x mod m + h - m"
      using False k assms(1) unfolding assms(2) by (intro mod_pos_pos_trivial) linarith+
    finally show ?thesis using False by simp
  qed
  finally show ?thesis by auto
qed

lemma s32_cases: "s32 x = (if u32 x < 2147483648 then u32 x else u32 x - 4294967296)"
  unfolding s32_def u32_def by (rule signed_mod_cases) simp_all

lemma s16_cases: "s16 x = (if u16 x < 32768 then u16 x else u16 x - 65536)"
  unfolding s16_def u16_def by (rule signed_mod_cases) simp_all

lemma s32_nonneg_iff: "0 \<le> s32 x \<longleftrightarrow> u32 x < 2147483648"
  using u32_range [of x] by (auto simp: s32_cases)

lemma s16_nonneg_iff: "0 \<le> s16 x \<longleftrightarrow> u16 x < 32768"
  using u16_range [of x] by (auto simp: s16_cases)

section \<open>Bit fields\<close>

lemma shr_eq_div: "shr x n = x div 2 ^ n"
  by (simp add: drop_bit_eq_div)

lemma shl_eq_mult: "shl x n = x * 2 ^ n"
  by (simp add: push_bit_eq_mult)

lemma and_mask_field: "(x::int) AND (2 ^ m - 1) = x mod 2 ^ m"
  by (metis mask_eq_exp_minus_1 take_bit_eq_mask take_bit_eq_mod and.commute)

lemma shr_and_field:
  "shr (x AND shl (2 ^ m - 1) n) n = x div 2 ^ n mod 2 ^ m"
proof -
  have "shr (x AND shl (2 ^ m - 1) n) n = shr x n AND (2 ^ m - 1)"
    by (simp only: drop_bit_and) (simp add: drop_bit_eq_div push_bit_eq_mult)
  then show ?thesis
    by (simp add: and_mask_field drop_bit_eq_div)
qed

text \<open>Bit fields put side by side with \<open>OR\<close> add up.\<close>

lemma or_shl:
  assumes "0 \<le> x" "x < 2 ^ n"
  shows "x OR shl y n = x + y * 2 ^ n"
proof -
  have x: "take_bit n x = x"
    using assms by (simp add: take_bit_int_eq_self)
  have "take_bit n x AND shl y n = 0"
    by (rule bit_eqI) (auto simp: bit_simps)
  with x show ?thesis
    by (simp add: disjunctive_add_eq_or [symmetric] push_bit_eq_mult)
qed

lemma shl_or: "0 \<le> x \<Longrightarrow> x < 2 ^ n \<Longrightarrow> shl y n OR x = y * 2 ^ n + x"
  using or_shl [of x n y] by (simp add: or.commute)

text \<open>A field of \<open>m\<close> bits from bit \<open>n\<close> only depends on the low \<open>n + m\<close> bits.\<close>

lemma bit_field_cong:
  fixes a b :: int
  assumes "a mod 2 ^ k = b mod 2 ^ k" "n + m \<le> k"
  shows "a div 2 ^ n mod 2 ^ m = b div 2 ^ n mod 2 ^ m"
proof -
  have "take_bit (n + m) (take_bit k a) = take_bit (n + m) (take_bit k b)"
    using assms(1) by (simp add: take_bit_eq_mod)
  then have "drop_bit n (take_bit (n + m) a) = drop_bit n (take_bit (n + m) b)"
    using assms(2) by (simp add: min_def)
  then show ?thesis
    by (simp add: drop_bit_take_bit flip: drop_bit_eq_div take_bit_eq_mod)
qed

lemma u16_and: "0 \<le> m \<Longrightarrow> m < 65536 \<Longrightarrow> u16 (x AND m) = x AND m"
  by (rule u16_id) (auto intro: le_less_trans [OF AND_upper2])

section \<open>Reads and block copies\<close>

definition get :: "'a list \<Rightarrow> nat \<Rightarrow> 'a option" where
  "get xs i = (if i < length xs then Some (xs ! i) else None)"

definition put :: "'a list \<Rightarrow> nat \<Rightarrow> 'a \<Rightarrow> 'a list option" where
  "put xs i v = (if i < length xs then Some (xs[i := v]) else None)"

lemma get_Some [simp]: "i < length xs \<Longrightarrow> get xs i = Some (xs ! i)"
  by (simp add: get_def)

lemma get_None [simp]: "length xs \<le> i \<Longrightarrow> get xs i = None"
  by (simp add: get_def)

lemma put_Some [simp]: "i < length xs \<Longrightarrow> put xs i v = Some (xs[i := v])"
  by (simp add: put_def)

lemma put_None [simp]: "length xs \<le> i \<Longrightarrow> put xs i v = None"
  by (simp add: put_def)

text \<open>\<open>memcpy\<close> of \<open>ys\<close> to offset \<open>pos\<close> of \<open>xs\<close>, and the read of \<open>n\<close> elements at \<open>pos\<close>.\<close>

definition blit :: "nat \<Rightarrow> 'a list \<Rightarrow> 'a list \<Rightarrow> 'a list" where
  "blit pos ys xs = take pos xs @ ys @ drop (pos + length ys) xs"

definition slice :: "nat \<Rightarrow> nat \<Rightarrow> 'a list \<Rightarrow> 'a list" where
  "slice pos n xs = take n (drop pos xs)"

lemma length_blit [simp]: "pos + length ys \<le> length xs \<Longrightarrow> length (blit pos ys xs) = length xs"
  by (simp add: blit_def)

lemma length_slice [simp]: "pos + n \<le> length xs \<Longrightarrow> length (slice pos n xs) = n"
  by (simp add: slice_def)

lemma slice_blit_same [simp]:
  "pos + length ys \<le> length xs \<Longrightarrow> slice pos (length ys) (blit pos ys xs) = ys"
  by (simp add: blit_def slice_def)

lemma slice_blit_prefix:
  assumes "pos + length ys \<le> length xs" "n \<le> length ys"
  shows "slice pos n (blit pos ys xs) = take n ys"
  using assms by (simp add: blit_def slice_def)

lemma nth_blit:
  "pos + length ys \<le> length xs \<Longrightarrow> i < length xs \<Longrightarrow>
   blit pos ys xs ! i = (if pos \<le> i \<and> i < pos + length ys then ys ! (i - pos) else xs ! i)"
  by (auto simp: blit_def nth_append min_def)

lemma slice_blit_disjoint:
  assumes "pos + length ys \<le> length xs" "q + n \<le> length xs" "q + n \<le> pos \<or> pos + length ys \<le> q"
  shows "slice q n (blit pos ys xs) = slice q n xs"
  using assms by (intro nth_equalityI) (auto simp: slice_def nth_blit)

lemma slice_add: "slice p (m + n) xs = slice p m xs @ slice (p + m) n xs"
  by (simp add: slice_def take_add add.commute)

lemma take_slice: "n \<le> m \<Longrightarrow> take n (slice p m xs) = slice p n xs"
  by (simp add: slice_def min_def)

lemma in_set_list_update: "x \<in> set (xs[i := v]) \<Longrightarrow> x = v \<or> x \<in> set xs"
  using set_update_subset_insert [of xs i v] by auto

section \<open>Counting slots\<close>

text \<open>How many entries satisfy a predicate: the slot arrays are counted with this.\<close>

definition count_if :: "('a \<Rightarrow> bool) \<Rightarrow> 'a list \<Rightarrow> nat" where
  "count_if P xs = length (filter P xs)"

lemma count_if_update:
  "i < length xs \<Longrightarrow>
   int (count_if P (xs[i := v])) = int (count_if P xs) - c_bool (P (xs ! i)) + c_bool (P v)"
proof (induction xs arbitrary: i)
  case (Cons x xs)
  show ?case
  proof (cases i)
    case 0
    then show ?thesis by (auto simp: count_if_def)
  next
    case (Suc j)
    with Cons.prems have "j < length xs" by simp
    from Cons.IH [OF this] Suc show ?thesis by (auto simp: count_if_def)
  qed
qed simp

lemma count_if_zero_iff: "count_if P xs = 0 \<longleftrightarrow> (\<forall>i < length xs. \<not> P (xs ! i))"
  by (auto simp: count_if_def filter_empty_conv all_set_conv_all_nth)

lemma count_if_pos_iff: "0 < count_if P xs \<longleftrightarrow> (\<exists>i < length xs. P (xs ! i))"
  using count_if_zero_iff [of P xs] by (auto simp: gr0_conv_Suc)

lemma count_if_le: "count_if P xs \<le> length xs"
  by (simp add: count_if_def)

lemma count_if_replicate: "\<not> P v \<Longrightarrow> count_if P (replicate n v) = 0"
  by (simp add: count_if_def)

end
