(* ===== verification/Neteq_Rtp.thy ===== *)
theory Neteq_Rtp
  imports Neteq_Prelude
begin

text \<open>
  RTP packets: the packet structure of \<open>neteq/rtp.h\<close>, the header parser
  \<open>WebRtcNetEQ_RTPPayloadInfo\<close> and the RFC 2198 splitter \<open>WebRtcNetEQ_RedundancySplit\<close> of
  \<open>neteq/rtp.c\<close> (the little-endian branches, the ones compiled for iOS, OSX and x86).

  A pointer into a received datagram is modelled by the memory from that address to the
  end of the underlying buffer, so advancing it by \<open>k\<close> words is \<open>drop (2 * k)\<close>.  The buffer
  may be longer than the datagram it holds.
\<close>

section \<open>The packet structure\<close>

record rtp_packet =
  rtp_seqNumber :: int
  rtp_timeStamp :: int
  rtp_ssrc :: int
  rtp_payloadType :: int
  rtp_payload :: "byte list"
  rtp_payloadLen :: int
  rtp_starts_byte1 :: int
  rtp_rcuPlCntr :: int

text \<open>The zero-filled structure, for concrete runs.\<close>

definition rtp_blank :: rtp_packet where
  "rtp_blank = \<lparr>rtp_seqNumber = 0, rtp_timeStamp = 0, rtp_ssrc = 0, rtp_payloadType = 0,
     rtp_payload = [], rtp_payloadLen = 0, rtp_starts_byte1 = 0, rtp_rcuPlCntr = 0\<rparr>"

definition RTP_TOO_SHORT_PACKET :: int where "RTP_TOO_SHORT_PACKET = -7003"
definition RTP_CORRUPT_PACKET :: int where "RTP_CORRUPT_PACKET = -7004"
definition RED_SPLIT_ERROR2 :: int where "RED_SPLIT_ERROR2 = -7002"

lemmas rtp_errors = RTP_TOO_SHORT_PACKET_def RTP_CORRUPT_PACKET_def RED_SPLIT_ERROR2_def

text \<open>The \<open>int16_t\<close> at word index \<open>i\<close> of a little-endian memory.\<close>

definition rd_w16 :: "byte list \<Rightarrow> nat \<Rightarrow> int option" where
  "rd_w16 mem i = do { lo \<leftarrow> get mem (2 * i); hi \<leftarrow> get mem (2 * i + 1);
                       Some (s16 (uint lo + 256 * uint hi)) }"

section \<open>The RTP header\<close>

text \<open>
  The length word of the header extension, the padding count in the last byte of the
  datagram, and the tail of the function, which places the payload and checks it.
\<close>

definition rtp_extlength :: "byte list \<Rightarrow> int \<Rightarrow> int option" where
  "rtp_extlength dgram i_CC = do {
     w \<leftarrow> rd_w16 dgram (7 + 2 * nat i_CC);
     Some ((shr (u16 w) 8 AND 0xFF) OR shl (u16 (w AND 0xFF)) 8) }"

definition rtp_padlength :: "byte list \<Rightarrow> int \<Rightarrow> int option" where
  "rtp_padlength dgram i_DatagramLen =
     (if i_DatagramLen AND 0x1 \<noteq> 0
      then do { w \<leftarrow> rd_w16 dgram (nat (shr i_DatagramLen 1)); Some (w AND 0xFF) }
      else do { w \<leftarrow> rd_w16 dgram (nat (shr i_DatagramLen 1 - 1)); Some (shr (u16 w) 8) })"

definition rtp_place_payload ::
    "byte list \<Rightarrow> int \<Rightarrow> int \<Rightarrow> int \<Rightarrow> int \<Rightarrow> int \<Rightarrow> rtp_packet \<Rightarrow> int \<times> rtp_packet" where
  "rtp_place_payload dgram i_DatagramLen i_IPver i_CC i_extlength i_padlength h =
     (let i_startPosition = 12 + 4 * (i_extlength + 1) + 4 * i_CC;
          payloadLen = s16 (i_DatagramLen - i_startPosition - i_padlength);
          h' = h\<lparr>rtp_payload := drop (2 * nat (shr i_startPosition 1)) dgram,
                 rtp_payloadLen := payloadLen, rtp_starts_byte1 := 0\<rparr>
      in if i_IPver \<noteq> 2 \<or> payloadLen \<le> 0 \<or> payloadLen \<ge> 16000
            \<or> i_startPosition < 12 \<or> i_startPosition > i_DatagramLen
         then (RTP_CORRUPT_PACKET, h') else (0, h'))"

definition WebRtcNetEQ_RTPPayloadInfo ::
    "byte list \<Rightarrow> int \<Rightarrow> rtp_packet \<Rightarrow> (int \<times> rtp_packet) option" where
  "WebRtcNetEQ_RTPPayloadInfo dgram i_DatagramLen h =
     (if i_DatagramLen < 12 then Some (RTP_TOO_SHORT_PACKET, h)
      else do {
        w0 \<leftarrow> rd_w16 dgram 0; w1 \<leftarrow> rd_w16 dgram 1; w2 \<leftarrow> rd_w16 dgram 2;
        w3 \<leftarrow> rd_w16 dgram 3; w4 \<leftarrow> rd_w16 dgram 4; w5 \<leftarrow> rd_w16 dgram 5;
        let i_IPver = shr (u16 (w0 AND 0xC0)) 6;
            i_P = shr (u16 (w0 AND 0x20)) 5;
            i_X = shr (u16 (w0 AND 0x10)) 4;
            i_CC = u16 (w0 AND 0xF);
            payloadType = shr w0 8 AND 0x7F;
            seqNumber = u16 ((shr (u16 w1) 8 AND 0xFF) OR shl (u16 (w1 AND 0xFF)) 8);
            timeStamp = u32 (shl (u16 w2 AND 0xFF) 24 OR shl (u16 w2 AND 0xFF00) 8
                             OR (shr (u16 w3) 8 AND 0xFF) OR shl (u16 w3 AND 0xFF) 8);
            ssrc = u32 (shl (u16 w4 AND 0xFF) 24 OR shl (u16 w4 AND 0xFF00) 8
                        OR (shr (u16 w5) 8 AND 0xFF) OR shl (u16 w5 AND 0xFF) 8);
            fields = h\<lparr>rtp_payloadType := payloadType, rtp_seqNumber := seqNumber,
                       rtp_timeStamp := timeStamp, rtp_ssrc := ssrc\<rparr>
        in do {
          i_extlength \<leftarrow> (if i_X = 1 then rtp_extlength dgram i_CC else Some (-1));
          i_padlength \<leftarrow> (if i_P = 1 then rtp_padlength dgram i_DatagramLen else Some 0);
          Some (rtp_place_payload dgram i_DatagramLen i_IPver i_CC i_extlength i_padlength fields)
        }
      })"

section \<open>Splitting redundant payloads\<close>

text \<open>
  The loop that skips all but the last two blocks.  \<open>k\<close> is the word offset of
  \<open>pw16_data\<close> from the payload pointer, \<open>bound\<close> the offset \<open>(payloadLen + 1) >> 1\<close>.
  The loop condition reads \<open>pw16_data[2]\<close> before it compares the pointer with the bound.
\<close>

function red_skip :: "byte list \<Rightarrow> int \<Rightarrow> nat \<Rightarrow> int \<Rightarrow> (nat \<times> int) option" where
  "red_skip mem bound k discarded =
     (case rd_w16 mem (k + 2) of
        None \<Rightarrow> None
      | Some w2 \<Rightarrow>
          if w2 AND 0x80 \<noteq> 0 \<and> int k < bound then
            (case rd_w16 mem (k + 1) of
               None \<Rightarrow> None
             | Some w1 \<Rightarrow>
                 red_skip mem bound (k + 2)
                   (discarded + (4 + shl (u16 w1 AND 0x3) 8 + shr (u16 w1 AND 0xFF00) 8)))
          else Some (k, discarded))"
  by pat_completeness auto
termination
  by (relation "measure (\<lambda>(mem, bound, k, d). nat (bound - int k))") auto

declare red_skip.simps [simp del]

text \<open>Clearing \<open>RTPheader[first..]\<close>, the headers the packet has no payload for.\<close>

definition clear_payloads :: "nat \<Rightarrow> rtp_packet list \<Rightarrow> rtp_packet list" where
  "clear_payloads first hs =
     take first hs @ map (\<lambda>h. h\<lparr>rtp_payloadType := -1, rtp_payloadLen := 0\<rparr>) (drop first hs)"

text \<open>
  The caller passes as many headers as \<open>i_MaximumPayloads\<close> says, so the list gives both.
  The result is the return value, the headers and \<open>i_No_Of_Payloads\<close> (\<open>None\<close> in that
  component when the code leaves it unset).
\<close>

definition WebRtcNetEQ_RedundancySplit ::
    "rtp_packet list \<Rightarrow> (int \<times> rtp_packet list \<times> int option) option" where
  "WebRtcNetEQ_RedundancySplit hs = do {
     h0 \<leftarrow> get hs 0;
     let mem = rtp_payload h0;
         bound = shr (rtp_payloadLen h0 + 1) 1
     in do {
       w0 \<leftarrow> rd_w16 mem 0;
       if w0 AND 0x80 = 0 then
         \<comment> \<open>only one payload: block length -4 takes off the header that is not there\<close>
         let i_blockLength = -4;
             h0' = h0\<lparr>rtp_payloadType := u16 w0 AND 0x7F,
                      rtp_starts_byte1 := (5 + i_blockLength) AND 0x1,
                      rtp_payloadLen := s16 (rtp_payloadLen h0 - (i_blockLength + 5)),
                      rtp_payload := drop (2 * nat (shr (5 + i_blockLength) 1)) mem\<rparr>
         in Some (0, clear_payloads 1 (hs[0 := h0']), Some 1)
       else do {
         (k, discarded) \<leftarrow> red_skip mem bound 0 0;
         if int k \<ge> bound then Some (RED_SPLIT_ERROR2, hs, None)
         else do {
           v0 \<leftarrow> rd_w16 mem k; v1 \<leftarrow> rd_w16 mem (k + 1); v2 \<leftarrow> rd_w16 mem (k + 2);
           let secondPayload = u16 v0 AND 0x7F;
               offsetTimeStamp = u16 (shr (u16 v0 AND 0xFF00) 2 + shr (u16 v1 AND 0xFC) 2);
               i_blockLength = shl (u16 v1 AND 0x3) 8 + shr (u16 v1 AND 0xFF00) 8;
               data = drop (2 * k) mem;
               main = h0\<lparr>rtp_payloadType := u16 v2 AND 0x7F,
                         rtp_payload := drop (2 * nat (shr (5 + i_blockLength) 1)) data,
                         rtp_starts_byte1 := (5 + i_blockLength) AND 0x1,
                         rtp_payloadLen :=
                           s16 (rtp_payloadLen h0 - (i_blockLength + 5) - discarded)\<rparr>
           in if length hs < 2
              then Some (0, clear_payloads 1 (hs[0 := main]), Some 1)
              else let second = (hs ! 1)\<lparr>rtp_payloadType := secondPayload,
                         rtp_payload := drop (2 * 2) data, rtp_starts_byte1 := 1,
                         rtp_seqNumber := rtp_seqNumber h0,
                         rtp_timeStamp := u32 (rtp_timeStamp h0 - offsetTimeStamp),
                         rtp_ssrc := rtp_ssrc h0, rtp_payloadLen := i_blockLength\<rparr>
                   in Some (0, clear_payloads 2 (hs[0 := main, 1 := second]), Some 2)
         }
       }
     }
   }"

section \<open>The bit fields of a little-endian word\<close>

definition w16_of :: "byte \<Rightarrow> byte \<Rightarrow> int" where
  "w16_of lo hi = s16 (uint lo + 256 * uint hi)"

lemma byte_range [simp]: "0 \<le> uint (b::byte)" "uint (b::byte) < 256"
  using uint_lt2p [of b] by simp_all

lemma rd_w16_Some:
  "2 * i + 1 < length mem \<Longrightarrow> rd_w16 mem i = Some (w16_of (mem ! (2 * i)) (mem ! (2 * i + 1)))"
  by (simp add: rd_w16_def w16_of_def)

lemma rd_w16_None: "length mem \<le> 2 * i + 1 \<Longrightarrow> rd_w16 mem i = None"
  by (cases "2 * i < length mem") (simp_all add: rd_w16_def)

lemma u16_w16_of: "u16 (w16_of lo hi) = uint lo + 256 * uint hi"
proof -
  have "0 \<le> uint lo + 256 * uint hi" "uint lo + 256 * uint hi < 65536"
    using byte_range [of lo] byte_range [of hi] by linarith+
  then show ?thesis
    by (simp add: w16_of_def u16_id)
qed

lemma w16_of_low:
  assumes "n + m \<le> 8"
  shows "w16_of lo hi div 2 ^ n mod 2 ^ m = uint lo div 2 ^ n mod 2 ^ m"
proof (rule bit_field_cong [OF _ assms])
  have "w16_of lo hi mod 256 = u16 (w16_of lo hi) mod 256"
    by (simp add: u16_def mod_mod_cancel)
  also have "\<dots> = uint lo mod 256"
    by (simp add: u16_w16_of)
  finally show "w16_of lo hi mod 2 ^ 8 = uint lo mod 2 ^ 8" by simp
qed

lemma w16_of_high:
  assumes "n + m \<le> 8"
  shows "w16_of lo hi div 2 ^ (8 + n) mod 2 ^ m = uint hi div 2 ^ n mod 2 ^ m"
proof -
  have "w16_of lo hi div 2 ^ (8 + n) mod 2 ^ m = (uint lo + 256 * uint hi) div 2 ^ (8 + n) mod 2 ^ m"
  proof (rule bit_field_cong [where k = 16])
    show "w16_of lo hi mod 2 ^ 16 = (uint lo + 256 * uint hi) mod 2 ^ 16"
      using u16_s16 [of "uint lo + 256 * uint hi"] by (simp add: w16_of_def u16_def)
  qed (use assms in simp)
  also have "\<dots> = uint hi div 2 ^ n mod 2 ^ m"
    by (simp add: power_add zdiv_zmult2_eq)
  finally show ?thesis .
qed

lemma w16_low_field:
  assumes "n + m \<le> 8"
  shows "shr (w16_of lo hi AND shl (2 ^ m - 1) n) n = uint lo div 2 ^ n mod 2 ^ m"
  by (simp only: shr_and_field w16_of_low [OF assms])

lemma w16_version: "shr (u16 (w16_of lo hi AND 0xC0)) 6 = uint lo div 64"
proof -
  have "uint lo div 64 < 4"
    using byte_range [of lo] by linarith
  then show ?thesis
    using w16_low_field [of 6 2 lo hi] by (simp add: u16_and pos_imp_zdiv_nonneg_iff)
qed

lemma w16_bit5: "shr (u16 (w16_of lo hi AND 0x20)) 5 = uint lo div 32 mod 2"
  using w16_low_field [of 5 1 lo hi] by (simp add: u16_and)

lemma w16_bit4: "shr (u16 (w16_of lo hi AND 0x10)) 4 = uint lo div 16 mod 2"
  using w16_low_field [of 4 1 lo hi] by (simp add: u16_and)

lemma w16_low4: "u16 (w16_of lo hi AND 0xF) = uint lo mod 16"
  using w16_low_field [of 0 4 lo hi] u16_and [of 15 "w16_of lo hi"] by simp

lemma w16_low8: "w16_of lo hi AND 0xFF = uint lo"
  using w16_low_field [of 0 8 lo hi] by simp

lemma w16_high7: "shr (w16_of lo hi) 8 AND 0x7F = uint hi mod 128"
  using and_mask_field [of "w16_of lo hi div 2 ^ 8" 7] w16_of_high [of 0 7 lo hi]
  by (simp add: drop_bit_eq_div)

lemma w16_high8: "shr (u16 (w16_of lo hi)) 8 = uint hi"
  by (simp add: u16_w16_of drop_bit_eq_div)

lemma byte_and_FF [simp]: "uint (b::byte) AND 0xFF = uint b"
  using and_mask_field [of "uint b" 8] by simp

lemma u16_byte [simp]: "u16 (uint (b::byte)) = uint b"
  by (rule u16_id) (simp_all add: less_trans [OF byte_range(2)])

lemma w16_swapped:
  "(shr (u16 (w16_of lo hi)) 8 AND 0xFF) OR shl (u16 (w16_of lo hi AND 0xFF)) 8
   = 256 * uint lo + uint hi"
  by (simp add: w16_high8 w16_low8 or_shl)

lemma and_shl: "x AND shl m n = shl (shr x n AND m) n" for x m :: int
  by (rule bit_eqI) (auto simp: bit_simps)

lemma w16_u16_high: "u16 (w16_of lo hi) AND 0xFF00 = shl (uint hi) 8"
proof -
  have "(0xFF00 :: int) = shl 0xFF 8" by simp
  then show ?thesis
    by (simp only: and_shl w16_high8 byte_and_FF)
qed

lemma w16_u16_low: "u16 (w16_of lo hi) AND 0xFF = uint lo"
  using and_mask_field [of "u16 (w16_of lo hi)" 8] by (simp add: u16_w16_of)

lemma w16_be32:
  "u32 (shl (u16 (w16_of a b) AND 0xFF) 24 OR shl (u16 (w16_of a b) AND 0xFF00) 8
        OR (shr (u16 (w16_of c d)) 8 AND 0xFF) OR shl (u16 (w16_of c d) AND 0xFF) 8)
   = 16777216 * uint a + 65536 * uint b + 256 * uint c + uint d"
proof -
  note r = byte_range [of a] byte_range [of b] byte_range [of c] byte_range [of d]
  have "uint d OR shl (uint c) 8 = uint c * 256 + uint d"
    by (simp add: or_shl)
  moreover have "shl (shl (uint b) 8) 8 OR (uint c * 256 + uint d)
                 = uint b * 65536 + (uint c * 256 + uint d)"
    using shl_or [of "uint c * 256 + uint d" 16 "uint b"] r by simp
  moreover have "shl (uint a) 24 OR (uint b * 65536 + (uint c * 256 + uint d))
                 = uint a * 16777216 + (uint b * 65536 + (uint c * 256 + uint d))"
    using shl_or [of "uint b * 65536 + (uint c * 256 + uint d)" 24 "uint a"] r by simp
  moreover have "u32 (uint a * 16777216 + (uint b * 65536 + (uint c * 256 + uint d)))
                 = uint a * 16777216 + (uint b * 65536 + (uint c * 256 + uint d))"
    using r by (intro u32_id) linarith+
  ultimately show ?thesis
    by (simp add: w16_u16_high w16_u16_low w16_high8)
qed

lemmas w16_fields =
  w16_version w16_bit5 w16_bit4 w16_low4 w16_high7 w16_swapped w16_be32

section \<open>What the header parser returns\<close>

text \<open>
  The result of the parser in closed form, with the length in 16 bits as the code computes it: where the payload starts,
  the padding, and the fields.
\<close>

definition rtp_start :: "byte list \<Rightarrow> int" where
  "rtp_start mem =
     (let CC = uint (mem ! 0) mod 16; e = 14 + 4 * nat CC
      in 12 + 4 * CC
         + (if uint (mem ! 0) div 16 mod 2 = 1
            then 4 + 4 * (256 * uint (mem ! e) + uint (mem ! (e + 1))) else 0))"

definition rtp_padding :: "byte list \<Rightarrow> nat \<Rightarrow> int" where
  "rtp_padding mem n = (if uint (mem ! 0) div 32 mod 2 = 1 then uint (mem ! (n - 1)) else 0)"

definition be_at :: "byte list \<Rightarrow> nat \<Rightarrow> int" where
  "be_at mem i = 256 * uint (mem ! i) + uint (mem ! (i + 1))"

lemma be_at_range: "0 \<le> be_at mem i" "be_at mem i < 65536"
  using byte_range [of "mem ! i"] byte_range [of "mem ! (i + 1)"] unfolding be_at_def by linarith+

definition rtp_parsed :: "byte list \<Rightarrow> nat \<Rightarrow> rtp_packet \<Rightarrow> int \<times> rtp_packet" where
  "rtp_parsed mem n h =
     (let start = rtp_start mem; len = s16 (int n - start - rtp_padding mem n);
          h' = h\<lparr>rtp_payloadType := uint (mem ! 1) mod 128, rtp_seqNumber := be_at mem 2,
                rtp_timeStamp := 65536 * be_at mem 4 + be_at mem 6,
                rtp_ssrc := 65536 * be_at mem 8 + be_at mem 10,
                rtp_payload := drop (nat start) mem, rtp_payloadLen := len,
                rtp_starts_byte1 := 0\<rparr>
      in if uint (mem ! 0) div 64 = 2 \<and> 0 < len \<and> len < 16000 \<and> start \<le> int n
         then (0, h') else (RTP_CORRUPT_PACKET, h'))"

text \<open>
  What the caller has to guarantee for the parser to stay inside the buffer: a full fixed
  header, one byte after the datagram, and the extension length when the X bit is set.
\<close>

definition rtp_readable :: "byte list \<Rightarrow> nat \<Rightarrow> bool" where
  "rtp_readable mem n \<longleftrightarrow> 12 \<le> n \<and> n < length mem \<and>
     (uint (mem ! 0) div 16 mod 2 = 1 \<longrightarrow> 16 + 4 * nat (uint (mem ! 0) mod 16) \<le> length mem)"

lemma int_and_1: "int n AND 1 = int n mod 2" 
  using and_mask_field [of "int n" 1] by simp

lemma padlength:
  assumes "2 \<le> n" "n < length mem"
  shows "rtp_padlength mem (int n) = Some (uint (mem ! (n - 1)))"
proof (cases "odd n")
  case True
  then have "2 * (n div 2) = n - 1" by simp
  moreover have "int n AND 1 \<noteq> 0" using True by (simp add: int_and_1) presburger
  ultimately show ?thesis using assms
    by (simp add: rtp_padlength_def rd_w16_Some w16_low8 drop_bit_eq_div nat_div_distrib)
next
  case False
  then have n: "2 * (n div 2 - 1) = n - 2" "Suc (n - 2) = n - 1" using assms by auto
  have "nat (int n div 2 - 1) = n div 2 - 1" by (simp add: nat_diff_distrib' nat_div_distrib)
  moreover have "int n AND 1 = 0" using False by (simp add: int_and_1)
  moreover have "rd_w16 mem (n div 2 - 1) = Some (w16_of (mem ! (n - 2)) (mem ! (n - 1)))"
    using assms n by (subst rd_w16_Some) simp_all
  ultimately show ?thesis
    by (simp add: rtp_padlength_def shr_eq_div u16_w16_of)
qed

lemma extlength:
  assumes "15 + 4 * nat c < length mem"
  shows "rtp_extlength mem c = Some (be_at mem (14 + 4 * nat c))"
  using assms by (subst rtp_extlength_def, subst rd_w16_Some)
    (simp_all add: w16_swapped be_at_def algebra_simps)

lemma place_payload_closed:
  assumes "0 \<le> C" "-1 \<le> E" "S = 16 + 4 * E + 4 * C"
  shows "rtp_place_payload mem (int n) V C E P h =
    (let len = s16 (int n - S - P);
         h' = h\<lparr>rtp_payload := drop (nat S) mem, rtp_payloadLen := len, rtp_starts_byte1 := 0\<rparr>
     in if V = 2 \<and> 0 < len \<and> len < 16000 \<and> S \<le> int n then (0, h') else (RTP_CORRUPT_PACKET, h'))"
proof -
  have S: "12 + 4 * (E + 1) + 4 * C = S" "\<not> S < 12" using assms by simp_all
  have "2 * nat (shr S 1) = nat S"
    using assms by (simp add: drop_bit_eq_div flip: nat_mult_distrib)
  then show ?thesis
    unfolding rtp_place_payload_def Let_def S(1) using S(2) by (simp only: not_le not_less) auto
qed

lemma header_words:
  assumes "12 \<le> length mem"
  shows "rd_w16 mem 0 = Some (w16_of (mem ! 0) (mem ! 1))"
    "rd_w16 mem 1 = Some (w16_of (mem ! 2) (mem ! 3))"
    "rd_w16 mem 2 = Some (w16_of (mem ! 4) (mem ! 5))"
    "rd_w16 mem 3 = Some (w16_of (mem ! 6) (mem ! 7))"
    "rd_w16 mem 4 = Some (w16_of (mem ! 8) (mem ! 9))"
    "rd_w16 mem 5 = Some (w16_of (mem ! 10) (mem ! 11))"
  using assms by (simp_all add: rd_w16_Some)

lemma RTPPayloadInfo_closed:
  assumes "rtp_readable mem n"
  shows "WebRtcNetEQ_RTPPayloadInfo mem (int n) h = Some (rtp_parsed mem n h)"
proof -
  let ?b = "\<lambda>i. uint (mem ! i)"
  let ?C = "?b 0 mod 16"
  have len: "12 \<le> n" "n < length mem" using assms by (simp_all add: rtp_readable_def)
  define E where "E = (if ?b 0 div 16 mod 2 = 1 then be_at mem (14 + 4 * nat ?C) else -1)"
  have E: "-1 \<le> E" using be_at_range [of mem "14 + 4 * nat ?C"] by (simp add: E_def)
  have ext: "(if ?b 0 div 16 mod 2 = 1 then rtp_extlength mem ?C else Some (-1)) = Some E"
    using extlength [of ?C mem] assms by (auto simp: E_def rtp_readable_def)
  have pad: "(if ?b 0 div 32 mod 2 = 1 then rtp_padlength mem (int n) else Some 0)
             = Some (rtp_padding mem n)"
    using padlength [of n mem] len by (simp add: rtp_padding_def)
  have start: "rtp_start mem = 16 + 4 * E + 4 * ?C"
    by (simp add: rtp_start_def E_def be_at_def Let_def)
  have "12 \<le> length mem" using len by simp
  note words = header_words [OF this]
  have be: "256 * ?b 2 + ?b 3 = be_at mem 2"
    "16777216 * ?b 4 + 65536 * ?b 5 + 256 * ?b 6 + ?b 7 = 65536 * be_at mem 4 + be_at mem 6"
    "16777216 * ?b 8 + 65536 * ?b 9 + 256 * ?b 10 + ?b 11 = 65536 * be_at mem 8 + be_at mem 10"
    by (simp_all add: be_at_def)
  have "WebRtcNetEQ_RTPPayloadInfo mem (int n) h =
        Some (rtp_place_payload mem (int n) (?b 0 div 64) ?C E (rtp_padding mem n)
          (h\<lparr>rtp_payloadType := ?b 1 mod 128, rtp_seqNumber := be_at mem 2,
             rtp_timeStamp := 65536 * be_at mem 4 + be_at mem 6,
             rtp_ssrc := 65536 * be_at mem 8 + be_at mem 10\<rparr>))"
    using len words
    by (simp only: WebRtcNetEQ_RTPPayloadInfo_def Let_def words Option.bind_lunit w16_fields ext
          pad be u16_id be_at_range) simp
  then show ?thesis
    using place_payload_closed [OF _ E start, of mem n] by (simp add: rtp_parsed_def Let_def)
qed

lemma RTPPayloadInfo_overread:
  assumes "12 \<le> n" "n < length mem" "uint (mem ! 0) div 16 mod 2 = 1"
    "length mem < 16 + 4 * nat (uint (mem ! 0) mod 16)"
  shows "WebRtcNetEQ_RTPPayloadInfo mem (int n) h = None"
proof -
  have "rtp_extlength mem (uint (mem ! 0) mod 16) = None"
    using assms(4) by (simp add: rtp_extlength_def rd_w16_None)
  moreover have "12 \<le> length mem" "\<not> int n < 12" using assms(1,2) by simp_all
  ultimately show ?thesis
    using assms(3) by (simp only: WebRtcNetEQ_RTPPayloadInfo_def Let_def header_words
      Option.bind_lunit w16_fields if_True if_False bind_eq_None_conv) simp
qed

section \<open>The header parser implements RFC 3550\<close>

text \<open>
  RFC 3550 read directly: a header of 12 bytes, \<open>CC\<close> contributing sources, an optional extension
  of four bytes and as many words as its length says, the payload, and padding whose length
  is the last byte; all fields are in network byte order.  A datagram is valid when its version is 2 and its
  header and its padding lie within it.  The result is the payload type, the sequence number, the time stamp, the
  synchronisation source and the payload.
\<close>

definition rfc3550 :: "byte list \<Rightarrow> nat \<Rightarrow> (int \<times> int \<times> int \<times> int \<times> byte list) option" where
  "rfc3550 mem n =
     (let b0 = unat (mem ! 0); CC = b0 mod 16;
          extension = (if b0 div 16 mod 2 = 1 then 4 + 4 * nat (be_at mem (14 + 4 * CC)) else 0);
          start = 12 + 4 * CC + extension;
          padding = (if b0 div 32 mod 2 = 1 then unat (mem ! (n - 1)) else 0)
      in if b0 div 64 = 2 \<and> start + padding \<le> n
         then Some (uint (mem ! 1) mod 128, be_at mem 2, 65536 * be_at mem 4 + be_at mem 6, 65536 * be_at mem 8 + be_at mem 10,
                slice start (n - start - padding) mem)
         else None)"

lemma uint_nat_fields: "uint (b :: byte) mod 16 = int (unat b mod 16)" "uint b div 16 mod 2 = int (unat b div 16 mod 2)"
  "uint b div 32 mod 2 = int (unat b div 32 mod 2)" "uint b div 64 = int (unat b div 64)"
  by (simp_all only: uint_nat zmod_int zdiv_int of_nat_numeral)

lemma rtp_parse_rfc3550:
  assumes "rtp_readable mem n" "n < 65536"
  shows "\<exists>ret h'. WebRtcNetEQ_RTPPayloadInfo mem (int n) h = Some (ret, h')
    \<and> (case rfc3550 mem n of
         None \<Rightarrow> ret = RTP_CORRUPT_PACKET
       | Some (pt, seq, ts, ssrc, payload) \<Rightarrow>
           rtp_payloadType h' = pt \<and> rtp_seqNumber h' = seq \<and> rtp_timeStamp h' = ts \<and> rtp_ssrc h' = ssrc
           \<and> (if 0 < length payload \<and> length payload < 16000
              then ret = 0 \<and> rtp_payloadLen h' = int (length payload) \<and> take (length payload) (rtp_payload h') = payload
                \<and> rtp_starts_byte1 h' = 0
              else ret = RTP_CORRUPT_PACKET))"
proof -
  define b0 where "b0 = unat (mem ! 0)"
  define start where "start = 12 + 4 * (b0 mod 16) + (if b0 div 16 mod 2 = 1 then 4 + 4 * nat (be_at mem (14 + 4 * (b0 mod 16))) else 0)"
  define pad where "pad = (if b0 div 32 mod 2 = 1 then unat (mem ! (n - 1)) else 0)"
  have rfc: "rfc3550 mem n = (if b0 div 64 = 2 \<and> start + pad \<le> n
         then Some (uint (mem ! 1) mod 128, be_at mem 2, 65536 * be_at mem 4 + be_at mem 6, 65536 * be_at mem 8 + be_at mem 10,
                slice start (n - start - pad) mem) else None)"
    by (simp only: rfc3550_def Let_def b0_def start_def pad_def)
  note f = uint_nat_fields [of "mem ! 0", folded b0_def]
  have w: "256 * uint (mem ! e) + uint (mem ! (e + 1)) = int (nat (be_at mem e))" for e
    using be_at_range(1) [of mem e] by (simp only: be_at_def int_nat_eq if_True)
  have s: "rtp_start mem = int start" "rtp_padding mem n = int pad" "uint (mem ! 0) div 64 = int (b0 div 64)"
    by (simp_all only: rtp_start_def rtp_padding_def Let_def f start_def pad_def nat_int w uint_nat [of "mem ! (n - 1)"] of_nat_add of_nat_mult
        of_nat_numeral of_nat_0 of_nat_eq_1_iff if_distrib [of int])
      simp_all
  have "unat (mem ! (n - 1)) < 256" using byte_range(2) [of "mem ! (n - 1)", unfolded uint_nat] by linarith
  then have pad: "pad < 256" by (simp add: pad_def)
  have len: "n < length mem" using assms(1) by (simp add: rtp_readable_def)
  define k where "k = int n - int start - int pad"
  have wrap: "s16 k = (if k < 32768 then k else k - 65536)" if "start \<le> n"
  proof (cases "k < 32768")
    case True
    then show ?thesis using that pad by (subst s16_id) (simp_all add: k_def)
  next
    case False
    moreover have "k < 65536" using assms(2) by (simp add: k_def)
    ultimately have "u16 k = k" by (intro u16_id) simp_all
    with False show ?thesis by (simp only: s16_cases if_False if_True split: if_split) 
  qed
  have ok: "0 < s16 k \<and> s16 k < 16000 \<longleftrightarrow> start + pad < n \<and> n - start - pad < 16000" if "start \<le> n"
    unfolding wrap [OF that] using that assms(2) by (auto simp: k_def)
  have eq: "s16 k = int (n - start - pad)" if "start + pad < n" "n - start - pad < 16000"
    using wrap that by (simp add: k_def)
  show ?thesis
  proof (cases "b0 div 64 = 2 \<and> start + pad < n \<and> n - start - pad < 16000")
    case True
    then show ?thesis
      using ok eq len by (simp add: RTPPayloadInfo_closed [OF assms(1)] rtp_parsed_def Let_def s rfc slice_def flip: k_def)
  next
    case False
    then have "rtp_parsed mem n h = (RTP_CORRUPT_PACKET, snd (rtp_parsed mem n h))"
      using ok by (auto simp: rtp_parsed_def Let_def s simp flip: k_def)
    moreover have "rtp_payloadType (snd (rtp_parsed mem n h)) = uint (mem ! 1) mod 128"
      "rtp_seqNumber (snd (rtp_parsed mem n h)) = be_at mem 2"
      "rtp_timeStamp (snd (rtp_parsed mem n h)) = 65536 * be_at mem 4 + be_at mem 6"
      "rtp_ssrc (snd (rtp_parsed mem n h)) = 65536 * be_at mem 8 + be_at mem 10"
      by (simp_all add: rtp_parsed_def Let_def)
    ultimately show ?thesis using False len
      by (intro exI [of _ RTP_CORRUPT_PACKET] exI [of _ "snd (rtp_parsed mem n h)"])
        (auto simp: RTPPayloadInfo_closed [OF assms(1)] rfc slice_def)
  qed
qed

text \<open>C5: On every datagram of at most 65535 bytes that the caller may pass, the header parser agrees with RFC 3550:
  a datagram that is not valid is refused as corrupt; of a valid one it returns the fields, and, when the payload has from 1 to 15999
  bytes, success with the length of the payload and a pointer to it.  An empty payload or one of 16000 bytes or more, which the RFC allows,
  is refused as corrupt by the code.  A padding count of 0, which the RFC rules out, is taken for no padding by both.\<close>

theorem rtp_parse_is_rfc3550:
  assumes "rtp_readable mem n" "n < 65536"
  shows "\<exists>ret h'. WebRtcNetEQ_RTPPayloadInfo mem (int n) h = Some (ret, h')
    \<and> (case rfc3550 mem n of
         None \<Rightarrow> ret = RTP_CORRUPT_PACKET
       | Some (pt, seq, ts, ssrc, payload) \<Rightarrow>
           rtp_payloadType h' = pt \<and> rtp_seqNumber h' = seq \<and> rtp_timeStamp h' = ts \<and> rtp_ssrc h' = ssrc
           \<and> (if 0 < length payload \<and> length payload < 16000
              then ret = 0 \<and> rtp_payloadLen h' = int (length payload) \<and> take (length payload) (rtp_payload h') = payload
                \<and> rtp_starts_byte1 h' = 0
              else ret = RTP_CORRUPT_PACKET))"
  by (rule rtp_parse_rfc3550 [OF assms])

lemma rtp_parse_is_rfc3550_witness:
  "\<exists>ret h'. WebRtcNetEQ_RTPPayloadInfo (map word_of_int [128,96,0,7,0,0,0,1,0,0,0,2,42,0]) (int 13) rtp_blank = Some (ret, h')
    \<and> (case rfc3550 (map word_of_int [128,96,0,7,0,0,0,1,0,0,0,2,42,0]) 13 of
         None \<Rightarrow> ret = RTP_CORRUPT_PACKET
       | Some (pt, seq, ts, ssrc, payload) \<Rightarrow>
           rtp_payloadType h' = pt \<and> rtp_seqNumber h' = seq \<and> rtp_timeStamp h' = ts \<and> rtp_ssrc h' = ssrc
           \<and> (if 0 < length payload \<and> length payload < 16000
              then ret = 0 \<and> rtp_payloadLen h' = int (length payload) \<and> take (length payload) (rtp_payload h') = payload
                \<and> rtp_starts_byte1 h' = 0
              else ret = RTP_CORRUPT_PACKET))"
  by (rule rtp_parse_is_rfc3550) (simp_all add: rtp_readable_def)



text \<open>A payload the parser accepts lies inside the datagram.\<close>

theorem rtp_payload_inside:
  assumes "rtp_readable mem n" "n \<le> 32767"
    "WebRtcNetEQ_RTPPayloadInfo mem (int n) h = Some (0, h')"
  shows "\<exists>start. 12 \<le> start \<and> rtp_payload h' = drop start mem \<and> 0 < rtp_payloadLen h'
    \<and> int start + rtp_payloadLen h' \<le> int n"
proof -
  let ?S = "rtp_start mem" and ?P = "rtp_padding mem n"
  let ?len = "s16 (int n - ?S - ?P)"
  have S: "12 \<le> ?S" 
    using byte_range [of "mem ! 0"] by (auto simp: rtp_start_def Let_def)
  have P: "0 \<le> ?P" "?P < 256" by (simp_all add: rtp_padding_def)
  have ok: "0 < ?len" "?S \<le> int n" and h': "rtp_payload h' = drop (nat ?S) mem" "rtp_payloadLen h' = ?len"
    using assms(3) unfolding RTPPayloadInfo_closed [OF assms(1)] 
    by (auto simp: rtp_parsed_def Let_def RTP_CORRUPT_PACKET_def split: if_splits)
  have "?len = int n - ?S - ?P" using S P ok(2) assms(2) by (intro s16_id) linarith+
  with S P ok h' show ?thesis by (intro exI [of _ "nat ?S"]) auto
qed

lemma rtp_payload_inside_witness:
  "\<exists>start (h' :: rtp_packet). 12 \<le> start \<and> rtp_payload h' = drop start (map word_of_int [128,96,0,7,0,0,0,1,0,0,0,2,42,0 :: int])
    \<and> 0 < rtp_payloadLen h' \<and> int start + rtp_payloadLen h' \<le> int 13"
proof -
  let ?mem = "map word_of_int [128,96,0,7,0,0,0,1,0,0,0,2,42,0 :: int]" and ?h = rtp_blank
  have r: "rtp_readable ?mem 13" by (simp add: rtp_readable_def)
  have "fst (rtp_parsed ?mem 13 ?h) = 0"
    by (simp add: rtp_parsed_def Let_def rtp_start_def rtp_padding_def s16_def)
  then obtain h' where "WebRtcNetEQ_RTPPayloadInfo ?mem (int 13) ?h = Some (0, h')"
    using RTPPayloadInfo_closed [OF r, of ?h] by (metis prod.collapse)
  moreover have "13 \<le> (32767 :: nat)" by simp
  ultimately show ?thesis using rtp_payload_inside [OF r] by blast
qed

section \<open>Round trip through the wire format\<close>

text \<open>A sender's view: the bytes of a packet with the given fields.\<close>

definition byte_of :: "int \<Rightarrow> byte" where
  "byte_of v = word_of_int v"

definition be16 :: "int \<Rightarrow> byte list" where
  "be16 v = [byte_of (v div 256), byte_of v]"

definition be32 :: "int \<Rightarrow> byte list" where
  "be32 v = be16 (v div 65536) @ be16 v"

definition rtp_encode :: "int \<Rightarrow> int \<Rightarrow> int \<Rightarrow> int \<Rightarrow> int \<Rightarrow> int list \<Rightarrow> (int \<times> int list) option \<Rightarrow>
    byte list \<Rightarrow> nat \<Rightarrow> byte list" where
  "rtp_encode marker pt seq ts ssrc csrcs ext payload pad =
     [byte_of (128 + 32 * c_bool (0 < pad) + 16 * c_bool (ext \<noteq> None) + int (length csrcs)),
      byte_of (128 * marker + pt)] @ be16 seq @ be32 ts @ be32 ssrc
     @ concat (map be32 csrcs)
     @ (case ext of None \<Rightarrow> []
        | Some (profile, ws) \<Rightarrow> be16 profile @ be16 (int (length ws)) @ concat (map be32 ws))
     @ payload
     @ (if pad = 0 then [] else replicate (pad - 1) 0 @ [byte_of (int pad)])"

lemma length_be [simp]: "length (be16 v) = 2" "length (be32 v) = 4"
  by (simp_all add: be16_def be32_def)

lemma length_concat_be32 [simp]: "length (concat (map be32 ws)) = 4 * length ws"
  by (induction ws) simp_all

lemma uint_byte_of: "uint (byte_of v) = v mod 256"
  by (simp add: byte_of_def uint_word_of_int)

lemma be_at_append: "length xs = i \<Longrightarrow> be_at (xs @ be16 v @ ys) i = v mod 65536"
  by (simp add: be_at_def be16_def nth_append uint_byte_of zmod_zmult2_eq [of 256 v 256, simplified])

lemma first_byte_fields:
  assumes "b = 128 + 32 * p + 16 * x + c" "0 \<le> c" "c < 16" "p \<in> {0, 1}" "x \<in> {0, 1::int}"
  shows "b mod 256 = b" "b mod 16 = c" "b div 64 = 2" "b div 16 mod 2 = x" "b div 32 mod 2 = p"
proof -
  show "b mod 256 = b" using assms by auto
  have b: "b = c + (8 + 2 * p + x) * 16" using assms(1) by simp
  show "b mod 16 = c" unfolding b mod_mult_self1 using assms(2,3) by simp
  have "b div 16 = 8 + 2 * p + x" unfolding b using assms(2,3) by simp
  then show "b div 16 mod 2 = x" using assms(4,5) by auto
  show "b div 64 = 2" using assms by auto
  have b: "b = (c + 16 * x) + (4 + p) * 32" using assms(1) by simp
  have "0 \<le> c + 16 * x" "c + 16 * x < 32" using assms(2-5) by auto
  then have "b div 32 = 4 + p" unfolding b by simp
  then show "b div 32 mod 2 = p" using assms(4) by auto
qed

text \<open>C36: A packet written with any field values, contributing sources, header extension,
  payload of at most 15999 bytes and padding is parsed back to the same fields and payload.\<close>

theorem rtp_roundtrip:
  assumes "marker \<in> {0, 1}" "0 \<le> pt" "pt < 128" "0 \<le> seq" "seq < 65536"
    "0 \<le> ts" "ts < 4294967296" "0 \<le> ssrc" "ssrc < 4294967296"
    "length csrcs \<le> 15" "case ext of None \<Rightarrow> True | Some (p, ws) \<Rightarrow> length ws < 65536"
    "0 < length payload" "length payload < 16000" "pad < 256" "rest \<noteq> []"
  defines "dgram \<equiv> rtp_encode marker pt seq ts ssrc csrcs ext payload pad"
  shows "\<exists>h'. WebRtcNetEQ_RTPPayloadInfo (dgram @ rest) (int (length dgram)) h = Some (0, h')
    \<and> rtp_payloadType h' = pt \<and> rtp_seqNumber h' = seq \<and> rtp_timeStamp h' = ts
    \<and> rtp_ssrc h' = ssrc \<and> rtp_payloadLen h' = int (length payload)
    \<and> take (length payload) (rtp_payload h') = payload"
proof -
  let ?mem = "dgram @ rest" and ?n = "length dgram" and ?cc = "length csrcs"
  define b0 where "b0 = 128 + 32 * c_bool (0 < pad) + 16 * c_bool (ext \<noteq> None) + int ?cc"
  define extb where "extb = (case ext of None \<Rightarrow> []
        | Some (profile, ws) \<Rightarrow> be16 profile @ be16 (int (length ws)) @ concat (map be32 ws))"
  define padb :: "byte list" where
    "padb = (if pad = 0 then [] else replicate (pad - 1) 0 @ [byte_of (int pad)])"
  define hd where "hd = [byte_of b0, byte_of (128 * marker + pt)] @ be16 seq @ be32 ts @ be32 ssrc"
  have d: "dgram = hd @ concat (map be32 csrcs) @ extb @ payload @ padb"
    by (simp add: dgram_def rtp_encode_def hd_def b0_def extb_def padb_def)
  have hd: "length hd = 12" by (simp add: hd_def)
  have n: "?n = 12 + 4 * ?cc + length extb + length payload + pad"
    by (simp add: d hd padb_def)
  have i: "i < 12 \<Longrightarrow> ?mem ! i = hd ! i" for i by (simp add: d hd nth_append)
  note fields = first_byte_fields [OF b0_def, simplified, of]
  have b0: "uint (?mem ! 0) = b0"
    using fields(1) assms(10) unfolding i [of 0, simplified] by (simp add: hd_def uint_byte_of)
  have b0f: "uint (?mem ! 0) mod 16 = int ?cc" "uint (?mem ! 0) div 64 = 2"
    "uint (?mem ! 0) div 16 mod 2 = c_bool (ext \<noteq> None)"
    "uint (?mem ! 0) div 32 mod 2 = c_bool (0 < pad)"
    using fields assms(10) unfolding b0 by auto
  have start: "rtp_start ?mem = 12 + 4 * int ?cc + int (length extb)"
  proof (cases ext)
    case None
    then show ?thesis by (simp add: rtp_start_def b0f Let_def extb_def)
  next
    case (Some pw)
    obtain p ws where pw: "pw = (p, ws)" by fastforce
    have "?mem = (hd @ concat (map be32 csrcs) @ be16 p) @ be16 (int (length ws))
                 @ concat (map be32 ws) @ payload @ padb @ rest"
      by (simp add: d extb_def Some pw)
    then have "be_at ?mem (14 + 4 * ?cc) = int (length ws) mod 65536"
      by (simp only: be_at_append length_append hd length_be length_concat_be32)
    also have "\<dots> = int (length ws)" using assms(11) Some pw by simp
    finally have "256 * uint (?mem ! (14 + 4 * ?cc)) + uint (?mem ! (15 + 4 * ?cc)) = int (length ws)"
      by (simp add: be_at_def)
    then show ?thesis
      by (simp add: rtp_start_def b0f Let_def) (simp add: extb_def Some pw)
  qed
  have pad: "rtp_padding ?mem ?n = int pad"
  proof (cases "pad = 0")
    case True
    then show ?thesis by (simp add: rtp_padding_def b0f)
  next
    case False
    have "?mem = (hd @ concat (map be32 csrcs) @ extb @ payload @ replicate (pad - 1) 0)
                 @ byte_of (int pad) # rest" (is "_ = ?front @ _ # _")
      by (simp add: d padb_def False)
    moreover have "?n - 1 = length ?front" using False by (simp add: n hd)
    ultimately have "?mem ! (?n - 1) = byte_of (int pad)" by (metis nth_append_length)
    then show ?thesis using False assms(14) by (simp add: rtp_padding_def b0f uint_byte_of)
  qed
  have "be_at ?mem (length a) = v mod 65536" if "hd = a @ be16 v @ b" for a b v
    unfolding d that by (simp add: be_at_append)
  note at = this
  let ?b01 = "[byte_of b0, byte_of (128 * marker + pt)]"
  have "be_at ?mem (length ?b01) = seq mod 65536"
    by (rule at [of _ _ "be32 ts @ be32 ssrc"]) (simp add: hd_def)
  moreover have "be_at ?mem (length (?b01 @ be16 seq)) = ts div 65536 mod 65536"
    by (rule at [of _ _ "be16 ts @ be32 ssrc"]) (simp add: hd_def be32_def)
  moreover have "be_at ?mem (length (?b01 @ be16 seq @ be16 (ts div 65536))) = ts mod 65536"
    by (rule at [of _ _ "be32 ssrc"]) (simp add: hd_def be32_def)
  moreover have "be_at ?mem (length (?b01 @ be16 seq @ be32 ts)) = ssrc div 65536 mod 65536"
    by (rule at [of _ _ "be16 ssrc"]) (simp add: hd_def be32_def)
  moreover have "be_at ?mem (length (?b01 @ be16 seq @ be32 ts @ be16 (ssrc div 65536))) = ssrc mod 65536"
    by (rule at [of _ _ "[]"]) (simp add: hd_def be32_def)
  ultimately have be: "be_at ?mem 2 = seq" "65536 * be_at ?mem 4 + be_at ?mem 6 = ts"
    "65536 * be_at ?mem 8 + be_at ?mem 10 = ssrc"
    using assms(4-9) by (simp_all add: numeral_2_eq_2 [symmetric])
  have "\<And>i. i < 12 \<Longrightarrow> ?mem ! i = hd ! i" using hd by (simp add: d nth_append)
  then have pt: "uint (?mem ! 1) mod 128 = pt"
    using assms(1-3) by (auto simp: hd_def uint_byte_of mod_mod_cancel)
  have body: "drop (12 + 4 * ?cc + length extb) ?mem = payload @ padb @ rest"
    by (simp add: d hd)
  have readable: "rtp_readable ?mem ?n"
  proof -
    have "ext \<noteq> None \<Longrightarrow> 4 \<le> length extb" by (auto simp: extb_def)
    then show ?thesis using assms(15) n by (auto simp: rtp_readable_def b0f)
  qed
  have len: "s16 (int ?n - rtp_start ?mem - rtp_padding ?mem ?n) = int (length payload)"
    unfolding start pad using assms(13) by (simp add: n s16_id)
  show ?thesis
    unfolding RTPPayloadInfo_closed [OF readable]
    unfolding rtp_parsed_def Let_def len unfolding start pt be
    using assms(12,13) body by (simp add: b0f n nat_add_distrib nat_mult_distrib)
qed

lemma rtp_roundtrip_witness:
  "\<exists>h'. WebRtcNetEQ_RTPPayloadInfo (rtp_encode 1 8 77 160 9 [5] (Some (3, [1])) [1, 2, 3] 2 @ [0])
      (int (length (rtp_encode 1 8 77 160 9 [5] (Some (3, [1])) [1, 2, 3] 2))) rtp_blank = Some (0, h')
    \<and> rtp_payloadType h' = 8 \<and> rtp_seqNumber h' = 77 \<and> rtp_timeStamp h' = 160
    \<and> rtp_ssrc h' = 9 \<and> rtp_payloadLen h' = int (length [1, 2, 3 :: byte])
    \<and> take (length [1, 2, 3 :: byte]) (rtp_payload h') = [1, 2, 3]"
  by (rule rtp_roundtrip) simp_all

section \<open>Redundant payloads\<close>

text \<open>
  The bytes a header denotes, one RFC 2198 block header, and the values its fields can hold.
\<close>

definition rtp_data :: "rtp_packet \<Rightarrow> byte list" where
  "rtp_data h = slice (nat (rtp_starts_byte1 h)) (nat (rtp_payloadLen h)) (rtp_payload h)"

definition red_header :: "int \<Rightarrow> int \<Rightarrow> nat \<Rightarrow> byte list" where
  "red_header pt offset len =
     [byte_of (128 + pt), byte_of (offset div 64), byte_of (offset mod 64 * 4 + int len div 256),
      byte_of (int len)]"

definition red_ok :: "int \<Rightarrow> int \<Rightarrow> nat \<Rightarrow> bool" where
  "red_ok pt offset n \<longleftrightarrow> 0 \<le> pt \<and> pt < 128 \<and> 0 \<le> offset \<and> offset < 16384 \<and> n < 1024"

definition red_w0 where "red_w0 pt offset = w16_of (byte_of (128 + pt)) (byte_of (offset div 64))"
definition red_w1 where "red_w1 offset n = w16_of (byte_of (offset mod 64 * 4 + n div 256)) (byte_of n)"

lemma u16_low_field:
  assumes "n + m \<le> 8"
  shows "shr (u16 (w16_of lo hi) AND shl (2 ^ m - 1) n) n = uint lo div 2 ^ n mod 2 ^ m"
  unfolding shr_and_field by (rule bit_field_cong [OF _ assms]) (simp add: u16_w16_of)

lemma w16_u16_low7: "u16 (w16_of lo hi) AND 0x7F = uint lo mod 128"
  using u16_low_field [of 0 7 lo hi] by simp

lemma w16_bit7: "w16_of lo hi AND 0x80 = uint lo div 128 * 128"
proof -
  have "(0x80::int) = shl 1 7" by simp
  then have "w16_of lo hi AND 0x80 = shl (shr (w16_of lo hi) 7 AND 1) 7"
    by (simp only: and_shl)
  also have "shr (w16_of lo hi) 7 AND 1 = uint lo div 128"
    using and_mask_field [of "w16_of lo hi div 2 ^ 7" 1] w16_of_low [of 7 1 lo hi] byte_range [of lo]
    by (simp add: drop_bit_eq_div)
  finally show ?thesis by (simp add: push_bit_eq_mult)
qed

lemma red_fields:
  assumes "0 \<le> pt" "pt < 128" "0 \<le> offset" "offset < 16384" "0 \<le> n" "n < 1024"
  shows "red_w0 pt offset AND 0x80 = 128" "u16 (red_w0 pt offset) AND 0x7F = pt"
    "u16 (shr (u16 (red_w0 pt offset) AND 0xFF00) 2 + shr (u16 (red_w1 offset n) AND 0xFC) 2) = offset"
    "shl (u16 (red_w1 offset n) AND 0x3) 8 + shr (u16 (red_w1 offset n) AND 0xFF00) 8 = n"
proof -
  have "(128 + pt) mod 256 = 128 + pt" using assms by simp
  then have b: "uint (byte_of (128 + pt)) = 128 + pt" by (simp add: uint_byte_of)
  show "red_w0 pt offset AND 0x80 = 128" "u16 (red_w0 pt offset) AND 0x7F = pt"
    using assms by (simp_all add: red_w0_def w16_bit7 w16_u16_low7 b)
  let ?b1 = "byte_of (offset mod 64 * 4 + n div 256)"
  have n: "0 \<le> n div 256" "n div 256 < 4" using assms by auto
  have "0 \<le> offset mod 64" "offset mod 64 < 64" by simp_all
  then have b1: "uint ?b1 = offset mod 64 * 4 + n div 256"
    using n by (simp add: uint_byte_of)
  have o: "uint (byte_of (offset div 64)) = offset div 64" using assms by (simp add: uint_byte_of)
  have "shr (u16 (red_w0 pt offset) AND 0xFF00) 2 = offset div 64 * 64"
    by (simp add: red_w0_def w16_u16_high o shr_eq_div shl_eq_mult)
  moreover have "shr (u16 (red_w1 offset n) AND 0xFC) 2 = offset mod 64"
    using u16_low_field [of 2 6 ?b1 "byte_of n"] n b1 by (simp add: red_w1_def)
  ultimately show "u16 (shr (u16 (red_w0 pt offset) AND 0xFF00) 2 + shr (u16 (red_w1 offset n) AND 0xFC) 2) = offset"
    using assms by (simp add: u16_id)
  have "u16 (red_w1 offset n) AND 0x3 = n div 256"
    using u16_low_field [of 0 2 ?b1 "byte_of n"] n b1 by (simp add: red_w1_def)
  moreover have "shr (u16 (red_w1 offset n) AND 0xFF00) 8 = n mod 256"
    by (simp add: red_w1_def w16_u16_high uint_byte_of shr_eq_div shl_eq_mult)
  ultimately show "shl (u16 (red_w1 offset n) AND 0x3) 8 + shr (u16 (red_w1 offset n) AND 0xFF00) 8 = n"
    by (simp add: shl_eq_mult)
qed

lemma red_header_words:
  "rd_w16 (red_header pt offset n @ rest) 0 = Some (red_w0 pt offset)"
  "rd_w16 (red_header pt offset n @ rest) 1 = Some (red_w1 offset (int n))"
  by (simp_all add: rd_w16_Some red_header_def red_w0_def red_w1_def)

lemma rd_w16_skip: "length xs = 2 * k \<Longrightarrow> rd_w16 (xs @ ys) (k + i) = rd_w16 ys i"
  by (simp add: rd_w16_def get_def nth_append algebra_simps)

lemma length_red_header [simp]: "length (red_header pt offset n) = 4"
  by (simp add: red_header_def)

text \<open>A RED payload with a single block becomes one payload: the block without its header
  byte, under the payload type of that byte and the packet's own timestamp.\<close>

theorem red_single:
  assumes "0 \<le> pt" "pt < 128" "hs \<noteq> []" "rtp_payload (hs ! 0) = byte_of pt # d @ rest" 
    "rtp_payloadLen (hs ! 0) = 1 + int (length d)" "length d < 16000" "d \<noteq> []"
  shows "\<exists>h'. WebRtcNetEQ_RedundancySplit hs = Some (0, clear_payloads 1 (hs[0 := h']), Some 1)
    \<and> rtp_payloadType h' = pt \<and> rtp_data h' = d \<and> rtp_timeStamp h' = rtp_timeStamp (hs ! 0)
    \<and> rtp_seqNumber h' = rtp_seqNumber (hs ! 0)"
proof -
  obtain x d' where d: "d = x # d'" using assms(7) by (cases d) auto
  let ?mem = "byte_of pt # d @ rest"
  have w0: "rd_w16 ?mem 0 = Some (w16_of (byte_of pt) x)" by (simp add: d rd_w16_Some)
  have b: "uint (byte_of pt) = pt" using assms(1,2) by (simp add: uint_byte_of)
  have c: "w16_of (byte_of pt) x AND 0x80 = 0" "u16 (w16_of (byte_of pt) x) AND 0x7F = pt"
    using assms(1,2) by (simp_all add: w16_bit7 b w16_u16_low7)
  have l: "s16 (int (length d)) = int (length d)" using assms(6) by (simp add: s16_id)
  have g: "get hs 0 = Some (hs ! 0)" using assms(3) by simp
  let ?h = "(hs ! 0)\<lparr>rtp_payloadType := pt, rtp_starts_byte1 := 1,
              rtp_payloadLen := int (length d), rtp_payload := ?mem\<rparr>"
  have "WebRtcNetEQ_RedundancySplit hs = Some (0, clear_payloads 1 (hs[0 := ?h]), Some 1)"
    using w0 c l g assms(4,5) by (simp add: WebRtcNetEQ_RedundancySplit_def Let_def)
  moreover have "rtp_data ?h = d" by (simp add: rtp_data_def slice_def)
  ultimately show ?thesis by (intro exI [of _ ?h]) simp
qed

definition red_example1 :: rtp_packet where
  "red_example1 = rtp_blank\<lparr>rtp_payload := byte_of 8 # [1, 2] @ [], rtp_payloadLen := 3\<rparr>"

lemma red_single_witness:
  "\<exists>h'. WebRtcNetEQ_RedundancySplit [red_example1]
          = Some (0, clear_payloads 1 ([red_example1][0 := h']), Some 1)
    \<and> rtp_payloadType h' = 8 \<and> rtp_data h' = [1, 2]
    \<and> rtp_timeStamp h' = rtp_timeStamp ([red_example1] ! 0)
    \<and> rtp_seqNumber h' = rtp_seqNumber ([red_example1] ! 0)"
  by (rule red_single [where rest = "[]"]) (simp_all add: red_example1_def)

lemma red_data_offset:
  "drop (nat ((5 + int n) AND 1)) (drop (2 * nat (shr (5 + int n) 1)) mem) = drop (5 + n) mem"
proof -
  have "nat ((5 + int n) AND 1) + 2 * nat (shr (5 + int n) 1) = 5 + n"
  proof -
    have "nat ((5 + int n) AND 1) = (5 + n) mod 2"
      using int_and_1 [of "5 + n"] by (simp add: nat_mod_as_int)
    moreover have "nat (shr (5 + int n) 1) = (5 + n) div 2"
      by (simp add: shr_eq_div nat_div_as_int)
    ultimately show ?thesis by simp
  qed
  then show ?thesis by (simp only: drop_drop)
qed

lemma red_skip_stop:
  "rd_w16 mem (k + 2) = Some w \<Longrightarrow> w AND 0x80 = 0 \<Longrightarrow> red_skip mem bound k d = Some (k, d)"
  by (subst red_skip.simps) simp

lemma red_skip_step:
  "rd_w16 mem (k + 2) = Some w \<Longrightarrow> w AND 0x80 \<noteq> 0 \<Longrightarrow> int k < bound \<Longrightarrow>
   rd_w16 mem (k + 1) = Some (red_w1 offset n) \<Longrightarrow> 0 \<le> offset \<Longrightarrow> offset < 16384 \<Longrightarrow>
   0 \<le> n \<Longrightarrow> n < 1024 \<Longrightarrow> red_skip mem bound k d = red_skip mem bound (k + 2) (d + (4 + n))"
  using red_fields(4) [of 0 offset n] by (subst red_skip.simps) (simp add: add.assoc)

lemma red_tail_fields:
  assumes "red_ok pt2 offset n" "0 \<le> pt1" "pt1 < 128" "2 \<le> length hs"
    "rtp_payload (hs ! 0) = mem" "mem = front @ red_header pt2 offset n @ byte_of pt1 # body"
    "length front = 4 * j" "body \<noteq> []" "rd_w16 mem 0 = Some w0" "w0 AND 0x80 \<noteq> 0"
    "rtp_payloadLen (hs ! 0) = int m + int n + 5 + disc" "0 \<le> disc"
    "red_skip mem (shr (rtp_payloadLen (hs ! 0) + 1) 1) 0 0 = Some (2 * j, disc)"
    "4 * int j \<le> disc" "m < 16000"
  shows "\<exists>h1 h2. WebRtcNetEQ_RedundancySplit hs = Some (0, clear_payloads 2 (hs[0 := h1, 1 := h2]), Some 2)
    \<and> rtp_payloadType h1 = pt1 \<and> rtp_data h1 = slice n m body
    \<and> rtp_timeStamp h1 = rtp_timeStamp (hs ! 0) \<and> rtp_payloadType h2 = pt2
    \<and> rtp_data h2 = take n body \<and> rtp_timeStamp h2 = u32 (rtp_timeStamp (hs ! 0) - offset)
    \<and> rtp_seqNumber h2 = rtp_seqNumber (hs ! 0)
    \<and> rtp_payload h2 = byte_of pt1 # body \<and> rtp_payloadLen h2 = int n"
proof -
  let ?data = "red_header pt2 offset n @ byte_of pt1 # body"
  obtain x ds where ds: "body = x # ds" using assms(8) by (cases body) auto
  have ok: "0 \<le> pt2" "pt2 < 128" "0 \<le> offset" "offset < 16384" "int n < 1024"
    using assms(1) by (simp_all add: red_ok_def)
  note f = red_fields [OF ok(1-4) of_nat_0_le_iff ok(5)]
  let ?w2 = "w16_of (byte_of pt1) x"
  have front: "length front = 2 * (2 * j)" using assms(7) by simp
  have w: "rd_w16 mem (2 * j) = Some (red_w0 pt2 offset)"
    "rd_w16 mem (2 * j + 1) = Some (red_w1 offset (int n))" "rd_w16 mem (2 * j + 2) = Some ?w2"
    using rd_w16_skip [OF front, of ?data 0] rd_w16_skip [OF front, of ?data 1]
      rd_w16_skip [OF front, of ?data 2] 
      rd_w16_skip [of "red_header pt2 offset n" 2 "byte_of pt1 # x # ds" 0]
    by (simp_all only: assms(6) red_header_words ds add_0_right)
       (simp add: rd_w16_Some nth_Cons numeral_2_eq_2 [symmetric])
  have b: "uint (byte_of pt1) = pt1" using assms(2,3) by (simp add: uint_byte_of)
  have c: "u16 ?w2 AND 0x7F = pt1"
    using assms(2,3) by (simp add: b w16_u16_low7)
  have len: "s16 (rtp_payloadLen (hs ! 0) - (int n + 5) - disc) = int m"
    using assms(11,15) by (simp add: s16_id)
  have bound: "\<not> shr (rtp_payloadLen (hs ! 0) + 1) 1 \<le> int (2 * j)"
    using assms(11,12,14) by (simp add: shr_eq_div)
  have g: "get hs 0 = Some (hs ! 0)" "\<not> length hs < 2" using assms(4) by (auto simp: get_def)
  have data: "drop (2 * (2 * j)) mem = ?data" using assms(6,7) by simp
  let ?h1 = "(hs ! 0)\<lparr>rtp_payloadType := pt1,
      rtp_payload := drop (2 * nat (shr (5 + int n) 1)) ?data,
      rtp_starts_byte1 := (5 + int n) AND 0x1, rtp_payloadLen := int m\<rparr>"
  let ?h2 = "(hs ! 1)\<lparr>rtp_payloadType := pt2, rtp_payload := drop (2 * 2) ?data, rtp_starts_byte1 := 1,
      rtp_seqNumber := rtp_seqNumber (hs ! 0), rtp_timeStamp := u32 (rtp_timeStamp (hs ! 0) - offset),
      rtp_ssrc := rtp_ssrc (hs ! 0), rtp_payloadLen := int n\<rparr>"
  have "WebRtcNetEQ_RedundancySplit hs = Some (0, clear_payloads 2 (hs[0 := ?h1, 1 := ?h2]), Some 2)"
    by (simp only: WebRtcNetEQ_RedundancySplit_def g Option.bind_lunit Let_def assms(5,9,10,13)
          prod.case bound if_False w f c data len)
  moreover have "rtp_data ?h1 = slice n m body"
    using red_data_offset [of n ?data] by (simp add: rtp_data_def slice_def)
  moreover have "rtp_payload ?h2 = byte_of pt1 # body" by simp
  moreover have "rtp_data ?h2 = take n body" by (simp add: rtp_data_def slice_def)
  ultimately show ?thesis by (intro exI [of _ ?h1] exI [of _ ?h2]) simp
qed

lemma red_tail:
  assumes "red_ok pt2 offset n" "0 \<le> pt1" "pt1 < 128" "2 \<le> length hs"
    "rtp_payload (hs ! 0) = mem" "mem = front @ red_header pt2 offset n @ byte_of pt1 # body"
    "length front = 4 * j" "body \<noteq> []" "rd_w16 mem 0 = Some w0" "w0 AND 0x80 \<noteq> 0"
    "rtp_payloadLen (hs ! 0) = int m + int n + 5 + disc" "0 \<le> disc"
    "red_skip mem (shr (rtp_payloadLen (hs ! 0) + 1) 1) 0 0 = Some (2 * j, disc)"
    "4 * int j \<le> disc" "m < 16000"
  shows "\<exists>h1 h2. WebRtcNetEQ_RedundancySplit hs = Some (0, clear_payloads 2 (hs[0 := h1, 1 := h2]), Some 2)
    \<and> rtp_payloadType h1 = pt1 \<and> rtp_data h1 = slice n m body
    \<and> rtp_timeStamp h1 = rtp_timeStamp (hs ! 0) \<and> rtp_payloadType h2 = pt2
    \<and> rtp_data h2 = take n body \<and> rtp_timeStamp h2 = u32 (rtp_timeStamp (hs ! 0) - offset)
    \<and> rtp_seqNumber h2 = rtp_seqNumber (hs ! 0)"
  using red_tail_fields [OF assms] by blast

text \<open>A RED payload with one redundant block is split into the primary block, under the
  packet's timestamp, and the redundant one, under the timestamp the offset gives; each
  header denotes exactly the bytes of its block.\<close>

theorem red_two:
  assumes "red_ok pt2 offset (length d2)" "0 \<le> pt1" "pt1 < 128" "2 \<le> length hs"
    "rtp_payload (hs ! 0) = red_header pt2 offset (length d2) @ byte_of pt1 # d2 @ d1 @ rest"
    "rtp_payloadLen (hs ! 0) = int (length d1) + int (length d2) + 5"
    "length d1 < 16000" "d2 @ d1 \<noteq> []"
  shows "\<exists>h1 h2. WebRtcNetEQ_RedundancySplit hs = Some (0, clear_payloads 2 (hs[0 := h1, 1 := h2]), Some 2)
    \<and> rtp_payloadType h1 = pt1 \<and> rtp_data h1 = d1 \<and> rtp_timeStamp h1 = rtp_timeStamp (hs ! 0)
    \<and> rtp_payloadType h2 = pt2 \<and> rtp_data h2 = d2
    \<and> rtp_timeStamp h2 = u32 (rtp_timeStamp (hs ! 0) - offset)
    \<and> rtp_seqNumber h2 = rtp_seqNumber (hs ! 0)"
proof -
  let ?body = "d2 @ d1 @ rest" and ?H = "red_header pt2 offset (length d2)"
  let ?mem = "?H @ byte_of pt1 # ?body"
  obtain x ds where ds: "?body = x # ds" using assms(8) by (cases ?body) auto
  have w2: "rd_w16 ?mem (0 + 2) = Some (w16_of (byte_of pt1) x)"
    using rd_w16_skip [of ?H 2 "byte_of pt1 # x # ds" 0] unfolding ds by (simp add: rd_w16_Some)
  have w0: "red_w0 pt2 offset AND 0x80 \<noteq> 0"
    using red_fields(1) [of pt2 offset 0] assms(1) by (simp add: red_ok_def)
  have stop: "red_skip ?mem b 0 0 = Some (0, 0)" for b
    using assms(2,3) by (intro red_skip_stop [OF w2]) (simp add: w16_bit7 uint_byte_of)
  have "slice (length d2) (length d1) ?body = d1" by (simp add: slice_def)
  moreover have "?body \<noteq> []" using assms(8) by auto
  ultimately show ?thesis
    using red_tail [OF assms(1-5), of "[]" ?body 0 "red_w0 pt2 offset" "length d1" 0] stop
      assms(6,7) red_header_words(1) w0 by simp
qed

definition red_example2 :: rtp_packet where
  "red_example2 = rtp_blank\<lparr>
     rtp_payload := red_header 0 160 (length [7, 9 :: byte]) @ byte_of 8 # [7, 9] @ [1, 2, 3] @ [],
     rtp_payloadLen := 10\<rparr>"

lemma red_two_witness:
  "\<exists>h1 h2. WebRtcNetEQ_RedundancySplit [red_example2, rtp_blank]
             = Some (0, clear_payloads 2 ([red_example2, rtp_blank][0 := h1, 1 := h2]), Some 2)
    \<and> rtp_payloadType h1 = 8 \<and> rtp_data h1 = [1, 2, 3]
    \<and> rtp_timeStamp h1 = rtp_timeStamp ([red_example2, rtp_blank] ! 0)
    \<and> rtp_payloadType h2 = 0 \<and> rtp_data h2 = [7, 9]
    \<and> rtp_timeStamp h2 = u32 (rtp_timeStamp ([red_example2, rtp_blank] ! 0) - 160)
    \<and> rtp_seqNumber h2 = rtp_seqNumber ([red_example2, rtp_blank] ! 0)"
  by (rule red_two [where rest = "[]"]) (simp_all add: red_example2_def red_ok_def)

text \<open>With a third, oldest block the splitter steps over its header but not over its data:
  the two headers it returns denote bytes from the start of the oldest block's data, shifted
  by its length against the blocks they are labelled with.\<close>

theorem red_three:
  assumes "red_ok pt3 offset3 (length d3)" "red_ok pt2 offset (length d2)" "0 \<le> pt1" "pt1 < 128"
    "2 \<le> length hs"
    "rtp_payload (hs ! 0) = red_header pt3 offset3 (length d3)
       @ red_header pt2 offset (length d2) @ byte_of pt1 # d3 @ d2 @ d1"
    "rtp_payloadLen (hs ! 0) = int (length d1) + int (length d2) + int (length d3) + 9"
    "length d1 < 16000" "d3 @ d2 @ d1 \<noteq> []"
  shows "\<exists>h1 h2. WebRtcNetEQ_RedundancySplit hs = Some (0, clear_payloads 2 (hs[0 := h1, 1 := h2]), Some 2)
    \<and> rtp_payloadType h1 = pt1 \<and> rtp_payloadType h2 = pt2
    \<and> rtp_data h1 = slice (length d2) (length d1) (d3 @ d2 @ d1)
    \<and> rtp_data h2 = take (length d2) (d3 @ d2 @ d1)"
proof -
  let ?body = "d3 @ d2 @ d1" and ?H = "red_header pt2 offset (length d2)"
    and ?G = "red_header pt3 offset3 (length d3)"
  let ?mem = "?G @ ?H @ byte_of pt1 # ?body"
  obtain x ds where ds: "?body = x # ds" using assms(9) by (cases ?body) auto
  have w4: "rd_w16 ?mem (2 + 2) = Some (w16_of (byte_of pt1) x)"
    using rd_w16_skip [of "?G @ ?H" 4 "byte_of pt1 # x # ds" 0] unfolding ds by (simp add: rd_w16_Some)
  have w2: "rd_w16 ?mem (0 + 2) = Some (red_w0 pt2 offset)"
    using rd_w16_skip [of ?G 2 "?H @ byte_of pt1 # ?body" 0]
    by (simp add: red_header_words numeral_2_eq_2 [symmetric])
  have nz: "red_w0 pt2 offset AND 0x80 \<noteq> 0" "red_w0 pt3 offset3 AND 0x80 \<noteq> 0"
    using red_fields(1) [of pt2 offset 0] red_fields(1) [of pt3 offset3 0] assms(1,2)
    by (simp_all add: red_ok_def)
  have skip: "red_skip ?mem b 0 0 = Some (2, 4 + int (length d3))" if "0 < b" for b
  proof -
    have "red_skip ?mem b 0 0 = red_skip ?mem b (0 + 2) (0 + (4 + int (length d3)))"
      using assms(1) that
      by (intro red_skip_step [OF w2 nz(1), where offset = offset3]) (auto simp: red_header_words [simplified] red_ok_def)
    also have "\<dots> = Some (2, 4 + int (length d3))"
      using assms(3,4) red_skip_stop [OF w4]
      by (simp add: w16_bit7 uint_byte_of numeral_2_eq_2 [symmetric])
    finally show ?thesis .
  qed
  have "0 < shr (rtp_payloadLen (hs ! 0) + 1) 1" unfolding assms(7) by (simp add: shr_eq_div)
  note skip = skip [OF this]
  show ?thesis
    using red_tail [OF assms(2-6), of ?G ?body 1 "red_w0 pt3 offset3" "length d1" "4 + int (length d3)"]
      skip assms(7-9) red_header_words(1) nz by auto
qed

definition red_example3 :: rtp_packet where
  "red_example3 = rtp_blank\<lparr>
     rtp_payload := red_header 0 320 (length [5 :: byte]) @ red_header 0 160 (length [7, 9 :: byte])
                    @ byte_of 8 # [5] @ [7, 9] @ [1, 2, 3],
     rtp_payloadLen := 15\<rparr>"

lemma red_three_witness:
  "\<exists>h1 h2. WebRtcNetEQ_RedundancySplit [red_example3, rtp_blank]
             = Some (0, clear_payloads 2 ([red_example3, rtp_blank][0 := h1, 1 := h2]), Some 2)
    \<and> rtp_payloadType h1 = 8 \<and> rtp_payloadType h2 = 0
    \<and> rtp_data h1 = slice (length [7, 9 :: byte]) (length [1, 2, 3 :: byte]) ([5] @ [7, 9] @ [1, 2, 3])
    \<and> rtp_data h2 = take (length [7, 9 :: byte]) ([5] @ [7, 9] @ [1, 2, 3])"
  by (rule red_three) (simp_all add: red_example3_def red_ok_def)

end
