(* ===== verification/Fifo.thy ===== *)
theory Fifo
  imports Neteq_Prelude
begin

text \<open>
  The contract of a first-in first-out store, shared by the packet buffer of NetEQ and
  the ring buffer of the audio processing module: an abstraction to the list of
  stored elements, a partial \<open>enq\<close> that appends and a \<open>deq\<close> that removes the head.
  Clients reason about whole histories of operations.
\<close>

datatype 'a fifo_op = Put 'a | Take

primrec fifo_puts :: "('a \<Rightarrow> 'x) \<Rightarrow> 'a fifo_op list \<Rightarrow> 'x list" where
  "fifo_puts elem [] = []"
| "fifo_puts elem (op # ops) =
     (case op of Put a \<Rightarrow> elem a # fifo_puts elem ops | Take \<Rightarrow> fifo_puts elem ops)"

text \<open>A history: \<open>None\<close> as soon as a \<open>enq\<close> is refused or the store is empty.\<close>

primrec fifo_run :: "('s \<Rightarrow> 'a \<Rightarrow> 's option) \<Rightarrow> ('s \<Rightarrow> ('x \<times> 's) option) \<Rightarrow> 'a fifo_op list \<Rightarrow>
    's \<Rightarrow> ('x list \<times> 's) option" where
  "fifo_run enq deq [] s = Some ([], s)"
| "fifo_run enq deq (op # ops) s = (case op of
     Put a \<Rightarrow> (case enq s a of None \<Rightarrow> None | Some s' \<Rightarrow> fifo_run enq deq ops s')
   | Take \<Rightarrow> (case deq s of None \<Rightarrow> None
       | Some (x, s') \<Rightarrow> (case fifo_run enq deq ops s' of None \<Rightarrow> None
           | Some (xs, s'') \<Rightarrow> Some (x # xs, s''))))"

locale fifo_store =
  fixes good :: "'s \<Rightarrow> bool" and abs :: "'s \<Rightarrow> 'x list" and elem :: "'a \<Rightarrow> 'x"
    and enq :: "'s \<Rightarrow> 'a \<Rightarrow> 's option" and deq :: "'s \<Rightarrow> ('x \<times> 's) option"
  assumes enq_law: "good s \<Longrightarrow> enq s a = Some s' \<Longrightarrow> good s' \<and> abs s' = abs s @ [elem a]"
    and deq_law: "good s \<Longrightarrow> deq s = Some (x, s') \<Longrightarrow> good s' \<and> abs s = x # abs s'"
    and deq_total: "good s \<Longrightarrow> abs s \<noteq> [] \<Longrightarrow> deq s \<noteq> None"
begin

lemma run_fifo:
  "good s \<Longrightarrow> fifo_run enq deq ops s = Some (outs, s') \<Longrightarrow>
   good s' \<and> abs s @ fifo_puts elem ops = outs @ abs s'"
proof (induction ops arbitrary: s outs)
  case (Cons op ops)
  show ?case
  proof (cases op)
    case (Put a)
    with Cons.prems obtain s1 where s1: "enq s a = Some s1" "fifo_run enq deq ops s1 = Some (outs, s')"
      by (auto split: option.splits)
    with Cons.IH [of s1] enq_law [OF Cons.prems(1) s1(1)] Put show ?thesis by auto
  next
    case Take
    with Cons.prems obtain x s1 xs where s1: "deq s = Some (x, s1)"
      "fifo_run enq deq ops s1 = Some (xs, s')" "outs = x # xs"
      by (auto split: option.splits prod.splits)
    with Cons.IH [of s1 xs] deq_law [OF Cons.prems(1) s1(1)] Take show ?thesis by auto
  qed
qed simp

lemma drain:
  "good s \<Longrightarrow> \<exists>s'. fifo_run enq deq (replicate (length (abs s)) Take) s = Some (abs s, s') \<and> abs s' = []"
proof (induction "abs s" arbitrary: s)
  case Nil
  then show ?case by (auto simp flip: Nil.hyps)
next
  case (Cons x xs)
  then obtain y s1 where t: "deq s = Some (y, s1)" using deq_total [of s] by fastforce
  from deq_law [OF Cons.prems t] Cons.hyps(2) have s1: "good s1" "xs = abs s1" "y = x" by auto
  from Cons.hyps(1) [OF s1(2,1)] t s1 show ?case by (auto simp flip: Cons.hyps(2))
qed

end

end
