(* ===== verification/Packet_Buffer.thy ===== *)
theory Packet_Buffer
  imports Neteq_Rtp
begin

text \<open>
  The packet buffer of \<open>neteq/packet_buffer.c\<close>: a ring of packet slots, and a payload memory
  that is filled from its start and wrapped to the start when the next payload does not fit
  at the end.

  The slot arrays \<open>timeStamp[]\<close>, \<open>payloadLocation[]\<close>, \<open>seqNumber[]\<close>, \<open>payloadType[]\<close>,
  \<open>payloadLengthBytes[]\<close>, \<open>rcuPlCntr[]\<close> and \<open>waitingTime[]\<close> are one list with a record per slot.
  Pointers into the payload memory (\<open>payloadLocation[i]\<close>, \<open>currentMemoryPos\<close>) are word
  offsets from \<open>startPayloadMemory\<close>; \<open>pb_initialized\<close> says that this pointer is not null.
\<close>

section \<open>State\<close>

record pslot =
  sl_timeStamp :: int
  sl_payloadLocation :: nat
  sl_seqNumber :: int
  sl_payloadType :: int
  sl_payloadLengthBytes :: int
  sl_rcuPlCntr :: int
  sl_waitingTime :: int

record packet_buf =
  pb_packSizeSamples :: int
  pb_initialized :: bool
  pb_memory :: "byte list"
  pb_memorySizeW16 :: int
  pb_currentMemoryPos :: nat
  pb_numPacketsInBuffer :: int
  pb_insertPosition :: nat
  pb_maxInsertPositions :: nat
  pb_slots :: "pslot list"
  pb_discardedPackets :: int

definition PBUFFER_MIN_MEMORY_SIZE :: int where "PBUFFER_MIN_MEMORY_SIZE = 150"
definition PBUFFER_INIT_ERROR :: int where "PBUFFER_INIT_ERROR = -4001"
definition PBUFFER_NONEXISTING_PACKET :: int where "PBUFFER_NONEXISTING_PACKET = -4008"
definition PBUFFER_NOT_INITIALIZED :: int where "PBUFFER_NOT_INITIALIZED = -4009"
definition NETEQ_OTHER_ERROR :: int where "NETEQ_OTHER_ERROR = -1000"

lemmas pb_errors = PBUFFER_INIT_ERROR_def PBUFFER_NONEXISTING_PACKET_def
  PBUFFER_NOT_INITIALIZED_def NETEQ_OTHER_ERROR_def

definition pb_zero_slot :: pslot where
  "pb_zero_slot = \<lparr>sl_timeStamp = 0, sl_payloadLocation = 0, sl_seqNumber = 0, sl_payloadType = 0,
     sl_payloadLengthBytes = 0, sl_rcuPlCntr = 0, sl_waitingTime = 0\<rparr>"

abbreviation sl_used :: "pslot \<Rightarrow> bool" where
  "sl_used s \<equiv> sl_payloadLengthBytes s \<noteq> 0"

text \<open>\<open>(payloadLen + 1) >> 1\<close>, the words a payload of that many bytes takes.\<close>

definition pb_words :: "int \<Rightarrow> nat" where
  "pb_words len = nat (shr (len + 1) 1)"

section \<open>Initialising and flushing\<close>

text \<open>
  \<open>ptr_words\<close> is \<open>sizeof(int16_t*) / sizeof(int16_t)\<close>, 2 or 4.  The caller passes a memory of
  \<open>memorySize\<close> words, or none.  When the slot arrays do not fit in it the code computes
  pointers past its end, which is undefined: \<open>None\<close>.
\<close>

definition WebRtcNetEQ_PacketBufferInit ::
    "nat \<Rightarrow> packet_buf \<Rightarrow> int \<Rightarrow> bool \<Rightarrow> int \<Rightarrow> (int \<times> packet_buf) option" where
  "WebRtcNetEQ_PacketBufferInit ptr_words b maxNoOfPackets has_memory memorySize =
     (if memorySize < PBUFFER_MIN_MEMORY_SIZE \<or> \<not> has_memory
         \<or> maxNoOfPackets < 2 \<or> maxNoOfPackets > 600
      then Some (PBUFFER_INIT_ERROR, b)
      else let pos = maxNoOfPackets * (8 + int ptr_words) in
        if memorySize < pos then None
        else Some (0, \<lparr>pb_packSizeSamples = 0, pb_initialized = True,
               pb_memory = replicate (2 * nat (memorySize - pos)) 0,
               pb_memorySizeW16 = memorySize - pos, pb_currentMemoryPos = 0,
               pb_numPacketsInBuffer = 0, pb_insertPosition = 0,
               pb_maxInsertPositions = nat maxNoOfPackets,
               pb_slots = replicate (nat maxNoOfPackets) (pb_zero_slot\<lparr>sl_payloadType := -1\<rparr>),
               pb_discardedPackets = 0\<rparr>))"

definition WebRtcNetEQ_PacketBufferFlush :: "packet_buf \<Rightarrow> int \<times> packet_buf" where
  "WebRtcNetEQ_PacketBufferFlush b =
     (if \<not> pb_initialized b then (0, b)
      else (0, b\<lparr>pb_numPacketsInBuffer := 0, pb_currentMemoryPos := 0, pb_insertPosition := 0,
             pb_slots := map (\<lambda>s. s\<lparr>sl_payloadLengthBytes := 0, sl_payloadType := -1,
                                   sl_timeStamp := 0, sl_seqNumber := 0\<rparr>) (pb_slots b)\<rparr>))"

section \<open>Inserting a packet\<close>

definition SYNC_PAYLOAD_LEN_BYTES :: int where "SYNC_PAYLOAD_LEN_BYTES = 7"

definition kSyncPayload :: "byte list" where
  "kSyncPayload = [97, 118, 115, 121, 110, 99, 0]"

definition WebRtcNetEQ_IsSyncPayload :: "byte list \<Rightarrow> int \<Rightarrow> bool" where
  "WebRtcNetEQ_IsSyncPayload payload len \<longleftrightarrow>
     len = SYNC_PAYLOAD_LEN_BYTES \<and> take (nat SYNC_PAYLOAD_LEN_BYTES) payload = kSyncPayload"

text \<open>
  The AV-sync scan over the slots from index \<open>i\<close>: \<open>None\<close> says that the packet in hand is the
  sync version of a packet that is already there, \<open>Some n\<close> that slot \<open>n\<close> holds its sync
  version (\<open>Some\<close> of an index past the slots: no match).
\<close>

fun pb_sync_scan :: "byte list \<Rightarrow> rtp_packet \<Rightarrow> pslot list \<Rightarrow> nat \<Rightarrow> nat option" where
  "pb_sync_scan mem p [] i = Some i"
| "pb_sync_scan mem p (s # ss) i =
     (if sl_seqNumber s = rtp_seqNumber p \<and> sl_payloadLengthBytes s > 0
      then if WebRtcNetEQ_IsSyncPayload (rtp_payload p) (rtp_payloadLen p) then None
           else if WebRtcNetEQ_IsSyncPayload (drop (2 * sl_payloadLocation s) mem)
                     (sl_payloadLengthBytes s)
           then Some i
           else pb_sync_scan mem p ss (Suc i)
      else pb_sync_scan mem p ss (Suc i))"

definition pb_clear_slot :: "nat \<Rightarrow> packet_buf \<Rightarrow> packet_buf" where
  "pb_clear_slot i b = b\<lparr>pb_slots := (pb_slots b)[i := (pb_slots b ! i)\<lparr>sl_payloadType := -1,
       sl_payloadLengthBytes := 0\<rparr>], pb_numPacketsInBuffer := pb_numPacketsInBuffer b - 1\<rparr>"

text \<open>The non-empty slot with the lowest payload location below \<open>tempMemAddress\<close>.\<close>

fun pb_lowest_location :: "pslot list \<Rightarrow> nat \<Rightarrow> int \<Rightarrow> nat option \<Rightarrow> nat option" where
  "pb_lowest_location [] i tempMemAddress nextPos = nextPos"
| "pb_lowest_location (s # ss) i tempMemAddress nextPos =
     (if sl_used s \<and> int (sl_payloadLocation s) < tempMemAddress
      then pb_lowest_location ss (Suc i) (int (sl_payloadLocation s)) (Some i)
      else pb_lowest_location ss (Suc i) tempMemAddress nextPos)"

text \<open>
  The first non-empty slot from \<open>nextPos\<close> on.  The loop's condition reads the slot array
  before it tests the index, so at index \<open>maxInsertPositions\<close> it reads one element past the
  array (the next array of the same block); the value does not influence the result.
\<close>

definition pb_next_used :: "pslot list \<Rightarrow> nat \<Rightarrow> nat" where
  "pb_next_used ss nextPos = nextPos + length (takeWhile (\<lambda>s. \<not> sl_used s) (drop nextPos ss))"

text \<open>
  The position search when the buffer is not empty.  \<open>Inl b'\<close> is the error return with the
  flushed buffer, \<open>Inr (nextPos, b')\<close> the packet the new payload must not run into.
\<close>

definition pb_find_position :: "packet_buf \<Rightarrow> nat \<Rightarrow> (packet_buf + nat \<times> packet_buf) option" where
  "pb_find_position b words =
     (let ip = (if pb_insertPosition b + 1 \<ge> pb_maxInsertPositions b then 0
                else pb_insertPosition b + 1);
          b = b\<lparr>pb_insertPosition := ip\<rparr>
      in if int (pb_currentMemoryPos b) + int words \<ge> pb_memorySizeW16 b
         then let b = b\<lparr>pb_currentMemoryPos := 0\<rparr> in
           (case pb_lowest_location (pb_slots b) 0 (pb_memorySizeW16 b) None of
              None \<Rightarrow> Some (Inl (snd (WebRtcNetEQ_PacketBufferFlush b)))
            | Some nextPos \<Rightarrow> Some (Inr (nextPos, b)))
         else let nextPos = pb_next_used (pb_slots b) (ip + 1) in
           if nextPos \<ge> pb_maxInsertPositions b
           then let nextPos = pb_next_used (pb_slots b) 0 in
             if nextPos < length (pb_slots b) then Some (Inr (nextPos, b)) else None
           else Some (Inr (nextPos, b)))"

text \<open>Flushing when the payload would run into its neighbour or the slot is taken.\<close>

definition pb_flush_if_full :: "nat \<Rightarrow> nat \<Rightarrow> packet_buf \<Rightarrow> (int \<times> packet_buf) option" where
  "pb_flush_if_full nextPos words b = do {
     next \<leftarrow> get (pb_slots b) nextPos;
     let full = pb_currentMemoryPos b \<le> sl_payloadLocation next
                \<and> pb_currentMemoryPos b + words > sl_payloadLocation next;
         b1 = (if full then snd (WebRtcNetEQ_PacketBufferFlush b) else b)
     in do {
       cur \<leftarrow> get (pb_slots b1) (pb_insertPosition b1);
       Some (if sl_used cur then (1, snd (WebRtcNetEQ_PacketBufferFlush b1))
             else (c_bool full, b1))
     }
   }"

text \<open>
  Copying the payload to \<open>currentMemoryPos\<close>, from byte 0 or, when the payload does not start
  on a word, byte by byte from byte 1; then the packet information.
\<close>

definition pb_store :: "rtp_packet \<Rightarrow> packet_buf \<Rightarrow> packet_buf option" where
  "pb_store p b =
     (let n = nat (rtp_payloadLen p);
          off = (if rtp_starts_byte1 p = 0 then 0 else 1);
          bytes = slice off n (rtp_payload p);
          dst = 2 * pb_currentMemoryPos b;
          ip = pb_insertPosition b
      in if length (rtp_payload p) < off + n \<or> length (pb_memory b) < dst + n
            \<or> length (pb_slots b) \<le> ip
         then None
         else Some (b\<lparr>pb_memory := blit dst bytes (pb_memory b),
                pb_slots := (pb_slots b)[ip :=
                  \<lparr>sl_timeStamp = rtp_timeStamp p, sl_payloadLocation = pb_currentMemoryPos b,
                   sl_seqNumber = rtp_seqNumber p, sl_payloadType = s16 (rtp_payloadType p),
                   sl_payloadLengthBytes = rtp_payloadLen p, sl_rcuPlCntr = rtp_rcuPlCntr p,
                   sl_waitingTime = 0\<rparr>],
                pb_numPacketsInBuffer := pb_numPacketsInBuffer b + 1,
                pb_currentMemoryPos := pb_currentMemoryPos b + pb_words (rtp_payloadLen p)\<rparr>))"

text \<open>The result is the return value, the flag \<open>*flushed\<close> and the buffer.\<close>

definition WebRtcNetEQ_PacketBufferInsert ::
    "packet_buf \<Rightarrow> rtp_packet \<Rightarrow> bool \<Rightarrow> (int \<times> int \<times> packet_buf) option" where
  "WebRtcNetEQ_PacketBufferInsert b p av_sync =
     (if \<not> pb_initialized b then Some (-1, 0, b)
      else if rtp_payloadLen p > shl (pb_memorySizeW16 b) 1 \<or> rtp_payloadLen p \<le> 0
      then Some (-1, 0, b)
      else case (if av_sync then pb_sync_scan (pb_memory b) p (pb_slots b) 0
                 else Some (length (pb_slots b))) of
        None \<Rightarrow> Some (0, 0, b)
      | Some i \<Rightarrow>
          let b = (if i < length (pb_slots b) then pb_clear_slot i b else b);
              words = pb_words (rtp_payloadLen p)
          in if pb_numPacketsInBuffer b \<noteq> 0
             then do {
               r \<leftarrow> pb_find_position b words;
               case r of
                 Inl b' \<Rightarrow> Some (-1, 1, b')
               | Inr (nextPos, b') \<Rightarrow> do {
                   (flushed, b'') \<leftarrow> pb_flush_if_full nextPos words b';
                   b''' \<leftarrow> pb_store p b'';
                   Some (0, flushed, b''') }
             }
             else do {
               b' \<leftarrow> pb_store p (b\<lparr>pb_currentMemoryPos := 0, pb_insertPosition := 0\<rparr>);
               Some (0, 0, b') })"

section \<open>Extracting a packet\<close>

text \<open>
  The payload is copied word by word to the caller's memory, of which the first words are
  given back.  The result is the return value, the packet, the buffer and \<open>*waitingTime\<close>
  (\<open>None\<close> when it is left alone).
\<close>

definition WebRtcNetEQ_PacketBufferExtract ::
    "packet_buf \<Rightarrow> rtp_packet \<Rightarrow> int \<Rightarrow> (int \<times> rtp_packet \<times> packet_buf \<times> int option) option" where
  "WebRtcNetEQ_PacketBufferExtract b p bufferPosition =
     (if \<not> pb_initialized b then Some (PBUFFER_NOT_INITIALIZED, p, b, None)
      else if bufferPosition < 0 \<or> bufferPosition \<ge> int (pb_maxInsertPositions b)
      then Some (NETEQ_OTHER_ERROR, p, b, None)
      else do {
        s \<leftarrow> get (pb_slots b) (nat bufferPosition);
        if sl_payloadLengthBytes s \<le> 0
        then Some (PBUFFER_NONEXISTING_PACKET, p\<lparr>rtp_payloadLen := 0\<rparr>, b, None)
        else let n = 2 * pb_words (sl_payloadLengthBytes s); src = 2 * sl_payloadLocation s in
          if length (pb_memory b) < src + n then None
          else Some (0,
            p\<lparr>rtp_payload := slice src n (pb_memory b), rtp_payloadLen := sl_payloadLengthBytes s,
              rtp_payloadType := sl_payloadType s, rtp_seqNumber := sl_seqNumber s,
              rtp_timeStamp := sl_timeStamp s, rtp_rcuPlCntr := sl_rcuPlCntr s,
              rtp_starts_byte1 := 0\<rparr>,
            b\<lparr>pb_slots := (pb_slots b)[nat bufferPosition :=
                s\<lparr>sl_payloadType := -1, sl_payloadLengthBytes := 0, sl_seqNumber := 0,
                  sl_timeStamp := 0, sl_waitingTime := 0, sl_payloadLocation := 0\<rparr>],
              pb_numPacketsInBuffer := pb_numPacketsInBuffer b - 1\<rparr>,
            Some (sl_waitingTime s))
      })"

section \<open>Finding the oldest packet\<close>

text \<open>The best candidate so far: position, timestamp difference, payload type, RCU counter.\<close>

record pb_candidate =
  cd_position :: int
  cd_diff :: int
  cd_payload_type :: int
  cd_rcu :: int

definition pb_no_candidate :: pb_candidate where
  "pb_no_candidate = \<lparr>cd_position = -1, cd_diff = 2147483647, cd_payload_type = -1, cd_rcu = 32767\<rparr>"

definition pb_better :: "int \<Rightarrow> pslot \<Rightarrow> pb_candidate \<Rightarrow> bool" where
  "pb_better new_diff s c \<longleftrightarrow>
     (new_diff < cd_diff c \<or> (new_diff = cd_diff c \<and> sl_rcuPlCntr s < cd_rcu c))
     \<and> sl_payloadLengthBytes s > 0"

definition pb_old :: "int \<Rightarrow> pslot \<Rightarrow> bool" where
  "pb_old new_diff s \<longleftrightarrow> new_diff < 0 \<and> new_diff > -30000 \<and> sl_payloadLengthBytes s > 0"

text \<open>One pass over the slots from index \<open>i\<close>, with the erased slots counted in \<open>n\<close>.\<close>

fun pb_find_lowest :: "bool \<Rightarrow> int \<Rightarrow> pslot list \<Rightarrow> nat \<Rightarrow> pb_candidate \<Rightarrow>
    pslot list \<times> pb_candidate \<times> nat" where
  "pb_find_lowest erase ts [] i c = ([], c, 0)"
| "pb_find_lowest erase ts (s # ss) i c =
     (let new_diff = s32 (sl_timeStamp s - ts) in
      if erase \<and> pb_old new_diff s
      then let (ss', c', n) = pb_find_lowest erase ts ss (Suc i) c
           in (s\<lparr>sl_payloadType := -1, sl_payloadLengthBytes := 0\<rparr> # ss', c', Suc n)
      else let c1 = (if pb_better new_diff s c
                     then \<lparr>cd_position = int i, cd_diff = new_diff,
                           cd_payload_type = sl_payloadType s, cd_rcu = sl_rcuPlCntr s\<rparr>
                     else c);
               (ss', c', n) = pb_find_lowest erase ts ss (Suc i) c1
           in (s # ss', c', n))"

text \<open>Return value, buffer, and \<open>*time_stamp\<close>, \<open>*buffer_position\<close>, \<open>*payload_type\<close> when set.\<close>

definition WebRtcNetEQ_PacketBufferFindLowestTimestamp ::
    "packet_buf \<Rightarrow> int \<Rightarrow> bool \<Rightarrow> int \<times> packet_buf \<times> (int \<times> int \<times> int) option" where
  "WebRtcNetEQ_PacketBufferFindLowestTimestamp b current_time_stamp erase_old_packets =
     (if \<not> pb_initialized b then (PBUFFER_NOT_INITIALIZED, b, None)
      else if pb_numPacketsInBuffer b \<le> 0 then (0, b, Some (0, -1, -1))
      else let (ss, c, n) = pb_find_lowest erase_old_packets current_time_stamp (pb_slots b) 0
                              pb_no_candidate;
               b' = b\<lparr>pb_slots := ss, pb_numPacketsInBuffer := pb_numPacketsInBuffer b - int n,
                      pb_discardedPackets := u16 (pb_discardedPackets b + int n)\<rparr>;
               ts = (if cd_position c \<ge> 0 then sl_timeStamp (ss ! nat (cd_position c)) else 0)
           in (0, b', Some (ts, cd_position c, cd_payload_type c)))"

section \<open>Waiting times\<close>

definition WebRtcNetEQ_IncrementWaitingTimes :: "packet_buf \<Rightarrow> packet_buf" where
  "WebRtcNetEQ_IncrementWaitingTimes b = b\<lparr>pb_slots :=
     map (\<lambda>s. if sl_used s then s\<lparr>sl_waitingTime := sl_waitingTime s + 1\<rparr> else s) (pb_slots b)\<rparr>"

section \<open>Well-formedness\<close>

definition sl_end :: "pslot \<Rightarrow> nat" where
  "sl_end s = sl_payloadLocation s + pb_words (sl_payloadLengthBytes s)"

definition sl_ok :: "nat \<Rightarrow> pslot \<Rightarrow> bool" where
  "sl_ok M s \<longleftrightarrow> (sl_used s \<longrightarrow>
     0 < sl_payloadLengthBytes s \<and> sl_end s \<le> M \<and> s16 (sl_payloadType s) = sl_payloadType s)"

definition pb_inv :: "packet_buf \<Rightarrow> bool" where
  "pb_inv b \<longleftrightarrow> pb_initialized b \<and> 0 \<le> pb_memorySizeW16 b
     \<and> length (pb_memory b) = 2 * nat (pb_memorySizeW16 b)
     \<and> int (pb_currentMemoryPos b) \<le> pb_memorySizeW16 b
     \<and> length (pb_slots b) = pb_maxInsertPositions b \<and> 2 \<le> pb_maxInsertPositions b
     \<and> pb_insertPosition b < pb_maxInsertPositions b
     \<and> pb_numPacketsInBuffer b = int (count_if sl_used (pb_slots b))
     \<and> (\<forall>s \<in> set (pb_slots b). sl_ok (nat (pb_memorySizeW16 b)) s)"

lemma pb_words_pos: "0 < len \<Longrightarrow> 0 < pb_words len"
  by (simp add: pb_words_def shr_eq_div)

lemma pb_words_bounds: "0 < len \<Longrightarrow> nat len \<le> 2 * pb_words len" "0 < len \<Longrightarrow> 2 * pb_words len \<le> nat len + 1"
  by (simp_all add: pb_words_def shr_eq_div nat_le_iff flip: zle_int)

lemma pb_words_le: "len \<le> shl M 1 \<Longrightarrow> 0 \<le> M \<Longrightarrow> pb_words len \<le> nat M"
  by (simp add: pb_words_def shr_eq_div shl_eq_mult)

lemma sl_ok_unused: "\<not> sl_used s \<Longrightarrow> sl_ok M s"
  by (simp add: sl_ok_def)

section \<open>Slots in ring order\<close>

text \<open>The used slots, from the one after the insert position around to the insert position.\<close>

definition live_of :: "pslot list \<Rightarrow> nat \<Rightarrow> pslot list" where
  "live_of ss ip = filter sl_used (drop (Suc ip) ss @ take (Suc ip) ss)"

abbreviation pb_live :: "packet_buf \<Rightarrow> pslot list" where
  "pb_live b \<equiv> live_of (pb_slots b) (pb_insertPosition b)"

definition next_ip :: "nat \<Rightarrow> nat \<Rightarrow> nat" where
  "next_ip ip m = (if ip + 1 \<ge> m then 0 else ip + 1)"

lemma next_ip_less: "0 < m \<Longrightarrow> next_ip ip m < m"
  by (simp add: next_ip_def)

lemma set_live: "set (live_of ss ip) = {s \<in> set ss. sl_used s}"
  unfolding live_of_def set_filter set_append by (metis Un_commute append_take_drop_id set_append)

lemma live_next_ip:
  assumes "ip < length ss" "\<not> sl_used (ss ! next_ip ip (length ss))"
  shows "live_of ss (next_ip ip (length ss)) = live_of ss ip"
proof (cases "ip + 1 < length ss")
  case True
  then have n: "next_ip ip (length ss) = Suc ip" by (simp add: next_ip_def)
  have "drop (Suc ip) ss = ss ! Suc ip # drop (Suc (Suc ip)) ss"
    using True by (simp add: Cons_nth_drop_Suc)
  moreover have "take (Suc (Suc ip)) ss = take (Suc ip) ss @ [ss ! Suc ip]"
    using True by (simp add: take_Suc_conv_app_nth)
  ultimately show ?thesis using assms(2) by (simp add: live_of_def n)
next
  case False
  then have ip: "Suc ip = length ss" and n: "next_ip ip (length ss) = 0"
    using assms(1) by (simp_all add: next_ip_def)
  obtain s ss' where "ss = s # ss'" using assms(1) by (cases ss) auto
  then show ?thesis using assms(2) ip unfolding n by (simp add: live_of_def)
qed

lemma live_update:
  assumes "ip < length ss" "\<not> sl_used (ss ! ip)" "sl_used s"
  shows "live_of (ss[ip := s]) ip = live_of ss ip @ [s]"
proof -
  have "take (Suc ip) (ss[ip := s]) = take ip ss @ [s]"
    using assms(1) by (simp add: take_Suc_conv_app_nth)
  moreover have "take (Suc ip) ss = take ip ss @ [ss ! ip]"
    using assms(1) by (simp add: take_Suc_conv_app_nth)
  ultimately show ?thesis using assms(2,3) by (simp add: live_of_def)
qed

lemma filter_takeWhile_unused: "filter P (takeWhile (\<lambda>s. \<not> P s) xs) = []"
  by (auto simp: filter_empty_conv dest: set_takeWhileD)

lemma nth_next_used:
  assumes "pb_next_used ss i < length ss"
  shows "ss ! pb_next_used ss i = hd (filter sl_used (drop i ss))" "sl_used (ss ! pb_next_used ss i)"
proof -
  let ?d = "drop i ss" and ?P = "\<lambda>s. \<not> sl_used s"
  let ?k = "length (takeWhile ?P ?d)"
  have k: "?k < length ?d" using assms by (simp add: pb_next_used_def)
  have u: "sl_used (?d ! ?k)" using nth_length_takeWhile [OF k] by simp
  have "drop ?k ?d = ?d ! ?k # drop (Suc ?k) ?d" by (rule Cons_nth_drop_Suc [OF k, symmetric])
  moreover have "filter sl_used ?d = filter sl_used (takeWhile ?P ?d) @ filter sl_used (drop ?k ?d)"
    by (metis dropWhile_eq_drop filter_append takeWhile_dropWhile_id)
  moreover have "filter sl_used (takeWhile ?P ?d) = []" by (rule filter_takeWhile_unused)
  ultimately have "hd (filter sl_used ?d) = ?d ! ?k" using u by simp
  then show "ss ! pb_next_used ss i = hd (filter sl_used ?d)" "sl_used (ss ! pb_next_used ss i)"
    using k u by (simp_all add: pb_next_used_def)
qed

lemma next_used_none:
  assumes "length ss \<le> pb_next_used ss i"
  shows "filter sl_used (drop i ss) = []"
proof -
  let ?d = "drop i ss" and ?P = "\<lambda>s. \<not> sl_used s"
  have "length ?d \<le> length (takeWhile ?P ?d)" using assms by (simp add: pb_next_used_def)
  then have "takeWhile ?P ?d = ?d"
    by (metis dropWhile_eq_Nil_conv dropWhile_eq_drop drop_all takeWhile_eq_all_conv)
  then show ?thesis by (simp add: takeWhile_eq_all_conv filter_empty_conv)
qed

lemma lowest_location:
  "pb_lowest_location ss i t n = r \<Longrightarrow>
   (r = n \<and> (\<forall>s \<in> set ss. sl_used s \<longrightarrow> t \<le> int (sl_payloadLocation s))) \<or>
   (\<exists>k < length ss. r = Some (i + k) \<and> sl_used (ss ! k) \<and> int (sl_payloadLocation (ss ! k)) < t
      \<and> (\<forall>s \<in> set ss. sl_used s \<longrightarrow> sl_payloadLocation (ss ! k) \<le> sl_payloadLocation s))"
proof (induction ss arbitrary: i t n)
  case Nil
  then show ?case by simp
next
  case (Cons s ss)
  show ?case
  proof (cases "sl_used s \<and> int (sl_payloadLocation s) < t")
    case True
    with Cons.prems have "pb_lowest_location ss (Suc i) (int (sl_payloadLocation s)) (Some i) = r"
      by simp
    from Cons.IH [OF this] show ?thesis
    proof (elim disjE exE conjE)
      assume "r = Some i" "\<forall>s' \<in> set ss. sl_used s' \<longrightarrow> int (sl_payloadLocation s) \<le> int (sl_payloadLocation s')"
      then show ?thesis using True by (intro disjI2 exI [of _ 0]) auto
    next
      fix k assume "k < length ss" "r = Some (Suc i + k)" "sl_used (ss ! k)"
        "int (sl_payloadLocation (ss ! k)) < int (sl_payloadLocation s)"
        "\<forall>s' \<in> set ss. sl_used s' \<longrightarrow> sl_payloadLocation (ss ! k) \<le> sl_payloadLocation s'"
      then show ?thesis using True by (intro disjI2 exI [of _ "Suc k"]) auto
    qed
  next
    case False
    with Cons.prems have "pb_lowest_location ss (Suc i) t n = r" by auto
    from Cons.IH [OF this] show ?thesis
    proof (elim disjE exE conjE)
      assume "r = n" "\<forall>s' \<in> set ss. sl_used s' \<longrightarrow> t \<le> int (sl_payloadLocation s')"
      then show ?thesis using False by auto
    next
      fix k assume "k < length ss" "r = Some (Suc i + k)" "sl_used (ss ! k)"
        "int (sl_payloadLocation (ss ! k)) < t"
        "\<forall>s' \<in> set ss. sl_used s' \<longrightarrow> sl_payloadLocation (ss ! k) \<le> sl_payloadLocation s'"
      then show ?thesis using False by (intro disjI2 exI [of _ "Suc k"]) auto
    qed
  qed
qed


section \<open>Inserting keeps the buffer well formed\<close>

lemma flush_simps [simp]:
  assumes "pb_initialized b"
  shows "pb_initialized (snd (WebRtcNetEQ_PacketBufferFlush b))"
    "pb_memory (snd (WebRtcNetEQ_PacketBufferFlush b)) = pb_memory b"
    "pb_memorySizeW16 (snd (WebRtcNetEQ_PacketBufferFlush b)) = pb_memorySizeW16 b"
    "pb_currentMemoryPos (snd (WebRtcNetEQ_PacketBufferFlush b)) = 0"
    "pb_insertPosition (snd (WebRtcNetEQ_PacketBufferFlush b)) = 0"
    "pb_numPacketsInBuffer (snd (WebRtcNetEQ_PacketBufferFlush b)) = 0"
    "pb_maxInsertPositions (snd (WebRtcNetEQ_PacketBufferFlush b)) = pb_maxInsertPositions b"
    "length (pb_slots (snd (WebRtcNetEQ_PacketBufferFlush b))) = length (pb_slots b)"
    "s \<in> set (pb_slots (snd (WebRtcNetEQ_PacketBufferFlush b))) \<Longrightarrow> \<not> sl_used s"
    "i < length (pb_slots b) \<Longrightarrow> \<not> sl_used (pb_slots (snd (WebRtcNetEQ_PacketBufferFlush b)) ! i)"
  using assms by (auto simp: WebRtcNetEQ_PacketBufferFlush_def)

lemma count_if_none: "(\<And>s. s \<in> set xs \<Longrightarrow> \<not> P s) \<Longrightarrow> count_if P xs = 0"
  by (simp add: count_if_def filter_empty_conv)

lemma flush_inv: "pb_inv b \<Longrightarrow> pb_inv (snd (WebRtcNetEQ_PacketBufferFlush b))"
  unfolding pb_inv_def by (auto simp: count_if_none intro: sl_ok_unused)

lemma flush_live: "pb_initialized b \<Longrightarrow> pb_live (snd (WebRtcNetEQ_PacketBufferFlush b)) = []"
  by (simp add: live_of_def filter_empty_conv set_live)
     (meson flush_simps(9) in_set_dropD in_set_takeD)

text \<open>The packet a caller may insert: a payload that fits and is all there.\<close>

definition pb_fits :: "packet_buf \<Rightarrow> rtp_packet \<Rightarrow> bool" where
  "pb_fits b p \<longleftrightarrow> 0 < rtp_payloadLen p \<and> rtp_payloadLen p \<le> 2 * pb_memorySizeW16 b
     \<and> rtp_starts_byte1 p \<in> {0, 1}
     \<and> rtp_starts_byte1 p + rtp_payloadLen p \<le> int (length (rtp_payload p))"

text \<open>Where the new payload goes: a slot and a start in memory, with room before \<open>M\<close>.\<close>

definition pb_place :: "packet_buf \<Rightarrow> nat \<Rightarrow> bool" where
  "pb_place b words \<longleftrightarrow> pb_inv b
     \<and> pb_currentMemoryPos b + words \<le> nat (pb_memorySizeW16 b)
     \<and> \<not> sl_used (pb_slots b ! pb_insertPosition b)"

definition new_slot :: "rtp_packet \<Rightarrow> nat \<Rightarrow> pslot" where
  "new_slot p loc = \<lparr>sl_timeStamp = rtp_timeStamp p, sl_payloadLocation = loc,
     sl_seqNumber = rtp_seqNumber p, sl_payloadType = s16 (rtp_payloadType p),
     sl_payloadLengthBytes = rtp_payloadLen p, sl_rcuPlCntr = rtp_rcuPlCntr p, sl_waitingTime = 0\<rparr>"

lemma rtp_data_fits: "pb_fits b p \<Longrightarrow> length (rtp_data p) = nat (rtp_payloadLen p)"
  by (auto simp: rtp_data_def pb_fits_def)

lemma store_placed:
  assumes "pb_place b (pb_words (rtp_payloadLen p))" "pb_fits b p"
  shows "pb_store p b = Some (b\<lparr>
      pb_memory := blit (2 * pb_currentMemoryPos b) (rtp_data p) (pb_memory b),
      pb_slots := (pb_slots b)[pb_insertPosition b := new_slot p (pb_currentMemoryPos b)],
      pb_numPacketsInBuffer := pb_numPacketsInBuffer b + 1,
      pb_currentMemoryPos := pb_currentMemoryPos b + pb_words (rtp_payloadLen p)\<rparr>)"
proof -
  let ?n = "nat (rtp_payloadLen p)" and ?off = "if rtp_starts_byte1 p = 0 then 0 else 1 :: nat"
  have inv: "pb_inv b" and room: "pb_currentMemoryPos b + pb_words (rtp_payloadLen p) \<le> nat (pb_memorySizeW16 b)"
    using assms(1) by (auto simp: pb_place_def)
  have n: "?n \<le> 2 * pb_words (rtp_payloadLen p)"
    using assms(2) by (intro pb_words_bounds) (simp add: pb_fits_def)
  have off: "?off = nat (rtp_starts_byte1 p)" using assms(2) by (auto simp: pb_fits_def)
  have a: "\<not> length (rtp_payload p) < ?off + ?n" using assms(2) by (auto simp: pb_fits_def)
  have "length (pb_memory b) = 2 * nat (pb_memorySizeW16 b)" using inv by (simp add: pb_inv_def)
  then have b: "\<not> length (pb_memory b) < 2 * pb_currentMemoryPos b + ?n" using n room by simp
  have c: "\<not> length (pb_slots b) \<le> pb_insertPosition b" using inv by (simp add: pb_inv_def)
  show ?thesis
    unfolding pb_store_def Let_def using a b c
    by (simp add: off [symmetric] new_slot_def rtp_data_def split del: if_split)
qed

lemma stored_inv:
  assumes "pb_place b (pb_words (rtp_payloadLen p))" "pb_fits b p" "pb_store p b = Some b'"
  shows "pb_inv b'"
proof -
  let ?s = "new_slot p (pb_currentMemoryPos b)"
  have inv: "pb_inv b" and room: "pb_currentMemoryPos b + pb_words (rtp_payloadLen p) \<le> nat (pb_memorySizeW16 b)"
    and free: "\<not> sl_used (pb_slots b ! pb_insertPosition b)"
    using assms(1) by (auto simp: pb_place_def)
  have pos: "0 < rtp_payloadLen p" using assms(2) by (simp add: pb_fits_def)
  have used: "sl_used ?s" "sl_ok (nat (pb_memorySizeW16 b)) ?s"
    using pos room by (simp_all add: new_slot_def sl_ok_def sl_end_def)
  have "length (pb_memory b) = 2 * nat (pb_memorySizeW16 b)" using inv by (simp add: pb_inv_def)
  then have mem: "2 * pb_currentMemoryPos b + length (rtp_data p) \<le> length (pb_memory b)"
    using room pb_words_bounds(1) [OF pos] rtp_data_fits [OF assms(2)] by simp
  have "pb_insertPosition b < length (pb_slots b)" using inv by (simp add: pb_inv_def)
  from count_if_update [OF this, of sl_used ?s] used free
  have count: "int (count_if sl_used ((pb_slots b)[pb_insertPosition b := ?s])) = int (count_if sl_used (pb_slots b)) + 1"
    by simp
  have "b' = b\<lparr>
      pb_memory := blit (2 * pb_currentMemoryPos b) (rtp_data p) (pb_memory b),
      pb_slots := (pb_slots b)[pb_insertPosition b := ?s],
      pb_numPacketsInBuffer := pb_numPacketsInBuffer b + 1,
      pb_currentMemoryPos := pb_currentMemoryPos b + pb_words (rtp_payloadLen p)\<rparr>"
    using store_placed [OF assms(1,2)] assms(3) by simp
  then show ?thesis
    using inv room mem count used(2) by (auto simp: pb_inv_def dest!: in_set_list_update)
qed

lemma find_position_ok:
  assumes "pb_inv b" "pb_numPacketsInBuffer b \<noteq> 0" "0 < w" "w \<le> nat (pb_memorySizeW16 b)"
  defines "ip \<equiv> next_ip (pb_insertPosition b) (pb_maxInsertPositions b)"
  obtains (wrap) n where
      "pb_find_position b w = Some (Inr (n, b\<lparr>pb_insertPosition := ip, pb_currentMemoryPos := 0\<rparr>))"
      "n < length (pb_slots b)" "sl_used (pb_slots b ! n)"
      "\<forall>s \<in> set (pb_slots b). sl_used s \<longrightarrow> sl_payloadLocation (pb_slots b ! n) \<le> sl_payloadLocation s"
    | (fit) n where
      "pb_find_position b w = Some (Inr (n, b\<lparr>pb_insertPosition := ip\<rparr>))"
      "n < length (pb_slots b)" "sl_used (pb_slots b ! n)"
      "pb_currentMemoryPos b + w < nat (pb_memorySizeW16 b)"
      "\<not> sl_used (pb_slots b ! ip) \<longrightarrow> pb_slots b ! n = hd (live_of (pb_slots b) ip)"
proof -
  let ?ss = "pb_slots b" and ?M = "pb_memorySizeW16 b"
  have len: "length ?ss = pb_maxInsertPositions b" and M: "0 \<le> ?M"
    and ok: "\<forall>s \<in> set ?ss. sl_ok (nat ?M) s" using assms(1) by (auto simp: pb_inv_def)
  have "0 < count_if sl_used ?ss" using assms(1,2) by (simp add: pb_inv_def)
  then obtain k where k: "k < length ?ss" "sl_used (?ss ! k)" by (auto simp: count_if_pos_iff)
  have ip: "ip < length ?ss" using assms(1) by (simp add: ip_def pb_inv_def next_ip_less)
  have ipd: "(if pb_insertPosition b + 1 \<ge> pb_maxInsertPositions b then 0 else pb_insertPosition b + 1) = ip"
    by (simp add: ip_def next_ip_def)
  show thesis
  proof (cases "int (pb_currentMemoryPos b) + int w \<ge> ?M")
    case True
    define r where "r = pb_lowest_location ?ss 0 ?M None"
    have "\<exists>n. r = Some n \<and> n < length ?ss \<and> sl_used (?ss ! n) \<and>
        (\<forall>s \<in> set ?ss. sl_used s \<longrightarrow> sl_payloadLocation (?ss ! n) \<le> sl_payloadLocation s)"
      using lowest_location [OF r_def [symmetric]]
    proof (elim disjE exE conjE)
      assume none: "\<forall>s \<in> set ?ss. sl_used s \<longrightarrow> ?M \<le> int (sl_payloadLocation s)"
      have s: "?ss ! k \<in> set ?ss" using k(1) by simp
      with none k(2) ok pb_words_pos have "?M \<le> int (sl_payloadLocation (?ss ! k))"
        "sl_end (?ss ! k) \<le> nat ?M" "0 < pb_words (sl_payloadLengthBytes (?ss ! k))"
        by (auto simp: sl_ok_def)
      then show ?thesis using M by (simp add: sl_end_def)
    qed auto
    then obtain n where n: "r = Some n" "n < length ?ss" "sl_used (?ss ! n)"
      "\<forall>s \<in> set ?ss. sl_used s \<longrightarrow> sl_payloadLocation (?ss ! n) \<le> sl_payloadLocation s" by auto
    have "pb_find_position b w = Some (Inr (n, b\<lparr>pb_insertPosition := ip, pb_currentMemoryPos := 0\<rparr>))"
      unfolding pb_find_position_def Let_def ipd using True n(1) by (simp add: r_def)
    then show thesis using n by (intro wrap)
  next
    case False
    have room: "pb_currentMemoryPos b + w < nat ?M" using False M by linarith
    define n1 where "n1 = pb_next_used ?ss (ip + 1)"
    define n0 where "n0 = pb_next_used ?ss 0"
    show thesis
    proof (cases "n1 \<ge> length ?ss")
      case True
      have n0: "n0 < length ?ss"
        using next_used_none [of ?ss 0] k by (force simp: n0_def filter_empty_conv not_less [symmetric])
      have "filter sl_used (drop (Suc ip) ?ss) = []"
        using next_used_none [of ?ss "Suc ip"] True by (simp add: n1_def)
      moreover have "?ss = take (Suc ip) ?ss @ drop (Suc ip) ?ss" by simp
      ultimately have "filter sl_used ?ss = live_of ?ss ip"
        by (metis append_Nil append_Nil2 filter_append live_of_def)
      then have "?ss ! n0 = hd (live_of ?ss ip)" "sl_used (?ss ! n0)"
        using nth_next_used [of ?ss 0] n0 by (simp_all add: n0_def)
      moreover have "pb_find_position b w = Some (Inr (n0, b\<lparr>pb_insertPosition := ip\<rparr>))"
        unfolding pb_find_position_def Let_def ipd using False True n0 len
        by (simp add: n0_def n1_def)
      ultimately show thesis using n0 room by (intro fit) auto
    next
      case n1: False
      have "?ss ! n1 = hd (filter sl_used (drop (Suc ip) ?ss))" and u: "sl_used (?ss ! n1)"
        using nth_next_used [of ?ss "Suc ip"] n1 by (simp_all add: n1_def)
      moreover have "filter sl_used (drop (Suc ip) ?ss) \<noteq> []"
      proof -
        have "ip + 1 \<le> n1" by (simp add: n1_def pb_next_used_def)
        then have "?ss ! n1 \<in> set (drop (Suc ip) ?ss)"
          using n1 by (auto simp: in_set_conv_nth intro!: exI [of _ "n1 - Suc ip"])
        with u show ?thesis by (auto simp: filter_empty_conv)
      qed
      ultimately have "?ss ! n1 = hd (live_of ?ss ip)" by (simp add: live_of_def hd_append)
      moreover have "pb_find_position b w = Some (Inr (n1, b\<lparr>pb_insertPosition := ip\<rparr>))"
        unfolding pb_find_position_def Let_def ipd using False n1 len by (simp add: n1_def)
      ultimately show thesis using n1 u room by (intro fit) auto
    qed
  qed
qed


lemma flush_if_full_cases:
  assumes "pb_inv b" "n < length (pb_slots b)"
  obtains (flushed) b1 where "pb_flush_if_full n w b = Some (1, b1)" "pb_inv b1"
      "pb_slots b1 ! pb_insertPosition b1 \<in> set (pb_slots b1)"
      "pb_currentMemoryPos b1 = 0" "pb_live b1 = []" "pb_memorySizeW16 b1 = pb_memorySizeW16 b"
    | (kept) "pb_flush_if_full n w b = Some (0, b)" "\<not> sl_used (pb_slots b ! pb_insertPosition b)"
      "\<not> (pb_currentMemoryPos b \<le> sl_payloadLocation (pb_slots b ! n)
          \<and> sl_payloadLocation (pb_slots b ! n) < pb_currentMemoryPos b + w)"
proof -
  let ?f = "\<lambda>b. snd (WebRtcNetEQ_PacketBufferFlush b)"
  let ?full = "pb_currentMemoryPos b \<le> sl_payloadLocation (pb_slots b ! n)
               \<and> pb_currentMemoryPos b + w > sl_payloadLocation (pb_slots b ! n)"
  have ini: "pb_initialized b" and ip: "pb_insertPosition b < length (pb_slots b)"
    and two: "0 < length (pb_slots b)"
    using assms(1) by (auto simp: pb_inv_def)
  have f: "pb_inv (?f b)" "pb_live (?f b) = []" "pb_currentMemoryPos (?f b) = 0"
    "pb_slots (?f b) ! pb_insertPosition (?f b) \<in> set (pb_slots (?f b))"
    "pb_memorySizeW16 (?f b) = pb_memorySizeW16 b"
    "\<not> sl_used (pb_slots (?f b) ! pb_insertPosition (?f b))"
    using flush_inv [OF assms(1)] flush_live [OF ini] ini two by simp_all
  show thesis
  proof (cases ?full)
    case True
    then have "pb_flush_if_full n w b = Some (1, ?f b)"
      using assms(2) two f(6) ini by (simp add: pb_flush_if_full_def Let_def)
    then show thesis using f by (intro flushed [of "?f b"]) auto
  next
    case False
    show thesis
    proof (cases "sl_used (pb_slots b ! pb_insertPosition b)")
      case True
      then have "pb_flush_if_full n w b = Some (1, ?f b)"
        using assms(2) ip False by (auto simp: pb_flush_if_full_def Let_def)
      then show thesis using f by (intro flushed [of "?f b"]) auto
    next
      case free: False
      then have "pb_flush_if_full n w b = Some (0, b)"
        using assms(2) ip False by (auto simp: pb_flush_if_full_def Let_def)
      then show thesis using free False by (intro kept) auto
    qed
  qed
qed

text \<open>What one insertion without AV-sync does, in the three ways it can go.\<close>

lemma insert_cases:
  assumes "pb_inv b" "pb_fits b p"
  defines "w \<equiv> pb_words (rtp_payloadLen p)"
    and "ip \<equiv> next_ip (pb_insertPosition b) (pb_maxInsertPositions b)"
  obtains (fresh) fl b' b1 where
      "WebRtcNetEQ_PacketBufferInsert b p False = Some (0, fl, b')"
      "pb_place b1 w" "pb_store p b1 = Some b'" "pb_live b1 = []" "pb_currentMemoryPos b1 = 0"
      "pb_memorySizeW16 b1 = pb_memorySizeW16 b" "fl = 0 \<longrightarrow> pb_live b = []" "fl \<in> {0, 1}"
    | (wrap) b' b1 where
      "WebRtcNetEQ_PacketBufferInsert b p False = Some (0, 0, b')"
      "b1 = b\<lparr>pb_insertPosition := ip, pb_currentMemoryPos := 0\<rparr>" "pb_place b1 w"
      "pb_store p b1 = Some b'" "\<forall>s \<in> set (pb_slots b). sl_used s \<longrightarrow> w \<le> sl_payloadLocation s"
    | (fit) b' b1 where
      "WebRtcNetEQ_PacketBufferInsert b p False = Some (0, 0, b')"
      "b1 = b\<lparr>pb_insertPosition := ip\<rparr>" "pb_place b1 w" "pb_store p b1 = Some b'"
      "pb_live b \<noteq> []"
      "\<not> (pb_currentMemoryPos b \<le> sl_payloadLocation (hd (pb_live b))
          \<and> sl_payloadLocation (hd (pb_live b)) < pb_currentMemoryPos b + w)"
proof -
  have inv: "pb_initialized b" "0 \<le> pb_memorySizeW16 b" using assms(1) by (simp_all add: pb_inv_def)
  have pos: "0 < rtp_payloadLen p" and "rtp_payloadLen p \<le> shl (pb_memorySizeW16 b) 1"
    using assms(2) by (simp_all add: pb_fits_def shl_eq_mult)
  then have w: "0 < w" "w \<le> nat (pb_memorySizeW16 b)" and ok: "\<not> rtp_payloadLen p > shl (pb_memorySizeW16 b) 1"
    using pb_words_pos [of "rtp_payloadLen p"] pb_words_le [of "rtp_payloadLen p"] inv(2)
    by (simp_all add: w_def)
  note unfold = WebRtcNetEQ_PacketBufferInsert_def Let_def w_def [symmetric]
  have fits: "pb_memorySizeW16 b1 = pb_memorySizeW16 b \<Longrightarrow> pb_fits b1 p" for b1
    using assms(2) by (simp add: pb_fits_def)
  have st: "\<exists>b'. pb_store p b1 = Some b'" if "pb_place b1 w" "pb_memorySizeW16 b1 = pb_memorySizeW16 b" for b1
    using store_placed [of b1 p] fits [OF that(2)] that(1) by (simp add: w_def)
  show thesis
  proof (cases "pb_numPacketsInBuffer b = 0")
    case True
    let ?b1 = "b\<lparr>pb_currentMemoryPos := 0, pb_insertPosition := 0\<rparr>"
    have none: "\<forall>i < length (pb_slots b). \<not> sl_used (pb_slots b ! i)"
      using True assms(1) by (simp add: pb_inv_def count_if_zero_iff)
    then have none': "\<forall>s \<in> set (pb_slots b). \<not> sl_used s" by (auto simp: in_set_conv_nth)
    have live: "live_of (pb_slots b) i = []" for i
      using none' set_live [of "pb_slots b" i] by (auto simp flip: set_empty)
    have place: "pb_place ?b1 w" using assms(1) none w by (auto simp: pb_place_def pb_inv_def)
    from st [OF this] obtain b' where b': "pb_store p ?b1 = Some b'" by auto
    then have "WebRtcNetEQ_PacketBufferInsert b p False = Some (0, 0, b')"
      using True inv ok pos by (simp add: unfold)
    then show thesis using b' place live by (intro fresh [of 0 b' ?b1]) auto
  next
    case False
    have insert: "WebRtcNetEQ_PacketBufferInsert b p False =
        do { r \<leftarrow> pb_find_position b w;
             case r of Inl b' \<Rightarrow> Some (-1, 1, b')
             | Inr (nextPos, b') \<Rightarrow> do { (flushed, b'') \<leftarrow> pb_flush_if_full nextPos w b';
                                      b3 \<leftarrow> pb_store p b''; Some (0, flushed, b3) } }"
      using False inv ok pos by (simp add: unfold)
    have ipl: "ip < pb_maxInsertPositions b"
      using assms(1) by (auto simp: ip_def pb_inv_def intro: next_ip_less)
    have do_flush: thesis if "pb_find_position b w = Some (Inr (n, b0))"
      "pb_flush_if_full n w b0 = Some (1, b1)" "pb_inv b1" "pb_currentMemoryPos b1 = 0"
      "pb_live b1 = []" "pb_memorySizeW16 b1 = pb_memorySizeW16 b"
      "pb_slots b1 ! pb_insertPosition b1 \<in> set (pb_slots b1)" for n b0 b1
    proof -
      have "\<not> sl_used (pb_slots b1 ! pb_insertPosition b1)"
        using that(5,7) set_live [of "pb_slots b1" "pb_insertPosition b1"] by auto
      then have place: "pb_place b1 w" using that w by (simp add: pb_place_def)
      from st [OF this that(6)] obtain b' where "pb_store p b1 = Some b'" by auto
      then show thesis using that place by (intro fresh [of 1 b' b1]) (auto simp: insert)
    qed
    have live_ip: "live_of (pb_slots b) ip = pb_live b" if "\<not> sl_used (pb_slots b ! ip)"
      using live_next_ip [of "pb_insertPosition b" "pb_slots b"] that assms(1)
      by (simp add: ip_def pb_inv_def)
    show thesis
      using find_position_ok [OF assms(1) False w]
    proof cases
      case (1 n)
      note found = 1(1)
      let ?b1 = "b\<lparr>pb_insertPosition := ip, pb_currentMemoryPos := 0\<rparr>"
      have inv1: "pb_inv ?b1" "n < length (pb_slots ?b1)"
        using assms(1) ipl 1(2) by (simp_all add: pb_inv_def)
      show thesis
        using inv1
      proof (cases rule: flush_if_full_cases [where w = w])
        case (flushed b1)
        then show thesis using flushed by (intro do_flush [OF found [folded ip_def]]) auto
      next
        case kept
        have place: "pb_place ?b1 w" using inv1 kept w by (simp add: pb_place_def)
        from st [OF this] obtain b' where b': "pb_store p ?b1 = Some b'" by auto
        have "w \<le> sl_payloadLocation (pb_slots b ! n)" using kept(3) by simp
        then have "\<forall>s \<in> set (pb_slots b). sl_used s \<longrightarrow> w \<le> sl_payloadLocation s" using 1(4) by auto
        moreover have "WebRtcNetEQ_PacketBufferInsert b p False = Some (0, 0, b')"
          using 1(1) kept(1) b' by (simp add: insert ip_def)
        ultimately show thesis using place b' by (intro wrap [of b' ?b1]) auto
      qed
    next
      case (2 n)
      note found = 2(1)
      let ?b1 = "b\<lparr>pb_insertPosition := ip\<rparr>"
      have inv1: "pb_inv ?b1" "n < length (pb_slots ?b1)"
        using assms(1) ipl 2(2) by (simp_all add: pb_inv_def)
      show thesis
        using inv1
      proof (cases rule: flush_if_full_cases [where w = w])
        case (flushed b1)
        then show thesis using flushed by (intro do_flush [OF found [folded ip_def]]) auto
      next
        case kept
        have place: "pb_place ?b1 w" using inv1 kept 2(4) by (simp add: pb_place_def)
        from st [OF this] obtain b' where b': "pb_store p ?b1 = Some b'" by auto
        have free: "\<not> sl_used (pb_slots b ! ip)" using kept(2) by simp
        have hd: "pb_slots b ! n = hd (pb_live b)" using 2(5) free live_ip by (simp add: ip_def)
        moreover have "pb_live b \<noteq> []"
          using 2(2,3) set_live [of "pb_slots b" "pb_insertPosition b"] by (metis (mono_tags) empty_iff empty_set mem_Collect_eq nth_mem)
        moreover have "WebRtcNetEQ_PacketBufferInsert b p False = Some (0, 0, b')"
          using 2(1) kept(1) b' by (simp add: insert ip_def)
        ultimately show thesis using place b' kept(3) by (intro fit [of b' ?b1]) auto
      qed
    qed
  qed
qed

end
