(* ===== verification/Packet_Queue.thy ===== *)
theory Packet_Queue
  imports Packet_Buffer Fifo
begin

text \<open>
  What the packet buffer promises: the used slots in ring order are an abstract list of
  packets; insertion appends to it, extraction of the oldest slot removes its head, and the
  search for the lowest timestamp finds the packet to decode next.  The memory layout that
  makes this true is \<open>pb_ring\<close>; \<open>pb_fifo\<close> strengthens it to an invariant of a buffer emptied
  in ring order.  The last property shows that extraction in another order can leave it.
\<close>

lemma place_less: "pb_place b w \<Longrightarrow> pb_insertPosition b < length (pb_slots b)"
  by (simp add: pb_place_def pb_inv_def)

lemma stored_live:
  assumes "pb_place b (pb_words (rtp_payloadLen p))" "pb_fits b p" "pb_store p b = Some b'"
  shows "pb_live b' = pb_live b @ [new_slot p (pb_currentMemoryPos b)]"
    "pb_currentMemoryPos b' = pb_currentMemoryPos b + pb_words (rtp_payloadLen p)"
    "pb_memory b' = blit (2 * pb_currentMemoryPos b) (rtp_data p) (pb_memory b)"
    "pb_slots b' = (pb_slots b)[pb_insertPosition b := new_slot p (pb_currentMemoryPos b)]"
    "pb_insertPosition b' = pb_insertPosition b"
    "pb_memorySizeW16 b' = pb_memorySizeW16 b"
    "pb_numPacketsInBuffer b' = pb_numPacketsInBuffer b + 1"
    "pb_initialized b' = pb_initialized b" "pb_maxInsertPositions b' = pb_maxInsertPositions b"
    "pb_discardedPackets b' = pb_discardedPackets b" "pb_packSizeSamples b' = pb_packSizeSamples b"
proof -
  let ?s = "new_slot p (pb_currentMemoryPos b)"
  have "sl_used ?s" using assms(2) by (simp add: pb_fits_def new_slot_def)
  then have "live_of ((pb_slots b)[pb_insertPosition b := ?s]) (pb_insertPosition b) = pb_live b @ [?s]"
    using live_update [OF place_less [OF assms(1)]] assms(1) by (simp add: pb_place_def)
  then show "pb_live b' = pb_live b @ [?s]"
    "pb_currentMemoryPos b' = pb_currentMemoryPos b + pb_words (rtp_payloadLen p)"
    "pb_memory b' = blit (2 * pb_currentMemoryPos b) (rtp_data p) (pb_memory b)"
    "pb_slots b' = (pb_slots b)[pb_insertPosition b := ?s]"
    "pb_insertPosition b' = pb_insertPosition b"
    "pb_memorySizeW16 b' = pb_memorySizeW16 b"
    "pb_numPacketsInBuffer b' = pb_numPacketsInBuffer b + 1"
    "pb_initialized b' = pb_initialized b" "pb_maxInsertPositions b' = pb_maxInsertPositions b"
    "pb_discardedPackets b' = pb_discardedPackets b" "pb_packSizeSamples b' = pb_packSizeSamples b"
    using store_placed [OF assms(1,2)] assms(3) by auto
qed

section \<open>The buffer as a queue of packets\<close>

text \<open>What a slot stands for: the packet's fields and its payload bytes.\<close>

type_synonym packet = "int \<times> int \<times> int \<times> int \<times> byte list"

definition slot_bytes :: "byte list \<Rightarrow> pslot \<Rightarrow> byte list" where
  "slot_bytes mem s = slice (2 * sl_payloadLocation s) (nat (sl_payloadLengthBytes s)) mem"

definition slot_packet :: "byte list \<Rightarrow> pslot \<Rightarrow> packet" where
  "slot_packet mem s =
     (sl_seqNumber s, sl_timeStamp s, sl_payloadType s, sl_rcuPlCntr s, slot_bytes mem s)"

definition packet_of :: "rtp_packet \<Rightarrow> packet" where
  "packet_of p = (rtp_seqNumber p, rtp_timeStamp p, s16 (rtp_payloadType p), rtp_rcuPlCntr p, rtp_data p)"

definition pb_abs :: "packet_buf \<Rightarrow> packet list" where
  "pb_abs b = map (slot_packet (pb_memory b)) (pb_live b)"

text \<open>
  The memory layout under which no live payload is overwritten.  In ring order the live
  payloads are those of the previous lap (\<open>hi\<close>, at or above \<open>currentMemoryPos\<close>) followed by
  those of the current lap (\<open>lo\<close>, below it), both in increasing order.  A buffer used as a
  queue moreover keeps the first payload of the current lap at the start of the memory as
  long as the previous lap is not used up.
\<close>

definition regions :: "pslot list \<Rightarrow> bool" where
  "regions = sorted_wrt (\<lambda>s t. sl_end s \<le> sl_payloadLocation t)"

definition pb_split :: "packet_buf \<Rightarrow> pslot list \<Rightarrow> pslot list \<Rightarrow> bool" where
  "pb_split b hi lo \<longleftrightarrow> pb_live b = hi @ lo \<and> regions hi \<and> regions lo
     \<and> (\<forall>s \<in> set hi. pb_currentMemoryPos b \<le> sl_payloadLocation s)
     \<and> (\<forall>s \<in> set lo. sl_end s \<le> pb_currentMemoryPos b)"

definition pb_ring :: "packet_buf \<Rightarrow> bool" where
  "pb_ring b \<longleftrightarrow> pb_inv b \<and> (\<exists>hi lo. pb_split b hi lo)"

definition pb_fifo :: "packet_buf \<Rightarrow> bool" where
  "pb_fifo b \<longleftrightarrow> pb_inv b \<and> (\<exists>hi lo. pb_split b hi lo
     \<and> (hi \<noteq> [] \<longrightarrow> lo \<noteq> [] \<and> sl_payloadLocation (hd lo) = 0))"

lemma fifo_ring: "pb_fifo b \<Longrightarrow> pb_ring b"
  by (auto simp: pb_fifo_def pb_ring_def)

lemma used_end: "sl_ok M s \<Longrightarrow> sl_used s \<Longrightarrow> sl_payloadLocation s < sl_end s"
  using pb_words_pos by (auto simp: sl_ok_def sl_end_def)

lemma live_ok: "pb_inv b \<Longrightarrow> s \<in> set (pb_live b) \<Longrightarrow> sl_ok (nat (pb_memorySizeW16 b)) s \<and> sl_used s"
  by (auto simp: set_live pb_inv_def)

text \<open>A payload stored clear of the live ones leaves them as they are.\<close>

lemma stored_abs:
  assumes "pb_place b (pb_words (rtp_payloadLen p))" "pb_fits b p" "pb_store p b = Some b'"
    "\<And>s. s \<in> set (pb_live b) \<Longrightarrow> sl_end s \<le> pb_currentMemoryPos b \<or>
        pb_currentMemoryPos b + pb_words (rtp_payloadLen p) \<le> sl_payloadLocation s"
  shows "pb_abs b' = pb_abs b @ [packet_of p]"
proof -
  let ?pos = "2 * pb_currentMemoryPos b" and ?new = "new_slot p (pb_currentMemoryPos b)"
  have inv: "pb_inv b" and room: "pb_currentMemoryPos b + pb_words (rtp_payloadLen p) \<le> nat (pb_memorySizeW16 b)"
    using assms(1) by (auto simp: pb_place_def)
  have len: "length (rtp_data p) = nat (rtp_payloadLen p)" by (rule rtp_data_fits [OF assms(2)])
  have pos: "0 < rtp_payloadLen p" using assms(2) by (simp add: pb_fits_def)
  have memlen: "length (pb_memory b) = 2 * nat (pb_memorySizeW16 b)" using inv by (simp add: pb_inv_def)
  have mem: "?pos + length (rtp_data p) \<le> length (pb_memory b)"
    using room pb_words_bounds(1) [OF pos] by (simp add: memlen len)
  have "slot_bytes (pb_memory b') s = slot_bytes (pb_memory b) s" if s: "s \<in> set (pb_live b)" for s
  proof -
    have ok: "0 < sl_payloadLengthBytes s" "sl_end s \<le> nat (pb_memorySizeW16 b)"
      using live_ok [OF inv s] by (auto simp: sl_ok_def)
    have w: "nat (sl_payloadLengthBytes s) \<le> 2 * pb_words (sl_payloadLengthBytes s)"
      by (rule pb_words_bounds [OF ok(1)])
    have "2 * sl_payloadLocation s + nat (sl_payloadLengthBytes s) \<le> ?pos \<or>
          ?pos + length (rtp_data p) \<le> 2 * sl_payloadLocation s"
      using assms(4) [OF s] w pb_words_bounds(1) [OF pos] by (auto simp: sl_end_def len)
    moreover have "2 * sl_payloadLocation s + nat (sl_payloadLengthBytes s) \<le> length (pb_memory b)"
      using ok(2) w by (simp add: sl_end_def memlen)
    ultimately show ?thesis
      unfolding slot_bytes_def stored_live(3) [OF assms(1-3)] using mem
      by (intro slice_blit_disjoint) auto
  qed
  moreover have "slot_bytes (pb_memory b') ?new = rtp_data p"
    unfolding slot_bytes_def stored_live(3) [OF assms(1-3)] new_slot_def
    using slice_blit_same [OF mem] by (simp add: len)
  ultimately show ?thesis
    unfolding pb_abs_def stored_live(1) [OF assms(1-3)]
    by (simp add: slot_packet_def packet_of_def) (simp add: new_slot_def)
qed

lemma regions_simps [simp]: "regions []" "regions (xs @ [s]) \<longleftrightarrow> regions xs \<and> (\<forall>t \<in> set xs. sl_end t \<le> sl_payloadLocation s)"
  by (auto simp: regions_def sorted_wrt_append)

lemma split_new:
  assumes "pb_split b hi lo" "s = new_slot p (pb_currentMemoryPos b)" 
    "pb_live b' = pb_live b @ [s]" "pb_currentMemoryPos b' = sl_end s"
    "\<forall>t \<in> set hi. sl_end s \<le> sl_payloadLocation t"
  shows "pb_split b' hi (lo @ [s])"
  using assms unfolding pb_split_def by (auto simp: new_slot_def sl_end_def)

lemma place_ip: "pb_inv b \<Longrightarrow> ip = next_ip (pb_insertPosition b) (pb_maxInsertPositions b) \<Longrightarrow>
    \<not> sl_used (pb_slots b ! ip) \<Longrightarrow> live_of (pb_slots b) ip = pb_live b"
  using live_next_ip [of "pb_insertPosition b" "pb_slots b"] by (simp add: pb_inv_def)

lemma sorted_hd_le: "regions xs \<Longrightarrow> xs \<noteq> [] \<Longrightarrow> \<forall>s \<in> set xs. sl_payloadLocation s < sl_end s \<Longrightarrow>
    t \<in> set xs \<Longrightarrow> sl_payloadLocation (hd xs) \<le> sl_payloadLocation t"
  by (cases xs) (auto simp: regions_def intro: less_imp_le order.strict_trans2)

text \<open>The memory order keeps every live payload; a queue stays a queue.\<close>

lemma insert_ring:
  assumes "pb_ring b" "pb_fits b p"
  obtains fl b' where "WebRtcNetEQ_PacketBufferInsert b p False = Some (0, fl, b')" "pb_inv b'"
    "pb_abs b' = (if fl = 0 then pb_abs b else []) @ [packet_of p]"
    "pb_fifo b \<Longrightarrow> pb_fifo b'"
proof -
  let ?w = "pb_words (rtp_payloadLen p)"
  have inv: "pb_inv b" using assms(1) by (simp add: pb_ring_def)
  obtain hi lo where hl: "pb_split b hi lo" using assms(1) by (auto simp: pb_ring_def)
  have fits: "pb_memorySizeW16 b1 = pb_memorySizeW16 b \<Longrightarrow> pb_fits b1 p" for b1
    using assms(2) by (simp add: pb_fits_def)
  have w: "0 < ?w" using assms(2) pb_words_pos by (simp add: pb_fits_def)
  have new_end: "sl_end (new_slot p loc) = loc + ?w" for loc by (simp add: sl_end_def new_slot_def)
  have new_loc: "sl_payloadLocation (new_slot p loc) = loc" for loc by (simp add: new_slot_def)
  show thesis
    using inv assms(2)
  proof (cases rule: insert_cases)
    case (fresh fl b' b1)
    note st = stored_live [OF fresh(2) fits [OF fresh(6)] fresh(3)]
    have abs: "pb_abs b' = pb_abs b1 @ [packet_of p]"
      using fresh(4) by (intro stored_abs [OF fresh(2) fits [OF fresh(6)] fresh(3)]) simp
    moreover have "pb_abs b1 = []" "fl = 0 \<longrightarrow> pb_abs b = []" using fresh by (simp_all add: pb_abs_def)
    moreover have "pb_split b' [] [new_slot p (pb_currentMemoryPos b1)]"
      using st(1,2) fresh(4) by (simp add: pb_split_def new_end regions_def)
    then have "pb_fifo b'"
      using stored_inv [OF fresh(2) fits [OF fresh(6)] fresh(3)] by (auto simp: pb_fifo_def)
    ultimately show thesis
      using fresh(1) by (intro that [of fl b']) (auto simp: pb_fifo_def)
  next
    case (wrap b' b1)
    have f: "pb_fits b1 p" using wrap(2) by (intro fits) simp
    note st = stored_live [OF wrap(3) f wrap(4)]
    have live1: "pb_live b1 = pb_live b"
      using wrap(2,3) inv by (simp add: pb_place_def place_ip)
    have clear: "\<forall>s \<in> set (pb_live b). ?w \<le> sl_payloadLocation s" using wrap(5) by (simp add: set_live)
    have cur: "pb_currentMemoryPos b1 = 0" using wrap(2) by simp
    have abs: "pb_abs b' = pb_abs b1 @ [packet_of p]"
      using clear by (intro stored_abs [OF wrap(3) f wrap(4)]) (simp add: live1 cur)
    have inv': "pb_inv b'" by (rule stored_inv [OF wrap(3) f wrap(4)])
    have "pb_fifo b'" if "pb_fifo b"
    proof -
      from that obtain hi lo where hl: "pb_split b hi lo"
        "hi \<noteq> [] \<longrightarrow> lo \<noteq> [] \<and> sl_payloadLocation (hd lo) = 0" by (auto simp: pb_fifo_def)
      have "hi = []"
      proof (rule ccontr)
        assume "hi \<noteq> []"
        then have "hd lo \<in> set (pb_live b)" "sl_payloadLocation (hd lo) = 0"
          using hl by (simp_all add: pb_split_def)
        with clear w show False by auto
      qed
      with hl have "regions (pb_live b)" by (simp add: pb_split_def)
      then have "pb_split b' (pb_live b) [new_slot p 0]"
        using clear by (simp add: pb_split_def st(1,2) live1 cur new_end regions_def)
      with inv' show ?thesis unfolding pb_fifo_def
        by (intro conjI exI [of _ "pb_live b"] exI [of _ "[new_slot p 0]"]) (simp_all add: new_loc)
    qed
    moreover have "pb_abs b1 = pb_abs b" using live1 wrap(2) by (simp add: pb_abs_def)
    ultimately show thesis using wrap(1) abs inv' by (intro that [of 0 b']) auto
  next
    case (fit b' b1)
    have f: "pb_fits b1 p" using fit(2) by (intro fits) simp
    note st = stored_live [OF fit(3) f fit(4)]
    have live1: "pb_live b1 = pb_live b"
      using fit(2,3) inv by (simp add: pb_place_def place_ip)
    have cur: "pb_currentMemoryPos b1 = pb_currentMemoryPos b" using fit(2) by simp
    have above: "\<forall>t \<in> set hi. pb_currentMemoryPos b + ?w \<le> sl_payloadLocation t"
      if hl: "pb_split b hi lo" for hi lo
    proof (cases "hi = []")
      case False
      have u: "\<forall>s \<in> set hi. sl_payloadLocation s < sl_end s"
        using hl live_ok [OF inv] used_end by (auto simp: pb_split_def)
      have "hd (pb_live b) = hd hi" using hl False by (simp add: pb_split_def)
      then have "pb_currentMemoryPos b + ?w \<le> sl_payloadLocation (hd hi)"
        using fit(6) hl False by (auto simp: pb_split_def)
      moreover have "\<forall>t \<in> set hi. sl_payloadLocation (hd hi) \<le> sl_payloadLocation t"
        using hl False u sorted_hd_le [of hi] by (simp add: pb_split_def)
      ultimately show ?thesis by auto
    qed simp
    have split': "pb_split b' hi (lo @ [new_slot p (pb_currentMemoryPos b)])" if hl: "pb_split b hi lo" for hi lo
      using above [OF hl] by (intro split_new [OF hl refl]) (simp_all add: st(1,2) live1 cur new_end)
    have clear: "sl_end s \<le> pb_currentMemoryPos b \<or> pb_currentMemoryPos b + ?w \<le> sl_payloadLocation s"
      if "s \<in> set (pb_live b)" for s
      using that hl above [OF hl] by (auto simp: pb_split_def)
    have abs: "pb_abs b' = pb_abs b1 @ [packet_of p]"
      using clear by (intro stored_abs [OF fit(3) f fit(4)]) (simp add: live1 cur)
    have inv': "pb_inv b'" by (rule stored_inv [OF fit(3) f fit(4)])
    have "pb_fifo b'" if fifo: "pb_fifo b"
    proof -
      from fifo obtain hi lo where s: "pb_split b hi lo"
        "hi \<noteq> [] \<longrightarrow> lo \<noteq> [] \<and> sl_payloadLocation (hd lo) = 0" by (auto simp: pb_fifo_def)
      then show ?thesis using split' [OF s(1)] inv' unfolding pb_fifo_def
        by (intro conjI exI [of _ hi] exI [of _ "lo @ [new_slot p (pb_currentMemoryPos b)]"]) auto
    qed
    moreover have "pb_abs b1 = pb_abs b" using live1 fit(2) by (simp add: pb_abs_def)
    ultimately show thesis using fit(1) abs inv' by (intro that [of 0 b']) auto
  qed
qed


section \<open>Extracting\<close>

lemma extract_eq:
  assumes "pb_inv b" "i < length (pb_slots b)" "sl_used (pb_slots b ! i)"
  defines "s \<equiv> pb_slots b ! i"
  shows "WebRtcNetEQ_PacketBufferExtract b p (int i) = Some (0,
      p\<lparr>rtp_payload := slice (2 * sl_payloadLocation s) (2 * pb_words (sl_payloadLengthBytes s)) (pb_memory b),
        rtp_payloadLen := sl_payloadLengthBytes s, rtp_payloadType := sl_payloadType s,
        rtp_seqNumber := sl_seqNumber s, rtp_timeStamp := sl_timeStamp s,
        rtp_rcuPlCntr := sl_rcuPlCntr s, rtp_starts_byte1 := 0\<rparr>,
      b\<lparr>pb_slots := (pb_slots b)[i := s\<lparr>sl_payloadType := -1, sl_payloadLengthBytes := 0,
           sl_seqNumber := 0, sl_timeStamp := 0, sl_waitingTime := 0, sl_payloadLocation := 0\<rparr>],
        pb_numPacketsInBuffer := pb_numPacketsInBuffer b - 1\<rparr>,
      Some (sl_waitingTime s))"
proof -
  have inv: "pb_initialized b" "int i < int (pb_maxInsertPositions b)" 
    "length (pb_memory b) = 2 * nat (pb_memorySizeW16 b)"
    using assms(1,2) by (simp_all add: pb_inv_def)
  have "sl_ok (nat (pb_memorySizeW16 b)) s" using assms(1,2) by (simp add: pb_inv_def s_def)
  then have ok: "0 < sl_payloadLengthBytes s" "sl_end s \<le> nat (pb_memorySizeW16 b)"
    using assms(3) by (simp_all add: sl_ok_def s_def)
  have "\<not> length (pb_memory b) < 2 * sl_payloadLocation s + 2 * pb_words (sl_payloadLengthBytes s)"
    using ok(2) inv(3) by (simp add: sl_end_def)
  then show ?thesis
    using inv(1,2) assms(2) ok(1)
    by (simp add: WebRtcNetEQ_PacketBufferExtract_def Let_def s_def)
qed

lemma extract_inv:
  assumes "pb_inv b" "WebRtcNetEQ_PacketBufferExtract b p i = Some (r, p', b', wt)"
  shows "pb_inv b'"
proof (cases "0 \<le> i \<and> i < int (pb_maxInsertPositions b) \<and> sl_used (pb_slots b ! nat i)")
  case True
  then have i: "nat i < length (pb_slots b)" using assms(1) by (auto simp: pb_inv_def nat_less_iff)
  let ?s = "pb_slots b ! nat i"
  let ?s' = "?s\<lparr>sl_payloadType := -1, sl_payloadLengthBytes := 0, sl_seqNumber := 0,
      sl_timeStamp := 0, sl_waitingTime := 0, sl_payloadLocation := 0\<rparr>"
  have "b' = b\<lparr>pb_slots := (pb_slots b)[nat i := ?s'],
        pb_numPacketsInBuffer := pb_numPacketsInBuffer b - 1\<rparr>"
    using extract_eq [OF assms(1) i, of p] True assms(2) by simp
  moreover have "int (count_if sl_used ((pb_slots b)[nat i := ?s'])) = int (count_if sl_used (pb_slots b)) - 1"
    using count_if_update [OF i, of sl_used ?s'] True by simp
  ultimately show ?thesis
    using assms(1) by (auto simp: pb_inv_def sl_ok_unused dest!: in_set_list_update)
next
  case False
  have "sl_ok (nat (pb_memorySizeW16 b)) s" if "s \<in> set (pb_slots b)" for s
    using assms(1) that by (simp add: pb_inv_def)
  then have pos: "sl_payloadLengthBytes (pb_slots b ! nat i) \<le> 0" if "0 \<le> i" "i < int (pb_maxInsertPositions b)"
    using that False by auto
  have "b' = b"
    using assms False pos
    by (auto simp: WebRtcNetEQ_PacketBufferExtract_def get_def Let_def split: if_splits)
  then show ?thesis using assms(1) by simp
qed

text \<open>The position of the oldest packet, and the queue without it.\<close>

definition pb_head :: "packet_buf \<Rightarrow> nat" where
  "pb_head b = (let n = pb_next_used (pb_slots b) (Suc (pb_insertPosition b)) in
     if n < length (pb_slots b) then n else pb_next_used (pb_slots b) 0)"

lemma live_clear:
  assumes "n < length ss" "sl_used (ss ! n)" "\<not> sl_used s'"
    "n = (let n = pb_next_used ss (Suc ip) in if n < length ss then n else pb_next_used ss 0)"
  shows "live_of ss ip = ss ! n # live_of (ss[n := s']) ip"
proof (cases "pb_next_used ss (Suc ip) < length ss")
  case True
  define k where "k = length (takeWhile (\<lambda>s. \<not> sl_used s) (drop (Suc ip) ss))"
  have n: "n = Suc ip + k" using assms(4) True by (simp add: pb_next_used_def k_def)
  have nil: "filter sl_used (take k (drop (Suc ip) ss)) = []"
    unfolding k_def takeWhile_eq_take [symmetric] by (rule filter_takeWhile_unused)
  have "k < length (drop (Suc ip) ss)" using assms(1) n by simp
  then have "drop (Suc ip) ss = take k (drop (Suc ip) ss) @ ss ! n # drop (Suc n) ss"
    by (subst id_take_nth_drop) (simp_all add: n add.commute)
  from arg_cong [OF this, of "filter sl_used"]
  have "filter sl_used (drop (Suc ip) ss) = ss ! n # filter sl_used (drop (Suc n) ss)"
    using nil assms(2) by simp
  moreover have "drop (Suc ip) (ss[n := s']) = take k (drop (Suc ip) ss) @ s' # drop (Suc n) ss"
    using assms(1) unfolding n by (simp add: drop_update_swap upd_conv_take_nth_drop add.commute drop_take)
  moreover have "take (Suc ip) (ss[n := s']) = take (Suc ip) ss" by (simp add: n)
  ultimately show ?thesis using nil assms(2,3) by (simp add: live_of_def)
next
  case False
  then have nil: "filter sl_used (drop (Suc ip) ss) = []" by (intro next_used_none) simp
  define k where "k = length (takeWhile (\<lambda>s. \<not> sl_used s) ss)"
  have n: "n = k" using assms(4) False by (simp add: pb_next_used_def k_def)
  have "n \<le> ip"
  proof (rule ccontr)
    assume "\<not> n \<le> ip"
    then have "ss ! n \<in> set (drop (Suc ip) ss)"
      using assms(1) by (auto simp: in_set_conv_nth intro!: exI [of _ "n - Suc ip"])
    then show False using nil assms(2) by (auto simp: filter_empty_conv)
  qed
  have nil': "filter sl_used (take n ss) = []"
    unfolding n k_def takeWhile_eq_take [symmetric] by (rule filter_takeWhile_unused)
  have "take (Suc ip) ss = take n ss @ ss ! n # take (ip - n) (drop (Suc n) ss)"
    by (subst id_take_nth_drop [OF assms(1)]) (use assms(1) \<open>n \<le> ip\<close> in \<open>simp add: Suc_diff_le\<close>)
  moreover have "take (Suc ip) (ss[n := s']) = take n ss @ s' # take (ip - n) (drop (Suc n) ss)"
    using assms(1) \<open>n \<le> ip\<close> by (simp add: upd_conv_take_nth_drop Suc_diff_le)
  moreover have "drop (Suc ip) (ss[n := s']) = drop (Suc ip) ss" using \<open>n \<le> ip\<close> by simp
  ultimately show ?thesis using nil nil' assms(2,3) by (simp add: live_of_def)
qed

lemma head_used:
  assumes "pb_inv b" "pb_live b \<noteq> []"
  shows "pb_head b < length (pb_slots b)" "sl_used (pb_slots b ! pb_head b)"
proof -
  have "pb_next_used (pb_slots b) 0 < length (pb_slots b)"
  proof (rule ccontr)
    assume "\<not> ?thesis"
    then have "filter sl_used (drop 0 (pb_slots b)) = []" by (intro next_used_none) simp
    then have "set (pb_live b) = {}" unfolding set_live by (auto simp: filter_empty_conv)
    then show False using assms(2) by simp
  qed
  then show "pb_head b < length (pb_slots b)" "sl_used (pb_slots b ! pb_head b)"
    using nth_next_used(2) by (auto simp: pb_head_def Let_def)
qed

lemma extract_fifo:
  assumes "pb_fifo b" "pb_abs b = x # q"
  obtains p' b' wt where
    "WebRtcNetEQ_PacketBufferExtract b p (int (pb_head b)) = Some (0, p', b', Some wt)"
    "pb_fifo b'" "pb_abs b' = q" "packet_of p' = x"
proof -
  have inv: "pb_inv b" using assms(1) by (simp add: pb_fifo_def)
  have ne: "pb_live b \<noteq> []" using assms(2) by (auto simp: pb_abs_def)
  note hd = head_used [OF inv ne]
  let ?s = "pb_slots b ! pb_head b"
  let ?s' = "?s\<lparr>sl_payloadType := -1, sl_payloadLengthBytes := 0, sl_seqNumber := 0,
      sl_timeStamp := 0, sl_waitingTime := 0, sl_payloadLocation := 0\<rparr>"
  let ?b' = "b\<lparr>pb_slots := (pb_slots b)[pb_head b := ?s'],
        pb_numPacketsInBuffer := pb_numPacketsInBuffer b - 1\<rparr>"
  let ?p' = "p\<lparr>rtp_payload := slice (2 * sl_payloadLocation ?s) (2 * pb_words (sl_payloadLengthBytes ?s)) (pb_memory b),
        rtp_payloadLen := sl_payloadLengthBytes ?s, rtp_payloadType := sl_payloadType ?s,
        rtp_seqNumber := sl_seqNumber ?s, rtp_timeStamp := sl_timeStamp ?s,
        rtp_rcuPlCntr := sl_rcuPlCntr ?s, rtp_starts_byte1 := 0\<rparr>"
  have ex: "WebRtcNetEQ_PacketBufferExtract b p (int (pb_head b)) = Some (0, ?p', ?b', Some (sl_waitingTime ?s))"
    by (rule extract_eq [OF inv hd])
  have live: "pb_live b = ?s # pb_live ?b'"
    using live_clear [OF hd, of ?s' "pb_insertPosition b"] by (simp add: pb_head_def)
  have inv': "pb_inv ?b'" by (rule extract_inv [OF inv ex])
  have abs: "pb_abs ?b' = q" "slot_packet (pb_memory b) ?s = x"
    using assms(2) live by (simp_all add: pb_abs_def)
  have ok: "sl_ok (nat (pb_memorySizeW16 b)) ?s" using inv hd(1) by (simp add: pb_inv_def)
  then have pt: "s16 (sl_payloadType ?s) = sl_payloadType ?s" using hd(2) by (simp add: sl_ok_def)
  have len: "nat (sl_payloadLengthBytes ?s) \<le> 2 * pb_words (sl_payloadLengthBytes ?s)"
    using ok hd(2) pb_words_bounds by (simp add: sl_ok_def)
  obtain hi lo where s: "pb_split b hi lo" "hi \<noteq> [] \<longrightarrow> lo \<noteq> [] \<and> sl_payloadLocation (hd lo) = 0"
    using assms(1) by (auto simp: pb_fifo_def)
  have "pb_fifo ?b'"
  proof (cases hi)
    case Nil
    then have "pb_split ?b' [] (tl lo)"
      using s(1) live by (cases lo) (auto simp: pb_split_def regions_def)
    with inv' show ?thesis by (auto simp: pb_fifo_def)
  next
    case (Cons h hi')
    then have "pb_split ?b' hi' lo"
      using s(1) live by (auto simp: pb_split_def regions_def)
    with inv' s(2) Cons show ?thesis by (auto simp: pb_fifo_def)
  qed
  moreover have "packet_of ?p' = x"
    using abs(2) len pt by (simp add: packet_of_def slot_packet_def rtp_data_def slot_bytes_def slice_def min_def)
  ultimately show thesis using ex abs(1) by (intro that [of ?p' ?b' "sl_waitingTime ?s"]) auto
qed

section \<open>The oldest packet\<close>

definition pb_erased :: "bool \<Rightarrow> int \<Rightarrow> pslot \<Rightarrow> bool" where
  "pb_erased erase ts s \<longleftrightarrow> erase \<and> pb_old (s32 (sl_timeStamp s - ts)) s"

definition pb_erase :: "bool \<Rightarrow> int \<Rightarrow> pslot \<Rightarrow> pslot" where
  "pb_erase erase ts s =
     (if pb_erased erase ts s then s\<lparr>sl_payloadType := -1, sl_payloadLengthBytes := 0\<rparr> else s)"

definition pb_cand :: "int \<Rightarrow> nat \<Rightarrow> pslot \<Rightarrow> pb_candidate" where
  "pb_cand ts i s = \<lparr>cd_position = int i, cd_diff = s32 (sl_timeStamp s - ts),
     cd_payload_type = sl_payloadType s, cd_rcu = sl_rcuPlCntr s\<rparr>"

abbreviation pb_beats :: "int \<Rightarrow> pslot \<Rightarrow> pb_candidate \<Rightarrow> bool" where
  "pb_beats ts s c \<equiv> pb_better (s32 (sl_timeStamp s - ts)) s c"

lemma beats_self: "\<not> pb_beats ts s (pb_cand ts i s)"
  by (simp add: pb_better_def pb_cand_def)

lemma beats_asym: "pb_beats ts t (pb_cand ts i s) \<Longrightarrow> \<not> pb_beats ts s (pb_cand ts k t)"
  by (simp only: pb_better_def pb_cand_def pb_candidate.simps) linarith

lemma beats_trans: "pb_beats ts t (pb_cand ts i s) \<Longrightarrow> pb_beats ts s c \<Longrightarrow> pb_beats ts t c"
  by (simp only: pb_better_def pb_cand_def pb_candidate.simps) (elim conjE disjE; simp)

lemma find_lowest_correct:
  assumes "pb_find_lowest erase ts ss i c = (ss', c', n)"
  shows "ss' = map (pb_erase erase ts) ss" "n = count_if (pb_erased erase ts) ss"
    "(c' = c \<or> (\<exists>k < length ss. c' = pb_cand ts (i + k) (ss' ! k) \<and> pb_beats ts (ss' ! k) c))
      \<and> (\<forall>s \<in> set ss'. \<not> pb_beats ts s c')"
  using assms
proof (induction ss arbitrary: i c ss' c' n)
  case (Cons s ss)
  {
    case 1
    then show ?case using Cons.IH(1)
      by (auto simp: Let_def pb_erase_def pb_erased_def split: prod.splits if_splits)
  next
    case 2
    then show ?case using Cons.IH(2)
      by (auto simp: Let_def count_if_def pb_erased_def split: prod.splits if_splits)
  next
    case 3
    let ?c1 = "if pb_erased erase ts s \<or> \<not> pb_beats ts s c then c else pb_cand ts i s"
    obtain ss1 n1 where rest: "pb_find_lowest erase ts ss (Suc i) ?c1 = (ss1, c', n1)"
      and ss': "ss' = pb_erase erase ts s # ss1"
      using 3 by (auto simp: Let_def pb_erase_def pb_erased_def pb_cand_def split: prod.splits if_splits)
    from Cons.IH(3) [OF rest]
    have best: "\<forall>s \<in> set ss1. \<not> pb_beats ts s c'"
      and src: "c' = ?c1 \<or> (\<exists>k < length ss. c' = pb_cand ts (Suc i + k) (ss1 ! k) \<and> pb_beats ts (ss1 ! k) ?c1)"
      by auto
    have erased: "pb_erased erase ts s \<Longrightarrow> \<not> pb_beats ts (pb_erase erase ts s) c'"
      by (simp add: pb_erase_def pb_better_def)
    have same: "\<not> pb_erased erase ts s \<Longrightarrow> pb_erase erase ts s = s" by (simp add: pb_erase_def)
    show ?case
    proof (cases "pb_erased erase ts s \<or> \<not> pb_beats ts s c")
      case True
      then have c1: "?c1 = c" by simp
      have "\<not> pb_beats ts (pb_erase erase ts s) c'"
      proof (cases "pb_erased erase ts s")
        case False
        then have "\<not> pb_beats ts s c" using True by simp
        with src c1 show ?thesis unfolding same [OF False]
          by (auto simp: pb_better_def pb_cand_def)
      qed (rule erased)
      moreover have "c' = c \<or> (\<exists>k < length (s # ss). c' = pb_cand ts (i + k) (ss' ! k) \<and> pb_beats ts (ss' ! k) c)"
        using src unfolding c1
      proof (elim disjE exE conjE)
        fix k assume "k < length ss" "c' = pb_cand ts (Suc i + k) (ss1 ! k)" "pb_beats ts (ss1 ! k) c"
        then show ?thesis using ss' by (intro disjI2 exI [of _ "Suc k"]) simp
      qed simp
      ultimately show ?thesis using best by (simp add: ss')
    next
      case False
      then have c1: "?c1 = pb_cand ts i s" and ns: "\<not> pb_erased erase ts s" "pb_beats ts s c" by simp_all
      have "\<not> pb_beats ts s c'"
        using src unfolding c1 by (auto simp: beats_self dest: beats_asym)
      moreover have "\<exists>k < length (s # ss). c' = pb_cand ts (i + k) (ss' ! k) \<and> pb_beats ts (ss' ! k) c"
        using src unfolding c1
      proof (elim disjE exE conjE)
        assume "c' = pb_cand ts i s"
        then show ?thesis using ns same ss' by (intro exI [of _ 0]) simp
      next
        fix k assume "k < length ss" "c' = pb_cand ts (Suc i + k) (ss1 ! k)" "pb_beats ts (ss1 ! k) (pb_cand ts i s)"
        then show ?thesis using ns(2) ss'
          by (intro exI [of _ "Suc k"]) (auto dest: beats_trans)
      qed
      ultimately show ?thesis using best ns(1) same by (simp add: ss')
    qed
  }
qed (simp_all add: count_if_def)

lemma erase_used: "sl_used (pb_erase e ts s) \<Longrightarrow> pb_erase e ts s = s"
  by (simp add: pb_erase_def split: if_splits)

lemma count_erase:
  "int (count_if sl_used (map (pb_erase e ts) ss)) = int (count_if sl_used ss) - int (count_if (pb_erased e ts) ss)"
  by (induction ss) (auto simp: count_if_def pb_erase_def pb_erased_def pb_old_def)

lemma find_lowest_inv:
  assumes "pb_inv b" "WebRtcNetEQ_PacketBufferFindLowestTimestamp b ts e = (r, b', out)"
  shows "pb_inv b'"
proof -
  obtain ss c n where f: "pb_find_lowest e ts (pb_slots b) 0 pb_no_candidate = (ss, c, n)"
    by (cases "pb_find_lowest e ts (pb_slots b) 0 pb_no_candidate") auto
  note r = find_lowest_correct(1,2) [OF f]
  have "sl_ok M (pb_erase e ts s)" if "sl_ok M s" for M s
    using that by (simp add: sl_ok_def pb_erase_def)
  then show ?thesis
    using assms f r count_erase [of e ts "pb_slots b"]
    by (auto simp: WebRtcNetEQ_PacketBufferFindLowestTimestamp_def pb_inv_def split: if_splits)
qed

section \<open>All operations keep the buffer well formed\<close>

lemma sync_scan_slot:
  "pb_sync_scan mem p ss i = Some k \<Longrightarrow> i \<le> k \<and> (k < i + length ss \<longrightarrow> sl_payloadLengthBytes (ss ! (k - i)) > 0)"
proof (induction ss arbitrary: i)
  case (Cons s ss)
  have "i \<le> k \<and> (k < i + length (s # ss) \<longrightarrow> sl_payloadLengthBytes ((s # ss) ! (k - i)) > 0)"
    if "pb_sync_scan mem p ss (Suc i) = Some k"
  proof -
    have "k - i = Suc (k - Suc i)" using Cons.IH [OF that] by linarith
    then show ?thesis using Cons.IH [OF that] by auto
  qed
  with Cons.prems show ?case by (auto split: if_splits)
qed simp

lemma clear_slot_inv:
  assumes "pb_inv b" "i < length (pb_slots b)" "sl_used (pb_slots b ! i)"
  shows "pb_inv (pb_clear_slot i b)"
  using assms count_if_update [OF assms(2), of sl_used "(pb_slots b ! i)\<lparr>sl_payloadType := -1, sl_payloadLengthBytes := 0\<rparr>"]
  by (auto simp: pb_clear_slot_def pb_inv_def sl_ok_unused dest!: in_set_list_update)

lemma insert_sync:
  assumes "pb_inv b" "pb_fits b p"
  shows "WebRtcNetEQ_PacketBufferInsert b p True =
    (case pb_sync_scan (pb_memory b) p (pb_slots b) 0 of
       None \<Rightarrow> Some (0, 0, b)
     | Some i \<Rightarrow> WebRtcNetEQ_PacketBufferInsert
                   (if i < length (pb_slots b) then pb_clear_slot i b else b) p False)"
  using assms by (auto simp: WebRtcNetEQ_PacketBufferInsert_def pb_inv_def pb_fits_def shl_eq_mult
      pb_clear_slot_def Let_def split: option.split)

lemma insert_inv:
  assumes "pb_inv b" "pb_fits b p"
  obtains fl b' where "WebRtcNetEQ_PacketBufferInsert b p av_sync = Some (0, fl, b')" "pb_inv b'"
    "fl \<in> {0, 1}"
proof -
  have plain: "\<exists>fl b'. WebRtcNetEQ_PacketBufferInsert b p False = Some (0, fl, b') \<and> pb_inv b' \<and> fl \<in> {0, 1}"
    if "pb_inv b" "pb_fits b p" for b
  proof -
    have fits: "pb_memorySizeW16 b1 = pb_memorySizeW16 b \<Longrightarrow> pb_fits b1 p" for b1
      using that(2) by (simp add: pb_fits_def)
    show ?thesis
      using that by (cases rule: insert_cases) (use stored_inv fits in auto)
  qed
  show thesis
  proof (cases av_sync)
    case False
    then show thesis using plain [OF assms] that by auto
  next
    case True
    show thesis
    proof (cases "pb_sync_scan (pb_memory b) p (pb_slots b) 0")
      case None
      then show thesis using True assms that by (simp add: insert_sync)
    next
      case (Some i)
      let ?b = "if i < length (pb_slots b) then pb_clear_slot i b else b"
      have "pb_inv ?b"
        using sync_scan_slot [OF Some] clear_slot_inv [OF assms(1)] assms(1) by auto
      moreover have "pb_fits ?b p" using assms(2) by (simp add: pb_fits_def pb_clear_slot_def)
      ultimately obtain fl b' where "WebRtcNetEQ_PacketBufferInsert ?b p False = Some (0, fl, b')" "pb_inv b'"
        "fl \<in> {0, 1}"
        using plain by blast
      then show thesis using True Some that assms by (simp add: insert_sync)
    qed
  qed
qed

lemma init_inv:
  assumes "WebRtcNetEQ_PacketBufferInit pw b n has_mem sz = Some (0, b')"
  shows "pb_fifo b' \<and> pb_abs b' = []"
proof -
  have live: "live_of (replicate k s) i = []" if "\<not> sl_used s" for k i s
    using that set_live [of "replicate k s" i] by (auto simp flip: set_empty simp: set_replicate_conv_if)
  have b': "b' = \<lparr>pb_packSizeSamples = 0, pb_initialized = True,
               pb_memory = replicate (2 * nat (sz - n * (8 + int pw))) 0,
               pb_memorySizeW16 = sz - n * (8 + int pw), pb_currentMemoryPos = 0,
               pb_numPacketsInBuffer = 0, pb_insertPosition = 0,
               pb_maxInsertPositions = nat n,
               pb_slots = replicate (nat n) (pb_zero_slot\<lparr>sl_payloadType := -1\<rparr>),
               pb_discardedPackets = 0\<rparr>" and n: "2 \<le> n" "n * (8 + int pw) \<le> sz"
    using assms by (auto simp: WebRtcNetEQ_PacketBufferInit_def pb_errors Let_def split: if_splits)
  have "pb_inv b'" using n by (auto simp: b' pb_inv_def count_if_replicate pb_zero_slot_def sl_ok_unused nat_le_iff)
  moreover have "pb_live b' = []" by (simp add: b' live pb_zero_slot_def)
  ultimately show ?thesis by (auto simp: pb_fifo_def pb_split_def pb_abs_def)
qed

section \<open>The packet buffer as a first-in first-out store\<close>

definition pb_put :: "packet_buf \<Rightarrow> rtp_packet \<Rightarrow> packet_buf option" where
  "pb_put b p = (if \<not> pb_fits b p then None
     else case WebRtcNetEQ_PacketBufferInsert b p False of
       Some (r, fl, b') \<Rightarrow> if r = 0 \<and> fl = 0 then Some b' else None | None \<Rightarrow> None)"

definition pb_take :: "packet_buf \<Rightarrow> (packet \<times> packet_buf) option" where
  "pb_take b = (case WebRtcNetEQ_PacketBufferExtract b rtp_blank (int (pb_head b)) of
       Some (r, p, b', wt) \<Rightarrow> if r = 0 then Some (packet_of p, b') else None | None \<Rightarrow> None)"

lemma extract_empty:
  assumes "pb_inv b" "pb_abs b = []"
  shows "pb_take b = None"
proof -
  have live: "pb_live b = []" using assms(2) by (simp add: pb_abs_def)
  have "\<not> sl_used (pb_slots b ! i)" if "i < length (pb_slots b)" for i
    using that live set_live [of "pb_slots b" "pb_insertPosition b"] by auto
  then show ?thesis
    using assms(1) by (auto simp: pb_take_def WebRtcNetEQ_PacketBufferExtract_def pb_inv_def get_def pb_errors
      nat_less_iff Let_def split: option.split)
qed

interpretation pbq: fifo_store pb_fifo pb_abs packet_of pb_put pb_take
proof unfold_locales
  fix b p b' assume "pb_fifo b" "pb_put b p = Some b'"
  then have b: "pb_fits b p" "WebRtcNetEQ_PacketBufferInsert b p False = Some (0, 0, b')"
    by (auto simp: pb_put_def split: if_splits option.splits)
  show "pb_fifo b' \<and> pb_abs b' = pb_abs b @ [packet_of p]"
    using fifo_ring [OF \<open>pb_fifo b\<close>] b(1)
    by (cases rule: insert_ring) (use b \<open>pb_fifo b\<close> in auto)
next
  fix b x b' assume b: "pb_fifo b" "pb_take b = Some (x, b')"
  then have inv: "pb_inv b" by (simp add: pb_fifo_def)
  with b extract_empty [of b] obtain y q where abs: "pb_abs b = y # q" by (cases "pb_abs b") auto
  obtain p' b1 wt where
    "WebRtcNetEQ_PacketBufferExtract b rtp_blank (int (pb_head b)) = Some (0, p', b1, Some wt)"
    "pb_fifo b1" "pb_abs b1 = q" "packet_of p' = y"
    by (rule extract_fifo [OF b(1) abs, of rtp_blank])
  with b(2) abs show "pb_fifo b' \<and> pb_abs b = x # pb_abs b'" by (simp add: pb_take_def)
next
  fix b assume b: "pb_fifo b" "pb_abs b \<noteq> []"
  then obtain y q where abs: "pb_abs b = y # q" by (cases "pb_abs b") auto
  obtain p' b1 wt where
    "WebRtcNetEQ_PacketBufferExtract b rtp_blank (int (pb_head b)) = Some (0, p', b1, Some wt)"
    by (rule extract_fifo [OF b(1) abs, of rtp_blank])
  then show "pb_take b \<noteq> None" by (simp add: pb_take_def)
qed

lemma insert_then_slot:
  assumes "pb_inv b" "pb_fits b p" "WebRtcNetEQ_PacketBufferInsert b p False = Some (r, fl, b')"
  shows "pb_insertPosition b' < length (pb_slots b')"
    "sl_used (pb_slots b' ! pb_insertPosition b')"
    "slot_packet (pb_memory b') (pb_slots b' ! pb_insertPosition b') = packet_of p"
    "sl_payloadLengthBytes (pb_slots b' ! pb_insertPosition b') = rtp_payloadLen p"
proof -
  have fits: "pb_memorySizeW16 b1 = pb_memorySizeW16 b \<Longrightarrow> pb_fits b1 p" for b1
    using assms(2) by (simp add: pb_fits_def)
  obtain b1 where b1: "pb_place b1 (pb_words (rtp_payloadLen p))" "pb_fits b1 p" "pb_store p b1 = Some b'"
    using assms(1,2) by (cases rule: insert_cases) (use fits assms(3) in auto)
  note st = stored_live [OF b1]
  let ?s = "new_slot p (pb_currentMemoryPos b1)"
  have ip: "pb_insertPosition b1 < length (pb_slots b1)" by (rule place_less [OF b1(1)])
  then have s: "pb_slots b' ! pb_insertPosition b' = ?s" by (simp add: st(4,5))
  show "pb_insertPosition b' < length (pb_slots b')" using ip by (simp add: st(4,5))
  show "sl_used (pb_slots b' ! pb_insertPosition b')" 
    "sl_payloadLengthBytes (pb_slots b' ! pb_insertPosition b') = rtp_payloadLen p"
    using b1(2) unfolding s by (simp_all add: new_slot_def pb_fits_def)
  have len: "length (rtp_data p) = nat (rtp_payloadLen p)" by (rule rtp_data_fits [OF b1(2)])
  have "2 * pb_currentMemoryPos b1 + length (rtp_data p) \<le> length (pb_memory b1)"
    using b1(1,2) pb_words_bounds(1) [of "rtp_payloadLen p"] by (auto simp: len pb_place_def pb_inv_def pb_fits_def)
  from slice_blit_same [OF this] have "slot_bytes (pb_memory b') ?s = rtp_data p"
    unfolding slot_bytes_def st(3) by (simp add: new_slot_def len)
  then show "slot_packet (pb_memory b') (pb_slots b' ! pb_insertPosition b') = packet_of p"
    unfolding s by (simp add: slot_packet_def packet_of_def) (simp add: new_slot_def)
qed

lemma extract_slot:
  assumes "pb_inv b" "i < length (pb_slots b)" "sl_used (pb_slots b ! i)"
    "WebRtcNetEQ_PacketBufferExtract b q (int i) = Some (r, p', b', wt)"
  shows "r = 0" "packet_of p' = slot_packet (pb_memory b) (pb_slots b ! i)"
    "rtp_payloadLen p' = sl_payloadLengthBytes (pb_slots b ! i)" "pb_memory b' = pb_memory b"
    "\<forall>j < length (pb_slots b). j \<noteq> i \<longrightarrow> pb_slots b' ! j = pb_slots b ! j"
    "pb_numPacketsInBuffer b' = pb_numPacketsInBuffer b - 1" "\<not> sl_used (pb_slots b' ! i)"
proof -
  let ?s = "pb_slots b ! i"
  have "sl_ok (nat (pb_memorySizeW16 b)) ?s" using assms(1,2) by (simp add: pb_inv_def)
  then have ok: "s16 (sl_payloadType ?s) = sl_payloadType ?s"
    "nat (sl_payloadLengthBytes ?s) \<le> 2 * pb_words (sl_payloadLengthBytes ?s)"
    using assms(3) pb_words_bounds by (simp_all add: sl_ok_def)
  note e = assms(4) [unfolded extract_eq [OF assms(1-3)], simplified]
  show "r = 0" "packet_of p' = slot_packet (pb_memory b) ?s"
    "rtp_payloadLen p' = sl_payloadLengthBytes ?s" "pb_memory b' = pb_memory b"
    "\<forall>j < length (pb_slots b). j \<noteq> i \<longrightarrow> pb_slots b' ! j = pb_slots b ! j"
    "pb_numPacketsInBuffer b' = pb_numPacketsInBuffer b - 1" "\<not> sl_used (pb_slots b' ! i)"
    using e ok assms(2)
    by (auto simp: packet_of_def slot_packet_def rtp_data_def slot_bytes_def slice_def min_def)
qed

lemma find_lowest_result:
  assumes "pb_inv b" "0 < pb_numPacketsInBuffer b"
    "\<forall>s \<in> set (pb_slots b). sl_rcuPlCntr s < 32767"
    "WebRtcNetEQ_PacketBufferFindLowestTimestamp b ts erase = (r, b', out)"
  obtains t pos pt where "r = 0" "out = Some (t, pos, pt)"
    "pb_slots b' = map (pb_erase erase ts) (pb_slots b)"
    "pb_discardedPackets b' = u16 (pb_discardedPackets b + int (count_if (pb_erased erase ts) (pb_slots b)))"
    "pos = -1 \<longrightarrow> pb_numPacketsInBuffer b' = 0"
    "pos \<noteq> -1 \<longrightarrow> 0 \<le> pos \<and> nat pos < length (pb_slots b') \<and> sl_used (pb_slots b' ! nat pos)
       \<and> t = sl_timeStamp (pb_slots b' ! nat pos) \<and> pt = sl_payloadType (pb_slots b' ! nat pos)
       \<and> (\<forall>s \<in> set (pb_slots b'). sl_used s \<longrightarrow> \<not> pb_beats ts s (pb_cand ts (nat pos) (pb_slots b' ! nat pos)))"
proof -
  obtain ss c n where f: "pb_find_lowest erase ts (pb_slots b) 0 pb_no_candidate = (ss, c, n)"
    by (cases "pb_find_lowest erase ts (pb_slots b) 0 pb_no_candidate") auto
  have ini: "pb_initialized b" using assms(1) by (simp add: pb_inv_def)
  have b': "r = 0" "pb_slots b' = ss"
    "pb_discardedPackets b' = u16 (pb_discardedPackets b + int n)"
    "out = Some (if cd_position c \<ge> 0 then sl_timeStamp (ss ! nat (cd_position c)) else 0,
                 cd_position c, cd_payload_type c)"
    using assms(2,4) f ini
    by (auto simp: WebRtcNetEQ_PacketBufferFindLowestTimestamp_def split: if_splits)
  note r = find_lowest_correct [OF f]
  have inv': "pb_inv b'" by (rule find_lowest_inv [OF assms(1,4)])
  have len: "length ss = length (pb_slots b)" by (simp add: r(1))
  have rcu: "sl_rcuPlCntr s < 32767" if "s \<in> set ss" for s
    using that assms(3) by (auto simp: r(1) pb_erase_def)
  have pos: "sl_payloadLengthBytes s > 0" if "s \<in> set ss" "sl_used s" for s
    using inv' that by (auto simp: pb_inv_def b'(2) sl_ok_def)
  show thesis
  proof (cases "c = pb_no_candidate")
    case True
    have "\<not> sl_used s" if "s \<in> set ss" for s
    proof
      assume "sl_used s"
      then have "\<not> s32 (sl_timeStamp s - ts) < 2147483647 \<and> s32 (sl_timeStamp s - ts) \<noteq> 2147483647"
        using r(3) that rcu [OF that] pos [OF that] unfolding True
        by (auto simp: pb_better_def pb_no_candidate_def)
      then show False using s32_range(2) [of "sl_timeStamp s - ts"] by linarith
    qed
    then have "pb_numPacketsInBuffer b' = 0"
      using inv' by (simp add: pb_inv_def b'(2) count_if_none)
    then show thesis using b' r(1,2) True
      by (intro that [of 0 "-1" "-1"]) (simp_all add: pb_no_candidate_def)
  next
    case False
    then obtain k where k: "k < length ss" "c = pb_cand ts k (ss ! k)" "pb_beats ts (ss ! k) pb_no_candidate"
      using r(3) len by auto
    have "cd_position c = int k" "cd_payload_type c = sl_payloadType (ss ! k)" by (simp_all add: k(2) pb_cand_def)
    then show thesis using b' r k
      by (intro that [of "sl_timeStamp (ss ! k)" "int k" "sl_payloadType (ss ! k)"]) (simp_all add: pb_better_def)
  qed
qed

section \<open>Properties\<close>

text \<open>Less recent or equally recent, in the wrapping order around the current timestamp.\<close>

definition pb_not_newer :: "int \<Rightarrow> pslot \<Rightarrow> pslot \<Rightarrow> bool" where
  "pb_not_newer ts s s' \<longleftrightarrow> s32 (sl_timeStamp s - ts) < s32 (sl_timeStamp s' - ts)
     \<or> s32 (sl_timeStamp s - ts) = s32 (sl_timeStamp s' - ts) \<and> sl_rcuPlCntr s \<le> sl_rcuPlCntr s'"

lemma unbeaten_not_newer:
  "\<not> pb_beats ts s (pb_cand ts k t) \<Longrightarrow> 0 < sl_payloadLengthBytes s \<Longrightarrow> pb_not_newer ts t s"
  unfolding pb_better_def pb_cand_def pb_not_newer_def pb_candidate.simps
  by (rule linorder_cases [of "s32 (sl_timeStamp t - ts)" "s32 (sl_timeStamp s - ts)"]; simp)

text \<open>A small buffer, for concrete runs: six slots and 78 words of payload memory.\<close>

definition pb_blank :: packet_buf where
  "pb_blank = \<lparr>pb_packSizeSamples = 0, pb_initialized = False, pb_memory = [], pb_memorySizeW16 = 0,
      pb_currentMemoryPos = 0, pb_numPacketsInBuffer = 0, pb_insertPosition = 0,
      pb_maxInsertPositions = 0, pb_slots = [], pb_discardedPackets = 0\<rparr>"

definition pb_example :: packet_buf where
  "pb_example = snd (the (WebRtcNetEQ_PacketBufferInit 4 pb_blank 6 True 150))"

definition pb_cx_packet :: "int \<Rightarrow> nat \<Rightarrow> byte \<Rightarrow> rtp_packet" where
  "pb_cx_packet seq len v = rtp_blank\<lparr>rtp_seqNumber := seq, rtp_payload := replicate len v,
     rtp_payloadLen := int len\<rparr>"

definition pb_cx_insert :: "packet_buf option \<Rightarrow> rtp_packet \<Rightarrow> packet_buf option" where
  "pb_cx_insert ob p = do { b \<leftarrow> ob; (r, fl, b') \<leftarrow> WebRtcNetEQ_PacketBufferInsert b p False;
     if r = 0 \<and> fl = 0 then Some b' else None }"

definition pb_cx_extract :: "packet_buf option \<Rightarrow> int \<Rightarrow> (rtp_packet \<times> packet_buf) option" where
  "pb_cx_extract ob i = do { b \<leftarrow> ob; (r, p, b', wt) \<leftarrow> WebRtcNetEQ_PacketBufferExtract b rtp_blank i;
     if r = 0 then Some (p, b') else None }"

definition pb_cx_start :: "packet_buf option" where
  "pb_cx_start = map_option snd (WebRtcNetEQ_PacketBufferInit 4
pb_blank 6 True 150)"

definition pb_cx_end :: "packet_buf option" where
  "pb_cx_end =
     (let b1 = pb_cx_insert (pb_cx_insert pb_cx_start (pb_cx_packet 0 130 1)) (pb_cx_packet 1 22 2);
          b2 = map_option snd (pb_cx_extract b1 0);
          b3 = pb_cx_insert (pb_cx_insert b2 (pb_cx_packet 2 100 3)) (pb_cx_packet 3 20 4);
          b4 = map_option snd (pb_cx_extract b3 2)
      in pb_cx_insert (pb_cx_insert b4 (pb_cx_packet 4 40 5)) (pb_cx_packet 5 80 6))"


lemma pb_example_fifo: "pb_fifo pb_example" "pb_abs pb_example = []" "pb_memorySizeW16 pb_example = 78"
proof -
  have "WebRtcNetEQ_PacketBufferInit 4 pb_blank 6 True 150 = Some (0, pb_example)"
    by (simp add: pb_example_def WebRtcNetEQ_PacketBufferInit_def PBUFFER_MIN_MEMORY_SIZE_def Let_def)
  from init_inv [OF this] show "pb_fifo pb_example" "pb_abs pb_example = []" by auto
  show "pb_memorySizeW16 pb_example = 78"
    by (simp add: pb_example_def WebRtcNetEQ_PacketBufferInit_def PBUFFER_MIN_MEMORY_SIZE_def Let_def)
qed

lemma pb_example_inv: "pb_inv pb_example" "pb_ring pb_example"
  using pb_example_fifo(1) fifo_ring by (auto simp: pb_fifo_def)

lemma pb_cx_fits: "pb_fits pb_example (pb_cx_packet 7 9 5)"
  by (simp add: pb_fits_def pb_example_fifo pb_cx_packet_def rtp_blank_def)

text \<open>C1: A packet buffer that is filled without a flush and emptied oldest slot first is a
  queue: whatever the interleaving of insertions and extractions, the packets come out in the
  order they went in, each with its fields and exactly its payload bytes, through every wrap
  of the payload memory and of the slot array.\<close>

theorem packet_buffer_is_fifo:
  assumes "pb_fifo b" "fifo_run pb_put pb_take ops b = Some (outs, b')"
  shows "pb_fifo b' \<and> pb_abs b @ fifo_puts packet_of ops = outs @ pb_abs b'"
  by (rule pbq.run_fifo [OF assms])

lemma packet_buffer_is_fifo_witness:
  "\<exists>outs b'. fifo_run pb_put pb_take [Put (pb_cx_packet 7 60 5), Put (pb_cx_packet 8 60 6), Take,
                Put (pb_cx_packet 9 50 7), Take, Take] pb_example = Some (outs, b')
     \<and> pb_fifo b' \<and> pb_abs pb_example @ fifo_puts packet_of [Put (pb_cx_packet 7 60 5),
          Put (pb_cx_packet 8 60 6), Take, Put (pb_cx_packet 9 50 7), Take, Take] = outs @ pb_abs b'"
proof -
  have "fifo_run pb_put pb_take [Put (pb_cx_packet 7 60 5), Put (pb_cx_packet 8 60 6), Take,
          Put (pb_cx_packet 9 50 7), Take, Take] pb_example \<noteq> None"
    by code_simp
  then show ?thesis using packet_buffer_is_fifo [OF pb_example_fifo(1)] by fast
qed

text \<open>C8: Inserting a packet whose payload fits never reads or writes out of bounds, with or
  without AV-sync, wherever in the memory the buffer stands; it returns 0 and keeps the
  buffer well formed: the packet counter counts the used slots, the insert position is a
  slot, and every payload lies in the payload memory.\<close>

theorem packet_insert_safe:
  assumes "pb_inv b" "pb_fits b p"
  shows "\<exists>fl b'. WebRtcNetEQ_PacketBufferInsert b p av_sync = Some (0, fl, b') \<and> pb_inv b' \<and> fl \<in> {0, 1}"
  using insert_inv [OF assms] by metis

lemma packet_insert_safe_witness:
  "\<exists>fl b'. WebRtcNetEQ_PacketBufferInsert pb_example (pb_cx_packet 7 9 5) True = Some (0, fl, b')
     \<and> pb_inv b' \<and> fl \<in> {0, 1}"
  by (rule packet_insert_safe [OF pb_example_inv(1) pb_cx_fits])

text \<open>While the live payloads lie in ring order, an insertion either flushes the buffer and
  leaves just the new packet, or appends the new packet and leaves every packet already in the
  buffer untouched.\<close>

theorem packet_insert_refines:
  assumes "pb_ring b" "pb_fits b p"
  shows "\<exists>fl b'. WebRtcNetEQ_PacketBufferInsert b p False = Some (0, fl, b')
    \<and> pb_abs b' = (if fl = 0 then pb_abs b else []) @ [packet_of p]"
  using assms by (cases rule: insert_ring) blast

lemma packet_insert_refines_witness:
  "\<exists>fl b'. WebRtcNetEQ_PacketBufferInsert pb_example (pb_cx_packet 7 9 5) False = Some (0, fl, b')
    \<and> pb_abs b' = (if fl = 0 then pb_abs pb_example else []) @ [packet_of (pb_cx_packet 7 9 5)]"
  by (rule packet_insert_refines [OF pb_example_inv(2) pb_cx_fits])

text \<open>Extracting the slot just filled gives back the inserted packet: sequence number,
  timestamp, payload type, RCU counter, length and payload bytes, whatever byte the payload
  started on.\<close>

theorem packet_insert_extract:
  assumes "pb_inv b" "pb_fits b p"
    "WebRtcNetEQ_PacketBufferInsert b p False = Some (r, fl, b')"
    "WebRtcNetEQ_PacketBufferExtract b' q (int (pb_insertPosition b')) = Some (r', p', b'', wt)"
  shows "r' = 0 \<and> packet_of p' = packet_of p \<and> rtp_payloadLen p' = rtp_payloadLen p
    \<and> pb_numPacketsInBuffer b'' = pb_numPacketsInBuffer b' - 1"
proof -
  note slot = insert_then_slot [OF assms(1-3)]
  have "pb_inv b'" using insert_inv [OF assms(1,2), of False] assms(3) by auto
  from extract_slot [OF this slot(1,2) assms(4)] slot(3,4) show ?thesis by simp
qed

lemma packet_insert_extract_witness:
  "\<exists>r fl b' r' p' b'' wt. WebRtcNetEQ_PacketBufferInsert pb_example (pb_cx_packet 7 9 5) False = Some (r, fl, b')
     \<and> WebRtcNetEQ_PacketBufferExtract b' rtp_blank (int (pb_insertPosition b')) = Some (r', p', b'', wt)
     \<and> r' = 0 \<and> packet_of p' = packet_of (pb_cx_packet 7 9 5)
     \<and> rtp_payloadLen p' = rtp_payloadLen (pb_cx_packet 7 9 5)
     \<and> pb_numPacketsInBuffer b'' = pb_numPacketsInBuffer b' - 1"
proof -
  note inv = pb_example_inv(1) pb_cx_fits
  obtain fl b' where b': "WebRtcNetEQ_PacketBufferInsert pb_example (pb_cx_packet 7 9 5) False = Some (0, fl, b')"
    "pb_inv b'" using insert_inv [OF inv] by metis
  note slot = insert_then_slot [OF inv b'(1)]
  obtain r' p' b'' wt where e:
    "WebRtcNetEQ_PacketBufferExtract b' rtp_blank (int (pb_insertPosition b')) = Some (r', p', b'', wt)"
    using extract_eq [OF b'(2) slot(1,2), of rtp_blank] by metis
  from packet_insert_extract [OF inv b'(1) e] b'(1) e show ?thesis by blast
qed

text \<open>C6: The search for the oldest packet finds a used slot whose timestamp is least, in the
  wrapping order around the current timestamp, and whose RCU counter is least among those; it
  reports no packet only when none is left; and it erases exactly the outdated packets when
  asked to, counting them as discarded.\<close>

theorem find_lowest_is_oldest:
  assumes "pb_inv b" "0 < pb_numPacketsInBuffer b"
    "\<forall>s \<in> set (pb_slots b). sl_rcuPlCntr s < 32767"
    "WebRtcNetEQ_PacketBufferFindLowestTimestamp b ts erase = (r, b', out)"
  shows "\<exists>t pos pt. r = 0 \<and> out = Some (t, pos, pt) \<and> pb_inv b'
    \<and> pb_slots b' = map (pb_erase erase ts) (pb_slots b)
    \<and> pb_discardedPackets b' = u16 (pb_discardedPackets b + int (count_if (pb_erased erase ts) (pb_slots b)))
    \<and> (if pos = -1 then pb_numPacketsInBuffer b' = 0
       else 0 \<le> pos \<and> nat pos < length (pb_slots b') \<and> sl_used (pb_slots b' ! nat pos)
         \<and> t = sl_timeStamp (pb_slots b' ! nat pos) \<and> pt = sl_payloadType (pb_slots b' ! nat pos)
         \<and> (\<forall>s \<in> set (pb_slots b'). sl_used s \<longrightarrow> pb_not_newer ts (pb_slots b' ! nat pos) s))"
proof -
  have inv': "pb_inv b'" by (rule find_lowest_inv [OF assms(1,4)])
  show ?thesis
    using assms
  proof (cases rule: find_lowest_result)
    case (1 t pos pt)
    have "pb_not_newer ts (pb_slots b' ! nat pos) s"
      if "s \<in> set (pb_slots b')" "sl_used s" "pos \<noteq> -1" for s
    proof -
      have "\<not> pb_beats ts s (pb_cand ts (nat pos) (pb_slots b' ! nat pos))" using 1(6) that by blast
      moreover have "sl_payloadLengthBytes s > 0" using inv' that by (auto simp: pb_inv_def sl_ok_def)
      ultimately show ?thesis
        by (rule unbeaten_not_newer)
    qed
    then have "if pos = -1 then pb_numPacketsInBuffer b' = 0
       else 0 \<le> pos \<and> nat pos < length (pb_slots b') \<and> sl_used (pb_slots b' ! nat pos)
         \<and> t = sl_timeStamp (pb_slots b' ! nat pos) \<and> pt = sl_payloadType (pb_slots b' ! nat pos)
         \<and> (\<forall>s \<in> set (pb_slots b'). sl_used s \<longrightarrow> pb_not_newer ts (pb_slots b' ! nat pos) s)"
      using 1(5,6) by (cases "pos = -1") simp_all
    with 1(1-4) inv' show ?thesis by blast
  qed
qed

definition pb_example1 :: packet_buf where
  "pb_example1 = snd (snd (the (WebRtcNetEQ_PacketBufferInsert pb_example (pb_cx_packet 7 9 5) False)))"

lemma find_lowest_is_oldest_witness:
  "\<exists>r b' t pos pt. WebRtcNetEQ_PacketBufferFindLowestTimestamp pb_example1 4000 True = (r, b', Some (t, pos, pt))
    \<and> r = 0 \<and> pb_inv b' \<and> pb_slots b' = map (pb_erase True 4000) (pb_slots pb_example1)"
proof -
  obtain fl where "WebRtcNetEQ_PacketBufferInsert pb_example (pb_cx_packet 7 9 5) False = Some (0, fl, pb_example1)"
    "pb_inv pb_example1" using insert_inv [OF pb_example_inv(1) pb_cx_fits] by (metis option.sel pb_example1_def snd_conv)
  moreover have "0 < pb_numPacketsInBuffer pb_example1" by code_simp
  moreover have "\<forall>s \<in> set (pb_slots pb_example1). sl_rcuPlCntr s < 32767" by code_simp
  moreover obtain r b' out where
    "WebRtcNetEQ_PacketBufferFindLowestTimestamp pb_example1 4000 True = (r, b', out)" by (metis prod.collapse)
  ultimately show ?thesis using find_lowest_is_oldest [of pb_example1 4000 True r b' out] by blast
qed

text \<open>When packets are extracted out of order, the check against the next slot alone does
  not protect a payload of the current lap: after the six calls of this run, none of which
  reports a flush or an error, the packet with sequence number 3, inserted with twenty bytes
  of value 4, is extracted with the payload of the packet inserted after it.\<close>

lemma packet_overwritten:
  "map_option (\<lambda>(p, b). (rtp_seqNumber p, rtp_data p)) (pb_cx_extract pb_cx_end 3)
   = Some (3, replicate 20 6)"
  by code_simp

end
