(* ===== verification/Codec_Db.thy ===== *)
theory Codec_Db
  imports Neteq_Prelude
begin

text \<open>
  The codec database of \<open>neteq/codec_db.c\<close>: which decoders are registered, under which RTP
  payload type, with which functions and sample rate.

  Decoders are identified by the values of \<open>enum WebRtcNetEQDecoder\<close>, which the code uses as
  array indices.  The database keeps its entries dense: \<open>position[codec]\<close> is the index of a
  codec's entry, or -1, and removing a codec moves the later entries down.  The arrays with one
  element per entry (\<open>payloadType[]\<close>, \<open>funcDecode[]\<close>, \dots, \<open>codec_fs[]\<close>) are one list with a record
  per entry.  Function and state pointers are addresses, with 0 for the null pointer.

  The build options are those of \<open>neteq.gypi\<close>: 48 kHz wideband and G.726 are off, the other
  codecs and 32 kHz are on.
\<close>

section \<open>Decoders\<close>

abbreviation (input) kDecoderReservedStart :: int where "kDecoderReservedStart \<equiv> 0"
abbreviation (input) kDecoderPCMu :: int where "kDecoderPCMu \<equiv> 1"
abbreviation (input) kDecoderPCMa :: int where "kDecoderPCMa \<equiv> 2"
abbreviation (input) kDecoderPCMu_2ch :: int where "kDecoderPCMu_2ch \<equiv> 3"
abbreviation (input) kDecoderPCMa_2ch :: int where "kDecoderPCMa_2ch \<equiv> 4"
abbreviation (input) kDecoderILBC :: int where "kDecoderILBC \<equiv> 5"
abbreviation (input) kDecoderISAC :: int where "kDecoderISAC \<equiv> 6"
abbreviation (input) kDecoderISACswb :: int where "kDecoderISACswb \<equiv> 7"
abbreviation (input) kDecoderISACfb :: int where "kDecoderISACfb \<equiv> 8"
abbreviation (input) kDecoderPCM16B :: int where "kDecoderPCM16B \<equiv> 9"
abbreviation (input) kDecoderPCM16Bwb :: int where "kDecoderPCM16Bwb \<equiv> 10"
abbreviation (input) kDecoderPCM16Bswb32kHz :: int where "kDecoderPCM16Bswb32kHz \<equiv> 11"
abbreviation (input) kDecoderPCM16Bswb48kHz :: int where "kDecoderPCM16Bswb48kHz \<equiv> 12"
abbreviation (input) kDecoderPCM16B_2ch :: int where "kDecoderPCM16B_2ch \<equiv> 13"
abbreviation (input) kDecoderPCM16Bwb_2ch :: int where "kDecoderPCM16Bwb_2ch \<equiv> 14"
abbreviation (input) kDecoderPCM16Bswb32kHz_2ch :: int where "kDecoderPCM16Bswb32kHz_2ch \<equiv> 15"
abbreviation (input) kDecoderG722 :: int where "kDecoderG722 \<equiv> 16"
abbreviation (input) kDecoderG722_2ch :: int where "kDecoderG722_2ch \<equiv> 17"
abbreviation (input) kDecoderRED :: int where "kDecoderRED \<equiv> 18"
abbreviation (input) kDecoderAVT :: int where "kDecoderAVT \<equiv> 19"
abbreviation (input) kDecoderCNG :: int where "kDecoderCNG \<equiv> 20"
abbreviation (input) kDecoderArbitrary :: int where "kDecoderArbitrary \<equiv> 21"
abbreviation (input) kDecoderG729 :: int where "kDecoderG729 \<equiv> 22"
abbreviation (input) kDecoderG729_1 :: int where "kDecoderG729_1 \<equiv> 23"
abbreviation (input) kDecoderG726_16 :: int where "kDecoderG726_16 \<equiv> 24"
abbreviation (input) kDecoderG726_24 :: int where "kDecoderG726_24 \<equiv> 25"
abbreviation (input) kDecoderG726_32 :: int where "kDecoderG726_32 \<equiv> 26"
abbreviation (input) kDecoderG726_40 :: int where "kDecoderG726_40 \<equiv> 27"
abbreviation (input) kDecoderG722_1_16 :: int where "kDecoderG722_1_16 \<equiv> 28"
abbreviation (input) kDecoderG722_1_24 :: int where "kDecoderG722_1_24 \<equiv> 29"
abbreviation (input) kDecoderG722_1_32 :: int where "kDecoderG722_1_32 \<equiv> 30"
abbreviation (input) kDecoderG722_1C_24 :: int where "kDecoderG722_1C_24 \<equiv> 31"
abbreviation (input) kDecoderG722_1C_32 :: int where "kDecoderG722_1C_32 \<equiv> 32"
abbreviation (input) kDecoderG722_1C_48 :: int where "kDecoderG722_1C_48 \<equiv> 33"
abbreviation (input) kDecoderOpus :: int where "kDecoderOpus \<equiv> 34"
abbreviation (input) kDecoderSPEEX_8 :: int where "kDecoderSPEEX_8 \<equiv> 35"
abbreviation (input) kDecoderSPEEX_16 :: int where "kDecoderSPEEX_16 \<equiv> 36"
abbreviation (input) kDecoderCELT_32 :: int where "kDecoderCELT_32 \<equiv> 37"
abbreviation (input) kDecoderCELT_32_2ch :: int where "kDecoderCELT_32_2ch \<equiv> 38"
abbreviation (input) kDecoderGSMFR :: int where "kDecoderGSMFR \<equiv> 39"
abbreviation (input) kDecoderAMR :: int where "kDecoderAMR \<equiv> 40"
abbreviation (input) kDecoderAMRWB :: int where "kDecoderAMRWB \<equiv> 41"
abbreviation (input) kDecoderReservedEnd :: int where "kDecoderReservedEnd \<equiv> 42"

abbreviation (input) NUM_CODECS :: nat where "NUM_CODECS \<equiv> 47"
abbreviation (input) NUM_TOTAL_CODECS :: nat where "NUM_TOTAL_CODECS \<equiv> 42"
abbreviation (input) NUM_CNG_CODECS :: nat where "NUM_CNG_CODECS \<equiv> 3"

definition CODEC_DB_FULL :: int where "CODEC_DB_FULL = -5001"
definition CODEC_DB_NOT_EXIST1 :: int where "CODEC_DB_NOT_EXIST1 = -5002"
definition CODEC_DB_NOT_EXIST2 :: int where "CODEC_DB_NOT_EXIST2 = -5003"
definition CODEC_DB_NOT_EXIST3 :: int where "CODEC_DB_NOT_EXIST3 = -5004"
definition CODEC_DB_NOT_EXIST4 :: int where "CODEC_DB_NOT_EXIST4 = -5005"
definition CODEC_DB_UNKNOWN_CODEC :: int where "CODEC_DB_UNKNOWN_CODEC = -5006"
definition CODEC_DB_PAYLOAD_TAKEN :: int where "CODEC_DB_PAYLOAD_TAKEN = -5007"
definition CODEC_DB_UNSUPPORTED_CODEC :: int where "CODEC_DB_UNSUPPORTED_CODEC = -5008"
definition CODEC_DB_UNSUPPORTED_FS :: int where "CODEC_DB_UNSUPPORTED_FS = -5009"
definition AMBIGUOUS_ILBC_FRAME_SIZE :: int where "AMBIGUOUS_ILBC_FRAME_SIZE = -4010"

lemmas db_errors = CODEC_DB_FULL_def CODEC_DB_NOT_EXIST1_def CODEC_DB_NOT_EXIST2_def
  CODEC_DB_NOT_EXIST3_def CODEC_DB_NOT_EXIST4_def CODEC_DB_UNKNOWN_CODEC_def
  CODEC_DB_PAYLOAD_TAKEN_def CODEC_DB_UNSUPPORTED_CODEC_def CODEC_DB_UNSUPPORTED_FS_def

section \<open>State\<close>

record codec_funcs =
  funcDecode :: int
  funcDecodeRCU :: int
  funcDecodePLC :: int
  funcDecodeInit :: int
  funcAddLatePkt :: int
  funcGetMDinfo :: int
  funcGetPitch :: int
  funcUpdBWEst :: int
  funcDurationEst :: int
  funcGetErrorCode :: int
  codec_state :: int

record db_entry =
  db_payloadType :: int
  db_funcs :: codec_funcs
  db_codec_fs :: int

record codec_db =
  db_position :: "int list"
  db_nrOfCodecs :: int
  db_entries :: "db_entry list"
  db_CNGpayloadType :: "int list"

record split_info =
  sp_deltaBytes :: int
  sp_deltaTime :: int

abbreviation (input) NO_SPLIT :: int where "NO_SPLIT \<equiv> -1"

definition null_funcs :: codec_funcs where
  "null_funcs = \<lparr>funcDecode = 0, funcDecodeRCU = 0, funcDecodePLC = 0, funcDecodeInit = 0,
     funcAddLatePkt = 0, funcGetMDinfo = 0, funcGetPitch = 0, funcUpdBWEst = 0,
     funcDurationEst = 0, funcGetErrorCode = 0, codec_state = 0\<rparr>"

definition empty_entry :: db_entry where
  "empty_entry = \<lparr>db_payloadType = -1, db_funcs = null_funcs, db_codec_fs = 0\<rparr>"

definition WebRtcNetEQ_DbReset :: codec_db where
  "WebRtcNetEQ_DbReset = \<lparr>db_position = replicate NUM_TOTAL_CODECS (-1), db_nrOfCodecs = 0,
     db_entries = replicate NUM_CODECS empty_entry,
     db_CNGpayloadType = replicate NUM_CNG_CODECS (-1)\<rparr>"

section \<open>Look-ups\<close>

text \<open>An index an \<open>int16_t\<close> holds: a negative one is out of bounds.\<close>

definition geti :: "'a list \<Rightarrow> int \<Rightarrow> 'a option" where
  "geti xs i = (if i < 0 then None else get xs (nat i))"

definition puti :: "'a list \<Rightarrow> int \<Rightarrow> 'a \<Rightarrow> 'a list option" where
  "puti xs i v = (if i < 0 then None else put xs (nat i) v)"

definition WebRtcNetEQ_DbGetPayload :: "codec_db \<Rightarrow> int \<Rightarrow> int option" where
  "WebRtcNetEQ_DbGetPayload inst codecID = do {
     pos \<leftarrow> geti (db_position inst) codecID;
     if pos = -1 then Some CODEC_DB_NOT_EXIST2
     else do { e \<leftarrow> geti (db_entries inst) pos; Some (db_payloadType e) } }"

definition WebRtcNetEQ_DbIsCNGPayload :: "codec_db \<Rightarrow> int \<Rightarrow> bool" where
  "WebRtcNetEQ_DbIsCNGPayload inst payloadType \<longleftrightarrow>
     (\<exists>cng \<in> set (db_CNGpayloadType inst). cng \<noteq> -1 \<and> cng = payloadType)"

text \<open>The loop over the codecs from index \<open>i\<close>: \<open>Some None\<close> when none has the payload type.\<close>

fun db_search :: "db_entry list \<Rightarrow> int \<Rightarrow> int list \<Rightarrow> nat \<Rightarrow> nat option option" where
  "db_search es payloadType [] i = Some None"
| "db_search es payloadType (pos # ps) i =
     (if pos \<noteq> -1
      then case geti es pos of
             None \<Rightarrow> None
           | Some e \<Rightarrow> if db_payloadType e = payloadType then Some (Some i)
                       else db_search es payloadType ps (Suc i)
      else db_search es payloadType ps (Suc i))"

definition WebRtcNetEQ_DbGetCodec :: "codec_db \<Rightarrow> int \<Rightarrow> int option" where
  "WebRtcNetEQ_DbGetCodec inst payloadType = do {
     r \<leftarrow> db_search (db_entries inst) payloadType (db_position inst) 0;
     Some (case r of
         Some i \<Rightarrow> int i
       | None \<Rightarrow> if WebRtcNetEQ_DbIsCNGPayload inst payloadType then kDecoderCNG
                 else CODEC_DB_NOT_EXIST3) }"

text \<open>
  The functions of a codec, or the cleared structure.  The table is read before the codec is
  checked; \<open>funcDurationEst\<close> and \<open>funcGetPitch\<close> are not copied, and in the structure of the
  caller they keep what they had (\<open>old\<close>).
\<close>

definition WebRtcNetEQ_DbGetPtrs :: "codec_db \<Rightarrow> int \<Rightarrow> codec_funcs \<times> int \<Rightarrow> (int \<times> codec_funcs \<times> int) option" where
  "WebRtcNetEQ_DbGetPtrs inst codec old = do {
     pos \<leftarrow> geti (db_position inst) codec;
     let pos = (if codec \<le> kDecoderReservedStart \<or> codec \<ge> kDecoderReservedEnd
                   \<or> codec > int NUM_TOTAL_CODECS then -1 else pos)
     in if pos \<ge> 0 then do {
          e \<leftarrow> geti (db_entries inst) pos;
          Some (0, (db_funcs e)\<lparr>funcDurationEst := funcDurationEst (fst old),
                                funcGetPitch := funcGetPitch (fst old)\<rparr>, db_codec_fs e) }
        else Some (CODEC_DB_NOT_EXIST1, null_funcs, 0) }"

text \<open>The CNG part of the sample rate look-up, from index \<open>i\<close> of \<open>CNGpayloadType\<close>.\<close>

fun db_cng_rate :: "int list \<Rightarrow> int \<Rightarrow> nat \<Rightarrow> int option" where
  "db_cng_rate [] payloadType i = None"
| "db_cng_rate (cng # cngs) payloadType i =
     (if cng \<noteq> -1 \<and> cng = payloadType
      then Some (if i = 1 then 16000 else if i = 2 then 32000 else 8000)
      else db_cng_rate cngs payloadType (Suc i))"

definition WebRtcNetEQ_DbGetSampleRate :: "codec_db \<Rightarrow> int \<Rightarrow> int option" where
  "WebRtcNetEQ_DbGetSampleRate inst payloadType =
     (case db_cng_rate (db_CNGpayloadType inst) payloadType 0 of
        Some fs \<Rightarrow> Some fs
      | None \<Rightarrow> do {
          i \<leftarrow> WebRtcNetEQ_DbGetCodec inst payloadType;
          if i \<ge> 0 then do {
            (r, fs, rate) \<leftarrow> WebRtcNetEQ_DbGetPtrs inst i (null_funcs, 0);
            Some (if r \<noteq> 0 then 0 else rate) }
          else Some 0 })"

text \<open>A stub in the source: there are no multiple description codecs.\<close>

definition WebRtcNetEQ_DbIsMDCodec :: "int \<Rightarrow> bool" where
  "WebRtcNetEQ_DbIsMDCodec codecID = False"

section \<open>Removing a codec\<close>

function db_shift_down :: "db_entry list \<Rightarrow> int \<Rightarrow> int \<Rightarrow> db_entry list option" where
  "db_shift_down es i lst =
     (if i < lst
      then (case geti es (i + 1) of
              None \<Rightarrow> None
            | Some e \<Rightarrow> (case puti es i e of
                None \<Rightarrow> None | Some es' \<Rightarrow> db_shift_down es' (i + 1) lst))
      else puti es i empty_entry)"
  by pat_completeness auto
termination
  by (relation "measure (\<lambda>(es, i, lst). nat (lst - i))") auto

declare db_shift_down.simps [simp del]

definition WebRtcNetEQ_DbRemove :: "codec_db \<Rightarrow> int \<Rightarrow> (int \<times> codec_db) option" where
  "WebRtcNetEQ_DbRemove inst codec =
     (if codec \<le> kDecoderReservedStart \<or> codec \<ge> kDecoderReservedEnd
      then Some (CODEC_DB_UNSUPPORTED_CODEC, inst)
      else do {
        pos \<leftarrow> geti (db_position inst) codec;
        if pos = -1 then Some (CODEC_DB_NOT_EXIST4, inst)
        else do {
          es \<leftarrow> db_shift_down (db_entries inst) pos (db_nrOfCodecs inst - 1);
          Some (0, inst\<lparr>
            db_position := map (\<lambda>p. if p \<ge> pos then p - 1 else p)
                             ((db_position inst)[nat codec := -1]),
            db_entries := es,
            db_nrOfCodecs := db_nrOfCodecs inst - 1,
            db_CNGpayloadType := (if codec = kDecoderCNG then replicate NUM_CNG_CODECS (-1)
                                  else db_CNGpayloadType inst)\<rparr>)
        }
      })"

section \<open>Adding a codec\<close>

text \<open>The codecs compiled in, in the order of the source's switch.\<close>

definition db_supported :: "int \<Rightarrow> bool" where
  "db_supported codec \<longleftrightarrow> codec \<in> set
     [kDecoderPCM16B, kDecoderPCM16B_2ch, kDecoderPCMu, kDecoderPCMa, kDecoderPCMu_2ch,
      kDecoderPCMa_2ch, kDecoderILBC, kDecoderISAC, kDecoderISACswb, kDecoderISACfb,
      kDecoderOpus, kDecoderG722, kDecoderG722_2ch, kDecoderPCM16Bwb, kDecoderPCM16Bwb_2ch,
      kDecoderPCM16Bswb32kHz, kDecoderPCM16Bswb32kHz_2ch, kDecoderCNG, kDecoderAVT, kDecoderRED,
      kDecoderArbitrary, kDecoderG729, kDecoderG729_1, kDecoderG722_1_16, kDecoderG722_1_24,
      kDecoderG722_1_32, kDecoderG722_1C_24, kDecoderG722_1C_32, kDecoderG722_1C_48,
      kDecoderSPEEX_8, kDecoderSPEEX_16, kDecoderCELT_32, kDecoderCELT_32_2ch, kDecoderGSMFR,
      kDecoderAMR, kDecoderAMRWB]"

text \<open>The special case for CNG: insert position, and whether to insert or to overwrite.\<close>

definition db_cng_case :: "codec_db \<Rightarrow> int \<Rightarrow> int \<Rightarrow> (int \<times> bool \<times> bool) option" where
  "db_cng_case inst codec codec_fs = do {
     p \<leftarrow> WebRtcNetEQ_DbGetPayload inst codec;
     let insertCNGcodec = (p = CODEC_DB_NOT_EXIST2)
     in Some (if codec_fs = 16000 then (1, insertCNGcodec, False)
              else if codec_fs = 32000 then (2, insertCNGcodec, False)
              else (0, insertCNGcodec, \<not> insertCNGcodec)) }"

text \<open>Writing the entry: at the end, after removing the codec, or over the CNG entry.\<close>

definition db_write :: "codec_db \<Rightarrow> int \<Rightarrow> db_entry \<Rightarrow> bool \<Rightarrow> (int \<times> codec_db) option" where
  "db_write inst codec e overwriteCNGcodec =
     (if db_nrOfCodecs inst = int NUM_CODECS then Some (CODEC_DB_FULL, inst)
      else do {
        pos \<leftarrow> geti (db_position inst) codec;
        inst \<leftarrow> (if pos \<noteq> -1 \<and> \<not> overwriteCNGcodec
                 then do { (r, i) \<leftarrow> WebRtcNetEQ_DbRemove inst codec; Some i } else Some inst);
        let temp = (if overwriteCNGcodec then pos else db_nrOfCodecs inst);
            inst = (if overwriteCNGcodec then inst
                    else inst\<lparr>db_position := (db_position inst)[nat codec := temp],
                              db_nrOfCodecs := db_nrOfCodecs inst + 1\<rparr>)
        in do {
          es \<leftarrow> puti (db_entries inst) temp e;
          Some (0, inst\<lparr>db_entries := es\<rparr>) } })"

definition WebRtcNetEQ_DbAdd ::
    "codec_db \<Rightarrow> int \<Rightarrow> int \<Rightarrow> codec_funcs \<Rightarrow> int \<Rightarrow> (int \<times> codec_db) option" where
  "WebRtcNetEQ_DbAdd inst codec payloadType funcs codec_fs =
     (if codec \<le> kDecoderReservedStart \<or> codec \<ge> kDecoderReservedEnd
      then Some (CODEC_DB_UNSUPPORTED_CODEC, inst)
      else if codec_fs \<noteq> 8000 \<and> codec_fs \<noteq> 16000 \<and> codec_fs \<noteq> 32000 \<and> codec_fs \<noteq> 48000
      then Some (CODEC_DB_UNSUPPORTED_FS, inst)
      else if \<not> db_supported codec then Some (CODEC_DB_UNSUPPORTED_CODEC, inst)
      else do {
        taken \<leftarrow> WebRtcNetEQ_DbGetCodec inst payloadType;
        if taken > 0 then Some (CODEC_DB_PAYLOAD_TAKEN, inst)
        else let e = \<lparr>db_payloadType = payloadType, db_funcs = funcs, db_codec_fs = codec_fs\<rparr> in
          if codec \<noteq> kDecoderCNG then db_write inst codec e False
          else do {
            (CNGpos, insertCNGcodec, overwriteCNGcodec) \<leftarrow> db_cng_case inst codec codec_fs;
            cngs \<leftarrow> puti (db_CNGpayloadType inst) CNGpos payloadType;
            let inst = inst\<lparr>db_CNGpayloadType := cngs\<rparr>
            in if insertCNGcodec \<or> overwriteCNGcodec
               then db_write inst codec e overwriteCNGcodec else Some (0, inst) } })"

section \<open>How a codec's payloads split into frames\<close>

definition ilbc_split :: "split_info \<Rightarrow> int \<Rightarrow> int \<times> split_info" where
  "ilbc_split inst codedsize =
     (if codedsize \<in> set [50, 100, 150, 200, 250, 300, 350, 400, 450, 500, 550, 600]
      then (0, inst\<lparr>sp_deltaBytes := 50, sp_deltaTime := 240\<rparr>)
      else if codedsize \<in> set [38, 76, 114, 152, 190, 228, 266, 304, 342, 380, 418, 456]
      then (0, inst\<lparr>sp_deltaBytes := 38, sp_deltaTime := 160\<rparr>)
      else (AMBIGUOUS_ILBC_FRAME_SIZE, inst))"

definition WebRtcNetEQ_DbGetSplitInfo :: "split_info \<Rightarrow> int \<Rightarrow> int \<Rightarrow> int \<times> split_info" where
  "WebRtcNetEQ_DbGetSplitInfo inst codecID codedsize =
     (if codecID \<in> set [kDecoderISAC, kDecoderISACswb, kDecoderISACfb, kDecoderOpus,
           kDecoderArbitrary, kDecoderAMR, kDecoderAMRWB, kDecoderSPEEX_8, kDecoderSPEEX_16,
           kDecoderCELT_32, kDecoderCELT_32_2ch, kDecoderG729_1]
      then (0, inst\<lparr>sp_deltaBytes := NO_SPLIT\<rparr>)
      else if codecID \<in> set [kDecoderPCMu, kDecoderPCMa, kDecoderPCMu_2ch, kDecoderPCMa_2ch]
      then (0, inst\<lparr>sp_deltaBytes := -12, sp_deltaTime := 1\<rparr>)
      else if codecID = kDecoderG722 \<or> codecID = kDecoderG722_2ch
      then (0, inst\<lparr>sp_deltaBytes := -14, sp_deltaTime := 0\<rparr>)
      else if codecID = kDecoderPCM16B \<or> codecID = kDecoderPCM16B_2ch
      then (0, inst\<lparr>sp_deltaBytes := -12, sp_deltaTime := 2\<rparr>)
      else if codecID = kDecoderPCM16Bwb \<or> codecID = kDecoderPCM16Bwb_2ch
      then (0, inst\<lparr>sp_deltaBytes := -14, sp_deltaTime := 2\<rparr>)
      else if codecID = kDecoderPCM16Bswb32kHz \<or> codecID = kDecoderPCM16Bswb32kHz_2ch
      then (0, inst\<lparr>sp_deltaBytes := -18, sp_deltaTime := 2\<rparr>)
      else if codecID = kDecoderG722_1_16 then (0, inst\<lparr>sp_deltaBytes := 40, sp_deltaTime := 320\<rparr>)
      else if codecID = kDecoderG722_1_24 then (0, inst\<lparr>sp_deltaBytes := 60, sp_deltaTime := 320\<rparr>)
      else if codecID = kDecoderG722_1_32 then (0, inst\<lparr>sp_deltaBytes := 80, sp_deltaTime := 320\<rparr>)
      else if codecID = kDecoderG722_1C_24 then (0, inst\<lparr>sp_deltaBytes := 60, sp_deltaTime := 640\<rparr>)
      else if codecID = kDecoderG722_1C_32 then (0, inst\<lparr>sp_deltaBytes := 80, sp_deltaTime := 640\<rparr>)
      else if codecID = kDecoderG722_1C_48 then (0, inst\<lparr>sp_deltaBytes := 120, sp_deltaTime := 640\<rparr>)
      else if codecID = kDecoderG729 then (0, inst\<lparr>sp_deltaBytes := 10, sp_deltaTime := 80\<rparr>)
      else if codecID = kDecoderILBC then ilbc_split inst codedsize
      else if codecID = kDecoderGSMFR then (0, inst\<lparr>sp_deltaBytes := 33, sp_deltaTime := 160\<rparr>)
      else (CODEC_DB_UNKNOWN_CODEC, inst\<lparr>sp_deltaBytes := NO_SPLIT\<rparr>))"

section \<open>Well-formedness and the abstract database\<close>

definition db_inv :: "codec_db \<Rightarrow> bool" where
  "db_inv b \<longleftrightarrow> length (db_position b) = NUM_TOTAL_CODECS \<and> length (db_entries b) = NUM_CODECS
     \<and> length (db_CNGpayloadType b) = NUM_CNG_CODECS \<and> db_position b ! 0 = -1 \<and> 0 \<le> db_nrOfCodecs b
     \<and> (\<forall>i < NUM_TOTAL_CODECS. db_position b ! i = -1 \<or>
          0 \<le> db_position b ! i \<and> db_position b ! i < db_nrOfCodecs b)
     \<and> (\<forall>i < NUM_TOTAL_CODECS. \<forall>j < NUM_TOTAL_CODECS.
          db_position b ! i = db_position b ! j \<and> db_position b ! i \<noteq> -1 \<longrightarrow> i = j)
     \<and> (\<forall>k. 0 \<le> k \<and> k < db_nrOfCodecs b \<longrightarrow> (\<exists>i < NUM_TOTAL_CODECS. db_position b ! i = k))
     \<and> (\<forall>i j. i < nat (db_nrOfCodecs b) \<and> j < nat (db_nrOfCodecs b)
          \<and> db_payloadType (db_entries b ! i) = db_payloadType (db_entries b ! j) \<longrightarrow> i = j)"

definition codec_ok :: "int \<Rightarrow> bool" where
  "codec_ok c \<longleftrightarrow> kDecoderReservedStart < c \<and> c < kDecoderReservedEnd"

text \<open>The finite map from codecs to entries that the arrays represent.\<close>

definition db_abs :: "codec_db \<Rightarrow> int \<Rightarrow> db_entry option" where
  "db_abs b c = (if codec_ok c \<and> db_position b ! nat c \<noteq> -1
     then Some (db_entries b ! nat (db_position b ! nat c)) else None)"

lemma db_inv_rules:
  assumes "db_inv b"
  shows "length (db_position b) = NUM_TOTAL_CODECS" "length (db_entries b) = NUM_CODECS"
    "length (db_CNGpayloadType b) = NUM_CNG_CODECS" "db_position b ! 0 = -1" "0 \<le> db_nrOfCodecs b"
    "\<And>i. i < NUM_TOTAL_CODECS \<Longrightarrow> db_position b ! i \<noteq> -1 \<Longrightarrow>
         0 \<le> db_position b ! i \<and> db_position b ! i < db_nrOfCodecs b"
    "\<And>i j. i < NUM_TOTAL_CODECS \<Longrightarrow> j < NUM_TOTAL_CODECS \<Longrightarrow>
         db_position b ! i = db_position b ! j \<Longrightarrow> db_position b ! i \<noteq> -1 \<Longrightarrow> i = j"
    "\<And>k. 0 \<le> k \<Longrightarrow> k < db_nrOfCodecs b \<Longrightarrow> \<exists>i < NUM_TOTAL_CODECS. db_position b ! i = k"
    "\<And>i j. i < nat (db_nrOfCodecs b) \<Longrightarrow> j < nat (db_nrOfCodecs b) \<Longrightarrow>
         db_payloadType (db_entries b ! i) = db_payloadType (db_entries b ! j) \<Longrightarrow> i = j"
  using assms unfolding db_inv_def by blast+

lemma db_count:
  assumes "db_inv b"
  shows "db_nrOfCodecs b < int NUM_TOTAL_CODECS"
proof -
  note inv = db_inv_rules [OF assms]
  let ?f = "\<lambda>i. db_position b ! i"
  have "{0..<db_nrOfCodecs b} \<subseteq> ?f ` {1..<NUM_TOTAL_CODECS}"
  proof
    fix k assume k: "k \<in> {0..<db_nrOfCodecs b}"
    then obtain i where i: "i < NUM_TOTAL_CODECS" "?f i = k" using inv(8) [of k] by auto
    have "i \<noteq> 0" using i k inv(4) by (cases "i = 0") auto
    with i show "k \<in> ?f ` {1..<NUM_TOTAL_CODECS}" by (auto intro!: image_eqI [of _ _ i])
  qed
  then have "card {0..<db_nrOfCodecs b} \<le> card (?f ` {1..<NUM_TOTAL_CODECS})"
    by (intro card_mono) simp
  also have "\<dots> \<le> card {1..<NUM_TOTAL_CODECS}" by (rule card_image_le) simp
  finally show ?thesis by simp
qed

lemma geti_Some [simp]: "0 \<le> i \<Longrightarrow> i < int (length xs) \<Longrightarrow> geti xs i = Some (xs ! nat i)"
  by (simp add: geti_def nat_less_iff)

lemma puti_Some [simp]: "0 \<le> i \<Longrightarrow> i < int (length xs) \<Longrightarrow> puti xs i v = Some (xs[nat i := v])"
  by (simp add: puti_def nat_less_iff)

lemma codec_position:
  "db_inv b \<Longrightarrow> codec_ok c \<Longrightarrow> geti (db_position b) c = Some (db_position b ! nat c)"
  using db_inv_rules(1) [of b] by (simp add: codec_ok_def)

section \<open>Look-ups read the abstract database\<close>

lemma db_search_spec:
  assumes "\<forall>p \<in> set ps. p = -1 \<or> 0 \<le> p \<and> p < int (length es)"
  shows "(db_search es pt ps i = Some None
            \<and> (\<forall>k < length ps. ps ! k \<noteq> -1 \<longrightarrow> db_payloadType (es ! nat (ps ! k)) \<noteq> pt)) \<or>
         (\<exists>k < length ps. db_search es pt ps i = Some (Some (i + k)) \<and> ps ! k \<noteq> -1
            \<and> db_payloadType (es ! nat (ps ! k)) = pt)"
  using assms
proof (induction ps arbitrary: i)
  case (Cons p ps)
  have IH: "(db_search es pt ps (Suc i) = Some None
            \<and> (\<forall>k < length ps. ps ! k \<noteq> -1 \<longrightarrow> db_payloadType (es ! nat (ps ! k)) \<noteq> pt)) \<or>
         (\<exists>k < length ps. db_search es pt ps (Suc i) = Some (Some (Suc i + k)) \<and> ps ! k \<noteq> -1
            \<and> db_payloadType (es ! nat (ps ! k)) = pt)" using Cons.IH [of "Suc i"] Cons.prems by simp
  show ?case
  proof (cases "p \<noteq> -1 \<and> db_payloadType (es ! nat p) = pt")
    case True
    then show ?thesis using Cons.prems by (intro disjI2 exI [of _ 0]) auto
  next
    case False
    then have step: "db_search es pt (p # ps) i = db_search es pt ps (Suc i)"
      using Cons.prems by auto
    from IH show ?thesis
    proof (elim disjE exE conjE)
      assume "db_search es pt ps (Suc i) = Some None"
        "\<forall>k < length ps. ps ! k \<noteq> -1 \<longrightarrow> db_payloadType (es ! nat (ps ! k)) \<noteq> pt"
      then show ?thesis using False step by (auto simp: nth_Cons split: nat.split)
    next
      fix k assume "k < length ps" "db_search es pt ps (Suc i) = Some (Some (Suc i + k))" "ps ! k \<noteq> -1"
        "db_payloadType (es ! nat (ps ! k)) = pt"
      then show ?thesis using step by (intro disjI2 exI [of _ "Suc k"]) auto
    qed
  qed
qed simp

lemma get_codec_cases:
  assumes "db_inv b"
  obtains (found) c e where "WebRtcNetEQ_DbGetCodec b pt = Some c" "db_abs b c = Some e"
      "db_payloadType e = pt"
    | (absent) "WebRtcNetEQ_DbGetCodec b pt =
        Some (if WebRtcNetEQ_DbIsCNGPayload b pt then kDecoderCNG else CODEC_DB_NOT_EXIST3)"
      "\<forall>c e. db_abs b c = Some e \<longrightarrow> db_payloadType e \<noteq> pt"
proof -
  note inv = db_inv_rules [OF assms]
  have "\<forall>p \<in> set (db_position b). p = -1 \<or> 0 \<le> p \<and> p < int (length (db_entries b))"
    using inv(1,2,6) db_count [OF assms] by (fastforce simp: in_set_conv_nth)
  from db_search_spec [OF this, of pt 0] show thesis
  proof (elim disjE exE conjE)
    assume none: "db_search (db_entries b) pt (db_position b) 0 = Some None"
      "\<forall>k < length (db_position b). db_position b ! k \<noteq> -1 \<longrightarrow>
         db_payloadType (db_entries b ! nat (db_position b ! k)) \<noteq> pt"
    then have "\<forall>c e. db_abs b c = Some e \<longrightarrow> db_payloadType e \<noteq> pt"
      by (auto simp: db_abs_def codec_ok_def inv(1) nat_less_iff split: if_splits)
    then show thesis using none(1) by (intro absent) (simp_all add: WebRtcNetEQ_DbGetCodec_def)
  next
    fix k assume k: "k < length (db_position b)" "db_search (db_entries b) pt (db_position b) 0 = Some (Some (0 + k))"
      "db_position b ! k \<noteq> -1" "db_payloadType (db_entries b ! nat (db_position b ! k)) = pt"
    have "k \<noteq> 0" using k(3) inv(4) by (cases "k = 0") auto
    then have "codec_ok (int k)" using k(1) inv(1) by (simp add: codec_ok_def)
    then show thesis using k
      by (intro found [of "int k" "db_entries b ! nat (db_position b ! k)"])
         (simp_all add: WebRtcNetEQ_DbGetCodec_def db_abs_def)
  qed
qed

lemma abs_inj:
  assumes "db_inv b" "db_abs b c = Some e" "db_abs b d = Some f" "db_payloadType e = db_payloadType f"
  shows "c = d"
proof -
  note inv = db_inv_rules [OF assms(1)]
  have c: "codec_ok c" "db_position b ! nat c \<noteq> -1" "e = db_entries b ! nat (db_position b ! nat c)"
    and d: "codec_ok d" "db_position b ! nat d \<noteq> -1" "f = db_entries b ! nat (db_position b ! nat d)"
    using assms(2,3) by (auto simp: db_abs_def split: if_splits)
  have lt: "nat c < NUM_TOTAL_CODECS" "nat d < NUM_TOTAL_CODECS" using c(1) d(1) by (auto simp: codec_ok_def)
  note pc = inv(6) [OF lt(1) c(2)] and pd = inv(6) [OF lt(2) d(2)]
  have "nat (db_position b ! nat c) = nat (db_position b ! nat d)"
    using pc pd c(3) d(3) assms(4) by (intro inv(9)) (auto simp: nat_less_iff)
  then have "db_position b ! nat c = db_position b ! nat d" using pc pd by linarith
  from inv(7) [OF lt this c(2)] show ?thesis using c(1) d(1) by (auto simp: codec_ok_def)
qed

lemma entry_registered:
  assumes "db_inv b" "k < nat (db_nrOfCodecs b)"
  shows "\<exists>c. db_abs b c = Some (db_entries b ! k)"
proof -
  note inv = db_inv_rules [OF assms(1)]
  have "int k < db_nrOfCodecs b" using assms(2) by linarith
  then obtain i where i: "i < NUM_TOTAL_CODECS" "db_position b ! i = int k" using inv(8) [of "int k"] by auto
  have "i \<noteq> 0" using i(2) inv(4) by (cases "i = 0") auto
  then have "db_abs b (int i) = Some (db_entries b ! k)" using i by (simp add: db_abs_def codec_ok_def)
  then show ?thesis ..
qed

lemma get_codec_iff:
  assumes "db_inv b" "db_abs b c = Some e"
  shows "WebRtcNetEQ_DbGetCodec b (db_payloadType e) = Some c"
  using assms(1)
proof (cases rule: get_codec_cases [where pt = "db_payloadType e"])
  case (found d f)
  then show ?thesis using abs_inj [OF assms(1) found(2) assms(2)] by simp
next
  case absent
  then show ?thesis using assms(2) by blast
qed

lemma get_payload_abs:
  assumes "db_inv b" "codec_ok c"
  shows "WebRtcNetEQ_DbGetPayload b c =
    Some (case db_abs b c of None \<Rightarrow> CODEC_DB_NOT_EXIST2 | Some e \<Rightarrow> db_payloadType e)"
proof -
  note inv = db_inv_rules [OF assms(1)]
  have "nat c < NUM_TOTAL_CODECS" using assms(2) by (auto simp: codec_ok_def)
  with inv(6) [OF this] inv(2) db_count [OF assms(1)] codec_position [OF assms] assms(2) show ?thesis
    by (auto simp: WebRtcNetEQ_DbGetPayload_def db_abs_def)
qed

lemma get_ptrs_abs:
  assumes "db_inv b" "codec_ok c"
  shows "WebRtcNetEQ_DbGetPtrs b c old = Some (case db_abs b c of
      None \<Rightarrow> (CODEC_DB_NOT_EXIST1, null_funcs, 0)
    | Some e \<Rightarrow> (0, (db_funcs e)\<lparr>funcDurationEst := funcDurationEst (fst old),
                      funcGetPitch := funcGetPitch (fst old)\<rparr>, db_codec_fs e))"
proof -
  note inv = db_inv_rules [OF assms(1)]
  have "nat c < NUM_TOTAL_CODECS" using assms(2) by (auto simp: codec_ok_def)
  with inv(6) [OF this] inv(2) db_count [OF assms(1)] codec_position [OF assms] assms(2) show ?thesis
    by (auto simp: WebRtcNetEQ_DbGetPtrs_def db_abs_def codec_ok_def Let_def)
qed

section \<open>Removing and adding update the abstract database\<close>

lemma shift_down_spec:
  assumes "0 \<le> i" "i \<le> l" "l < int (length es)"
  shows "\<exists>es'. db_shift_down es i l = Some es' \<and> length es' = length es
    \<and> (\<forall>j < length es. es' ! j = (if int j < i then es ! j else if int j < l then es ! (j + 1)
                                  else if int j = l then empty_entry else es ! j))"
  using assms
proof (induction "nat (l - i)" arbitrary: i es)
  case 0
  then have "i = l" by simp
  then show ?case using 0 by (subst db_shift_down.simps) (auto simp: nth_list_update)
next
  case (Suc n)
  then have lt: "i < l" "n = nat (l - (i + 1))" by auto
  let ?es = "es[nat i := es ! nat (i + 1)]"
  have step: "db_shift_down es i l = db_shift_down ?es (i + 1) l"
    using Suc.prems lt by (subst db_shift_down.simps) simp
  obtain es' where es': "db_shift_down ?es (i + 1) l = Some es'" "length es' = length ?es"
    "\<forall>j < length ?es. es' ! j = (if int j < i + 1 then ?es ! j else if int j < l then ?es ! (j + 1)
                                  else if int j = l then empty_entry else ?es ! j)"
    using Suc.hyps(1) [OF lt(2), of ?es] Suc.prems lt by auto
  have "es' ! j = (if int j < i then es ! j else if int j < l then es ! (j + 1)
                    else if int j = l then empty_entry else es ! j)" if j: "j < length es" for j
  proof (cases "int j = i")
    case True
    then have "nat i = j" "nat (i + 1) = j + 1" by auto
    then show ?thesis using es'(3) j lt True by simp
  next
    case False
    then have "nat i \<noteq> j" "int j < i + 1 \<longleftrightarrow> int j < i" using Suc.prems by auto
    moreover have "\<not> int j < i \<Longrightarrow> nat i \<noteq> j + 1" using Suc.prems by auto
    ultimately show ?thesis using es'(3) j by auto
  qed
  with es' step show ?case by auto
qed


lemma remove_ok:
  assumes "db_inv b" "codec_ok c" "db_abs b c \<noteq> None"
  obtains b' where "WebRtcNetEQ_DbRemove b c = Some (0, b')" "db_inv b'"
    "db_abs b' = (db_abs b)(c := None)" "db_position b' ! nat c = -1"
    "db_CNGpayloadType b' = (if c = kDecoderCNG then replicate NUM_CNG_CODECS (-1) else db_CNGpayloadType b)"
proof -
  note inv = db_inv_rules [OF assms(1)]
  let ?n = "db_nrOfCodecs b" and ?ps = "db_position b" and ?es = "db_entries b"
  define pos where "pos = ?ps ! nat c"
  have c: "nat c < NUM_TOTAL_CODECS" "int (nat c) = c" using assms(2) by (auto simp: codec_ok_def)
  have pos: "pos \<noteq> -1" using assms(3) by (auto simp: db_abs_def pos_def split: if_splits)
  have range: "0 \<le> pos" "pos < ?n" using inv(6) [OF c(1)] pos by (auto simp: pos_def)
  have n: "?n < int NUM_TOTAL_CODECS" by (rule db_count [OF assms(1)])
  obtain es' where es': "db_shift_down ?es pos (?n - 1) = Some es'" "length es' = length ?es"
    "\<forall>j < length ?es. es' ! j = (if int j < pos then ?es ! j else if int j < ?n - 1 then ?es ! (j + 1)
                                  else if int j = ?n - 1 then empty_entry else ?es ! j)"
    using shift_down_spec [of pos "?n - 1" ?es] range n inv(2) by auto
  define ps' where "ps' = map (\<lambda>p. if p \<ge> pos then p - 1 else p) (?ps[nat c := -1])"
  define b' where "b' = b\<lparr>db_position := ps', db_entries := es', db_nrOfCodecs := ?n - 1,
      db_CNGpayloadType := (if c = kDecoderCNG then replicate NUM_CNG_CODECS (-1) else db_CNGpayloadType b)\<rparr>"
  have rm: "WebRtcNetEQ_DbRemove b c = Some (0, b')"
    using assms(2) pos es'(1) codec_position [OF assms(1,2)]
    by (simp add: WebRtcNetEQ_DbRemove_def b'_def ps'_def pos_def codec_ok_def)
  have ps': "ps' ! i = (if i = nat c then -1 else if ?ps ! i > pos then ?ps ! i - 1 else ?ps ! i)"
    if "i < NUM_TOTAL_CODECS" for i
  proof -
    have "i \<noteq> nat c \<Longrightarrow> ?ps ! i \<noteq> pos"
      using inv(7) [OF that c(1)] pos by (auto simp: pos_def)
    then show ?thesis using that inv(1) range by (auto simp: ps'_def nth_list_update)
  qed
  have es: "es' ! nat (ps' ! i) = ?es ! nat (?ps ! i)"
    if "i < NUM_TOTAL_CODECS" "i \<noteq> nat c" "?ps ! i \<noteq> -1" for i
  proof -
    have "0 \<le> ?ps ! i" "?ps ! i < ?n" using inv(6) [OF that(1,3)] by auto
    moreover have "?ps ! i \<noteq> pos" using inv(7) [OF that(1) c(1)] pos that(2) by (auto simp: pos_def)
    moreover have "?ps ! i > pos \<Longrightarrow> Suc (nat (?ps ! i - 1)) = nat (?ps ! i)" using range by auto
    ultimately show ?thesis using es'(3) ps' [OF that(1)] that(2) n inv(2) range by auto
  qed
  have ne: "i < NUM_TOTAL_CODECS \<Longrightarrow> ps' ! i \<noteq> -1 \<longleftrightarrow> i \<noteq> nat c \<and> ?ps ! i \<noteq> -1" for i
    using ps' [of i] inv(6) [of i] range by auto
  have len: "length ps' = NUM_TOTAL_CODECS" by (simp add: ps'_def inv(1))
  have "db_inv b'"
    unfolding db_inv_def b'_def
  proof (simp add: len es'(2) inv(2,3), intro conjI allI impI, goal_cases)
    case 1
    then show ?case using ps' [of 0] inv(4) range c by auto
  next
    case 2
    then show ?case using range by simp
  next
    case (3 i)
    show ?case
    proof (cases "i = nat c \<or> ?ps ! i = -1")
      case True
      then show ?thesis using ps' [OF 3] range by auto
    next
      case False
      then have "?ps ! i \<noteq> pos" "0 \<le> ?ps ! i" "?ps ! i < ?n"
        using inv(6) [OF 3] inv(7) [OF 3 c(1)] by (auto simp: pos_def)
      then show ?thesis using ps' [OF 3] False range by (cases "pos < ?ps ! i") auto
    qed
  next
    case (4 i j)
    then have i: "i < NUM_TOTAL_CODECS" "i \<noteq> nat c" "?ps ! i \<noteq> -1"
      and j: "j < NUM_TOTAL_CODECS" "j \<noteq> nat c" "?ps ! j \<noteq> -1" using ne [of i] ne [of j] by auto
    have "?ps ! i \<noteq> pos" "?ps ! j \<noteq> pos"
      using inv(7) [OF i(1) c(1)] inv(7) [OF j(1) c(1)] pos i(2) j(2) by (auto simp: pos_def)
    then have "?ps ! i = ?ps ! j" using 4 ps' [of i] ps' [of j] i j by (auto split: if_splits)
    then show ?case using inv(7) i j by blast
  next
    case (5 k)
    define k' where "k' = (if k < pos then k else k + 1)"
    obtain i where i: "i < NUM_TOTAL_CODECS" "?ps ! i = k'" using inv(8) [of k'] 5
      by (cases "k < pos") (auto simp: k'_def)
    have "i \<noteq> nat c" using i(2) 5 by (auto simp: k'_def pos_def split: if_splits)
    then have "ps' ! i = k" using ps' [OF i(1)] i(2) by (auto simp: k'_def split: if_splits)
    then show ?case using i(1) by auto
  next
    case (6 i j)
    let ?s = "\<lambda>i. if int i < pos then i else i + 1"
    have s: "es' ! i = ?es ! ?s i" "?s i < nat ?n" if "i < nat (?n - 1)" for i
      using es'(3) that n inv(2) range by auto
    have "?s i = ?s j" using 6 s [of i] s [of j] by (intro inv(9)) auto
    then show ?case by (auto split: if_splits)
  qed
  moreover have "db_abs b' = (db_abs b)(c := None)"
  proof
    fix d show "db_abs b' d = ((db_abs b)(c := None)) d"
    proof (cases "codec_ok d")
      case True
      then have d: "nat d < NUM_TOTAL_CODECS" "nat d = nat c \<longleftrightarrow> d = c"
        using c assms(2) by (auto simp: codec_ok_def)
      show ?thesis using True ne [OF d(1)] es [OF d(1)] d(2) by (auto simp: db_abs_def b'_def)
    qed (auto simp: db_abs_def assms(2))
  qed
  ultimately show thesis using rm ps' [OF c(1)] by (intro that [of b']) (auto simp: b'_def)
qed

lemma abs_position: "codec_ok c \<Longrightarrow> db_abs b c = None \<longleftrightarrow> db_position b ! nat c = -1"
  by (simp add: db_abs_def)

lemma append_ok:
  assumes "db_inv b" "codec_ok c" "db_abs b c = None"
    "\<forall>d f. db_abs b d = Some f \<longrightarrow> db_payloadType f \<noteq> db_payloadType e"
  defines "b' \<equiv> b\<lparr>db_position := (db_position b)[nat c := db_nrOfCodecs b],
      db_nrOfCodecs := db_nrOfCodecs b + 1,
      db_entries := (db_entries b)[nat (db_nrOfCodecs b) := e]\<rparr>"
  shows "db_inv b'" "db_abs b' = (db_abs b)(c \<mapsto> e)"
proof -
  note inv = db_inv_rules [OF assms(1)]
  let ?n = "db_nrOfCodecs b" and ?ps = "db_position b" and ?es = "db_entries b"
  have n: "?n < int NUM_TOTAL_CODECS" by (rule db_count [OF assms(1)])
  have c: "nat c < NUM_TOTAL_CODECS" "nat c \<noteq> 0" using assms(2) by (auto simp: codec_ok_def)
  have pos: "?ps ! nat c = -1" using assms(2,3) by (simp add: abs_position)
  have ps: "(?ps[nat c := ?n]) ! i = (if i = nat c then ?n else ?ps ! i)" if "i < NUM_TOTAL_CODECS" for i
    using that inv(1) by (simp add: nth_list_update)
  have es: "(?es[nat ?n := e]) ! k = (if k = nat ?n then e else ?es ! k)" if "k < NUM_CODECS" for k
    using that inv(2) by (simp add: nth_list_update)
  have fresh: "db_payloadType (?es ! k) \<noteq> db_payloadType e" if k: "k < nat ?n" for k
    using entry_registered [OF assms(1) k] assms(4) by blast
  show "db_inv b'"
    unfolding db_inv_def b'_def
  proof (simp add: inv(1-3), intro conjI allI impI, goal_cases)
    case 1
    then show ?case using ps [of 0] inv(4) c by simp
  next
    case 2
    then show ?case using inv(5) by simp
  next
    case (3 i)
    then show ?case using ps [of i] inv(5) inv(6) [of i] by auto
  next
    case (4 i j)
    then show ?case using ps [of i] ps [of j] inv(6) [of i] inv(6) [of j] inv(7) [of i j]
      by (auto split: if_splits)
  next
    case (5 k)
    show ?case
    proof (cases "k = ?n")
      case True
      then show ?thesis using ps c(1) by (intro exI [of _ "nat c"]) simp
    next
      case False
      then obtain i where "i < NUM_TOTAL_CODECS" "?ps ! i = k" using inv(8) [of k] 5 by auto
      moreover have "i \<noteq> nat c" using pos calculation 5 by auto
      ultimately show ?thesis using ps by (intro exI [of _ i]) simp
    qed
  next
    case (6 i j)
    then have ij: "i < NUM_CODECS" "j < NUM_CODECS" "i \<le> nat ?n" "j \<le> nat ?n" using n by auto
    then show ?case
      using 6 es [of i] es [of j] fresh [of i] fresh [of j] inv(9) [of i j]
      by (cases "i = nat ?n"; cases "j = nat ?n") auto
  qed
  show "db_abs b' = (db_abs b)(c \<mapsto> e)"
  proof
    fix d show "db_abs b' d = ((db_abs b)(c \<mapsto> e)) d"
    proof (cases "codec_ok d")
      case True
      then have d: "nat d < NUM_TOTAL_CODECS" "nat d = nat c \<longleftrightarrow> d = c"
        using assms(2) by (auto simp: codec_ok_def)
      show ?thesis
      proof (cases "d = c")
        case True
        have "nat ?n < length ?es" using n inv(2) by auto
        then show ?thesis using True ps [OF d(1)] d(2) assms(2) inv(5) by (simp add: db_abs_def b'_def)
      next
        case False
        have "?ps ! nat d \<noteq> -1 \<Longrightarrow> nat ?n \<noteq> nat (?ps ! nat d)" using inv(6) [OF d(1)] by auto
        then show ?thesis using False ps [OF d(1)] d(2) by (auto simp: db_abs_def b'_def)
      qed
    qed (use assms(2) in \<open>auto simp: db_abs_def\<close>)
  qed
qed

lemma overwrite_ok:
  assumes "db_inv b" "codec_ok c" "db_abs b c = Some e0"
    "\<forall>d f. db_abs b d = Some f \<longrightarrow> db_payloadType f \<noteq> db_payloadType e"
  defines "b' \<equiv> b\<lparr>db_entries := (db_entries b)[nat (db_position b ! nat c) := e]\<rparr>"
  shows "db_inv b'" "db_abs b' = (db_abs b)(c \<mapsto> e)"
proof -
  note inv = db_inv_rules [OF assms(1)]
  let ?n = "db_nrOfCodecs b" and ?ps = "db_position b" and ?es = "db_entries b"
  have n: "?n < int NUM_TOTAL_CODECS" by (rule db_count [OF assms(1)])
  have c: "nat c < NUM_TOTAL_CODECS" using assms(2) by (auto simp: codec_ok_def)
  have pos: "?ps ! nat c \<noteq> -1" using assms(3) by (auto simp: db_abs_def split: if_splits)
  note range = inv(6) [OF c pos]
  have fresh: "db_payloadType (?es ! k) \<noteq> db_payloadType e" if k: "k < nat ?n" for k
    using entry_registered [OF assms(1) k] assms(4) by blast
  have "i = j" if "i < nat ?n" "j < nat ?n"
    "db_payloadType (?es[nat (?ps ! nat c) := e] ! i) = db_payloadType (?es[nat (?ps ! nat c) := e] ! j)" for i j
  proof -
    have "i < length ?es" "j < length ?es" using that n inv(2) by auto
    then have upd: "?es[nat (?ps ! nat c) := e] ! i = (if i = nat (?ps ! nat c) then e else ?es ! i)"
      "?es[nat (?ps ! nat c) := e] ! j = (if j = nat (?ps ! nat c) then e else ?es ! j)"
      by (auto simp: nth_list_update)
    show ?thesis
      using that(3) fresh [OF that(1)] fresh [OF that(2)] inv(9) [OF that(1,2)] unfolding upd
      by (simp split: if_splits)
  qed
  then show "db_inv b'" using assms(1) unfolding db_inv_def b'_def by simp
  show "db_abs b' = (db_abs b)(c \<mapsto> e)"
  proof
    fix d show "db_abs b' d = ((db_abs b)(c \<mapsto> e)) d"
    proof (cases "codec_ok d")
      case True
      then have d: "nat d < NUM_TOTAL_CODECS" "nat d = nat c \<longleftrightarrow> d = c"
        using assms(2) by (auto simp: codec_ok_def)
      show ?thesis
      proof (cases "d = c")
        case True
        have "nat (?ps ! nat c) < length ?es" using n range inv(2) by auto
        then show ?thesis using True pos assms(2) by (simp add: db_abs_def b'_def)
      next
        case False
        have "nat (?ps ! nat c) \<noteq> nat (?ps ! nat d)" if "?ps ! nat d \<noteq> -1"
        proof
          assume "nat (?ps ! nat c) = nat (?ps ! nat d)"
          then have "?ps ! nat d = ?ps ! nat c" using inv(6) [OF d(1) that] range by linarith
          then show False using inv(7) [OF d(1) c] that d(2) False by blast
        qed
        then show ?thesis using False by (auto simp: db_abs_def b'_def)
      qed
    qed (use assms(2) in \<open>auto simp: db_abs_def\<close>)
  qed
qed


lemma cng_table_irrelevant:
  "db_inv b \<Longrightarrow> length cs = NUM_CNG_CODECS \<Longrightarrow> db_inv (b\<lparr>db_CNGpayloadType := cs\<rparr>)"
  "db_abs (b\<lparr>db_CNGpayloadType := cs\<rparr>) = db_abs b"
  by (simp add: db_inv_def) (simp add: db_abs_def fun_eq_iff)

lemma write_ok:
  assumes "db_inv b" "codec_ok c" "\<forall>d f. db_abs b d = Some f \<longrightarrow> db_payloadType f \<noteq> db_payloadType e"
    "overwrite \<Longrightarrow> db_abs b c \<noteq> None"
  obtains b' where "db_write b c e overwrite = Some (0, b')" "db_inv b'" "db_abs b' = (db_abs b)(c \<mapsto> e)"
    "db_abs b c = None \<or> overwrite \<or> c \<noteq> kDecoderCNG \<Longrightarrow> db_CNGpayloadType b' = db_CNGpayloadType b"
proof -
  have full: "db_nrOfCodecs b \<noteq> int NUM_CODECS" using db_count [OF assms(1)] by simp
  note pos = codec_position [OF assms(1,2)]
  note inv = db_inv_rules [OF assms(1)]
  have nc: "nat c < NUM_TOTAL_CODECS" using assms(2) by (auto simp: codec_ok_def)
  show thesis
  proof (cases "db_abs b c")
    case None
    then have p: "db_position b ! nat c = -1" and now: "\<not> overwrite"
      using assms(2,4) by (auto simp: abs_position)
    have n: "0 \<le> db_nrOfCodecs b" "db_nrOfCodecs b < int (length (db_entries b))"
      using inv(2,5) db_count [OF assms(1)] by auto
    have "db_write b c e overwrite = Some (0, b\<lparr>db_position := (db_position b)[nat c := db_nrOfCodecs b],
      db_nrOfCodecs := db_nrOfCodecs b + 1, db_entries := (db_entries b)[nat (db_nrOfCodecs b) := e]\<rparr>)"
      using full pos p now n by (simp add: db_write_def Let_def)
    from that [OF this append_ok [OF assms(1,2) None assms(3)]] show thesis by simp
  next
    case (Some e0)
    then have p: "db_position b ! nat c \<noteq> -1" by (auto simp: db_abs_def split: if_splits)
    show thesis
    proof (cases overwrite)
      case True
      have "0 \<le> db_position b ! nat c" "db_position b ! nat c < int (length (db_entries b))"
        using inv(2) inv(6) [OF nc p] db_count [OF assms(1)] by auto
      then have "db_write b c e overwrite =
          Some (0, b\<lparr>db_entries := (db_entries b)[nat (db_position b ! nat c) := e]\<rparr>)"
        using full pos p True by (simp add: db_write_def Let_def)
      from that [OF this overwrite_ok [OF assms(1,2) Some assms(3)]] show thesis by simp
    next
      case False
      obtain b1 where b1: "WebRtcNetEQ_DbRemove b c = Some (0, b1)" "db_inv b1"
        "db_abs b1 = (db_abs b)(c := None)"
        "db_CNGpayloadType b1 = (if c = kDecoderCNG then replicate NUM_CNG_CODECS (-1) else db_CNGpayloadType b)"
        using remove_ok [OF assms(1,2)] Some by blast
      have n: "0 \<le> db_nrOfCodecs b1" "db_nrOfCodecs b1 < int (length (db_entries b1))"
        using db_inv_rules(2,5) [OF b1(2)] db_count [OF b1(2)] by auto
      have fresh: "\<forall>d f. db_abs b1 d = Some f \<longrightarrow> db_payloadType f \<noteq> db_payloadType e"
        using assms(3) b1(3) by auto
      have none: "db_abs b1 c = None" using b1(3) by simp
      have "db_write b c e overwrite = Some (0, b1\<lparr>db_position := (db_position b1)[nat c := db_nrOfCodecs b1],
        db_nrOfCodecs := db_nrOfCodecs b1 + 1, db_entries := (db_entries b1)[nat (db_nrOfCodecs b1) := e]\<rparr>)"
        using full pos p False n b1(1) by (simp add: db_write_def Let_def)
      moreover have "(db_abs b1)(c \<mapsto> e) = (db_abs b)(c \<mapsto> e)" by (simp add: b1(3))
      ultimately show thesis
        using that append_ok [OF b1(2) assms(2) none fresh] Some False b1(4) by auto
    qed
  qed
qed

lemma get_codec_pos:
  assumes "db_inv b" "WebRtcNetEQ_DbGetCodec b pt = Some c" "\<not> c > 0"
  shows "\<forall>d f. db_abs b d = Some f \<longrightarrow> db_payloadType f \<noteq> pt"
  using assms(1)
proof (cases rule: get_codec_cases [where pt = pt])
  case (found d e)
  then have "codec_ok d" by (auto simp: db_abs_def split: if_splits)
  with found(1) assms(2,3) show ?thesis by (simp add: codec_ok_def)
qed

lemma supported_ok: "db_supported c \<Longrightarrow> codec_ok c"
  by (auto simp: db_supported_def codec_ok_def)

definition new_entry :: "int \<Rightarrow> codec_funcs \<Rightarrow> int \<Rightarrow> db_entry" where
  "new_entry pt f fs = \<lparr>db_payloadType = pt, db_funcs = f, db_codec_fs = fs\<rparr>"

lemma add_cases:
  assumes "db_inv b"
  obtains (refused) r where "WebRtcNetEQ_DbAdd b c pt f fs = Some (r, b)" "r < 0" "r \<noteq> CODEC_DB_FULL"
      "\<not> db_supported c \<or> fs \<notin> {8000, 16000, 32000, 48000} \<or> (\<exists>d > 0. WebRtcNetEQ_DbGetCodec b pt = Some d)"
    | (added) b' where "WebRtcNetEQ_DbAdd b c pt f fs = Some (0, b')" "c \<noteq> kDecoderCNG" "db_inv b'"
      "db_abs b' = (db_abs b)(c \<mapsto> new_entry pt f fs)" "db_CNGpayloadType b' = db_CNGpayloadType b"
    | (cng) b' p where "WebRtcNetEQ_DbAdd b c pt f fs = Some (0, b')" "c = kDecoderCNG" "db_inv b'"
      "db_abs b' = db_abs b \<and> db_abs b c \<noteq> None \<and> db_CNGpayloadType b' = (db_CNGpayloadType b)[p := pt]
       \<or> db_abs b' = (db_abs b)(c \<mapsto> new_entry pt f fs)"
      "db_CNGpayloadType b' = (db_CNGpayloadType b)[p := pt] \<or>
         (\<exists>e. db_abs b c = Some e \<and> db_payloadType e = CODEC_DB_NOT_EXIST2)"
      "p = (if fs = 16000 then 1 else if fs = 32000 then 2 else 0)"
proof -
  obtain d where d: "WebRtcNetEQ_DbGetCodec b pt = Some d"
    using get_codec_cases [OF assms, of pt] by metis
  show thesis
  proof (cases "db_supported c \<and> fs \<in> {8000, 16000, 32000, 48000} \<and> \<not> d > 0")
    case False
    then show thesis using d
      by (intro refused [of "if \<not> codec_ok c then CODEC_DB_UNSUPPORTED_CODEC
            else if fs \<notin> {8000, 16000, 32000, 48000} then CODEC_DB_UNSUPPORTED_FS
            else if \<not> db_supported c then CODEC_DB_UNSUPPORTED_CODEC else CODEC_DB_PAYLOAD_TAKEN"])
         (auto simp: WebRtcNetEQ_DbAdd_def db_errors codec_ok_def dest: supported_ok)
  next
    case True
    then have ok: "codec_ok c" and fs: "fs \<in> {8000, 16000, 32000, 48000}" and free: "\<not> d > 0"
      using supported_ok by auto
    have fresh: "\<forall>d f'. db_abs b d = Some f' \<longrightarrow> db_payloadType f' \<noteq> db_payloadType (new_entry pt f fs)"
      using get_codec_pos [OF assms d free] by (simp add: new_entry_def)
    have add: "WebRtcNetEQ_DbAdd b c pt f fs =
        (if c \<noteq> kDecoderCNG then db_write b c (new_entry pt f fs) False
          else do {
            (CNGpos, insertCNGcodec, overwriteCNGcodec) \<leftarrow> db_cng_case b c fs;
            cngs \<leftarrow> puti (db_CNGpayloadType b) CNGpos pt;
            let inst = b\<lparr>db_CNGpayloadType := cngs\<rparr>
            in if insertCNGcodec \<or> overwriteCNGcodec
               then db_write inst c (new_entry pt f fs) overwriteCNGcodec else Some (0, inst) })"
      using True ok d by (auto simp: WebRtcNetEQ_DbAdd_def codec_ok_def new_entry_def [symmetric] Let_def)
    show thesis
    proof (cases "c = kDecoderCNG")
      case False
      obtain b' where "db_write b c (new_entry pt f fs) False = Some (0, b')" "db_inv b'"
        "db_abs b' = (db_abs b)(c \<mapsto> new_entry pt f fs)" "db_CNGpayloadType b' = db_CNGpayloadType b"
        using write_ok [OF assms ok fresh, of False] False by metis
      then show thesis using False add by (intro added [of b']) auto
    next
      case is_cng: True
      define p :: nat where "p = (if fs = 16000 then 1 else if fs = 32000 then 2 else 0)"
      define b1 where "b1 = b\<lparr>db_CNGpayloadType := (db_CNGpayloadType b)[p := pt]\<rparr>"
      have b1: "db_inv b1" "db_abs b1 = db_abs b"
        using assms db_inv_rules(3) [OF assms] by (simp_all add: b1_def cng_table_irrelevant)
      have put: "puti (db_CNGpayloadType b) (int p) pt = Some ((db_CNGpayloadType b)[p := pt])"
        using db_inv_rules(3) [OF assms] by (simp add: p_def)
      define ins where "ins \<longleftrightarrow> db_abs b c = None \<or>
          (\<exists>e. db_abs b c = Some e \<and> db_payloadType e = CODEC_DB_NOT_EXIST2)"
      define ow where "ow \<longleftrightarrow> fs \<noteq> 16000 \<and> fs \<noteq> 32000 \<and> \<not> ins"
      have pay: "db_cng_case b c fs = Some (int p, ins, ow)"
        using get_payload_abs [OF assms ok]
        by (auto simp: db_cng_case_def p_def ins_def ow_def Let_def split: option.splits)
      have add: "WebRtcNetEQ_DbAdd b c pt f fs =
          (if ins \<or> ow then db_write b1 c (new_entry pt f fs) ow else Some (0, b1))"
        using add is_cng pay put by (simp add: b1_def Let_def)
      show thesis
      proof (cases "ins \<or> ow")
        case False
        then show thesis using add is_cng b1
          by (intro cng [of b1 p]) (auto simp: p_def b1_def ins_def)
      next
        case True
        obtain b' where b': "db_write b1 c (new_entry pt f fs) ow = Some (0, b')" "db_inv b'"
          "db_abs b' = (db_abs b1)(c \<mapsto> new_entry pt f fs)"
          "db_abs b1 c = None \<or> ow \<or> c \<noteq> kDecoderCNG \<Longrightarrow> db_CNGpayloadType b' = db_CNGpayloadType b1"
          using write_ok [OF b1(1) ok, of "new_entry pt f fs" ow] fresh b1(2) 
          by (auto simp: ow_def ins_def)
        show thesis
        proof (rule cng [of b' p])
          show "db_CNGpayloadType b' = (db_CNGpayloadType b)[p := pt] \<or>
              (\<exists>e. db_abs b c = Some e \<and> db_payloadType e = CODEC_DB_NOT_EXIST2)"
            using b'(4) True b1(2) by (auto simp: b1_def ins_def ow_def)
        qed (use add True is_cng b' b1(2) in \<open>auto simp: p_def\<close>)
      qed
    qed
  qed
qed


section \<open>Properties\<close>

text \<open>The databases a client can reach by resetting, adding and removing.\<close>

inductive db_reachable :: "codec_db \<Rightarrow> bool" where
  reset: "db_reachable WebRtcNetEQ_DbReset"
| add: "db_reachable b \<Longrightarrow> WebRtcNetEQ_DbAdd b c pt f fs = Some (r, b') \<Longrightarrow> db_reachable b'"
| remove: "db_reachable b \<Longrightarrow> WebRtcNetEQ_DbRemove b c = Some (r, b') \<Longrightarrow> db_reachable b'"

lemma reset_inv: "db_inv WebRtcNetEQ_DbReset" "db_abs WebRtcNetEQ_DbReset = Map.empty"
  by (auto simp: db_inv_def WebRtcNetEQ_DbReset_def nth_replicate)
     (auto simp: db_abs_def WebRtcNetEQ_DbReset_def codec_ok_def nth_replicate fun_eq_iff)

lemma remove_cases:
  assumes "db_inv b"
  obtains (refused) r where "WebRtcNetEQ_DbRemove b c = Some (r, b)" "r < 0" "\<not> codec_ok c \<or> db_abs b c = None"
    | (removed) b' where "WebRtcNetEQ_DbRemove b c = Some (0, b')" "codec_ok c" "db_inv b'"
      "db_abs b' = (db_abs b)(c := None)"
proof (cases "codec_ok c \<and> db_abs b c \<noteq> None")
  case True
  then show thesis using remove_ok [OF assms, of c] removed by metis
next
  case False
  then show thesis
    using codec_position [OF assms, of c] refused
    by (cases "codec_ok c")
       (auto simp: WebRtcNetEQ_DbRemove_def codec_ok_def abs_position db_errors)
qed

lemma reachable_inv: "db_reachable b \<Longrightarrow> db_inv b"
proof (induction rule: db_reachable.induct)
  case (add b c pt f fs r b')
  show ?case using add.IH by (cases rule: add_cases [of b c pt f fs]) (use add in auto)
next
  case (remove b c r b')
  show ?case using remove.IH by (cases rule: remove_cases [of b c]) (use remove in auto)
qed (rule reset_inv)

text \<open>C40: Whatever codecs are added and removed, in any order and with any parameters, the
  database never indexes an array out of bounds and is never full: every further addition and
  removal returns, with a well-formed database, and addition never answers that the database
  is full.\<close>

theorem codec_db_total:
  assumes "db_reachable b"
  shows "db_inv b
    \<and> (\<exists>r b'. WebRtcNetEQ_DbAdd b c pt f fs = Some (r, b') \<and> db_inv b' \<and> r \<noteq> CODEC_DB_FULL)
    \<and> (\<exists>r b'. WebRtcNetEQ_DbRemove b c = Some (r, b') \<and> db_inv b')"
proof -
  have inv: "db_inv b" by (rule reachable_inv [OF assms])
  have "\<exists>r b'. WebRtcNetEQ_DbAdd b c pt f fs = Some (r, b') \<and> db_inv b' \<and> r \<noteq> CODEC_DB_FULL"
    using inv by (cases rule: add_cases [of b c pt f fs]) (use inv in \<open>auto simp: db_errors\<close>)
  moreover have "\<exists>r b'. WebRtcNetEQ_DbRemove b c = Some (r, b') \<and> db_inv b'"
    using inv by (cases rule: remove_cases [of b c]) (use inv in auto)
  ultimately show ?thesis using inv by blast
qed

lemma codec_db_total_witness:
  "\<exists>r b'. WebRtcNetEQ_DbAdd WebRtcNetEQ_DbReset kDecoderPCMu 0 null_funcs 8000 = Some (r, b')
     \<and> db_inv b' \<and> r \<noteq> CODEC_DB_FULL"
  using codec_db_total [OF db_reachable.reset, of kDecoderPCMu 0 null_funcs 8000] by blast

text \<open>Adding a codec maps it to the new entry and changes no other codec, also when the
  codec was registered before and its old entry is removed from the middle of the table;
  afterwards its payload type resolves to it and it to its payload type.\<close>

theorem codec_add_registers:
  assumes "db_inv b" "WebRtcNetEQ_DbAdd b c pt f fs = Some (0, b')" "c \<noteq> kDecoderCNG"
  shows "db_abs b' = (db_abs b)(c \<mapsto> new_entry pt f fs)
    \<and> WebRtcNetEQ_DbGetCodec b' pt = Some c \<and> WebRtcNetEQ_DbGetPayload b' c = Some pt"
  using assms(1)
proof (cases rule: add_cases [of b c pt f fs])
  case (added b1)
  then have b': "db_inv b'" "db_abs b' = (db_abs b)(c \<mapsto> new_entry pt f fs)" using assms(2) by auto
  have c: "db_abs b' c = Some (new_entry pt f fs)" using b'(2) by simp
  then have "codec_ok c" by (auto simp: db_abs_def split: if_splits)
  with get_codec_iff [OF b'(1) c] get_payload_abs [OF b'(1)] b' c show ?thesis by (simp add: new_entry_def)
qed (use assms in auto)

definition db_example :: codec_db where
  "db_example = snd (the (WebRtcNetEQ_DbAdd WebRtcNetEQ_DbReset kDecoderILBC 102 null_funcs 8000))"

lemma db_example_inv: "db_inv db_example"
  "WebRtcNetEQ_DbAdd WebRtcNetEQ_DbReset kDecoderILBC 102 null_funcs 8000 = Some (0, db_example)"
proof -
  have "map_option fst (WebRtcNetEQ_DbAdd WebRtcNetEQ_DbReset kDecoderILBC 102 null_funcs 8000) = Some 0"
    by code_simp
  then show add: "WebRtcNetEQ_DbAdd WebRtcNetEQ_DbReset kDecoderILBC 102 null_funcs 8000 = Some (0, db_example)"
    by (auto simp: db_example_def)
  show "db_inv db_example" by (rule reachable_inv [OF db_reachable.add [OF db_reachable.reset add]])
qed

lemma codec_add_registers_witness:
  "db_abs db_example = (db_abs WebRtcNetEQ_DbReset)(kDecoderILBC \<mapsto> new_entry 102 null_funcs 8000)
    \<and> WebRtcNetEQ_DbGetCodec db_example 102 = Some kDecoderILBC
    \<and> WebRtcNetEQ_DbGetPayload db_example kDecoderILBC = Some 102"
  by (rule codec_add_registers [OF reset_inv(1) db_example_inv(2)]) simp

text \<open>Removing a codec removes it and nothing else: although the later entries of the
  table move down, every other codec keeps its payload type, functions and sample rate.\<close>

theorem codec_remove_unregisters:
  assumes "db_inv b" "WebRtcNetEQ_DbRemove b c = Some (0, b')"
  shows "db_inv b' \<and> db_abs b' = (db_abs b)(c := None)
    \<and> WebRtcNetEQ_DbGetPayload b' c = Some CODEC_DB_NOT_EXIST2
    \<and> (\<forall>d. codec_ok d \<longrightarrow> d \<noteq> c \<longrightarrow> WebRtcNetEQ_DbGetPayload b' d = WebRtcNetEQ_DbGetPayload b d
         \<and> WebRtcNetEQ_DbGetPtrs b' d old = WebRtcNetEQ_DbGetPtrs b d old)"
  using assms(1)
proof (cases rule: remove_cases [of b c])
  case (removed b1)
  then have b': "db_inv b'" "db_abs b' = (db_abs b)(c := None)" using assms(2) by auto
  then show ?thesis using removed(2) assms(1) by (simp add: get_payload_abs get_ptrs_abs)
qed (use assms in auto)

lemma codec_remove_unregisters_witness:
  "\<exists>b'. WebRtcNetEQ_DbRemove db_example kDecoderILBC = Some (0, b') \<and> db_inv b'
     \<and> db_abs b' = (db_abs db_example)(kDecoderILBC := None)
     \<and> WebRtcNetEQ_DbGetPayload b' kDecoderILBC = Some CODEC_DB_NOT_EXIST2
     \<and> (\<forall>d. codec_ok d \<longrightarrow> d \<noteq> kDecoderILBC \<longrightarrow>
          WebRtcNetEQ_DbGetPayload b' d = WebRtcNetEQ_DbGetPayload db_example d
          \<and> WebRtcNetEQ_DbGetPtrs b' d (null_funcs, 0) = WebRtcNetEQ_DbGetPtrs db_example d (null_funcs, 0))"
proof -
  have "map_option fst (WebRtcNetEQ_DbRemove db_example kDecoderILBC) = Some 0" by code_simp
  then obtain b' where "WebRtcNetEQ_DbRemove db_example kDecoderILBC = Some (0, b')" by auto
  from codec_remove_unregisters [OF db_example_inv(1) this] this show ?thesis by blast
qed

text \<open>A payload type registered for comfort noise at 48 kHz is accepted, but its sample
  rate is reported as 8 kHz, since only the 16 and 32 kHz rates have a place of their own.\<close>

theorem cng_48k_reports_8k:
  assumes "db_inv b" "WebRtcNetEQ_DbAdd b kDecoderCNG pt f 48000 = Some (0, b')" "pt \<noteq> -1"
    "\<forall>e. db_abs b kDecoderCNG = Some e \<longrightarrow> db_payloadType e \<ge> -1"
  shows "WebRtcNetEQ_DbGetSampleRate b' pt = Some 8000"
  using assms(1)
proof (cases rule: add_cases [of b kDecoderCNG pt f 48000])
  case (cng b1 p)
  then have "db_CNGpayloadType b' = (db_CNGpayloadType b)[0 := pt]"
    using assms(2,4) by (auto simp: db_errors)
  moreover obtain x xs where "db_CNGpayloadType b = x # xs"
    using db_inv_rules(3) [OF assms(1)] by (cases "db_CNGpayloadType b") auto
  ultimately show ?thesis using assms(3) by (simp add: WebRtcNetEQ_DbGetSampleRate_def)
qed (use assms in auto)

lemma cng_48k_reports_8k_witness:
  "\<exists>b'. WebRtcNetEQ_DbAdd WebRtcNetEQ_DbReset kDecoderCNG 105 null_funcs 48000 = Some (0, b')
     \<and> WebRtcNetEQ_DbGetSampleRate b' 105 = Some 8000"
proof -
  have "map_option fst (WebRtcNetEQ_DbAdd WebRtcNetEQ_DbReset kDecoderCNG 105 null_funcs 48000) = Some 0"
    by code_simp
  then obtain b' where b': "WebRtcNetEQ_DbAdd WebRtcNetEQ_DbReset kDecoderCNG 105 null_funcs 48000 = Some (0, b')"
    by auto
  have "WebRtcNetEQ_DbGetSampleRate b' 105 = Some 8000"
    by (rule cng_48k_reports_8k [OF reset_inv(1) b']) (simp_all add: reset_inv)
  with b' show ?thesis by blast
qed

end
