(* ===== verification/Packet_Size.thy ===== *)
theory Packet_Size
  imports Packet_Queue Codec_Db
begin

text \<open>
  The functions of \<open>neteq/packet_buffer.c\<close> that need to know about codecs: how much audio a
  packet and the whole buffer hold, and how large a buffer the registered codecs need.

  The duration estimate of a codec is reached through a function pointer;
  \<open>call_duration f state payload len\<close> stands for the call.
\<close>

section \<open>How much audio the buffer holds\<close>

definition WebRtcNetEQ_PacketBufferGetPacketSize ::
    "(int \<Rightarrow> int \<Rightarrow> byte list \<Rightarrow> int \<Rightarrow> int) \<Rightarrow> packet_buf \<Rightarrow> nat \<Rightarrow> codec_db \<Rightarrow> int \<Rightarrow> int \<Rightarrow> bool \<Rightarrow>
     int option" where
  "WebRtcNetEQ_PacketBufferGetPacketSize call_duration b buffer_pos db codec_pos last_duration av_sync = do {
     e \<leftarrow> geti (db_entries db) codec_pos;
     if funcDurationEst (db_funcs e) = 0 then Some last_duration
     else do {
       s \<leftarrow> get (pb_slots b) buffer_pos;
       let payload = drop (2 * sl_payloadLocation s) (pb_memory b)
       in if av_sync \<and> WebRtcNetEQ_IsSyncPayload payload (sl_payloadLengthBytes s)
          then Some last_duration
          else Some (call_duration (funcDurationEst (db_funcs e)) (codec_state (db_funcs e)) payload
                       (sl_payloadLengthBytes s)) } }"

text \<open>The loop over the slots; \<open>last\<close> is the last duration, codec position and payload type.\<close>

fun pb_sum_sizes ::
    "(int \<Rightarrow> int \<Rightarrow> byte list \<Rightarrow> int \<Rightarrow> int) \<Rightarrow> packet_buf \<Rightarrow> codec_db \<Rightarrow> bool \<Rightarrow> pslot list \<Rightarrow> nat \<Rightarrow>
     int \<times> int \<times> int \<Rightarrow> int \<Rightarrow> int option" where
  "pb_sum_sizes call_duration b db av_sync [] i lst size_samples = Some size_samples"
| "pb_sum_sizes call_duration b db av_sync (s # ss) i (last_duration, last_codec_pos, last_payload_type) size_samples =
     (if \<not> sl_used s
      then pb_sum_sizes call_duration b db av_sync ss (Suc i)
             (last_duration, last_codec_pos, last_payload_type) size_samples
      else do {
        codec_pos \<leftarrow> (if sl_payloadType s = last_payload_type then Some last_codec_pos
          else do {
            c \<leftarrow> WebRtcNetEQ_DbGetCodec db (sl_payloadType s);
            if c \<ge> 0 then geti (db_position db) c else Some c });
        dur \<leftarrow> (if codec_pos \<ge> 0
          then do {
            d \<leftarrow> WebRtcNetEQ_PacketBufferGetPacketSize call_duration b i db codec_pos last_duration av_sync;
            Some (if d \<ge> 0 then d else last_duration) }
          else Some last_duration);
        pb_sum_sizes call_duration b db av_sync ss (Suc i)
          (dur, codec_pos, sl_payloadType s) (size_samples + dur) })"

definition WebRtcNetEQ_PacketBufferGetSize ::
    "(int \<Rightarrow> int \<Rightarrow> byte list \<Rightarrow> int \<Rightarrow> int) \<Rightarrow> packet_buf \<Rightarrow> codec_db \<Rightarrow> bool \<Rightarrow> int option" where
  "WebRtcNetEQ_PacketBufferGetSize call_duration b db av_sync = do {
     size_samples \<leftarrow> pb_sum_sizes call_duration b db av_sync (pb_slots b) 0
                       (pb_packSizeSamples b, -1, -1) 0;
     Some (if size_samples < 0 then 0 else size_samples) }"

section \<open>How large a buffer the codecs need\<close>

text \<open>\<open>codecBytes\<close> and \<open>codecBuffers\<close> per codec; \<open>None\<close> for an unknown one.\<close>

definition codec_settings :: "int \<Rightarrow> (int \<times> int) option" where
  "codec_settings c =
     (if c = kDecoderPCMu \<or> c = kDecoderPCMu_2ch then Some (1680, 30)
      else if c = kDecoderPCMa \<or> c = kDecoderPCMa_2ch then Some (1680, 30)
      else if c = kDecoderILBC then Some (380, 10)
      else if c = kDecoderISAC then Some (960, 8)
      else if c = kDecoderISACswb \<or> c = kDecoderISACfb then Some (1560, 8)
      else if c = kDecoderOpus then Some (15300, 30)
      else if c = kDecoderPCM16B \<or> c = kDecoderPCM16B_2ch then Some (3360, 15)
      else if c = kDecoderPCM16Bwb \<or> c = kDecoderPCM16Bwb_2ch then Some (6720, 15)
      else if c = kDecoderPCM16Bswb32kHz \<or> c = kDecoderPCM16Bswb32kHz_2ch then Some (13440, 15)
      else if c = kDecoderPCM16Bswb48kHz then Some (20160, 15)
      else if c = kDecoderG722 \<or> c = kDecoderG722_2ch then Some (1680, 15)
      else if c = kDecoderRED then Some (0, 0)
      else if c = kDecoderAVT then Some (0, 0)
      else if c = kDecoderCNG then Some (0, 0)
      else if c = kDecoderG729 then Some (210, 20)
      else if c = kDecoderG729_1 then Some (840, 10)
      else if c = kDecoderG726_16 then Some (400, 10)
      else if c = kDecoderG726_24 then Some (600, 10)
      else if c = kDecoderG726_32 then Some (800, 10)
      else if c = kDecoderG726_40 then Some (1000, 10)
      else if c = kDecoderG722_1_16 then Some (420, 10)
      else if c = kDecoderG722_1_24 then Some (630, 10)
      else if c = kDecoderG722_1_32 then Some (840, 10)
      else if c = kDecoderG722_1C_24 then Some (630, 10)
      else if c = kDecoderG722_1C_32 then Some (840, 10)
      else if c = kDecoderG722_1C_48 then Some (1260, 10)
      else if c = kDecoderSPEEX_8 then Some (1250, 10)
      else if c = kDecoderSPEEX_16 then Some (1250, 10)
      else if c = kDecoderCELT_32 \<or> c = kDecoderCELT_32_2ch then Some (1250, 10)
      else if c = kDecoderGSMFR then Some (340, 10)
      else if c = kDecoderAMR then Some (384, 10)
      else if c = kDecoderAMRWB then Some (744, 10)
      else if c = kDecoderArbitrary then Some (6720, 15)
      else None)"

text \<open>The result is the return value, \<open>*maxBytes\<close>, \<open>*maxSlots\<close> and \<open>*per_slot_overhead_bytes\<close>.\<close>

fun max_settings :: "int list \<Rightarrow> int \<times> int \<times> int \<Rightarrow> int \<times> int \<times> int" where
  "max_settings [] r = r"
| "max_settings (c # cs) (ok, maxBytes, maxSlots) = (case codec_settings c of
     Some (codecBytes, codecBuffers) \<Rightarrow>
       max_settings cs (ok, max maxBytes codecBytes, max maxSlots codecBuffers)
   | None \<Rightarrow> max_settings cs (CODEC_DB_UNKNOWN_CODEC, max maxBytes 0, max maxSlots 0))"

definition WebRtcNetEQ_GetDefaultCodecSettings :: "nat \<Rightarrow> int list \<Rightarrow> int \<times> int \<times> int \<times> int" where
  "WebRtcNetEQ_GetDefaultCodecSettings ptr_words codecIDs =
     (let (ok, maxBytes, maxSlots) = max_settings codecIDs (0, 0, 0);
          w16_tmp = 4 + 2 * int ptr_words + 2 + 2 + 2 + 2 + 4
      in (ok, maxBytes + w16_tmp * maxSlots, maxSlots, w16_tmp))"

section \<open>Properties\<close>

lemma max_settings_ge:
  assumes "max_settings cs (ok, B, S) = (ok', B', S')"
  shows "B \<le> B'" "S \<le> S'" "c \<in> set cs \<Longrightarrow> codec_settings c = Some (x, y) \<Longrightarrow> x \<le> B' \<and> y \<le> S'"
  using assms
  by (induction cs arbitrary: ok B S) (fastforce split: option.splits prod.splits)+

lemma codec_settings_small: "codec_settings c = Some (x, y) \<Longrightarrow> y \<le> 30"
  by (auto simp: codec_settings_def split: if_splits)

lemma max_settings_slots:
  "max_settings cs (ok, B, S) = (ok', B', S') \<Longrightarrow> S \<le> 30 \<Longrightarrow> S' \<le> 30"
proof (induction cs arbitrary: ok B S)
  case (Cons c cs)
  then show ?case
    by (auto split: option.splits prod.splits dest: codec_settings_small)
qed simp

lemma codec_settings_min: "codec_settings c = Some (x, y) \<Longrightarrow> 2 \<le> y \<Longrightarrow> 2 \<le> 2 * y \<and> 300 \<le> x + 20 * y"
  by (auto simp: codec_settings_def split: if_splits)

text \<open>A packet buffer of the recommended number of slots and bytes initialises, and its
  payload memory holds the largest payload of each of the given codecs.\<close>

theorem default_settings_suffice:
  assumes "WebRtcNetEQ_GetDefaultCodecSettings pw codecs = (ok, maxBytes, maxSlots, overhead)"
    "pw \<in> {2, 4}" "c \<in> set codecs" "codec_settings c = Some (bytes, slots)" "2 \<le> slots"
  shows "\<exists>b. WebRtcNetEQ_PacketBufferInit pw b0 maxSlots True (maxBytes div 2) = Some (0, b)
    \<and> bytes \<le> 2 * pb_memorySizeW16 b + 1 \<and> slots \<le> maxSlots \<and> pb_fifo b"
proof -
  obtain B where m: "max_settings codecs (0, 0, 0) = (ok, B, maxSlots)"
    and mb: "maxBytes = B + (16 + 2 * int pw) * maxSlots"
    using assms(1) by (auto simp: WebRtcNetEQ_GetDefaultCodecSettings_def Let_def split: prod.splits)
  note ge = max_settings_ge [OF m] and le30 = max_settings_slots [OF m]
  have c: "bytes \<le> B" "slots \<le> maxSlots" using ge(3) [OF assms(3,4)] by auto
  have half: "maxBytes div 2 = B div 2 + (8 + int pw) * maxSlots"
  proof -
    have "maxBytes = B + ((8 + int pw) * maxSlots) * 2" by (simp add: mb algebra_simps)
    then show ?thesis by simp
  qed
  have pw: "2 * maxSlots \<le> int pw * maxSlots" using assms(2,5) c(2) by auto
  have "300 \<le> B + 20 * maxSlots" using codec_settings_min [OF assms(4,5)] c by linarith
  then have "150 \<le> maxBytes div 2" using pw unfolding half by (simp add: algebra_simps)
  then have ini: "WebRtcNetEQ_PacketBufferInit pw b0 maxSlots True (maxBytes div 2) = Some (0,
      \<lparr>pb_packSizeSamples = 0, pb_initialized = True, pb_memory = replicate (2 * nat (B div 2)) 0,
       pb_memorySizeW16 = B div 2, pb_currentMemoryPos = 0, pb_numPacketsInBuffer = 0,
       pb_insertPosition = 0, pb_maxInsertPositions = nat maxSlots,
       pb_slots = replicate (nat maxSlots) (pb_zero_slot\<lparr>sl_payloadType := -1\<rparr>),
       pb_discardedPackets = 0\<rparr>)"
    using ge(1) c(2) assms(5) le30
    by (simp add: WebRtcNetEQ_PacketBufferInit_def PBUFFER_MIN_MEMORY_SIZE_def half mult.commute Let_def)
  show ?thesis using init_inv [OF ini] ini c by (intro exI conjI) auto
qed

lemma default_settings_suffice_witness:
  "\<exists>b. WebRtcNetEQ_PacketBufferInit 4 pb_blank 15 True ((3360 + 24 * 15) div 2) = Some (0, b)
    \<and> 3360 \<le> 2 * pb_memorySizeW16 b + 1 \<and> 15 \<le> (15 :: int) \<and> pb_fifo b"
  by (rule default_settings_suffice [of 4 "[kDecoderPCM16B, kDecoderRED]" 0 _ _ 24 kDecoderPCM16B])
     (simp_all add: WebRtcNetEQ_GetDefaultCodecSettings_def codec_settings_def)

lemma get_codec_total:
  assumes "db_inv db"
  shows "\<exists>c. WebRtcNetEQ_DbGetCodec db pt = Some c \<and> (0 \<le> c \<longrightarrow> codec_ok c)"
  using assms
  by (cases rule: get_codec_cases [where pt = pt])
     (auto simp: db_abs_def codec_ok_def db_errors split: if_splits)

definition no_duration :: "codec_db \<Rightarrow> bool" where
  "no_duration db \<longleftrightarrow> (\<forall>e \<in> set (db_entries db). funcDurationEst (db_funcs e) = 0)"

lemma packet_size_constant:
  assumes "no_duration db" "0 \<le> p" "p < int (length (db_entries db))"
  shows "WebRtcNetEQ_PacketBufferGetPacketSize f b i db p d av = Some d"
proof -
  have "db_entries db ! nat p \<in> set (db_entries db)" using assms(2,3) by (simp add: nat_less_iff)
  then show ?thesis using assms by (simp add: WebRtcNetEQ_PacketBufferGetPacketSize_def no_duration_def)
qed

lemma sum_sizes_constant:
  assumes "db_inv db" "no_duration db" "lc = -1 \<or> lc < int (length (db_entries db))" "0 \<le> d"
  shows "pb_sum_sizes f b db av ss i (d, lc, lp) sz = Some (sz + d * int (count_if sl_used ss))"
  using assms(3)
proof (induction ss arbitrary: i lc lp sz)
  case (Cons s ss)
  note inv = db_inv_rules [OF assms(1)]
  show ?case
  proof (cases "sl_used s")
    case True
    obtain c where c: "WebRtcNetEQ_DbGetCodec db (sl_payloadType s) = Some c" "0 \<le> c \<longrightarrow> codec_ok c"
      using get_codec_total [OF assms(1)] by metis
    define cp where "cp = (if sl_payloadType s = lp then lc else if 0 \<le> c then db_position db ! nat c else c)"
    have cpe: "(if sl_payloadType s = lp then Some lc
          else do { c \<leftarrow> WebRtcNetEQ_DbGetCodec db (sl_payloadType s);
                    if c \<ge> 0 then geti (db_position db) c else Some c }) = Some cp"
      using c codec_position [OF assms(1), of c] by (auto simp: cp_def)
    have lt: "cp < int (length (db_entries db))"
    proof -
      have "db_position db ! nat c < int NUM_TOTAL_CODECS" if "0 \<le> c"
        using inv(6) [of "nat c"] db_count [OF assms(1)] c(2) that
        by (cases "db_position db ! nat c = -1") (auto simp: codec_ok_def nat_less_iff)
      then show ?thesis using Cons.prems inv(2) by (auto simp: cp_def)
    qed
    have dur: "(if cp \<ge> 0 then do {
            e \<leftarrow> WebRtcNetEQ_PacketBufferGetPacketSize f b i db cp d av;
            Some (if e \<ge> 0 then e else d) } else Some d) = Some d"
      using packet_size_constant [OF assms(2) _ lt] assms(4) by auto
    show ?thesis
      unfolding pb_sum_sizes.simps cpe Option.bind_lunit dur
      using Cons.IH [of cp] lt True by (simp add: count_if_def algebra_simps)
  next
    case False
    then show ?thesis using Cons.IH [OF Cons.prems] by (simp add: count_if_def)
  qed
qed (simp add: count_if_def)

text \<open>When no codec estimates durations, the buffer size in samples is the size of the last
  decoded packet times the number of packets in the buffer.\<close>

theorem buffer_size_uniform:
  assumes "pb_inv b" "db_inv db" "no_duration db" "0 \<le> pb_packSizeSamples b"
  shows "WebRtcNetEQ_PacketBufferGetSize f b db av
    = Some (pb_packSizeSamples b * pb_numPacketsInBuffer b)"
proof -
  have "pb_numPacketsInBuffer b = int (count_if sl_used (pb_slots b))" using assms(1) by (simp add: pb_inv_def)
  moreover have "0 \<le> pb_packSizeSamples b * int (count_if sl_used (pb_slots b))" using assms(4) by simp
  ultimately show ?thesis
    using sum_sizes_constant [OF assms(2,3) _ assms(4), of "-1" f b av "pb_slots b" 0 "-1" 0]
    by (simp add: WebRtcNetEQ_PacketBufferGetSize_def)
qed

lemma buffer_size_uniform_witness:
  "WebRtcNetEQ_PacketBufferGetSize (\<lambda>f s p n. 0) (pb_example1\<lparr>pb_packSizeSamples := 160\<rparr>)
     WebRtcNetEQ_DbReset False
   = Some (pb_packSizeSamples (pb_example1\<lparr>pb_packSizeSamples := 160\<rparr>)
           * pb_numPacketsInBuffer (pb_example1\<lparr>pb_packSizeSamples := 160\<rparr>))"
proof (rule buffer_size_uniform)
  obtain fl where "WebRtcNetEQ_PacketBufferInsert pb_example (pb_cx_packet 7 9 5) False = Some (0, fl, pb_example1)"
    and inv: "pb_inv pb_example1"
    using insert_inv [OF pb_example_inv(1) pb_cx_fits] by (metis option.sel pb_example1_def snd_conv)
  then show "pb_inv (pb_example1\<lparr>pb_packSizeSamples := 160\<rparr>)" by (simp add: pb_inv_def)
  show "no_duration WebRtcNetEQ_DbReset"
    by (simp add: no_duration_def WebRtcNetEQ_DbReset_def empty_entry_def null_funcs_def)
qed (simp_all add: reset_inv)

end
