(* ===== verification/Rtcp.thy ===== *)
theory Rtcp
  imports Neteq_Prelude
begin

text \<open>
  RTCP receiver statistics, \<open>neteq/rtcp.c\<close>: the extended highest sequence number, the
  packets lost and the interarrival jitter of a received RTP stream.  All fields but
  \<open>transit\<close> are unsigned and wrap at their width.
\<close>

section \<open>State and operations\<close>

record rtcp =
  rtcp_cycles :: int
  rtcp_max_seq :: int
  rtcp_base_seq :: int
  rtcp_received :: int
  rtcp_rec_prior :: int
  rtcp_exp_prior :: int
  rtcp_jitter :: int
  rtcp_transit :: int

definition WebRtcNetEQ_RTCPInit :: "int \<Rightarrow> rtcp" where
  "WebRtcNetEQ_RTCPInit uw16_seqNo = \<lparr>rtcp_cycles = 0, rtcp_max_seq = uw16_seqNo,
     rtcp_base_seq = uw16_seqNo, rtcp_received = 0, rtcp_rec_prior = 0, rtcp_exp_prior = 0,
     rtcp_jitter = 0, rtcp_transit = 0\<rparr>"

text \<open>The jitter filter: the difference of two transit times, and the estimate in Q4.\<close>

definition rtcp_filter_jitter :: "int \<Rightarrow> int \<Rightarrow> int" where
  "rtcp_filter_jitter w32_TimeDiff jitter =
     (let w32_TimeDiff = (if w32_TimeDiff \<ge> 0 then w32_TimeDiff else s32 (- w32_TimeDiff));
          w32_JitterDiff = s32 (shl w32_TimeDiff 4 - jitter)
      in u32 (jitter + shr (s32 (w32_JitterDiff + 8)) 4))"

definition WebRtcNetEQ_RTCPUpdate :: "rtcp \<Rightarrow> int \<Rightarrow> int \<Rightarrow> int \<Rightarrow> rtcp" where
  "WebRtcNetEQ_RTCPUpdate r uw16_seqNo uw32_timeStamp uw32_recTime =
     (let r = r\<lparr>rtcp_received := u32 (rtcp_received r + 1)\<rparr>;
          w16_SeqDiff = s16 (uw16_seqNo - rtcp_max_seq r);
          r = (if w16_SeqDiff \<ge> 0
               then r\<lparr>rtcp_cycles := (if uw16_seqNo < rtcp_max_seq r
                                      then u16 (rtcp_cycles r + 1) else rtcp_cycles r),
                      rtcp_max_seq := uw16_seqNo\<rparr>
               else r);
          r = (if rtcp_received r > 1
               then r\<lparr>rtcp_jitter := rtcp_filter_jitter
                        (s32 (uw32_recTime - (uw32_timeStamp - rtcp_transit r))) (rtcp_jitter r)\<rparr>
               else r)
      in r\<lparr>rtcp_transit := s32 (uw32_timeStamp - uw32_recTime)\<rparr>)"

record rtcp_stats =
  st_fraction_lost :: int
  st_cum_lost :: int
  st_ext_max :: int
  st_jitter :: int

definition WebRtcNetEQ_RTCPGetStats :: "rtcp \<Rightarrow> bool \<Rightarrow> rtcp_stats \<times> rtcp" where
  "WebRtcNetEQ_RTCPGetStats r doNotReset =
     (let ext_max = u32 (shl (rtcp_cycles r) 16 + rtcp_max_seq r);
          uw32_exp_nr = u32 (ext_max - rtcp_base_seq r + 1);
          cum_lost = (if rtcp_received r = 0 then 0
                      else if uw32_exp_nr > rtcp_received r
                      then (let lost = u32 (uw32_exp_nr - rtcp_received r)
                            in if lost > 0xFFFFFF then 0xFFFFFF else lost)
                      else 0);
          uw32_exp_interval = u32 (uw32_exp_nr - rtcp_exp_prior r);
          uw32_rec_interval = u32 (rtcp_received r - rtcp_rec_prior r);
          r' = (if \<not> doNotReset
                then r\<lparr>rtcp_exp_prior := uw32_exp_nr, rtcp_rec_prior := rtcp_received r\<rparr> else r);
          w32_lost = s32 (uw32_exp_interval - uw32_rec_interval);
          fraction = (if uw32_exp_interval = 0 \<or> w32_lost \<le> 0 \<or> rtcp_received r = 0 then 0
                      else u16 (u32 (shl w32_lost 8) div uw32_exp_interval));
          fraction = (if fraction > 0xFF then 0xFF else fraction)
      in (\<lparr>st_fraction_lost = fraction, st_cum_lost = cum_lost, st_ext_max = ext_max,
           st_jitter = shr (rtcp_jitter r) 4\<rparr>, r'))"

section \<open>The extended sequence number\<close>

text \<open>
  A sender numbers its packets 0, 1, 2, \dots without wrapping and sends the low 16 bits.
  \<open>rtcp_tracks\<close> says that the state holds the highest number \<open>M\<close> seen so far and has counted
  \<open>n\<close> packets since the first one, numbered \<open>B\<close>.
\<close>

definition rtcp_tracks :: "rtcp \<Rightarrow> int \<Rightarrow> int \<Rightarrow> int \<Rightarrow> bool" where
  "rtcp_tracks r B M n \<longleftrightarrow> 0 \<le> B \<and> B < 65536 \<and> B \<le> M \<and> M < 4294967296
     \<and> 0 \<le> n \<and> n < 4294967296 \<and> rtcp_base_seq r = B \<and> rtcp_received r = n
     \<and> rtcp_cycles r = M div 65536 \<and> rtcp_max_seq r = M mod 65536"

lemma seq_diff:
  fixes u M :: int
  assumes "-32768 \<le> u - M" "u - M < 32768"
  shows "s16 (u mod 65536 - M mod 65536) = u - M"
proof -
  have "s16 (u mod 65536 - M mod 65536) = s16 (u - M)"
    unfolding s16_def by (metis mod_add_left_eq mod_diff_eq)
  with assms show ?thesis by (simp add: s16_id)
qed

lemma next_cycle:
  fixes u M :: int
  assumes "0 \<le> M" "M \<le> u" "u - M < 32768"
  shows "u div 65536 = (if u mod 65536 < M mod 65536 then M div 65536 + 1 else M div 65536)"
proof -
  define q where "q = u div 65536 - M div 65536"
  have e: "u - M = 65536 * q + (u mod 65536 - M mod 65536)"
    unfolding q_def right_diff_distrib
    using mult_div_mod_eq [of 65536 u] mult_div_mod_eq [of 65536 M] by linarith
  have r: "0 \<le> u mod 65536" "u mod 65536 < 65536" "0 \<le> M mod 65536" "M mod 65536 < 65536" by simp_all
  have "0 \<le> q" "q \<le> 1" using e r assms by linarith+
  then have "q = 0 \<or> q = 1" by linarith
  then show ?thesis using e r assms by (auto simp: q_def)
qed

lemma update_tracks:
  assumes "rtcp_tracks r B M n" "-32768 \<le> u - M" "u - M < 32768" "u < 4294967296" "n + 1 < 4294967296"
  shows "rtcp_tracks (WebRtcNetEQ_RTCPUpdate r (u mod 65536) ts rec) B (max M u) (n + 1)"
proof -
  let ?r = "WebRtcNetEQ_RTCPUpdate r (u mod 65536) ts rec"
  note t = assms(1) [unfolded rtcp_tracks_def]
  have d: "s16 (u mod 65536 - rtcp_max_seq r) = u - M"
    using t seq_diff [OF assms(2,3)] by simp
  have n: "u32 (n + 1) = n + 1" using t assms(5) by (intro u32_id) auto
  have fields: "rtcp_base_seq ?r = B" "rtcp_received ?r = n + 1"
    "rtcp_max_seq ?r = (if u - M \<ge> 0 then u mod 65536 else M mod 65536)"
    "rtcp_cycles ?r = (if u - M \<ge> 0 \<and> u mod 65536 < M mod 65536 then u16 (M div 65536 + 1) else M div 65536)"
    using t d n by (auto simp: WebRtcNetEQ_RTCPUpdate_def Let_def)
  show ?thesis
  proof (cases "M \<le> u")
    case True
    have "u div 65536 = (if u mod 65536 < M mod 65536 then M div 65536 + 1 else M div 65536)"
      using t True assms(3) by (intro next_cycle) auto
    moreover have "u div 65536 < 65536" "0 \<le> M div 65536" using assms(4) t by auto
    ultimately have "rtcp_cycles ?r = u div 65536"
      using True fields(4) by (auto simp: u16_id)
    then show ?thesis using t True assms(4,5) fields by (simp add: rtcp_tracks_def max_def)
  next
    case False
    then show ?thesis using t fields assms(5) by (simp add: rtcp_tracks_def)
  qed
qed

text \<open>A stream of unwrapped numbers, each within half the number space of the highest.\<close>

fun rtcp_stream :: "int \<Rightarrow> (int \<times> int \<times> int) list \<Rightarrow> bool" where
  "rtcp_stream M [] = True"
| "rtcp_stream M ((u, ts, rec) # ps) \<longleftrightarrow>
     -32768 \<le> u - M \<and> u - M < 32768 \<and> u < 4294967296 \<and> rtcp_stream (max M u) ps"

fun rtcp_receive :: "rtcp \<Rightarrow> (int \<times> int \<times> int) list \<Rightarrow> rtcp" where
  "rtcp_receive r [] = r"
| "rtcp_receive r ((u, ts, rec) # ps) = rtcp_receive (WebRtcNetEQ_RTCPUpdate r (u mod 65536) ts rec) ps"

lemma receive_tracks:
  "rtcp_tracks r B M n \<Longrightarrow> rtcp_stream M ps \<Longrightarrow> n + int (length ps) < 4294967296 \<Longrightarrow>
   rtcp_tracks (rtcp_receive r ps) B (fold max (map fst ps) M) (n + int (length ps))"
proof (induction ps arbitrary: r M n)
  case (Cons p ps)
  obtain u ts rec where p: "p = (u, ts, rec)" by (cases p) auto
  have "rtcp_tracks (WebRtcNetEQ_RTCPUpdate r (u mod 65536) ts rec) B (max M u) (n + 1)"
    using Cons.prems by (intro update_tracks) (auto simp: p)
  from Cons.IH [OF this] Cons.prems show ?case by (simp add: p max.commute algebra_simps)
qed simp

lemma init_tracks: "0 \<le> B \<Longrightarrow> B < 65536 \<Longrightarrow> rtcp_tracks (WebRtcNetEQ_RTCPInit B) B B 0"
  by (simp add: rtcp_tracks_def WebRtcNetEQ_RTCPInit_def)

lemma stats_tracked:
  assumes "rtcp_tracks r B M n" "0 < n" "M < 4294967295"
  shows "st_ext_max (fst (WebRtcNetEQ_RTCPGetStats r d)) = M"
    "st_cum_lost (fst (WebRtcNetEQ_RTCPGetStats r d)) = min 0xFFFFFF (max 0 (M - B + 1 - n))"
proof -
  note t = assms(1) [unfolded rtcp_tracks_def]
  have M: "u32 (shl (rtcp_cycles r) 16 + rtcp_max_seq r) = M"
    using t by (simp add: push_bit_eq_mult u32_id)
  then have M': "u32 (shl (M div 65536) 16 + M mod 65536) = M" using t by simp
  from M show "st_ext_max (fst (WebRtcNetEQ_RTCPGetStats r d)) = M"
    by (simp add: WebRtcNetEQ_RTCPGetStats_def Let_def)
  show "st_cum_lost (fst (WebRtcNetEQ_RTCPGetStats r d)) = min 0xFFFFFF (max 0 (M - B + 1 - n))"
  proof -
    have "u32 (M - B + 1) = M - B + 1" using t assms(3) by (intro u32_id) auto
    moreover have "u32 (M - B + 1 - n) = M - B + 1 - n" if "n < M - B + 1"
      using t that assms(3) by (intro u32_id) auto
    ultimately show ?thesis
      using t assms(2) M' by (auto simp: WebRtcNetEQ_RTCPGetStats_def Let_def)
  qed
qed

text \<open>C37: After any stream of packets whose numbers jump by less than half the number space,
  with losses, duplicates and reordering, the reported extended maximum is the highest number
  sent so far, however often the 16-bit sequence number wrapped, and the reported cumulative
  loss is the number of packets expected less the number received, clipped to 0 and 0xFFFFFF.\<close>

theorem rtcp_counts_losses:
  assumes "0 \<le> B" "B < 65536" "rtcp_stream B ps" "ps \<noteq> []" "length ps < 4294967296"
    "fold max (map fst ps) B < 4294967295"
  defines "r \<equiv> rtcp_receive (WebRtcNetEQ_RTCPInit B) ps" and "M \<equiv> fold max (map fst ps) B"
  shows "st_ext_max (fst (WebRtcNetEQ_RTCPGetStats r d)) = M
    \<and> st_cum_lost (fst (WebRtcNetEQ_RTCPGetStats r d)) = min 0xFFFFFF (max 0 (M - B + 1 - int (length ps)))"
proof -
  have "rtcp_tracks r B M (0 + int (length ps))"
    unfolding r_def M_def using assms(1-5) by (intro receive_tracks init_tracks) auto
  from stats_tracked [OF this] assms(4,6) show ?thesis by (simp add: M_def)
qed

lemma rtcp_counts_losses_witness:
  "st_ext_max (fst (WebRtcNetEQ_RTCPGetStats
      (rtcp_receive (WebRtcNetEQ_RTCPInit 65534) [(65534, 0, 0), (65537, 480, 480), (65536, 320, 490)]) True))
     = fold max (map fst [(65534, 0, 0), (65537, 480, 480), (65536, 320, 490 :: int) :: int \<times> int \<times> int]) 65534
   \<and> st_cum_lost (fst (WebRtcNetEQ_RTCPGetStats
      (rtcp_receive (WebRtcNetEQ_RTCPInit 65534) [(65534, 0, 0), (65537, 480, 480), (65536, 320, 490)]) True))
     = min 0xFFFFFF (max 0 (fold max (map fst [(65534, 0, 0), (65537, 480, 480), (65536, 320, 490 :: int) :: int \<times> int \<times> int]) 65534
          - 65534 + 1 - int (length [(65534, 0, 0), (65537, 480, 480), (65536, 320, 490 :: int) :: int \<times> int \<times> int])))"
  by (rule rtcp_counts_losses) (simp_all add: max_def)

section \<open>Jitter\<close>

text \<open>The jitter estimate stays between zero and the largest change of transit time it was
  fed with: no update overflows or leaves that range.\<close>

theorem rtcp_jitter_bounded:
  assumes "0 \<le> j" "j \<le> 16 * b" "\<bar>d\<bar> \<le> b" "b < 67108864"
  shows "0 \<le> rtcp_filter_jitter d j \<and> rtcp_filter_jitter d j \<le> 16 * b"
proof -
  let ?D = "\<bar>d\<bar>"
  have abs: "(if d \<ge> 0 then d else s32 (- d)) = ?D"
    using assms by (auto simp: s32_id)
  have diff: "s32 (shl ?D 4 - j) = 16 * ?D - j"
    using assms by (simp add: push_bit_eq_mult s32_id)
  have diff8: "s32 (16 * ?D - j + 8) = 16 * ?D - j + 8"
    using assms by (intro s32_id) linarith+
  define q where "q = (16 * ?D - j + 8) div 16"
  have q: "16 * q \<le> 16 * ?D - j + 8" "16 * ?D - j + 8 < 16 * q + 16"
    unfolding q_def using mult_div_mod_eq [of 16 "16 * ?D - j + 8"]
      pos_mod_bound [of 16 "16 * ?D - j + 8"] pos_mod_sign [of 16 "16 * ?D - j + 8"] by linarith+
  have "0 \<le> j + q" "j + q \<le> 16 * b" using q assms by linarith+
  moreover have "rtcp_filter_jitter d j = u32 (j + q)"
    unfolding rtcp_filter_jitter_def Let_def abs diff diff8 by (simp add: shr_eq_div q_def)
  ultimately show ?thesis using assms(4) by (simp add: u32_id)
qed

lemma rtcp_jitter_bounded_witness: "0 \<le> rtcp_filter_jitter (-40) 100 \<and> rtcp_filter_jitter (-40) 100 \<le> 16 * 40"
  by (rule rtcp_jitter_bounded) simp_all

section \<open>Fraction lost\<close>

text \<open>Between two reports, the fraction lost is the number of packets lost as an eighth-bit
  fraction of those expected, rounded down and at most 255, and 0 when nothing was expected or
  duplicates outnumber losses; and the next report starts from the present counters.\<close>

theorem rtcp_fraction_lost:
  assumes "rtcp_tracks r B M n" "0 < n" "rtcp_exp_prior r = E" "rtcp_rec_prior r = R"
    "0 \<le> E" "E \<le> M - B + 1" "0 \<le> R" "R \<le> n" "M - B + 1 - E < 8388608" "n - R < 8388608"
    "M - B + 1 < 4294967296"
  shows "st_fraction_lost (fst (WebRtcNetEQ_RTCPGetStats r d))
     = (let expected = M - B + 1 - E; lost = expected - (n - R)
        in if lost \<le> 0 then 0 else min 255 (256 * lost div expected))
    \<and> snd (WebRtcNetEQ_RTCPGetStats r False) = r\<lparr>rtcp_exp_prior := M - B + 1, rtcp_rec_prior := n\<rparr>"
proof -
  note t = assms(1) [unfolded rtcp_tracks_def]
  let ?e = "M - B + 1 - E" and ?l = "M - B + 1 - E - (n - R)"
  have M: "u32 (shl (rtcp_cycles r) 16 + rtcp_max_seq r) = M"
    using t by (simp add: push_bit_eq_mult u32_id)
  have exp: "u32 (M - B + 1) = M - B + 1" using t assms(11) by (intro u32_id) auto
  have e: "u32 ?e = ?e" using assms by (intro u32_id) auto
  have rec: "u32 (n - R) = n - R" using assms by (intro u32_id) auto
  have l: "s32 ?l = ?l" using assms by (intro s32_id) linarith+
  have frac: "u16 (u32 (shl ?l 8) div ?e) = 256 * ?l div ?e" if "0 < ?l"
  proof -
    have e0: "0 < ?e" using that assms(8) by linarith
    have "u32 (shl ?l 8) = 256 * ?l" using that assms by (simp add: push_bit_eq_mult u32_id)
    moreover have "256 * ?l div ?e \<le> 256 * ?e div ?e" using e0 assms(8) by (intro zdiv_mono1) auto
    moreover have "256 * e div e = 256" if "0 < e" for e :: int using that by simp
    note this [OF e0]
    moreover have "0 \<le> 256 * ?l div ?e" using that e0 by (simp add: pos_imp_zdiv_nonneg_iff)
    ultimately show ?thesis by (simp add: u16_id)
  qed
  have "st_fraction_lost (fst (WebRtcNetEQ_RTCPGetStats r d))
     = (let f = (if ?e = 0 \<or> ?l \<le> 0 then 0 else u16 (u32 (shl ?l 8) div ?e)) in if f > 0xFF then 0xFF else f)"
    using t assms(2-4) M exp e rec l by (simp add: WebRtcNetEQ_RTCPGetStats_def Let_def)
  moreover have "snd (WebRtcNetEQ_RTCPGetStats r False) = r\<lparr>rtcp_exp_prior := M - B + 1, rtcp_rec_prior := n\<rparr>"
    using t M exp by (simp add: WebRtcNetEQ_RTCPGetStats_def Let_def)
  ultimately show ?thesis using frac assms(8) by (auto simp: Let_def min_def)
qed

lemma rtcp_fraction_lost_witness:
  "st_fraction_lost (fst (WebRtcNetEQ_RTCPGetStats
      (WebRtcNetEQ_RTCPUpdate (WebRtcNetEQ_RTCPInit 10) 13 0 0) True))
     = (let expected = 13 - 10 + 1 - 0; lost = expected - (1 - 0)
        in if lost \<le> 0 then 0 else min 255 (256 * lost div expected))
   \<and> snd (WebRtcNetEQ_RTCPGetStats (WebRtcNetEQ_RTCPUpdate (WebRtcNetEQ_RTCPInit 10) 13 0 0) False)
     = (WebRtcNetEQ_RTCPUpdate (WebRtcNetEQ_RTCPInit 10) 13 0 0)\<lparr>rtcp_exp_prior := 13 - 10 + 1, rtcp_rec_prior := 1\<rparr>"
  by (rule rtcp_fraction_lost)
     (simp_all add: rtcp_tracks_def WebRtcNetEQ_RTCPUpdate_def WebRtcNetEQ_RTCPInit_def u32_def s16_def Let_def)

end
