(* ===== verification/Dtmf_Buffer.thy ===== *)
theory Dtmf_Buffer
  imports Neteq_Rtp
begin

text \<open>
  The queue of telephone events of \<open>neteq/dtmf_buffer.c\<close>: up to four DTMF events, each with a
  volume, a start and an end timestamp and a flag saying that its end packet has arrived.
  The five arrays of the instance are one list with a record per event.
\<close>

section \<open>State and operations\<close>

record dtmf_event =
  ev_value :: int
  ev_volume :: int
  ev_ended :: int
  ev_start :: int
  ev_end :: int

record dtmf_inst =
  dtmf_MaxPLCtime :: int
  dtmf_CurrentPLCtime :: int
  dtmf_queue :: "dtmf_event list"
  dtmf_EventBufferSize :: int
  dtmf_framelen :: int

abbreviation (input) MAX_DTMF_QUEUE_SIZE :: int where "MAX_DTMF_QUEUE_SIZE \<equiv> 4"

definition DTMF_DEC_PARAMETER_ERROR :: int where "DTMF_DEC_PARAMETER_ERROR = -6001"
definition DTMF_INSERT_ERROR :: int where "DTMF_INSERT_ERROR = -6002"

definition no_event :: dtmf_event where
  "no_event = \<lparr>ev_value = -1, ev_volume = 0, ev_ended = 0, ev_start = 0, ev_end = 0\<rparr>"

definition WebRtcNetEQ_DtmfRemoveEvent :: "dtmf_inst \<Rightarrow> dtmf_inst" where
  "WebRtcNetEQ_DtmfRemoveEvent d =
     d\<lparr>dtmf_queue := tl (dtmf_queue d) @ [no_event],
       dtmf_EventBufferSize := dtmf_EventBufferSize d - 1\<rparr>"

definition WebRtcNetEQ_DtmfDecoderInit :: "dtmf_inst \<Rightarrow> int \<Rightarrow> int \<Rightarrow> int \<times> dtmf_inst" where
  "WebRtcNetEQ_DtmfDecoderInit d fs MaxPLCtime =
     (if (fs \<noteq> 8000 \<and> fs \<noteq> 16000 \<and> fs \<noteq> 32000 \<and> fs \<noteq> 48000) \<or> MaxPLCtime < 0
      then (DTMF_DEC_PARAMETER_ERROR, d)
      else (0, \<lparr>dtmf_MaxPLCtime = MaxPLCtime, dtmf_CurrentPLCtime = 0,
                dtmf_queue = replicate 4 no_event, dtmf_EventBufferSize = 0,
                dtmf_framelen = (if fs = 8000 then 80 else if fs = 16000 then 160
                                 else if fs = 32000 then 320 else 480)\<rparr>))"

text \<open>The last of the first \<open>n\<close> events with this value that is not ended, or any if the packet
  ends the event.\<close>

fun dtmf_find :: "dtmf_event list \<Rightarrow> int \<Rightarrow> bool \<Rightarrow> nat \<Rightarrow> nat option \<Rightarrow> nat option" where
  "dtmf_find [] val endEvent i position = position"
| "dtmf_find (e # es) val endEvent i position =
     dtmf_find es val endEvent (Suc i)
       (if ev_value e = val \<and> (ev_ended e = 0 \<or> endEvent) then Some i else position)"

definition dtmf_insert :: "dtmf_inst \<Rightarrow> int \<Rightarrow> int \<Rightarrow> int \<Rightarrow> int \<Rightarrow> int \<Rightarrow> dtmf_inst option" where
  "dtmf_insert d val Volume endEvent Duration timeStamp =
     (case dtmf_find (take (nat (dtmf_EventBufferSize d)) (dtmf_queue d)) val (endEvent \<noteq> 0) 0 None of
        Some position \<Rightarrow> do {
          e \<leftarrow> get (dtmf_queue d) position;
          let e' = e\<lparr>ev_volume := Volume,
                     ev_end := (if u32 (timeStamp + Duration) > ev_end e
                                then u32 (ev_start e + Duration) else ev_end e),
                     ev_ended := (if endEvent \<noteq> 0 then 1 else ev_ended e)\<rparr>
          in Some (d\<lparr>dtmf_queue := (dtmf_queue d)[position := e']\<rparr>) }
      | None \<Rightarrow>
          let n = (if dtmf_EventBufferSize d = MAX_DTMF_QUEUE_SIZE
                   then dtmf_EventBufferSize d - 1 else dtmf_EventBufferSize d)
          in do {
            _ \<leftarrow> (if n < 0 then None else Some ());
            q \<leftarrow> put (dtmf_queue d) (nat n) \<lparr>ev_value = val, ev_volume = Volume, ev_ended = endEvent,
                   ev_start = timeStamp, ev_end = u32 (timeStamp + Duration)\<rparr>;
            Some (d\<lparr>dtmf_queue := q, dtmf_EventBufferSize := n + 1\<rparr>) })"

definition WebRtcNetEQ_DtmfInsertEvent ::
    "dtmf_inst \<Rightarrow> byte list \<Rightarrow> int \<Rightarrow> int \<Rightarrow> (int \<times> dtmf_inst) option" where
  "WebRtcNetEQ_DtmfInsertEvent d encoded len timeStamp =
     (if len \<noteq> 4 then Some (DTMF_INSERT_ERROR, d)
      else do {
        w0 \<leftarrow> rd_w16 encoded 0;
        w1 \<leftarrow> rd_w16 encoded 1;
        let val = w0 AND 0xFF;
            endEvent = shr (w0 AND 0x8000) 15;
            Volume = shr (w0 AND 0x3F00) 8;
            Duration = s16 ((shr (u16 w1) 8 AND 0xFF) OR shl (u16 (w1 AND 0xFF)) 8)
        in if val < 0 \<or> val > 15 then Some (0, d)
           else if Volume > 36 then Some (0, d)
           else do { d' \<leftarrow> dtmf_insert d val Volume endEvent Duration timeStamp; Some (0, d') } })"

text \<open>
  The result is the return value, the event and volume when they are set, and the instance.
\<close>

definition WebRtcNetEQ_DtmfDecode ::
    "dtmf_inst \<Rightarrow> int \<Rightarrow> (int \<times> (int \<times> int) option \<times> dtmf_inst) option" where
  "WebRtcNetEQ_DtmfDecode d currTimeStamp =
     (if dtmf_EventBufferSize d < 1 then Some (0, None, d)
      else do {
        e \<leftarrow> get (dtmf_queue d) 0;
        if currTimeStamp < ev_start e then Some (0, None, d)
        else let out = Some (ev_value e, ev_volume e);
                 frame_end = u32 (currTimeStamp + dtmf_framelen d)
          in if ev_end e \<ge> frame_end
             then let d = d\<lparr>dtmf_CurrentPLCtime := 0\<rparr>;
                      d = (if ev_end e = frame_end \<and> ev_ended e \<noteq> 0
                           then WebRtcNetEQ_DtmfRemoveEvent d else d)
                  in Some (dtmf_framelen d, out, d)
             else do {
               e1 \<leftarrow> get (dtmf_queue d) 1;
               if ev_ended e \<noteq> 0 \<or> ev_value e1 > -1
               then Some (dtmf_framelen d, out,
                          (WebRtcNetEQ_DtmfRemoveEvent d)\<lparr>dtmf_CurrentPLCtime := 0\<rparr>)
               else let d = d\<lparr>dtmf_CurrentPLCtime := s16 (currTimeStamp - ev_end e)\<rparr>;
                        d = (if dtmf_CurrentPLCtime d > dtmf_MaxPLCtime d
                                \<or> dtmf_CurrentPLCtime d < - dtmf_MaxPLCtime d
                             then (WebRtcNetEQ_DtmfRemoveEvent d)\<lparr>dtmf_CurrentPLCtime := 0\<rparr>
                             else d)
                    in do {
                      e1 \<leftarrow> get (dtmf_queue d) 1;
                      let d = (if ev_value e1 > -1 \<and> ev_start e1 \<ge> frame_end
                               then (WebRtcNetEQ_DtmfRemoveEvent d)\<lparr>dtmf_CurrentPLCtime := 0\<rparr>
                               else d)
                      in Some (dtmf_framelen d, out, d) } } })"

section \<open>The queue as a list of events\<close>

definition ev_ok :: "dtmf_event \<Rightarrow> bool" where
  "ev_ok e \<longleftrightarrow> 0 \<le> ev_value e \<and> ev_value e \<le> 15 \<and> 0 \<le> ev_volume e \<and> ev_volume e \<le> 36
     \<and> ev_ended e \<in> {0, 1}"

text \<open>The first \<open>EventBufferSize\<close> entries are events, the others are empty.\<close>

definition dtmf_abs :: "dtmf_inst \<Rightarrow> dtmf_event list" where
  "dtmf_abs d = take (nat (dtmf_EventBufferSize d)) (dtmf_queue d)"

definition dtmf_inv :: "dtmf_inst \<Rightarrow> bool" where
  "dtmf_inv d \<longleftrightarrow> length (dtmf_abs d) \<le> 4 \<and> dtmf_EventBufferSize d = int (length (dtmf_abs d))
     \<and> dtmf_queue d = dtmf_abs d @ replicate (4 - length (dtmf_abs d)) no_event
     \<and> (\<forall>e \<in> set (dtmf_abs d). ev_ok e)"

lemma dtmf_invI:
  assumes "dtmf_queue d = es @ replicate (4 - length es) no_event"
    "dtmf_EventBufferSize d = int (length es)" "length es \<le> 4" "\<forall>e \<in> set es. ev_ok e"
  shows "dtmf_inv d" "dtmf_abs d = es"
proof -
  show "dtmf_abs d = es" using assms by (simp add: dtmf_abs_def)
  then show "dtmf_inv d" using assms by (simp add: dtmf_inv_def)
qed

lemma dtmf_shape:
  assumes "dtmf_inv d"
  shows "dtmf_queue d = dtmf_abs d @ replicate (4 - length (dtmf_abs d)) no_event"
    "dtmf_EventBufferSize d = int (length (dtmf_abs d))" "length (dtmf_abs d) \<le> 4"
    "\<forall>e \<in> set (dtmf_abs d). ev_ok e"
  using assms by (simp_all add: dtmf_inv_def)

lemma dtmf_init_inv:
  assumes "WebRtcNetEQ_DtmfDecoderInit d fs plc = (0, d')"
  shows "dtmf_inv d'" "dtmf_abs d' = []" "0 < dtmf_framelen d'"
  using assms dtmf_invI [of d' "[]"]
  by (auto simp: WebRtcNetEQ_DtmfDecoderInit_def DTMF_DEC_PARAMETER_ERROR_def split: if_splits)

lemma dtmf_remove:
  assumes "dtmf_inv d" "dtmf_abs d = e # es"
  shows "dtmf_inv (WebRtcNetEQ_DtmfRemoveEvent d)" "dtmf_abs (WebRtcNetEQ_DtmfRemoveEvent d) = es"
proof -
  note s = dtmf_shape [OF assms(1), unfolded assms(2)]
  have four: "4 - length es = Suc (3 - length es)" using s(3) by simp
  have "dtmf_queue (WebRtcNetEQ_DtmfRemoveEvent d) = es @ replicate (4 - length es) no_event"
    unfolding four using s(1) by (simp add: WebRtcNetEQ_DtmfRemoveEvent_def replicate_append_same)
  moreover have "dtmf_EventBufferSize (WebRtcNetEQ_DtmfRemoveEvent d) = int (length es)"
    using s(2) by (simp add: WebRtcNetEQ_DtmfRemoveEvent_def)
  ultimately show "dtmf_inv (WebRtcNetEQ_DtmfRemoveEvent d)" "dtmf_abs (WebRtcNetEQ_DtmfRemoveEvent d) = es"
    using dtmf_invI [of "WebRtcNetEQ_DtmfRemoveEvent d" es] s(3,4) by auto
qed

lemma dtmf_find_bound:
  "dtmf_find es v b i p = Some k \<Longrightarrow> p = Some k \<or> i \<le> k \<and> k < i + length es"
  by (induction es arbitrary: i p) (fastforce split: if_splits)+

text \<open>What an event packet does to the list of events.\<close>

definition ev_update :: "dtmf_event \<Rightarrow> int \<Rightarrow> int \<Rightarrow> int \<Rightarrow> int \<Rightarrow> dtmf_event" where
  "ev_update e Volume endEvent Duration timeStamp =
     e\<lparr>ev_volume := Volume,
       ev_end := (if u32 (timeStamp + Duration) > ev_end e then u32 (ev_start e + Duration) else ev_end e),
       ev_ended := (if endEvent \<noteq> 0 then 1 else ev_ended e)\<rparr>"

definition ev_new :: "int \<Rightarrow> int \<Rightarrow> int \<Rightarrow> int \<Rightarrow> int \<Rightarrow> dtmf_event" where
  "ev_new val Volume endEvent Duration timeStamp = \<lparr>ev_value = val, ev_volume = Volume,
     ev_ended = endEvent, ev_start = timeStamp, ev_end = u32 (timeStamp + Duration)\<rparr>"

lemma dtmf_insert_spec:
  assumes "dtmf_inv d" "0 \<le> val" "val \<le> 15" "0 \<le> vol" "vol \<le> 36" "fin \<in> {0, 1}"
  obtains d' where "dtmf_insert d val vol fin dur ts = Some d'" "dtmf_inv d'"
    "dtmf_abs d' = (case dtmf_find (dtmf_abs d) val (fin \<noteq> 0) 0 None of
       Some k \<Rightarrow> (dtmf_abs d)[k := ev_update (dtmf_abs d ! k) vol fin dur ts]
     | None \<Rightarrow> (if length (dtmf_abs d) = 4 then butlast (dtmf_abs d) else dtmf_abs d)
               @ [ev_new val vol fin dur ts])"
    "dtmf_framelen d' = dtmf_framelen d" "dtmf_MaxPLCtime d' = dtmf_MaxPLCtime d"
proof -
  let ?es = "dtmf_abs d"
  note s = dtmf_shape [OF assms(1)]
  have find: "take (nat (dtmf_EventBufferSize d)) (dtmf_queue d) = ?es" by (simp add: dtmf_abs_def)
  show thesis
  proof (cases "dtmf_find ?es val (fin \<noteq> 0) 0 None")
    case (Some k)
    have k: "k < length ?es" using dtmf_find_bound [OF Some] by auto
    let ?e = "ev_update (?es ! k) vol fin dur ts"
    let ?d = "d\<lparr>dtmf_queue := (dtmf_queue d)[k := ?e]\<rparr>"
    have q: "dtmf_queue d ! k = ?es ! k" "k < length (dtmf_queue d)"
      using k s(1) by (auto simp: nth_append)
    have upd: "(dtmf_queue d)[k := ?e] = ?es[k := ?e] @ replicate (4 - length (?es[k := ?e])) no_event"
      using s(1) k by (metis length_list_update list_update_append1)
    have ok: "ev_ok (?es ! k)" using s(4) k by simp
    then have "ev_ok ?e" using assms by (auto simp: ev_ok_def ev_update_def)
    then have inv: "dtmf_inv ?d" "dtmf_abs ?d = ?es[k := ?e]"
      using dtmf_invI [of ?d "?es[k := ?e]"] upd s(2-4) by (auto dest!: in_set_list_update)
    have "dtmf_insert d val vol fin dur ts = Some ?d"
      using Some q by (simp add: dtmf_insert_def find ev_update_def Let_def)
    then show thesis using inv Some by (intro that [of ?d]) auto
  next
    case None
    define es' where "es' = (if length ?es = 4 then butlast ?es else ?es)"
    let ?e = "ev_new val vol fin dur ts"
    let ?d = "d\<lparr>dtmf_queue := (dtmf_queue d)[length es' := ?e], dtmf_EventBufferSize := int (length es') + 1\<rparr>"
    have n: "length es' < 4" "\<forall>e \<in> set es'. ev_ok e" 
      using s(3,4) by (auto simp: es'_def dest: in_set_butlastD)
    have "(dtmf_queue d)[length es' := ?e] = es' @ ?e # replicate (3 - length es') no_event"
    proof (cases "length ?es = 4")
      case True
      then have "?es \<noteq> []" by auto
      with True have q: "dtmf_queue d = es' @ [last ?es]" and l: "length es' = 3"
        using s(1) append_butlast_last_id [of ?es] by (auto simp: es'_def simp del: append_butlast_last_id)
      have "(dtmf_queue d)[length es' := ?e] = es' @ [?e]"
        unfolding q using list_update_length [of es' "last ?es" "[]" ?e] by simp
      then show ?thesis using l by simp
    next
      case False
      then have "dtmf_queue d = es' @ replicate (4 - length es') no_event" using s(1) by (simp add: es'_def)
      moreover have "4 - length es' = Suc (3 - length es')" using n(1) by simp
      ultimately show ?thesis by simp
    qed
    then have upd: "(dtmf_queue d)[length es' := ?e] = (es' @ [?e]) @ replicate (4 - length (es' @ [?e])) no_event"
      by simp
    have "ev_ok ?e" using assms by (auto simp: ev_ok_def ev_new_def)
    then have inv: "dtmf_inv ?d" "dtmf_abs ?d = es' @ [?e]"
      using dtmf_invI [of ?d "es' @ [?e]"] upd n by auto
    have "(if dtmf_EventBufferSize d = MAX_DTMF_QUEUE_SIZE then dtmf_EventBufferSize d - 1
           else dtmf_EventBufferSize d) = int (length es')"
      using s(2) by (simp add: es'_def)
    moreover have "length es' < length (dtmf_queue d)" using n(1) s(1,3) by (metis length_append length_replicate add_diff_inverse_nat not_le le_add_diff_inverse)
    ultimately have "dtmf_insert d val vol fin dur ts = Some ?d"
      using None by (simp add: dtmf_insert_def find ev_new_def Let_def)
    then show thesis using inv None by (intro that [of ?d]) (auto simp: es'_def)
  qed
qed


text \<open>When the event at the head is done with, at playout time \<open>t\<close>.\<close>

definition ev_done :: "dtmf_inst \<Rightarrow> dtmf_event \<Rightarrow> dtmf_event list \<Rightarrow> int \<Rightarrow> bool" where
  "ev_done d e es t \<longleftrightarrow> (let frame_end = u32 (t + dtmf_framelen d); plc = s16 (t - ev_end e) in
     if ev_end e \<ge> frame_end then ev_end e = frame_end \<and> ev_ended e \<noteq> 0
     else ev_ended e \<noteq> 0 \<or> es \<noteq> [] \<or> plc > dtmf_MaxPLCtime d \<or> plc < - dtmf_MaxPLCtime d)"

lemma dtmf_inv_plc [simp]:
  "dtmf_inv (d\<lparr>dtmf_CurrentPLCtime := x\<rparr>) \<longleftrightarrow> dtmf_inv d"
  "dtmf_abs (d\<lparr>dtmf_CurrentPLCtime := x\<rparr>) = dtmf_abs d"
  by (simp_all add: dtmf_inv_def dtmf_abs_def)

lemma remove_plc [simp]:
  "WebRtcNetEQ_DtmfRemoveEvent (d\<lparr>dtmf_CurrentPLCtime := x\<rparr>) =
   (WebRtcNetEQ_DtmfRemoveEvent d)\<lparr>dtmf_CurrentPLCtime := x\<rparr>"
  by (simp add: WebRtcNetEQ_DtmfRemoveEvent_def)

lemma dtmf_second:
  assumes "dtmf_inv d" "dtmf_abs d = e # es"
  shows "get (dtmf_queue d) 0 = Some e" "length (dtmf_queue d) = 4"
    "get (dtmf_queue d) 1 = Some (case es of [] \<Rightarrow> no_event | e1 # _ \<Rightarrow> e1)"
    "(case es of [] \<Rightarrow> no_event | e1 # _ \<Rightarrow> e1) = no_event \<or> es \<noteq> []"
    "ev_value (case es of [] \<Rightarrow> no_event | e1 # _ \<Rightarrow> e1) > -1 \<longleftrightarrow> es \<noteq> []"
proof -
  note s = dtmf_shape [OF assms(1), unfolded assms(2)]
  show "get (dtmf_queue d) 0 = Some e" using s(1,3) by simp
  show len: "length (dtmf_queue d) = 4" unfolding s(1) using s(3) by simp
  show "get (dtmf_queue d) 1 = Some (case es of [] \<Rightarrow> no_event | e1 # _ \<Rightarrow> e1)"
    using s(1) len by (cases es) simp_all
  show "ev_value (case es of [] \<Rightarrow> no_event | e1 # _ \<Rightarrow> e1) > -1 \<longleftrightarrow> es \<noteq> []"
    using s(4) by (cases es) (auto simp: no_event_def ev_ok_def)
qed (cases es; simp)

lemma dtmf_decode_spec:
  assumes "dtmf_inv d" "dtmf_abs d = e # es" "ev_start e \<le> t"
  obtains d' where "WebRtcNetEQ_DtmfDecode d t = Some (dtmf_framelen d, Some (ev_value e, ev_volume e), d')"
    "dtmf_inv d'" "dtmf_abs d' = (if ev_done d e es t then es else e # es)"
    "dtmf_framelen d' = dtmf_framelen d"
proof -
  let ?fe = "u32 (t + dtmf_framelen d)" and ?rm = "WebRtcNetEQ_DtmfRemoveEvent d"
  note q = dtmf_second [OF assms(1,2)]
  note rm = dtmf_remove [OF assms(1,2)]
  have fl: "dtmf_framelen ?rm = dtmf_framelen d" "dtmf_MaxPLCtime ?rm = dtmf_MaxPLCtime d"
    by (simp_all add: WebRtcNetEQ_DtmfRemoveEvent_def)
  have size: "\<not> dtmf_EventBufferSize d < 1" "\<not> t < ev_start e"
    using dtmf_shape(2) [OF assms(1)] assms(2,3) by simp_all
  show thesis
  proof (cases "ev_end e \<ge> ?fe")
    case True
    then show thesis
      using size q(1) rm fl assms(1,2)
      by (intro that [of "(if ev_end e = ?fe \<and> ev_ended e \<noteq> 0 then ?rm else d)\<lparr>dtmf_CurrentPLCtime := 0\<rparr>"])
         (auto simp: WebRtcNetEQ_DtmfDecode_def Let_def ev_done_def)
  next
    case late: False
    show thesis
    proof (cases "ev_ended e \<noteq> 0 \<or> es \<noteq> []")
      case True
      then show thesis
        using size q late rm fl
        by (intro that [of "?rm\<lparr>dtmf_CurrentPLCtime := 0\<rparr>"])
           (simp_all add: WebRtcNetEQ_DtmfDecode_def Let_def ev_done_def)
    next
      case False
      define plc where "plc = s16 (t - ev_end e)"
      define gone where "gone \<longleftrightarrow> plc > dtmf_MaxPLCtime d \<or> plc < - dtmf_MaxPLCtime d"
      define d1 where "d1 = (if gone then ?rm\<lparr>dtmf_CurrentPLCtime := 0\<rparr> else d\<lparr>dtmf_CurrentPLCtime := plc\<rparr>)"
      have es: "es = []" and e: "ev_ended e = 0" using False by auto
      have d1: "dtmf_inv d1" "dtmf_abs d1 = (if gone then [] else [e])"
        using rm assms(1,2) es by (auto simp: d1_def)
      have second: "get (dtmf_queue d1) 1 = Some no_event"
        using dtmf_shape [OF d1(1)] d1(2) by (auto simp: eval_nat_numeral split: if_splits)
      have "WebRtcNetEQ_DtmfDecode d t = Some (dtmf_framelen d1, Some (ev_value e, ev_volume e), d1)"
      proof (cases gone)
        case True
        then have "get (dtmf_queue ?rm) 1 = Some no_event" using second by (simp add: d1_def del: get_Some)
        then show ?thesis
          using size q late es e True
          by (simp add: WebRtcNetEQ_DtmfDecode_def Let_def d1_def gone_def plc_def no_event_def
               del: get_Some split del: if_split)
      next
        case False
        then show ?thesis
          using size q late es e
          by (simp add: WebRtcNetEQ_DtmfDecode_def Let_def d1_def gone_def plc_def no_event_def
               del: get_Some split del: if_split)
      qed
      then show thesis
        using d1 late es e fl by (intro that [of d1]) (auto simp: d1_def gone_def plc_def ev_done_def Let_def)
    qed
  qed
qed

section \<open>Properties\<close>

text \<open>The four bytes of an event packet: value, end bit and volume, duration.\<close>

definition dtmf_payload :: "int \<Rightarrow> int \<Rightarrow> int \<Rightarrow> int \<Rightarrow> byte list" where
  "dtmf_payload val fin vol dur = [byte_of val, byte_of (128 * fin + vol), byte_of (dur div 256), byte_of dur]"

lemma dtmf_payload_fields:
  assumes "0 \<le> val" "val < 256" "fin \<in> {0, 1}" "0 \<le> vol" "vol < 64" "0 \<le> dur" "dur < 65536"
  shows "WebRtcNetEQ_DtmfInsertEvent d (dtmf_payload val fin vol dur) 4 ts =
    (if val > 15 \<or> vol > 36 then Some (0, d)
     else map_option (Pair 0) (dtmf_insert d val vol fin (s16 dur) ts))"
proof -
  let ?w0 = "w16_of (byte_of val) (byte_of (128 * fin + vol))"
  let ?w1 = "w16_of (byte_of (dur div 256)) (byte_of dur)"
  have b: "uint (byte_of val) = val" "uint (byte_of (128 * fin + vol)) = 128 * fin + vol"
    "uint (byte_of (dur div 256)) = dur div 256" "uint (byte_of dur) = dur mod 256"
    using assms by (auto simp: uint_byte_of)
  have w: "rd_w16 (dtmf_payload val fin vol dur) 0 = Some ?w0" "rd_w16 (dtmf_payload val fin vol dur) 1 = Some ?w1"
    by (simp_all add: rd_w16_Some dtmf_payload_def)
  have "128 * fin + vol = vol + (2 * fin) * 64" by simp
  then have m: "(128 * fin + vol) mod 64 = vol" using assms(4,5) by (simp only: mod_mult_self1) simp
  have v: "?w0 AND 0xFF = val" using b by (simp add: w16_low8)
  have f: "shr (?w0 AND 0x8000) 15 = fin"
    using shr_and_field [where x = ?w0 and m = 1 and n = 15] w16_of_high [of 7 1 "byte_of val" "byte_of (128 * fin + vol)"] b assms
    by auto
  have vo: "shr (?w0 AND 0x3F00) 8 = vol"
    using shr_and_field [where x = ?w0 and m = 6 and n = 8] w16_of_high [of 0 6 "byte_of val" "byte_of (128 * fin + vol)"] b m
    by simp
  have du: "(shr (u16 ?w1) 8 AND 0xFF) OR shl (u16 (?w1 AND 0xFF)) 8 = dur"
    unfolding w16_swapped b by simp
  show ?thesis
    unfolding WebRtcNetEQ_DtmfInsertEvent_def w Option.bind_lunit v f vo du Let_def
    using assms by (cases "dtmf_insert d val vol fin (s16 dur) ts") auto
qed

text \<open>An event packet updates the last queued event of its kind that is still open, or
  else is queued at the end; a full queue gives up its newest event.  The queue stays dense
  and holds at most four events, 0 to 15, of a volume down to -36 dBm0.\<close>

theorem dtmf_insert_queues:
  assumes "dtmf_inv d" "0 \<le> val" "val \<le> 15" "fin \<in> {0, 1}" "0 \<le> vol" "vol \<le> 36" "0 \<le> dur" "dur < 65536"
  shows "\<exists>d'. WebRtcNetEQ_DtmfInsertEvent d (dtmf_payload val fin vol dur) 4 ts = Some (0, d') \<and> dtmf_inv d'
    \<and> dtmf_abs d' = (case dtmf_find (dtmf_abs d) val (fin \<noteq> 0) 0 None of
       Some k \<Rightarrow> (dtmf_abs d)[k := ev_update (dtmf_abs d ! k) vol fin (s16 dur) ts]
     | None \<Rightarrow> (if length (dtmf_abs d) = 4 then butlast (dtmf_abs d) else dtmf_abs d)
               @ [ev_new val vol fin (s16 dur) ts])"
proof -
  obtain d' where "dtmf_insert d val vol fin (s16 dur) ts = Some d'" "dtmf_inv d'"
    "dtmf_abs d' = (case dtmf_find (dtmf_abs d) val (fin \<noteq> 0) 0 None of
       Some k \<Rightarrow> (dtmf_abs d)[k := ev_update (dtmf_abs d ! k) vol fin (s16 dur) ts]
     | None \<Rightarrow> (if length (dtmf_abs d) = 4 then butlast (dtmf_abs d) else dtmf_abs d)
               @ [ev_new val vol fin (s16 dur) ts])"
    by (rule dtmf_insert_spec [OF assms(1-3,5,6,4), of "s16 dur" ts]) blast
  moreover have "WebRtcNetEQ_DtmfInsertEvent d (dtmf_payload val fin vol dur) 4 ts = Some (0, d')"
    using dtmf_payload_fields [of val fin vol dur d ts] assms calculation(1) by simp
  ultimately show ?thesis by blast
qed

definition dtmf_example :: dtmf_inst where
  "dtmf_example = snd (WebRtcNetEQ_DtmfDecoderInit
     \<lparr>dtmf_MaxPLCtime = 0, dtmf_CurrentPLCtime = 0, dtmf_queue = [], dtmf_EventBufferSize = 0,
      dtmf_framelen = 0\<rparr> 8000 560)"

lemma dtmf_example_inv: "dtmf_inv dtmf_example" "dtmf_abs dtmf_example = []"
  using dtmf_init_inv [of "\<lparr>dtmf_MaxPLCtime = 0, dtmf_CurrentPLCtime = 0, dtmf_queue = [],
      dtmf_EventBufferSize = 0, dtmf_framelen = 0\<rparr>" 8000 560 dtmf_example]
  by (simp_all add: dtmf_example_def WebRtcNetEQ_DtmfDecoderInit_def)

lemma dtmf_insert_queues_witness:
  "\<exists>d'. WebRtcNetEQ_DtmfInsertEvent dtmf_example (dtmf_payload 5 0 10 400) 4 1000 = Some (0, d') \<and> dtmf_inv d'
    \<and> dtmf_abs d' = (case dtmf_find (dtmf_abs dtmf_example) 5 (0 \<noteq> (0 :: int)) 0 None of
       Some k \<Rightarrow> (dtmf_abs dtmf_example)[k := ev_update (dtmf_abs dtmf_example ! k) 10 0 (s16 400) 1000]
     | None \<Rightarrow> (if length (dtmf_abs dtmf_example) = 4 then butlast (dtmf_abs dtmf_example) else dtmf_abs dtmf_example)
               @ [ev_new 5 10 0 (s16 400) 1000])"
  by (rule dtmf_insert_queues [OF dtmf_example_inv(1)]) simp_all

text \<open>Once its start time is reached, the event at the head of the queue is played for a
  frame; it leaves the queue exactly when it has ended, when the next event is waiting, or
  when it has been extended beyond the longest gap allowed; nothing else changes.\<close>

theorem dtmf_decode_plays_head:
  assumes "dtmf_inv d" "dtmf_abs d = e # es" "ev_start e \<le> t"
  shows "\<exists>d'. WebRtcNetEQ_DtmfDecode d t = Some (dtmf_framelen d, Some (ev_value e, ev_volume e), d')
    \<and> dtmf_inv d' \<and> dtmf_abs d' = (if ev_done d e es t then es else e # es)"
  using dtmf_decode_spec [OF assms] by metis

definition dtmf_example1 :: dtmf_inst where
  "dtmf_example1 = dtmf_example\<lparr>dtmf_queue := ev_new 5 10 0 400 1000 # replicate 3 no_event,
     dtmf_EventBufferSize := 1\<rparr>"

lemma dtmf_example1_inv: "dtmf_inv dtmf_example1" "dtmf_abs dtmf_example1 = [ev_new 5 10 0 400 1000]"
  using dtmf_invI [of dtmf_example1 "[ev_new 5 10 0 400 1000]"]
  by (simp_all add: dtmf_example1_def ev_ok_def ev_new_def)

lemma dtmf_decode_plays_head_witness:
  "\<exists>d'. WebRtcNetEQ_DtmfDecode dtmf_example1 1200 = Some (dtmf_framelen dtmf_example1,
       Some (ev_value (ev_new 5 10 0 400 1000), ev_volume (ev_new 5 10 0 400 1000)), d')
    \<and> dtmf_inv d' \<and> dtmf_abs d' = (if ev_done dtmf_example1 (ev_new 5 10 0 400 1000) [] 1200 then []
                                   else [ev_new 5 10 0 400 1000])"
  by (rule dtmf_decode_plays_head [OF dtmf_example1_inv]) (simp add: ev_new_def)

text \<open>A duration of 32768 timestamp units or more, which RFC 4733 allows, is stored in a
  signed 16-bit variable: the event is queued with an end before its start.\<close>

theorem dtmf_long_duration_negative:
  assumes "dtmf_inv d" "dtmf_abs d = []" "32768 \<le> dur" "dur < 65536" "32768 \<le> ts" "ts < 4294967296"
  shows "\<exists>d' e. WebRtcNetEQ_DtmfInsertEvent d (dtmf_payload 1 0 10 dur) 4 ts = Some (0, d')
    \<and> dtmf_abs d' = [e] \<and> ev_start e = ts \<and> ev_end e = ts + dur - 65536 \<and> ev_end e < ev_start e"
proof -
  obtain d' where d': "dtmf_insert d 1 10 0 (s16 dur) ts = Some d'"
    "dtmf_abs d' = [ev_new 1 10 0 (s16 dur) ts]"
    using dtmf_insert_spec [of d 1 10 0 "s16 dur" ts] assms(1,2) by auto
  have "s16 dur = dur - 65536" using assms(3,4) by (simp add: s16_cases u16_id)
  then have "ev_end (ev_new 1 10 0 (s16 dur) ts) = ts + dur - 65536"
    using assms(3-6) by (simp add: ev_new_def u32_id)
  then show ?thesis
    using dtmf_payload_fields [of 1 0 10 dur d ts] assms(3,4) d'
    by (intro exI [of _ d'] exI [of _ "ev_new 1 10 0 (s16 dur) ts"]) (simp add: ev_new_def)
qed

lemma dtmf_long_duration_negative_witness:
  "\<exists>d' e. WebRtcNetEQ_DtmfInsertEvent dtmf_example (dtmf_payload 1 0 10 40000) 4 100000 = Some (0, d')
    \<and> dtmf_abs d' = [e] \<and> ev_start e = 100000 \<and> ev_end e = 100000 + 40000 - 65536 \<and> ev_end e < ev_start e"
  by (rule dtmf_long_duration_negative [OF dtmf_example_inv]) simp_all

end
