(* ===== verification/Split_Insert.thy ===== *)
theory Split_Insert
  imports Packet_Queue Codec_Db "HOL-Library.While_Combinator"
begin

text \<open>
  Splitting a received payload into frames and inserting each one into the packet buffer
  (\<open>neteq/split_and_insert.c\<close>).  The payload pointer of the packet that is advanced from frame
  to frame is the list of bytes from it on.  The splitting loop is written over the insert
  operation it calls, so that it can be reasoned about from what insertion promises
  (locales \<open>safe_sink\<close> and \<open>packet_sink\<close>).
\<close>

section \<open>The model\<close>

definition PBUFFER_INSERT_ERROR1 :: int where "PBUFFER_INSERT_ERROR1 = -4002"
definition PBUFFER_INSERT_ERROR2 :: int where "PBUFFER_INSERT_ERROR2 = -4003"
definition PBUFFER_INSERT_ERROR3 :: int where "PBUFFER_INSERT_ERROR3 = -4004"
definition PBUFFER_INSERT_ERROR4 :: int where "PBUFFER_INSERT_ERROR4 = -4005"
definition PBUFFER_INSERT_ERROR5 :: int where "PBUFFER_INSERT_ERROR5 = -4006"

lemmas insert_errors = PBUFFER_INSERT_ERROR1_def PBUFFER_INSERT_ERROR2_def
  PBUFFER_INSERT_ERROR3_def PBUFFER_INSERT_ERROR4_def PBUFFER_INSERT_ERROR5_def

type_synonym 'b sink = "'b \<Rightarrow> rtp_packet \<Rightarrow> (int \<times> int \<times> 'b) option"

text \<open>The step to frame \<open>i\<close> of \<open>n\<close> bytes: time stamp, word pointer, and starting byte.\<close>

definition split_advance :: "byte list \<Rightarrow> int \<Rightarrow> int \<Rightarrow> nat \<Rightarrow> rtp_packet \<Rightarrow> rtp_packet" where
  "split_advance start n dt i p = p\<lparr>rtp_timeStamp := u32 (rtp_timeStamp p + dt),
     rtp_payload := drop (2 * nat (shr (int i * n) 1)) start,
     rtp_starts_byte1 := rtp_starts_byte1 p XOR (n AND 1)\<rparr>"

text \<open>
  The loop over the frames and the insertion of what is left.  The loops for soft and hard
  splitting differ in the number of remaining bytes under which they stop (\<open>bound\<close>) and in
  their error codes; after the soft loop the rest is inserted whatever its length.  The result
  is the return value, \<open>*flushed\<close> and the buffer; a loop that does not end is \<open>None\<close>.
\<close>

partial_function (option) split_run :: "'b sink \<Rightarrow> bool \<Rightarrow> byte list \<Rightarrow> int \<Rightarrow> int \<Rightarrow> int \<Rightarrow> int \<Rightarrow> int \<Rightarrow>
    nat \<Rightarrow> rtp_packet \<Rightarrow> int \<Rightarrow> int \<Rightarrow> 'b \<Rightarrow> (int \<times> int \<times> 'b) option" where
  "split_run ins soft start n bound dt err_loop err_rest i temp_packet len flushed b =
     (if bound \<le> len
      then Option.bind (ins b temp_packet) (\<lambda>(i_ok, localFlushed, b).
        if i_ok < 0 then Some (err_loop, flushed OR localFlushed, b)
        else split_run ins soft start n bound dt err_loop err_rest (Suc i)
               (split_advance start n dt (Suc i) temp_packet) (len - n)
               (flushed OR localFlushed) b)
      else if soft \<or> 0 < len
      then Option.bind (ins b (temp_packet\<lparr>rtp_payloadLen := len\<rparr>)) (\<lambda>(i_ok, localFlushed, b).
        Some (if i_ok < 0 then err_rest else 0, flushed OR localFlushed, b))
      else Some (0, flushed, b))"

declare split_run.simps [code]

text \<open>The frame size of soft splitting: halved until it is below 40 ms, then made even.\<close>

definition soft_limit :: "split_info \<Rightarrow> int" where
  "soft_limit inst = shl 80 (nat (sp_deltaTime inst)) * (\<bar>sp_deltaBytes inst\<bar> - 10)"

definition soft_split_size :: "split_info \<Rightarrow> int \<Rightarrow> int option" where
  "soft_split_size inst payloadLen = do {
     n \<leftarrow> while_option (\<lambda>n. soft_limit inst \<le> n) (\<lambda>n. shr n 1) payloadLen;
     Some (if n > 1 then shr n 1 * 2 else n) }"

definition WebRtcNetEQ_SplitAndInsertPayload ::
    "rtp_packet \<Rightarrow> packet_buf \<Rightarrow> split_info \<Rightarrow> bool \<Rightarrow> (int \<times> int \<times> packet_buf) option" where
  "WebRtcNetEQ_SplitAndInsertPayload packet b split_inst av_sync =
     (let ins = (\<lambda>b p. WebRtcNetEQ_PacketBufferInsert b p av_sync);
          is_sync_rtp = av_sync
            \<and> WebRtcNetEQ_IsSyncPayload (rtp_payload packet) (rtp_payloadLen packet);
          len = rtp_payloadLen packet
      in if sp_deltaBytes split_inst = NO_SPLIT \<or> is_sync_rtp
         then do {
           (i_ok, localFlushed, b') \<leftarrow> ins b packet;
           Some (if i_ok < 0 then PBUFFER_INSERT_ERROR5 else 0, localFlushed, b') }
         else if sp_deltaBytes split_inst < -10
         then do {
           n \<leftarrow> soft_split_size split_inst len;
           split_run ins True (rtp_payload packet) n (2 * n)
             (shr (2 * n) (nat (sp_deltaTime split_inst)))
             PBUFFER_INSERT_ERROR1 PBUFFER_INSERT_ERROR2 0
             (packet\<lparr>rtp_payloadLen := n\<rparr>) len 0 b }
         else let n = sp_deltaBytes split_inst in
           split_run ins False (rtp_payload packet) n n (sp_deltaTime split_inst)
             PBUFFER_INSERT_ERROR3 PBUFFER_INSERT_ERROR4 0
             (packet\<lparr>rtp_payloadLen := n\<rparr>) len 0 b)"

section \<open>What the splitting relies on\<close>

text \<open>A packet whose payload lies in its memory and fits a buffer of \<open>c\<close> bytes.\<close>

definition packet_fits :: "int \<Rightarrow> rtp_packet \<Rightarrow> bool" where
  "packet_fits c p \<longleftrightarrow> 0 < rtp_payloadLen p \<and> rtp_payloadLen p \<le> c \<and> rtp_starts_byte1 p \<in> {0, 1}
     \<and> rtp_starts_byte1 p + rtp_payloadLen p \<le> int (length (rtp_payload p))"

text \<open>A packet whose payload lies in its memory, of any length.\<close>

definition packet_inside :: "rtp_packet \<Rightarrow> bool" where
  "packet_inside p \<longleftrightarrow> rtp_starts_byte1 p \<in> {0, 1}
     \<and> (0 < rtp_payloadLen p \<longrightarrow> rtp_starts_byte1 p + rtp_payloadLen p \<le> int (length (rtp_payload p)))"

lemma packet_fits_inside: "packet_fits c p \<longleftrightarrow> 0 < rtp_payloadLen p \<and> rtp_payloadLen p \<le> c \<and> packet_inside p"
  by (auto simp: packet_fits_def packet_inside_def)

lemma pb_fits_packet: "pb_fits b p \<longleftrightarrow> packet_fits (2 * pb_memorySizeW16 b) p"
  by (simp add: pb_fits_def packet_fits_def)

text \<open>The frames a payload is cut into, with their time stamps.\<close>

function split_frames :: "nat \<Rightarrow> nat \<Rightarrow> int \<Rightarrow> int \<Rightarrow> byte list \<Rightarrow> (int \<times> byte list) list" where
  "split_frames n bound dt ts bs =
     (if 0 < n \<and> n \<le> bound \<and> bound \<le> length bs
      then (ts, take n bs) # split_frames n bound dt (u32 (ts + dt)) (drop n bs)
      else if bs = [] then [] else [(ts, bs)])"
  by pat_completeness auto
termination by (relation "measure (\<lambda>(n, bound, dt, ts, bs). length bs)") auto

declare split_frames.simps [simp del]

lemma split_frames_Nil [simp]: "split_frames n bound dt ts [] = []"
  by (subst split_frames.simps) auto

lemma split_frames_Cons:
  "0 < n \<Longrightarrow> length xs = n \<Longrightarrow> split_frames n n dt ts (xs @ ys) = (ts, xs) # split_frames n n dt (u32 (ts + dt)) ys"
  by (subst split_frames.simps) simp

lemma split_frames_concat: "concat (map snd (split_frames n bound dt ts bs)) = bs"
  by (induction n bound dt ts bs rule: split_frames.induct)
    (subst split_frames.simps, simp)

lemma split_frames_length:
  "0 < n \<Longrightarrow> n \<le> bound \<Longrightarrow> f \<in> set (split_frames n bound dt ts bs) \<Longrightarrow>
   0 < length (snd f) \<and> (length (snd f) = n \<or> length (snd f) < bound)"
proof (induction n bound dt ts bs rule: split_frames.induct)
  case (1 n bound dt ts bs)
  show ?case
    using 1(4) unfolding split_frames.simps [of n bound dt ts bs]
    by (cases "bound \<le> length bs") (use 1 in \<open>auto split: if_splits\<close>)
qed

text \<open>
  The packet at frame \<open>i\<close>, for a payload starting at byte \<open>s\<close> of \<open>start\<close>: where its bytes are,
  exactly when the frames are even or the payload starts on a word, and inside the payload
  in any case.
\<close>

definition frame_state :: "byte list \<Rightarrow> nat \<Rightarrow> nat \<Rightarrow> nat \<Rightarrow> rtp_packet \<Rightarrow> bool" where
  "frame_state start s n i p \<longleftrightarrow> rtp_payloadLen p = int n
     \<and> rtp_payload p = drop (2 * (i * n div 2)) start
     \<and> rtp_starts_byte1 p = int ((s + i * n) mod 2)"

lemma mod2_xor: "int (a mod 2) XOR (int n AND 1) = int ((a + n) mod 2)"
proof -
  have n: "int n AND 1 = int (n mod 2)" by (simp add: and_one_eq zmod_int)
  have "a mod 2 = 0 \<or> a mod 2 = 1" "n mod 2 = 0 \<or> n mod 2 = 1" by auto
  moreover have "(a + n) mod 2 = (a mod 2 + n mod 2) mod 2" by (simp add: mod_add_eq)
  ultimately show ?thesis unfolding n by (elim disjE) simp_all
qed

lemma frame_advance:
  assumes "frame_state start s n i p"
  shows "frame_state start s n (Suc i) (split_advance start (int n) dt (Suc i) p)"
proof -
  have "nat (shr (int (Suc i) * int n) 1) = Suc i * n div 2"
    unfolding shr_eq_div power_one_right of_nat_mult [symmetric]
    using zdiv_int [of "Suc i * n" 2] by (simp only: of_nat_numeral nat_int flip: zdiv_int)
  moreover have "s + i * n + n = s + Suc i * n" by simp
  ultimately show ?thesis
    using assms mod2_xor [of "s + i * n" n] unfolding frame_state_def split_advance_def by (simp add: add.commute add.left_commute)
qed

lemma frame_first:
  "rtp_payload p = start \<Longrightarrow> rtp_starts_byte1 p = int s \<Longrightarrow> s \<le> 1 \<Longrightarrow>
   frame_state start s n 0 (p\<lparr>rtp_payloadLen := int n\<rparr>)"
  by (simp add: frame_state_def)

lemma frame_start_le:
  fixes s k :: nat
  assumes "s \<le> 1"
  shows "2 * (k div 2) + (s + k) mod 2 \<le> s + k"
  using assms by presburger

lemma frame_start_eq:
  fixes s i n :: nat
  assumes "s \<le> 1" "even n \<or> s = 0 \<or> i = 0"
  shows "2 * (i * n div 2) + (s + i * n) mod 2 = s + i * n"
proof -
  have "s = 0 \<or> s = 1 \<and> even (i * n)" using assms by (cases s) auto
  then show ?thesis by presburger
qed

lemma frame_fits:
  assumes "frame_state start s n i p" "s \<le> 1" "s + i * n + m \<le> length start" "0 < m" "int m \<le> c"
  shows "packet_fits c (p\<lparr>rtp_payloadLen := int m\<rparr>)"
proof -
  let ?o = "2 * (i * n div 2)" and ?b = "(s + i * n) mod 2"
  have "?o + ?b \<le> s + i * n" by (rule frame_start_le [OF assms(2)])
  then have "?b + m \<le> length start - ?o" using assms(3) by linarith
  moreover have "?b = 0 \<or> ?b = 1" by auto
  ultimately show ?thesis
    using assms(1,4,5) by (auto simp: frame_state_def packet_fits_def)
qed

lemma frame_inside:
  assumes "frame_state start s n i p" "s \<le> 1" "s + i * n + m \<le> length start"
  shows "packet_inside (p\<lparr>rtp_payloadLen := int m\<rparr>)"
proof (cases m)
  case 0
  then show ?thesis using assms(1) by (auto simp: frame_state_def packet_inside_def)
next
  case (Suc k)
  then show ?thesis using frame_fits [OF assms, of "int m"] by (simp add: packet_fits_inside)
qed

lemma frame_data:
  assumes "frame_state start s n i p" "s \<le> 1" "even n \<or> s = 0 \<or> i = 0"
  shows "rtp_data (p\<lparr>rtp_payloadLen := int m\<rparr>) = take m (drop (s + i * n) start)"
  using assms(1) frame_start_eq [OF assms(2,3)]
  by (simp add: frame_state_def rtp_data_def slice_def add.commute)

section \<open>The contract of insertion, and splitting over it\<close>

text \<open>
  \<open>safe_sink\<close>: a packet that fits is accepted and the buffer stays well formed and as large; one of any other length is refused and
  changes nothing.
  \<open>packet_sink\<close>: moreover the packet is appended to the stored ones, which are dropped first
  when the buffer reports a flush.
\<close>

locale safe_sink =
  fixes good :: "'b \<Rightarrow> bool" and cap :: "'b \<Rightarrow> int" and ins :: "'b sink"
  assumes ins_safe: "good b \<Longrightarrow> packet_fits (cap b) p \<Longrightarrow>
    \<exists>fl b'. ins b p = Some (0, fl, b') \<and> good b' \<and> cap b' = cap b"
    and ins_refuses: "good b \<Longrightarrow> \<not> (0 < rtp_payloadLen p \<and> rtp_payloadLen p \<le> cap b) \<Longrightarrow> ins b p = Some (-1, 0, b)"
begin

lemma ins_inside:
  assumes "good b" "packet_inside p"
  shows "\<exists>r fl b'. ins b p = Some (r, fl, b') \<and> good b' \<and> cap b' = cap b"
  using ins_safe [OF assms(1), of p] ins_refuses [OF assms(1), of p] assms by (fastforce simp: packet_fits_inside)

lemma split_run_inside:
  assumes "good b" "frame_state start s n i p" "s \<le> 1" "0 < n" "n \<le> bound" "s + i * n + len \<le> length start"
  shows "\<exists>r fl' b'. split_run ins soft start (int n) (int bound) dt e1 e2 i p (int len) fl b
    = Some (r, fl', b') \<and> good b' \<and> cap b' = cap b"
  using assms(1,2,6)
proof (induction len arbitrary: b p i fl rule: less_induct)
  case (less len)
  have same: "p\<lparr>rtp_payloadLen := int n\<rparr> = p" using less.prems(2) by (simp add: frame_state_def)
  note run = split_run.simps [of ins soft start "int n" "int bound" dt e1 e2 i p "int len" fl b]
  show ?case
  proof (cases "bound \<le> len")
    case True
    have "packet_inside p"
      using frame_inside [OF less.prems(2) assms(3), of n] less.prems(3) True assms(5) unfolding same by simp
    then obtain r1 fl1 b1 where b1: "ins b p = Some (r1, fl1, b1)" "good b1" "cap b1 = cap b"
      using ins_inside [OF less.prems(1)] by blast
    have "len - n < len" "int (len - n) = int len - int n" "s + Suc i * n + (len - n) \<le> length start"
      using True assms(4,5) less.prems(3) by auto
    then show ?thesis
      using less.IH [of "len - n" b1 "Suc i" "split_advance start (int n) dt (Suc i) p" "fl OR fl1"]
        frame_advance [OF less.prems(2), of dt] b1 True unfolding run by simp
  next
    case False
    have "packet_inside (p\<lparr>rtp_payloadLen := int len\<rparr>)" by (rule frame_inside [OF less.prems(2) assms(3) less.prems(3)])
    then obtain r1 fl1 b1 where "ins b (p\<lparr>rtp_payloadLen := int len\<rparr>) = Some (r1, fl1, b1)" "good b1" "cap b1 = cap b"
      using ins_inside [OF less.prems(1)] by blast
    then show ?thesis using False less.prems(1) unfolding run by simp
  qed
qed

lemma split_run_safe:
  assumes "good b" "frame_state start s n i p" "s \<le> 1" "0 < n" "n \<le> bound"
    "int len \<le> cap b" "s + i * n + len \<le> length start" "soft \<longrightarrow> 0 < len"
    "soft \<longrightarrow> n < bound"
  shows "\<exists>fl' b'. split_run ins soft start (int n) (int bound) dt e1 e2 i p (int len) fl b
    = Some (0, fl', b') \<and> good b' \<and> cap b' = cap b"
  using assms(1,2,6-8)
proof (induction len arbitrary: b p i fl rule: less_induct)
  case (less len)
  have same: "p\<lparr>rtp_payloadLen := int n\<rparr> = p" using less.prems(2) by (simp add: frame_state_def)
  note run = split_run.simps [of ins soft start "int n" "int bound" dt e1 e2 i p "int len" fl b]
  show ?case
  proof (cases "bound \<le> len")
    case True
    have "packet_fits (cap b) (p\<lparr>rtp_payloadLen := int n\<rparr>)"
      using less.prems True assms(4,5) by (intro frame_fits [OF less.prems(2) assms(3)]) auto
    then obtain fl1 b1 where b1: "ins b p = Some (0, fl1, b1)" "good b1" "cap b1 = cap b"
      using ins_safe [OF less.prems(1), of p] unfolding same by blast
    have "len - n < len" "int (len - n) = int len - int n" "soft \<longrightarrow> 0 < len - n"
      using True assms(4,5,9) by auto
    moreover have "s + Suc i * n + (len - n) \<le> length start" using less.prems(4) True assms(5) by simp
    ultimately show ?thesis
      using less.IH [of "len - n" b1 "Suc i" "split_advance start (int n) dt (Suc i) p" "fl OR fl1"]
        frame_advance [OF less.prems(2), of dt] b1 less.prems(3) True
      unfolding run by simp
  next
    case False
    show ?thesis
    proof (cases "0 < len")
      case True
      have "packet_fits (cap b) (p\<lparr>rtp_payloadLen := int len\<rparr>)"
        using less.prems True False by (intro frame_fits [OF less.prems(2) assms(3)]) auto
      then obtain fl1 b1 where "ins b (p\<lparr>rtp_payloadLen := int len\<rparr>) = Some (0, fl1, b1)" 
        "good b1" "cap b1 = cap b"
        using ins_safe [OF less.prems(1)] by blast
      then show ?thesis using False True unfolding run by simp
    next
      case f: False
      then show ?thesis using False less.prems unfolding run by simp
    qed
  qed
qed

end

text \<open>A frame of the packet \<open>p\<close> as a stored packet.\<close>

definition frame_packet :: "rtp_packet \<Rightarrow> int \<times> byte list \<Rightarrow> packet" where
  "frame_packet p f =
     (rtp_seqNumber p, fst f, s16 (rtp_payloadType p), rtp_rcuPlCntr p, snd f)"

lemma frame_packet_advance: "frame_packet (split_advance start n dt i p) = frame_packet p"
  by (rule ext) (simp add: frame_packet_def split_advance_def)

lemma frame_packet_data:
  assumes "frame_state start s n i p" "s \<le> 1" "even n \<or> s = 0 \<or> i = 0"
  shows "packet_of (p\<lparr>rtp_payloadLen := int m\<rparr>)
    = frame_packet p (rtp_timeStamp p, take m (drop (s + i * n) start))"
  using frame_data [OF assms] by (simp add: packet_of_def frame_packet_def)

lemma or_flag: "a \<in> {0, 1} \<Longrightarrow> b \<in> {0, 1} \<Longrightarrow> (a OR b) \<in> {0, 1 :: int} \<and> (a OR b = 0 \<longleftrightarrow> a = 0 \<and> b = 0)"
  by auto

locale packet_sink = safe_sink +
  fixes abs :: "'a \<Rightarrow> packet list"
  assumes ins_appends: "good b \<Longrightarrow> packet_fits (cap b) p \<Longrightarrow> ins b p = Some (r, fl, b') \<Longrightarrow>
    fl \<in> {0, 1} \<and> abs b' = (if fl = 0 then abs b else []) @ [packet_of p]"
begin

lemma ins_drop:
  assumes "good b" "packet_fits (cap b) p"
  obtains fl b' j where "ins b p = Some (0, fl, b')" "good b'" "cap b' = cap b" "fl \<in> {0, 1}"
    "\<And>xs. abs b' @ xs = drop j (abs b @ packet_of p # xs)" "fl = 0 \<longrightarrow> j = 0"
proof -
  obtain fl b' where b': "ins b p = Some (0, fl, b')" "good b'" "cap b' = cap b"
    using ins_safe [OF assms] by blast
  note app = ins_appends [OF assms b'(1)]
  show thesis
    by (rule that [of fl b' "if fl = 0 then 0 else length (abs b)"]) (use b' app in auto)
qed

lemma split_run_appends:
  assumes "good b" "frame_state start s n i p" "s \<le> 1" "even n \<or> s = 0 \<or> i = 0 \<and> len < bound" "0 < n" "n \<le> bound"
    "int len \<le> cap b" "s + i * n + len \<le> length start" "soft \<longrightarrow> 0 < len"
    "soft \<longrightarrow> n < bound" "fl \<in> {0, 1}"
  shows "\<exists>fl' b' k. split_run ins soft start (int n) (int bound) dt e1 e2 i p (int len) fl b
      = Some (0, fl', b') \<and> good b' \<and> fl' \<in> {0, 1} \<and> (fl' = 0 \<longrightarrow> fl = 0 \<and> k = 0)
    \<and> abs b' = drop k (abs b @ map (frame_packet p)
        (split_frames n bound dt (rtp_timeStamp p) (take len (drop (s + i * n) start))))"
  using assms(1,2,4,7-9,11)
proof (induction len arbitrary: b p i fl rule: less_induct)
  case (less len)
  have same: "p\<lparr>rtp_payloadLen := int n\<rparr> = p" using less.prems(2) by (simp add: frame_state_def)
  note run = split_run.simps [of ins soft start "int n" "int bound" dt e1 e2 i p "int len" fl b]
  let ?bs = "take len (drop (s + i * n) start)"
  let ?p' = "split_advance start (int n) dt (Suc i) p"
  have len_bs: "length ?bs = len" using less.prems(5) by simp
  note frames = split_frames.simps [of n bound dt "rtp_timeStamp p" ?bs, unfolded len_bs]
  have al: "even n \<or> s = 0 \<or> i = 0" using less.prems(3) by auto
  show ?case
  proof (cases "bound \<le> len")
    case True
    have x: "packet_of p = frame_packet p (rtp_timeStamp p, take n ?bs)"
      using frame_packet_data [OF less.prems(2) assms(3) al, of n] True assms(6)
      unfolding same by (simp add: min_def)
    have "packet_fits (cap b) (p\<lparr>rtp_payloadLen := int n\<rparr>)"
      using less.prems True assms(5,6) by (intro frame_fits [OF less.prems(2) assms(3)]) auto
    then obtain fl1 b1 j where b1: "ins b p = Some (0, fl1, b1)" "good b1" "cap b1 = cap b" "fl1 \<in> {0, 1}"
      "\<And>xs. abs b1 @ xs = drop j (abs b @ packet_of p # xs)" "fl1 = 0 \<longrightarrow> j = 0"
      using ins_drop [OF less.prems(1), of p] unfolding same by blast
    have next_frame: "len - n < len" "even n \<or> s = 0 \<or> Suc i = 0 \<and> len - n < bound"
      "int (len - n) \<le> cap b1" "s + Suc i * n + (len - n) \<le> length start" "soft \<longrightarrow> 0 < len - n"
      "(fl OR fl1) \<in> {0, 1}"
      using True assms(5,6,10) less.prems(3-5) b1(3) or_flag [OF less.prems(7) b1(4)] by auto
    from less.IH [OF next_frame(1) b1(2) frame_advance [OF less.prems(2)] next_frame(2-6)]
    obtain fl' b' k where b': "split_run ins soft start (int n) (int bound) dt e1 e2 (Suc i) ?p'
        (int (len - n)) (fl OR fl1) b1 = Some (0, fl', b')" "good b'" "fl' \<in> {0, 1}"
      "fl' = 0 \<longrightarrow> (fl OR fl1) = 0 \<and> k = 0"
      "abs b' = drop k (abs b1 @ map (frame_packet ?p') (split_frames n bound dt (rtp_timeStamp ?p')
         (take (len - n) (drop (s + Suc i * n) start))))"
      by blast
    have rest: "take (len - n) (drop (s + Suc i * n) start) = drop n ?bs"
      by (simp add: drop_take add.commute add.left_commute)
    have ts: "rtp_timeStamp ?p' = u32 (rtp_timeStamp p + dt)" by (simp add: split_advance_def)
    have "map (frame_packet p) (split_frames n bound dt (rtp_timeStamp p) ?bs)
        = packet_of p # map (frame_packet ?p') (split_frames n bound dt (rtp_timeStamp ?p') (drop n ?bs))"
      unfolding frames x ts frame_packet_advance using True assms(5,6) by simp
    then have "abs b' = drop (j + k) (abs b @ map (frame_packet p) (split_frames n bound dt (rtp_timeStamp p) ?bs))"
      using b'(5) unfolding rest b1(5) by (simp only: drop_drop add.commute)
    moreover have "fl' = 0 \<longrightarrow> fl = 0 \<and> j + k = 0"
      using b'(4) b1(6) or_flag [OF less.prems(7) b1(4)] by simp
    moreover have "split_run ins soft start (int n) (int bound) dt e1 e2 i p (int len) fl b = Some (0, fl', b')"
      using b'(1) b1(1) True assms(5,6) unfolding run by (simp add: of_nat_diff)
    ultimately show ?thesis using b'(2,3) by blast
  next
    case stop: False
    show ?thesis
    proof (cases "0 < len")
      case True
      let ?q = "p\<lparr>rtp_payloadLen := int len\<rparr>"
      have "packet_fits (cap b) ?q"
        using less.prems True stop by (intro frame_fits [OF less.prems(2) assms(3)]) auto
      then obtain fl1 b1 j where b1: "ins b ?q = Some (0, fl1, b1)" "good b1" "fl1 \<in> {0, 1}"
        "\<And>xs. abs b1 @ xs = drop j (abs b @ packet_of ?q # xs)" "fl1 = 0 \<longrightarrow> j = 0"
        using ins_drop [OF less.prems(1), of ?q] by metis
      have "map (frame_packet p) (split_frames n bound dt (rtp_timeStamp p) ?bs) = [packet_of ?q]"
        unfolding frames frame_packet_data [OF less.prems(2) assms(3) al] using stop True less.prems(5) by simp
      then have "abs b1 = drop j (abs b @ map (frame_packet p) (split_frames n bound dt (rtp_timeStamp p) ?bs))"
        using b1(4) [of "[]"] by simp
      moreover have "split_run ins soft start (int n) (int bound) dt e1 e2 i p (int len) fl b
          = Some (0, fl OR fl1, b1)"
        using b1(1) stop True unfolding run by simp
      ultimately show ?thesis using b1(2,5) or_flag [OF less.prems(7) b1(3)] by metis
    next
      case False
      then have "len = 0" "\<not> soft" using less.prems by auto
      then show ?thesis using stop less.prems(1,7) unfolding run frames
        by (intro exI [of _ fl] exI [of _ b] exI [of _ 0]) simp
    qed
  qed
qed

end

section \<open>The packet buffer keeps the contract\<close>

lemma insert_rest_size:
  assumes "(if pb_numPacketsInBuffer b \<noteq> 0
         then do { r \<leftarrow> pb_find_position b w;
           case r of Inl b' \<Rightarrow> Some (-1, 1, b')
           | Inr (nextPos, b') \<Rightarrow> do { (flushed, b'') \<leftarrow> pb_flush_if_full nextPos w b';
               b''' \<leftarrow> pb_store p b''; Some (0, flushed, b''') } }
         else do { b' \<leftarrow> pb_store p (b\<lparr>pb_currentMemoryPos := 0, pb_insertPosition := 0\<rparr>);
           Some (0, 0, b') }) = Some (r, fl, b')"
  shows "pb_memorySizeW16 b' = pb_memorySizeW16 b"
proof -
  have flush: "pb_memorySizeW16 (snd (WebRtcNetEQ_PacketBufferFlush b)) = pb_memorySizeW16 b" for b
    by (simp add: WebRtcNetEQ_PacketBufferFlush_def)
  have find: "pb_find_position b w = Some r \<Longrightarrow>
      (case r of Inl b' \<Rightarrow> pb_memorySizeW16 b' | Inr (n, b') \<Rightarrow> pb_memorySizeW16 b') = pb_memorySizeW16 b" for b w r
    by (auto simp: pb_find_position_def Let_def flush split: if_splits option.splits)
  have full: "pb_flush_if_full n w b = Some (fl, b') \<Longrightarrow> pb_memorySizeW16 b' = pb_memorySizeW16 b" for n w b fl b'
    by (auto simp: pb_flush_if_full_def Let_def flush split: if_splits bind_splits)
  have store: "pb_store p b = Some b' \<Longrightarrow> pb_memorySizeW16 b' = pb_memorySizeW16 b" for b b'
    by (auto simp: pb_store_def Let_def split: if_splits)
  show ?thesis
  proof (cases "pb_numPacketsInBuffer b = 0")
    case True
    with assms show ?thesis
      by (cases "pb_store p (b\<lparr>pb_currentMemoryPos := 0, pb_insertPosition := 0\<rparr>)") (auto dest!: store)
  next
    case False
    with assms obtain q where q: "pb_find_position b w = Some q" by (cases "pb_find_position b w") auto
    show ?thesis
    proof (cases q)
      case (Inl b1)
      with find [OF q] assms False q show ?thesis by simp
    next
      case (Inr nb)
      then obtain n b1 where nb: "q = Inr (n, b1)" by (cases nb) auto
      from assms False q nb obtain fl1 b2 where b2: "pb_flush_if_full n w b1 = Some (fl1, b2)"
        by (cases "pb_flush_if_full n w b1") auto
      from assms False q nb b2 obtain b3 where b3: "pb_store p b2 = Some b3" "b' = b3"
        by (cases "pb_store p b2") auto
      from find [OF q] full [OF b2] store [OF b3(1)] b3(2) nb show ?thesis by simp
    qed
  qed
qed

lemma insert_memory_size:
  assumes "WebRtcNetEQ_PacketBufferInsert b p av_sync = Some (r, fl, b')"
  shows "pb_memorySizeW16 b' = pb_memorySizeW16 b"
proof -
  have clear: "pb_memorySizeW16 (pb_clear_slot i b) = pb_memorySizeW16 b" for i b
    by (simp add: pb_clear_slot_def)
  let ?long = "rtp_payloadLen p > shl (pb_memorySizeW16 b) 1 \<or> rtp_payloadLen p \<le> 0"
  let ?scan = "if av_sync then pb_sync_scan (pb_memory b) p (pb_slots b) 0 else Some (length (pb_slots b))"
  show ?thesis
  proof (cases "pb_initialized b")
    case False
    with assms show ?thesis by (simp add: WebRtcNetEQ_PacketBufferInsert_def)
  next
    case True
    then have i: "\<not> \<not> pb_initialized b" by simp
    note eq = assms [unfolded WebRtcNetEQ_PacketBufferInsert_def if_not_P [OF i]]
    show ?thesis
    proof (cases ?long)
      case True
      from eq [unfolded if_P [OF True]] show ?thesis by simp
    next
      case False
      note eq = eq [unfolded if_not_P [OF False]]
      show ?thesis
      proof (cases ?scan)
        case None
        from eq [unfolded None] show ?thesis by simp
      next
        case (Some i)
        have "pb_memorySizeW16 (if i < length (pb_slots b) then pb_clear_slot i b else b) = pb_memorySizeW16 b"
          by (simp add: clear)
        with insert_rest_size [OF eq [unfolded Some option.case Let_def]] show ?thesis by simp
      qed
    qed
  qed
qed

lemma insert_refuses:
  assumes "pb_inv b" "\<not> (0 < rtp_payloadLen p \<and> rtp_payloadLen p \<le> 2 * pb_memorySizeW16 b)"
  shows "WebRtcNetEQ_PacketBufferInsert b p av_sync = Some (-1, 0, b)"
  using assms by (auto simp: WebRtcNetEQ_PacketBufferInsert_def pb_inv_def shl_eq_mult)

interpretation pbsafe: safe_sink pb_inv "\<lambda>b. 2 * pb_memorySizeW16 b"
  "\<lambda>b p. WebRtcNetEQ_PacketBufferInsert b p av_sync" for av_sync
proof unfold_locales
  fix b p assume "pb_inv b" "packet_fits (2 * pb_memorySizeW16 b) p"
  then have "pb_inv b" "pb_fits b p" by (simp_all add: pb_fits_packet)
  then obtain fl b' where "WebRtcNetEQ_PacketBufferInsert b p av_sync = Some (0, fl, b')" "pb_inv b'"
    by (rule insert_inv)
  with insert_memory_size [OF this(1)]
  show "\<exists>fl b'. WebRtcNetEQ_PacketBufferInsert b p av_sync = Some (0, fl, b') \<and> pb_inv b'
      \<and> 2 * pb_memorySizeW16 b' = 2 * pb_memorySizeW16 b"
    by (intro exI [of _ fl] exI [of _ b'] conjI) simp_all
qed (rule insert_refuses)

interpretation pbsink: packet_sink pb_fifo "\<lambda>b. 2 * pb_memorySizeW16 b"
  "\<lambda>b p. WebRtcNetEQ_PacketBufferInsert b p False" pb_abs
proof unfold_locales
  fix b p assume b: "pb_fifo b" "packet_fits (2 * pb_memorySizeW16 b) p"
  then have fits: "pb_fits b p" by (simp add: pb_fits_packet)
  obtain fl b' where b': "WebRtcNetEQ_PacketBufferInsert b p False = Some (0, fl, b')"
    "pb_abs b' = (if fl = 0 then pb_abs b else []) @ [packet_of p]" "pb_fifo b \<Longrightarrow> pb_fifo b'"
    using insert_ring [OF fifo_ring [OF b(1)] fits] by blast
  show "\<exists>fl b'. WebRtcNetEQ_PacketBufferInsert b p False = Some (0, fl, b') \<and> pb_fifo b'
      \<and> 2 * pb_memorySizeW16 b' = 2 * pb_memorySizeW16 b"
    using b'(1) b'(3) [OF b(1)] insert_memory_size [OF b'(1)]
    by (intro exI [of _ fl] exI [of _ b'] conjI) simp_all
  have inv: "pb_inv b" using b(1) by (simp add: pb_fifo_def)
  obtain fl1 b1 where "WebRtcNetEQ_PacketBufferInsert b p False = Some (0, fl1, b1)" "fl1 \<in> {0, 1}"
    by (rule insert_inv [OF inv fits])
  then have "fl \<in> {0, 1}" using b'(1) by simp
  moreover fix r fl2 b2 assume "WebRtcNetEQ_PacketBufferInsert b p False = Some (r, fl2, b2)"
  then have "fl2 = fl" "b2 = b'" using b'(1) by simp_all
  ultimately show "fl2 \<in> {0, 1} \<and> pb_abs b2 = (if fl2 = 0 then pb_abs b else []) @ [packet_of p]"
    using b'(2) by simp
qed (rule insert_refuses, simp_all add: pb_fifo_def)

section \<open>Frame sizes\<close>

text \<open>The splittings that \<open>WebRtcNetEQ_DbGetSplitInfo\<close> gives.\<close>

definition split_ok :: "split_info \<Rightarrow> bool" where
  "split_ok inst \<longleftrightarrow>
     sp_deltaBytes inst = NO_SPLIT \<or> sp_deltaBytes inst < -10 \<or> 0 < sp_deltaBytes inst"

lemma split_info_ok:
  "WebRtcNetEQ_DbGetSplitInfo inst0 codec len = (0, inst) \<Longrightarrow> split_ok inst"
  by (simp add: WebRtcNetEQ_DbGetSplitInfo_def ilbc_split_def split_ok_def db_errors AMBIGUOUS_ILBC_FRAME_SIZE_def
      split: if_splits) auto

lemma soft_halve:
  assumes "2 \<le> limit" "0 < len"
  shows "\<exists>n. while_option (\<lambda>n. limit \<le> n) (\<lambda>n. shr n 1) len = Some n \<and> 0 < n \<and> n \<le> len
    \<and> n < limit \<and> (limit \<le> len \<longrightarrow> limit div 2 \<le> n) \<and> (len < limit \<longrightarrow> n = len)"
  using assms(2)
proof (induction "nat len" arbitrary: len rule: less_induct)
  case less
  note unfold_loop = while_option_unfold [of "\<lambda>n. limit \<le> n" "\<lambda>n. shr n 1" len]
  show ?case
  proof (cases "limit \<le> len")
    case True
    let ?half = "len div 2"
    have h: "shr len 1 = ?half" by (simp add: shr_eq_div)
    have half: "nat ?half < nat len" "0 < ?half" "limit div 2 \<le> ?half" "?half \<le> len"
      using True assms(1) by auto
    obtain n where "while_option (\<lambda>n. limit \<le> n) (\<lambda>n. shr n 1) ?half = Some n" "0 < n" "n \<le> ?half"
      "n < limit" "limit \<le> ?half \<longrightarrow> limit div 2 \<le> n" "?half < limit \<longrightarrow> n = ?half"
      using less.hyps [OF half(1,2)] by blast
    moreover have "limit div 2 \<le> n" using calculation half(3) by linarith
    ultimately show ?thesis
      unfolding unfold_loop h using True half(4) by (intro exI [of _ n]) auto
  next
    case False
    then show ?thesis unfolding unfold_loop using less.prems by simp
  qed
qed

lemma soft_limit_ge: "sp_deltaBytes inst < -10 \<Longrightarrow> 80 \<le> soft_limit inst"
proof -
  assume d: "sp_deltaBytes inst < -10"
  have "(1 :: int) \<le> 2 ^ nat (sp_deltaTime inst)" by simp
  then have "80 * 1 \<le> (80 * 2 ^ nat (sp_deltaTime inst)) * (\<bar>sp_deltaBytes inst\<bar> - 10)"
    using d by (intro mult_mono) auto
  then show ?thesis by (simp add: soft_limit_def shl_eq_mult)
qed

lemma soft_size:
  assumes "sp_deltaBytes inst < -10" "0 < len"
  obtains n where "soft_split_size inst len = Some (int n)" "0 < n" "int n \<le> len"
    "int n < soft_limit inst" "even n \<or> len = 1" "soft_limit inst \<le> len \<longrightarrow> soft_limit inst div 2 - 1 \<le> int n"
    "len < soft_limit inst \<longrightarrow> len - 1 \<le> int n"
proof -
  have lim: "2 \<le> soft_limit inst" using soft_limit_ge [OF assms(1)] by simp
  obtain m where m: "while_option (\<lambda>n. soft_limit inst \<le> n) (\<lambda>n. shr n 1) len = Some m" "0 < m" "m \<le> len"
    "m < soft_limit inst" "soft_limit inst \<le> len \<longrightarrow> soft_limit inst div 2 \<le> m" "len < soft_limit inst \<longrightarrow> m = len"
    using soft_halve [OF lim assms(2)] by blast
  show thesis
  proof (cases "m = 1")
    case True
    have "len = 1"
      using m(5,6) True soft_limit_ge [OF assms(1)] by (cases "len < soft_limit inst") auto
    with m True show thesis by (intro that [of 1]) (auto simp: soft_split_size_def)
  next
    case False
    define k where "k = nat (m div 2)"
    have k: "m div 2 = int k" "0 < k" "int k * 2 \<le> m" "m - 1 \<le> int k * 2"
      using False m(2) by (auto simp: k_def)
    show thesis
      by (rule that [of "2 * k"]) (use k m False in \<open>auto simp: soft_split_size_def shr_eq_div\<close>)
  qed
qed

text \<open>The frames a packet's payload is cut into, with their time stamps.\<close>

definition payload_frames :: "split_info \<Rightarrow> rtp_packet \<Rightarrow> (int \<times> byte list) list" where
  "payload_frames inst p = (let ts = rtp_timeStamp p; d = sp_deltaBytes inst in
     if d = NO_SPLIT then [(ts, rtp_data p)]
     else if d < -10
     then let n = the (soft_split_size inst (rtp_payloadLen p)) in
       split_frames (nat n) (nat (2 * n)) (shr (2 * n) (nat (sp_deltaTime inst))) ts (rtp_data p)
     else split_frames (nat d) (nat d) (sp_deltaTime inst) ts (rtp_data p))"

lemma packet_fits_data:
  assumes "packet_fits c p"
  shows "length (rtp_data p) = nat (rtp_payloadLen p)"
    "rtp_data p = take (nat (rtp_payloadLen p)) (drop (nat (rtp_starts_byte1 p)) (rtp_payload p))"
  using assms by (auto simp: packet_fits_def rtp_data_def slice_def)

text \<open>The three cases of the split, on a payload that fits, as runs of the loop.\<close>

lemma split_cases [case_names whole soft hard]:
  assumes "packet_fits c p" "split_ok inst"
  obtains (whole) "sp_deltaBytes inst = NO_SPLIT \<or> av_sync"
      "\<And>b. WebRtcNetEQ_SplitAndInsertPayload p b inst av_sync
         = Option.bind (WebRtcNetEQ_PacketBufferInsert b p av_sync)
             (\<lambda>(i_ok, fl, b'). Some (if i_ok < 0 then PBUFFER_INSERT_ERROR5 else 0, fl, b'))"
  | (soft) n where "sp_deltaBytes inst < -10" "soft_split_size inst (rtp_payloadLen p) = Some (int n)"
      "0 < n" "even n \<or> rtp_payloadLen p = 1"
      "\<And>b. WebRtcNetEQ_SplitAndInsertPayload p b inst av_sync
         = split_run (\<lambda>b p. WebRtcNetEQ_PacketBufferInsert b p av_sync) True (rtp_payload p) (int n)
             (int (2 * n)) (shr (2 * int n) (nat (sp_deltaTime inst))) PBUFFER_INSERT_ERROR1
             PBUFFER_INSERT_ERROR2 0 (p\<lparr>rtp_payloadLen := int n\<rparr>) (int (nat (rtp_payloadLen p))) 0 b"
  | (hard) n where "sp_deltaBytes inst = int n" "0 < n"
      "\<And>b. WebRtcNetEQ_SplitAndInsertPayload p b inst av_sync
         = split_run (\<lambda>b p. WebRtcNetEQ_PacketBufferInsert b p av_sync) False (rtp_payload p) (int n)
             (int n) (sp_deltaTime inst) PBUFFER_INSERT_ERROR3
             PBUFFER_INSERT_ERROR4 0 (p\<lparr>rtp_payloadLen := int n\<rparr>) (int (nat (rtp_payloadLen p))) 0 b"
proof -
  have len: "0 < rtp_payloadLen p" "int (nat (rtp_payloadLen p)) = rtp_payloadLen p"
    using assms(1) by (simp_all add: packet_fits_def)
  let ?whole = "sp_deltaBytes inst = NO_SPLIT \<or>
    av_sync \<and> WebRtcNetEQ_IsSyncPayload (rtp_payload p) (rtp_payloadLen p)"
  consider ?whole | "\<not> ?whole" "sp_deltaBytes inst < -10" | "\<not> ?whole" "0 < sp_deltaBytes inst"
    using assms(2) by (auto simp: split_ok_def)
  then show thesis
  proof cases
    case 1
    then show thesis by (intro whole) (auto simp: WebRtcNetEQ_SplitAndInsertPayload_def)
  next
    case 2
    obtain n where n: "soft_split_size inst (rtp_payloadLen p) = Some (int n)" "0 < n"
      "even n \<or> rtp_payloadLen p = 1"
      by (rule soft_size [OF 2(2) len(1)]) blast
    show thesis
      by (rule soft [OF 2(2) n]) (use 2 n(1) len(2) in \<open>auto simp add: WebRtcNetEQ_SplitAndInsertPayload_def Let_def\<close>)
  next
    case 3
    then show thesis
      by (intro hard [of "nat (sp_deltaBytes inst)"])
        (use len(2) in \<open>auto simp add: WebRtcNetEQ_SplitAndInsertPayload_def Let_def\<close>)
  qed
qed

section \<open>Properties\<close>

text \<open>
  C9: Splitting a payload keeps it.  When the frames have an even size or the payload starts on
  a word, the packet buffer receives exactly the frames of \<open>payload_frames\<close>, in order, behind the
  packets it holds; if it was flushed on the way, a final part of that sequence is left.
\<close>

theorem split_inserts_frames:
  assumes "pb_fifo b" "pb_fits b p" "split_ok inst"
    "even (sp_deltaBytes inst) \<or> rtp_starts_byte1 p = 0"
  shows "\<exists>fl b' k. WebRtcNetEQ_SplitAndInsertPayload p b inst False = Some (0, fl, b') \<and> pb_fifo b'
    \<and> pb_abs b' = drop k (pb_abs b @ map (frame_packet p) (payload_frames inst p))
    \<and> (fl = 0 \<longrightarrow> k = 0)"
proof -
  have fits: "packet_fits (2 * pb_memorySizeW16 b) p" using assms(2) by (simp add: pb_fits_packet)
  define s where "s = nat (rtp_starts_byte1 p)"
  have s: "rtp_starts_byte1 p = int s" "s \<le> 1" "0 < nat (rtp_payloadLen p)"
    "int (nat (rtp_payloadLen p)) \<le> 2 * pb_memorySizeW16 b"
    "s + 0 + nat (rtp_payloadLen p) \<le> length (rtp_payload p)"
    using fits by (auto simp: packet_fits_def s_def)
  note first = frame_first [OF refl s(1,2)]
  have frame: "frame_packet (p\<lparr>rtp_payloadLen := m\<rparr>) = frame_packet p" for m
    by (rule ext) (simp add: frame_packet_def)
  note data = packet_fits_data(2) [OF fits, folded s_def]
  have twice: "nat (2 * int n) = 2 * n" for n by simp
  show ?thesis
    using fits assms(3)
  proof (cases rule: split_cases [where av_sync = False])
    case whole
    obtain fl b' j where b': "WebRtcNetEQ_PacketBufferInsert b p False = Some (0, fl, b')" "pb_fifo b'"
      "\<And>xs. pb_abs b' @ xs = drop j (pb_abs b @ packet_of p # xs)" "fl = 0 \<longrightarrow> j = 0"
      by (rule pbsink.ins_drop [OF assms(1) fits]) blast
    have "packet_of p = frame_packet p (rtp_timeStamp p, rtp_data p)"
      by (simp add: packet_of_def frame_packet_def)
    then show ?thesis
      using b' b'(3) [of "[]"] whole by (intro exI [of _ fl] exI [of _ b'] exI [of _ j]) (simp add: payload_frames_def)
  next
    case (soft n)
    have "even n \<or> s = 0 \<or> (0::nat) = 0 \<and> nat (rtp_payloadLen p) < 2 * n" using soft(3,4) by auto
    from pbsink.split_run_appends [OF assms(1) first s(2) this soft(3) _ s(4), of True 0
        "shr (2 * int n) (nat (sp_deltaTime inst))" PBUFFER_INSERT_ERROR1 PBUFFER_INSERT_ERROR2]
    show ?thesis
      using s soft by (simp add: frame payload_frames_def Let_def data twice) blast
  next
    case (hard n)
    have "even n \<or> s = 0 \<or> (0::nat) = 0 \<and> nat (rtp_payloadLen p) < n" using assms(4) s(1) hard(1) by auto
    from pbsink.split_run_appends [OF assms(1) first s(2) this hard(2) _ s(4), of False 0
        "sp_deltaTime inst" PBUFFER_INSERT_ERROR3 PBUFFER_INSERT_ERROR4]
    show ?thesis
      using s hard by (simp add: frame payload_frames_def Let_def data twice) blast
  qed
qed

text \<open>Three G.729 frames of 10 bytes, 80 time stamp units each, from an odd address.\<close>

definition split_example :: rtp_packet where
  "split_example = rtp_blank\<lparr>rtp_timeStamp := 4294967200, rtp_payload := map word_of_int [0..30],
     rtp_payloadLen := 30, rtp_starts_byte1 := 1\<rparr>"

abbreviation (input) g729_split :: split_info where
  "g729_split \<equiv> \<lparr>sp_deltaBytes = 10, sp_deltaTime = 80\<rparr>"

lemma split_example_fits: "pb_fits pb_example split_example"
  using pb_example_fifo(3) by (simp add: pb_fits_def split_example_def rtp_blank_def)

lemma split_inserts_frames_witness:
  "\<exists>fl b' k. WebRtcNetEQ_SplitAndInsertPayload split_example pb_example g729_split False
      = Some (0, fl, b') \<and> pb_fifo b'
    \<and> pb_abs b' = drop k (pb_abs pb_example
        @ map (frame_packet split_example) (payload_frames g729_split split_example))
    \<and> (fl = 0 \<longrightarrow> k = 0)"
  by (rule split_inserts_frames [OF pb_example_fifo(1) split_example_fits]) (simp_all add: split_ok_def)

lemma split_frames_step:
  "0 < n \<Longrightarrow> n \<le> bound \<Longrightarrow> Suc k < length (split_frames n bound dt ts bs) \<Longrightarrow>
   fst (split_frames n bound dt ts bs ! Suc k) = u32 (fst (split_frames n bound dt ts bs ! k) + dt)
   \<and> length (snd (split_frames n bound dt ts bs ! k)) = n \<and> bound \<le> length bs"
proof (induction n bound dt ts bs arbitrary: k rule: split_frames.induct)
  case (1 n bound dt ts bs)
  note frames = split_frames.simps [of n bound dt ts bs]
  let ?rest = "split_frames n bound dt (u32 (ts + dt)) (drop n bs)"
  have b: "bound \<le> length bs" using 1(4) unfolding frames by (auto split: if_splits)
  then have f: "split_frames n bound dt ts bs = (ts, take n bs) # ?rest" using 1(2,3) unfolding frames by simp
  show ?case
  proof (cases k)
    case 0
    have "fst (?rest ! 0) = u32 (ts + dt)"
      using 1(4) unfolding f 0 by (subst split_frames.simps) (auto simp: split_frames.simps [of n bound dt _ "drop n bs"])
    then show ?thesis using b 1(3) unfolding f 0 by simp
  next
    case (Suc j)
    then show ?thesis using 1(1) [of j] 1(2-4) b unfolding f by simp
  qed
qed

definition frame_time :: "split_info \<Rightarrow> nat \<Rightarrow> int" where
  "frame_time inst n = (if sp_deltaBytes inst < -10 then shr (2 * int n) (nat (sp_deltaTime inst))
     else sp_deltaTime inst)"

lemma payload_frames_form:
  assumes "sp_deltaBytes inst \<noteq> NO_SPLIT" "packet_fits c p" "split_ok inst"
  obtains n bound dt where
    "payload_frames inst p = split_frames n bound dt (rtp_timeStamp p) (rtp_data p)"
    "0 < n" "n \<le> bound" "frame_time inst n = dt"
proof (cases "sp_deltaBytes inst < -10")
  case True
  have len: "0 < rtp_payloadLen p" using assms(2) by (simp add: packet_fits_def)
  obtain n where n: "soft_split_size inst (rtp_payloadLen p) = Some (int n)" "0 < n"
    by (rule soft_size [OF True len]) blast
  then show thesis
    using assms(1) True by (intro that [of n "nat (2 * int n)"]) (simp_all add: payload_frames_def frame_time_def Let_def)
next
  case False
  then show thesis
    using assms(1,3) by (intro that [of "nat (sp_deltaBytes inst)" "nat (sp_deltaBytes inst)"])
      (auto simp: payload_frames_def frame_time_def split_ok_def Let_def)
qed

text \<open>
  The frames of a payload are not empty, put together they are the payload, and the time
  stamp advances from frame to frame by the duration of the frame, modulo \<open>2 ^ 32\<close>.
\<close>

theorem payload_frames_cover:
  assumes "packet_fits c p" "split_ok inst"
  shows "concat (map snd (payload_frames inst p)) = rtp_data p
    \<and> (\<forall>f \<in> set (payload_frames inst p). snd f \<noteq> [])
    \<and> (\<forall>k. Suc k < length (payload_frames inst p) \<longrightarrow>
       fst (payload_frames inst p ! Suc k) = u32 (fst (payload_frames inst p ! k)
         + frame_time inst (length (snd (payload_frames inst p ! k)))))"
proof (cases "sp_deltaBytes inst = NO_SPLIT")
  case True
  have "rtp_data p \<noteq> []"
    using packet_fits_data(1) [OF assms(1)] assms(1) by (auto simp: packet_fits_def)
  with True show ?thesis by (simp add: payload_frames_def)
next
  case False
  then obtain n bound dt where f: "payload_frames inst p = split_frames n bound dt (rtp_timeStamp p) (rtp_data p)"
    "0 < n" "n \<le> bound" "frame_time inst n = dt"
    using assms by (rule payload_frames_form)
  show ?thesis
    unfolding f(1)
  proof (intro conjI ballI allI impI)
    fix x assume "x \<in> set (split_frames n bound dt (rtp_timeStamp p) (rtp_data p))"
    from split_frames_length [OF f(2,3) this] show "snd x \<noteq> []" by auto
  next
    fix k assume "Suc k < length (split_frames n bound dt (rtp_timeStamp p) (rtp_data p))"
    from split_frames_step [OF f(2,3) this] f(4)
    show "fst (split_frames n bound dt (rtp_timeStamp p) (rtp_data p) ! Suc k)
      = u32 (fst (split_frames n bound dt (rtp_timeStamp p) (rtp_data p) ! k)
          + frame_time inst (length (snd (split_frames n bound dt (rtp_timeStamp p) (rtp_data p) ! k))))"
      by simp
  qed (rule split_frames_concat)
qed

lemma payload_frames_cover_witness:
  "concat (map snd (payload_frames g729_split split_example)) = rtp_data split_example
    \<and> list_all (\<lambda>f. snd f \<noteq> []) (payload_frames g729_split split_example)
    \<and> list_all (\<lambda>k. fst (payload_frames g729_split split_example ! Suc k)
         = u32 (fst (payload_frames g729_split split_example ! k)
           + frame_time g729_split (length (snd (payload_frames g729_split split_example ! k)))))
        [0..<length (payload_frames g729_split split_example) - 1]"
proof -
  have "packet_fits 156 split_example" "split_ok g729_split"
    by (simp_all add: packet_fits_def split_ok_def split_example_def rtp_blank_def)
  from payload_frames_cover [OF this] show ?thesis by (auto simp: list_all_iff)
qed

text \<open>
  Soft splitting cuts long payloads into frames of at least 20 and less than 40 ms (up to
  the rounding to an even size), and what is left for the last frame is less than 80 ms;
  \<open>soft_limit\<close> is the size of 40 ms of samples.
\<close>

theorem soft_frames_bounded:
  assumes "packet_fits c p" "sp_deltaBytes inst < -10"
  shows "(\<forall>f \<in> set (payload_frames inst p). int (length (snd f)) < 2 * soft_limit inst)
    \<and> (\<forall>k. Suc k < length (payload_frames inst p) \<longrightarrow>
         soft_limit inst div 2 - 1 \<le> int (length (snd (payload_frames inst p ! k)))
       \<and> int (length (snd (payload_frames inst p ! k))) < soft_limit inst)"
proof -
  have len: "0 < rtp_payloadLen p" using assms(1) by (simp add: packet_fits_def)
  obtain n where n: "soft_split_size inst (rtp_payloadLen p) = Some (int n)" "0 < n"
    "int n < soft_limit inst" "even n \<or> rtp_payloadLen p = 1"
    "soft_limit inst \<le> rtp_payloadLen p \<longrightarrow> soft_limit inst div 2 - 1 \<le> int n"
    "rtp_payloadLen p < soft_limit inst \<longrightarrow> rtp_payloadLen p - 1 \<le> int n"
    by (rule soft_size [OF assms(2) len])
  let ?dt = "shr (2 * int n) (nat (sp_deltaTime inst))"
  let ?fs = "split_frames n (2 * n) ?dt (rtp_timeStamp p) (rtp_data p)"
  have twice: "nat (2 * int n) = 2 * n" by simp
  have fs: "payload_frames inst p = ?fs"
    using assms(2) n(1) by (simp add: payload_frames_def Let_def twice)
  have n2: "n \<le> 2 * n" by simp
  show ?thesis
    unfolding fs
  proof (intro conjI ballI allI impI)
    fix f assume "f \<in> set ?fs"
    from split_frames_length [OF n(2) n2 this] n(3) show "int (length (snd f)) < 2 * soft_limit inst" by auto
  next
    fix k assume "Suc k < length ?fs"
    note step = split_frames_step [OF n(2) n2 this]
    have long: "2 * int n \<le> rtp_payloadLen p"
      using step packet_fits_data(1) [OF assms(1)] len by linarith
    have "soft_limit inst \<le> rtp_payloadLen p"
    proof (rule ccontr)
      assume "\<not> ?thesis"
      then have "n \<le> 1" using n(6) long by auto
      then show False using n(2,4) long by auto
    qed
    then show "soft_limit inst div 2 - 1 \<le> int (length (snd (?fs ! k)))" using n(5) step by simp
    show "int (length (snd (?fs ! k))) < soft_limit inst" using n(3) step by simp
  qed
qed

text \<open>640 bytes of 8 kHz mu-law audio, 80 ms.\<close>

definition soft_example :: rtp_packet where
  "soft_example = rtp_blank\<lparr>rtp_payload := replicate 640 7, rtp_payloadLen := 640\<rparr>"

abbreviation (input) pcmu_split :: split_info where
  "pcmu_split \<equiv> \<lparr>sp_deltaBytes = -12, sp_deltaTime = 1\<rparr>"

lemma soft_frames_bounded_witness:
  "list_all (\<lambda>f. int (length (snd f)) < 2 * soft_limit pcmu_split) (payload_frames pcmu_split soft_example)
    \<and> list_all (\<lambda>k. soft_limit pcmu_split div 2 - 1 \<le> int (length (snd (payload_frames pcmu_split soft_example ! k)))
         \<and> int (length (snd (payload_frames pcmu_split soft_example ! k))) < soft_limit pcmu_split)
        [0..<length (payload_frames pcmu_split soft_example) - 1]"
proof -
  have "packet_fits 640 soft_example" by (simp add: packet_fits_def soft_example_def rtp_blank_def)
  then show ?thesis using soft_frames_bounded [of 640 soft_example pcmu_split] by (auto simp: list_all_iff)
qed

lemma split_ok_safe:
  assumes "pb_inv b" "pb_fits b p" "split_ok inst"
  shows "\<exists>fl b'. WebRtcNetEQ_SplitAndInsertPayload p b inst av_sync = Some (0, fl, b') \<and> pb_inv b'
    \<and> pb_memorySizeW16 b' = pb_memorySizeW16 b"
proof -
  have fits: "packet_fits (2 * pb_memorySizeW16 b) p" using assms(2) by (simp add: pb_fits_packet)
  define s where "s = nat (rtp_starts_byte1 p)"
  have s: "rtp_starts_byte1 p = int s" "s \<le> 1" "0 < nat (rtp_payloadLen p)"
    "int (nat (rtp_payloadLen p)) \<le> 2 * pb_memorySizeW16 b"
    "s + 0 + nat (rtp_payloadLen p) \<le> length (rtp_payload p)"
    using fits by (auto simp: packet_fits_def s_def)
  note first = frame_first [OF refl s(1,2)]
  show ?thesis
    using fits assms(3)
  proof (cases rule: split_cases [where av_sync = av_sync])
    case whole
    obtain fl b' where "WebRtcNetEQ_PacketBufferInsert b p av_sync = Some (0, fl, b')" "pb_inv b'"
      "2 * pb_memorySizeW16 b' = 2 * pb_memorySizeW16 b"
      using pbsafe.ins_safe [OF assms(1) fits] by blast
    then show ?thesis using whole by simp
  next
    case (soft n)
    from pbsafe.split_run_safe [OF assms(1) first s(2) soft(3) _ s(4), of "2 * n" True av_sync
        "shr (2 * int n) (nat (sp_deltaTime inst))" PBUFFER_INSERT_ERROR1 PBUFFER_INSERT_ERROR2 0]
    show ?thesis using s soft(3,5) by auto
  next
    case (hard n)
    from pbsafe.split_run_safe [OF assms(1) first s(2) hard(2) _ s(4), of n False av_sync
        "sp_deltaTime inst" PBUFFER_INSERT_ERROR3 PBUFFER_INSERT_ERROR4 0]
    show ?thesis using s hard(3) by auto
  qed
qed

text \<open>With a payload of any length, empty, too long or not, splitting and inserting ends and keeps the buffer.\<close>

lemma split_nonpositive:
  assumes "pb_inv b" "rtp_payloadLen p \<le> 0" "split_ok inst"
  shows "\<exists>r fl. WebRtcNetEQ_SplitAndInsertPayload p b inst av_sync = Some (r, fl, b)"
proof -
  let ?n = "rtp_payloadLen p"
  have ref: "WebRtcNetEQ_PacketBufferInsert b (p\<lparr>rtp_payloadLen := k\<rparr>) av_sync = Some (-1, 0, b)" if "k \<le> 0" for k
    using insert_refuses [OF assms(1), of "p\<lparr>rtp_payloadLen := k\<rparr>"] that by simp
  then have ref0: "WebRtcNetEQ_PacketBufferInsert b p av_sync = Some (-1, 0, b)"
    using insert_refuses [OF assms(1), of p] assms(2) by simp
  have soft: "soft_split_size inst ?n = Some ?n" if "sp_deltaBytes inst < -10"
    using soft_limit_ge [OF that] assms(2) by (simp add: soft_split_size_def while_option_unfold)
  have run: "\<exists>r fl. split_run (\<lambda>b p. WebRtcNetEQ_PacketBufferInsert b p av_sync) sf start n bound dt e1 e2 0 (p\<lparr>rtp_payloadLen := n\<rparr>) ?n 0 b
      = Some (r, fl, b)" if "bound \<le> ?n \<longrightarrow> n \<le> 0" for sf start n bound dt e1 e2
    using that ref [of n] ref [OF assms(2)] by (subst split_run.simps) simp
  show ?thesis
    using run [of "2 * ?n" ?n] run [of "sp_deltaBytes inst" "sp_deltaBytes inst"] ref0 soft assms(2,3)
    by (auto simp: WebRtcNetEQ_SplitAndInsertPayload_def Let_def split_ok_def)
qed

lemma split_inside_safe:
  assumes "pb_inv b" "packet_inside p" "split_ok inst"
  shows "\<exists>r fl b'. WebRtcNetEQ_SplitAndInsertPayload p b inst av_sync = Some (r, fl, b') \<and> pb_inv b'
    \<and> pb_memorySizeW16 b' = pb_memorySizeW16 b"
proof (cases "0 < rtp_payloadLen p")
  case False
  then show ?thesis using split_nonpositive [OF assms(1) _ assms(3), of p av_sync] assms(1) by auto
next
  case True
  then have fits: "packet_fits (rtp_payloadLen p) p" using assms(2) by (simp add: packet_fits_inside)
  define s where "s = nat (rtp_starts_byte1 p)"
  have s: "rtp_starts_byte1 p = int s" "s \<le> 1" "s + 0 + nat (rtp_payloadLen p) \<le> length (rtp_payload p)" "0 < nat (rtp_payloadLen p)"
    using fits by (auto simp: packet_fits_def s_def)
  note first = frame_first [OF refl s(1,2)]
  show ?thesis
    using fits assms(3)
  proof (cases rule: split_cases [where av_sync = av_sync])
    case whole
    obtain r fl b' where "WebRtcNetEQ_PacketBufferInsert b p av_sync = Some (r, fl, b')" "pb_inv b'"
      "2 * pb_memorySizeW16 b' = 2 * pb_memorySizeW16 b"
      using pbsafe.ins_inside [OF assms(1,2)] by blast
    then show ?thesis using whole by simp
  next
    case (soft n)
    from pbsafe.split_run_inside [OF assms(1) first s(2) soft(3), of "2 * n" "nat (rtp_payloadLen p)" av_sync True
        "shr (2 * int n) (nat (sp_deltaTime inst))" PBUFFER_INSERT_ERROR1 PBUFFER_INSERT_ERROR2 0]
    show ?thesis using s soft(3,5) by auto
  next
    case (hard n)
    from pbsafe.split_run_inside [OF assms(1) first s(2) hard(2), of n "nat (rtp_payloadLen p)" av_sync False
        "sp_deltaTime inst" PBUFFER_INSERT_ERROR3 PBUFFER_INSERT_ERROR4 0]
    show ?thesis using s hard(3) by auto
  qed
qed

text \<open>
  Whatever splitting the codec database gives, splitting and inserting a payload that fits
  the packet buffer ends, stays in the memory, succeeds, and keeps the buffer well formed,
  with AV-sync payloads or without.
\<close>

theorem split_insert_safe:
  assumes "pb_inv b" "pb_fits b p" "WebRtcNetEQ_DbGetSplitInfo inst0 codec len = (0, inst)"
  shows "\<exists>fl b'. WebRtcNetEQ_SplitAndInsertPayload p b inst av_sync = Some (0, fl, b') \<and> pb_inv b'"
  using split_ok_safe [OF assms(1,2) split_info_ok [OF assms(3)]] by blast

lemma split_insert_safe_witness:
  "\<exists>fl b'. WebRtcNetEQ_SplitAndInsertPayload split_example pb_example g729_split True = Some (0, fl, b')
    \<and> pb_inv b'"
  by (rule split_insert_safe [OF pb_example_inv(1) split_example_fits, of "\<lparr>sp_deltaBytes = 0, sp_deltaTime = 0\<rparr>" kDecoderG729 30])
    (simp add: WebRtcNetEQ_DbGetSplitInfo_def)

text \<open>
  A payload that does not start on a word, in frames of an odd size (GSM-FR's 33 bytes): the
  second frame is read two bytes too early, because the toggled starting byte is not carried
  into the word pointer.
\<close>

theorem odd_frames_misaligned:
  assumes "pb_fifo b" "pb_fits b p" "sp_deltaBytes inst = int d" "odd d"
    "rtp_payloadLen p = int (2 * d)" "rtp_starts_byte1 p = 1"
  shows "\<exists>fl b' k. WebRtcNetEQ_SplitAndInsertPayload p b inst False = Some (0, fl, b')
    \<and> pb_abs b' = drop k (pb_abs b @
        [frame_packet p (rtp_timeStamp p, slice 1 d (rtp_payload p)),
         frame_packet p (u32 (rtp_timeStamp p + sp_deltaTime inst), slice (d - 1) d (rtp_payload p))])
    \<and> payload_frames inst p =
        [(rtp_timeStamp p, slice 1 d (rtp_payload p)),
         (u32 (rtp_timeStamp p + sp_deltaTime inst), slice (1 + d) d (rtp_payload p))]"
proof -
  let ?p1 = "p\<lparr>rtp_payloadLen := int d\<rparr>"
  let ?p2 = "split_advance (rtp_payload p) (int d) (sp_deltaTime inst) (Suc 0) ?p1"
  have d: "0 < d" using assms(4) by (cases d) simp_all
  have fits: "packet_fits (2 * pb_memorySizeW16 b) p" using assms(2) by (simp add: pb_fits_packet)
  have "frame_state (rtp_payload p) 1 d 0 ?p1" by (rule frame_first) (simp_all add: assms(6))
  note frames = this frame_advance [OF this, of "sp_deltaTime inst"]
  have room: "1 + 2 * d \<le> length (rtp_payload p)" "int d \<le> 2 * pb_memorySizeW16 b"
    using fits assms(5,6) by (auto simp: packet_fits_def)
  have one: "packet_fits (2 * pb_memorySizeW16 b) (?p1\<lparr>rtp_payloadLen := int d\<rparr>)"
    by (rule frame_fits [OF frames(1)]) (use room d in auto)
  have two: "packet_fits (2 * pb_memorySizeW16 b) (?p2\<lparr>rtp_payloadLen := int d\<rparr>)"
    by (rule frame_fits [OF frames(2)]) (use room d in auto)
  have p1: "?p1\<lparr>rtp_payloadLen := int d\<rparr> = ?p1" by simp
  have p2: "?p2\<lparr>rtp_payloadLen := int d\<rparr> = ?p2" by (simp add: split_advance_def)
  obtain fl1 b1 j1 where b1: "WebRtcNetEQ_PacketBufferInsert b ?p1 False = Some (0, fl1, b1)" "pb_fifo b1"
    "2 * pb_memorySizeW16 b1 = 2 * pb_memorySizeW16 b" "\<And>xs. pb_abs b1 @ xs = drop j1 (pb_abs b @ packet_of ?p1 # xs)"
    by (rule pbsink.ins_drop [OF assms(1) one [unfolded p1]]) blast
  obtain fl2 b2 j2 where b2: "WebRtcNetEQ_PacketBufferInsert b1 ?p2 False = Some (0, fl2, b2)"
    "\<And>xs. pb_abs b2 @ xs = drop j2 (pb_abs b1 @ packet_of ?p2 # xs)"
    by (rule pbsink.ins_drop [OF b1(2) two [folded b1(3), unfolded p2]]) blast
  have q1: "packet_of ?p1 = frame_packet p (rtp_timeStamp p, slice 1 d (rtp_payload p))"
    by (simp add: packet_of_def frame_packet_def rtp_data_def assms(6))
  have half: "2 * (d div 2) = d - 1" using assms(4) by presburger
  have "rtp_starts_byte1 ?p2 = 0" "rtp_payload ?p2 = drop (d - 1) (rtp_payload p)"
    using frames(2) assms(4) by (simp_all add: frame_state_def half)
  then have q2: "packet_of ?p2 = frame_packet p (u32 (rtp_timeStamp p + sp_deltaTime inst), slice (d - 1) d (rtp_payload p))"
    by (simp add: packet_of_def frame_packet_def rtp_data_def slice_def) (simp add: split_advance_def)
  note run = split_run.simps [of "\<lambda>b p. WebRtcNetEQ_PacketBufferInsert b p False" False "rtp_payload p"
      "int d" "int d" "sp_deltaTime inst" PBUFFER_INSERT_ERROR3 PBUFFER_INSERT_ERROR4]
  note steps = run [of 0 ?p1 "2 * int d" 0 b] run [of "Suc 0" ?p2 "int d" fl1 b1]
    run [of "Suc (Suc 0)" "split_advance (rtp_payload p) (int d) (sp_deltaTime inst) (Suc (Suc 0)) ?p2" 0 "fl1 OR fl2" b2]
  have "WebRtcNetEQ_SplitAndInsertPayload p b inst False = Some (0, fl1 OR fl2, b2)"
    using assms(3,5) d b1(1) b2(1)
    by (simp add: WebRtcNetEQ_SplitAndInsertPayload_def Let_def steps)
  moreover have "pb_abs b2 = drop (j1 + j2) (pb_abs b @ [packet_of ?p1, packet_of ?p2])"
    using b2(2) [of "[]"] b1(4) [of "[packet_of ?p2]"] by (simp only: append_Nil2 drop_drop add.commute)
  moreover have odd_frames: "split_frames d d (sp_deltaTime inst) (rtp_timeStamp p) (rtp_data p) =
      [(rtp_timeStamp p, slice 1 d (rtp_payload p)),
       (u32 (rtp_timeStamp p + sp_deltaTime inst), slice (1 + d) d (rtp_payload p))]"
  proof -
    have data: "rtp_data p = slice 1 d (rtp_payload p) @ slice (1 + d) d (rtp_payload p)"
      unfolding rtp_data_def assms(5,6) slice_add [symmetric] nat_int mult_2 by simp
    have len: "length (slice 1 d (rtp_payload p)) = d" "length (slice (1 + d) d (rtp_payload p)) = d"
      using room(1) by simp_all
    show ?thesis
      using split_frames_Cons [OF d len(1)] split_frames_Cons [OF d len(2), where ys = "[]"]
      unfolding data by simp
  qed
  moreover have "payload_frames inst p = [(rtp_timeStamp p, slice 1 d (rtp_payload p)),
         (u32 (rtp_timeStamp p + sp_deltaTime inst), slice (1 + d) d (rtp_payload p))]"
    using assms(3,4) d odd_frames by (simp add: payload_frames_def Let_def)
  ultimately show ?thesis unfolding q1 q2 by blast
qed

definition gsmfr_example :: rtp_packet where
  "gsmfr_example = rtp_blank\<lparr>rtp_payload := map word_of_int [0..66], rtp_payloadLen := 66,
     rtp_starts_byte1 := 1\<rparr>"

abbreviation (input) gsmfr_split :: split_info where
  "gsmfr_split \<equiv> \<lparr>sp_deltaBytes = 33, sp_deltaTime = 160\<rparr>"

lemma odd_frames_misaligned_witness:
  "\<exists>fl b' k. WebRtcNetEQ_SplitAndInsertPayload gsmfr_example pb_example gsmfr_split False = Some (0, fl, b')
    \<and> pb_abs b' = drop k (pb_abs pb_example @
        [frame_packet gsmfr_example (rtp_timeStamp gsmfr_example, slice 1 33 (rtp_payload gsmfr_example)),
         frame_packet gsmfr_example (u32 (rtp_timeStamp gsmfr_example + sp_deltaTime gsmfr_split),
           slice (33 - 1) 33 (rtp_payload gsmfr_example))])
    \<and> payload_frames gsmfr_split gsmfr_example =
        [(rtp_timeStamp gsmfr_example, slice 1 33 (rtp_payload gsmfr_example)),
         (u32 (rtp_timeStamp gsmfr_example + sp_deltaTime gsmfr_split),
           slice (1 + 33) 33 (rtp_payload gsmfr_example))]"
  by (rule odd_frames_misaligned [OF pb_example_fifo(1)])
    (simp_all add: pb_fits_def pb_example_fifo(3) gsmfr_example_def rtp_blank_def)

end
