(* ===== verification/Ring_Buffer.thy ===== *)
theory Ring_Buffer
  imports Fifo
begin

text \<open>
  The ring buffer of the audio processing module (\<open>audio_processing/utility/ring_buffer.c\<close>).
  The data area is a list of \<open>element_count\<close> elements, each a list of \<open>element_size\<close> bytes;
  positions are in elements, as in the code.  A null handle or data pointer is \<open>None\<close>.
  The invariant \<open>rb_inv\<close> bounds the positions, so that the unsigned subtractions of the code
  do not wrap, and the element count, so that its conversions to \<open>int\<close> keep the values.
\<close>

section \<open>State and operations\<close>

type_synonym element = "byte list"

datatype wrap = SAME_WRAP | DIFF_WRAP

record ring =
  rb_read_pos :: nat
  rb_write_pos :: nat
  rb_element_count :: nat
  rb_element_size :: nat
  rb_rw_wrap :: wrap
  rb_data :: "element list"

definition WebRtc_available_read :: "ring option \<Rightarrow> nat" where
  "WebRtc_available_read self = (case self of None \<Rightarrow> 0 | Some b \<Rightarrow>
     if rb_rw_wrap b = SAME_WRAP then rb_write_pos b - rb_read_pos b
     else rb_element_count b - rb_read_pos b + rb_write_pos b)"

definition WebRtc_available_write :: "ring option \<Rightarrow> nat" where
  "WebRtc_available_write self = (case self of None \<Rightarrow> 0 | Some b \<Rightarrow>
     rb_element_count b - WebRtc_available_read self)"

text \<open>The memory of a new buffer is not initialised: \<open>junk\<close> stands for what it holds.\<close>

definition WebRtc_CreateBuffer :: "ring \<Rightarrow> bool \<Rightarrow> nat \<Rightarrow> nat \<Rightarrow> ring option" where
  "WebRtc_CreateBuffer junk malloc_ok element_count element_size =
     (if element_count = 0 \<or> element_size = 0 then None
      else if \<not> malloc_ok then None
      else Some (junk\<lparr>rb_element_count := element_count, rb_element_size := element_size\<rparr>))"

definition WebRtc_InitBuffer :: "ring option \<Rightarrow> int \<times> ring option" where
  "WebRtc_InitBuffer self = (case self of None \<Rightarrow> (-1, None) | Some b \<Rightarrow>
     (0, Some (b\<lparr>rb_read_pos := 0, rb_write_pos := 0, rb_rw_wrap := SAME_WRAP,
        rb_data := replicate (rb_element_count b) (replicate (rb_element_size b) 0)\<rparr>)))"

text \<open>
  The regions to read from: the number of elements, and start and length of each region
  (the second is \<open>None\<close> when the read does not wrap).
\<close>

definition GetBufferReadRegions :: "ring \<Rightarrow> nat \<Rightarrow> nat \<times> (nat \<times> nat) \<times> (nat \<times> nat) option" where
  "GetBufferReadRegions b element_count =
     (let readable_elements = WebRtc_available_read (Some b);
          read_elements = (if readable_elements < element_count then readable_elements
                           else element_count);
          margin = rb_element_count b - rb_read_pos b
      in if read_elements > margin
         then (read_elements, (rb_read_pos b, margin), Some (0, read_elements - margin))
         else (read_elements, (rb_read_pos b, read_elements), None))"

definition WebRtc_MoveReadPtr :: "ring option \<Rightarrow> int \<Rightarrow> int \<times> ring option" where
  "WebRtc_MoveReadPtr self element_count = (case self of None \<Rightarrow> (0, None) | Some b \<Rightarrow>
     let free_elements = s32 (int (WebRtc_available_write self));
         readable_elements = s32 (int (WebRtc_available_read self));
         n = s32 (int (rb_element_count b));
         k = (if element_count > readable_elements then readable_elements else element_count);
         k = (if k < - free_elements then - free_elements else k);
         read_pos = s32 (int (rb_read_pos b)) + k;
         (read_pos, w) = (if read_pos > n then (read_pos - n, SAME_WRAP)
                          else (read_pos, rb_rw_wrap b));
         (read_pos, w) = (if read_pos < 0 then (read_pos + n, DIFF_WRAP) else (read_pos, w))
     in (k, Some (b\<lparr>rb_read_pos := nat read_pos, rb_rw_wrap := w\<rparr>)))"

text \<open>Where \<open>*data_ptr\<close> points after a read: the caller's memory, or the ring itself.\<close>

datatype data_ptr = To_data | To_ring nat

text \<open>
  Reading: the number of elements read, \<open>*data_ptr\<close> (when \<open>want_ptr\<close> asks for it), the
  caller's memory and the buffer.  \<open>None\<close>: the caller's memory is too small for a copy.
\<close>

definition WebRtc_ReadBuffer :: "ring option \<Rightarrow> bool \<Rightarrow> element list option \<Rightarrow> nat \<Rightarrow>
    (nat \<times> data_ptr option \<times> element list option \<times> ring option) option" where
  "WebRtc_ReadBuffer self want_ptr data element_count = (case (self, data) of
     (Some b, Some mem) \<Rightarrow>
       (let (read_count, (p1, n1), r2) = GetBufferReadRegions b element_count;
            block1 = slice p1 n1 (rb_data b);
            self' = snd (WebRtc_MoveReadPtr self (int read_count))
        in case r2 of
             Some (p2, n2) \<Rightarrow>
               if length mem < n1 + n2 then None
               else Some (read_count, if want_ptr then Some To_data else None,
                 Some (blit n1 (slice p2 n2 (rb_data b)) (blit 0 block1 mem)), self')
           | None \<Rightarrow>
               if want_ptr then Some (read_count, Some (To_ring p1), data, self')
               else if length mem < n1 then None
               else Some (read_count, None, Some (blit 0 block1 mem), self'))
   | _ \<Rightarrow> Some (0, None, data, self))"

text \<open>Writing: \<open>None\<close> when the caller's array is shorter than what is copied from it.\<close>

definition WebRtc_WriteBuffer :: "ring option \<Rightarrow> element list option \<Rightarrow> nat \<Rightarrow>
    (nat \<times> ring option) option" where
  "WebRtc_WriteBuffer self data element_count = (case (self, data) of
     (Some b, Some xs) \<Rightarrow>
       (let free_elements = WebRtc_available_write self;
            write_elements = (if free_elements < element_count then free_elements else element_count);
            margin = rb_element_count b - rb_write_pos b;
            (b', n) = (if write_elements > margin
              then (b\<lparr>rb_data := blit (rb_write_pos b) (take margin xs) (rb_data b),
                      rb_write_pos := 0, rb_rw_wrap := DIFF_WRAP\<rparr>, write_elements - margin)
              else (b, write_elements))
        in if length xs < write_elements then None
           else Some (write_elements, Some (b'\<lparr>
             rb_data := blit (rb_write_pos b') (slice (write_elements - n) n xs) (rb_data b'),
             rb_write_pos := rb_write_pos b' + n\<rparr>)))
   | _ \<Rightarrow> Some (0, self))"

section \<open>The buffer as a list of elements\<close>

definition rb_inv :: "ring \<Rightarrow> bool" where
  "rb_inv b \<longleftrightarrow> 0 < rb_element_count b \<and> rb_element_count b < 2 ^ 30
     \<and> length (rb_data b) = rb_element_count b
     \<and> (if rb_rw_wrap b = SAME_WRAP
        then rb_read_pos b \<le> rb_write_pos b \<and> rb_write_pos b \<le> rb_element_count b
        else rb_write_pos b \<le> rb_read_pos b \<and> rb_read_pos b \<le> rb_element_count b)"

text \<open>The element \<open>i\<close> places after the read position.\<close>

definition rb_cell :: "ring \<Rightarrow> int \<Rightarrow> element" where
  "rb_cell b i = rb_data b ! nat (i mod int (rb_element_count b))"

abbreviation rb_avail :: "ring \<Rightarrow> nat" where
  "rb_avail b \<equiv> WebRtc_available_read (Some b)"

abbreviation rb_free :: "ring \<Rightarrow> nat" where
  "rb_free b \<equiv> WebRtc_available_write (Some b)"

definition rb_abs :: "ring \<Rightarrow> element list" where
  "rb_abs b = map (\<lambda>i. rb_cell b (int (rb_read_pos b) + int i)) [0..<rb_avail b]"

lemmas rb_avail_def = WebRtc_available_read_def
lemmas rb_free_def = WebRtc_available_write_def

lemma length_rb_abs [simp]: "length (rb_abs b) = rb_avail b"
  by (simp add: rb_abs_def)

lemma avail_free: "rb_inv b \<Longrightarrow> rb_avail b + rb_free b = rb_element_count b"
  by (auto simp: rb_inv_def rb_avail_def rb_free_def split: if_splits)

lemma avail_le: "rb_inv b \<Longrightarrow> rb_avail b \<le> rb_element_count b"
  using avail_free [of b] by simp

lemma write_pos_cell:
  "rb_inv b \<Longrightarrow> (int (rb_read_pos b) + int (rb_avail b)) mod int (rb_element_count b)
     = int (rb_write_pos b) mod int (rb_element_count b)"
  by (auto simp: rb_inv_def rb_avail_def of_nat_diff split: if_splits)

text \<open>Moving the read position by \<open>k\<close>, clipped to what can be read and what is free.\<close>

definition rb_clip :: "ring \<Rightarrow> int \<Rightarrow> int" where
  "rb_clip b k = max (- int (rb_free b)) (min k (int (rb_avail b)))"

lemma move_eq:
  fixes k :: int
  assumes "rb_inv b"
  defines "p \<equiv> int (rb_read_pos b) + rb_clip b k" and "N \<equiv> int (rb_element_count b)"
  shows "WebRtc_MoveReadPtr (Some b) k = (rb_clip b k, Some (b\<lparr>
    rb_read_pos := nat (p + (if p > N then - N else if p < 0 then N else 0)),
    rb_rw_wrap := (if p > N then SAME_WRAP else if p < 0 then DIFF_WRAP else rb_rw_wrap b)\<rparr>))"
proof -
  have "int (rb_free b) < 2 ^ 30" "int (rb_avail b) < 2 ^ 30" "int (rb_element_count b) < 2 ^ 30"
      "int (rb_read_pos b) < 2 ^ 30"
    using assms(1) avail_free [OF assms(1)] by (auto simp: rb_inv_def split: if_splits)
  then have ids: "s32 (int (rb_free b)) = int (rb_free b)" "s32 (int (rb_avail b)) = int (rb_avail b)"
    "s32 (int (rb_element_count b)) = N" "s32 (int (rb_read_pos b)) = int (rb_read_pos b)"
    by (simp_all add: s32_id N_def)
  have clip: "(let k = if k > int (rb_avail b) then int (rb_avail b) else k
      in if k < - int (rb_free b) then - int (rb_free b) else k) = rb_clip b k"
    by (auto simp: rb_clip_def Let_def)
  show ?thesis
    unfolding WebRtc_MoveReadPtr_def option.case Let_def ids clip [unfolded Let_def] p_def
    by (simp add: N_def)
qed

lemma move_read:
  assumes "rb_inv b"
  obtains b' where "WebRtc_MoveReadPtr (Some b) k = (rb_clip b k, Some b')" "rb_inv b'"
    "int (rb_avail b') = int (rb_avail b) - rb_clip b k"
    "\<And>i. rb_cell b' (int (rb_read_pos b') + i) = rb_cell b (int (rb_read_pos b) + rb_clip b k + i)"
    "rb_data b' = rb_data b" "rb_element_count b' = rb_element_count b"
proof -
  let ?p = "int (rb_read_pos b) + rb_clip b k" and ?N = "int (rb_element_count b)"
  let ?q = "?p + (if ?p > ?N then - ?N else if ?p < 0 then ?N else 0)"
  let ?b = "b\<lparr>rb_read_pos := nat ?q,
    rb_rw_wrap := (if ?p > ?N then SAME_WRAP else if ?p < 0 then DIFF_WRAP else rb_rw_wrap b)\<rparr>"
  have free: "int (rb_free b) = ?N - int (rb_avail b)" using avail_free [OF assms] by simp
  have lo: "- int (rb_free b) \<le> rb_clip b k" and hi: "rb_clip b k \<le> int (rb_avail b)"
    by (auto simp: rb_clip_def)
  have q: "0 \<le> ?q \<and> rb_inv ?b \<and> int (rb_avail ?b) = int (rb_avail b) - rb_clip b k"
  proof (cases "rb_rw_wrap b")
    case SAME_WRAP
    then have b: "int (rb_read_pos b) \<le> int (rb_write_pos b)" "int (rb_write_pos b) \<le> ?N"
      "int (rb_avail b) = int (rb_write_pos b) - int (rb_read_pos b)"
      using assms by (auto simp: rb_inv_def rb_avail_def)
    then show ?thesis using SAME_WRAP assms lo hi unfolding free by (auto simp: rb_inv_def rb_avail_def)
  next
    case DIFF_WRAP
    then have b: "int (rb_write_pos b) \<le> int (rb_read_pos b)" "int (rb_read_pos b) \<le> ?N"
      "int (rb_avail b) = ?N - int (rb_read_pos b) + int (rb_write_pos b)"
      using assms by (auto simp: rb_inv_def rb_avail_def of_nat_diff)
    then show ?thesis using DIFF_WRAP assms lo hi unfolding free by (auto simp: rb_inv_def rb_avail_def)
  qed
  have "rb_cell ?b (int (rb_read_pos ?b) + i) = rb_cell b (?p + i)" for i
  proof -
    have "(?q + i) mod ?N = (?p + i) mod ?N"
    proof -
      obtain c where "?q = ?p + c * ?N"
        by (rule that [of "if ?p > ?N then -1 else if ?p < 0 then 1 else 0"]) auto
      then have "?q + i = (?p + i) + c * ?N" by simp
      then show ?thesis by (simp only: mod_mult_self1)
    qed
    then show ?thesis using q by (simp add: rb_cell_def)
  qed
  then show thesis
    using q by (intro that [of ?b] move_eq [OF assms]) simp_all
qed

lemma cell_low: "0 \<le> i \<Longrightarrow> i < int (rb_element_count b) \<Longrightarrow> rb_cell b i = rb_data b ! nat i"
  by (simp add: rb_cell_def)

lemma cell_high:
  assumes "int (rb_element_count b) \<le> i" "i < 2 * int (rb_element_count b)"
  shows "rb_cell b i = rb_data b ! nat (i - int (rb_element_count b))"
proof -
  have "i mod int (rb_element_count b) = (i - int (rb_element_count b)) mod int (rb_element_count b)"
    by simp
  then show ?thesis using assms by (simp add: rb_cell_def del: minus_mod_self2)
qed

lemma nth_rb_abs:
  "i < rb_avail b \<Longrightarrow> rb_abs b ! i = rb_cell b (int (rb_read_pos b) + int i)"
  by (simp add: rb_abs_def)

lemma nth_slice: "i < n \<Longrightarrow> p + n \<le> length xs \<Longrightarrow> slice p n xs ! i = xs ! (p + i)"
  by (simp add: slice_def)

text \<open>Element \<open>i\<close> of the stored list in the two wrap states.\<close>

lemma nth_abs_same:
  assumes "rb_inv b" "rb_rw_wrap b = SAME_WRAP" "i < rb_avail b"
  shows "rb_abs b ! i = rb_data b ! (rb_read_pos b + i)"
proof -
  have "rb_read_pos b + i < rb_element_count b" using assms by (auto simp: rb_inv_def rb_avail_def)
  then have "rb_cell b (int (rb_read_pos b) + int i) = rb_data b ! (rb_read_pos b + i)"
    by (subst cell_low) (simp_all add: nat_add_distrib)
  then show ?thesis by (simp add: nth_rb_abs [OF assms(3)])
qed

lemma nth_abs_diff:
  assumes "rb_inv b" "rb_rw_wrap b = DIFF_WRAP" "i < rb_avail b"
  shows "rb_abs b ! i = rb_data b ! (if rb_read_pos b + i < rb_element_count b then rb_read_pos b + i
    else rb_read_pos b + i - rb_element_count b)"
proof -
  have b: "rb_read_pos b \<le> rb_element_count b" "rb_read_pos b + i < 2 * rb_element_count b"
    using assms by (auto simp: rb_inv_def rb_avail_def)
  show ?thesis
  proof (cases "rb_read_pos b + i < rb_element_count b")
    case True
    then have "rb_cell b (int (rb_read_pos b) + int i) = rb_data b ! (rb_read_pos b + i)"
      by (subst cell_low) (simp_all add: nat_add_distrib)
    with True show ?thesis by (simp add: nth_rb_abs [OF assms(3)])
  next
    case False
    then have "rb_cell b (int (rb_read_pos b) + int i) = rb_data b ! (rb_read_pos b + i - rb_element_count b)"
      using b by (subst cell_high) (simp_all add: nat_diff_distrib nat_add_distrib)
    with False show ?thesis by (simp add: nth_rb_abs [OF assms(3)])
  qed
qed

text \<open>The regions hold the first elements of the list.\<close>

lemma read_regions:
  assumes "rb_inv b" "n = min (rb_avail b) cnt"
  obtains (one) "GetBufferReadRegions b cnt = (n, (rb_read_pos b, n), None)"
      "slice (rb_read_pos b) n (rb_data b) = take n (rb_abs b)"
  | (two) m where "GetBufferReadRegions b cnt = (n, (rb_read_pos b, m), Some (0, n - m))" "m < n"
      "slice (rb_read_pos b) m (rb_data b) @ slice 0 (n - m) (rb_data b) = take n (rb_abs b)"
      "rb_read_pos b + m = rb_element_count b" "n - m \<le> rb_element_count b"
proof -
  let ?r = "rb_read_pos b" and ?N = "rb_element_count b"
  have n: "(if rb_avail b < cnt then rb_avail b else cnt) = n" using assms(2) by (simp add: min_def)
  note regions_def = GetBufferReadRegions_def [of b cnt, unfolded Let_def n]
  have b: "?r \<le> ?N" "length (rb_data b) = ?N" "n \<le> rb_avail b" "n \<le> ?N"
    using assms avail_le [OF assms(1)] by (auto simp: rb_inv_def split: if_splits)
  show thesis
  proof (cases "n > ?N - ?r")
    case True
    then have wrap: "rb_rw_wrap b = DIFF_WRAP"
      using assms b by (cases "rb_rw_wrap b") (auto simp: rb_inv_def rb_avail_def)
    have regions: "GetBufferReadRegions b cnt = (n, (?r, ?N - ?r), Some (0, n - (?N - ?r)))"
      using True by (simp add: regions_def)
    have "slice ?r (?N - ?r) (rb_data b) @ slice 0 (n - (?N - ?r)) (rb_data b) = take n (rb_abs b)"
    proof (rule nth_equalityI)
      show "length (slice ?r (?N - ?r) (rb_data b) @ slice 0 (n - (?N - ?r)) (rb_data b)) = length (take n (rb_abs b))"
        using b True by simp
      fix i assume "i < length (slice ?r (?N - ?r) (rb_data b) @ slice 0 (n - (?N - ?r)) (rb_data b))"
      then have "i < n" using b True by simp
      then show "(slice ?r (?N - ?r) (rb_data b) @ slice 0 (n - (?N - ?r)) (rb_data b)) ! i = take n (rb_abs b) ! i"
        using b True by (auto simp: nth_append nth_slice nth_abs_diff [OF assms(1) wrap] add.commute)
    qed
    with regions True b show thesis by (intro two [of "?N - ?r"]) auto
  next
    case False
    have "GetBufferReadRegions b cnt = (n, (?r, n), None)"
      using False by (simp add: regions_def)
    moreover have "slice ?r n (rb_data b) = take n (rb_abs b)"
    proof (rule nth_equalityI)
      fix i assume "i < length (slice ?r n (rb_data b))"
      then have i: "i < n" using b False by simp
      then have "rb_abs b ! i = rb_data b ! (?r + i)"
        using b False by (cases "rb_rw_wrap b")
          (auto simp: nth_abs_same [OF assms(1)] nth_abs_diff [OF assms(1)])
      then show "slice ?r n (rb_data b) ! i = take n (rb_abs b) ! i"
        using b False i by (simp add: nth_slice)
    qed (use b False in simp)
    ultimately show thesis by (rule one)
  qed
qed

lemma move_forward:
  assumes "rb_inv b" "n \<le> rb_avail b"
  obtains b' where "WebRtc_MoveReadPtr (Some b) (int n) = (int n, Some b')" "rb_inv b'"
    "rb_abs b' = drop n (rb_abs b)" "rb_element_count b' = rb_element_count b"
proof -
  have clip: "rb_clip b (int n) = int n" using assms(2) by (simp add: rb_clip_def)
  obtain b' where b': "WebRtc_MoveReadPtr (Some b) (int n) = (int n, Some b')" "rb_inv b'"
    "int (rb_avail b') = int (rb_avail b) - int n"
    "\<And>i. rb_cell b' (int (rb_read_pos b') + i) = rb_cell b (int (rb_read_pos b) + int n + i)"
    "rb_element_count b' = rb_element_count b"
    by (rule move_read [OF assms(1), of "int n"]) (auto simp: clip)
  have "rb_avail b' = rb_avail b - n" using b'(3) by simp
  then have "rb_abs b' = drop n (rb_abs b)"
    by (intro nth_equalityI) (simp_all add: nth_rb_abs b'(4) add.assoc)
  with b' show thesis by (intro that)
qed

section \<open>Writing appends\<close>

lemma write_appends:
  assumes "rb_inv b" "n \<le> rb_free b" "n \<le> length xs" "n \<le> rb_element_count b - rb_write_pos b"
    "b' = b\<lparr>rb_data := blit (rb_write_pos b) (take n xs) (rb_data b), rb_write_pos := rb_write_pos b + n\<rparr>"
  shows "rb_inv b' \<and> rb_abs b' = rb_abs b @ take n xs"
proof -
  let ?r = "rb_read_pos b" and ?w = "rb_write_pos b" and ?N = "rb_element_count b"
  have b: "?w \<le> ?N" "length (rb_data b) = ?N" "length (take n xs) = n" "?w + n \<le> ?N"
    using assms by (auto simp: rb_inv_def split: if_splits)
  have avail: "rb_avail b' = rb_avail b + n"
    using assms b by (auto simp: rb_inv_def rb_avail_def split: if_splits)
  have inv: "rb_inv b'"
    using assms b by (auto simp: rb_inv_def rb_avail_def rb_free_def split: if_splits)
  have "rb_abs b' = rb_abs b @ take n xs"
  proof (rule nth_equalityI)
    fix i assume "i < length (rb_abs b')"
    then have i: "i < rb_avail b + n" "i < rb_avail b'" by (simp_all add: avail)
    show "rb_abs b' ! i = (rb_abs b @ take n xs) ! i"
    proof (cases "rb_rw_wrap b")
      case SAME_WRAP
      then have d: "rb_rw_wrap b' = SAME_WRAP" "?r \<le> ?w" "rb_avail b = ?w - ?r"
        using assms by (simp_all add: rb_inv_def rb_avail_def)
      have "rb_abs b' ! i = rb_data b' ! (?r + i)"
        using nth_abs_same [OF inv d(1) i(2)] by (simp add: assms(5))
      also have "\<dots> = (if i < rb_avail b then rb_data b ! (?r + i) else xs ! (i - rb_avail b))"
        using i(1) b d by (auto simp: assms(5) nth_blit add.commute)
      also have "\<dots> = (rb_abs b @ take n xs) ! i"
        using i(1) by (simp add: nth_append nth_abs_same [OF assms(1) SAME_WRAP])
      finally show ?thesis .
    next
      case DIFF_WRAP
      then have d: "rb_rw_wrap b' = DIFF_WRAP" "?w + n \<le> ?r" "?r \<le> ?N" "rb_avail b = ?N - ?r + ?w"
        using assms by (auto simp: rb_inv_def rb_avail_def rb_free_def)
      have "rb_abs b' ! i = rb_data b' ! (if ?r + i < ?N then ?r + i else ?r + i - ?N)"
        using nth_abs_diff [OF inv d(1) i(2)] by (simp add: assms(5))
      also have "\<dots> = (if i < rb_avail b then rb_data b ! (if ?r + i < ?N then ?r + i else ?r + i - ?N)
          else xs ! (i - rb_avail b))"
        using i(1) b d assms(3) by (auto simp: assms(5) nth_blit add.commute)
      also have "\<dots> = (rb_abs b @ take n xs) ! i"
        using i(1) by (simp add: nth_append nth_abs_diff [OF assms(1) DIFF_WRAP])
      finally show ?thesis .
    qed
  qed (use b avail in simp)
  with inv show ?thesis ..
qed

text \<open>At the end of the data area the write position restarts at its beginning.\<close>

lemma wrap_write_pos:
  assumes "rb_inv b" "rb_rw_wrap b = SAME_WRAP" "rb_write_pos b = rb_element_count b"
    "b' = b\<lparr>rb_write_pos := 0, rb_rw_wrap := DIFF_WRAP\<rparr>"
  shows "rb_inv b' \<and> rb_abs b' = rb_abs b \<and> rb_free b' = rb_free b"
  using assms by (simp add: rb_inv_def rb_abs_def rb_avail_def rb_free_def rb_cell_def)

lemma write_eq:
  assumes "rb_inv b" "n = min cnt (rb_free b)" "n \<le> length xs"
  obtains b' where "WebRtc_WriteBuffer (Some b) (Some xs) cnt = Some (n, Some b')" "rb_inv b'"
    "rb_abs b' = rb_abs b @ take n xs" "rb_element_count b' = rb_element_count b"
proof -
  let ?m = "rb_element_count b - rb_write_pos b"
  have n: "(if rb_free b < cnt then rb_free b else cnt) = n" using assms(2) by (simp add: min_def)
  note write_def = WebRtc_WriteBuffer_def [of "Some b" "Some xs" cnt, unfolded Let_def prod.case option.case n]
  have free: "n \<le> rb_free b" using assms(2) by simp
  show thesis
  proof (cases "n > ?m")
    case False
    let ?b = "b\<lparr>rb_data := blit (rb_write_pos b) (take n xs) (rb_data b), rb_write_pos := rb_write_pos b + n\<rparr>"
    have "WebRtc_WriteBuffer (Some b) (Some xs) cnt = Some (n, Some ?b)"
      using False assms(3) by (simp add: write_def slice_def)
    with write_appends [OF assms(1) free assms(3) _ refl] False show thesis by (intro that [of ?b]) auto
  next
    case True
    then have same: "rb_rw_wrap b = SAME_WRAP" and w: "rb_write_pos b + ?m = rb_element_count b"
      using assms(1) free by (cases "rb_rw_wrap b"; auto simp: rb_inv_def rb_avail_def rb_free_def)+
    let ?b1 = "b\<lparr>rb_data := blit (rb_write_pos b) (take ?m xs) (rb_data b), rb_write_pos := rb_write_pos b + ?m\<rparr>"
    let ?b2 = "?b1\<lparr>rb_write_pos := 0, rb_rw_wrap := DIFF_WRAP\<rparr>"
    let ?b3 = "?b2\<lparr>rb_data := blit (rb_write_pos ?b2) (take (n - ?m) (drop ?m xs)) (rb_data ?b2),
      rb_write_pos := rb_write_pos ?b2 + (n - ?m)\<rparr>"
    have m: "?m \<le> rb_free b" "?m \<le> length xs" using True free assms(3) by simp_all
    note b1 = write_appends [OF assms(1) m order_refl refl]
    then have inv1: "rb_inv ?b1" and abs1: "rb_abs ?b1 = rb_abs b @ take ?m xs" by simp_all
    note b2 = wrap_write_pos [OF inv1 _ _ refl]
    then have inv2: "rb_inv ?b2" and abs2: "rb_abs ?b2 = rb_abs b @ take ?m xs" and free2: "rb_free ?b2 = rb_free ?b1"
      using same w abs1 by simp_all
    have "rb_avail ?b1 = rb_avail b + ?m" using arg_cong [OF abs1, of length] m(2) by simp
    moreover have "rb_avail ?b1 + rb_free ?b1 = rb_element_count b" using avail_free [OF inv1] by simp
    ultimately have "n - ?m \<le> rb_free ?b2"
      unfolding free2 using avail_free [OF assms(1)] free by linarith
    moreover have "n - ?m \<le> rb_element_count ?b2 - rb_write_pos ?b2"
      using free avail_free [OF assms(1)] by simp
    ultimately have b3: "rb_inv ?b3 \<and> rb_abs ?b3 = rb_abs ?b2 @ take (n - ?m) (drop ?m xs)"
      using assms(3) by (intro write_appends [OF inv2 _ _ _ refl]) simp_all
    have "take ?m xs @ take (n - ?m) (drop ?m xs) = take n xs"
      using True take_add [of ?m "n - ?m" xs] by simp
    moreover have "WebRtc_WriteBuffer (Some b) (Some xs) cnt = Some (n, Some ?b3)"
      using True assms(3) by (simp add: write_def slice_def)
    ultimately show thesis using b3 abs2 by (intro that [of ?b3]) simp_all
  qed
qed

section \<open>Properties\<close>

lemma ring_write_eq:
  assumes "rb_inv b" "min cnt (rb_free b) \<le> length xs"
  shows "\<exists>b'. WebRtc_WriteBuffer (Some b) (Some xs) cnt = Some (min cnt (rb_free b), Some b')
    \<and> rb_inv b' \<and> rb_element_count b' = rb_element_count b
    \<and> rb_abs b' = rb_abs b @ take (min cnt (rb_free b)) xs"
  by (rule write_eq [OF assms(1) refl assms(2)]) blast

text \<open>
  Writing \<open>cnt\<close> elements stores as many of them as there is room for, behind the stored
  ones, and returns that number.
\<close>

theorem ring_write:
  assumes "rb_inv b" "min cnt (rb_free b) \<le> length xs"
  shows "\<exists>b'. WebRtc_WriteBuffer (Some b) (Some xs) cnt = Some (min cnt (rb_free b), Some b')
    \<and> rb_inv b' \<and> rb_element_count b' = rb_element_count b
    \<and> rb_abs b' = rb_abs b @ take (min cnt (rb_free b)) xs"
  by (rule ring_write_eq [OF assms])

text \<open>A buffer of four elements of one byte, with three elements stored.\<close>

definition rb_example :: ring where
  "rb_example = \<lparr>rb_read_pos = 3, rb_write_pos = 2, rb_element_count = 4, rb_element_size = 1,
     rb_rw_wrap = DIFF_WRAP, rb_data = [[11], [12], [0], [10]]\<rparr>"

lemma rb_example_inv: "rb_inv rb_example" "rb_abs rb_example = [[10], [11], [12]]" "rb_free rb_example = 1"
  by (simp_all add: rb_inv_def rb_example_def rb_abs_def rb_avail_def rb_free_def rb_cell_def upt_rec)

lemma ring_write_witness:
  "\<exists>b'. WebRtc_WriteBuffer (Some rb_example) (Some [[13], [14]]) 2 = Some (min 2 (rb_free rb_example), Some b')
    \<and> rb_inv b' \<and> rb_element_count b' = rb_element_count rb_example \<and> rb_abs b' = rb_abs rb_example @ take (min 2 (rb_free rb_example)) [[13], [14]]"
  by (rule ring_write [OF rb_example_inv(1)]) simp

text \<open>What a read delivers: through the pointer it sets, or in the caller's memory.\<close>

definition rb_delivered :: "ring \<Rightarrow> data_ptr option \<Rightarrow> element list \<Rightarrow> nat \<Rightarrow> element list" where
  "rb_delivered b ptr mem n = (case ptr of Some (To_ring p) \<Rightarrow> slice p n (rb_data b) | _ \<Rightarrow> take n mem)"

lemma ring_read_eq:
  assumes "rb_inv b" "cnt \<le> length mem"
  shows "\<exists>ptr mem' b'. WebRtc_ReadBuffer (Some b) want_ptr (Some mem) cnt
      = Some (min (rb_avail b) cnt, ptr, Some mem', Some b')
    \<and> rb_inv b' \<and> rb_element_count b' = rb_element_count b \<and> rb_abs b' = drop cnt (rb_abs b)
    \<and> rb_delivered b ptr mem' (min (rb_avail b) cnt) = take cnt (rb_abs b)
    \<and> drop (min (rb_avail b) cnt) mem' = drop (min (rb_avail b) cnt) mem \<and> (ptr \<noteq> None \<longleftrightarrow> want_ptr)"
proof -
  define n where "n = min (rb_avail b) cnt"
  have n: "n \<le> length mem" "take n (rb_abs b) = take cnt (rb_abs b)" "length (take n (rb_abs b)) = n"
    using assms(2) by (simp_all add: n_def min_def)
  have clip: "rb_clip b (int n) = int n" by (simp add: rb_clip_def n_def)
  obtain b' where mv: "WebRtc_MoveReadPtr (Some b) (int n) = (int n, Some b')" "rb_inv b'" "rb_abs b' = drop n (rb_abs b)"
    "rb_element_count b' = rb_element_count b"
    by (rule move_forward [OF assms(1), of n]) (auto simp: n_def)
  have same: "drop n (rb_abs b) = drop cnt (rb_abs b)" by (cases "rb_avail b \<le> cnt") (simp_all add: n_def)
  have "\<exists>ptr mem' b'. WebRtc_ReadBuffer (Some b) want_ptr (Some mem) cnt = Some (n, ptr, Some mem', Some b')
    \<and> rb_inv b' \<and> rb_element_count b' = rb_element_count b \<and> rb_abs b' = drop n (rb_abs b) \<and> rb_delivered b ptr mem' n = take n (rb_abs b)
    \<and> drop n mem' = drop n mem \<and> (ptr \<noteq> None \<longleftrightarrow> want_ptr)"
    using assms(1) n_def
  proof (cases rule: read_regions)
    case one
    then show ?thesis
      using n mv by (cases want_ptr)
        (auto simp: WebRtc_ReadBuffer_def Let_def rb_delivered_def blit_def)
  next
    case (two m)
    let ?mem = "blit m (slice 0 (n - m) (rb_data b)) (blit 0 (slice (rb_read_pos b) m (rb_data b)) mem)"
    have len: "length (rb_data b) = rb_element_count b" using assms(1) by (simp add: rb_inv_def)
    have l: "length (slice (rb_read_pos b) m (rb_data b)) = m" "length (slice 0 (n - m) (rb_data b)) = n - m"
      using two len by simp_all
    have "?mem = take n (rb_abs b) @ drop n mem"
      unfolding two(3) [symmetric] using two(2) l n(1) by (simp add: blit_def)
    then show ?thesis
      using two n mv by (auto simp: WebRtc_ReadBuffer_def Let_def rb_delivered_def)
  qed
  then show ?thesis by (simp only: same [unfolded n_def] n(2) [unfolded n_def] n_def)
qed

text \<open>
  Reading \<open>cnt\<close> elements delivers the first ones of the list, as many as there are, with
  one copy, two copies or none, leaves the rest of the caller's memory alone, and removes
  them from the buffer.
\<close>

theorem ring_read:
  assumes "rb_inv b" "cnt \<le> length mem"
  shows "\<exists>ptr mem' b'. WebRtc_ReadBuffer (Some b) want_ptr (Some mem) cnt
      = Some (min (rb_avail b) cnt, ptr, Some mem', Some b')
    \<and> rb_inv b' \<and> rb_element_count b' = rb_element_count b \<and> rb_abs b' = drop cnt (rb_abs b)
    \<and> rb_delivered b ptr mem' (min (rb_avail b) cnt) = take cnt (rb_abs b)
    \<and> drop (min (rb_avail b) cnt) mem' = drop (min (rb_avail b) cnt) mem \<and> (ptr \<noteq> None \<longleftrightarrow> want_ptr)"
  by (rule ring_read_eq [OF assms])

lemma ring_read_witness:
  "\<exists>ptr mem' b'. WebRtc_ReadBuffer (Some rb_example) True (Some [[0], [0], [0]]) 2
      = Some (min (rb_avail rb_example) 2, ptr, Some mem', Some b')
    \<and> rb_inv b' \<and> rb_element_count b' = rb_element_count rb_example \<and> rb_abs b' = drop 2 (rb_abs rb_example)
    \<and> rb_delivered rb_example ptr mem' (min (rb_avail rb_example) 2) = take 2 (rb_abs rb_example)
    \<and> drop (min (rb_avail rb_example) 2) mem' = drop (min (rb_avail rb_example) 2) [[0], [0], [0]]
    \<and> (ptr \<noteq> None \<longleftrightarrow> True)"
  by (rule ring_read [OF rb_example_inv(1)]) simp

text \<open>
  Moving the read position is clipped to the stored elements forwards and to the free
  space backwards; forwards it drops elements, backwards it gives elements back in front of
  the stored ones, and after going forward by \<open>k\<close>, going back by \<open>k\<close> restores the buffer.
\<close>

theorem ring_move:
  assumes "rb_inv b"
  shows "\<exists>b'. WebRtc_MoveReadPtr (Some b) k = (max (- int (rb_free b)) (min k (int (rb_avail b))), Some b')
    \<and> rb_inv b'
    \<and> (0 \<le> k \<longrightarrow> rb_abs b' = drop (nat k) (rb_abs b))
    \<and> (k \<le> 0 \<longrightarrow> drop (min (nat (- k)) (rb_free b)) (rb_abs b') = rb_abs b)
    \<and> (0 \<le> k \<longrightarrow> (\<exists>b''. WebRtc_MoveReadPtr (Some b') (- min k (int (rb_avail b))) = (- min k (int (rb_avail b)), Some b'')
         \<and> rb_abs b'' = rb_abs b))"
proof -
  obtain b' where b': "WebRtc_MoveReadPtr (Some b) k = (rb_clip b k, Some b')" "rb_inv b'"
    "int (rb_avail b') = int (rb_avail b) - rb_clip b k"
    "\<And>i. rb_cell b' (int (rb_read_pos b') + i) = rb_cell b (int (rb_read_pos b) + rb_clip b k + i)"
    "rb_element_count b' = rb_element_count b"
    by (rule move_read [OF assms]) blast
  have fwd: "rb_abs b' = drop (nat k) (rb_abs b)" if "0 \<le> k"
  proof -
    have "rb_clip b k = min k (int (rb_avail b))" using that by (simp add: rb_clip_def)
    then have "rb_avail b' = rb_avail b - nat k" "rb_avail b' = 0 \<or> rb_clip b k = k" using b'(3) that by auto
    then show ?thesis
      using that by (intro nth_equalityI) (auto simp: nth_rb_abs b'(4) add.assoc)
  qed
  have rewind: "drop (min (nat (- k)) (rb_free b)) (rb_abs b') = rb_abs b" if "k \<le> 0"
  proof -
    let ?j = "min (nat (- k)) (rb_free b)"
    have clip: "rb_clip b k = - int ?j" using that by (auto simp: rb_clip_def)
    then have avail: "rb_avail b' = rb_avail b + ?j" using b'(3) by simp
    show ?thesis
      by (rule nth_equalityI) (auto simp: avail nth_rb_abs b'(4) clip)
  qed
  have restore: "\<exists>b''. WebRtc_MoveReadPtr (Some b') (- min k (int (rb_avail b))) = (- min k (int (rb_avail b)), Some b'')
         \<and> rb_abs b'' = rb_abs b" if "0 \<le> k"
  proof -
    let ?j = "min k (int (rb_avail b))"
    have clip: "rb_clip b k = ?j" using that by (simp add: rb_clip_def)
    have "rb_avail b' + rb_free b' = rb_avail b + rb_free b"
      using avail_free [OF assms] avail_free [OF b'(2)] b'(5) by simp
    then have "?j \<le> int (rb_free b')" using b'(3) clip by simp
    then have clip': "rb_clip b' (- ?j) = - ?j" using that by (simp add: rb_clip_def)
    obtain b'' where b'': "WebRtc_MoveReadPtr (Some b') (- ?j) = (- ?j, Some b'')"
      "int (rb_avail b'') = int (rb_avail b') - - ?j"
      "\<And>i. rb_cell b'' (int (rb_read_pos b'') + i) = rb_cell b' (int (rb_read_pos b') - ?j + i)"
      using move_read [OF b'(2), of "- ?j"] unfolding clip' add_uminus_conv_diff by blast
    have cell: "rb_cell b' (int (rb_read_pos b') - ?j + i) = rb_cell b (int (rb_read_pos b) + i)" for i
      using b'(4) [of "- ?j + i"] clip by (simp add: algebra_simps)
    have "rb_avail b'' = rb_avail b" using b''(2) b'(3) clip by simp
    then have "rb_abs b'' = rb_abs b"
      by (intro list_eq_iff_nth_eq [THEN iffD2] conjI allI impI) (simp_all add: nth_rb_abs b''(3) cell)
    with b''(1) show ?thesis by blast
  qed
  show ?thesis
    using b'(1,2) fwd rewind restore unfolding rb_clip_def by (intro exI [of _ b'] conjI) auto
qed

lemma ring_move_witness:
  "\<exists>b'. WebRtc_MoveReadPtr (Some rb_example) (-3)
      = (max (- int (rb_free rb_example)) (min (-3) (int (rb_avail rb_example))), Some b')
    \<and> rb_inv b'
    \<and> (0 \<le> (-3 :: int) \<longrightarrow> rb_abs b' = drop (nat (-3)) (rb_abs rb_example))
    \<and> ((-3 :: int) \<le> 0 \<longrightarrow> drop (min (nat (- (-3))) (rb_free rb_example)) (rb_abs b') = rb_abs rb_example)
    \<and> (0 \<le> (-3 :: int) \<longrightarrow> (\<exists>b''. WebRtc_MoveReadPtr (Some b') (- min (-3) (int (rb_avail rb_example)))
         = (- min (-3) (int (rb_avail rb_example)), Some b'') \<and> rb_abs b'' = rb_abs rb_example))"
  by (rule ring_move [OF rb_example_inv(1)])

section \<open>The ring buffer as a first-in first-out store\<close>

definition rb_put :: "ring \<Rightarrow> element \<Rightarrow> ring option" where
  "rb_put b x = (case WebRtc_WriteBuffer (Some b) (Some [x]) 1 of
     Some (n, Some b') \<Rightarrow> if n = 1 then Some b' else None | _ \<Rightarrow> None)"

definition rb_take :: "ring \<Rightarrow> (element \<times> ring) option" where
  "rb_take b = (case WebRtc_ReadBuffer (Some b) False (Some [[]]) 1 of
     Some (n, ptr, Some mem, Some b') \<Rightarrow> if n = 1 then Some (hd mem, b') else None | _ \<Rightarrow> None)"

definition rb_good :: "nat \<Rightarrow> ring \<Rightarrow> bool" where
  "rb_good N b \<longleftrightarrow> rb_inv b \<and> rb_element_count b = N"

lemma rb_put_eq:
  assumes "rb_good N b"
  shows "rb_put b x = None \<longleftrightarrow> length (rb_abs b) = N"
    "rb_put b x = Some b' \<Longrightarrow> rb_good N b' \<and> rb_abs b' = rb_abs b @ [x]"
proof -
  have inv: "rb_inv b" and N: "rb_avail b + rb_free b = N"
    using assms avail_free [of b] by (simp_all add: rb_good_def)
  from ring_write_eq [OF inv, of 1 "[x]"] obtain b1 where
    "WebRtc_WriteBuffer (Some b) (Some [x]) 1 = Some (min 1 (rb_free b), Some b1)" "rb_good N b1"
    "rb_abs b1 = rb_abs b @ take (min 1 (rb_free b)) [x]"
    using assms by (auto simp: rb_good_def)
  then have "rb_put b x = (if rb_free b = 0 then None else Some b1)" "0 < rb_free b \<Longrightarrow> rb_abs b1 = rb_abs b @ [x]" "rb_good N b1"
    by (simp_all add: rb_put_def min_def)
  then show "rb_put b x = None \<longleftrightarrow> length (rb_abs b) = N"
    "rb_put b x = Some b' \<Longrightarrow> rb_good N b' \<and> rb_abs b' = rb_abs b @ [x]"
    using N by (auto split: if_splits)
qed

lemma rb_take_eq:
  assumes "rb_good N b"
  shows "rb_take b = None \<longleftrightarrow> rb_abs b = []"
    "rb_take b = Some (x, b') \<Longrightarrow> rb_good N b' \<and> rb_abs b = x # rb_abs b'"
proof -
  have inv: "rb_inv b" using assms by (simp add: rb_good_def)
  obtain ptr mem b1 where r: "WebRtc_ReadBuffer (Some b) False (Some [[]]) 1 = Some (min (rb_avail b) 1, ptr, Some mem, Some b1)"
    "rb_good N b1" "rb_abs b1 = drop 1 (rb_abs b)" "rb_delivered b ptr mem (min (rb_avail b) 1) = take 1 (rb_abs b)" "ptr = None"
    using ring_read_eq [OF inv, of 1 "[[]]" False] assms by (auto simp: rb_good_def)
  have "rb_take b = (if rb_abs b = [] then None else Some (hd (rb_abs b), b1))"
  proof (cases "rb_abs b")
    case Nil
    then have "rb_avail b = 0" by (simp flip: length_rb_abs)
    with r(1) Nil show ?thesis by (simp add: rb_take_def)
  next
    case (Cons y ys)
    then have "rb_avail b = Suc (length ys)" by (simp flip: length_rb_abs)
    then have one: "min (rb_avail b) 1 = 1" by simp
    with r(4,5) Cons have "take 1 mem = [y]" by (simp add: rb_delivered_def)
    then have "hd mem = y" by (cases mem) simp_all
    with r(1) Cons one show ?thesis by (simp add: rb_take_def)
  qed
  then show "rb_take b = None \<longleftrightarrow> rb_abs b = []"
    "rb_take b = Some (x, b') \<Longrightarrow> rb_good N b' \<and> rb_abs b = x # rb_abs b'"
    using r(2,3) by (cases "rb_abs b"; simp)+
qed

interpretation ringq: fifo_store "rb_good N" rb_abs "\<lambda>x. x" rb_put rb_take for N
proof unfold_locales
  fix b x b' assume "rb_good N b" "rb_put b x = Some b'"
  then show "rb_good N b' \<and> rb_abs b' = rb_abs b @ [x]" by (rule rb_put_eq(2))
next
  fix b x b' assume "rb_good N b" "rb_take b = Some (x, b')"
  then show "rb_good N b' \<and> rb_abs b = x # rb_abs b'" by (rule rb_take_eq(2))
next
  fix b assume "rb_good N b" "rb_abs b \<noteq> []"
  then show "rb_take b \<noteq> None" using rb_take_eq(1) by blast
qed

lemma init_ring:
  assumes "WebRtc_CreateBuffer junk malloc_ok n sz = Some b" "n < 2 ^ 30" "WebRtc_InitBuffer (Some b) = (r, Some b')"
  shows "rb_good n b'" "rb_abs b' = []"
  using assms by (auto simp: WebRtc_CreateBuffer_def WebRtc_InitBuffer_def rb_inv_def rb_avail_def rb_good_def
      rb_abs_def split: if_splits)

section \<open>Histories of block operations\<close>

text \<open>
  A bounded queue of \<open>N\<close> elements: a write of a block takes as many elements as there is room for, a read
  hands out and removes the first ones, and the read position can be moved forwards over some of them.  Each step gives the number of elements
  the operation returns and the elements it delivers.
\<close>

datatype ring_op = Write_block "element list" nat | Read_block bool nat | Move_forward nat

fun queue_step :: "nat \<Rightarrow> ring_op \<Rightarrow> element list \<Rightarrow> (int \<times> element list) \<times> element list" where
  "queue_step N (Write_block xs k) q = (let n = min k (N - length q) in ((int n, []), q @ take n xs))"
| "queue_step N (Read_block want_ptr k) q = ((int (min k (length q)), take k q), drop k q)"
| "queue_step N (Move_forward k) q = ((int (min k (length q)), []), drop k q)"

fun queue_run :: "nat \<Rightarrow> ring_op list \<Rightarrow> element list \<Rightarrow> (int \<times> element list) list \<times> element list" where
  "queue_run N [] q = ([], q)"
| "queue_run N (op # ops) q = (let (r, q) = queue_step N op q; (rs, q) = queue_run N ops q in (r # rs, q))"

text \<open>
  The same operations on the ring; a read is given a memory of \<open>k\<close> elements and delivers through it or through the pointer to the ring.
\<close>

fun ring_step :: "ring_op \<Rightarrow> ring \<Rightarrow> ((int \<times> element list) \<times> ring) option" where
  "ring_step (Write_block xs k) b = (case WebRtc_WriteBuffer (Some b) (Some xs) k of
     Some (n, Some b') \<Rightarrow> Some ((int n, []), b') | _ \<Rightarrow> None)"
| "ring_step (Read_block want_ptr k) b = (case WebRtc_ReadBuffer (Some b) want_ptr (Some (replicate k [])) k of
     Some (n, ptr, Some mem, Some b') \<Rightarrow> Some ((int n, rb_delivered b ptr mem n), b') | _ \<Rightarrow> None)"
| "ring_step (Move_forward k) b = (case WebRtc_MoveReadPtr (Some b) (int k) of
     (n, Some b') \<Rightarrow> Some ((n, []), b') | _ \<Rightarrow> None)"

fun ring_run :: "ring_op list \<Rightarrow> ring \<Rightarrow> ((int \<times> element list) list \<times> ring) option" where
  "ring_run [] b = Some ([], b)"
| "ring_run (op # ops) b = do { (r, b) \<leftarrow> ring_step op b; (rs, b) \<leftarrow> ring_run ops b; Some (r # rs, b) }"

text \<open>The array that is written has the elements it is said to have, and the distance of a move is an \<open>int\<close>.\<close>

fun ring_op_ok :: "ring_op \<Rightarrow> bool" where
  "ring_op_ok (Write_block xs k) \<longleftrightarrow> k \<le> length xs"
| "ring_op_ok (Read_block want_ptr k) \<longleftrightarrow> True"
| "ring_op_ok (Move_forward k) \<longleftrightarrow> k < 2147483648"

lemma ring_step_queue:
  assumes "rb_good N b" "ring_op_ok op"
  shows "\<exists>b'. ring_step op b = Some (fst (queue_step N op (rb_abs b)), b') \<and> rb_good N b' \<and> rb_abs b' = snd (queue_step N op (rb_abs b))"
proof (cases op)
  case (Write_block xs k)
  have inv: "rb_inv b" "rb_free b = N - length (rb_abs b)" using assms(1) avail_free [of b] by (auto simp: rb_good_def)
  have "min k (rb_free b) \<le> length xs" using assms(2) Write_block by simp
  from ring_write_eq [OF inv(1) this] assms(1) Write_block show ?thesis by (auto simp: inv(2) rb_good_def Let_def)
next
  case (Read_block want_ptr k)
  have inv: "rb_inv b" using assms(1) by (simp add: rb_good_def)
  from ring_read_eq [OF inv, of k "replicate k []" want_ptr] assms(1) Read_block show ?thesis
    by (auto simp: rb_good_def min.commute)
next
  case (Move_forward k)
  have inv: "rb_inv b" using assms(1) by (simp add: rb_good_def)
  obtain b' where b': "WebRtc_MoveReadPtr (Some b) (int k) = (rb_clip b (int k), Some b')" "rb_inv b'"
    "int (rb_avail b') = int (rb_avail b) - rb_clip b (int k)"
    "\<And>i. rb_cell b' (int (rb_read_pos b') + i) = rb_cell b (int (rb_read_pos b) + rb_clip b (int k) + i)"
    "rb_element_count b' = rb_element_count b"
    by (rule move_read [OF inv]) blast
  have clip: "rb_clip b (int k) = int (min k (rb_avail b))" by (auto simp: rb_clip_def)
  have "rb_abs b' = drop k (rb_abs b)"
    using b'(3) unfolding clip by (intro nth_equalityI) (auto simp: nth_rb_abs b'(4) clip add.assoc)
  then show ?thesis using b' assms(1) Move_forward clip by (auto simp: rb_good_def)
qed

lemma ring_run_queue:
  assumes "rb_good N b" "list_all ring_op_ok ops"
  shows "\<exists>b'. ring_run ops b = Some (fst (queue_run N ops (rb_abs b)), b') \<and> rb_good N b' \<and> rb_abs b' = snd (queue_run N ops (rb_abs b))"
  using assms
proof (induction ops arbitrary: b)
  case (Cons op ops)
  obtain b1 where b1: "ring_step op b = Some (fst (queue_step N op (rb_abs b)), b1)" "rb_good N b1"
    "rb_abs b1 = snd (queue_step N op (rb_abs b))" using ring_step_queue [OF Cons.prems(1), of op] Cons.prems(2) by auto
  then show ?case using Cons.IH [OF b1(2)] Cons.prems(2) by (auto simp: case_prod_beta Let_def)
qed simp

text \<open>
  C14: From its creation on, the ring buffer is a bounded queue.  Over any history of writes of blocks, reads of blocks by copy or by
  pointer and moves of the read position forwards, of any size, full or empty, wrapping or not, every operation returns the number of elements the
  queue takes or gives, every read delivers the elements of the queue, and what is stored afterwards is what the queue holds, at most \<open>n\<close> elements.
\<close>

theorem ring_is_fifo:
  assumes "WebRtc_CreateBuffer junk malloc_ok n sz = Some b0" "n < 2 ^ 30"
    "WebRtc_InitBuffer (Some b0) = (r, Some b)" "list_all ring_op_ok ops"
  shows "\<exists>b'. ring_run ops b = Some (fst (queue_run n ops []), b') \<and> rb_abs b' = snd (queue_run n ops []) \<and> length (rb_abs b') \<le> n"
proof -
  note b = init_ring [OF assms(1-3)]
  obtain b' where "ring_run ops b = Some (fst (queue_run n ops []), b')" "rb_good n b'" "rb_abs b' = snd (queue_run n ops [])"
    using ring_run_queue [OF b(1) assms(4)] unfolding b(2) by blast
  moreover have "length (rb_abs b') \<le> n" using calculation(2) avail_le [of b'] by (simp add: rb_good_def)
  ultimately show ?thesis by blast
qed

text \<open>Three elements are written and two read, two more written of which the second wraps, one refused, and all read in two pieces.\<close>

lemma ring_is_fifo_witness:
  "let b = the (snd (WebRtc_InitBuffer (WebRtc_CreateBuffer rb_example True 3 1)));
       ops = [Write_block [[1], [2], [3]] 3, Read_block True 2, Write_block [[4], [5], [6]] 3, Read_block False 5, Read_block True 1] in
    queue_run 3 ops [] = ([(3, []), (2, [[1], [2]]), (2, []), (3, [[3], [4], [5]]), (0, [])], [])
    \<and> (\<exists>b'. ring_run ops b = Some (fst (queue_run 3 ops []), b') \<and> rb_abs b' = snd (queue_run 3 ops []) \<and> length (rb_abs b') \<le> 3)"
proof -
  let ?b = "the (snd (WebRtc_InitBuffer (WebRtc_CreateBuffer rb_example True 3 1)))"
  let ?ops = "[Write_block [[1], [2], [3]] 3, Read_block True 2, Write_block [[4], [5], [6]] 3, Read_block False 5, Read_block True 1]"
  have run: "queue_run 3 ?ops [] = ([(3, []), (2, [[1], [2]]), (2, []), (3, [[3], [4], [5]]), (0, [])], [])" by code_simp
  have made: "WebRtc_CreateBuffer rb_example True 3 1 = Some (the (WebRtc_CreateBuffer rb_example True 3 1))"
    by (simp add: WebRtc_CreateBuffer_def)
  have init: "WebRtc_InitBuffer (Some (the (WebRtc_CreateBuffer rb_example True 3 1))) = (0, Some ?b)"
    by (simp add: WebRtc_CreateBuffer_def WebRtc_InitBuffer_def)
  have ok: "list_all ring_op_ok ?ops" by code_simp
  show ?thesis unfolding Let_def using run ring_is_fifo [OF made _ init ok] by simp
qed

end
