(* ===== verification/Spl.thy ===== *)
theory Spl
  imports Neteq_Prelude
begin

text \<open>
  The integer routines of \<open>common_audio/signal_processing\<close>: guarded divisions
  (\<open>division_operations.c\<close>), the integer square root (\<open>spl_sqrt_floor.c\<close>) and the extremes of
  vectors (\<open>min_max_operations.c\<close>).
\<close>

section \<open>Divisions\<close>

definition WebRtcSpl_DivU32U16 :: "int \<Rightarrow> int \<Rightarrow> int" where
  "WebRtcSpl_DivU32U16 num den = (if den \<noteq> 0 then num div den else 4294967295)"

definition WebRtcSpl_DivW32W16 :: "int \<Rightarrow> int \<Rightarrow> int" where
  "WebRtcSpl_DivW32W16 num den = (if den \<noteq> 0 then s32 (num sdiv den) else 2147483647)"

definition WebRtcSpl_DivW32W16ResW16 :: "int \<Rightarrow> int \<Rightarrow> int" where
  "WebRtcSpl_DivW32W16ResW16 num den = (if den \<noteq> 0 then s16 (num sdiv den) else 32767)"

text \<open>The bit-by-bit division, \<open>k\<close> steps of it.\<close>

fun div_q31_steps :: "nat \<Rightarrow> int \<Rightarrow> int \<Rightarrow> int \<Rightarrow> int" where
  "div_q31_steps 0 L_num L_den div_val = div_val"
| "div_q31_steps (Suc k) L_num L_den div_val =
     (let div_val = s32 (shl div_val 1); L_num = s32 (shl L_num 1)
      in if L_num \<ge> L_den then div_q31_steps k (L_num - L_den) L_den (div_val + 1)
         else div_q31_steps k L_num L_den div_val)"

definition WebRtcSpl_DivResultInQ31 :: "int \<Rightarrow> int \<Rightarrow> int" where
  "WebRtcSpl_DivResultInQ31 num den =
     (if num = 0 then 0
      else let L_num = (if num < 0 then s32 (- num) else num);
               L_den = (if den < 0 then s32 (- den) else den);
               d = div_q31_steps 31 L_num L_den 0
           in if (num < 0) \<noteq> (den < 0) then s32 (- d) else d)"

section \<open>Square root\<close>

text \<open>\<open>WEBRTC_SPL_SQRT_ITER(n)\<close> for \<open>n\<close>, \<open>n - 1\<close>, ..., 0 on \<open>value\<close> and \<open>root\<close>.\<close>

fun sqrt_iters :: "nat \<Rightarrow> int \<Rightarrow> int \<Rightarrow> int" where
  "sqrt_iters 0 val root = root"
| "sqrt_iters (Suc n) val root =
     (let try1 = s32 (root + shl 1 n)
      in if val \<ge> s32 (shl try1 n)
         then sqrt_iters n (val - s32 (shl try1 n)) (root OR shl 2 n)
         else sqrt_iters n val root)"

definition WebRtcSpl_SqrtFloor :: "int \<Rightarrow> int" where
  "WebRtcSpl_SqrtFloor val = shr (sqrt_iters 16 val 0) 1"

section \<open>Extremes of vectors\<close>

text \<open>
  A routine over \<open>vector[0 .. length - 1]\<close>: its value for no vector (\<open>None\<close>, a null pointer)
  or no elements, and \<open>None\<close> when the vector is shorter than the length it is passed.
\<close>

definition over_vector :: "'r \<Rightarrow> (int list \<Rightarrow> 'r) \<Rightarrow> int list option \<Rightarrow> int \<Rightarrow> 'r option" where
  "over_vector dflt f vector len = (case vector of None \<Rightarrow> Some dflt | Some xs \<Rightarrow>
     if len \<le> 0 then Some dflt
     else if int (length xs) < len then None else Some (f (take (nat len) xs)))"

fun max_scan :: "int \<Rightarrow> int list \<Rightarrow> int" where
  "max_scan maximum [] = maximum"
| "max_scan maximum (x # xs) = max_scan (if x > maximum then x else maximum) xs"

fun min_scan :: "int \<Rightarrow> int list \<Rightarrow> int" where
  "min_scan minimum [] = minimum"
| "min_scan minimum (x # xs) = min_scan (if x < minimum then x else minimum) xs"

text \<open>The scans that remember the index of the extreme; \<open>i\<close> is the index of the head.\<close>

fun max_index_scan :: "int \<Rightarrow> nat \<Rightarrow> nat \<Rightarrow> int list \<Rightarrow> nat" where
  "max_index_scan maximum index i [] = index"
| "max_index_scan maximum index i (x # xs) =
     (if x > maximum then max_index_scan x i (Suc i) xs else max_index_scan maximum index (Suc i) xs)"

fun min_index_scan :: "int \<Rightarrow> nat \<Rightarrow> nat \<Rightarrow> int list \<Rightarrow> nat" where
  "min_index_scan minimum index i [] = index"
| "min_index_scan minimum index i (x # xs) =
     (if x < minimum then min_index_scan x i (Suc i) xs else min_index_scan minimum index (Suc i) xs)"

definition WebRtcSpl_MaxAbsValueW16C :: "int list option \<Rightarrow> int \<Rightarrow> int option" where
  "WebRtcSpl_MaxAbsValueW16C = over_vector (-1) (\<lambda>xs.
     let maximum = max_scan 0 (map abs xs) in if maximum > 32767 then 32767 else maximum)"

definition WebRtcSpl_MaxAbsValueW32C :: "int list option \<Rightarrow> int \<Rightarrow> int option" where
  "WebRtcSpl_MaxAbsValueW32C = over_vector (-1) (\<lambda>xs.
     let maximum = max_scan 0 (map (\<lambda>x. u32 (abs x)) xs)
     in s32 (if maximum < 2147483647 then maximum else 2147483647))"

definition WebRtcSpl_MaxValueW16C :: "int list option \<Rightarrow> int \<Rightarrow> int option" where
  "WebRtcSpl_MaxValueW16C = over_vector (-32768) (max_scan (-32768))"

definition WebRtcSpl_MaxValueW32C :: "int list option \<Rightarrow> int \<Rightarrow> int option" where
  "WebRtcSpl_MaxValueW32C = over_vector (-2147483648) (max_scan (-2147483648))"

definition WebRtcSpl_MinValueW16C :: "int list option \<Rightarrow> int \<Rightarrow> int option" where
  "WebRtcSpl_MinValueW16C = over_vector 32767 (min_scan 32767)"

definition WebRtcSpl_MinValueW32C :: "int list option \<Rightarrow> int \<Rightarrow> int option" where
  "WebRtcSpl_MinValueW32C = over_vector 2147483647 (min_scan 2147483647)"

definition WebRtcSpl_MaxAbsIndexW16 :: "int list option \<Rightarrow> int \<Rightarrow> int option" where
  "WebRtcSpl_MaxAbsIndexW16 = over_vector (-1) (\<lambda>xs. int (max_index_scan 0 0 0 (map abs xs)))"

definition WebRtcSpl_MaxIndexW16 :: "int list option \<Rightarrow> int \<Rightarrow> int option" where
  "WebRtcSpl_MaxIndexW16 = over_vector (-1) (\<lambda>xs. int (max_index_scan (-32768) 0 0 xs))"

definition WebRtcSpl_MaxIndexW32 :: "int list option \<Rightarrow> int \<Rightarrow> int option" where
  "WebRtcSpl_MaxIndexW32 = over_vector (-1) (\<lambda>xs. int (max_index_scan (-2147483648) 0 0 xs))"

definition WebRtcSpl_MinIndexW16 :: "int list option \<Rightarrow> int \<Rightarrow> int option" where
  "WebRtcSpl_MinIndexW16 = over_vector (-1) (\<lambda>xs. int (min_index_scan 32767 0 0 xs))"

definition WebRtcSpl_MinIndexW32 :: "int list option \<Rightarrow> int \<Rightarrow> int option" where
  "WebRtcSpl_MinIndexW32 = over_vector (-1) (\<lambda>xs. int (min_index_scan 2147483647 0 0 xs))"

section \<open>The scans find the extremes\<close>

lemma max_scan_Max: "max_scan m xs = Max (insert m (set xs))"
proof (induction xs arbitrary: m)
  case (Cons x xs)
  show ?case
  proof (cases xs)
    case Nil
    then show ?thesis by (simp add: max_def)
  next
    case (Cons y ys)
    then have "finite (set xs)" "set xs \<noteq> {}" by simp_all
    then show ?thesis using Cons.IH by (auto simp: max_def)
  qed
qed simp

lemma min_scan_Min: "min_scan m xs = Min (insert m (set xs))"
proof (induction xs arbitrary: m)
  case (Cons x xs)
  show ?case
  proof (cases xs)
    case Nil
    then show ?thesis by (simp add: min_def)
  next
    case (Cons y ys)
    then have "finite (set xs)" "set xs \<noteq> {}" by simp_all
    then show ?thesis using Cons.IH by (auto simp: min_def)
  qed
qed simp

lemma min_index_max: "min_index_scan m idx i xs = max_index_scan (- m) idx i (map uminus xs)"
  by (induction xs arbitrary: m idx i) simp_all

text \<open>\<open>k\<close> is the first index where \<open>xs\<close> is largest under \<open>f\<close>.\<close>

definition first_max :: "(int \<Rightarrow> int) \<Rightarrow> int list \<Rightarrow> nat \<Rightarrow> bool" where
  "first_max f xs k \<longleftrightarrow> k < length xs \<and> (\<forall>j < length xs. f (xs ! j) \<le> f (xs ! k))
     \<and> (\<forall>j < k. f (xs ! j) < f (xs ! k))"

lemma max_index_scan_cases:
  "(max_index_scan m idx i xs = idx \<and> (\<forall>x \<in> set xs. x \<le> m))
   \<or> (\<exists>k. max_index_scan m idx i xs = i + k \<and> first_max (\<lambda>x. x) xs k \<and> xs ! k > m)"
proof (induction xs arbitrary: m idx i)
  case (Cons x xs)
  have lift: "first_max (\<lambda>x. x) (x # xs) (Suc k)" if "first_max (\<lambda>x. x) xs k" "x < xs ! k" for k
    using that by (auto simp: first_max_def nth_Cons split: nat.splits)
  show ?case
  proof (cases "x > m")
    case True
    from Cons.IH [of x i "Suc i"] show ?thesis
    proof (elim disjE conjE exE)
      assume "max_index_scan x i (Suc i) xs = i" "\<forall>y \<in> set xs. y \<le> x"
      then show ?thesis
        using True by (intro disjI2 exI [of _ 0]) (auto simp: first_max_def nth_Cons split: nat.splits)
    next
      fix k assume "max_index_scan x i (Suc i) xs = Suc i + k" "first_max (\<lambda>x. x) xs k" "x < xs ! k"
      then show ?thesis using True lift by (intro disjI2 exI [of _ "Suc k"]) auto
    qed
  next
    case False
    from Cons.IH [of m idx "Suc i"] show ?thesis
    proof (elim disjE conjE exE)
      fix k assume "max_index_scan m idx (Suc i) xs = Suc i + k" "first_max (\<lambda>x. x) xs k" "m < xs ! k"
      then show ?thesis using False lift by (intro disjI2 exI [of _ "Suc k"]) auto
    qed (use False in auto)
  qed
qed simp

lemma first_max_map: "first_max (\<lambda>x. x) (map f xs) k \<longleftrightarrow> first_max f xs k"
  by (auto simp: first_max_def)

lemma max_index_scan_first:
  assumes "xs \<noteq> []" "\<forall>x \<in> set xs. m \<le> f x"
  shows "first_max f xs (max_index_scan m 0 0 (map f xs))"
  using max_index_scan_cases [of m 0 0 "map f xs"]
proof (elim disjE conjE exE)
  assume "max_index_scan m 0 0 (map f xs) = 0" "\<forall>y \<in> set (map f xs). y \<le> m"
  moreover have "f (xs ! j) = m" if "j < length xs" for j
    using calculation(2) assms(2) that by (auto intro: antisym)
  ultimately show ?thesis using assms(1) by (simp add: first_max_def)
qed (simp add: first_max_map)

section \<open>Properties\<close>

lemma over_vector_take:
  "0 < len \<Longrightarrow> len \<le> int (length xs) \<Longrightarrow> over_vector d f (Some xs) len = Some (f (take (nat len) xs))"
  by (simp add: over_vector_def)

definition int16s :: "int list \<Rightarrow> bool" where
  "int16s xs \<longleftrightarrow> (\<forall>x \<in> set xs. -32768 \<le> x \<and> x \<le> 32767)"

definition int32s :: "int list \<Rightarrow> bool" where
  "int32s xs \<longleftrightarrow> (\<forall>x \<in> set xs. -2147483648 \<le> x \<and> x \<le> 2147483647)"

lemma Max_insert_low: "finite A \<Longrightarrow> A \<noteq> {} \<Longrightarrow> \<forall>x \<in> A. m \<le> x \<Longrightarrow> Max (insert m A) = Max (A :: int set)"
  using Max_in [of A] by simp

lemma Min_insert_high: "finite A \<Longrightarrow> A \<noteq> {} \<Longrightarrow> \<forall>x \<in> A. x \<le> m \<Longrightarrow> Min (insert m A) = Min (A :: int set)"
  using Min_in [of A] by simp

text \<open>
  The extremes of a vector: the largest and the smallest value, and the largest absolute
  value, which is 32767 (2147483647) also where it is that of the smallest integer.
\<close>

theorem spl_extreme_values:
  assumes "0 < len" "len \<le> int (length xs)" "int16s xs"
  defines "A \<equiv> set (take (nat len) xs)"
  shows "WebRtcSpl_MaxValueW16C (Some xs) len = Some (Max A)
    \<and> WebRtcSpl_MinValueW16C (Some xs) len = Some (Min A)
    \<and> WebRtcSpl_MaxValueW32C (Some xs) len = Some (Max A)
    \<and> WebRtcSpl_MinValueW32C (Some xs) len = Some (Min A)
    \<and> WebRtcSpl_MaxAbsValueW16C (Some xs) len = Some (min 32767 (Max (abs ` A)))"
proof -
  have A: "finite A" "A \<noteq> {}" "\<forall>x \<in> A. -32768 \<le> x \<and> x \<le> 32767"
    using assms in_set_takeD [of _ "nat len" xs] by (auto simp: A_def int16s_def)
  have neg: "Max (insert 0 (abs ` A)) = Max (abs ` A)" using A by (intro Max_insert_low) auto
  have mx: "max_scan m (take (nat len) xs) = Max A" if "m \<le> -32768" for m
    using A that unfolding max_scan_Max A_def [symmetric] by (intro Max_insert_low) auto
  have mn: "min_scan m (take (nat len) xs) = Min A" if "32767 \<le> m" for m
    using A that unfolding min_scan_Min A_def [symmetric] by (intro Min_insert_high) auto
  have ab: "max_scan 0 (map abs (take (nat len) xs)) = Max (abs ` A)"
    unfolding max_scan_Max set_map A_def [symmetric] by (rule neg)
  show ?thesis
    by (simp add: WebRtcSpl_MaxValueW16C_def WebRtcSpl_MaxValueW32C_def WebRtcSpl_MinValueW16C_def
        WebRtcSpl_MinValueW32C_def WebRtcSpl_MaxAbsValueW16C_def over_vector_take [OF assms(1,2)] mx mn ab
        Let_def)
qed

lemma spl_extreme_values_witness:
  "WebRtcSpl_MaxValueW16C (Some [3, -32768, 7]) 2 = Some (Max (set (take (nat 2) [3, -32768, 7])))
    \<and> WebRtcSpl_MinValueW16C (Some [3, -32768, 7]) 2 = Some (Min (set (take (nat 2) [3, -32768, 7])))
    \<and> WebRtcSpl_MaxValueW32C (Some [3, -32768, 7]) 2 = Some (Max (set (take (nat 2) [3, -32768, 7])))
    \<and> WebRtcSpl_MinValueW32C (Some [3, -32768, 7]) 2 = Some (Min (set (take (nat 2) [3, -32768, 7])))
    \<and> WebRtcSpl_MaxAbsValueW16C (Some [3, -32768, 7]) 2
        = Some (min 32767 (Max (abs ` set (take (nat 2) [3, -32768, 7]))))"
  by (rule spl_extreme_values) (simp_all add: int16s_def)

text \<open>
  The index routines return the first index of the extreme, also for vectors that only
  hold the value the scan starts from.
\<close>

theorem spl_first_index:
  assumes "0 < len" "len \<le> int (length xs)" "int16s xs"
  shows "\<exists>i j k. WebRtcSpl_MaxIndexW16 (Some xs) len = Some (int i) \<and> first_max (\<lambda>x. x) (take (nat len) xs) i
    \<and> WebRtcSpl_MinIndexW16 (Some xs) len = Some (int j) \<and> first_max uminus (take (nat len) xs) j
    \<and> WebRtcSpl_MaxAbsIndexW16 (Some xs) len = Some (int k) \<and> first_max abs (take (nat len) xs) k"
proof -
  let ?ys = "take (nat len) xs"
  have ys: "?ys \<noteq> []" "\<forall>x \<in> set ?ys. -32768 \<le> x \<and> x \<le> 32767"
    using assms in_set_takeD [of _ "nat len" xs] by (auto simp: int16s_def)
  have "first_max (\<lambda>x. x) ?ys (max_index_scan (-32768) 0 0 (map (\<lambda>x. x) ?ys))"
    "first_max uminus ?ys (max_index_scan (-32767) 0 0 (map uminus ?ys))"
    "first_max abs ?ys (max_index_scan 0 0 0 (map abs ?ys))"
    using ys by (intro max_index_scan_first; force)+
  then show ?thesis
    unfolding WebRtcSpl_MaxIndexW16_def WebRtcSpl_MinIndexW16_def WebRtcSpl_MaxAbsIndexW16_def
      over_vector_take [OF assms(1,2)] min_index_max map_ident by blast
qed

lemma spl_first_index_witness:
  "\<exists>i j k. WebRtcSpl_MaxIndexW16 (Some [7, -8, 7]) 3 = Some (int i) \<and> first_max (\<lambda>x. x) (take (nat 3) [7, -8, 7]) i
    \<and> WebRtcSpl_MinIndexW16 (Some [7, -8, 7]) 3 = Some (int j) \<and> first_max uminus (take (nat 3) [7, -8, 7]) j
    \<and> WebRtcSpl_MaxAbsIndexW16 (Some [7, -8, 7]) 3 = Some (int k) \<and> first_max abs (take (nat 3) [7, -8, 7]) k"
  by (rule spl_first_index) (simp_all add: int16s_def)

lemma div_q31_steps_correct:
  "0 \<le> num \<Longrightarrow> num < den \<Longrightarrow> den \<le> 2 ^ 30 \<Longrightarrow> 0 \<le> d \<Longrightarrow> (d + 1) * 2 ^ k \<le> 2 ^ 31 \<Longrightarrow>
   div_q31_steps k num den d = d * 2 ^ k + num * 2 ^ k div den"
proof (induction k arbitrary: num d)
  case (Suc k)
  have "(d + 1) * 2 \<le> (d + 1) * 2 * 2 ^ k" using Suc.prems(4) by (simp add: mult_le_cancel_left1)
  also have "\<dots> \<le> 2 ^ 31" using Suc.prems(5) unfolding power_Suc mult.assoc [symmetric] .
  finally have small: "(d + 1) * 2 \<le> 2 ^ 31" .
  then have ids: "s32 (shl d 1) = 2 * d" "s32 (shl num 1) = 2 * num"
    using Suc.prems(1-4) by (simp_all add: shl_eq_mult s32_id mult.commute)
  have "(2 * d + 1) * 2 ^ k \<le> (d + 1) * 2 * 2 ^ k" by (intro mult_right_mono) auto
  also have "\<dots> \<le> 2 ^ 31" using Suc.prems(5) unfolding power_Suc mult.assoc [symmetric] .
  finally have fits: "(2 * d + 1) * 2 ^ k \<le> 2 ^ 31" .
  show ?case
  proof (cases "2 * num \<ge> den")
    case True
    have "div_q31_steps (Suc k) num den d = div_q31_steps k (2 * num - den) den (2 * d + 1)"
      using True by (simp add: ids [simplified])
    also have "\<dots> = (2 * d + 1) * 2 ^ k + (2 * num - den) * 2 ^ k div den"
      using Suc.prems True by (intro Suc.IH) (auto simp: algebra_simps)
    also have "(2 * num - den) * 2 ^ k div den = num * 2 ^ Suc k div den - 2 ^ k"
    proof -
      have "(2 * num - den) * 2 ^ k = num * 2 ^ Suc k + (- (2 ^ k)) * den" by (simp add: algebra_simps)
      then show ?thesis using Suc.prems(1,2) by (simp only: div_mult_self1)
    qed
    finally show ?thesis by (simp add: algebra_simps)
  next
    case False
    have "div_q31_steps (Suc k) num den d = div_q31_steps k (2 * num) den (2 * d)"
      using False by (simp add: ids [simplified])
    also have "\<dots> = 2 * d * 2 ^ k + 2 * num * 2 ^ k div den"
      using Suc.prems False fits by (intro Suc.IH) auto
    finally show ?thesis by (simp add: algebra_simps)
  qed
qed simp

text \<open>
  \<open>WebRtcSpl_DivResultInQ31\<close> is the quotient in Q31, truncated towards zero, of a numerator
  that is smaller than a denominator of at most \<open>2 ^ 30\<close> in absolute value.
\<close>

theorem div_q31_correct:
  assumes "\<bar>num\<bar> < \<bar>den\<bar>" "\<bar>den\<bar> \<le> 2 ^ 30"
  shows "WebRtcSpl_DivResultInQ31 num den = (num * 2 ^ 31) sdiv den"
proof (cases "num = 0")
  case False
  let ?q = "\<bar>num\<bar> * 2 ^ 31 div \<bar>den\<bar>"
  have abs: "(if num < 0 then s32 (- num) else num) = \<bar>num\<bar>" "(if den < 0 then s32 (- den) else den) = \<bar>den\<bar>"
    using assms by (auto simp: s32_id)
  have q: "0 \<le> ?q" "?q < 2 ^ 31"
  proof -
    show "?q < 2 ^ 31"
    proof (rule ccontr)
      assume "\<not> ?thesis"
      then have "2 ^ 31 * \<bar>den\<bar> \<le> ?q * \<bar>den\<bar>" by (intro mult_right_mono) auto
      also have "\<dots> \<le> \<bar>num\<bar> * 2 ^ 31" using assms pos_mod_sign [of "\<bar>den\<bar>" "\<bar>num\<bar> * 2 ^ 31"]
        by (simp add: minus_mod_eq_div_mult [symmetric])
      finally show False using assms by simp
    qed
  qed (use assms in \<open>simp add: pos_imp_zdiv_nonneg_iff\<close>)
  have "WebRtcSpl_DivResultInQ31 num den = (if (num < 0) \<noteq> (den < 0) then - ?q else ?q)"
    using False q div_q31_steps_correct [of "\<bar>num\<bar>" "\<bar>den\<bar>" 0 31] assms
    unfolding WebRtcSpl_DivResultInQ31_def abs Let_def by (auto simp: s32_id)
  then show ?thesis by (auto simp: signed_divide_int_def sgn_mult abs_mult sgn_if)
qed (simp add: WebRtcSpl_DivResultInQ31_def)

lemma div_q31_correct_witness: "WebRtcSpl_DivResultInQ31 (-1) 3 = (-1 * 2 ^ 31) sdiv 3"
  by (rule div_q31_correct) simp_all

lemma s32_nonneg: "0 \<le> x \<Longrightarrow> x < 2147483648 \<Longrightarrow> s32 x = x"
  by (rule s32_id) simp_all

text \<open>One step of the square root: the root so far is \<open>2 * r\<close>, and \<open>val\<close> is what is left of \<open>v\<close>.\<close>

lemma sqrt_step_range:
  fixes r v :: int
  assumes "0 \<le> r" "r\<^sup>2 \<le> v" "v < 2 ^ 31" "n < 16" "2 ^ Suc n dvd r"
  shows "2 * r + 2 ^ n < 2 ^ 31" "(2 * r + 2 ^ n) * 2 ^ n < 2 ^ 31"
proof -
  have r: "r \<le> 46340"
  proof (rule ccontr)
    assume "\<not> r \<le> 46340"
    then have "46341\<^sup>2 \<le> r\<^sup>2" by (intro power_mono) auto
    with assms(2,3) show False by simp
  qed
  have "2 * r + 2 ^ n < 2 ^ 31 \<and> (2 * r + 2 ^ n) * 2 ^ n < 2 ^ 31"
  proof (cases "n = 15")
    case True
    then have "65536 dvd r" using assms(5) by simp
    with r assms(1) have "r = 0" by (auto dest: zdvd_imp_le)
    then show ?thesis using True by simp
  next
    case False
    then have "(2 :: int) ^ n \<le> 2 ^ 14" using assms(4) by (intro power_increasing) auto
    moreover from this r assms(1) have "(2 * r + 2 ^ n) * 2 ^ n \<le> (2 * 46340 + 2 ^ 14) * 2 ^ 14"
      by (intro mult_mono) auto
    ultimately show ?thesis using r by simp
  qed
  then show "2 * r + 2 ^ n < 2 ^ 31" "(2 * r + 2 ^ n) * 2 ^ n < 2 ^ 31" by simp_all
qed

lemma or_multiple:
  assumes "0 \<le> r" "2 ^ Suc n dvd (r :: int)"
  shows "(2 * r) OR shl 2 n = 2 * (r + 2 ^ n)"
proof -
  obtain q where "r = 2 ^ Suc n * q" using assms(2) by (rule dvdE)
  then have "2 * r = shl q (n + 2)" by (simp add: shl_eq_mult)
  moreover have "(shl 2 n :: int) = 2 ^ (n + 1)" by (simp add: shl_eq_mult)
  ultimately show ?thesis
    using shl_or [of "2 ^ (n + 1)" "n + 2" q] by (simp add: shl_eq_mult algebra_simps)
qed

lemma sqrt_iters_correct:
  fixes r v :: int
  assumes "0 \<le> r" "r\<^sup>2 \<le> v" "v < (r + 2 ^ n)\<^sup>2" "v < 2 ^ 31" "n \<le> 16" "2 ^ n dvd r"
  shows "\<exists>r'. sqrt_iters n (v - r\<^sup>2) (2 * r) = 2 * r' \<and> 0 \<le> r' \<and> r'\<^sup>2 \<le> v \<and> v < (r' + 1)\<^sup>2"
  using assms
proof (induction n arbitrary: r)
  case (Suc n)
  have n: "n < 16" using Suc.prems(5) by simp
  note range = sqrt_step_range [OF Suc.prems(1,2,4) n Suc.prems(6)]
  let ?d = "(2 * r + 2 ^ n) * 2 ^ n"
  have d: "(r + 2 ^ n)\<^sup>2 = r\<^sup>2 + ?d" by (simp add: power2_eq_square algebra_simps)
  have ids: "s32 (2 * r + shl 1 n) = 2 * r + 2 ^ n" "s32 (shl (2 * r + 2 ^ n) n) = ?d"
    using range Suc.prems(1) by (simp_all add: shl_eq_mult s32_nonneg)
  have dvd: "2 ^ n dvd r" using dvd_mult_right [of 2 "2 ^ n" r] Suc.prems(6) by simp
  show ?case
  proof (cases "v - r\<^sup>2 \<ge> ?d")
    case True
    have "sqrt_iters (Suc n) (v - r\<^sup>2) (2 * r) = sqrt_iters n (v - (r + 2 ^ n)\<^sup>2) (2 * (r + 2 ^ n))"
      using True unfolding sqrt_iters.simps Let_def ids or_multiple [OF Suc.prems(1,6)] d by (simp add: diff_diff_add)
    moreover have "v < (r + 2 ^ n + 2 ^ n)\<^sup>2" using Suc.prems(3) by (simp add: add.assoc)
    ultimately show ?thesis
      using Suc.IH [of "r + 2 ^ n"] Suc.prems True d dvd by simp
  next
    case False
    then have "sqrt_iters (Suc n) (v - r\<^sup>2) (2 * r) = sqrt_iters n (v - r\<^sup>2) (2 * r)"
      unfolding sqrt_iters.simps Let_def ids by simp
    moreover have "v < (r + 2 ^ n)\<^sup>2" using False d by simp
    ultimately show ?thesis using Suc.IH [of r] Suc.prems dvd by simp
  qed
qed (auto intro: exI [of _ r])

text \<open>
  \<open>WebRtcSpl_SqrtFloor\<close> is the integer square root of every non-negative 32-bit value, and 0
  of the negative ones.
\<close>

theorem sqrt_floor_correct:
  assumes "-2147483648 \<le> v" "v < 2 ^ 31"
  shows "0 \<le> WebRtcSpl_SqrtFloor v
    \<and> (if v < 0 then WebRtcSpl_SqrtFloor v = 0
       else (WebRtcSpl_SqrtFloor v)\<^sup>2 \<le> v \<and> v < (WebRtcSpl_SqrtFloor v + 1)\<^sup>2)"
proof (cases "v < 0")
  case True
  have "sqrt_iters n v 0 = 0" if "n \<le> 16" for n
    using that
  proof (induction n)
    case (Suc n)
    have "s32 (0 + shl 1 n) = 2 ^ n" "s32 (shl (2 ^ n) n) = 2 ^ n * 2 ^ n"
      using sqrt_step_range [of 0 0 n] Suc.prems by (simp_all add: shl_eq_mult s32_nonneg)
    moreover have "v < 2 ^ n * 2 ^ n" using True by (rule less_le_trans) simp
    ultimately show ?case
      using Suc unfolding sqrt_iters.simps Let_def by simp
  qed simp
  with True show ?thesis by (simp add: WebRtcSpl_SqrtFloor_def)
next
  case False
  then obtain r' where "sqrt_iters 16 (v - 0\<^sup>2) (2 * 0) = 2 * r'" "0 \<le> r'" "r'\<^sup>2 \<le> v" "v < (r' + 1)\<^sup>2"
    using sqrt_iters_correct [of 0 v 16] assms(2) by auto
  then show ?thesis using False by (simp add: WebRtcSpl_SqrtFloor_def shr_eq_div)
qed

lemma sqrt_floor_correct_witness:
  "0 \<le> WebRtcSpl_SqrtFloor 2147483647
    \<and> (if (2147483647 :: int) < 0 then WebRtcSpl_SqrtFloor 2147483647 = 0
       else (WebRtcSpl_SqrtFloor 2147483647)\<^sup>2 \<le> 2147483647
         \<and> 2147483647 < (WebRtcSpl_SqrtFloor 2147483647 + 1)\<^sup>2)"
  by (rule sqrt_floor_correct) simp_all

end
