(* ===== verification/Automode.thy ===== *)
theory Automode
  imports Spl
begin

text \<open>
  Automatic buffer level optimisation (\<open>neteq/automode.c\<close>): the statistics of packet
  inter-arrival times as a forgetting histogram in Q30, the buffer level that keeps the
  probability of a late packet small, the detection of periodic delay peaks, and the filter
  of the present buffer level.
\<close>

section \<open>State\<close>

abbreviation (input) MAX_IAT :: nat where "MAX_IAT \<equiv> 64"
abbreviation (input) AUTOMODE_BETA_INV_Q30 :: int where "AUTOMODE_BETA_INV_Q30 \<equiv> 53687091"
abbreviation (input) AUTOMODE_STREAMING_BETA_INV_Q30 :: int where
  "AUTOMODE_STREAMING_BETA_INV_Q30 \<equiv> 536871"
abbreviation (input) IAT_PROB_FACT :: int where "IAT_PROB_FACT \<equiv> 32745"
abbreviation (input) PEAK_HEIGHT :: int where "PEAK_HEIGHT \<equiv> 20"
abbreviation (input) AUTOMODE_TIMESCALE_LIMIT :: int where "AUTOMODE_TIMESCALE_LIMIT \<equiv> 32"
abbreviation (input) NUM_PEAKS :: nat where "NUM_PEAKS \<equiv> 8"
abbreviation (input) MAX_PEAK_PERIOD :: int where "MAX_PEAK_PERIOD \<equiv> 10"
abbreviation (input) MAX_STREAMING_PEAK_PERIOD :: int where "MAX_STREAMING_PEAK_PERIOD \<equiv> 600"
abbreviation (input) CSUM_IAT_DRIFT :: int where "CSUM_IAT_DRIFT \<equiv> 2"

record automode =
  am_levelFiltFact :: int
  am_buffLevelFilt :: int
  am_iatProb :: "int list"
  am_iatProbFact :: int
  am_packetIatCountSamp :: int
  am_optBufLevel :: int
  am_packetSpeechLenSamp :: int
  am_lastPackCNGorDTMF :: int
  am_lastSeqNo :: int
  am_lastTimeStamp :: int
  am_sampleMemory :: int
  am_prevTimeScale :: int
  am_timescaleHoldOff :: int
  am_extraDelayMs :: int
  am_minimum_delay_ms :: int
  am_maximum_delay_ms :: int
  am_required_delay_q8 :: int
  am_peakPeriodSamp :: "int list"
  am_peakHeightPkt :: "int list"
  am_peakIndex :: int
  am_peakThresholdPkt :: int
  am_peakIatCountSamp :: int
  am_curPeakPeriod :: int
  am_curPeakHeight :: int
  am_peakModeDisabled :: int
  am_peakFound :: int
  am_countIAT500ms :: int
  am_countIAT1000ms :: int
  am_countIAT2000ms :: int
  am_longestIATms :: int
  am_cSumIatQ8 :: int
  am_maxCSumIatQ8 :: int
  am_maxCSumUpdateTimer :: int

section \<open>Optimal buffer level\<close>

text \<open>
  The do-while loop: from index \<open>B\<close> and the rest of the histogram behind it, subtract until
  the sum is at most \<open>betaInv\<close> or \<open>B\<close> has reached \<open>MAX_IAT\<close>.
\<close>

fun find_level :: "int \<Rightarrow> int list \<Rightarrow> int \<Rightarrow> nat \<Rightarrow> int \<times> nat" where
  "find_level betaInv [] sum1 B = (sum1, B)"
| "find_level betaInv (p # ps) sum1 B =
     (let sum1 = s32 (sum1 - p); B = Suc B
      in if sum1 > betaInv \<and> B < MAX_IAT then find_level betaInv ps sum1 B else (sum1, B))"

text \<open>The backward loop for multiple description codecs.\<close>

fun md_back_off :: "int \<Rightarrow> int list \<Rightarrow> int \<Rightarrow> nat \<Rightarrow> nat" where
  "md_back_off betaInv prob sum2 0 = 0"
| "md_back_off betaInv prob sum2 (Suc B) =
     (if sum2 \<le> s32 (betaInv + prob ! Suc B)
      then md_back_off betaInv prob (s32 (sum2 + prob ! Suc B)) B else Suc B)"

definition level_filt_fact :: "nat \<Rightarrow> int" where
  "level_filt_fact B = (if B \<le> 1 then 251 else if B \<le> 3 then 252 else if B \<le> 7 then 253 else 254)"

text \<open>
  What the code does when the present inter-arrival time is a peak: the first peak, a further
  peak within the longest period, or, after twice that period, a reset of the statistics.
\<close>

definition peak_observed :: "automode \<Rightarrow> int \<Rightarrow> int \<Rightarrow> automode" where
  "peak_observed inst fsHz timeIatPkts =
     (if am_peakIndex inst = -1
      then inst\<lparr>am_peakIndex := 0, am_peakModeDisabled := 2, am_peakIatCountSamp := 0\<rparr>
      else if am_peakIatCountSamp inst \<le> u32 (fsHz * MAX_PEAK_PERIOD)
      then let i = nat (am_peakIndex inst);
               periods = (am_peakPeriodSamp inst)[i := am_peakIatCountSamp inst];
               heights = (am_peakHeightPkt inst)[i := s16 (if timeIatPkts < 32767 then timeIatPkts else 32767)]
           in inst\<lparr>am_peakPeriodSamp := periods, am_peakHeightPkt := heights,
                am_peakIndex := (am_peakIndex inst + 1) AND 7,
                am_curPeakHeight := max_scan 0 heights, am_curPeakPeriod := max_scan 0 periods,
                am_peakModeDisabled := shr (am_peakModeDisabled inst) 1, am_peakIatCountSamp := 0\<rparr>
      else if am_peakIatCountSamp inst > u32 (fsHz * shl MAX_PEAK_PERIOD 1)
      then inst\<lparr>am_curPeakHeight := 0, am_curPeakPeriod := 0,
             am_peakHeightPkt := replicate NUM_PEAKS 0, am_peakPeriodSamp := replicate NUM_PEAKS 0,
             am_peakIndex := -1, am_peakIatCountSamp := 0\<rparr>
      else inst\<lparr>am_peakIatCountSamp := 0\<rparr>)"

definition WebRtcNetEQ_CalcOptimalBufLvl ::
    "automode \<Rightarrow> int \<Rightarrow> bool \<Rightarrow> int \<Rightarrow> bool \<Rightarrow> int \<times> automode" where
  "WebRtcNetEQ_CalcOptimalBufLvl inst fsHz mdCodec timeIatPkts streamingMode =
     (if fsHz \<le> 0 then (-1, inst)
      else let betaInv = (if streamingMode then AUTOMODE_STREAMING_BETA_INV_Q30 else AUTOMODE_BETA_INV_Q30);
               prob = am_iatProb inst;
               (sum1, B) = find_level betaInv (tl prob) (s32 (2 ^ 30 - hd prob)) 0;
               Bopt = int (if mdCodec then Suc (md_back_off betaInv prob sum1 B) else B);
               inst = inst\<lparr>am_levelFiltFact := level_filt_fact B\<rparr>;
               inst = (if timeIatPkts > u32 (Bopt + am_peakThresholdPkt inst + c_bool mdCodec)
                          \<or> timeIatPkts > u32 (shl Bopt 1)
                       then peak_observed inst fsHz timeIatPkts else inst);
               found = am_peakModeDisabled inst = 0
                 \<and> am_peakIatCountSamp inst \<le> u32 (shl (am_curPeakPeriod inst) 1);
               Bopt = (if found \<and> \<not> Bopt > am_curPeakHeight inst then u16 (am_curPeakHeight inst) else Bopt);
               Bopt = u16 (shl Bopt 8);
               Bopt = (if Bopt \<le> 0 then shl 1 8 else Bopt)
           in (s16 Bopt, inst\<lparr>am_peakFound := c_bool found\<rparr>))"

section \<open>Statistics of inter-arrival times\<close>

text \<open>Samples per packet from the present and the last packet, or as stored.\<close>

definition packet_len_samp :: "automode \<Rightarrow> int \<Rightarrow> int \<Rightarrow> int" where
  "packet_len_samp inst seqNumber timeStamp =
     (if timeStamp \<le> am_lastTimeStamp inst \<or> seqNumber \<le> am_lastSeqNo inst
      then am_packetSpeechLenSamp inst
      else s16 (WebRtcSpl_DivU32U16 (u32 (timeStamp - am_lastTimeStamp inst))
                  (u16 (seqNumber - am_lastSeqNo inst))))"

text \<open>The cumulative sum of streaming mode.\<close>

definition update_csum :: "automode \<Rightarrow> int \<Rightarrow> int \<Rightarrow> int \<Rightarrow> automode" where
  "update_csum inst seqNumber packetLenSamp fsHz =
     (let timeIatQ8 = s16 (WebRtcSpl_DivW32W16 (s32 (shl (am_packetIatCountSamp inst) 8)) packetLenSamp);
          cSum = s16 (am_cSumIatQ8 inst + (timeIatQ8 - shl (seqNumber - am_lastSeqNo inst) 8));
          cSum = s16 (cSum - CSUM_IAT_DRIFT);
          cSum = (if cSum > 0 then cSum else 0);
          inst = inst\<lparr>am_cSumIatQ8 := cSum\<rparr>;
          inst = (if cSum > am_maxCSumIatQ8 inst
                  then inst\<lparr>am_maxCSumIatQ8 := cSum, am_maxCSumUpdateTimer := 0\<rparr> else inst)
      in if am_maxCSumUpdateTimer inst > u32 (fsHz * MAX_STREAMING_PEAK_PERIOD)
         then inst\<lparr>am_maxCSumIatQ8 := s16 (am_maxCSumIatQ8 inst - 4)\<rparr> else inst)"

text \<open>The inter-arrival time in packets: compensated for lost and reordered packets, saturated.\<close>

definition compensate_iat :: "automode \<Rightarrow> int \<Rightarrow> int \<Rightarrow> int" where
  "compensate_iat inst seqNumber timeIat =
     (let timeIat = (if seqNumber > am_lastSeqNo inst + 1
            then u32 (timeIat - (if timeIat < u32 (seqNumber - am_lastSeqNo inst - 1) then timeIat
                                 else u32 (seqNumber - am_lastSeqNo inst - 1)))
            else if seqNumber < am_lastSeqNo inst
            then u32 (timeIat + u32 (am_lastSeqNo inst + 1 - seqNumber))
            else timeIat)
      in if timeIat < int MAX_IAT then timeIat else int MAX_IAT)"

text \<open>One probability times the forgetting factor, in the two halves of the 32-bit product.\<close>

definition forget_prob :: "int \<Rightarrow> int \<Rightarrow> int" where
  "forget_prob iatProbFact p =
     (let tempHi = s32 (shl (iatProbFact * s16 (shr p 16)) 1);
          tempLo = shr (s32 (iatProbFact * u16 (p AND 65535))) 15
      in s32 (tempHi + tempLo))"

text \<open>
  The correction that makes the vector sum to 1: from the beginning, a sixteenth of each
  element is taken off (\<open>tempsum > 0\<close>) or added (\<open>tempsum < 0\<close>) until nothing is left.
\<close>

fun correct_sum :: "int \<Rightarrow> int list \<Rightarrow> int list" where
  "correct_sum tempsum [] = []"
| "correct_sum tempsum (p # ps) =
     (if tempsum > 0
      then let tempvar = min tempsum (shr p 4) in (p - tempvar) # correct_sum (tempsum - tempvar) ps
      else if tempsum < 0
      then let tempvar = min (- tempsum) (shr p 4) in (p + tempvar) # correct_sum (tempsum + tempvar) ps
      else p # ps)"

definition update_iat_prob :: "automode \<Rightarrow> nat \<Rightarrow> automode" where
  "update_iat_prob inst timeIat =
     (let f = am_iatProbFact inst;
          prob = map (forget_prob f) (am_iatProb inst);
          inc = shl (32768 - f) 15;
          tempsum = s32 (sum_list prob + inc - shl 1 30);
          prob = prob[timeIat := s32 (prob ! timeIat + inc)]
      in inst\<lparr>am_iatProb := correct_sum tempsum prob,
              am_iatProbFact := s16 (f + shr (IAT_PROB_FACT - f + 3) 2)\<rparr>)"

text \<open>The limits of the buffer level: the delays asked for, and 75 percent of the buffer.\<close>

definition limit_levels :: "automode \<Rightarrow> int \<Rightarrow> int \<Rightarrow> int \<Rightarrow> int \<Rightarrow> bool \<Rightarrow> automode" where
  "limit_levels inst level maxBufLen fsHz packetLenSamp streamingMode =
     (let minimum_delay_q8 = s32 (shl (am_minimum_delay_ms inst * (fsHz sdiv 1000)) 8) sdiv packetLenSamp;
          maximum_delay_q8 = s32 (shl (am_maximum_delay_ms inst * (fsHz sdiv 1000)) 8) sdiv packetLenSamp;
          opt = (if streamingMode then max level (am_maxCSumIatQ8 inst) else level);
          required = opt;
          opt = max opt minimum_delay_q8;
          opt = (if maximum_delay_q8 > 0 then min opt (max maximum_delay_q8 (shl 1 8)) else opt);
          maxBufLen = (if am_extraDelayMs inst > 0 \<and> am_packetSpeechLenSamp inst > 0
            then max (s32 (maxBufLen - s32 (am_extraDelayMs inst sdiv am_packetSpeechLenSamp inst * fsHz) sdiv 1000)) 1
            else maxBufLen);
          maxBufLen = s32 (shl maxBufLen 8);
          high_lim_delay = shr maxBufLen 1 + shr maxBufLen 2
      in inst\<lparr>am_optBufLevel := min opt high_lim_delay,
              am_required_delay_q8 := min required high_lim_delay\<rparr>)"

definition post_call_stats :: "automode \<Rightarrow> int \<Rightarrow> automode" where
  "post_call_stats inst fsHz =
     (let timeIat = u32 (am_packetIatCountSamp inst * 1000) div u32 fsHz;
          inst = (if timeIat > 2000 then inst\<lparr>am_countIAT2000ms := u32 (am_countIAT2000ms inst + 1)\<rparr>
                  else if timeIat > 1000 then inst\<lparr>am_countIAT1000ms := u32 (am_countIAT1000ms inst + 1)\<rparr>
                  else if timeIat > 500 then inst\<lparr>am_countIAT500ms := u32 (am_countIAT500ms inst + 1)\<rparr>
                  else inst)
      in if timeIat > am_longestIATms inst then inst\<lparr>am_longestIATms := timeIat\<rparr> else inst)"

definition WebRtcNetEQ_UpdateIatStatistics ::
    "automode \<Rightarrow> int \<Rightarrow> int \<Rightarrow> int \<Rightarrow> int \<Rightarrow> bool \<Rightarrow> bool \<Rightarrow> int \<times> automode" where
  "WebRtcNetEQ_UpdateIatStatistics inst maxBufLen seqNumber timeStamp fsHz mdCodec streamingMode =
     (if maxBufLen \<le> 1 \<or> fsHz \<le> 0 then (-1, inst)
      else let packetLenSamp = packet_len_samp inst seqNumber timeStamp;
               (retval, inst) = (if packetLenSamp > 0
                 then let timeIat = u32 (WebRtcSpl_DivW32W16 (s32 (am_packetIatCountSamp inst)) packetLenSamp);
                          inst1 = (if streamingMode then update_csum inst seqNumber packetLenSamp fsHz else inst);
                          timeIat = compensate_iat inst seqNumber timeIat;
                          inst2 = update_iat_prob inst1 (nat timeIat);
                          (tempvar, inst3) = WebRtcNetEQ_CalcOptimalBufLvl inst2 fsHz mdCodec timeIat streamingMode
                      in if tempvar > 0
                         then (0, limit_levels inst3 tempvar maxBufLen fsHz packetLenSamp streamingMode)
                         else (tempvar, inst3)
                 else (0, inst))
           in (retval, (post_call_stats inst fsHz)\<lparr>am_packetIatCountSamp := 0,
                 am_lastSeqNo := seqNumber, am_lastTimeStamp := timeStamp\<rparr>))"

section \<open>Filter, packet length, reset, average\<close>

definition WebRtcNetEQ_BufferLevelFilter :: "int \<Rightarrow> automode \<Rightarrow> int \<Rightarrow> int \<Rightarrow> int \<times> automode" where
  "WebRtcNetEQ_BufferLevelFilter curSizeMs8 inst sampPerCall fsMult =
     (if sampPerCall \<le> 0 \<or> fsMult \<le> 0 then (-1, inst)
      else let curSizeFrames = (if am_packetSpeechLenSamp inst > 0
                 then s16 (WebRtcSpl_DivW32W16 (s32 (curSizeMs8 * fsMult)) (am_packetSpeechLenSamp inst))
                 else 0);
               inst = (if am_levelFiltFact inst > 0
                 then inst\<lparr>am_buffLevelFilt := s32 (shr (s32 (am_levelFiltFact inst * am_buffLevelFilt inst)) 8
                        + (256 - am_levelFiltFact inst) * curSizeFrames)\<rparr> else inst);
               inst = (if am_prevTimeScale inst \<noteq> 0
                 then let l = s32 (am_buffLevelFilt inst - WebRtcSpl_DivW32W16
                              (s32 (shl (am_sampleMemory inst) 8)) (am_packetSpeechLenSamp inst))
                      in inst\<lparr>am_buffLevelFilt := (if l > 0 then l else 0),
                           am_prevTimeScale := 0, am_timescaleHoldOff := AUTOMODE_TIMESCALE_LIMIT\<rparr>
                 else inst)
           in (0, inst\<lparr>am_packetIatCountSamp := u32 (am_packetIatCountSamp inst + sampPerCall),
                am_peakIatCountSamp := u32 (am_peakIatCountSamp inst + sampPerCall),
                am_timescaleHoldOff := shr (am_timescaleHoldOff inst) 1,
                am_maxCSumUpdateTimer := u32 (am_maxCSumUpdateTimer inst + sampPerCall)\<rparr>))"

definition WebRtcNetEQ_SetPacketSpeechLen :: "automode \<Rightarrow> int \<Rightarrow> int \<Rightarrow> int \<times> automode" where
  "WebRtcNetEQ_SetPacketSpeechLen inst newLenSamp fsHz =
     (if newLenSamp \<le> 0 \<or> fsHz \<le> 0 then (-1, inst)
      else (0, inst\<lparr>am_packetSpeechLenSamp := newLenSamp, am_lastPackCNGorDTMF := 1,
             am_packetIatCountSamp := 0,
             am_peakThresholdPkt := u16 (WebRtcSpl_DivW32W16ResW16
               (shr (PEAK_HEIGHT * s16 (shr fsHz 6)) 2) newLenSamp)\<rparr>))"

text \<open>The initial histogram: \<open>tempprob\<close> halved for every element, in the high half word.\<close>

fun initial_iat :: "nat \<Rightarrow> int \<Rightarrow> int list" where
  "initial_iat 0 tempprob = []"
| "initial_iat (Suc n) tempprob =
     (let tempprob = shr tempprob 1 in shl tempprob 16 # initial_iat n tempprob)"

definition WebRtcNetEQ_ResetAutomode :: "automode \<Rightarrow> int \<Rightarrow> int \<times> automode" where
  "WebRtcNetEQ_ResetAutomode inst maxBufLenPackets =
     (let maxBufLenPackets = (if maxBufLenPackets \<le> 1 then 10 else maxBufLenPackets);
          opt = min 4 (shr maxBufLenPackets 1 + shr maxBufLenPackets 1)
      in (0, inst\<lparr>am_buffLevelFilt := 0, am_packetSpeechLenSamp := 0, am_lastPackCNGorDTMF := 1,
            am_peakModeDisabled := 1, am_peakIatCountSamp := 0, am_peakIndex := -1,
            am_curPeakHeight := 0, am_curPeakPeriod := 0,
            am_peakHeightPkt := replicate NUM_PEAKS 0, am_peakPeriodSamp := replicate NUM_PEAKS 0,
            am_iatProb := initial_iat (MAX_IAT + 1) 16386,
            am_optBufLevel := opt, am_required_delay_q8 := opt, am_levelFiltFact := 253,
            am_iatProbFact := 0, am_packetIatCountSamp := 0, am_prevTimeScale := 0,
            am_timescaleHoldOff := AUTOMODE_TIMESCALE_LIMIT,
            am_cSumIatQ8 := 0, am_maxCSumIatQ8 := 0\<rparr>))"

fun weighted_sum :: "int \<Rightarrow> int list \<Rightarrow> int" where
  "weighted_sum i [] = 0"
| "weighted_sum i (p # ps) = shr p 6 * i + weighted_sum (i + 1) ps"

definition WebRtcNetEQ_AverageIAT :: "automode \<Rightarrow> int" where
  "WebRtcNetEQ_AverageIAT inst =
     (let sum_q24 = s32 (weighted_sum 0 (am_iatProb inst) - shl 1 24)
      in shr (s32 (shr sum_q24 7 * 15625)) 11)"

section \<open>The histogram is a probability distribution\<close>

lemma forget_prob_eq:
  assumes "0 \<le> f" "f < 32768" "0 \<le> p" "p \<le> 2 ^ 30"
  shows "forget_prob f p = f * p div 2 ^ 15"
proof -
  let ?hi = "p div 65536" and ?lo = "p mod 65536"
  have hi: "0 \<le> ?hi" "?hi \<le> 16384" and lo: "0 \<le> ?lo" "?lo < 65536"
    using assms(3,4) by (simp_all add: pos_imp_zdiv_nonneg_iff) 
  have bhi: "0 \<le> f * ?hi" "f * ?hi \<le> 32767 * 16384"
    using assms(1) hi(1) by (simp, intro mult_mono) (use assms hi in auto)
  have blo: "0 \<le> f * ?lo" "f * ?lo \<le> 32767 * 65535"
    using assms(1) lo(1) by (simp, intro mult_mono) (use assms lo in auto)
  have and_lo: "u16 (p AND 65535) = ?lo"
    using and_mask_field [of p 16] lo by (simp add: u16_id)
  have h: "s32 (shl (f * s16 (shr p 16)) 1) = 2 * (f * ?hi)"
    using hi bhi by (simp add: shr_eq_div shl_eq_mult s16_id s32_nonneg)
  have l: "shr (s32 (f * u16 (p AND 65535))) 15 = f * ?lo div 32768"
    unfolding and_lo using blo by (simp add: shr_eq_div s32_nonneg)
  have "f * ?lo div 32768 \<le> 65534" using blo(2) by linarith
  moreover have "0 \<le> f * ?lo div 32768" using blo(1) by simp
  ultimately have "forget_prob f p = 2 * (f * ?hi) + f * ?lo div 32768"
    unfolding forget_prob_def Let_def h l using bhi by (intro s32_nonneg) auto
  moreover have "f * p div 32768 = 2 * (f * ?hi) + f * ?lo div 32768"
  proof -
    have "f * p = f * (65536 * ?hi + ?lo)" by simp
    also have "\<dots> = f * ?lo + 2 * (f * ?hi) * 32768" by (simp only: algebra_simps)
    finally show ?thesis using div_mult_self1 [of 32768 "f * ?lo" "2 * (f * ?hi)"] by simp
  qed
  ultimately show ?thesis by simp
qed

lemma sum_div_le: "0 < (k :: int) \<Longrightarrow> k * sum_list (map (\<lambda>p. g p div k) ps) \<le> sum_list (map g ps)"
proof (induction ps)
  case (Cons p ps)
  have "k * (g p div k) \<le> g p" using Cons.prems pos_mod_sign [of k "g p"] by (simp add: minus_mod_eq_mult_div [symmetric])
  with Cons show ?case by (simp add: distrib_left)
qed simp

lemma sum_div_ge:
  "0 < (k :: int) \<Longrightarrow> sum_list (map g ps) - (k - 1) * int (length ps) \<le> k * sum_list (map (\<lambda>p. g p div k) ps)"
proof (induction ps)
  case (Cons p ps)
  have "g p - (k - 1) \<le> k * (g p div k)"
    using pos_mod_bound [OF Cons.prems, of "g p"] unfolding minus_mod_eq_mult_div [symmetric] by linarith
  with Cons show ?case by (simp add: algebra_simps)
qed simp

lemma correct_sum_neg:
  "t < 0 \<Longrightarrow> correct_sum t (p # ps) = (p + min (- t) (p div 16)) # correct_sum (t + min (- t) (p div 16)) ps"
  by (simp add: Let_def shr_eq_div)

lemma correct_sum_zero: "correct_sum 0 ps = ps"
  by (cases ps) simp_all

lemma correct_sum_low:
  "t \<le> 0 \<Longrightarrow> \<forall>p \<in> set ps. 0 \<le> p \<Longrightarrow>
   length (correct_sum t ps) = length ps \<and> (\<forall>p \<in> set (correct_sum t ps). 0 \<le> p)
   \<and> sum_list (correct_sum t ps) = sum_list ps + min (- t) (sum_list (map (\<lambda>p. p div 16) ps))"
proof (induction ps arbitrary: t)
  case (Cons p ps)
  let ?S = "sum_list (map (\<lambda>p. p div 16) ps)"
  have pos: "0 \<le> ?S" "0 \<le> p div 16" "0 \<le> p" "\<forall>p \<in> set ps. 0 \<le> p"
    using Cons.prems(2) by (auto intro!: sum_list_nonneg simp: pos_imp_zdiv_nonneg_iff)
  show ?case
  proof (cases "t = 0")
    case True
    with Cons.prems(2) pos(1,2) show ?thesis by (simp add: correct_sum_zero)
  next
    case False
    define v where "v = min (- t) (p div 16)"
    have v: "0 \<le> v" "t + v \<le> 0" using Cons.prems(1) pos(2) by (simp_all add: v_def)
    have eq: "correct_sum t (p # ps) = (p + v) # correct_sum (t + v) ps"
      using False Cons.prems(1) correct_sum_neg [of t p ps] by (simp add: v_def)
    have "v + min (- (t + v)) ?S = min (- t) (p div 16 + ?S)"
      using pos(1,2) Cons.prems(1) by (simp add: v_def min_def)
    then show ?thesis
      using Cons.IH [OF v(2) pos(4)] pos(3) v(1) unfolding eq by simp
  qed
qed simp

text \<open>A histogram of inter-arrival times: not negative, and exactly 1 in Q30 in sum.\<close>

definition iat_dist :: "int list \<Rightarrow> bool" where
  "iat_dist ps \<longleftrightarrow> length ps = MAX_IAT + 1 \<and> (\<forall>p \<in> set ps. 0 \<le> p) \<and> sum_list ps = 2 ^ 30"

lemma iat_dist_le: "iat_dist ps \<Longrightarrow> p \<in> set ps \<Longrightarrow> 0 \<le> p \<and> p \<le> 2 ^ 30"
  using member_le_sum_list [of p ps] by (auto simp: iat_dist_def)

lemma sum_list_update_int:
  "t < length ps \<Longrightarrow> sum_list (ps[t := ps ! t + v]) = sum_list ps + (v :: int)"
  by (induction ps arbitrary: t) (auto split: nat.splits)

lemma update_iat_dist:
  assumes "iat_dist (am_iatProb inst)" "0 \<le> am_iatProbFact inst" "am_iatProbFact inst \<le> 32745" "t \<le> MAX_IAT"
  shows "iat_dist (am_iatProb (update_iat_prob inst t))"
    "0 \<le> am_iatProbFact (update_iat_prob inst t) \<and> am_iatProbFact (update_iat_prob inst t) \<le> 32745"
proof -
  let ?f = "am_iatProbFact inst" and ?ps = "am_iatProb inst"
  define qs where "qs = map (\<lambda>p. ?f * p div 2 ^ 15) ?ps"
  define inc where "inc = (32768 - ?f) * 2 ^ 15"
  define tempsum where "tempsum = sum_list qs + inc - 2 ^ 30"
  have len: "length ?ps = 65" and S: "sum_list ?ps = 2 ^ 30" using assms(1) by (simp_all add: iat_dist_def)
  have prob: "map (forget_prob ?f) ?ps = qs"
    unfolding qs_def using assms iat_dist_le [OF assms(1)] by (intro map_cong refl forget_prob_eq) auto
  have fS: "sum_list (map (\<lambda>p. ?f * p) ?ps) = ?f * 2 ^ 30" using S by (simp add: sum_list_const_mult)
  have hi: "2 ^ 15 * sum_list qs \<le> ?f * 2 ^ 30"
    using sum_div_le [of "2 ^ 15" "\<lambda>p. ?f * p" ?ps] fS by (simp add: qs_def)
  have lo: "?f * 2 ^ 30 - (2 ^ 15 - 1) * 65 \<le> 2 ^ 15 * sum_list qs"
    using sum_div_ge [of "2 ^ 15" "\<lambda>p. ?f * p" ?ps] fS len by (simp add: qs_def)
  have q0: "0 \<le> q" if "q \<in> set qs" for q
  proof -
    from that obtain p where "p \<in> set ?ps" "q = ?f * p div 2 ^ 15" by (auto simp: qs_def)
    then show "0 \<le> q"
      using iat_dist_le [OF assms(1), of p] assms(2) by (simp add: pos_imp_zdiv_nonneg_iff)
  qed
  have inc: "0 < inc" "inc + ?f * 2 ^ 15 = 2 ^ 30" using assms(3) by (simp_all add: inc_def)
  have ts: "tempsum \<le> 0" "-65 \<le> tempsum" using hi lo inc(2) by (simp_all add: tempsum_def)
  have qlen: "length qs = 65" using len by (simp add: qs_def)
  then have t: "t < length qs" using assms(4) by simp
  have qt: "0 \<le> qs ! t" "qs ! t \<le> sum_list qs"
    using q0 nth_mem [OF t] member_le_sum_list [of "qs ! t" qs] by blast+
  have "sum_list qs \<le> ?f * 2 ^ 15" using hi by simp
  then have "qs ! t + inc \<le> 2 ^ 30" using qt(2) inc(2) by linarith
  then have small: "s32 (qs ! t + inc) = qs ! t + inc" using qt(1) inc(1) by (intro s32_nonneg) auto
  define rs where "rs = qs[t := qs ! t + inc]"
  have r0: "\<forall>r \<in> set rs. 0 \<le> r"
  proof
    fix r assume "r \<in> set rs"
    then have "r = qs ! t + inc \<or> r \<in> set qs" unfolding rs_def by (rule in_set_list_update)
    then show "0 \<le> r" using q0 qt(1) inc(1) by auto
  qed
  have rS: "sum_list rs = 2 ^ 30 + tempsum" and rlen: "length rs = 65"
    using sum_list_update_int [OF t] qlen by (simp_all add: rs_def tempsum_def)
  have "sum_list rs - 15 * 65 \<le> 16 * sum_list (map (\<lambda>p. p div 16) rs)"
    using sum_div_ge [of 16 "\<lambda>p. p" rs] rlen by simp
  then have enough: "- tempsum \<le> sum_list (map (\<lambda>p. p div 16) rs)"
    using ts unfolding rS by simp
  have shl_inc: "shl (32768 - ?f) 15 = inc" by (simp add: inc_def shl_eq_mult)
  have sum: "s32 (sum_list qs + inc - shl 1 30) = tempsum"
    using ts by (subst s32_id) (simp_all add: tempsum_def shl_eq_mult)
  have eq: "am_iatProb (update_iat_prob inst t) = correct_sum tempsum rs"
    unfolding update_iat_prob_def Let_def prob shl_inc sum small by (simp add: rs_def)
  show "iat_dist (am_iatProb (update_iat_prob inst t))"
    unfolding eq iat_dist_def using correct_sum_low [OF ts(1) r0] enough rS rlen by simp
  have "s16 (?f + (32748 - ?f) div 4) = ?f + (32748 - ?f) div 4" using assms(2,3) by (intro s16_id) auto
  then have "am_iatProbFact (update_iat_prob inst t) = ?f + (32748 - ?f) div 4"
    by (simp add: update_iat_prob_def Let_def shr_eq_div)
  then show "0 \<le> am_iatProbFact (update_iat_prob inst t) \<and> am_iatProbFact (update_iat_prob inst t) \<le> 32745"
    using assms(2,3) by linarith
qed

section \<open>The optimal buffer level\<close>

text \<open>The probability of an inter-arrival time above \<open>B\<close> packets.\<close>

definition tail_prob :: "int list \<Rightarrow> nat \<Rightarrow> int" where
  "tail_prob ps B = sum_list (drop (Suc B) ps)"

lemma find_level_correct:
  assumes "\<forall>p \<in> set ps. 0 \<le> p" "sum_list ps \<le> 2 ^ 30" "B + length ps = MAX_IAT" "ps \<noteq> []"
    "find_level beta ps (sum_list ps) B = (s, C)"
  shows "B < C \<and> C \<le> MAX_IAT \<and> s = sum_list (drop (C - B) ps) \<and> (s \<le> beta \<or> C = MAX_IAT)
    \<and> (\<forall>k. B < k \<and> k < C \<longrightarrow> beta < sum_list (drop (k - B) ps))"
  using assms
proof (induction ps arbitrary: B)
  case (Cons p ps)
  have "0 \<le> sum_list ps" "0 \<le> p" using Cons.prems(1) by (auto intro: sum_list_nonneg)
  then have sum: "s32 (sum_list (p # ps) - p) = sum_list ps" using Cons.prems(2) by (simp add: s32_nonneg)
  show ?case
  proof (cases "sum_list ps > beta \<and> Suc B < MAX_IAT")
    case True
    then have f: "find_level beta ps (sum_list ps) (Suc B) = (s, C)"
      using Cons.prems(5) sum by (simp add: Let_def)
    have IH: "Suc B < C \<and> C \<le> MAX_IAT \<and> s = sum_list (drop (C - Suc B) ps) \<and> (s \<le> beta \<or> C = MAX_IAT)
      \<and> (\<forall>k. Suc B < k \<and> k < C \<longrightarrow> beta < sum_list (drop (k - Suc B) ps))"
      using Cons.prems True \<open>0 \<le> p\<close> by (intro Cons.IH f) auto
    have shift: "drop (k - B) (p # ps) = drop (k - Suc B) ps" if "B < k" for k
      using that by (simp add: Suc_diff_Suc drop_Cons')
    have "beta < sum_list (drop (k - B) (p # ps))" if "B < k" "k < C" for k
      using IH that True shift [OF that(1)] by (cases "k = Suc B") auto
    then show ?thesis using IH shift [of C] by auto
  next
    case False
    then show ?thesis using Cons.prems(3,5) sum by (auto simp: Let_def)
  qed
qed simp

lemma md_back_off_le: "md_back_off beta ps s B \<le> B"
  by (induction B arbitrary: s) (auto intro: le_SucI)

text \<open>Invariant of the parts the level depends on; \<open>curPeakHeight\<close> is in packets.\<close>

definition am_inv :: "automode \<Rightarrow> bool" where
  "am_inv inst \<longleftrightarrow> iat_dist (am_iatProb inst)
     \<and> 0 \<le> am_iatProbFact inst \<and> am_iatProbFact inst \<le> 32745
     \<and> length (am_peakHeightPkt inst) = NUM_PEAKS \<and> length (am_peakPeriodSamp inst) = NUM_PEAKS
     \<and> (\<forall>h \<in> set (am_peakHeightPkt inst). 0 \<le> h \<and> h \<le> int MAX_IAT)
     \<and> 0 \<le> am_curPeakHeight inst \<and> am_curPeakHeight inst \<le> int MAX_IAT
     \<and> -1 \<le> am_peakIndex inst \<and> am_peakIndex inst < int NUM_PEAKS"

lemma peak_observed_inv:
  assumes "am_inv inst" "0 \<le> iat" "iat \<le> int MAX_IAT"
  shows "am_inv (peak_observed inst fsHz iat)"
proof -
  let ?hs = "(am_peakHeightPkt inst)[nat (am_peakIndex inst) := iat]"
  have hs: "\<forall>h \<in> set ?hs. 0 \<le> h \<and> h \<le> int MAX_IAT"
    using assms by (auto simp: am_inv_def dest!: in_set_list_update)
  have "0 \<le> max_scan 0 ?hs \<and> max_scan 0 ?hs \<le> int MAX_IAT"
    unfolding max_scan_Max using hs by simp
  moreover have "s16 (if iat < 32767 then iat else 32767) = iat" using assms by (simp add: s16_id)
  moreover have "-1 \<le> (am_peakIndex inst + 1) AND 7" "(am_peakIndex inst + 1) AND 7 < 8"
    using and_mask_field [of "am_peakIndex inst + 1" 3] pos_mod_sign [of 8 "am_peakIndex inst + 1"]
    by (simp_all add: order_trans [of "-1" 0])
  ultimately show ?thesis
    using assms(1) hs by (auto simp: peak_observed_def am_inv_def Let_def)
qed

lemma first_level:
  assumes "iat_dist ps"
  obtains B where "find_level beta (tl ps) (s32 (2 ^ 30 - hd ps)) 0 = (tail_prob ps B, B)"
    "1 \<le> B" "B \<le> MAX_IAT" "tail_prob ps B \<le> beta \<or> B = MAX_IAT"
    "\<And>k. 1 \<le> k \<Longrightarrow> k < B \<Longrightarrow> beta < tail_prob ps k"
proof -
  obtain p qs where ps: "ps = p # qs" using assms by (cases ps) (auto simp: iat_dist_def)
  have q: "\<forall>q \<in> set qs. 0 \<le> q" "0 \<le> p" "sum_list qs = 2 ^ 30 - p" "length qs = MAX_IAT" "qs \<noteq> []"
    using assms by (auto simp: iat_dist_def ps)
  have "0 \<le> sum_list qs" using q(1) by (auto intro: sum_list_nonneg)
  then have sum: "s32 (2 ^ 30 - hd ps) = sum_list qs" using q(2,3) by (simp add: ps s32_nonneg)
  obtain s B where f: "find_level beta qs (sum_list qs) 0 = (s, B)" by fastforce
  have "0 < B \<and> B \<le> MAX_IAT \<and> s = sum_list (drop (B - 0) qs) \<and> (s \<le> beta \<or> B = MAX_IAT)
    \<and> (\<forall>k. 0 < k \<and> k < B \<longrightarrow> beta < sum_list (drop (k - 0) qs))"
    using q by (intro find_level_correct f) auto
  moreover have "find_level beta (tl ps) (s32 (2 ^ 30 - hd ps)) 0 = (s, B)"
    unfolding sum using f by (simp add: ps)
  ultimately show thesis by (intro that [of B]) (auto simp: ps tail_prob_def)
qed

text \<open>
  The level in packets before the peak mode: without multiple descriptions the least \<open>B\<close>
  whose tail probability is at most \<open>beta\<close>.
\<close>

definition level_beta :: "bool \<Rightarrow> int" where
  "level_beta streamingMode = (if streamingMode then AUTOMODE_STREAMING_BETA_INV_Q30 else AUTOMODE_BETA_INV_Q30)"

lemma calc_level:
  assumes "am_inv inst" "0 < fsHz" "0 \<le> iat" "iat \<le> int MAX_IAT"
  obtains B L inst' where "WebRtcNetEQ_CalcOptimalBufLvl inst fsHz md iat streaming = (256 * L, inst')"
    "am_inv inst'" "1 \<le> B" "B \<le> MAX_IAT" "1 \<le> L" "L \<le> 65"
    "am_peakFound inst' = 0 \<Longrightarrow> \<not> md \<Longrightarrow> L = int B"
    "am_peakFound inst' = 1 \<Longrightarrow> am_curPeakHeight inst' \<le> L"
    "tail_prob (am_iatProb inst) B \<le> level_beta streaming \<or> B = MAX_IAT"
    "\<And>k. 1 \<le> k \<Longrightarrow> k < B \<Longrightarrow> level_beta streaming < tail_prob (am_iatProb inst) k"
    "am_iatProb inst' = am_iatProb inst" "am_extraDelayMs inst' = am_extraDelayMs inst"
    "am_maximum_delay_ms inst' = am_maximum_delay_ms inst"
proof -
  let ?ps = "am_iatProb inst"
  obtain B where B: "find_level (level_beta streaming) (tl ?ps) (s32 (2 ^ 30 - hd ?ps)) 0 = (tail_prob ?ps B, B)"
    "1 \<le> B" "B \<le> MAX_IAT" "tail_prob ?ps B \<le> level_beta streaming \<or> B = MAX_IAT"
    "\<And>k. 1 \<le> k \<Longrightarrow> k < B \<Longrightarrow> level_beta streaming < tail_prob ?ps k"
    by (rule first_level [of ?ps "level_beta streaming"]) (use assms(1) in \<open>auto simp: am_inv_def\<close>)
  define bopt where "bopt = int (if md then Suc (md_back_off (level_beta streaming) ?ps (tail_prob ?ps B) B) else B)"
  have bopt: "1 \<le> bopt" "bopt \<le> 65"
    using B(2,3) md_back_off_le [of "level_beta streaming" ?ps "tail_prob ?ps B" B] by (auto simp: bopt_def)
  define inst1 where "inst1 = inst\<lparr>am_levelFiltFact := level_filt_fact B\<rparr>"
  define inst2 where "inst2 = (if iat > u32 (bopt + am_peakThresholdPkt inst1 + c_bool md) \<or> iat > u32 (shl bopt 1)
    then peak_observed inst1 fsHz iat else inst1)"
  have inv1: "am_inv inst1" using assms(1) by (simp add: inst1_def am_inv_def)
  then have inv2: "am_inv inst2" using peak_observed_inv [OF inv1 assms(3,4)] by (simp add: inst2_def)
  have prob: "am_iatProb inst2 = ?ps" "am_extraDelayMs inst2 = am_extraDelayMs inst"
    "am_maximum_delay_ms inst2 = am_maximum_delay_ms inst" by (simp_all add: inst2_def inst1_def peak_observed_def Let_def)
  define found where "found \<longleftrightarrow> am_peakModeDisabled inst2 = 0 \<and> am_peakIatCountSamp inst2 \<le> u32 (shl (am_curPeakPeriod inst2) 1)"
  define L where "L = (if found \<and> \<not> bopt > am_curPeakHeight inst2 then u16 (am_curPeakHeight inst2) else bopt)"
  have cur: "u16 (am_curPeakHeight inst2) = am_curPeakHeight inst2" "am_curPeakHeight inst2 \<le> 64"
    using inv2 by (simp_all add: am_inv_def u16_id)
  have L: "1 \<le> L" "L \<le> 65" using bopt cur by (auto simp: L_def)
  have scale: "u16 (shl L 8) = 256 * L" "\<not> 256 * L \<le> 0" "s16 (256 * L) = 256 * L"
    using L by (simp_all add: shl_eq_mult u16_id s16_id)
  have "WebRtcNetEQ_CalcOptimalBufLvl inst fsHz md iat streaming = (256 * L, inst2\<lparr>am_peakFound := c_bool found\<rparr>)"
    using assms(2)
    unfolding WebRtcNetEQ_CalcOptimalBufLvl_def Let_def level_beta_def [symmetric] B(1) prod.case
      bopt_def [symmetric] inst1_def [symmetric] inst2_def [symmetric] found_def [symmetric] L_def [symmetric] scale(1)
    using L scale(3) by simp
  then show thesis
    using inv2 B(2-5) L prob
    by (intro that [of L "inst2\<lparr>am_peakFound := c_bool found\<rparr>" B])
      (auto simp: am_inv_def L_def bopt_def cur)
qed

section \<open>Runs\<close>

lemma compensate_range: "0 \<le> iat \<Longrightarrow> 0 \<le> compensate_iat inst seq iat \<and> compensate_iat inst seq iat \<le> int MAX_IAT"
  by (simp add: compensate_iat_def Let_def cint_range)

lemma csum_same [simp]:
  "am_iatProb (update_csum inst seq len fs) = am_iatProb inst"
  "am_inv (update_csum inst seq len fs) = am_inv inst"
  by (simp_all add: update_csum_def Let_def am_inv_def)

lemma limit_same [simp]:
  "am_iatProb (limit_levels inst l m fs len st) = am_iatProb inst"
  "am_inv (limit_levels inst l m fs len st) = am_inv inst"
  by (simp_all add: limit_levels_def Let_def am_inv_def)

lemma stats_same [simp]:
  "am_iatProb (post_call_stats inst fs) = am_iatProb inst"
  "am_inv (post_call_stats inst fs) = am_inv inst"
  "am_optBufLevel (post_call_stats inst fs) = am_optBufLevel inst"
  "am_required_delay_q8 (post_call_stats inst fs) = am_required_delay_q8 inst"
  by (simp_all add: post_call_stats_def Let_def am_inv_def)

lemma update_iat_inv:
  assumes "am_inv inst" "t \<le> MAX_IAT"
  shows "am_inv (update_iat_prob inst t)"
proof -
  have "iat_dist (am_iatProb inst)" "0 \<le> am_iatProbFact inst" "am_iatProbFact inst \<le> 32745"
    using assms(1) by (simp_all add: am_inv_def)
  note d = update_iat_dist [OF this assms(2)]
  have "am_peakHeightPkt (update_iat_prob inst t) = am_peakHeightPkt inst"
    "am_peakPeriodSamp (update_iat_prob inst t) = am_peakPeriodSamp inst"
    "am_curPeakHeight (update_iat_prob inst t) = am_curPeakHeight inst"
    "am_peakIndex (update_iat_prob inst t) = am_peakIndex inst"
    by (simp_all add: update_iat_prob_def Let_def)
  with d assms(1) show ?thesis by (simp add: am_inv_def)
qed

text \<open>An arriving packet: the histogram update, the level, and its limits.\<close>

lemma update_cases:
  assumes "am_inv inst" "1 < maxBufLen" "0 < fsHz"
  obtains (no_length) "packet_len_samp inst seq ts \<le> 0"
      "WebRtcNetEQ_UpdateIatStatistics inst maxBufLen seq ts fsHz md st = (0,
         (post_call_stats inst fsHz)\<lparr>am_packetIatCountSamp := 0, am_lastSeqNo := seq, am_lastTimeStamp := ts\<rparr>)"
  | (update) inst1 iat L inst2 where "0 < packet_len_samp inst seq ts" "am_inv inst1"
      "WebRtcNetEQ_CalcOptimalBufLvl inst1 fsHz md iat st = (256 * L, inst2)" "am_inv inst2"
      "1 \<le> L" "L \<le> 65" "am_extraDelayMs inst2 = am_extraDelayMs inst"
      "am_maximum_delay_ms inst2 = am_maximum_delay_ms inst"
      "WebRtcNetEQ_UpdateIatStatistics inst maxBufLen seq ts fsHz md st = (0,
         (post_call_stats (limit_levels inst2 (256 * L) maxBufLen fsHz (packet_len_samp inst seq ts) st) fsHz)
           \<lparr>am_packetIatCountSamp := 0, am_lastSeqNo := seq, am_lastTimeStamp := ts\<rparr>)"
proof (cases "packet_len_samp inst seq ts > 0")
  case False
  then show thesis
    using assms by (intro no_length) (simp_all add: WebRtcNetEQ_UpdateIatStatistics_def Let_def)
next
  case True
  let ?len = "packet_len_samp inst seq ts"
  let ?iat = "compensate_iat inst seq (u32 (WebRtcSpl_DivW32W16 (s32 (am_packetIatCountSamp inst)) ?len))"
  let ?c = "if st then update_csum inst seq ?len fsHz else inst"
  let ?i = "update_iat_prob ?c (nat ?iat)"
  have iat: "0 \<le> ?iat" "?iat \<le> int MAX_IAT" using compensate_range by (simp_all add: cint_range)
  have inv: "am_inv ?i" using assms(1) iat by (intro update_iat_inv) auto
  obtain B L inst2 where c: "WebRtcNetEQ_CalcOptimalBufLvl ?i fsHz md ?iat st = (256 * L, inst2)" "am_inv inst2"
    "1 \<le> L" "L \<le> 65" "am_extraDelayMs inst2 = am_extraDelayMs ?i"
    "am_maximum_delay_ms inst2 = am_maximum_delay_ms ?i"
    by (rule calc_level [OF inv assms(3) iat, of md st]) blast
  moreover have "am_extraDelayMs ?i = am_extraDelayMs inst" "am_maximum_delay_ms ?i = am_maximum_delay_ms inst"
    by (simp_all add: update_iat_prob_def update_csum_def Let_def)
  moreover have "WebRtcNetEQ_UpdateIatStatistics inst maxBufLen seq ts fsHz md st = (0,
         (post_call_stats (limit_levels inst2 (256 * L) maxBufLen fsHz ?len st) fsHz)
           \<lparr>am_packetIatCountSamp := 0, am_lastSeqNo := seq, am_lastTimeStamp := ts\<rparr>)"
    using assms(2,3) True c(3) unfolding WebRtcNetEQ_UpdateIatStatistics_def Let_def c(1) prod.case
    by simp
  ultimately show thesis using True inv by (intro update) simp_all
qed

text \<open>What NetEQ does with the instance after a reset, in any order.\<close>

inductive am_reach :: "automode \<Rightarrow> bool" where
  reset: "am_reach (snd (WebRtcNetEQ_ResetAutomode inst maxBufLenPackets))"
| packet: "am_reach inst \<Longrightarrow>
    am_reach (snd (WebRtcNetEQ_UpdateIatStatistics inst maxBufLen seq ts fsHz md st))"
| filter_level: "am_reach inst \<Longrightarrow> am_reach (snd (WebRtcNetEQ_BufferLevelFilter cur inst samples fsMult))"
| packet_len: "am_reach inst \<Longrightarrow> am_reach (snd (WebRtcNetEQ_SetPacketSpeechLen inst len fsHz))"
| delays: "am_reach inst \<Longrightarrow> am_reach (inst\<lparr>am_extraDelayMs := e, am_minimum_delay_ms := lo,
    am_maximum_delay_ms := hi, am_lastPackCNGorDTMF := c, am_sampleMemory := m, am_prevTimeScale := p\<rparr>)"

lemma initial_dist: "iat_dist (initial_iat 65 16386)"
  by code_simp

lemma update_keeps_inv:
  assumes "am_inv inst"
  shows "am_inv (snd (WebRtcNetEQ_UpdateIatStatistics inst maxBufLen seq ts fsHz md st))"
proof (cases "1 < maxBufLen \<and> 0 < fsHz")
  case True
  then have a: "1 < maxBufLen" "0 < fsHz" by simp_all
  have plain: "am_inv (i\<lparr>am_packetIatCountSamp := x, am_lastSeqNo := y, am_lastTimeStamp := z\<rparr>) = am_inv i" for i x y z
    by (simp add: am_inv_def)
  show ?thesis
    using assms a by (cases rule: update_cases [where seq = seq and ts = ts and md = md and st = st])
      (simp_all add: plain assms)
next
  case False
  then have "maxBufLen \<le> 1 \<or> fsHz \<le> 0" by auto
  then show ?thesis using assms by (simp add: WebRtcNetEQ_UpdateIatStatistics_def)
qed

lemma filter_keeps_inv: "am_inv inst \<Longrightarrow> am_inv (snd (WebRtcNetEQ_BufferLevelFilter cur inst samples fsMult))"
  by (simp add: WebRtcNetEQ_BufferLevelFilter_def Let_def am_inv_def)

lemma am_reach_inv: "am_reach inst \<Longrightarrow> am_inv inst"
proof (induction rule: am_reach.induct)
  case (reset inst maxBufLenPackets)
  have "iat_dist (initial_iat (MAX_IAT + 1) 16386)" using initial_dist by simp
  then show ?case by (simp add: WebRtcNetEQ_ResetAutomode_def Let_def am_inv_def del: initial_iat.simps)
next
  case (packet inst maxBufLen seq ts fsHz md st)
  then show ?case by (intro update_keeps_inv)
next
  case (filter_level inst cur samples fsMult)
  then show ?case by (intro filter_keeps_inv)
next
  case (packet_len inst len fsHz)
  then show ?case by (simp add: WebRtcNetEQ_SetPacketSpeechLen_def am_inv_def)
next
  case (delays inst e lo hi c m p)
  then show ?case by (simp add: am_inv_def)
qed

section \<open>Properties\<close>

text \<open>
  C7: After a reset, in any run of packet arrivals, level updates and packet length changes,
  the histogram of inter-arrival times is a probability distribution: 65 values, none
  negative, that sum to exactly \<open>2 ^ 30\<close>, whatever the rounding of the forgetting step.
\<close>

theorem iat_histogram_is_distribution:
  assumes "am_reach inst"
  shows "length (am_iatProb inst) = 65 \<and> (\<forall>p \<in> set (am_iatProb inst). 0 \<le> p)
    \<and> sum_list (am_iatProb inst) = 2 ^ 30 \<and> 0 \<le> am_iatProbFact inst \<and> am_iatProbFact inst \<le> 32745
    \<and> (\<forall>h \<in> set (am_peakHeightPkt inst). 0 \<le> h \<and> h \<le> 64)"
  using am_reach_inv [OF assms] by (simp add: am_inv_def iat_dist_def)

definition am_blank :: automode where
  "am_blank = \<lparr>am_levelFiltFact = 0, am_buffLevelFilt = 0, am_iatProb = [], am_iatProbFact = 0,
     am_packetIatCountSamp = 0, am_optBufLevel = 0, am_packetSpeechLenSamp = 0, am_lastPackCNGorDTMF = 0,
     am_lastSeqNo = 0, am_lastTimeStamp = 0, am_sampleMemory = 0, am_prevTimeScale = 0,
     am_timescaleHoldOff = 0, am_extraDelayMs = 0, am_minimum_delay_ms = 0, am_maximum_delay_ms = 0,
     am_required_delay_q8 = 0, am_peakPeriodSamp = [], am_peakHeightPkt = [], am_peakIndex = 0,
     am_peakThresholdPkt = 0, am_peakIatCountSamp = 0, am_curPeakPeriod = 0, am_curPeakHeight = 0,
     am_peakModeDisabled = 0, am_peakFound = 0, am_countIAT500ms = 0, am_countIAT1000ms = 0,
     am_countIAT2000ms = 0, am_longestIATms = 0, am_cSumIatQ8 = 0, am_maxCSumIatQ8 = 0,
     am_maxCSumUpdateTimer = 0\<rparr>"

definition am_start :: automode where
  "am_start = snd (WebRtcNetEQ_ResetAutomode am_blank 50)"

lemma am_start_reach: "am_reach am_start" "am_inv am_start"
  using am_reach.reset [of am_blank 50] am_reach_inv by (simp_all add: am_start_def)

definition am_one_packet :: automode where
  "am_one_packet = snd (WebRtcNetEQ_UpdateIatStatistics am_start 50 7 160 8000 False False)"

lemma iat_histogram_is_distribution_witness:
  "length (am_iatProb am_one_packet) = 65 \<and> list_all (\<lambda>p. 0 \<le> p) (am_iatProb am_one_packet)
    \<and> sum_list (am_iatProb am_one_packet) = 2 ^ 30
    \<and> 0 \<le> am_iatProbFact am_one_packet \<and> am_iatProbFact am_one_packet \<le> 32745
    \<and> list_all (\<lambda>h. 0 \<le> h \<and> h \<le> 64) (am_peakHeightPkt am_one_packet)"
  using iat_histogram_is_distribution [OF am_reach.packet [OF am_start_reach(1)]]
  by (simp add: am_one_packet_def list_all_iff)

text \<open>
  The forgetting step in two 16-bit halves is the Q15 product, rounded down once: no
  precision is lost by splitting the multiplication.
\<close>

theorem forget_step_exact:
  assumes "0 \<le> f" "f < 32768" "0 \<le> p" "p \<le> 2 ^ 30"
  shows "forget_prob f p = f * p div 2 ^ 15"
  by (rule forget_prob_eq [OF assms])

lemma forget_step_exact_witness: "forget_prob 32745 (2 ^ 30 - 1) = 32745 * (2 ^ 30 - 1) div 2 ^ 15"
  by (rule forget_step_exact) simp_all

text \<open>
  C16: The buffer level is the quantile of the histogram: with a single-description codec and
  no delay peaks the level is \<open>256 * B\<close> for the least \<open>B\<close> of at least 1 such that a packet is
  later than \<open>B\<close> with probability at most 1/20 (1/2000 in streaming mode), or 64 if there
  is none.  In peak mode the level is at least the highest peak.  The comment of the code at this place asks for the probability of \<open>B\<close> or later; the
  loop subtracts the entry of \<open>B\<close> before it compares, so what it bounds is the probability of later than \<open>B\<close>.
\<close>

theorem level_is_quantile:
  assumes "am_reach inst" "0 < fsHz" "0 \<le> iat" "iat \<le> 64"
  shows "\<exists>B L inst'. WebRtcNetEQ_CalcOptimalBufLvl inst fsHz md iat st = (256 * L, inst')
    \<and> 1 \<le> B \<and> B \<le> 64 \<and> 1 \<le> L \<and> L \<le> 65
    \<and> (am_peakFound inst' = 0 \<and> \<not> md \<longrightarrow> L = int B)
    \<and> (am_peakFound inst' = 1 \<longrightarrow> am_curPeakHeight inst' \<le> L)
    \<and> (sum_list (drop (Suc B) (am_iatProb inst)) \<le> level_beta st \<or> B = 64)
    \<and> (\<forall>k. 1 \<le> k \<and> k < B \<longrightarrow> level_beta st < sum_list (drop (Suc k) (am_iatProb inst)))"
proof -
  have iat: "iat \<le> int MAX_IAT" using assms(4) by simp
  show ?thesis
    by (rule calc_level [OF am_reach_inv [OF assms(1)] assms(2,3) iat, of md st])
      (unfold tail_prob_def, blast)
qed

lemma level_is_quantile_witness:
  "\<exists>B L inst'. WebRtcNetEQ_CalcOptimalBufLvl am_start 8000 False 1 False = (256 * L, inst')
    \<and> 1 \<le> B \<and> B \<le> 64 \<and> 1 \<le> L \<and> L \<le> 65
    \<and> (am_peakFound inst' = 0 \<and> \<not> False \<longrightarrow> L = int B)
    \<and> (am_peakFound inst' = 1 \<longrightarrow> am_curPeakHeight inst' \<le> L)
    \<and> (sum_list (drop (Suc B) (am_iatProb am_start)) \<le> level_beta False \<or> B = 64)
    \<and> (\<forall>k. 1 \<le> k \<and> k < B \<longrightarrow> level_beta False < sum_list (drop (Suc k) (am_iatProb am_start)))"
  by (rule level_is_quantile [OF am_start_reach(1)]) simp_all

lemma limit_levels_bounds:
  fixes st :: bool and len fsHz :: int
  assumes "256 \<le> level" "2 \<le> maxBufLen" "maxBufLen < 2 ^ 23" "am_extraDelayMs inst \<le> 0"
  defines "i \<equiv> limit_levels inst level maxBufLen fsHz len st"
    and "limit \<equiv> s32 (shl (am_maximum_delay_ms inst * (fsHz sdiv 1000)) 8) sdiv len"
  shows "256 \<le> am_optBufLevel i \<and> am_optBufLevel i \<le> 192 * maxBufLen
    \<and> 256 \<le> am_required_delay_q8 i \<and> am_required_delay_q8 i \<le> 192 * maxBufLen
    \<and> (0 < limit \<longrightarrow> am_optBufLevel i \<le> max limit 256)"
proof -
  have "s32 (shl maxBufLen 8) = 256 * maxBufLen" using assms(2,3) by (simp add: shl_eq_mult s32_nonneg)
  then have high: "shr (s32 (shl maxBufLen 8)) 1 + shr (s32 (shl maxBufLen 8)) 2 = 192 * maxBufLen"
    by (simp add: shr_eq_div)
  define opt where "opt = (if st then max level (am_maxCSumIatQ8 inst) else level)"
  have opt: "256 \<le> opt" using assms(1) by (auto simp: opt_def)
  define minq where "minq = s32 (shl (am_minimum_delay_ms inst * (fsHz sdiv 1000)) 8) sdiv len"
  have "am_optBufLevel i = min (if limit > 0 then min (max opt minq) (max limit 256) else max opt minq) (192 * maxBufLen)"
    "am_required_delay_q8 i = min opt (192 * maxBufLen)"
    using assms(4) high unfolding i_def limit_levels_def Let_def
    by (simp_all add: opt_def minq_def limit_def shl_eq_mult)
  then show ?thesis using opt assms(2) by (auto simp: min_def max_def)
qed

definition am_paced :: automode where
  "am_paced = snd (WebRtcNetEQ_SetPacketSpeechLen am_start 160 8000)"

lemma am_paced_reach: "am_reach am_paced"
  unfolding am_paced_def by (rule am_reach.packet_len [OF am_start_reach(1)])

lemma am_paced_fields: "am_extraDelayMs am_paced = 0" "packet_len_samp am_paced 0 0 = 160"
  by (simp_all add: am_paced_def am_start_def am_blank_def WebRtcNetEQ_SetPacketSpeechLen_def
      WebRtcNetEQ_ResetAutomode_def packet_len_samp_def Let_def)

text \<open>
  A packet with a known length sets the level to at least one packet and at most 75
  percent of the buffer, and not above the maximum delay that is set.
\<close>

theorem update_level_bounds:
  assumes "am_reach inst" "2 \<le> maxBufLen" "maxBufLen < 2 ^ 23" "0 < fsHz" "am_extraDelayMs inst \<le> 0"
    "0 < packet_len_samp inst seq ts"
  shows "\<exists>inst'. WebRtcNetEQ_UpdateIatStatistics inst maxBufLen seq ts fsHz md st = (0, inst')
    \<and> 256 \<le> am_optBufLevel inst' \<and> am_optBufLevel inst' \<le> 192 * maxBufLen
    \<and> 256 \<le> am_required_delay_q8 inst' \<and> am_required_delay_q8 inst' \<le> 192 * maxBufLen
    \<and> (let limit = s32 (shl (am_maximum_delay_ms inst * (fsHz sdiv 1000)) 8) sdiv packet_len_samp inst seq ts
       in 0 < limit \<longrightarrow> am_optBufLevel inst' \<le> max limit 256)"
proof -
  have a: "1 < maxBufLen" using assms(2) by simp
  show ?thesis
    using am_reach_inv [OF assms(1)] a assms(4)
  proof (cases rule: update_cases [where seq = seq and ts = ts and md = md and st = st])
    case no_length
    then show ?thesis using assms(6) by simp
  next
    case (update inst1 iat L inst2)
    note lim = limit_levels_bounds [OF _ assms(2,3), of "256 * L" inst2 fsHz "packet_len_samp inst seq ts" st]
    show ?thesis
      using lim update(5-8) assms(5) unfolding update(9) Let_def
      by simp
  qed
qed

lemma update_level_bounds_witness:
  "\<exists>inst'. WebRtcNetEQ_UpdateIatStatistics am_paced 50 0 0 8000 False False = (0, inst')
    \<and> 256 \<le> am_optBufLevel inst' \<and> am_optBufLevel inst' \<le> 192 * 50
    \<and> 256 \<le> am_required_delay_q8 inst' \<and> am_required_delay_q8 inst' \<le> 192 * 50
    \<and> (let limit = s32 (shl (am_maximum_delay_ms am_paced * (8000 sdiv 1000)) 8) sdiv packet_len_samp am_paced 0 0
       in 0 < limit \<longrightarrow> am_optBufLevel inst' \<le> max limit 256)"
  by (rule update_level_bounds [OF am_paced_reach]) (simp_all add: am_paced_fields)

lemma weighted_bounds:
  "\<forall>p \<in> set ps. 0 \<le> p \<Longrightarrow> 0 \<le> i \<Longrightarrow>
   0 \<le> weighted_sum i ps \<and> 64 * weighted_sum i ps \<le> (i + int (length ps)) * sum_list ps"
proof (induction ps arbitrary: i)
  case (Cons p ps)
  have p: "0 \<le> p" "0 \<le> sum_list ps" using Cons.prems(1) by (auto intro: sum_list_nonneg)
  have "64 * (p div 64) \<le> p" using pos_mod_sign [of 64 p] by (simp add: minus_mod_eq_mult_div [symmetric])
  then have "64 * (p div 64) * i \<le> p * i" using Cons.prems(2) by (intro mult_right_mono)
  also have "\<dots> \<le> (i + 1 + int (length ps)) * p" using p(1) Cons.prems(2) by (simp add: algebra_simps)
  finally have head: "64 * (p div 64) * i \<le> (i + 1 + int (length ps)) * p" .
  have IH: "0 \<le> weighted_sum (i + 1) ps" "64 * weighted_sum (i + 1) ps \<le> (i + 1 + int (length ps)) * sum_list ps"
    using Cons.IH [of "i + 1"] Cons.prems by auto
  have "0 \<le> p div 64 * i" using p(1) Cons.prems(2) by (simp add: pos_imp_zdiv_nonneg_iff)
  then show ?case using head IH by (simp add: shr_eq_div algebra_simps)
qed simp

text \<open>
  The average inter-arrival time, in parts per million of the nominal one, is computed
  without overflow only up to an average of about 2.05 packets; from there on the 32-bit
  product wraps, and an average of three packets gives a negative result.
\<close>

theorem average_iat_range:
  assumes "am_reach inst"
  defines "s \<equiv> weighted_sum 0 (am_iatProb inst) - 2 ^ 24"
  shows "(s < 17592192 \<longrightarrow> WebRtcNetEQ_AverageIAT inst = (s div 128 * 15625) div 2048)
    \<and> (\<exists>ps. iat_dist ps \<and> weighted_sum 0 ps = 3 * 2 ^ 24
         \<and> WebRtcNetEQ_AverageIAT (inst\<lparr>am_iatProb := ps\<rparr>) = -97152)"
proof -
  have d: "iat_dist (am_iatProb inst)" using am_reach_inv [OF assms(1)] by (simp add: am_inv_def)
  have w: "0 \<le> weighted_sum 0 (am_iatProb inst)" "64 * weighted_sum 0 (am_iatProb inst) \<le> 65 * 2 ^ 30"
    using weighted_bounds [of "am_iatProb inst" 0] d by (simp_all add: iat_dist_def)
  have range: "WebRtcNetEQ_AverageIAT inst = (s div 128 * 15625) div 2048" if "s < 17592192"
  proof -
    have s: "s32 (weighted_sum 0 (am_iatProb inst) - shl 1 24) = s"
      using w by (simp add: s_def shl_eq_mult s32_id)
    have "s div 128 \<le> 137438" "-131072 \<le> s div 128" using that w(1) by (simp_all add: s_def)
    then have "s32 (s div 128 * 15625) = s div 128 * 15625" by (intro s32_id) auto
    then show ?thesis unfolding WebRtcNetEQ_AverageIAT_def Let_def s by (simp add: shr_eq_div)
  qed
  let ?ps = "[0, 0, 0, 2 ^ 30] @ replicate 61 (0 :: int)"
  have zero: "weighted_sum i (replicate n 0) = 0" for i n by (induction n arbitrary: i) simp_all
  have "weighted_sum 0 ?ps = 3 * 2 ^ 24" by (simp add: zero shr_eq_div)
  moreover have "iat_dist ?ps" by (simp add: iat_dist_def sum_list_replicate)
  moreover have "WebRtcNetEQ_AverageIAT (inst\<lparr>am_iatProb := ?ps\<rparr>) = -97152"
    using calculation(1) by (simp add: WebRtcNetEQ_AverageIAT_def Let_def shr_eq_div shl_eq_mult s32_def)
  ultimately show ?thesis using range by blast
qed

lemma average_iat_range_witness:
  "WebRtcNetEQ_AverageIAT am_start = ((weighted_sum 0 (am_iatProb am_start) - 2 ^ 24) div 128 * 15625) div 2048
    \<and> (\<exists>ps. iat_dist ps \<and> weighted_sum 0 ps = 3 * 2 ^ 24
         \<and> WebRtcNetEQ_AverageIAT (am_start\<lparr>am_iatProb := ps\<rparr>) = -97152)"
proof -
  have "weighted_sum 0 (initial_iat 65 16386) - 2 ^ 24 < 17592192" by code_simp
  then have "weighted_sum 0 (am_iatProb am_start) - 2 ^ 24 < 17592192"
    by (simp add: am_start_def WebRtcNetEQ_ResetAutomode_def Let_def del: initial_iat.simps)
  with average_iat_range [OF am_start_reach(1)] show ?thesis by blast
qed

lemma sdiv_nonneg: "0 \<le> a \<Longrightarrow> 0 < b \<Longrightarrow> (a :: int) sdiv b = a div b"
  by (cases "a = 0") (simp_all add: signed_divide_int_def sgn_if)

text \<open>
  The filtered buffer level stays between 0 and the largest level seen: if the level and
  the present buffer are at most \<open>m\<close> packets, so is the new level, and time-scaling only
  lowers it.
\<close>

theorem level_filter_bounded:
  assumes "am_reach inst" "0 < samples" "0 < fsMult" "0 \<le> cur" "cur * fsMult < 2 ^ 31"
    "0 < am_packetSpeechLenSamp inst" "cur * fsMult div am_packetSpeechLenSamp inst \<le> m" "m < 2 ^ 15"
    "0 \<le> am_buffLevelFilt inst" "am_buffLevelFilt inst \<le> 256 * m"
    "0 \<le> am_levelFiltFact inst" "am_levelFiltFact inst \<le> 256"
    "0 \<le> am_sampleMemory inst" "am_sampleMemory inst < 2 ^ 23"
  shows "\<exists>inst'. WebRtcNetEQ_BufferLevelFilter cur inst samples fsMult = (0, inst')
    \<and> 0 \<le> am_buffLevelFilt inst' \<and> am_buffLevelFilt inst' \<le> 256 * m
    \<and> am_prevTimeScale inst' = 0"
proof -
  let ?f = "am_levelFiltFact inst" and ?L = "am_buffLevelFilt inst" and ?len = "am_packetSpeechLenSamp inst"
  define q where "q = cur * fsMult div ?len"
  have x: "0 \<le> cur * fsMult" using assms(3,4) by simp
  then have q: "0 \<le> q" "q \<le> m" using assms(6,7) by (simp_all add: q_def pos_imp_zdiv_nonneg_iff)
  have frames: "s16 (WebRtcSpl_DivW32W16 (s32 (cur * fsMult)) ?len) = q"
  proof -
    have "s32 (cur * fsMult) sdiv ?len = q"
      using x assms(5,6) by (simp add: s32_nonneg sdiv_nonneg q_def)
    then show ?thesis using assms(6) q assms(8) by (simp add: WebRtcSpl_DivW32W16_def s32_id s16_id)
  qed
  define l where "l = ?f * ?L div 256 + (256 - ?f) * q"
  have fL: "0 \<le> ?f * ?L" "?f * ?L \<le> ?f * (256 * m)" using assms(9-11) by (simp_all add: mult_left_mono)
  have fm: "?f * m \<le> 256 * m" using assms(12) q by (intro mult_right_mono) auto
  then have fL32: "?f * ?L < 2147483648" using fL(2) assms(8) by simp
  have "?f * ?L div 256 \<le> ?f * m" using fL(2) by simp
  moreover have "(256 - ?f) * q \<le> (256 - ?f) * m" using q assms(12) by (intro mult_left_mono) auto
  moreover have "0 \<le> ?f * ?L div 256" "0 \<le> (256 - ?f) * q"
    using fL(1) q(1) assms(12) by (simp_all add: pos_imp_zdiv_nonneg_iff)
  ultimately have l: "0 \<le> l" "l \<le> 256 * m"
    by (simp_all add: l_def algebra_simps)
  have new: "s32 (shr (s32 (?f * ?L)) 8 + (256 - ?f) * q) = l"
    using fL(1) fL32 l assms(8) by (simp add: s32_nonneg shr_eq_div l_def)
  define l1 where "l1 = (if ?f > 0 then l else ?L)"
  have l1: "0 \<le> l1" "l1 \<le> 256 * m" using l assms(9,10) by (simp_all add: l1_def)
  define d where "d = WebRtcSpl_DivW32W16 (s32 (shl (am_sampleMemory inst) 8)) ?len"
  have d: "0 \<le> d" "d < 2 ^ 31"
  proof -
    have "s32 (shl (am_sampleMemory inst) 8) = 256 * am_sampleMemory inst"
      using assms(13,14) by (simp add: shl_eq_mult s32_nonneg)
    moreover have "0 \<le> 256 * am_sampleMemory inst div ?len" "256 * am_sampleMemory inst div ?len \<le> 256 * am_sampleMemory inst"
      using assms(6,13) zdiv_mono2 [of "256 * am_sampleMemory inst" 1 ?len]
      by (simp_all add: pos_imp_zdiv_nonneg_iff)
    ultimately show "0 \<le> d" "d < 2 ^ 31"
      using assms(6,13,14) by (simp_all add: d_def WebRtcSpl_DivW32W16_def sdiv_nonneg s32_nonneg)
  qed
  have sub: "s32 (l1 - d) = l1 - d" using l1 d assms(8) by (intro s32_id) auto
  show ?thesis
    using assms(2,3,6) l1 d sub new frames
    by (cases "am_prevTimeScale inst = 0"; cases "?f > 0")
      (auto simp: WebRtcNetEQ_BufferLevelFilter_def Let_def l1_def d_def)
qed

lemma level_filter_bounded_witness:
  "\<exists>inst'. WebRtcNetEQ_BufferLevelFilter 320 am_paced 80 1 = (0, inst')
    \<and> 0 \<le> am_buffLevelFilt inst' \<and> am_buffLevelFilt inst' \<le> 256 * 2
    \<and> am_prevTimeScale inst' = 0"
  by (rule level_filter_bounded [OF am_paced_reach])
    (simp_all add: am_paced_def am_start_def am_blank_def WebRtcNetEQ_SetPacketSpeechLen_def
      WebRtcNetEQ_ResetAutomode_def Let_def)

end
