(* ===== verification/Bufstats.thy ===== *)
theory Bufstats
  imports Automode
begin

text \<open>
  The playout decision (\<open>neteq/bufstats_decision.c\<close>, \<open>neteq/buffer_stats.h\<close>): from the
  state of the packet buffer, the timestamp wanted next and what was played last, what the
  signal side is to do for the next block.
\<close>

section \<open>Constants and state\<close>

abbreviation (input) BUFSTATS_DO_NORMAL :: int where "BUFSTATS_DO_NORMAL \<equiv> 0"
abbreviation (input) BUFSTATS_DO_ACCELERATE :: int where "BUFSTATS_DO_ACCELERATE \<equiv> 1"
abbreviation (input) BUFSTATS_DO_MERGE :: int where "BUFSTATS_DO_MERGE \<equiv> 2"
abbreviation (input) BUFSTATS_DO_EXPAND :: int where "BUFSTATS_DO_EXPAND \<equiv> 3"
abbreviation (input) BUFSTAT_REINIT :: int where "BUFSTAT_REINIT \<equiv> 4"
abbreviation (input) BUFSTATS_DO_RFC3389CNG_PACKET :: int where "BUFSTATS_DO_RFC3389CNG_PACKET \<equiv> 5"
abbreviation (input) BUFSTATS_DO_RFC3389CNG_NOPACKET :: int where "BUFSTATS_DO_RFC3389CNG_NOPACKET \<equiv> 6"
abbreviation (input) BUFSTATS_DO_INTERNAL_CNG_NOPACKET :: int where "BUFSTATS_DO_INTERNAL_CNG_NOPACKET \<equiv> 7"
abbreviation (input) BUFSTATS_DO_PREEMPTIVE_EXPAND :: int where "BUFSTATS_DO_PREEMPTIVE_EXPAND \<equiv> 8"
abbreviation (input) BUFSTAT_REINIT_DECODER :: int where "BUFSTAT_REINIT_DECODER \<equiv> 9"
abbreviation (input) BUFSTATS_DO_DTMF_ONLY :: int where "BUFSTATS_DO_DTMF_ONLY \<equiv> 10"
abbreviation (input) BUFSTATS_DO_ALTERNATIVE_PLC :: int where "BUFSTATS_DO_ALTERNATIVE_PLC \<equiv> 11"
abbreviation (input) BUFSTATS_DO_ALTERNATIVE_PLC_INC_TS :: int where "BUFSTATS_DO_ALTERNATIVE_PLC_INC_TS \<equiv> 12"
abbreviation (input) BUFSTATS_DO_AUDIO_REPETITION :: int where "BUFSTATS_DO_AUDIO_REPETITION \<equiv> 13"
abbreviation (input) BUFSTATS_DO_AUDIO_REPETITION_INC_TS :: int where "BUFSTATS_DO_AUDIO_REPETITION_INC_TS \<equiv> 14"

abbreviation (input) REINIT_AFTER_EXPANDS :: int where "REINIT_AFTER_EXPANDS \<equiv> 100"
abbreviation (input) MAX_WAIT_FOR_PACKET :: int where "MAX_WAIT_FOR_PACKET \<equiv> 10"
abbreviation (input) CNG_OFF :: int where "CNG_OFF \<equiv> 0"
abbreviation (input) CNG_RFC3389_ON :: int where "CNG_RFC3389_ON \<equiv> 1"
abbreviation (input) CNG_INTERNAL_ON :: int where "CNG_INTERNAL_ON \<equiv> 2"

abbreviation (input) MODE_NORMAL :: int where "MODE_NORMAL \<equiv> 0"
abbreviation (input) MODE_EXPAND :: int where "MODE_EXPAND \<equiv> 1"
abbreviation (input) MODE_SUCCESS_ACCELERATE :: int where "MODE_SUCCESS_ACCELERATE \<equiv> 3"
abbreviation (input) MODE_RFC3389CNG :: int where "MODE_RFC3389CNG \<equiv> 5"
abbreviation (input) MODE_LOWEN_ACCELERATE :: int where "MODE_LOWEN_ACCELERATE \<equiv> 6"
abbreviation (input) MODE_CODEC_INTERNAL_CNG :: int where "MODE_CODEC_INTERNAL_CNG \<equiv> 9"
abbreviation (input) MODE_SUCCESS_PREEMPTIVE :: int where "MODE_SUCCESS_PREEMPTIVE \<equiv> 10"
abbreviation (input) MODE_LOWEN_PREEMPTIVE :: int where "MODE_LOWEN_PREEMPTIVE \<equiv> 12"
abbreviation (input) MODE_FADE_TO_BGN :: int where "MODE_FADE_TO_BGN \<equiv> 13"
abbreviation (input) MODE_ERROR :: int where "MODE_ERROR \<equiv> 16"

abbreviation (input) NETEQ_BUFSTAT_20MS_Q7 :: int where "NETEQ_BUFSTAT_20MS_Q7 \<equiv> 2560"

datatype playout_mode = kPlayoutOn | kPlayoutOff | kPlayoutFax | kPlayoutStreaming

record bufstats =
  bs_cngOn :: int
  bs_noExpand :: int
  bs_CNGplayedTS :: int
  bs_avgDelayMsQ8 :: int
  bs_maxDelayMs :: int
  bs_Automode :: automode

section \<open>Statistics updated by every decision\<close>

definition time_scaled :: "int \<Rightarrow> bool" where
  "time_scaled prevPlayMode \<longleftrightarrow> prevPlayMode = MODE_SUCCESS_ACCELERATE \<or> prevPlayMode = MODE_LOWEN_ACCELERATE
     \<or> prevPlayMode = MODE_SUCCESS_PREEMPTIVE \<or> prevPlayMode = MODE_LOWEN_PREEMPTIVE"

definition decision_counters :: "bufstats \<Rightarrow> int \<Rightarrow> int \<Rightarrow> int \<Rightarrow> int \<Rightarrow> bufstats" where
  "decision_counters inst cur_size prevPlayMode timestampsPerCall fs_mult =
     (let am = bs_Automode inst;
          am = am\<lparr>am_prevTimeScale := am_prevTimeScale am AND c_bool (time_scaled prevPlayMode)\<rparr>;
          am = (if prevPlayMode \<noteq> MODE_RFC3389CNG \<and> prevPlayMode \<noteq> MODE_CODEC_INTERNAL_CNG
                then snd (WebRtcNetEQ_BufferLevelFilter cur_size am timestampsPerCall fs_mult)
                else am\<lparr>am_packetIatCountSamp := u32 (am_packetIatCountSamp am + timestampsPerCall),
                       am_peakIatCountSamp := u32 (am_peakIatCountSamp am + timestampsPerCall),
                       am_timescaleHoldOff := shr (am_timescaleHoldOff am) 1\<rparr>)
      in inst\<lparr>bs_Automode := am\<rparr>)"

definition update_vqmon :: "bufstats \<Rightarrow> int \<Rightarrow> bufstats" where
  "update_vqmon inst curr_sizeQ7 =
     (let cur_size = min curr_sizeQ7 32767;
          inst = inst\<lparr>bs_avgDelayMsQ8 :=
            u16 (s16 (shr (s16 (bs_avgDelayMsQ8 inst) * 511) 9 + shr cur_size 9))\<rparr>;
          currentDelayMs = shr curr_sizeQ7 7
      in if currentDelayMs > bs_maxDelayMs inst then inst\<lparr>bs_maxDelayMs := s16 currentDelayMs\<rparr> else inst)"

section \<open>Decisions with playout on\<close>

text \<open>A comfort noise packet: advance the clock if it would wait too long, then play or wait.\<close>

definition cng_packet_decision :: "bufstats \<Rightarrow> int \<Rightarrow> int \<Rightarrow> int \<Rightarrow> int \<times> bufstats" where
  "cng_packet_decision inst targetTS availableTS prevPlayMode =
     (let diffTS = s32 (bs_CNGplayedTS inst + targetTS - availableTS);
          optimal_level_samp = shr (s32 (am_optBufLevel (bs_Automode inst)
            * am_packetSpeechLenSamp (bs_Automode inst))) 8;
          excess_waiting_time_samp = s32 (- diffTS - optimal_level_samp);
          (inst, diffTS) = (if excess_waiting_time_samp > optimal_level_samp sdiv 2
            then (inst\<lparr>bs_CNGplayedTS := s32 (bs_CNGplayedTS inst + excess_waiting_time_samp)\<rparr>,
                  s32 (diffTS + excess_waiting_time_samp))
            else (inst, diffTS))
      in if diffTS < 0 \<and> prevPlayMode = MODE_RFC3389CNG
         then (BUFSTATS_DO_RFC3389CNG_NOPACKET, inst)
         else (BUFSTATS_DO_RFC3389CNG_PACKET, inst))"

definition no_packet_decision :: "bufstats \<Rightarrow> int \<Rightarrow> int" where
  "no_packet_decision inst playDtmf =
     (if bs_cngOn inst = CNG_RFC3389_ON then BUFSTATS_DO_RFC3389CNG_NOPACKET
      else if bs_cngOn inst = CNG_INTERNAL_ON then BUFSTATS_DO_INTERNAL_CNG_NOPACKET
      else if playDtmf = 1 then BUFSTATS_DO_DTMF_ONLY
      else BUFSTATS_DO_EXPAND)"

definition extra_delay_packets_q8 :: "automode \<Rightarrow> int \<Rightarrow> int" where
  "extra_delay_packets_q8 am fs_mult =
     (if am_extraDelayMs am > 0 \<and> am_packetSpeechLenSamp am > 0
      then s32 (shl (am_extraDelayMs am * 8 * fs_mult) 8) sdiv am_packetSpeechLenSamp am else 0)"

text \<open>The limits of the filtered buffer level between which it is left as it is.\<close>

definition level_limits :: "automode \<Rightarrow> int \<Rightarrow> int \<Rightarrow> int \<times> int" where
  "level_limits am extraDelayPacketsQ8 fs_mult =
     (let level_limit_lo = shr (am_optBufLevel am) 1 + shr (am_optBufLevel am) 2;
          level_limit_hi = max (am_optBufLevel am)
            (level_limit_lo + WebRtcSpl_DivW32W16ResW16 (s32 (shl (20 * 8 * fs_mult) 8)) (am_packetSpeechLenSamp am))
      in if extraDelayPacketsQ8 > 0
         then (s32 (level_limit_lo + extraDelayPacketsQ8), s32 (level_limit_hi + extraDelayPacketsQ8))
         else (level_limit_lo, level_limit_hi))"

definition target_available_decision :: "bufstats \<Rightarrow> int \<Rightarrow> int \<Rightarrow> int \<Rightarrow> int" where
  "target_available_decision inst extraDelayPacketsQ8 fs_mult playDtmf =
     (let am = bs_Automode inst
      in if bs_noExpand inst = 1 \<and> playDtmf = 0
         then let (level_limit_lo, level_limit_hi) = level_limits am extraDelayPacketsQ8 fs_mult
              in if am_buffLevelFilt am \<ge> level_limit_hi \<and> am_timescaleHoldOff am = 0
                    \<or> am_buffLevelFilt am \<ge> s32 (shl level_limit_hi 2)
                 then BUFSTATS_DO_ACCELERATE
                 else if am_buffLevelFilt am < level_limit_lo \<and> am_timescaleHoldOff am = 0
                 then BUFSTATS_DO_PREEMPTIVE_EXPAND
                 else BUFSTATS_DO_NORMAL
         else BUFSTATS_DO_NORMAL)"

text \<open>A packet later than the one wanted, which is to be left for a while.\<close>

definition packet_too_early :: "bufstats \<Rightarrow> int \<Rightarrow> int \<Rightarrow> int \<Rightarrow> int \<Rightarrow> int \<Rightarrow> int \<Rightarrow> bool" where
  "packet_too_early inst targetTS availableTS prevPlayMode timestampsPerCall NoOfExpandCalls extraDelayPacketsQ8 \<longleftrightarrow>
     prevPlayMode = MODE_EXPAND
     \<and> u32 (availableTS - targetTS) < u32 (s16 timestampsPerCall * s16 REINIT_AFTER_EXPANDS)
     \<and> NoOfExpandCalls < MAX_WAIT_FOR_PACKET
     \<and> availableTS > u32 (targetTS + s16 timestampsPerCall * s16 NoOfExpandCalls)
     \<and> am_buffLevelFilt (bs_Automode inst) \<le> s32 (am_optBufLevel (bs_Automode inst) + extraDelayPacketsQ8)"

definition later_packet_decision ::
    "bufstats \<Rightarrow> int \<Rightarrow> int \<Rightarrow> int \<Rightarrow> int \<Rightarrow> int \<Rightarrow> int \<Rightarrow> int \<Rightarrow> int \<Rightarrow> int \<Rightarrow> int \<Rightarrow> bool \<Rightarrow> int \<Rightarrow> int" where
  "later_packet_decision inst frameSize cur_size currSizeSamples targetTS availableTS prevPlayMode
      timestampsPerCall NoOfExpandCalls extraDelayPacketsQ8 fs_mult lastModeBGNonly playDtmf =
     (if packet_too_early inst targetTS availableTS prevPlayMode timestampsPerCall NoOfExpandCalls extraDelayPacketsQ8
      then if playDtmf = 1 then BUFSTATS_DO_DTMF_ONLY else BUFSTATS_DO_EXPAND
      else if prevPlayMode = MODE_RFC3389CNG \<or> prevPlayMode = MODE_CODEC_INTERNAL_CNG \<or> lastModeBGNonly
      then let diffTS = s32 (bs_CNGplayedTS inst + targetTS - availableTS);
               val = shr (s32 ((am_optBufLevel (bs_Automode inst) + extraDelayPacketsQ8)
                 * am_packetSpeechLenSamp (bs_Automode inst))) 6
           in if diffTS \<ge> 0 \<or> val < currSizeSamples then BUFSTATS_DO_NORMAL
              else if prevPlayMode = MODE_RFC3389CNG then BUFSTATS_DO_RFC3389CNG_NOPACKET
              else if prevPlayMode = MODE_CODEC_INTERNAL_CNG then BUFSTATS_DO_INTERNAL_CNG_NOPACKET
              else if playDtmf = 1 then BUFSTATS_DO_DTMF_ONLY
              else BUFSTATS_DO_EXPAND
      else if bs_noExpand inst = 0 \<or> frameSize < timestampsPerCall \<and> cur_size > NETEQ_BUFSTAT_20MS_Q7
      then BUFSTATS_DO_MERGE
      else if playDtmf = 1 then BUFSTATS_DO_DTMF_ONLY
      else BUFSTATS_DO_EXPAND)"

section \<open>Decisions with playout off, or for a fax\<close>

definition off_decision :: "bufstats \<Rightarrow> int \<Rightarrow> int \<Rightarrow> bool \<Rightarrow> bool \<Rightarrow> playout_mode \<Rightarrow> int" where
  "off_decision inst targetTS availableTS noPacket cngPacket playoutMode =
     (let due = s32 (bs_CNGplayedTS inst + targetTS - availableTS) \<ge> 0
      in if cngPacket
         then if due then BUFSTATS_DO_RFC3389CNG_PACKET else BUFSTATS_DO_RFC3389CNG_NOPACKET
         else if noPacket
         then if bs_cngOn inst = CNG_RFC3389_ON then BUFSTATS_DO_RFC3389CNG_NOPACKET
              else if bs_cngOn inst = CNG_INTERNAL_ON then BUFSTATS_DO_INTERNAL_CNG_NOPACKET
              else if playoutMode = kPlayoutOff then BUFSTATS_DO_ALTERNATIVE_PLC
              else if playoutMode = kPlayoutFax then BUFSTATS_DO_AUDIO_REPETITION
              else BUFSTAT_REINIT
         else if targetTS = availableTS then BUFSTATS_DO_NORMAL
         else if due then BUFSTATS_DO_NORMAL
         else if playoutMode = kPlayoutOff
         then if bs_cngOn inst = CNG_RFC3389_ON then BUFSTATS_DO_RFC3389CNG_NOPACKET
              else if bs_cngOn inst = CNG_INTERNAL_ON then BUFSTATS_DO_INTERNAL_CNG_NOPACKET
              else BUFSTATS_DO_ALTERNATIVE_PLC_INC_TS
         else if playoutMode = kPlayoutFax
         then if bs_cngOn inst = CNG_RFC3389_ON then BUFSTATS_DO_RFC3389CNG_NOPACKET
              else if bs_cngOn inst = CNG_INTERNAL_ON then BUFSTATS_DO_INTERNAL_CNG_NOPACKET
              else BUFSTATS_DO_AUDIO_REPETITION_INC_TS
         else BUFSTAT_REINIT)"

section \<open>The decision\<close>

definition on_decision ::
    "bufstats \<Rightarrow> int \<Rightarrow> int \<Rightarrow> int \<Rightarrow> int \<Rightarrow> int \<Rightarrow> bool \<Rightarrow> bool \<Rightarrow> int \<Rightarrow> int \<Rightarrow> int \<Rightarrow> int \<Rightarrow> bool \<Rightarrow> int
      \<Rightarrow> int \<times> bufstats" where
  "on_decision inst frameSize cur_size currSizeSamples targetTS availableTS noPacket cngPacket prevPlayMode
      timestampsPerCall NoOfExpandCalls fs_mult lastModeBGNonly playDtmf =
     (if prevPlayMode = MODE_ERROR
      then (if noPacket then BUFSTATS_DO_EXPAND else BUFSTAT_REINIT, inst)
      else let inst = inst\<lparr>bs_noExpand := c_bool (prevPlayMode \<noteq> MODE_EXPAND \<and> prevPlayMode \<noteq> MODE_FADE_TO_BGN)\<rparr>
      in if cngPacket then cng_packet_decision inst targetTS availableTS prevPlayMode
      else if noPacket then (no_packet_decision inst playDtmf, inst)
      else if NoOfExpandCalls > REINIT_AFTER_EXPANDS then (BUFSTAT_REINIT_DECODER, inst)
      else let extraDelayPacketsQ8 = extra_delay_packets_q8 (bs_Automode inst) fs_mult
      in if targetTS = availableTS
         then (target_available_decision inst extraDelayPacketsQ8 fs_mult playDtmf, inst)
      else if availableTS > targetTS
         then (later_packet_decision inst frameSize cur_size currSizeSamples targetTS availableTS prevPlayMode
             timestampsPerCall NoOfExpandCalls extraDelayPacketsQ8 fs_mult lastModeBGNonly playDtmf, inst)
      else (BUFSTAT_REINIT, inst))"

definition WebRtcNetEQ_BufstatsDecision ::
    "bufstats \<Rightarrow> int \<Rightarrow> int \<Rightarrow> int \<Rightarrow> int \<Rightarrow> bool \<Rightarrow> bool \<Rightarrow> int \<Rightarrow> playout_mode \<Rightarrow> int \<Rightarrow> int \<Rightarrow> int \<Rightarrow> bool \<Rightarrow> int
      \<Rightarrow> int \<times> bufstats" where
  "WebRtcNetEQ_BufstatsDecision inst frameSize cur_size targetTS availableTS noPacket cngPacket prevPlayMode
      playoutMode timestampsPerCall NoOfExpandCalls fs_mult lastModeBGNonly playDtmf =
     (let currSizeSamples = cur_size;
          curr_sizeQ7 = s32 (shl cur_size 4);
          inst = decision_counters inst cur_size prevPlayMode timestampsPerCall fs_mult;
          cur_size = min curr_sizeQ7 32767;
          inst = update_vqmon inst curr_sizeQ7
      in if playoutMode = kPlayoutOn \<or> playoutMode = kPlayoutStreaming
         then on_decision inst frameSize cur_size currSizeSamples targetTS availableTS noPacket cngPacket
           prevPlayMode timestampsPerCall NoOfExpandCalls fs_mult lastModeBGNonly playDtmf
         else (off_decision inst targetTS availableTS noPacket cngPacket playoutMode, inst))"

section \<open>The branches\<close>

named_theorems decision_parts "the branches of the playout decision"

lemmas [decision_parts] = cng_packet_decision_def no_packet_decision_def target_available_decision_def
  later_packet_decision_def off_decision_def on_decision_def

lemma fst_decision:
  "fst (WebRtcNetEQ_BufstatsDecision inst frameSize cur targetTS availableTS noPacket cngPacket prev mode
      samples n fs_mult bgn dtmf)
   = (let i = update_vqmon (decision_counters inst cur prev samples fs_mult) (s32 (shl cur 4))
      in if mode = kPlayoutOn \<or> mode = kPlayoutStreaming
         then fst (on_decision i frameSize (min (s32 (shl cur 4)) 32767) cur targetTS availableTS noPacket cngPacket
           prev samples n fs_mult bgn dtmf)
         else off_decision i targetTS availableTS noPacket cngPacket mode)"
  by (simp add: WebRtcNetEQ_BufstatsDecision_def Let_def)

section \<open>Steering the buffer level\<close>

lemma level_limits_order:
  assumes "0 \<le> am_optBufLevel am" "am_optBufLevel am < 2 ^ 24" "0 < am_packetSpeechLenSamp am"
    "0 \<le> extra" "extra < 2 ^ 24" "level_limits am extra fs_mult = (lo, hi)"
  shows "lo \<le> 3 * am_optBufLevel am div 4 + extra" "am_optBufLevel am + extra \<le> hi" "lo \<le> hi" "0 \<le> hi"
    "hi < 2 ^ 28"
proof -
  let ?o = "am_optBufLevel am"
  define d where "d = WebRtcSpl_DivW32W16ResW16 (s32 (shl (20 * 8 * fs_mult) 8)) (am_packetSpeechLenSamp am)"
  define l where "l = shr ?o 1 + shr ?o 2"
  define h where "h = max ?o (l + d)"
  have d: "d < 32768" using assms(3) by (simp add: d_def WebRtcSpl_DivW32W16ResW16_def cint_range)
  have l: "0 \<le> l" "4 * l \<le> 3 * ?o" using assms(1) by (simp_all add: l_def shr_eq_div)
  have lh: "l \<le> 3 * ?o div 4" "l \<le> h" "?o \<le> h" "h < 2 ^ 24 + 32768"
    using l d assms(1,2) unfolding h_def by linarith+
  have s: "s32 (l + extra) = l + extra" "s32 (h + extra) = h + extra"
    using l lh assms by (simp_all add: s32_id)
  have "(lo, hi) = (if extra > 0 then (s32 (l + extra), s32 (h + extra)) else (l, h))"
    using assms(6) unfolding level_limits_def Let_def d_def [symmetric] l_def [symmetric] h_def [symmetric]
    by simp
  then have eq: "lo = l + extra" "hi = h + extra" using s assms(4) by (auto split: if_splits)
  show "lo \<le> 3 * ?o div 4 + extra" "?o + extra \<le> hi" "lo \<le> hi" "0 \<le> hi" "hi < 2 ^ 28"
    using lh l assms(1,4,5) unfolding eq by simp_all
qed

text \<open>What a decision leaves of the automode state it starts from.\<close>

lemma filter_keeps:
  "am_optBufLevel (snd (WebRtcNetEQ_BufferLevelFilter cur am samples fs_mult)) = am_optBufLevel am"
  "am_packetSpeechLenSamp (snd (WebRtcNetEQ_BufferLevelFilter cur am samples fs_mult)) = am_packetSpeechLenSamp am"
  "am_extraDelayMs (snd (WebRtcNetEQ_BufferLevelFilter cur am samples fs_mult)) = am_extraDelayMs am"
  by (simp_all add: WebRtcNetEQ_BufferLevelFilter_def Let_def)

lemma vqmon_keeps [simp]:
  "bs_Automode (update_vqmon i q) = bs_Automode i" "bs_CNGplayedTS (update_vqmon i q) = bs_CNGplayedTS i"
  "bs_cngOn (update_vqmon i q) = bs_cngOn i" "bs_noExpand (update_vqmon i q) = bs_noExpand i"
  by (simp_all add: update_vqmon_def Let_def)

lemma counters_keep [simp]:
  "am_optBufLevel (bs_Automode (decision_counters i cur prev samples fs_mult)) = am_optBufLevel (bs_Automode i)"
  "am_packetSpeechLenSamp (bs_Automode (decision_counters i cur prev samples fs_mult))
    = am_packetSpeechLenSamp (bs_Automode i)"
  "am_extraDelayMs (bs_Automode (decision_counters i cur prev samples fs_mult)) = am_extraDelayMs (bs_Automode i)"
  "bs_CNGplayedTS (decision_counters i cur prev samples fs_mult) = bs_CNGplayedTS i"
  "bs_avgDelayMsQ8 (decision_counters i cur prev samples fs_mult) = bs_avgDelayMsQ8 i"
  "bs_maxDelayMs (decision_counters i cur prev samples fs_mult) = bs_maxDelayMs i"
  by (simp_all add: decision_counters_def Let_def filter_keeps)

lemma counters_keep_extra [simp]:
  "extra_delay_packets_q8 (bs_Automode (decision_counters i cur prev samples fs_mult)) f
    = extra_delay_packets_q8 (bs_Automode i) f"
  by (simp add: extra_delay_packets_q8_def)

text \<open>The state a decision works on: the counters and statistics updated, and \<open>w16_noExpand\<close>.\<close>

definition decision_state :: "bufstats \<Rightarrow> int \<Rightarrow> int \<Rightarrow> int \<Rightarrow> int \<Rightarrow> bufstats" where
  "decision_state inst cur prev samples fs_mult =
     (update_vqmon (decision_counters inst cur prev samples fs_mult) (s32 (shl cur 4)))
       \<lparr>bs_noExpand := c_bool (prev \<noteq> MODE_EXPAND \<and> prev \<noteq> MODE_FADE_TO_BGN)\<rparr>"

lemma state_keeps [simp]:
  "am_optBufLevel (bs_Automode (decision_state i cur prev samples fs_mult)) = am_optBufLevel (bs_Automode i)"
  "am_packetSpeechLenSamp (bs_Automode (decision_state i cur prev samples fs_mult))
    = am_packetSpeechLenSamp (bs_Automode i)"
  "extra_delay_packets_q8 (bs_Automode (decision_state i cur prev samples fs_mult)) f
    = extra_delay_packets_q8 (bs_Automode i) f"
  "bs_CNGplayedTS (decision_state i cur prev samples fs_mult) = bs_CNGplayedTS i"
  "bs_noExpand (decision_state i cur prev samples fs_mult) = c_bool (prev \<noteq> MODE_EXPAND \<and> prev \<noteq> MODE_FADE_TO_BGN)"
  by (simp_all add: decision_state_def extra_delay_packets_q8_def)

lemma decision_target:
  assumes "mode = kPlayoutOn \<or> mode = kPlayoutStreaming" "prev \<noteq> MODE_ERROR" "n \<le> REINIT_AFTER_EXPANDS"
  shows "WebRtcNetEQ_BufstatsDecision inst frameSize cur ts ts False False prev mode samples n fs_mult bgn dtmf
    = (target_available_decision (decision_state inst cur prev samples fs_mult)
         (extra_delay_packets_q8 (bs_Automode inst) fs_mult) fs_mult dtmf,
       decision_state inst cur prev samples fs_mult)"
  using assms
  by (simp add: WebRtcNetEQ_BufstatsDecision_def on_decision_def Let_def decision_state_def [symmetric])

text \<open>
  C21: When the wanted packet is available the decision steers the filtered buffer level
  towards the optimal one: it shortens the signal only if the level, without the extra delay,
  is at or above the optimal level, and stretches it only below three quarters of it; while
  the hold-off of the last time-scaling runs it shortens only at four times the level and
  never stretches.  It never scales after an expand or with a tone to play.
\<close>

theorem decision_steers_level:
  assumes "mode = kPlayoutOn \<or> mode = kPlayoutStreaming" "prev \<noteq> MODE_ERROR" "n \<le> REINIT_AFTER_EXPANDS"
    "0 \<le> am_optBufLevel (bs_Automode inst)" "am_optBufLevel (bs_Automode inst) < 2 ^ 24"
    "0 < am_packetSpeechLenSamp (bs_Automode inst)"
    "0 \<le> extra_delay_packets_q8 (bs_Automode inst) fs_mult" "extra_delay_packets_q8 (bs_Automode inst) fs_mult < 2 ^ 24"
  shows "let (d, inst') = WebRtcNetEQ_BufstatsDecision inst frameSize cur ts ts False False prev mode samples n
               fs_mult bgn dtmf;
             opt = am_optBufLevel (bs_Automode inst);
             extra = extra_delay_packets_q8 (bs_Automode inst) fs_mult;
             level = am_buffLevelFilt (bs_Automode inst');
             hold = am_timescaleHoldOff (bs_Automode inst')
         in (d = BUFSTATS_DO_NORMAL
             \<or> d = BUFSTATS_DO_ACCELERATE \<and> opt + extra \<le> level \<and> (hold = 0 \<or> 4 * (opt + extra) \<le> level)
             \<or> d = BUFSTATS_DO_PREEMPTIVE_EXPAND \<and> level < 3 * opt div 4 + extra \<and> hold = 0)
           \<and> (prev = MODE_EXPAND \<or> prev = MODE_FADE_TO_BGN \<or> dtmf \<noteq> 0 \<longrightarrow> d = BUFSTATS_DO_NORMAL)"
proof -
  let ?i = "decision_state inst cur prev samples fs_mult" and ?o = "am_optBufLevel (bs_Automode inst)"
  let ?e = "extra_delay_packets_q8 (bs_Automode inst) fs_mult"
  obtain lo hi where lim: "level_limits (bs_Automode ?i) ?e fs_mult = (lo, hi)" by fastforce
  note b = level_limits_order [OF _ _ _ _ _ lim, unfolded state_keeps, OF assms(4-8)]
  have hi4: "s32 (shl hi 2) = 4 * hi" using b(4,5) by (simp add: shl_eq_mult s32_id)
  show ?thesis
    using b unfolding decision_target [OF assms(1-3)] Let_def prod.case target_available_decision_def lim hi4
    by auto
qed

text \<open>A state of the decision for the examples: an automode instance after a reset, with 20 ms packets.\<close>

definition bs_example :: bufstats where
  "bs_example = \<lparr>bs_cngOn = CNG_OFF, bs_noExpand = 1, bs_CNGplayedTS = 0, bs_avgDelayMsQ8 = 0, bs_maxDelayMs = 0,
     bs_Automode = (am_start\<lparr>am_packetSpeechLenSamp := 160, am_optBufLevel := 512, am_buffLevelFilt := 2560,
       am_timescaleHoldOff := 0, am_extraDelayMs := 0\<rparr>)\<rparr>"

lemma decision_steers_level_witness:
  "let (d, inst') = WebRtcNetEQ_BufstatsDecision bs_example 160 800 1000 1000 False False MODE_NORMAL kPlayoutOn 80 0
               1 False 0;
             opt = am_optBufLevel (bs_Automode bs_example);
             extra = extra_delay_packets_q8 (bs_Automode bs_example) 1;
             level = am_buffLevelFilt (bs_Automode inst');
             hold = am_timescaleHoldOff (bs_Automode inst')
         in (d = BUFSTATS_DO_NORMAL
             \<or> d = BUFSTATS_DO_ACCELERATE \<and> opt + extra \<le> level \<and> (hold = 0 \<or> 4 * (opt + extra) \<le> level)
             \<or> d = BUFSTATS_DO_PREEMPTIVE_EXPAND \<and> level < 3 * opt div 4 + extra \<and> hold = 0)
           \<and> (MODE_NORMAL = MODE_EXPAND \<or> MODE_NORMAL = MODE_FADE_TO_BGN \<or> (0 :: int) \<noteq> 0 \<longrightarrow> d = BUFSTATS_DO_NORMAL)"
  by (rule decision_steers_level) (simp_all add: bs_example_def extra_delay_packets_q8_def)

text \<open>The automode invariant survives every decision.\<close>

lemma cng_keeps_automode: "bs_Automode (snd (cng_packet_decision i ts av prev)) = bs_Automode i"
  by (simp add: cng_packet_decision_def Let_def)

lemma on_keeps_automode:
  "bs_Automode (snd (on_decision i frameSize c csize ts av noPacket cng prev samples n fs_mult bgn dtmf)) = bs_Automode i"
  by (simp add: on_decision_def cng_keeps_automode Let_def)

lemma decision_am_inv:
  assumes "am_inv (bs_Automode inst)"
  shows "am_inv (bs_Automode (snd (WebRtcNetEQ_BufstatsDecision inst frameSize cur ts av noPacket cng prev mode
    samples n fs_mult bgn dtmf)))"
proof -
  have plain: "am_inv (am\<lparr>am_prevTimeScale := p\<rparr>) = am_inv am"
    "am_inv (am\<lparr>am_packetIatCountSamp := a, am_peakIatCountSamp := b, am_timescaleHoldOff := c\<rparr>) = am_inv am"
    for am a b c p by (simp_all add: am_inv_def)
  let ?u = "update_vqmon (decision_counters inst cur prev samples fs_mult) (s32 (shl cur 4))"
  have "am_inv (bs_Automode ?u)"
    using assms by (simp add: decision_counters_def Let_def plain filter_keeps_inv)
  then show ?thesis
    by (simp add: WebRtcNetEQ_BufstatsDecision_def Let_def on_keeps_automode del: vqmon_keeps)
qed

section \<open>Packets later than the one wanted\<close>

lemma decision_other:
  assumes "mode = kPlayoutOn \<or> mode = kPlayoutStreaming" "prev \<noteq> MODE_ERROR" "n \<le> REINIT_AFTER_EXPANDS" "ts \<noteq> av"
  shows "WebRtcNetEQ_BufstatsDecision inst frameSize cur ts av False False prev mode samples n fs_mult bgn dtmf
    = (if ts < av then later_packet_decision (decision_state inst cur prev samples fs_mult) frameSize
           (min (s32 (shl cur 4)) 32767) cur ts av prev samples n
           (extra_delay_packets_q8 (bs_Automode inst) fs_mult) fs_mult bgn dtmf
         else BUFSTAT_REINIT,
       decision_state inst cur prev samples fs_mult)"
  using assms
  by (simp add: WebRtcNetEQ_BufstatsDecision_def on_decision_def Let_def decision_state_def [symmetric])

lemma later_no_reinit: "later_packet_decision i fr c s ts av prev samples n e f bgn dtmf \<noteq> BUFSTAT_REINIT"
  by (simp add: later_packet_decision_def Let_def)

lemma u32_forward:
  assumes "0 \<le> ts" "ts < 2 ^ 32" "0 \<le> av" "av < 2 ^ 32"
  shows "av < ts \<longleftrightarrow> 2 ^ 32 \<le> ts + u32 (av - ts)"
proof (cases "av < ts")
  case True
  then have "u32 (av - ts) = av - ts + 2 ^ 32"
    using assms mod_pos_pos_trivial [of "av - ts + 2 ^ 32" "2 ^ 32"] by (simp add: u32_def)
  then show ?thesis using True assms by simp
qed (use assms in \<open>simp add: u32_id\<close>)



section \<open>Waiting for a later packet ends\<close>

text \<open>The control side counts the expands (\<open>signal_mcu.c\<close>) before it asks again.\<close>

definition count_expands :: "int \<Rightarrow> int \<Rightarrow> int" where
  "count_expands instr NoOfExpandCalls = (if instr = BUFSTATS_DO_EXPAND then NoOfExpandCalls + 1 else 0)"

text \<open>
  Rounds of the decision while it says expand, for a later packet and an unchanged wanted
  timestamp; \<open>sizes\<close> gives the buffer size of every round.  The result is the number of
  expands and the decision that ended them, or \<open>None\<close> if \<open>sizes\<close> is used up.
\<close>

fun expand_rounds ::
    "bufstats \<Rightarrow> int \<Rightarrow> int list \<Rightarrow> int \<Rightarrow> int \<Rightarrow> playout_mode \<Rightarrow> int \<Rightarrow> int \<Rightarrow> int \<Rightarrow> (nat \<times> int) option" where
  "expand_rounds inst frameSize [] ts av mode samples n fs_mult = None"
| "expand_rounds inst frameSize (cur # sizes) ts av mode samples n fs_mult =
     (let (d, inst') = WebRtcNetEQ_BufstatsDecision inst frameSize cur ts av False False MODE_EXPAND mode samples n
            fs_mult False 0
      in if d = BUFSTATS_DO_EXPAND
         then map_option (\<lambda>(k, e). (Suc k, e))
           (expand_rounds inst' frameSize sizes ts av mode samples (count_expands d n) fs_mult)
         else Some (0, d))"

lemma after_expand:
  assumes "mode = kPlayoutOn \<or> mode = kPlayoutStreaming" "n \<le> REINIT_AFTER_EXPANDS" "ts < av"
  shows "fst (WebRtcNetEQ_BufstatsDecision inst frameSize cur ts av False False MODE_EXPAND mode samples n fs_mult False 0)
    = (if packet_too_early (decision_state inst cur MODE_EXPAND samples fs_mult) ts av MODE_EXPAND samples n
            (extra_delay_packets_q8 (bs_Automode inst) fs_mult)
       then BUFSTATS_DO_EXPAND else BUFSTATS_DO_MERGE)"
proof -
  have ne: "ts \<noteq> av" using assms(3) by simp
  show ?thesis
    using assms(3) decision_other [OF assms(1) _ assms(2) ne, of MODE_EXPAND]
    by (simp add: later_packet_decision_def)
qed

lemma too_early_few: "packet_too_early i ts av prev samples n e \<Longrightarrow> n < MAX_WAIT_FOR_PACKET"
  by (simp add: packet_too_early_def)



section \<open>Waiting for a comfort noise packet\<close>

text \<open>The time, in samples, until the clock of the comfort noise reaches a packet.\<close>

definition cng_wait :: "bufstats \<Rightarrow> int \<Rightarrow> int \<Rightarrow> int" where
  "cng_wait inst targetTS availableTS = - s32 (bs_CNGplayedTS inst + targetTS - availableTS)"

lemma s32_add_left: "s32 (s32 a + b) = s32 (a + b)"
proof -
  have "u32 (s32 a + b) = u32 (u32 (s32 a) + b)" by (simp only: u32_add_left)
  also have "\<dots> = u32 (a + b)" by (simp only: u32_s32 u32_add_left)
  finally show ?thesis by (metis s32_u32)
qed

text \<open>
  A comfort noise packet never waits longer than one and a half times the optimal
  buffer level: the decision leaves the clock alone up to that wait and otherwise advances it
  so that exactly the optimal level is left to wait; the packet is left in the buffer only
  while comfort noise is playing and the wait is not over.
\<close>

theorem cng_wait_bounded:
  assumes "mode = kPlayoutOn \<or> mode = kPlayoutStreaming" "prev \<noteq> MODE_ERROR"
    "0 \<le> am_optBufLevel (bs_Automode inst)" "0 \<le> am_packetSpeechLenSamp (bs_Automode inst)"
    "am_optBufLevel (bs_Automode inst) * am_packetSpeechLenSamp (bs_Automode inst) < 2 ^ 31"
    "\<bar>cng_wait inst ts av\<bar> < 2 ^ 30"
  shows "let (d, inst') = WebRtcNetEQ_BufstatsDecision inst frameSize cur ts av False True prev mode samples n
               fs_mult bgn dtmf;
             opt = am_optBufLevel (bs_Automode inst) * am_packetSpeechLenSamp (bs_Automode inst) div 256
         in cng_wait inst' ts av = (if cng_wait inst ts av > opt + opt div 2 then opt else cng_wait inst ts av)
           \<and> d = (if 0 < cng_wait inst' ts av \<and> prev = MODE_RFC3389CNG
                  then BUFSTATS_DO_RFC3389CNG_NOPACKET else BUFSTATS_DO_RFC3389CNG_PACKET)"
proof -
  let ?am = "bs_Automode inst"
  define diff where "diff = s32 (bs_CNGplayedTS inst + ts - av)"
  define opt where "opt = am_optBufLevel ?am * am_packetSpeechLenSamp ?am div 256"
  have p: "0 \<le> am_optBufLevel ?am * am_packetSpeechLenSamp ?am" using assms(3,4) by simp
  then have o: "0 \<le> opt" "opt < 2 ^ 23" using assms(5) by (simp_all add: opt_def pos_imp_zdiv_nonneg_iff)
  have shr: "shr (s32 (am_optBufLevel ?am * am_packetSpeechLenSamp ?am)) 8 = opt"
    using p assms(5) by (simp add: s32_nonneg opt_def shr_eq_div)
  have diff: "- (2 ^ 30) < diff" "diff < 2 ^ 30"
    using assms(6) by (simp_all add: diff_def cng_wait_def abs_less_iff)
  define i where "i = decision_state inst cur prev samples fs_mult"
  have i: "s32 (bs_CNGplayedTS i + ts - av) = diff" "shr (s32 (am_optBufLevel (bs_Automode i)
      * am_packetSpeechLenSamp (bs_Automode i))) 8 = opt"
    using shr by (simp_all add: i_def diff_def)
  have dec: "WebRtcNetEQ_BufstatsDecision inst frameSize cur ts av False True prev mode samples n fs_mult bgn dtmf
      = cng_packet_decision i ts av prev"
    using assms(1,2) by (simp add: WebRtcNetEQ_BufstatsDecision_def on_decision_def Let_def i_def
      decision_state_def [symmetric])
  show ?thesis
  proof (cases "- diff > opt + opt div 2")
    case True
    have ex: "s32 (- diff - opt) = - diff - opt" "s32 (diff + (- diff - opt)) = - opt"
      using diff o True by (simp_all add: s32_id)
    have "s32 (s32 (bs_CNGplayedTS i + (- diff - opt)) + ts - av) = s32 (bs_CNGplayedTS i + ts - av + (- diff - opt))"
      using s32_add_left [of "bs_CNGplayedTS i + (- diff - opt)" "ts - av"] by (simp add: algebra_simps)
    also have "\<dots> = s32 (s32 (bs_CNGplayedTS i + ts - av) + (- diff - opt))"
      by (simp only: s32_add_left)
    also have "\<dots> = - opt" using ex(2) by (simp only: i(1))
    finally have new: "s32 (s32 (bs_CNGplayedTS i + (- diff - opt)) + ts - av) = - opt" .
    have "- diff - opt > opt sdiv 2" using True o by (simp add: sdiv_nonneg)
    then show ?thesis
      using True o new
      unfolding dec cng_packet_decision_def Let_def i ex opt_def [symmetric]
      by (simp add: cng_wait_def diff_def [symmetric])
  next
    case False
    have ex: "s32 (- diff - opt) = - diff - opt" using diff o False by (intro s32_id) simp_all
    have "\<not> - diff - opt > opt sdiv 2" using False o by (simp add: sdiv_nonneg)
    then show ?thesis
      using False o
      unfolding dec cng_packet_decision_def Let_def i ex opt_def [symmetric]
      by (simp add: cng_wait_def i(1) diff_def [symmetric])
  qed
qed

lemma cng_wait_bounded_witness:
  "let (d, inst') = WebRtcNetEQ_BufstatsDecision bs_example 160 0 0 4000 False True MODE_RFC3389CNG kPlayoutOn 80 0
             1 False 0;
         opt = am_optBufLevel (bs_Automode bs_example) * am_packetSpeechLenSamp (bs_Automode bs_example) div 256
     in cng_wait inst' 0 4000 = (if cng_wait bs_example 0 4000 > opt + opt div 2 then opt else cng_wait bs_example 0 4000)
       \<and> d = (if 0 < cng_wait inst' 0 4000 \<and> MODE_RFC3389CNG = MODE_RFC3389CNG
              then BUFSTATS_DO_RFC3389CNG_NOPACKET else BUFSTATS_DO_RFC3389CNG_PACKET)"
  by (rule cng_wait_bounded) (simp_all add: bs_example_def cng_wait_def s32_def)

section \<open>The reported delay\<close>

definition run_vqmon :: "bufstats \<Rightarrow> int list \<Rightarrow> bufstats" where
  "run_vqmon inst sizes = fold (\<lambda>cur i. update_vqmon i (s32 (shl cur 4))) sizes inst"

lemma vqmon_step:
  assumes "0 \<le> bs_avgDelayMsQ8 i" "bs_avgDelayMsQ8 i \<le> 128 * c" "0 \<le> q" "q \<le> 128 * c" "c < 256"
  shows "0 \<le> bs_avgDelayMsQ8 (update_vqmon i q)" "bs_avgDelayMsQ8 (update_vqmon i q) \<le> 128 * c"
proof -
  let ?a = "bs_avgDelayMsQ8 i"
  define r where "r = ?a * 511 div 512 + q div 512"
  have q: "min q 32767 = q" using assms(4,5) by simp
  have a: "s16 ?a = ?a" using assms(1,2,5) by (simp add: s16_id)
  have r: "0 \<le> r" using assms(1,3) by (simp add: r_def pos_imp_zdiv_nonneg_iff)
  have "512 * (?a * 511 div 512) \<le> ?a * 511" "512 * (q div 512) \<le> q"
    using pos_mod_sign [of 512 "?a * 511"] pos_mod_sign [of 512 q]
    by (simp_all add: minus_mod_eq_mult_div [symmetric])
  then have "512 * r \<le> 512 * (128 * c)" using assms(2,4) by (simp add: r_def)
  then have r': "r \<le> 128 * c" by simp
  then have "u16 (s16 r) = r" using r assms(5) by (simp add: s16_id u16_id)
  then have "bs_avgDelayMsQ8 (update_vqmon i q) = r"
    by (simp add: update_vqmon_def Let_def q a shr_eq_div r_def)
  then show "0 \<le> bs_avgDelayMsQ8 (update_vqmon i q)" "bs_avgDelayMsQ8 (update_vqmon i q) \<le> 128 * c"
    using r r' by simp_all
qed

text \<open>
  The average delay that the statistics report, the stored value without its eight
  fraction bits, is at most half of the longest buffer there was, although the buffer size is
  averaged in milliseconds with weight 1/512: the term is taken in Q7 and stored as Q8.
\<close>

theorem reported_delay_half:
  assumes "bs_avgDelayMsQ8 inst = 0" "0 \<le> c" "c < 256" "\<forall>cur \<in> set sizes. 0 \<le> cur \<and> cur \<le> 8 * c"
  shows "0 \<le> bs_avgDelayMsQ8 (run_vqmon inst sizes)
    \<and> 2 * shr (bs_avgDelayMsQ8 (run_vqmon inst sizes)) 8 \<le> c"
proof -
  have "0 \<le> bs_avgDelayMsQ8 (run_vqmon i sizes) \<and> bs_avgDelayMsQ8 (run_vqmon i sizes) \<le> 128 * c"
    if "0 \<le> bs_avgDelayMsQ8 i" "bs_avgDelayMsQ8 i \<le> 128 * c" for i
    using that assms(4) unfolding run_vqmon_def
  proof (induction sizes arbitrary: i)
    case (Cons cur sizes)
    have cur: "0 \<le> cur" "cur \<le> 8 * c" using Cons.prems(3) by simp_all
    then have q: "s32 (shl cur 4) = 16 * cur" using assms(3) by (simp add: shl_eq_mult s32_nonneg)
    note step = vqmon_step [OF Cons.prems(1,2), of "16 * cur"]
    show ?case unfolding fold_Cons comp_def q
      by (rule Cons.IH) (use step cur assms(3) Cons.prems(3) in simp_all)
  qed simp
  from this [of inst] have "0 \<le> bs_avgDelayMsQ8 (run_vqmon inst sizes)" "bs_avgDelayMsQ8 (run_vqmon inst sizes) \<le> 128 * c"
    using assms(1,2) by simp_all
  moreover have "2 * (x div 256) \<le> c" if "x \<le> 128 * c" for x :: int using that by linarith
  ultimately show ?thesis by (simp add: shr_eq_div)
qed

lemma reported_delay_half_witness:
  "0 \<le> bs_avgDelayMsQ8 (run_vqmon bs_example (replicate 1000 800))
    \<and> 2 * shr (bs_avgDelayMsQ8 (run_vqmon bs_example (replicate 1000 800))) 8 \<le> 100"
  by (rule reported_delay_half) (simp_all add: bs_example_def)

end
