(* ===== verification/Mcu.thy ===== *)
theory Mcu
  imports Bufstats Packet_Size Split_Insert Rtcp Dtmf_Buffer
begin

text \<open>
  The control side of NetEQ (MCU): its state, reset (\<open>neteq/mcu_reset.c\<close>), change of the
  sample rate (\<open>neteq/set_fs.c\<close>), the record of waiting times, and the scaling between the
  timestamps of the RTP stream and those of the decoded signal (\<open>neteq/recin.c\<close>).

  The pointers of the MCU instance into the memory shared with the signal side are not part
  of the state here: that memory is an argument of the step that uses it.
\<close>

section \<open>State\<close>

datatype ts_scaling = kTSnoScaling | kTSscalingTwo | kTSscalingTwoThirds | kTSscalingFourThirds

abbreviation (input) kLenWaitingTimes :: nat where "kLenWaitingTimes \<equiv> 100"

record mcu =
  mc_current_Codec :: int
  mc_current_Payload :: int
  mc_timeStamp :: int
  mc_millisecondsPerCall :: int
  mc_timestampsPerCall :: int
  mc_fs :: int
  mc_ssrc :: int
  mc_new_codec :: int
  mc_first_packet :: int
  mc_codec_DB :: codec_db
  mc_PayloadSplit :: split_info
  mc_RTCP :: rtcp
  mc_PacketBuffer :: packet_buf
  mc_BufferStat :: bufstats
  mc_DTMF :: dtmf_inst
  mc_NoOfExpandCalls :: int
  mc_AVT_PlayoutOn :: int
  mc_NetEqPlayoutMode :: playout_mode
  mc_one_desc :: int
  mc_lostTS :: int
  mc_lastReportTS :: int
  mc_waiting_times :: "int list"
  mc_len_waiting_times :: nat
  mc_next_waiting_time_index :: nat
  mc_externalTS :: int
  mc_internalTS :: int
  mc_TSscalingInitialized :: int
  mc_scalingFactor :: ts_scaling
  mc_av_sync :: bool
  mc_usingStereo :: int
  mc_decoded_packet_sequence_number :: int
  mc_decoded_packet_timestamp :: int

section \<open>Statistics\<close>

definition WebRtcNetEQ_ResetMcuInCallStats :: "mcu \<Rightarrow> mcu" where
  "WebRtcNetEQ_ResetMcuInCallStats inst = inst\<lparr>mc_lostTS := 0, mc_lastReportTS := 0,
     mc_PacketBuffer := (mc_PacketBuffer inst)\<lparr>pb_discardedPackets := 0\<rparr>\<rparr>"

definition WebRtcNetEQ_ResetWaitingTimeStats :: "mcu \<Rightarrow> mcu" where
  "WebRtcNetEQ_ResetWaitingTimeStats inst = inst\<lparr>mc_waiting_times := replicate kLenWaitingTimes 0,
     mc_len_waiting_times := 0, mc_next_waiting_time_index := 0\<rparr>"

text \<open>\<open>None\<close>: the assertion on the index fails, and the write would be out of bounds.\<close>

definition WebRtcNetEQ_StoreWaitingTime :: "mcu \<Rightarrow> int \<Rightarrow> mcu option" where
  "WebRtcNetEQ_StoreWaitingTime inst waiting_time =
     (if mc_next_waiting_time_index inst < kLenWaitingTimes
      then do {
        ws \<leftarrow> put (mc_waiting_times inst) (mc_next_waiting_time_index inst) waiting_time;
        let i = mc_next_waiting_time_index inst + 1
        in Some (inst\<lparr>mc_waiting_times := ws,
             mc_next_waiting_time_index := (if i \<ge> kLenWaitingTimes then 0 else i),
             mc_len_waiting_times := (if mc_len_waiting_times inst < kLenWaitingTimes
               then mc_len_waiting_times inst + 1 else mc_len_waiting_times inst)\<rparr>) }
      else None)"

definition WebRtcNetEQ_ResetMcuJitterStat :: "mcu \<Rightarrow> mcu" where
  "WebRtcNetEQ_ResetMcuJitterStat inst = inst\<lparr>mc_BufferStat := (mc_BufferStat inst)\<lparr>bs_Automode :=
     (bs_Automode (mc_BufferStat inst))\<lparr>am_countIAT500ms := 0, am_countIAT1000ms := 0,
       am_countIAT2000ms := 0, am_longestIATms := 0\<rparr>\<rparr>\<rparr>"

section \<open>Reset and sample rate\<close>

text \<open>The structures filled with zero by \<open>memset\<close>.\<close>

definition am_zero :: automode where
  "am_zero = \<lparr>am_levelFiltFact = 0, am_buffLevelFilt = 0, am_iatProb = replicate (MAX_IAT + 1) 0,
     am_iatProbFact = 0, am_packetIatCountSamp = 0, am_optBufLevel = 0, am_packetSpeechLenSamp = 0,
     am_lastPackCNGorDTMF = 0, am_lastSeqNo = 0, am_lastTimeStamp = 0, am_sampleMemory = 0,
     am_prevTimeScale = 0, am_timescaleHoldOff = 0, am_extraDelayMs = 0, am_minimum_delay_ms = 0,
     am_maximum_delay_ms = 0, am_required_delay_q8 = 0, am_peakPeriodSamp = replicate NUM_PEAKS 0,
     am_peakHeightPkt = replicate NUM_PEAKS 0, am_peakIndex = 0, am_peakThresholdPkt = 0,
     am_peakIatCountSamp = 0, am_curPeakPeriod = 0, am_curPeakHeight = 0, am_peakModeDisabled = 0,
     am_peakFound = 0, am_countIAT500ms = 0, am_countIAT1000ms = 0, am_countIAT2000ms = 0,
     am_longestIATms = 0, am_cSumIatQ8 = 0, am_maxCSumIatQ8 = 0, am_maxCSumUpdateTimer = 0\<rparr>"

definition bs_zero :: bufstats where
  "bs_zero = \<lparr>bs_cngOn = 0, bs_noExpand = 0, bs_CNGplayedTS = 0, bs_avgDelayMsQ8 = 0, bs_maxDelayMs = 0,
     bs_Automode = am_zero\<rparr>"

text \<open>
  The slots beyond \<open>maxInsertPositions\<close> are not part of the model's list: a buffer reset to
  no positions has an empty list.
\<close>

definition WebRtcNetEQ_McuReset :: "mcu \<Rightarrow> int \<times> mcu" where
  "WebRtcNetEQ_McuReset inst =
     (let inst = inst\<lparr>mc_one_desc := 0, mc_NetEqPlayoutMode := kPlayoutOn, mc_av_sync := False,
            mc_codec_DB := WebRtcNetEQ_DbReset, mc_PayloadSplit := \<lparr>sp_deltaBytes = 0, sp_deltaTime = 0\<rparr>,
            mc_PacketBuffer := (snd (WebRtcNetEQ_PacketBufferFlush (mc_PacketBuffer inst)))
              \<lparr>pb_memorySizeW16 := 0, pb_maxInsertPositions := 0, pb_slots := []\<rparr>,
            mc_BufferStat := bs_zero\<rparr>;
          (ok, dtmf) = WebRtcNetEQ_DtmfDecoderInit (mc_DTMF inst) 8000 560;
          inst = inst\<lparr>mc_DTMF := dtmf\<rparr>
      in if ok \<noteq> 0 then (ok, inst)
         else let inst = inst\<lparr>mc_NoOfExpandCalls := 0, mc_current_Codec := -1, mc_current_Payload := -1,
                    mc_millisecondsPerCall := 10, mc_timestampsPerCall := 10 * 8, mc_fs := 8000,
                    mc_first_packet := 1\<rparr>;
                  inst = WebRtcNetEQ_ResetMcuInCallStats inst;
                  inst = WebRtcNetEQ_ResetWaitingTimeStats inst;
                  inst = WebRtcNetEQ_ResetMcuJitterStat inst
              in (0, inst\<lparr>mc_BufferStat := (mc_BufferStat inst)\<lparr>bs_Automode :=
                   snd (WebRtcNetEQ_ResetAutomode (bs_Automode (mc_BufferStat inst))
                     (int (pb_maxInsertPositions (mc_PacketBuffer inst))))\<rparr>\<rparr>))"

text \<open>The rates compiled in: 48000 Hz is not one of them.\<close>

definition WebRtcNetEQ_McuSetFs :: "mcu \<Rightarrow> int \<Rightarrow> int \<times> mcu" where
  "WebRtcNetEQ_McuSetFs inst fs =
     (if fs = 8000 then
        let (ok, dtmf) = WebRtcNetEQ_DtmfDecoderInit (mc_DTMF inst) 8000 560
        in (ok, inst\<lparr>mc_DTMF := dtmf, mc_timestampsPerCall := u16 (mc_millisecondsPerCall inst * 8), mc_fs := fs\<rparr>)
      else if fs = 16000 then
        let (ok, dtmf) = WebRtcNetEQ_DtmfDecoderInit (mc_DTMF inst) 16000 1120
        in (ok, inst\<lparr>mc_DTMF := dtmf, mc_timestampsPerCall := u16 (mc_millisecondsPerCall inst * 16), mc_fs := fs\<rparr>)
      else if fs = 32000 then
        let (ok, dtmf) = WebRtcNetEQ_DtmfDecoderInit (mc_DTMF inst) 32000 2240
        in (ok, inst\<lparr>mc_DTMF := dtmf, mc_timestampsPerCall := u16 (mc_millisecondsPerCall inst * 32), mc_fs := fs\<rparr>)
      else (CODEC_DB_UNSUPPORTED_FS, inst))"

section \<open>Timestamp scaling\<close>

definition WebRtcNetEQ_GetTimestampScaling :: "mcu \<Rightarrow> int \<Rightarrow> (int \<times> mcu) option" where
  "WebRtcNetEQ_GetTimestampScaling inst rtpPayloadType = do {
     codecNumber \<leftarrow> WebRtcNetEQ_DbGetCodec (mc_codec_DB inst) rtpPayloadType;
     if codecNumber < 0 then Some (codecNumber, inst)
     else if codecNumber = kDecoderG722 \<or> codecNumber = kDecoderG722_2ch
     then Some (0, inst\<lparr>mc_scalingFactor := kTSscalingTwo\<rparr>)
     else if codecNumber = kDecoderISACfb \<or> codecNumber = kDecoderOpus
     then Some (0, inst\<lparr>mc_scalingFactor := kTSscalingTwoThirds\<rparr>)
     else if codecNumber = kDecoderAVT \<or> codecNumber = kDecoderCNG
     then do {
       sample_freq \<leftarrow> WebRtcNetEQ_DbGetSampleRate (mc_codec_DB inst) rtpPayloadType;
       Some (0, if u16 sample_freq = 48000 then inst\<lparr>mc_scalingFactor := kTSscalingTwoThirds\<rparr> else inst) }
     else Some (0, inst\<lparr>mc_scalingFactor := kTSnoScaling\<rparr>) }"

definition WebRtcNetEQ_ScaleTimestampExternalToInternal :: "mcu \<Rightarrow> int \<Rightarrow> int" where
  "WebRtcNetEQ_ScaleTimestampExternalToInternal inst externalTS =
     (let timestampDiff = s32 (externalTS - mc_externalTS inst);
          timestampDiff = (case mc_scalingFactor inst of
              kTSscalingTwo \<Rightarrow> s32 (shl timestampDiff 1)
            | kTSscalingTwoThirds \<Rightarrow> WebRtcSpl_DivW32W16 (s32 (shl timestampDiff 1)) 3
            | kTSscalingFourThirds \<Rightarrow> WebRtcSpl_DivW32W16 (s32 (shl timestampDiff 2)) 3
            | kTSnoScaling \<Rightarrow> timestampDiff)
      in u32 (mc_internalTS inst + timestampDiff))"

definition WebRtcNetEQ_ScaleTimestampInternalToExternal :: "mcu \<Rightarrow> int \<Rightarrow> int" where
  "WebRtcNetEQ_ScaleTimestampInternalToExternal inst internalTS =
     (let timestampDiff = s32 (internalTS - mc_internalTS inst);
          timestampDiff = (case mc_scalingFactor inst of
              kTSscalingTwo \<Rightarrow> shr timestampDiff 1
            | kTSscalingTwoThirds \<Rightarrow> shr (s32 (timestampDiff * 3)) 1
            | kTSscalingFourThirds \<Rightarrow> shr (s32 (timestampDiff * 3)) 2
            | kTSnoScaling \<Rightarrow> timestampDiff)
      in u32 (mc_externalTS inst + timestampDiff))"

section \<open>Scaling there and back\<close>

lemma sdiv3_cases:
  obtains q r :: int where "(a :: int) sdiv 3 = q" "a = 3 * q + r" "\<bar>r\<bar> \<le> 2"
proof (cases "0 \<le> a")
  case True
  then show ?thesis using that [of "a div 3" "a mod 3"] sdiv_nonneg [of a 3] by simp
next
  case False
  have "(- a) sdiv 3 = (- a) div 3" using False by (intro sdiv_nonneg) simp_all
  moreover have "(- a) sdiv 3 = - (a sdiv 3)" by (simp add: signed_divide_int_def sgn_minus)
  ultimately have "a sdiv 3 = - ((- a) div 3)" by simp
  moreover have "a = 3 * - ((- a) div 3) + - ((- a) mod 3)" using div_mult_mod_eq [of "- a" 3] by linarith
  moreover have "\<bar>- ((- a) mod 3)\<bar> \<le> 2" by (simp add: abs_le_iff)
  ultimately show ?thesis by (rule that)
qed

lemma u32_add_s32 [simp]: "u32 (a + s32 b) = u32 (a + b)"
  by (metis u32_add_right u32_s32)

lemma s32_back: "s32 (u32 (a + d) - a) = s32 d"
proof -
  have "u32 (u32 (a + d) - a) = u32 d" by simp
  then show ?thesis by (metis s32_u32)
qed

text \<open>What the two conversions do to a difference of timestamps that is not too large.\<close>

fun scale_diff :: "ts_scaling \<Rightarrow> int \<Rightarrow> int" where
  "scale_diff kTSnoScaling d = d"
| "scale_diff kTSscalingTwo d = 2 * d"
| "scale_diff kTSscalingTwoThirds d = 2 * d sdiv 3"
| "scale_diff kTSscalingFourThirds d = 4 * d sdiv 3"

fun unscale_diff :: "ts_scaling \<Rightarrow> int \<Rightarrow> int" where
  "unscale_diff kTSnoScaling d = d"
| "unscale_diff kTSscalingTwo d = d div 2"
| "unscale_diff kTSscalingTwoThirds d = 3 * d div 2"
| "unscale_diff kTSscalingFourThirds d = 3 * d div 4"

lemma scale_diff_bound: "\<bar>d\<bar> < 2 ^ 28 \<Longrightarrow> \<bar>3 * scale_diff k d\<bar> < 2 ^ 31"
proof (cases k)
  case kTSscalingTwoThirds
  assume "\<bar>d\<bar> < 2 ^ 28"
  with kTSscalingTwoThirds show ?thesis by (cases rule: sdiv3_cases [of "2 * d"]) auto
next
  case kTSscalingFourThirds
  assume "\<bar>d\<bar> < 2 ^ 28"
  with kTSscalingFourThirds show ?thesis by (cases rule: sdiv3_cases [of "4 * d"]) auto
qed auto

lemma scale_external:
  assumes "\<bar>s32 (ts - mc_externalTS m)\<bar> < 2 ^ 28"
  shows "WebRtcNetEQ_ScaleTimestampExternalToInternal m ts
    = u32 (mc_internalTS m + scale_diff (mc_scalingFactor m) (s32 (ts - mc_externalTS m)))"
proof -
  define d where "d = s32 (ts - mc_externalTS m)"
  have d: "\<bar>d\<bar> < 2 ^ 28" using assms by (simp add: d_def)
  then have "s32 (2 * d) = 2 * d" "s32 (4 * d) = 4 * d" by (simp_all add: s32_id abs_less_iff)
  moreover have "s32 (2 * d sdiv 3) = 2 * d sdiv 3" "s32 (4 * d sdiv 3) = 4 * d sdiv 3"
    using scale_diff_bound [OF d, of kTSscalingTwoThirds] scale_diff_bound [OF d, of kTSscalingFourThirds]
    by (simp_all add: s32_id abs_less_iff)
  ultimately show ?thesis
    unfolding WebRtcNetEQ_ScaleTimestampExternalToInternal_def Let_def d_def [symmetric]
    by (cases "mc_scalingFactor m") (simp_all add: shl_eq_mult WebRtcSpl_DivW32W16_def mult.commute)
qed

lemma scale_internal:
  assumes "s32 (ts - mc_internalTS m) = d" "\<bar>3 * d\<bar> < 2 ^ 31"
  shows "WebRtcNetEQ_ScaleTimestampInternalToExternal m ts
    = u32 (mc_externalTS m + unscale_diff (mc_scalingFactor m) d)"
proof -
  have "s32 (d * 3) = 3 * d" using assms(2) by (simp add: s32_id abs_less_iff mult.commute)
  then show ?thesis
    unfolding WebRtcNetEQ_ScaleTimestampInternalToExternal_def Let_def assms(1)
    by (cases "mc_scalingFactor m") (simp_all add: shr_eq_div)
qed

lemma unscale_scale:
  "\<bar>unscale_diff k (scale_diff k d) - d\<bar> \<le> 1"
  "k = kTSnoScaling \<or> k = kTSscalingTwo \<or> 3 dvd d \<Longrightarrow> unscale_diff k (scale_diff k d) = d"
proof -
  show "\<bar>unscale_diff k (scale_diff k d) - d\<bar> \<le> 1"
  proof (cases k)
    case kTSscalingTwoThirds
    obtain q r where "2 * d sdiv 3 = q" "2 * d = 3 * q + r" "\<bar>r\<bar> \<le> 2" by (rule sdiv3_cases)
    moreover from this have "\<bar>3 * q div 2 - d\<bar> \<le> 1" by linarith
    ultimately show ?thesis using kTSscalingTwoThirds by simp
  next
    case kTSscalingFourThirds
    obtain q r where "4 * d sdiv 3 = q" "4 * d = 3 * q + r" "\<bar>r\<bar> \<le> 2" by (rule sdiv3_cases)
    moreover from this have "\<bar>3 * q div 4 - d\<bar> \<le> 1" by linarith
    ultimately show ?thesis using kTSscalingFourThirds by simp
  qed simp_all
next
  assume a: "k = kTSnoScaling \<or> k = kTSscalingTwo \<or> 3 dvd d"
  show "unscale_diff k (scale_diff k d) = d"
  proof (cases k)
    case kTSscalingTwoThirds
    then obtain e where "d = 3 * e" using a by auto
    moreover obtain q r where "2 * d sdiv 3 = q" "2 * d = 3 * q + r" "\<bar>r\<bar> \<le> 2" by (rule sdiv3_cases)
    moreover from calculation have "q = 2 * e" by linarith
    ultimately show ?thesis using kTSscalingTwoThirds by simp
  next
    case kTSscalingFourThirds
    then obtain e where "d = 3 * e" using a by auto
    moreover obtain q r where "4 * d sdiv 3 = q" "4 * d = 3 * q + r" "\<bar>r\<bar> \<le> 2" by (rule sdiv3_cases)
    moreover from calculation have "q = 4 * e" by linarith
    ultimately show ?thesis using kTSscalingFourThirds by simp
  qed simp_all
qed

text \<open>
  A timestamp of the RTP stream scaled to the decoded signal and back is off by at most
  one tick, for every scaling factor, and is the same again when there is nothing to round:
  without thirds, or for a distance from the last packet that is a multiple of three.
\<close>

theorem scale_roundtrip:
  assumes "0 \<le> ts" "ts < 2 ^ 32" "\<bar>s32 (ts - mc_externalTS m)\<bar> < 2 ^ 28"
  shows "let ret = WebRtcNetEQ_ScaleTimestampInternalToExternal m (WebRtcNetEQ_ScaleTimestampExternalToInternal m ts)
    in \<bar>s32 (ret - ts)\<bar> \<le> 1
      \<and> (mc_scalingFactor m = kTSnoScaling \<or> mc_scalingFactor m = kTSscalingTwo \<or> 3 dvd s32 (ts - mc_externalTS m)
          \<longrightarrow> ret = ts)"
proof -
  let ?k = "mc_scalingFactor m"
  define d where "d = s32 (ts - mc_externalTS m)"
  have d: "\<bar>d\<bar> < 2 ^ 28" using assms(3) by (simp add: d_def)
  have b: "\<bar>3 * scale_diff ?k d\<bar> < 2 ^ 31" by (rule scale_diff_bound [OF d])
  have "s32 (scale_diff ?k d) = scale_diff ?k d" using b by (simp add: s32_id abs_less_iff)
  then have "s32 (WebRtcNetEQ_ScaleTimestampExternalToInternal m ts - mc_internalTS m) = scale_diff ?k d"
    by (simp add: scale_external [OF assms(3)] s32_back d_def)
  note again = scale_internal [OF this b]
  define e where "e = unscale_diff ?k (scale_diff ?k d)"
  have ts: "ts = u32 (mc_externalTS m + d)" using assms(1,2) by (simp add: d_def u32_id)
  have "s32 (u32 (mc_externalTS m + e) - u32 (mc_externalTS m + d)) = s32 (e - d)"
  proof -
    have "u32 (u32 (mc_externalTS m + e) - u32 (mc_externalTS m + d)) = u32 (e - d)" by simp
    then show ?thesis by (metis s32_u32)
  qed
  moreover have "s32 (e - d) = e - d" using unscale_scale(1) [of ?k d] by (simp add: e_def s32_id abs_le_iff)
  ultimately show ?thesis
    using unscale_scale [of ?k d] unfolding Let_def again e_def [symmetric] d_def [symmetric]
    by (metis ts)
qed

text \<open>A state of the control side for the examples: reset, and given a packet buffer.\<close>

definition mc_blank :: mcu where
  "mc_blank = \<lparr>mc_current_Codec = 0, mc_current_Payload = 0, mc_timeStamp = 0, mc_millisecondsPerCall = 0,
     mc_timestampsPerCall = 0, mc_fs = 0, mc_ssrc = 0, mc_new_codec = 0, mc_first_packet = 0,
     mc_codec_DB = WebRtcNetEQ_DbReset, mc_PayloadSplit = \<lparr>sp_deltaBytes = 0, sp_deltaTime = 0\<rparr>,
     mc_RTCP = WebRtcNetEQ_RTCPInit 0, mc_PacketBuffer = pb_blank, mc_BufferStat = bs_zero,
     mc_DTMF = dtmf_example, mc_NoOfExpandCalls = 0, mc_AVT_PlayoutOn = 0, mc_NetEqPlayoutMode = kPlayoutOn,
     mc_one_desc = 0, mc_lostTS = 0, mc_lastReportTS = 0, mc_waiting_times = [], mc_len_waiting_times = 0,
     mc_next_waiting_time_index = 0, mc_externalTS = 0, mc_internalTS = 0, mc_TSscalingInitialized = 0,
     mc_scalingFactor = kTSnoScaling, mc_av_sync = False, mc_usingStereo = 0,
     mc_decoded_packet_sequence_number = 0, mc_decoded_packet_timestamp = 0\<rparr>"

lemma scale_roundtrip_witness:
  "let ret = WebRtcNetEQ_ScaleTimestampInternalToExternal (mc_blank\<lparr>mc_scalingFactor := kTSscalingTwoThirds\<rparr>)
         (WebRtcNetEQ_ScaleTimestampExternalToInternal (mc_blank\<lparr>mc_scalingFactor := kTSscalingTwoThirds\<rparr>) 960)
    in \<bar>s32 (ret - 960)\<bar> \<le> 1 \<and> ret = 960"
proof -
  let ?m = "mc_blank\<lparr>mc_scalingFactor := kTSscalingTwoThirds\<rparr>"
  have "s32 (960 - mc_externalTS ?m) = 960" "3 dvd (960 :: int)" "s32 0 = 0" by (simp_all add: mc_blank_def s32_def)
  then show ?thesis using scale_roundtrip [of 960 ?m] by (simp add: Let_def)
qed

section \<open>The waiting times are the last hundred\<close>

definition wt_inv :: "mcu \<Rightarrow> bool" where
  "wt_inv m \<longleftrightarrow> length (mc_waiting_times m) = kLenWaitingTimes
     \<and> mc_len_waiting_times m \<le> kLenWaitingTimes \<and> mc_next_waiting_time_index m < kLenWaitingTimes
     \<and> (mc_len_waiting_times m < kLenWaitingTimes \<longrightarrow> mc_next_waiting_time_index m = mc_len_waiting_times m)"

text \<open>The stored times, oldest first.\<close>

definition wt_abs :: "mcu \<Rightarrow> int list" where
  "wt_abs m = (if mc_len_waiting_times m < kLenWaitingTimes then take (mc_len_waiting_times m) (mc_waiting_times m)
     else drop (mc_next_waiting_time_index m) (mc_waiting_times m) @ take (mc_next_waiting_time_index m) (mc_waiting_times m))"

definition last_times :: "int list \<Rightarrow> int list" where
  "last_times xs = drop (length xs - kLenWaitingTimes) xs"

fun store_times :: "mcu \<Rightarrow> int list \<Rightarrow> mcu option" where
  "store_times m [] = Some m"
| "store_times m (t # ts) = Option.bind (WebRtcNetEQ_StoreWaitingTime m t) (\<lambda>m. store_times m ts)"

lemma store_one:
  assumes "wt_inv m"
  shows "\<exists>m'. WebRtcNetEQ_StoreWaitingTime m t = Some m' \<and> wt_inv m' \<and> wt_abs m' = last_times (wt_abs m @ [t])"
proof -
  let ?ws = "mc_waiting_times m" and ?i = "mc_next_waiting_time_index m" and ?n = "mc_len_waiting_times m"
  have inv: "length ?ws = 100" "?n \<le> 100" "?i < 100" "?n < 100 \<Longrightarrow> ?i = ?n" using assms by (simp_all add: wt_inv_def)
  define m' where "m' = m\<lparr>mc_waiting_times := ?ws[?i := t],
    mc_next_waiting_time_index := (if ?i + 1 \<ge> 100 then 0 else ?i + 1),
    mc_len_waiting_times := (if ?n < 100 then ?n + 1 else ?n)\<rparr>"
  have run: "WebRtcNetEQ_StoreWaitingTime m t = Some m'"
    using inv by (simp add: WebRtcNetEQ_StoreWaitingTime_def put_def m'_def Let_def)
  have "wt_inv m'" using inv by (auto simp: wt_inv_def m'_def)
  moreover have "wt_abs m' = last_times (wt_abs m @ [t])"
  proof (cases "?n < 100")
    case True
    then have i: "?i = ?n" by (rule inv(4))
    have "take (Suc ?n) (?ws[?n := t]) = take ?n ?ws @ [t]" using True inv(1) by (simp add: take_Suc_conv_app_nth)
    then show ?thesis using True i inv(1) by (auto simp: wt_abs_def m'_def last_times_def)
  next
    case False
    then have n: "?n = 100" using inv(2) by simp
    have split: "?ws[?i := t] = take ?i ?ws @ t # drop (Suc ?i) ?ws" using inv(1,3) by (simp add: upd_conv_take_nth_drop)
    have abs: "wt_abs m = drop ?i ?ws @ take ?i ?ws" using n by (simp add: wt_abs_def)
    have last: "last_times (wt_abs m @ [t]) = drop (Suc ?i) ?ws @ take ?i ?ws @ [t]"
      using inv(1,3) by (simp add: last_times_def abs Cons_nth_drop_Suc [symmetric])
    show ?thesis
    proof (cases "?i + 1 < 100")
      case True
      then show ?thesis using n inv(1) unfolding last by (simp add: wt_abs_def m'_def split)
    next
      case False
      then have i: "?i = 99" using inv(3) by simp
      then have "?ws[99 := t] = take 99 ?ws @ [t]" using split inv(1) by simp
      then show ?thesis using n i inv(1) unfolding last by (simp add: wt_abs_def m'_def)
    qed
  qed
  ultimately show ?thesis using run by blast
qed

text \<open>
  C15: The record of waiting times never writes outside its array and holds, oldest first, the
  times of the last hundred packets stored since it was reset.
\<close>

theorem waiting_times_last_100:
  "\<exists>m'. store_times (WebRtcNetEQ_ResetWaitingTimeStats m) ts = Some m' \<and> wt_abs m' = last_times ts"
proof -
  have "wt_inv m \<Longrightarrow> \<exists>m'. store_times m ts = Some m' \<and> wt_abs m' = last_times (wt_abs m @ ts)" for m
  proof (induction ts arbitrary: m)
    case Nil
    then show ?case by (auto simp: last_times_def wt_abs_def wt_inv_def)
  next
    case (Cons t ts)
    obtain m1 where m1: "WebRtcNetEQ_StoreWaitingTime m t = Some m1" "wt_inv m1" "wt_abs m1 = last_times (wt_abs m @ [t])"
      using store_one [OF Cons.prems] by blast
    have "last_times (last_times (xs @ [t]) @ ts) = last_times (xs @ t # ts)" for xs
      by (cases "99 \<le> length xs") (simp_all add: last_times_def add.commute)
    then show ?case using Cons.IH [OF m1(2)] m1(1,3) by simp
  qed
  moreover have "wt_inv (WebRtcNetEQ_ResetWaitingTimeStats m)" "wt_abs (WebRtcNetEQ_ResetWaitingTimeStats m) = []"
    by (simp_all add: wt_inv_def wt_abs_def WebRtcNetEQ_ResetWaitingTimeStats_def)
  ultimately show ?thesis by fastforce
qed

section \<open>The state of a running control side\<close>

text \<open>Where a comfort noise payload type is registered, the codec has an entry in the table.\<close>

definition db_cng_ok :: "codec_db \<Rightarrow> bool" where
  "db_cng_ok db \<longleftrightarrow> (\<forall>pt. WebRtcNetEQ_DbIsCNGPayload db pt \<longrightarrow> db_abs db kDecoderCNG \<noteq> None)"

lemma cng_codec_ok: "codec_ok kDecoderCNG"
  by (simp add: codec_ok_def)

lemma reachable_cng: "db_reachable b \<Longrightarrow> db_cng_ok b"
proof (induction rule: db_reachable.induct)
  case reset
  show ?case by (simp add: db_cng_ok_def WebRtcNetEQ_DbIsCNGPayload_def WebRtcNetEQ_DbReset_def)
next
  case (add b c pt f fs r b')
  have inv: "db_inv b" by (rule reachable_inv [OF add.hyps(1)])
  show ?case
    using inv
  proof (cases rule: add_cases [of b c pt f fs])
    case (added b1)
    then show ?thesis using add by (simp add: db_cng_ok_def WebRtcNetEQ_DbIsCNGPayload_def)
  next
    case (cng b1 p)
    then have "db_abs b' kDecoderCNG \<noteq> None" using add.hyps(2) by auto
    then show ?thesis by (simp add: db_cng_ok_def)
  qed (use add in auto)
next
  case (remove b c r b')
  have inv: "db_inv b" by (rule reachable_inv [OF remove.hyps(1)])
  show ?case
  proof (cases "codec_ok c \<and> db_abs b c \<noteq> None")
    case True
    then obtain b1 where b1: "WebRtcNetEQ_DbRemove b c = Some (0, b1)" "db_abs b1 = (db_abs b)(c := None)"
      "db_CNGpayloadType b1 = (if c = kDecoderCNG then replicate NUM_CNG_CODECS (-1) else db_CNGpayloadType b)"
      using remove_ok [OF inv, of c] by metis
    then have "b' = b1" using remove.hyps(2) by simp
    then show ?thesis using b1(2,3) remove.IH by (auto simp: db_cng_ok_def WebRtcNetEQ_DbIsCNGPayload_def)
  next
    case False
    then have "b' = b" using codec_position [OF inv, of c] remove.hyps(2)
      by (cases "codec_ok c") (auto simp: WebRtcNetEQ_DbRemove_def codec_ok_def abs_position)
    then show ?thesis using remove.IH by simp
  qed
qed

text \<open>
  The invariant of the control side between two calls: every component is well formed, the
  splitting rule is one of the codec database's once a codec is chosen, and the block
  of output is 10 ms at the present rate.
\<close>

definition mcu_inv :: "mcu \<Rightarrow> bool" where
  "mcu_inv m \<longleftrightarrow> db_inv (mc_codec_DB m) \<and> db_cng_ok (mc_codec_DB m) \<and> pb_inv (mc_PacketBuffer m)
     \<and> am_inv (bs_Automode (mc_BufferStat m)) \<and> dtmf_inv (mc_DTMF m) \<and> wt_inv m
     \<and> (mc_current_Codec m = -1 \<or> codec_ok (mc_current_Codec m) \<and> split_ok (mc_PayloadSplit m))
     \<and> mc_millisecondsPerCall m = 10
     \<and> mc_fs m \<in> {8000, 16000, 32000} \<and> 100 * mc_timestampsPerCall m = mc_fs m"

lemma dtmf_init:
  assumes "fs \<in> {8000, 16000, 32000, 48000}" "0 \<le> plc"
  obtains d' where "WebRtcNetEQ_DtmfDecoderInit d fs plc = (0, d')" "dtmf_inv d'" "dtmf_abs d' = []"
proof -
  have "fst (WebRtcNetEQ_DtmfDecoderInit d fs plc) = 0" using assms by (auto simp: WebRtcNetEQ_DtmfDecoderInit_def)
  then obtain d' where "WebRtcNetEQ_DtmfDecoderInit d fs plc = (0, d')" by (metis prod.collapse)
  with dtmf_init_inv [OF this] show thesis by (intro that)
qed

lemma mcu_reset_state:
  assumes "WebRtcNetEQ_PacketBufferInit pw b n has_mem sz = Some (0, pb)"
  shows "\<exists>m'. WebRtcNetEQ_McuReset m = (0, m') \<and> mcu_inv (m'\<lparr>mc_PacketBuffer := pb\<rparr>)
    \<and> db_abs (mc_codec_DB m') = Map.empty \<and> dtmf_abs (mc_DTMF m') = [] \<and> wt_abs m' = []
    \<and> mc_current_Codec m' = -1 \<and> mc_first_packet m' = 1 \<and> mc_fs m' = 8000
    \<and> am_maximum_delay_ms (bs_Automode (mc_BufferStat m')) = 0"
proof -
  obtain d where d: "WebRtcNetEQ_DtmfDecoderInit (mc_DTMF m) 8000 560 = (0, d)" "dtmf_inv d" "dtmf_abs d = []"
    by (rule dtmf_init [of 8000 560 "mc_DTMF m"]) simp_all
  have pb: "pb_inv pb" using init_inv [OF assms] by (auto simp: pb_fifo_def)
  have am: "am_inv (snd (WebRtcNetEQ_ResetAutomode am k))" for am k
    by (rule am_reach_inv [OF am_reach.reset])
  define m' where "m' = snd (WebRtcNetEQ_McuReset m)"
  have run: "WebRtcNetEQ_McuReset m = (0, m')"
    by (simp add: m'_def WebRtcNetEQ_McuReset_def d(1) Let_def)
  have m': "mc_codec_DB m' = WebRtcNetEQ_DbReset" "mc_DTMF m' = d" "mc_current_Codec m' = -1" "mc_first_packet m' = 1"
    "mc_fs m' = 8000" "mc_timestampsPerCall m' = 80" "mc_millisecondsPerCall m' = 10"
    "mc_waiting_times m' = replicate 100 0" "mc_len_waiting_times m' = 0" "mc_next_waiting_time_index m' = 0"
    "\<exists>am k. bs_Automode (mc_BufferStat m') = snd (WebRtcNetEQ_ResetAutomode am k) \<and> am_maximum_delay_ms am = 0"
    by (auto simp: m'_def WebRtcNetEQ_McuReset_def d(1) Let_def WebRtcNetEQ_ResetMcuInCallStats_def
      WebRtcNetEQ_ResetWaitingTimeStats_def WebRtcNetEQ_ResetMcuJitterStat_def bs_zero_def am_zero_def intro!: exI)
  have "am_maximum_delay_ms (snd (WebRtcNetEQ_ResetAutomode am k)) = am_maximum_delay_ms am" for am k
    by (simp add: WebRtcNetEQ_ResetAutomode_def Let_def)
  then show ?thesis
    using run m' d pb am reset_inv reachable_cng [OF db_reachable.reset]
    by (auto simp: mcu_inv_def wt_inv_def wt_abs_def)
qed

text \<open>
  After a reset and the assignment of a packet buffer the control side is in a well-formed
  state, whatever the memory held before: no codec, no packet, no event, no waiting time, 8 kHz and the statistics
  of a new stream.  The maximum delay is 0, that is no limit: the 10000 ms the reset stores first are
  cleared with the rest of the statistics.
\<close>

theorem mcu_reset_ready:
  assumes "WebRtcNetEQ_PacketBufferInit pw b n has_mem sz = Some (0, pb)"
  shows "\<exists>m'. WebRtcNetEQ_McuReset m = (0, m') \<and> mcu_inv (m'\<lparr>mc_PacketBuffer := pb\<rparr>)
    \<and> db_abs (mc_codec_DB m') = Map.empty \<and> dtmf_abs (mc_DTMF m') = [] \<and> wt_abs m' = []
    \<and> mc_current_Codec m' = -1 \<and> mc_first_packet m' = 1 \<and> mc_fs m' = 8000
    \<and> am_maximum_delay_ms (bs_Automode (mc_BufferStat m')) = 0"
  using assms by (rule mcu_reset_state)

lemma mcu_reset_ready_witness:
  "\<exists>pb m'. WebRtcNetEQ_PacketBufferInit 4 pb_blank 10 True 1000 = Some (0, pb)
    \<and> WebRtcNetEQ_McuReset mc_blank = (0, m') \<and> mcu_inv (m'\<lparr>mc_PacketBuffer := pb\<rparr>)
    \<and> db_abs (mc_codec_DB m') = Map.empty \<and> dtmf_abs (mc_DTMF m') = [] \<and> wt_abs m' = []
    \<and> mc_current_Codec m' = -1 \<and> mc_first_packet m' = 1 \<and> mc_fs m' = 8000
    \<and> am_maximum_delay_ms (bs_Automode (mc_BufferStat m')) = 0"
proof -
  obtain pb where "WebRtcNetEQ_PacketBufferInit 4 pb_blank 10 True 1000 = Some (0, pb)"
    by (simp add: WebRtcNetEQ_PacketBufferInit_def PBUFFER_MIN_MEMORY_SIZE_def)
  then show ?thesis using mcu_reset_ready [of 4 pb_blank 10 True 1000 pb mc_blank] by blast
qed

text \<open>A change of the sample rate keeps the invariant, and refuses every rate but the three.\<close>

lemma set_fs_inv:
  assumes "mcu_inv m"
  shows "mcu_inv (snd (WebRtcNetEQ_McuSetFs m fs))"
    "fst (WebRtcNetEQ_McuSetFs m fs) = (if fs \<in> {8000, 16000, 32000} then 0 else CODEC_DB_UNSUPPORTED_FS)"
proof -
  note inv = assms [unfolded mcu_inv_def wt_inv_def]
  have set: "mcu_inv (m\<lparr>mc_DTMF := d, mc_timestampsPerCall := u16 (mc_millisecondsPerCall m * k), mc_fs := fs\<rparr>)"
    if "dtmf_inv d" "fs = 1000 * k" "fs \<in> {8000, 16000, 32000}" for d k
    using inv that by (auto simp: mcu_inv_def wt_inv_def u16_def)
  have "mcu_inv (snd (WebRtcNetEQ_McuSetFs m fs))
    \<and> fst (WebRtcNetEQ_McuSetFs m fs) = (if fs \<in> {8000, 16000, 32000} then 0 else CODEC_DB_UNSUPPORTED_FS)"
  proof (cases "fs \<in> {8000, 16000, 32000}")
    case True
    then obtain d1 d2 d3 where d: "WebRtcNetEQ_DtmfDecoderInit (mc_DTMF m) 8000 560 = (0, d1)" "dtmf_inv d1"
      "WebRtcNetEQ_DtmfDecoderInit (mc_DTMF m) 16000 1120 = (0, d2)" "dtmf_inv d2"
      "WebRtcNetEQ_DtmfDecoderInit (mc_DTMF m) 32000 2240 = (0, d3)" "dtmf_inv d3"
      using dtmf_init [of 8000 560 "mc_DTMF m"] dtmf_init [of 16000 1120 "mc_DTMF m"]
        dtmf_init [of 32000 2240 "mc_DTMF m"] by (metis insertI1 insertI2 zero_le_numeral)
    show ?thesis using True set [of d1 8] set [of d2 16] set [of d3 32] d
      by (auto simp: WebRtcNetEQ_McuSetFs_def)
  next
    case False
    then show ?thesis using assms by (auto simp: WebRtcNetEQ_McuSetFs_def)
  qed
  then show "mcu_inv (snd (WebRtcNetEQ_McuSetFs m fs))"
    "fst (WebRtcNetEQ_McuSetFs m fs) = (if fs \<in> {8000, 16000, 32000} then 0 else CODEC_DB_UNSUPPORTED_FS)" by simp_all
qed

end
