(* ===== verification/Red_Safe.thy ===== *)
theory Red_Safe
  imports Split_Insert
begin

text \<open>
  When \<open>WebRtcNetEQ_RedundancySplit\<close> stays inside the payload: it does for the payloads of RFC 2198, whose
  headers are complete and whose blocks, of the lengths the headers announce, lie within the payload.  One more byte of memory
  is needed behind the payload, as the splitter reads the last header as a word.
\<close>

section \<open>Payloads of RFC 2198\<close>

text \<open>The number of bytes of the headers, and of the blocks they announce; the last header is one byte and announces none.\<close>

fun red_lens :: "byte list \<Rightarrow> (nat \<times> nat) option" where
  "red_lens (a # b # c # d # bs) =
     (if uint a < 128 then Some (1, 0)
      else map_option (\<lambda>(h, s). (h + 4, s + (unat c mod 4 * 256 + unat d))) (red_lens bs))"
| "red_lens (a # bs) = (if uint a < 128 then Some (1, 0) else None)"
| "red_lens [] = None"

definition red_complete :: "rtp_packet \<Rightarrow> bool" where
  "red_complete p \<longleftrightarrow> 0 < rtp_payloadLen p \<and> rtp_payloadLen p < 32768 \<and> rtp_payloadLen p < int (length (rtp_payload p))
     \<and> (case red_lens (take (nat (rtp_payloadLen p)) (rtp_payload p)) of None \<Rightarrow> False | Some (h, s) \<Rightarrow> int (h + s) \<le> rtp_payloadLen p)"

definition red_len_at :: "byte list \<Rightarrow> nat \<Rightarrow> nat" where
  "red_len_at mem k = unat (mem ! (2 * k + 2)) mod 4 * 256 + unat (mem ! (2 * k + 3))"

lemma red_len_word: "shl (u16 (w16_of c d) AND 0x3) 8 + shr (u16 (w16_of c d) AND 0xFF00) 8 = int (unat c mod 4 * 256 + unat d)"
proof -
  have "u16 (w16_of c d) AND 0x3 = uint c mod 4" using u16_low_field [of 0 2 c d] by simp
  moreover have "shr (u16 (w16_of c d) AND 0xFF00) 8 = uint d" by (simp add: w16_u16_high shl_eq_mult shr_eq_div)
  ultimately show ?thesis by (simp add: shl_eq_mult zmod_int)
qed

lemma red_lens_first:
  assumes "red_lens bs = Some (h, s)" "\<not> uint (hd bs) < 128"
  obtains a b c d rest where "bs = a # b # c # d # rest" "red_lens rest = Some (h - 4, s - (unat c mod 4 * 256 + unat d))"
    "4 \<le> h" "unat c mod 4 * 256 + unat d \<le> s"
  using assms by (cases bs rule: red_lens.cases) (auto split: if_splits)

text \<open>The loop over the headers stops at the last redundant one, inside the payload.\<close>

lemma red_skip_chain:
  assumes "red_lens (drop (2 * k) (take L mem)) = Some (h, s)" "\<not> uint (mem ! (2 * k)) < 128" "2 * k < L" "L < length mem"
    "int L \<le> 2 * bound"
  shows "\<exists>k'. red_skip mem bound k disc = Some (k', disc + int (2 * (k' - k)) + int s - int (red_len_at mem k'))
    \<and> k \<le> k' \<and> h = 2 * (k' - k) + 5 \<and> red_len_at mem k' \<le> s \<and> 2 * k' + 5 \<le> L"
  using assms(1-3)
proof (induction "L - 2 * k" arbitrary: k h s disc rule: less_induct)
  case less
  have hd: "hd (drop (2 * k) (take L mem)) = mem ! (2 * k)" using less.prems(3) assms(4) by (simp add: hd_drop_conv_nth)
  from red_lens_first [OF less.prems(1)] less.prems(2) obtain a b c d rest where
    r: "drop (2 * k) (take L mem) = a # b # c # d # rest" "red_lens rest = Some (h - 4, s - (unat c mod 4 * 256 + unat d))"
      "4 \<le> h" "unat c mod 4 * 256 + unat d \<le> s" unfolding hd by metis
  have rest: "rest = drop (2 * (k + 2)) (take L mem)" using arg_cong [OF r(1), of "drop 4"] by (simp add: numeral_eq_Suc)
  have "rest \<noteq> []" using r(2) by auto
  then have L: "2 * k + 4 < L" unfolding rest by simp
  have cd: "c = mem ! (2 * k + 2)" "d = mem ! (2 * k + 3)"
    using arg_cong [OF r(1), of "\<lambda>xs. xs ! 2"] arg_cong [OF r(1), of "\<lambda>xs. xs ! 3"] L assms(4) by simp_all
  have len: "red_len_at mem k = unat c mod 4 * 256 + unat d" by (simp add: red_len_at_def cd)
  have hr: "hd rest = mem ! (2 * (k + 2))" unfolding rest using L assms(4) by (simp add: hd_drop_conv_nth)
  have w2: "rd_w16 mem (k + 2) = Some (w16_of (mem ! (2 * (k + 2))) (mem ! (2 * (k + 2) + 1)))" using L assms(4) by (intro rd_w16_Some) simp
  have w1: "rd_w16 mem (k + 1) = Some (w16_of c d)" using L assms(4) rd_w16_Some [of "k + 1" mem] by (simp add: cd numeral_3_eq_3)
  show ?case
  proof (cases "uint (mem ! (2 * (k + 2))) < 128")
    case True
    then have "red_lens rest = Some (1, 0)" using hr \<open>rest \<noteq> []\<close> by (cases rest rule: red_lens.cases) auto
    then have "h = 5" "s = unat c mod 4 * 256 + unat d" using r(2-4) by auto
    moreover have "red_skip mem bound k disc = Some (k, disc)"
      using True by (intro red_skip_stop [OF w2]) (simp add: w16_bit7)
    ultimately show ?thesis using L len by (intro exI [of _ k]) simp
  next
    case False
    have "w16_of (mem ! (2 * (k + 2))) (mem ! (2 * (k + 2) + 1)) AND 0x80 \<noteq> 0"
      using False byte_range [of "mem ! (2 * (k + 2))"] by (simp add: w16_bit7)
    moreover have "int k < bound" using L assms(5) by linarith
    ultimately have step: "red_skip mem bound k disc = red_skip mem bound (k + 2) (disc + (4 + int (red_len_at mem k)))"
      using w2 w1 red_len_word [of c d] unfolding len by (subst red_skip.simps) (simp only: option.case if_True simp_thms add.assoc)
    have next_header: "L - 2 * (k + 2) < L - 2 * k" "red_lens (drop (2 * (k + 2)) (take L mem)) = Some (h - 4, s - red_len_at mem k)"
      "2 * (k + 2) < L" using L r(2) by (simp_all only: rest len) simp_all
    obtain k' where "red_skip mem bound (k + 2) (disc + (4 + int (red_len_at mem k)))
        = Some (k', disc + (4 + int (red_len_at mem k)) + int (2 * (k' - (k + 2))) + int (s - red_len_at mem k) - int (red_len_at mem k'))"
      "k + 2 \<le> k'" "h - 4 = 2 * (k' - (k + 2)) + 5" "red_len_at mem k' \<le> s - red_len_at mem k" "2 * k' + 5 \<le> L"
      using less.hyps [OF next_header(1,2) False next_header(3), of "disc + (4 + int (red_len_at mem k))"] by blast
    then show ?thesis unfolding step using r(3,4) len by (intro exI [of _ k']) (auto simp: of_nat_diff)
  qed
qed

text \<open>Both payloads the splitter hands out then lie in the payload of the packet.\<close>

lemma red_main_inside:
  assumes "2 * k + 5 + n + m \<le> length mem"
  shows "packet_inside (p\<lparr>rtp_payload := drop (2 * nat (shr (5 + int n) 1)) (drop (2 * k) mem), rtp_starts_byte1 := (5 + int n) AND 0x1, rtp_payloadLen := int m\<rparr>)"
proof -
  define x y where "x = (5 + n) div 2" and "y = (5 + n) mod 2"
  have "(5 + int n) AND 1 = int y" using int_and_1 [of "5 + n"] by (simp add: zmod_int y_def)
  moreover have "nat (shr (5 + int n) 1) = x" by (simp add: shr_eq_div nat_div_as_int x_def)
  moreover have "2 * x + y = 5 + n" "y = 0 \<or> y = 1" by (auto simp: x_def y_def)
  ultimately show ?thesis using assms by (auto simp: packet_inside_def)
qed

lemma red_split_inside:
  assumes "red_complete p"
  shows "\<exists>hs k. WebRtcNetEQ_RedundancySplit [p, junk] = Some (0, hs, Some k) \<and> (k = 1 \<or> k = 2) \<and> length hs = 2
    \<and> list_all packet_inside (take (nat k) hs)"
proof -
  let ?mem = "rtp_payload p"
  define L where "L = nat (rtp_payloadLen p)"
  have L: "rtp_payloadLen p = int L" "0 < L" "L < 32768" "L < length ?mem"
    using assms by (auto simp: red_complete_def L_def)
  obtain h s where "red_lens (take L ?mem) = Some (h, s)" "int (h + s) \<le> int L"
    using assms unfolding red_complete_def L_def [symmetric] L(1) by (auto split: option.splits)
  then have r: "red_lens (take L ?mem) = Some (h, s)" "h + s \<le> L" by (simp_all only: of_nat_le_iff)
  have w0: "rd_w16 ?mem 0 = Some (w16_of (?mem ! 0) (?mem ! 1))" using L by (simp add: rd_w16_Some)
  show ?thesis
  proof (cases "uint (?mem ! 0) < 128")
    case True
    have "s16 (int L - 1) = int L - 1" using L by (intro s16_id) simp_all
    then show ?thesis using True w0 L
      by (auto simp: WebRtcNetEQ_RedundancySplit_def Let_def w16_bit7 clear_payloads_def packet_inside_def)
  next
    case False
    define bound where "bound = shr (rtp_payloadLen p + 1) 1"
    have b: "int L \<le> 2 * bound" "bound \<le> (int L + 1) div 2" using L by (simp_all add: bound_def shr_eq_div)
    have f: "\<not> uint (?mem ! (2 * 0)) < 128" "2 * 0 < L" "red_lens (drop (2 * 0) (take L ?mem)) = Some (h, s)" using False L r by simp_all
    from red_skip_chain [OF f(3,1,2) L(4) b(1), of 0] obtain k where k: "red_skip ?mem bound 0 0 = Some (k, int (2 * k) + int s - int (red_len_at ?mem k))"
      "h = 2 * k + 5" "red_len_at ?mem k \<le> s" "2 * k + 5 \<le> L" by auto
    define n where "n = red_len_at ?mem k"
    have e: "2 * (k + 1) = 2 * k + 2" "2 * k + 2 + 1 = 2 * k + 3" "2 * (k + 2) = 2 * k + 4" "2 * k + 4 + 1 = 2 * k + 5" by simp_all
    have lt: "2 * k + 1 < length ?mem" "2 * k + 3 < length ?mem" "2 * k + 5 < length ?mem" using k(4) L by simp_all
    have w: "rd_w16 ?mem k = Some (w16_of (?mem ! (2 * k)) (?mem ! (2 * k + 1)))"
      "rd_w16 ?mem (k + 1) = Some (w16_of (?mem ! (2 * k + 2)) (?mem ! (2 * k + 3)))"
      "rd_w16 ?mem (k + 2) = Some (w16_of (?mem ! (2 * k + 4)) (?mem ! (2 * k + 5)))"
      using rd_w16_Some [of k ?mem] rd_w16_Some [of "k + 1" ?mem] rd_w16_Some [of "k + 2" ?mem] lt unfolding e by blast+
    note len = red_len_word [of "?mem ! (2 * k + 2)" "?mem ! (2 * k + 3)", folded red_len_at_def, folded n_def]
    have nk: "\<not> bound \<le> int k" using k(4) b(1) by linarith
    have main: "s16 (int L - (int n + 5) - (int (2 * k) + int s - int n)) = int (L - h - s)"
      using r(2) k(2) L by (subst s16_id) auto
    have w0b: "\<not> w16_of (?mem ! 0) (?mem ! 1) AND 0x80 = 0" using False byte_range [of "?mem ! 0"] by (simp add: w16_bit7)
    let ?h1 = "\<lambda>pt. p\<lparr>rtp_payloadType := pt, rtp_payload := drop (2 * nat (shr (5 + int n) 1)) (drop (2 * k) ?mem),
        rtp_starts_byte1 := (5 + int n) AND 0x1, rtp_payloadLen := int (L - h - s)\<rparr>"
    let ?h2 = "\<lambda>pt ts. junk\<lparr>rtp_payloadType := pt, rtp_payload := drop (2 * 2) (drop (2 * k) ?mem), rtp_starts_byte1 := 1,
        rtp_seqNumber := rtp_seqNumber p, rtp_timeStamp := ts, rtp_ssrc := rtp_ssrc p, rtp_payloadLen := int n\<rparr>"
    define v0 v1 v2 where "v0 = w16_of (?mem ! (2 * k)) (?mem ! (2 * k + 1))" "v1 = w16_of (?mem ! (2 * k + 2)) (?mem ! (2 * k + 3))"
      "v2 = w16_of (?mem ! (2 * k + 4)) (?mem ! (2 * k + 5))"
    have g: "get [p, junk] 0 = Some p" "\<not> length [p, junk] < 2" "[p, junk] ! 1 = junk" by simp_all
    have "WebRtcNetEQ_RedundancySplit [p, junk] = Some (0, clear_payloads 2 ([p, junk]
      [0 := ?h1 (u16 v2 AND 0x7F), 1 := ?h2 (u16 v0 AND 0x7F) (u32 (rtp_timeStamp p - u16 (shr (u16 v0 AND 0xFF00) 2 + shr (u16 v1 AND 0xFC) 2)))]), Some 2)"
      by (simp only: WebRtcNetEQ_RedundancySplit_def g Option.bind_lunit Let_def w0 w0b if_False bound_def [symmetric]
          k(1) [folded n_def] prod.case nk w [folded v0_v1_v2_def] len [folded v0_v1_v2_def] main [folded L(1)])
    then have "\<exists>pt pt' ts. WebRtcNetEQ_RedundancySplit [p, junk] = Some (0, clear_payloads 2 [?h1 pt, ?h2 pt' ts], Some 2)"
      by (simp only: list_update_code One_nat_def) blast
    moreover have "packet_inside (?h1 pt)" for pt
      using red_main_inside [of k n "L - h - s" ?mem "p\<lparr>rtp_payloadType := pt\<rparr>"] r(2) k(2,3) L by (simp add: n_def)
    moreover have "packet_inside (?h2 pt' ts)" for pt' ts
      using r(2) k(2,3) L by (auto simp: packet_inside_def n_def)
    ultimately show ?thesis by (auto simp: clear_payloads_def)
  qed
qed

end
