(* ===== verification/Recin.thy ===== *)
theory Recin
  imports Mcu Red_Safe
begin

text \<open>
  The arrival of a packet (\<open>neteq/recin.c\<close>, \<open>WebRtcNetEQ_RecInInternal\<close>): a new source resets
  the stream, redundant payloads are split, timestamps are scaled, telephone events go to their
  queue and everything else into the packet buffer; then the statistics of inter-arrival
  times are updated.
\<close>

definition RECIN_CNG_ERROR :: int where "RECIN_CNG_ERROR = -3001"
definition RECIN_UNKNOWNPAYLOAD :: int where "RECIN_UNKNOWNPAYLOAD = -3002"
definition RECIN_SYNC_RTP_CHANGED_CODEC :: int where "RECIN_SYNC_RTP_CHANGED_CODEC = -3004"
definition RECIN_SYNC_RTP_NOT_ACCEPTABLE :: int where "RECIN_SYNC_RTP_NOT_ACCEPTABLE = -3005"

lemmas recin_errors = RECIN_CNG_ERROR_def RECIN_UNKNOWNPAYLOAD_def RECIN_SYNC_RTP_CHANGED_CODEC_def
  RECIN_SYNC_RTP_NOT_ACCEPTABLE_def

section \<open>Access to the nested state\<close>

abbreviation mc_Automode :: "mcu \<Rightarrow> automode" where
  "mc_Automode m \<equiv> bs_Automode (mc_BufferStat m)"

definition set_Automode :: "automode \<Rightarrow> mcu \<Rightarrow> mcu" where
  "set_Automode am m = m\<lparr>mc_BufferStat := (mc_BufferStat m)\<lparr>bs_Automode := am\<rparr>\<rparr>"

definition set_lastPack :: "int \<Rightarrow> mcu \<Rightarrow> mcu" where
  "set_lastPack v m = set_Automode ((mc_Automode m)\<lparr>am_lastPackCNGorDTMF := v\<rparr>) m"

definition mc_flush :: "mcu \<Rightarrow> mcu" where
  "mc_flush m = m\<lparr>mc_PacketBuffer := snd (WebRtcNetEQ_PacketBufferFlush (mc_PacketBuffer m))\<rparr>"

section \<open>A new source, and redundant payloads\<close>

definition recin_new_source :: "mcu \<Rightarrow> rtp_packet \<Rightarrow> mcu" where
  "recin_new_source m p =
     (if rtp_ssrc p \<noteq> mc_ssrc m \<or> mc_first_packet m = 1
      then (mc_flush (m\<lparr>mc_RTCP := WebRtcNetEQ_RTCPInit (rtp_seqNumber p), mc_first_packet := 0\<rparr>))
        \<lparr>mc_ssrc := rtp_ssrc p, mc_timeStamp := rtp_timeStamp p,
         mc_current_Payload := s16 (rtp_payloadType p), mc_new_codec := 1, mc_TSscalingInitialized := 0\<rparr>
      else m)"

text \<open>
  The two local packets, the second one uninitialised; the result is an error (\<open>Inl\<close>) or the
  packets, how many of them to use, and \<open>isREDPayload\<close>.
\<close>

definition recin_red :: "codec_db \<Rightarrow> bool \<Rightarrow> rtp_packet \<Rightarrow> rtp_packet \<Rightarrow> (int + rtp_packet list \<times> nat \<times> bool) option" where
  "recin_red db is_sync_rtp p junk = do {
     red \<leftarrow> WebRtcNetEQ_DbGetPayload db kDecoderRED;
     if rtp_payloadType p \<noteq> red then Some (Inr ([p, junk], 1, False))
     else if is_sync_rtp then Some (Inl RECIN_SYNC_RTP_NOT_ACCEPTABLE)
     else do {
       (i_ok, hs, n) \<leftarrow> WebRtcNetEQ_RedundancySplit [p, junk];
       if i_ok < 0 then Some (Inl i_ok)
       else do {
         avt \<leftarrow> WebRtcNetEQ_DbGetPayload db kDecoderAVT;
         h0 \<leftarrow> get hs 0; h1 \<leftarrow> get hs 1;
         k \<leftarrow> n;
         Some (Inr (hs, if k > 1 \<and> rtp_payloadType h0 \<noteq> rtp_payloadType h1
             \<and> rtp_payloadType h0 \<noteq> avt \<and> rtp_payloadType h1 \<noteq> avt
             \<and> \<not> WebRtcNetEQ_DbIsCNGPayload db (rtp_payloadType h0)
             \<and> \<not> WebRtcNetEQ_DbIsCNGPayload db (rtp_payloadType h1) then 1 else nat k, True)) } } }"

section \<open>One payload\<close>

text \<open>Every part returns the code of an early return, or 0 to go on, with the new state.\<close>

definition recin_split_info :: "mcu \<Rightarrow> rtp_packet \<Rightarrow> bool \<Rightarrow> (int \<times> mcu) option" where
  "recin_split_info m p is_sync_rtp = do {
     ilbc \<leftarrow> WebRtcNetEQ_DbGetPayload (mc_codec_DB m) kDecoderILBC;
     if rtp_payloadType p = ilbc \<and> \<not> is_sync_rtp
     then do {
       c \<leftarrow> WebRtcNetEQ_DbGetCodec (mc_codec_DB m) (rtp_payloadType p);
       let (i_ok, s) = WebRtcNetEQ_DbGetSplitInfo (mc_PayloadSplit m) c (rtp_payloadLen p)
       in Some (if i_ok < 0 then i_ok else 0, m\<lparr>mc_PayloadSplit := s\<rparr>) }
     else Some (0, m) }"

definition recin_scale :: "mcu \<Rightarrow> rtp_packet \<Rightarrow> mcu \<times> rtp_packet" where
  "recin_scale m p =
     (let m = (if mc_TSscalingInitialized m = 0 \<and> mc_scalingFactor m \<noteq> kTSnoScaling
               then m\<lparr>mc_externalTS := rtp_timeStamp p, mc_internalTS := rtp_timeStamp p,
                      mc_TSscalingInitialized := 1\<rparr> else m)
      in if mc_TSscalingInitialized m = 1
         then let newTS = WebRtcNetEQ_ScaleTimestampExternalToInternal m (rtp_timeStamp p)
              in (m\<lparr>mc_externalTS := rtp_timeStamp p, mc_internalTS := newTS\<rparr>, p\<lparr>rtp_timeStamp := newTS\<rparr>)
         else (m, p))"

definition recin_dtmf :: "mcu \<Rightarrow> rtp_packet \<Rightarrow> bool \<Rightarrow> (int \<times> mcu) option" where
  "recin_dtmf m p is_sync_rtp =
     (if is_sync_rtp then Some (RECIN_SYNC_RTP_NOT_ACCEPTABLE, m)
      else do {
        (i_ok, dtmf) \<leftarrow> (if mc_AVT_PlayoutOn m \<noteq> 0
          then WebRtcNetEQ_DtmfInsertEvent (mc_DTMF m) (rtp_payload p) (rtp_payloadLen p) (rtp_timeStamp p)
          else Some (0, mc_DTMF m));
        let m = m\<lparr>mc_DTMF := dtmf\<rparr>
        in if i_ok \<noteq> 0 then Some (i_ok, m)
           else Some (0, if mc_usingStereo m = 0 then set_lastPack 1 m else m) })"

definition recin_cng :: "mcu \<Rightarrow> rtp_packet \<Rightarrow> bool \<Rightarrow> int \<Rightarrow> (int \<times> mcu \<times> int) option" where
  "recin_cng m p is_sync_rtp flushed = do {
     fs \<leftarrow> WebRtcNetEQ_DbGetSampleRate (mc_codec_DB m) (rtp_payloadType p);
     if is_sync_rtp then Some (RECIN_SYNC_RTP_NOT_ACCEPTABLE, m, flushed)
     else let fsCng = min (u16 fs) 32000;
              m = (if fsCng \<noteq> mc_fs m \<and> fsCng > 8000
                   then (mc_flush m)\<lparr>mc_new_codec := 1, mc_current_Codec := -1\<rparr> else m)
          in do {
            (i_ok, flushed, b) \<leftarrow> WebRtcNetEQ_PacketBufferInsert (mc_PacketBuffer m) p (mc_av_sync m);
            let m = m\<lparr>mc_PacketBuffer := b\<rparr>
            in Some (if i_ok < 0 then (RECIN_CNG_ERROR, m, flushed) else (0, set_lastPack 1 m, flushed)) } }"

text \<open>A change of the codec in use: new splitting rules and an empty buffer.\<close>

definition recin_codec_change :: "mcu \<Rightarrow> rtp_packet \<Rightarrow> bool \<Rightarrow> int \<Rightarrow> int \<times> mcu" where
  "recin_codec_change m p is_sync_rtp curr_Codec =
     (if curr_Codec = mc_current_Codec m then (0, m)
      else if curr_Codec < 0 then (RECIN_UNKNOWNPAYLOAD, m)
      else if is_sync_rtp then (RECIN_SYNC_RTP_CHANGED_CODEC, m)
      else let m = m\<lparr>mc_current_Codec := curr_Codec, mc_current_Payload := s16 (rtp_payloadType p)\<rparr>;
               (i_ok, s) = WebRtcNetEQ_DbGetSplitInfo (mc_PayloadSplit m) curr_Codec (rtp_payloadLen p);
               m = m\<lparr>mc_PayloadSplit := s\<rparr>
           in if i_ok < 0 then (i_ok, m) else (0, (mc_flush m)\<lparr>mc_new_codec := 1\<rparr>))"

definition recin_speech :: "mcu \<Rightarrow> rtp_packet \<Rightarrow> bool \<Rightarrow> int \<Rightarrow> (int \<times> mcu \<times> int) option" where
  "recin_speech m p is_sync_rtp flushed = do {
     curr_Codec \<leftarrow> WebRtcNetEQ_DbGetCodec (mc_codec_DB m) (rtp_payloadType p);
     let (i_ok, m) = recin_codec_change m p is_sync_rtp curr_Codec
     in if i_ok \<noteq> 0 then Some (i_ok, m, flushed)
        else do {
          (i_ok, flushed, b) \<leftarrow> WebRtcNetEQ_SplitAndInsertPayload p (mc_PacketBuffer m) (mc_PayloadSplit m) (mc_av_sync m);
          let m = m\<lparr>mc_PacketBuffer := b\<rparr>
          in Some (if i_ok < 0 then (i_ok, m, flushed)
                   else (0, if am_lastPackCNGorDTMF (mc_Automode m) \<noteq> 0 then set_lastPack (-1) m else m, flushed)) } }"

definition recin_payload :: "mcu \<Rightarrow> rtp_packet \<Rightarrow> bool \<Rightarrow> int \<Rightarrow> (int \<times> mcu \<times> rtp_packet \<times> int) option" where
  "recin_payload m p is_sync_rtp flushed = do {
     (i_ok, m) \<leftarrow> recin_split_info m p is_sync_rtp;
     if i_ok \<noteq> 0 then Some (i_ok, m, p, flushed)
     else do {
       (i_ok, m) \<leftarrow> WebRtcNetEQ_GetTimestampScaling m (rtp_payloadType p);
       if i_ok < 0 then Some (i_ok, m, p, flushed)
       else let (m, p) = recin_scale m p
       in do {
         avt \<leftarrow> WebRtcNetEQ_DbGetPayload (mc_codec_DB m) kDecoderAVT;
         (i_ok, m, flushed) \<leftarrow> (if rtp_payloadType p = avt
           then do { (i_ok, m) \<leftarrow> recin_dtmf m p is_sync_rtp; Some (i_ok, m, flushed) }
           else if WebRtcNetEQ_DbIsCNGPayload (mc_codec_DB m) (rtp_payloadType p)
           then recin_cng m p is_sync_rtp flushed
           else recin_speech m p is_sync_rtp flushed);
         if i_ok \<noteq> 0 then Some (i_ok, m, p, flushed)
         else Some (0, if flushed \<noteq> 0 then m\<lparr>mc_new_codec := 1\<rparr> else m, p, flushed) } } }"

fun recin_payloads :: "bool \<Rightarrow> bool \<Rightarrow> nat \<Rightarrow> rtp_packet list \<Rightarrow> mcu \<Rightarrow> int \<Rightarrow>
    (int \<times> mcu \<times> rtp_packet list) option" where
  "recin_payloads isRED is_sync_rtp i_k [] m flushed = Some (0, m, [])"
| "recin_payloads isRED is_sync_rtp i_k (p # ps) m flushed = do {
     (i_ok, m, p, flushed) \<leftarrow> recin_payload m (p\<lparr>rtp_rcuPlCntr := (if isRED then int i_k else 0)\<rparr>) is_sync_rtp flushed;
     if i_ok \<noteq> 0 then Some (i_ok, m, p # ps)
     else do {
       (i_ok, m, ps) \<leftarrow> recin_payloads isRED is_sync_rtp (Suc i_k) ps m flushed;
       Some (i_ok, m, p # ps) } }"

section \<open>Statistics after the insertion\<close>

text \<open>
  The bandwidth estimate of the codec, if it has one.  Its state lies behind a pointer; what
  is modelled is that the payload is moved down by a byte first when it does not start on a
  word, which is out of bounds (\<open>None\<close>) when the payload memory is too short.
\<close>

definition recin_bandwidth :: "codec_db \<Rightarrow> rtp_packet \<Rightarrow> bool \<Rightarrow> unit option" where
  "recin_bandwidth db p is_sync_rtp =
     (if is_sync_rtp then Some ()
      else do {
        curr_Codec \<leftarrow> WebRtcNetEQ_DbGetCodec db (rtp_payloadType p);
        if curr_Codec < 0 then Some ()
        else do {
          codecPos \<leftarrow> geti (db_position db) curr_Codec;
          e \<leftarrow> geti (db_entries db) codecPos;
          if funcUpdBWEst (db_funcs e) \<noteq> 0 \<and> rtp_starts_byte1 p \<noteq> 0
             \<and> rtp_payloadLen p > 0 \<and> int (length (rtp_payload p)) \<le> rtp_payloadLen p
          then None else Some () } })"

definition recin_statistics ::
    "(int \<Rightarrow> int \<Rightarrow> byte list \<Rightarrow> int \<Rightarrow> int) \<Rightarrow> int \<Rightarrow> mcu \<Rightarrow> rtp_packet \<Rightarrow> mcu option" where
  "recin_statistics call_duration old_bufsize m p =
     (if am_lastPackCNGorDTMF (mc_Automode m) = 0
      then do {
        new_bufsize \<leftarrow> WebRtcNetEQ_PacketBufferGetSize call_duration (mc_PacketBuffer m) (mc_codec_DB m) (mc_av_sync m);
        let temp_bufsize = s32 (new_bufsize - old_bufsize);
            m = (if temp_bufsize > 0 \<and> temp_bufsize \<noteq> am_packetSpeechLenSamp (mc_Automode m)
                 then set_Automode (snd (WebRtcNetEQ_SetPacketSpeechLen (mc_Automode m) (s16 temp_bufsize) (mc_fs m))) m
                 else m)
        in Some (if s32 (rtp_timeStamp p - mc_timeStamp m) \<ge> 0 \<and> mc_new_codec m = 0
                 then set_Automode (snd (WebRtcNetEQ_UpdateIatStatistics (mc_Automode m)
                        (int (pb_maxInsertPositions (mc_PacketBuffer m))) (rtp_seqNumber p) (rtp_timeStamp p)
                        (mc_fs m) (WebRtcNetEQ_DbIsMDCodec (mc_current_Codec m))
                        (mc_NetEqPlayoutMode m = kPlayoutStreaming))) m
                 else m) }
      else if am_lastPackCNGorDTMF (mc_Automode m) = -1
      then Some (set_Automode ((mc_Automode m)\<lparr>am_lastPackCNGorDTMF := 0, am_packetIatCountSamp := 0\<rparr>) m)
      else Some m)"

section \<open>The arrival of a packet\<close>

definition WebRtcNetEQ_RecInInternal ::
    "(int \<Rightarrow> int \<Rightarrow> byte list \<Rightarrow> int \<Rightarrow> int) \<Rightarrow> rtp_packet \<Rightarrow> mcu \<Rightarrow> rtp_packet \<Rightarrow> int \<Rightarrow> (int \<times> mcu) option" where
  "WebRtcNetEQ_RecInInternal call_duration junk m p uw32_timeRec =
     (let is_sync_rtp = mc_av_sync m \<and> WebRtcNetEQ_IsSyncPayload (rtp_payload p) (rtp_payloadLen p)
      in do {
        temp_bufsize \<leftarrow> WebRtcNetEQ_PacketBufferGetSize call_duration (mc_PacketBuffer m) (mc_codec_DB m) (mc_av_sync m);
        let m = recin_new_source m p;
            m = (if is_sync_rtp then m
                 else m\<lparr>mc_RTCP := WebRtcNetEQ_RTCPUpdate (mc_RTCP m) (rtp_seqNumber p) (rtp_timeStamp p) uw32_timeRec\<rparr>)
        in do {
          r \<leftarrow> recin_red (mc_codec_DB m) is_sync_rtp p junk;
          case r of
            Inl i_ok \<Rightarrow> Some (i_ok, m)
          | Inr (hs, n, isRED) \<Rightarrow> do {
              (i_ok, m, ps) \<leftarrow> recin_payloads isRED is_sync_rtp 0 (take n hs) m 0;
              if i_ok \<noteq> 0 then Some (i_ok, m)
              else do {
                h0 \<leftarrow> get (ps @ drop n hs) 0;
                recin_bandwidth (mc_codec_DB m) h0 is_sync_rtp;
                m \<leftarrow> recin_statistics call_duration temp_bufsize m h0;
                Some (0, m) } } } })"

section \<open>Look-ups of a well-formed database\<close>

lemma found_ok: "db_abs db c = Some e \<Longrightarrow> codec_ok c \<and> db_position db ! nat c \<noteq> -1"
  by (auto simp: db_abs_def split: if_splits)

text \<open>The codec of a payload type is unknown, or has an entry at a valid position.\<close>

lemma get_codec_entry:
  assumes "db_inv db" "db_cng_ok db"
  obtains (unknown) "WebRtcNetEQ_DbGetCodec db pt = Some CODEC_DB_NOT_EXIST3"
  | (known) c pos e where "WebRtcNetEQ_DbGetCodec db pt = Some c" "codec_ok c"
      "geti (db_position db) c = Some pos" "0 \<le> pos" "geti (db_entries db) pos = Some e"
proof -
  note inv = db_inv_rules [OF assms(1)]
  have entry: thesis if "WebRtcNetEQ_DbGetCodec db pt = Some c" "db_abs db c \<noteq> None" for c
  proof -
    have c: "codec_ok c" "db_position db ! nat c \<noteq> -1" using that(2) found_ok by auto
    then have "nat c < NUM_TOTAL_CODECS" by (auto simp: codec_ok_def)
    note pos = inv(6) [OF this c(2)]
    have "db_position db ! nat c < int (length (db_entries db))"
      using pos db_count [OF assms(1)] inv(2) by simp
    then show thesis
      by (intro known [OF that(1) c(1) codec_position [OF assms(1) c(1)]]) (use pos in auto)
  qed
  show thesis
    using assms(1)
  proof (cases rule: get_codec_cases [where pt = pt])
    case (found c e)
    then show thesis by (intro entry) auto
  next
    case absent
    then show thesis using entry [of kDecoderCNG] unknown assms(2)
      by (cases "WebRtcNetEQ_DbIsCNGPayload db pt") (auto simp: db_cng_ok_def)
  qed
qed

lemma get_payload_some: "db_inv db \<Longrightarrow> codec_ok c \<Longrightarrow> \<exists>pt. WebRtcNetEQ_DbGetPayload db c = Some pt"
  by (simp add: get_payload_abs)

lemma sample_rate_some:
  assumes "db_inv db" "db_cng_ok db"
  shows "\<exists>fs. WebRtcNetEQ_DbGetSampleRate db pt = Some fs"
proof (cases "db_cng_rate (db_CNGpayloadType db) pt 0")
  case None
  show ?thesis
    using assms
  proof (cases rule: get_codec_entry [where pt = pt])
    case unknown
    then show ?thesis using None by (simp add: WebRtcNetEQ_DbGetSampleRate_def db_errors)
  next
    case (known c pos e)
    have "0 \<le> c" using known(2) by (simp add: codec_ok_def)
    then show ?thesis using None known(1) get_ptrs_abs [OF assms(1) known(2), of "(null_funcs, 0)"]
      by (auto simp: WebRtcNetEQ_DbGetSampleRate_def split: option.splits)
  qed
qed (simp add: WebRtcNetEQ_DbGetSampleRate_def)

section \<open>The size of the buffer\<close>

lemma sum_sizes_some:
  assumes "db_inv db" "db_cng_ok db" "lc < 0 \<or> (\<exists>e. geti (db_entries db) lc = Some e)"
    "i + length ss \<le> length (pb_slots b)"
  shows "\<exists>n. pb_sum_sizes f b db av ss i (d, lc, lp) sz = Some n"
  using assms(3,4)
proof (induction ss arbitrary: i d lc lp sz)
  case (Cons s ss)
  define cp where "cp = (if sl_payloadType s = lp then Some lc
          else do { c \<leftarrow> WebRtcNetEQ_DbGetCodec db (sl_payloadType s);
                    if c \<ge> 0 then geti (db_position db) c else Some c })"
  obtain k where k: "cp = Some k" "k < 0 \<or> (\<exists>e. geti (db_entries db) k = Some e)"
  proof (cases "sl_payloadType s = lp")
    case True
    then show thesis using that [of lc] Cons.prems(1) by (simp add: cp_def)
  next
    case False
    show thesis
      using assms(1,2)
    proof (cases rule: get_codec_entry [where pt = "sl_payloadType s"])
      case unknown
      then show thesis using False that [of CODEC_DB_NOT_EXIST3] by (simp add: cp_def db_errors)
    next
      case (known c pos e)
      then show thesis using False that [of pos] by (simp add: cp_def codec_ok_def)
    qed
  qed
  obtain dur where dur: "(if k \<ge> 0 then do {
            e \<leftarrow> WebRtcNetEQ_PacketBufferGetPacketSize f b i db k d av;
            Some (if e \<ge> 0 then e else d) } else Some d) = Some dur"
  proof (cases "k \<ge> 0")
    case True
    then obtain e where "geti (db_entries db) k = Some e" using k(2) by auto
    then have "\<exists>x. WebRtcNetEQ_PacketBufferGetPacketSize f b i db k d av = Some x"
      using Cons.prems(2) by (simp add: WebRtcNetEQ_PacketBufferGetPacketSize_def Let_def)
    then show thesis using that True by auto
  qed auto
  show ?case
  proof (cases "sl_used s")
    case True
    then show ?thesis
      unfolding pb_sum_sizes.simps cp_def [symmetric] k(1) Option.bind_lunit dur
      using Cons.IH [OF k(2), of "Suc i"] Cons.prems(2) by simp
  next
    case False
    then show ?thesis using Cons.IH [OF Cons.prems(1), of "Suc i"] Cons.prems(2) by simp
  qed
qed simp

lemma buffer_size_some:
  assumes "db_inv db" "db_cng_ok db"
  shows "\<exists>n. WebRtcNetEQ_PacketBufferGetSize f b db av = Some n"
  using sum_sizes_some [OF assms, of "-1" 0 "pb_slots b" b f av "pb_packSizeSamples b" "-1" 0]
  by (auto simp: WebRtcNetEQ_PacketBufferGetSize_def)

section \<open>Every arrival keeps the control side well formed\<close>

text \<open>The parts of the state no part of an arrival changes.\<close>

definition mc_frame :: "mcu \<Rightarrow> mcu \<Rightarrow> bool" where
  "mc_frame m m' \<longleftrightarrow> mc_codec_DB m' = mc_codec_DB m \<and> mc_av_sync m' = mc_av_sync m
     \<and> pb_memorySizeW16 (mc_PacketBuffer m') = pb_memorySizeW16 (mc_PacketBuffer m)"

lemma mc_frame_refl [simp]: "mc_frame m m"
  by (simp add: mc_frame_def)

lemma mc_frame_trans: "mc_frame a b \<Longrightarrow> mc_frame b c \<Longrightarrow> mc_frame a c"
  by (simp add: mc_frame_def)

lemma flush_size [simp]:
  "pb_memorySizeW16 (snd (WebRtcNetEQ_PacketBufferFlush b)) = pb_memorySizeW16 b"
  by (simp add: WebRtcNetEQ_PacketBufferFlush_def)

lemma am_inv_fields [simp]:
  "am_inv (am\<lparr>am_lastPackCNGorDTMF := v\<rparr>) = am_inv am"
  "am_inv (am\<lparr>am_lastPackCNGorDTMF := v, am_packetIatCountSamp := w\<rparr>) = am_inv am"
  by (simp_all add: am_inv_def)

text \<open>A state well formed and with the same frame.\<close>

definition mc_step :: "mcu \<Rightarrow> mcu \<Rightarrow> bool" where
  "mc_step m m' \<longleftrightarrow> mcu_inv m' \<and> mc_frame m m'"

lemma mc_step_refl: "mcu_inv m \<Longrightarrow> mc_step m m"
  by (simp add: mc_step_def)

lemma mc_step_trans: "mc_step a b \<Longrightarrow> mc_step b c \<Longrightarrow> mc_step a c"
  by (auto simp: mc_step_def intro: mc_frame_trans)

named_theorems mc_steps "steps that keep the state well formed"

lemma mc_step_flush [mc_steps]: "mcu_inv m \<Longrightarrow> mc_step m (mc_flush m)"
  by (simp add: mc_step_def mc_flush_def mcu_inv_def wt_inv_def mc_frame_def flush_inv)

lemma mc_step_automode [mc_steps]: "mcu_inv m \<Longrightarrow> am_inv am \<Longrightarrow> mc_step m (set_Automode am m)"
  by (simp add: mc_step_def set_Automode_def mcu_inv_def wt_inv_def mc_frame_def)

lemma mc_am_inv: "mcu_inv m \<Longrightarrow> am_inv (mc_Automode m)"
  by (simp add: mcu_inv_def)

lemma mc_step_lastPack [mc_steps]: "mcu_inv m \<Longrightarrow> mc_step m (set_lastPack v m)"
  unfolding set_lastPack_def by (rule mc_step_automode) (simp_all add: mc_am_inv)

lemma mc_step_new_codec [mc_steps]: "mcu_inv m \<Longrightarrow> mc_step m (m\<lparr>mc_new_codec := v\<rparr>)"
  by (simp add: mc_step_def mcu_inv_def wt_inv_def mc_frame_def)

lemma mc_step_split: "mcu_inv m \<Longrightarrow> split_ok s \<Longrightarrow> mc_step m (m\<lparr>mc_PayloadSplit := s\<rparr>)"
  by (auto simp: mc_step_def mcu_inv_def wt_inv_def mc_frame_def)

lemma mc_step_buffer:
  "mcu_inv m \<Longrightarrow> pb_inv b \<Longrightarrow> pb_memorySizeW16 b = pb_memorySizeW16 (mc_PacketBuffer m) \<Longrightarrow>
   mc_step m (m\<lparr>mc_PacketBuffer := b\<rparr>)"
  by (simp add: mc_step_def mcu_inv_def wt_inv_def mc_frame_def)

lemma mc_step_dtmf: "mcu_inv m \<Longrightarrow> dtmf_inv d \<Longrightarrow> mc_step m (m\<lparr>mc_DTMF := d\<rparr>)"
  by (simp add: mc_step_def mcu_inv_def wt_inv_def mc_frame_def)

lemma mc_step_inv: "mc_step m m' \<Longrightarrow> mcu_inv m'"
  by (simp add: mc_step_def)

lemma mc_inv_parts:
  assumes "mcu_inv m"
  shows "db_inv (mc_codec_DB m)" "db_cng_ok (mc_codec_DB m)" "pb_inv (mc_PacketBuffer m)" "dtmf_inv (mc_DTMF m)"
    "mc_current_Codec m = -1 \<or> split_ok (mc_PayloadSplit m)"
  using assms by (auto simp: mcu_inv_def)

lemma split_info_keeps:
  assumes "WebRtcNetEQ_DbGetSplitInfo s0 c len = (r, s)" "r = 0 \<or> c \<noteq> kDecoderILBC"
  shows "split_ok s"
  using assms
  by (simp add: WebRtcNetEQ_DbGetSplitInfo_def ilbc_split_def split_ok_def AMBIGUOUS_ILBC_FRAME_SIZE_def
      split: if_splits) auto

lemma step_new_source: "mcu_inv m \<Longrightarrow> mc_step m (recin_new_source m p)"
  by (simp add: recin_new_source_def mc_step_def mc_flush_def mcu_inv_def wt_inv_def mc_frame_def flush_inv)

lemma step_split_info:
  assumes "mcu_inv m"
  shows "\<exists>r m'. recin_split_info m p sync = Some (r, m') \<and> mc_step m m' \<and> r \<le> 0"
proof -
  note inv = mc_inv_parts [OF assms]
  obtain ilbc where ilbc: "WebRtcNetEQ_DbGetPayload (mc_codec_DB m) kDecoderILBC = Some ilbc"
    using get_payload_some [OF inv(1), of kDecoderILBC] by (auto simp: codec_ok_def)
  obtain c where c: "WebRtcNetEQ_DbGetCodec (mc_codec_DB m) (rtp_payloadType p) = Some c"
    using get_codec_total [OF inv(1)] by metis
  obtain r s where rs: "WebRtcNetEQ_DbGetSplitInfo (mc_PayloadSplit m) c (rtp_payloadLen p) = (r, s)" by fastforce
  have keep: "mc_step m (m\<lparr>mc_PayloadSplit := s\<rparr>)"
  proof (cases "s = mc_PayloadSplit m")
    case True
    then have "m\<lparr>mc_PayloadSplit := s\<rparr> = m" by simp
    then show ?thesis using mc_step_refl [OF assms] by simp
  next
    case False
    then have "r = 0 \<or> c \<noteq> kDecoderILBC"
      using rs by (auto simp: WebRtcNetEQ_DbGetSplitInfo_def ilbc_split_def split: if_splits)
    then show ?thesis using mc_step_split [OF assms split_info_keeps [OF rs]] by simp
  qed
  show ?thesis
    unfolding recin_split_info_def ilbc c Option.bind_lunit rs prod.case
    using keep mc_step_refl [OF assms] by (auto simp: Let_def)
qed

lemma step_scaling:
  assumes "mcu_inv m"
  shows "\<exists>r m'. WebRtcNetEQ_GetTimestampScaling m pt = Some (r, m') \<and> mc_step m m'"
proof -
  note inv = mc_inv_parts [OF assms]
  obtain c where c: "WebRtcNetEQ_DbGetCodec (mc_codec_DB m) pt = Some c" using get_codec_total [OF inv(1)] by metis
  obtain fs where fs: "WebRtcNetEQ_DbGetSampleRate (mc_codec_DB m) pt = Some fs"
    using sample_rate_some [OF inv(1,2)] by metis
  have "mc_step m (m\<lparr>mc_scalingFactor := k\<rparr>)" for k
    using assms by (simp add: mc_step_def mcu_inv_def wt_inv_def mc_frame_def)
  then show ?thesis
    using mc_step_refl [OF assms] by (simp add: WebRtcNetEQ_GetTimestampScaling_def c fs)
qed

lemma mc_step_ts:
  assumes "mcu_inv m"
  shows "mc_step m (m\<lparr>mc_externalTS := a, mc_internalTS := b\<rparr>)"
    "mc_step m (m\<lparr>mc_TSscalingInitialized := c, mc_externalTS := a, mc_internalTS := b\<rparr>)"
  using assms by (simp_all add: mc_step_def mcu_inv_def wt_inv_def mc_frame_def)

lemma step_scale:
  assumes "mcu_inv m" "recin_scale m p = (m', p')"
  shows "mc_step m m'" "\<exists>ts. p' = p\<lparr>rtp_timeStamp := ts\<rparr>"
proof -
  have same: "\<exists>ts. p = p\<lparr>rtp_timeStamp := ts\<rparr>" by (rule exI [of _ "rtp_timeStamp p"]) simp
  have "mc_step m m' \<and> (\<exists>ts. p' = p\<lparr>rtp_timeStamp := ts\<rparr>)"
    using assms(2) same mc_step_ts [OF assms(1)] mc_step_refl [OF assms(1)]
    unfolding recin_scale_def Let_def by (auto split: if_splits)
  then show "mc_step m m'" "\<exists>ts. p' = p\<lparr>rtp_timeStamp := ts\<rparr>" by simp_all
qed

text \<open>The payload of a packet lies in its memory, whatever its time stamp.\<close>

lemma inside_fields [simp]:
  "packet_inside (p\<lparr>rtp_timeStamp := ts\<rparr>) = packet_inside p"
  "packet_inside (p\<lparr>rtp_rcuPlCntr := k\<rparr>) = packet_inside p"
  by (simp_all add: packet_inside_def)

lemma dtmf_event_safe:
  assumes "dtmf_inv d" "len = 4 \<longrightarrow> 4 \<le> length bs"
  shows "\<exists>r d'. WebRtcNetEQ_DtmfInsertEvent d bs len ts = Some (r, d') \<and> dtmf_inv d' \<and> r \<le> 0"
proof (cases "len = 4")
  case True
  then have bs: "4 \<le> length bs" using assms(2) by simp
  obtain w0 w1 where w: "rd_w16 bs 0 = Some w0" "rd_w16 bs 1 = Some w1" using bs by (simp add: rd_w16_Some)
  define val vol fin dur where "val = w0 AND 0xFF" and "vol = shr (w0 AND 0x3F00) 8"
    and "fin = shr (w0 AND 0x8000) 15" and "dur = s16 ((shr (u16 w1) 8 AND 0xFF) OR shl (u16 (w1 AND 0xFF)) 8)"
  have "fin = w0 div 2 ^ 15 mod 2 ^ 1" "vol = w0 div 2 ^ 8 mod 2 ^ 6"
    using shr_and_field [where x = w0 and m = 1 and n = 15] shr_and_field [where x = w0 and m = 6 and n = 8] by (simp_all add: fin_def vol_def)
  then have f: "fin \<in> {0, 1}" "0 \<le> vol" by auto
  have eq: "WebRtcNetEQ_DtmfInsertEvent d bs len ts = (if val < 0 \<or> val > 15 then Some (0, d)
      else if vol > 36 then Some (0, d) else do { d' \<leftarrow> dtmf_insert d val vol fin dur ts; Some (0, d') })"
    unfolding WebRtcNetEQ_DtmfInsertEvent_def w Option.bind_lunit Let_def val_def vol_def fin_def dur_def
    using True by simp
  show ?thesis
  proof (cases "val < 0 \<or> val > 15 \<or> vol > 36")
    case True
    then show ?thesis unfolding eq using assms(1) by auto
  next
    case False
    obtain d' where "dtmf_insert d val vol fin dur ts = Some d'" "dtmf_inv d'"
      by (rule dtmf_insert_spec [OF assms(1), of val vol fin dur ts]) (use False f in auto)
    then show ?thesis unfolding eq using False by auto
  qed
next
  case False
  then show ?thesis using assms(1) by (simp add: WebRtcNetEQ_DtmfInsertEvent_def DTMF_INSERT_ERROR_def)
qed

lemma step_dtmf:
  assumes "mcu_inv m" "packet_inside p"
  shows "\<exists>r m'. recin_dtmf m p sync = Some (r, m') \<and> mc_step m m'"
proof -
  have "rtp_payloadLen p = 4 \<longrightarrow> 4 \<le> length (rtp_payload p)" using assms(2) by (auto simp: packet_inside_def)
  from dtmf_event_safe [OF mc_inv_parts(4) [OF assms(1)] this]
  obtain r d where d: "WebRtcNetEQ_DtmfInsertEvent (mc_DTMF m) (rtp_payload p) (rtp_payloadLen p) (rtp_timeStamp p)
      = Some (r, d)" "dtmf_inv d" by blast
  obtain r' d' where ev: "(if mc_AVT_PlayoutOn m \<noteq> 0
      then WebRtcNetEQ_DtmfInsertEvent (mc_DTMF m) (rtp_payload p) (rtp_payloadLen p) (rtp_timeStamp p)
      else Some (0, mc_DTMF m)) = Some (r', d')" "dtmf_inv d'"
    using d mc_inv_parts(4) [OF assms(1)] by (cases "mc_AVT_PlayoutOn m = 0") auto
  have step: "mc_step m (m\<lparr>mc_DTMF := d'\<rparr>)" by (rule mc_step_dtmf [OF assms(1) ev(2)])
  note last = mc_step_trans [OF step mc_step_lastPack [OF mc_step_inv [OF step], of 1]]
  show ?thesis
    unfolding recin_dtmf_def ev(1) Option.bind_lunit prod.case Let_def
    using step last mc_step_refl [OF assms(1)] by auto
qed

lemma step_insert:
  assumes "mcu_inv m" "packet_inside p"
  obtains r fl b where "WebRtcNetEQ_PacketBufferInsert (mc_PacketBuffer m) p av = Some (r, fl, b)"
    "mc_step m (m\<lparr>mc_PacketBuffer := b\<rparr>)"
proof -
  obtain r fl b where b: "WebRtcNetEQ_PacketBufferInsert (mc_PacketBuffer m) p av = Some (r, fl, b)" "pb_inv b"
    using pbsafe.ins_inside [OF mc_inv_parts(3) [OF assms(1)] assms(2)] by blast
  then show thesis using mc_step_buffer [OF assms(1) b(2)] insert_memory_size [OF b(1)] by (intro that) simp_all
qed

lemma step_cng:
  assumes "mcu_inv m" "packet_inside p"
  shows "\<exists>r m' fl'. recin_cng m p sync fl = Some (r, m', fl') \<and> mc_step m m'"
proof -
  note inv = mc_inv_parts [OF assms(1)]
  obtain fs where fs: "WebRtcNetEQ_DbGetSampleRate (mc_codec_DB m) (rtp_payloadType p) = Some fs"
    using sample_rate_some [OF inv(1,2)] by metis
  define m1 where "m1 = (if min (u16 fs) 32000 \<noteq> mc_fs m \<and> min (u16 fs) 32000 > 8000
    then (mc_flush m)\<lparr>mc_new_codec := 1, mc_current_Codec := -1\<rparr> else m)"
  have m1: "mc_step m m1"
    using assms(1) mc_step_flush [OF assms(1)]
    by (auto simp: m1_def mc_step_def mcu_inv_def wt_inv_def mc_frame_def)
  obtain r fl1 b where b: "WebRtcNetEQ_PacketBufferInsert (mc_PacketBuffer m1) p (mc_av_sync m1) = Some (r, fl1, b)"
    "mc_step m1 (m1\<lparr>mc_PacketBuffer := b\<rparr>)"
    by (rule step_insert [OF mc_step_inv [OF m1] assms(2)])
  have "mc_step m (m1\<lparr>mc_PacketBuffer := b\<rparr>)" "mc_step m (set_lastPack 1 (m1\<lparr>mc_PacketBuffer := b\<rparr>))"
    using mc_step_trans [OF m1 b(2)] mc_step_trans [OF m1 mc_step_trans [OF b(2) mc_step_lastPack [OF mc_step_inv [OF b(2)]]]] .
  then show ?thesis
    unfolding recin_cng_def fs Option.bind_lunit Let_def m1_def [symmetric] b(1) prod.case
    using mc_step_refl [OF assms(1)] by auto
qed

text \<open>
  Only iLBC has splittings that depend on the payload, and then they have been looked up
  already.
\<close>

lemma step_codec_change:
  assumes "mcu_inv m" "recin_codec_change m p sync c = (r, m')"
    "c = kDecoderILBC \<Longrightarrow> \<not> sync \<Longrightarrow> fst (ilbc_split (mc_PayloadSplit m) (rtp_payloadLen p)) = 0"
    "c < 0 \<or> codec_ok c"
  shows "mc_step m m'" "r = 0 \<longrightarrow> c = -1 \<or> split_ok (mc_PayloadSplit m')"
proof -
  obtain k s where ks: "WebRtcNetEQ_DbGetSplitInfo (mc_PayloadSplit m) c (rtp_payloadLen p) = (k, s)" by fastforce
  have set: "mc_step m (m\<lparr>mc_current_Codec := c, mc_current_Payload := x, mc_PayloadSplit := s\<rparr>)"
    if "split_ok s" "codec_ok c" for x
    using assms(1) that by (simp add: mc_step_def mcu_inv_def wt_inv_def mc_frame_def)
  have ok: "split_ok s" if "\<not> sync"
  proof (rule split_info_keeps [OF ks])
    show "k = 0 \<or> c \<noteq> kDecoderILBC" using assms(3) [OF _ that] ks by (auto simp: WebRtcNetEQ_DbGetSplitInfo_def)
  qed
  have flush: "mc_step a ((mc_flush a)\<lparr>mc_new_codec := 1\<rparr>) \<and> mc_PayloadSplit (mc_flush a) = mc_PayloadSplit a"
    if "mcu_inv a" for a
    using mc_step_trans [OF mc_step_flush [OF that] mc_step_new_codec [OF mc_step_inv [OF mc_step_flush [OF that]]]]
    by (simp add: mc_flush_def)
  have "mc_step m m' \<and> (r = 0 \<longrightarrow> c = -1 \<or> split_ok (mc_PayloadSplit m'))"
  proof (cases "c = mc_current_Codec m \<or> c < 0 \<or> sync")
    case True
    then show ?thesis
      using assms(2) mc_step_refl [OF assms(1)] mc_inv_parts(5) [OF assms(1)]
      by (auto simp: recin_codec_change_def recin_errors split: if_splits)
  next
    case False
    define m1 where "m1 = m\<lparr>mc_current_Codec := c, mc_current_Payload := s16 (rtp_payloadType p), mc_PayloadSplit := s\<rparr>"
    have m1: "mc_step m m1" "split_ok (mc_PayloadSplit m1)" using set ok False assms(4) by (simp_all add: m1_def)
    have "(r, m') = (if k < 0 then (k, m1) else (0, (mc_flush m1)\<lparr>mc_new_codec := 1\<rparr>))"
      using assms(2) False ks by (auto simp: recin_codec_change_def Let_def m1_def split: if_splits)
    then show ?thesis
      using m1 flush [OF mc_step_inv [OF m1(1)]] mc_step_trans [OF m1(1)] by (auto split: if_splits)
  qed
  then show "mc_step m m'" "r = 0 \<longrightarrow> c = -1 \<or> split_ok (mc_PayloadSplit m')" by simp_all
qed

lemma step_speech:
  assumes "mcu_inv m" "packet_inside p"
    "\<And>e. \<not> sync \<Longrightarrow> db_abs (mc_codec_DB m) kDecoderILBC = Some e \<Longrightarrow> db_payloadType e = rtp_payloadType p \<Longrightarrow>
       fst (ilbc_split (mc_PayloadSplit m) (rtp_payloadLen p)) = 0"
  shows "\<exists>r m' fl'. recin_speech m p sync fl = Some (r, m', fl') \<and> mc_step m m'"
proof -
  note inv = mc_inv_parts [OF assms(1)]
  obtain c where c: "WebRtcNetEQ_DbGetCodec (mc_codec_DB m) (rtp_payloadType p) = Some c"
    and abs: "c = kDecoderILBC \<longrightarrow> (\<exists>e. db_abs (mc_codec_DB m) c = Some e \<and> db_payloadType e = rtp_payloadType p)"
      "c \<noteq> -1" "c < 0 \<or> codec_ok c"
    using inv(1)
  proof (cases rule: get_codec_cases [where pt = "rtp_payloadType p"])
    case (found c e)
    then show thesis using found_ok [OF found(2)] by (intro that [of c]) (auto simp: codec_ok_def)
  next
    case absent
    then show thesis by (intro that [OF absent(1)]) (auto simp: db_errors codec_ok_def)
  qed
  have ilbc: "fst (ilbc_split (mc_PayloadSplit m) (rtp_payloadLen p)) = 0" if "c = kDecoderILBC" "\<not> sync"
    using abs(1) that assms(3) by blast
  obtain r m1 where m1: "recin_codec_change m p sync c = (r, m1)" by fastforce
  note change = step_codec_change [OF assms(1) m1 ilbc abs(3)]
  show ?thesis
  proof (cases "r = 0")
    case False
    then show ?thesis unfolding recin_speech_def c Option.bind_lunit m1 Let_def prod.case using change(1) by simp
  next
    case True
    have split: "split_ok (mc_PayloadSplit m1)" using change(2) True abs(2) by simp
    obtain r1 fl1 b where b: "WebRtcNetEQ_SplitAndInsertPayload p (mc_PacketBuffer m1) (mc_PayloadSplit m1) (mc_av_sync m1)
        = Some (r1, fl1, b)" "pb_inv b" "pb_memorySizeW16 b = pb_memorySizeW16 (mc_PacketBuffer m1)"
      using split_inside_safe [OF mc_inv_parts(3) [OF mc_step_inv [OF change(1)]] assms(2) split] by blast
    note step = mc_step_buffer [OF mc_step_inv [OF change(1)] b(2,3)]
    have "mc_step m (m1\<lparr>mc_PacketBuffer := b\<rparr>)" "mc_step m (set_lastPack (-1) (m1\<lparr>mc_PacketBuffer := b\<rparr>))"
      using mc_step_trans [OF change(1) step]
        mc_step_trans [OF change(1) mc_step_trans [OF step mc_step_lastPack [OF mc_step_inv [OF step]]]] by simp_all
    then show ?thesis
      unfolding recin_speech_def c Option.bind_lunit m1 Let_def prod.case b(1) using True by simp
  qed
qed

lemma step_payload:
  assumes "mcu_inv m" "packet_inside p"
  shows "\<exists>r m' p' fl'. recin_payload m p sync fl = Some (r, m', p', fl') \<and> mc_step m m'
    \<and> (\<exists>ts. p' = p\<lparr>rtp_timeStamp := ts\<rparr>)"
proof -
  have same: "\<exists>ts. p = p\<lparr>rtp_timeStamp := ts\<rparr>" by (rule exI [of _ "rtp_timeStamp p"]) simp
  obtain r1 m1 where m1: "recin_split_info m p sync = Some (r1, m1)" "mc_step m m1"
    using step_split_info [OF assms(1)] by blast
  obtain r2 m2 where m2: "WebRtcNetEQ_GetTimestampScaling m1 (rtp_payloadType p) = Some (r2, m2)" "mc_step m1 m2"
    using step_scaling [OF mc_step_inv [OF m1(2)]] by blast
  obtain m3 p3 where m3: "recin_scale m2 p = (m3, p3)" by fastforce
  note sc = step_scale [OF mc_step_inv [OF m2(2)] m3]
  have step3: "mc_step m m3" using m1(2) m2(2) sc(1) by (blast intro: mc_step_trans)
  have fits3: "packet_inside p3" using sc(2) assms(2) by auto
  have p3: "rtp_payloadType p3 = rtp_payloadType p" "rtp_payloadLen p3 = rtp_payloadLen p" using sc(2) by auto
  note inv3 = mc_inv_parts [OF mc_step_inv [OF step3]]
  obtain avt where avt: "WebRtcNetEQ_DbGetPayload (mc_codec_DB m3) kDecoderAVT = Some avt"
    using get_payload_some [OF inv3(1), of kDecoderAVT] by (auto simp: codec_ok_def)
  have ilbc: "fst (ilbc_split (mc_PayloadSplit m3) (rtp_payloadLen p3)) = 0"
    if "r1 = 0" "\<not> sync" "db_abs (mc_codec_DB m3) kDecoderILBC = Some e" "db_payloadType e = rtp_payloadType p3" for e
  proof -
    note inv = mc_inv_parts [OF assms(1)]
    have db: "mc_codec_DB m3 = mc_codec_DB m" using step3 by (simp add: mc_step_def mc_frame_def)
    have e: "db_abs (mc_codec_DB m) kDecoderILBC = Some e" "db_payloadType e = rtp_payloadType p"
      using that(3,4) by (simp_all add: db p3)
    have look: "WebRtcNetEQ_DbGetPayload (mc_codec_DB m) kDecoderILBC = Some (rtp_payloadType p)"
      "WebRtcNetEQ_DbGetCodec (mc_codec_DB m) (rtp_payloadType p) = Some kDecoderILBC"
      using get_payload_abs [OF inv(1), of kDecoderILBC] get_codec_iff [OF inv(1) e(1)] e
      by (simp_all add: codec_ok_def)
    obtain k s where ks: "ilbc_split (mc_PayloadSplit m) (rtp_payloadLen p) = (k, s)" by fastforce
    have "\<not> k < 0"
      using m1(1) that(1,2) ks by (auto simp: recin_split_info_def look WebRtcNetEQ_DbGetSplitInfo_def split: if_splits)
    moreover have "k = 0 \<or> k = AMBIGUOUS_ILBC_FRAME_SIZE" "fst (ilbc_split s0 (rtp_payloadLen p)) = k" for s0
      using ks unfolding ilbc_split_def by (auto split: if_splits)
    ultimately show ?thesis by (simp add: p3 AMBIGUOUS_ILBC_FRAME_SIZE_def)
  qed
  have dtmf: "\<exists>r m'. recin_dtmf m3 p3 sync = Some (r, m') \<and> mc_step m3 m'"
    by (rule step_dtmf [OF mc_step_inv [OF step3] fits3])
  have cng: "\<exists>r m' fl'. recin_cng m3 p3 sync fl = Some (r, m', fl') \<and> mc_step m3 m'"
    by (rule step_cng [OF mc_step_inv [OF step3] fits3])
  show ?thesis
  proof (cases "r1 \<noteq> 0 \<or> r2 < 0")
    case True
    then show ?thesis
      unfolding recin_payload_def m1(1) Option.bind_lunit prod.case m2(1) m3 Let_def
      using m1(2) mc_step_trans [OF m1(2) m2(2)] same by auto
  next
    case False
    have speech: "\<exists>r m' fl'. recin_speech m3 p3 sync fl = Some (r, m', fl') \<and> mc_step m3 m'"
      by (rule step_speech [OF mc_step_inv [OF step3] fits3]) (use ilbc False in blast)
    define body where "body = (if rtp_payloadType p3 = avt
           then do { (i_ok, m) \<leftarrow> recin_dtmf m3 p3 sync; Some (i_ok, m, fl) }
           else if WebRtcNetEQ_DbIsCNGPayload (mc_codec_DB m3) (rtp_payloadType p3)
           then recin_cng m3 p3 sync fl else recin_speech m3 p3 sync fl)"
    have "\<exists>r m' fl'. body = Some (r, m', fl') \<and> mc_step m3 m'"
      using dtmf cng speech by (auto simp: body_def)
    then obtain r4 m4 fl4 where m4: "body = Some (r4, m4, fl4)" "mc_step m3 m4" by blast
    have step4: "mc_step m m4" "mc_step m (m4\<lparr>mc_new_codec := 1\<rparr>)"
      using mc_step_trans [OF step3 m4(2)]
        mc_step_trans [OF step3 mc_step_trans [OF m4(2) mc_step_new_codec [OF mc_step_inv [OF m4(2)]]]] by simp_all
    show ?thesis
      using False step4 sc(2)
      unfolding recin_payload_def m1(1) Option.bind_lunit prod.case m2(1) m3 Let_def avt
        body_def [symmetric] m4(1)
      by simp
  qed
qed

lemma step_payloads:
  assumes "mcu_inv m" "\<forall>p \<in> set ps. packet_inside p"
  shows "\<exists>r m' ps'. recin_payloads red sync i ps m fl = Some (r, m', ps') \<and> mc_step m m'
    \<and> (r = 0 \<longrightarrow> list_all2 (\<lambda>p p'. \<exists>k ts. p' = p\<lparr>rtp_rcuPlCntr := k, rtp_timeStamp := ts\<rparr>) ps ps')"
  using assms
proof (induction ps arbitrary: m i fl)
  case Nil
  then show ?case by (simp add: mc_step_refl)
next
  case (Cons p ps)
  let ?q = "p\<lparr>rtp_rcuPlCntr := (if red then int i else 0)\<rparr>"
  have "packet_inside ?q" using Cons.prems(2) by simp
  from step_payload [OF Cons.prems(1) this, of sync fl]
  obtain r1 m1 p1 fl1 where one: "recin_payload m ?q sync fl = Some (r1, m1, p1, fl1)" "mc_step m m1"
    "\<exists>ts. p1 = ?q\<lparr>rtp_timeStamp := ts\<rparr>" by blast
  then have p1: "\<exists>k ts. p1 = p\<lparr>rtp_rcuPlCntr := k, rtp_timeStamp := ts\<rparr>" by auto
  show ?case
  proof (cases "r1 = 0")
    case False
    then show ?thesis using one by simp
  next
    case True
    have "\<forall>p \<in> set ps. packet_inside p" using Cons.prems(2) by simp
    from Cons.IH [OF mc_step_inv [OF one(2)] this, of "Suc i" fl1] obtain r m' ps' where
      rest: "recin_payloads red sync (Suc i) ps m1 fl1 = Some (r, m', ps')" "mc_step m1 m'"
      "r = 0 \<longrightarrow> list_all2 (\<lambda>p p'. \<exists>k ts. p' = p\<lparr>rtp_rcuPlCntr := k, rtp_timeStamp := ts\<rparr>) ps ps'" by blast
    then show ?thesis using one(1) True p1 mc_step_trans [OF one(2) rest(2)] by simp
  qed
qed

lemma step_statistics:
  assumes "mcu_inv m"
  shows "\<exists>m'. recin_statistics dur old m p = Some m' \<and> mc_step m m'"
proof -
  note inv = mc_inv_parts [OF assms]
  obtain n where n: "WebRtcNetEQ_PacketBufferGetSize dur (mc_PacketBuffer m) (mc_codec_DB m) (mc_av_sync m) = Some n"
    using buffer_size_some [OF inv(1,2)] by blast
  have len: "am_inv am \<Longrightarrow> am_inv (snd (WebRtcNetEQ_SetPacketSpeechLen am k fs))" for am k fs
    by (simp add: WebRtcNetEQ_SetPacketSpeechLen_def am_inv_def)
  define m1 where "m1 = (if s32 (n - old) > 0 \<and> s32 (n - old) \<noteq> am_packetSpeechLenSamp (mc_Automode m)
    then set_Automode (snd (WebRtcNetEQ_SetPacketSpeechLen (mc_Automode m) (s16 (s32 (n - old))) (mc_fs m))) m else m)"
  have m1: "mc_step m m1"
    using assms by (auto simp: m1_def intro: mc_step_refl mc_step_automode len mc_am_inv)
  define m2 where "m2 = (if s32 (rtp_timeStamp p - mc_timeStamp m1) \<ge> 0 \<and> mc_new_codec m1 = 0
    then set_Automode (snd (WebRtcNetEQ_UpdateIatStatistics (mc_Automode m1)
                        (int (pb_maxInsertPositions (mc_PacketBuffer m1))) (rtp_seqNumber p) (rtp_timeStamp p)
                        (mc_fs m1) (WebRtcNetEQ_DbIsMDCodec (mc_current_Codec m1))
                        (mc_NetEqPlayoutMode m1 = kPlayoutStreaming))) m1 else m1)"
  have "mc_step m1 m2"
    using mc_step_inv [OF m1] by (auto simp: m2_def intro: mc_step_refl mc_step_automode update_keeps_inv mc_am_inv)
  then have m2: "mc_step m m2" by (rule mc_step_trans [OF m1])
  have reset: "mc_step m (set_Automode ((mc_Automode m)\<lparr>am_lastPackCNGorDTMF := 0, am_packetIatCountSamp := 0\<rparr>) m)"
    by (rule mc_step_automode [OF assms]) (simp add: mc_am_inv [OF assms])
  show ?thesis
    unfolding recin_statistics_def n Option.bind_lunit Let_def m1_def [symmetric] m2_def [symmetric]
    using m2 reset mc_step_refl [OF assms] by simp
qed

lemma bandwidth_safe:
  assumes "db_inv db" "db_cng_ok db" "packet_inside p"
  shows "recin_bandwidth db p sync = Some ()"
  using assms(1,2)
proof (cases rule: get_codec_entry [where pt = "rtp_payloadType p"])
  case unknown
  then show ?thesis by (simp add: recin_bandwidth_def db_errors)
next
  case (known k pos e)
  have "rtp_starts_byte1 p \<noteq> 0 \<Longrightarrow> 0 < rtp_payloadLen p \<Longrightarrow> rtp_payloadLen p < int (length (rtp_payload p))"
    using assms(3) by (auto simp: packet_inside_def)
  then show ?thesis using known by (auto simp: recin_bandwidth_def)
qed

lemma redundancy_split_count:
  assumes "WebRtcNetEQ_RedundancySplit [p, junk] = Some (i, hs, Some k)"
  shows "(k = 1 \<or> k = 2) \<and> length hs = 2"
  using assms
  by (auto simp: WebRtcNetEQ_RedundancySplit_def clear_payloads_def Let_def split: bind_splits if_splits)

lemma red_next:
  assumes "recin_red db sync p junk = Some (Inr (hs, n, red))"
  shows "0 < n \<and> n \<le> length hs"
proof (cases "rtp_payloadType p = the (WebRtcNetEQ_DbGetPayload db kDecoderRED) \<and> \<not> sync")
  case False
  then show ?thesis using assms by (auto simp: recin_red_def split: bind_splits if_splits)
next
  case True
  then obtain i k where
    "WebRtcNetEQ_RedundancySplit [p, junk] = Some (i, hs, Some k)" "n = 1 \<or> n = nat k" "\<not> i < 0"
    using assms by (auto simp: recin_red_def split: bind_splits if_splits)
  with redundancy_split_count show ?thesis by fastforce
qed

lemma recin_safe_split:
  assumes "mcu_inv m"
    "recin_red (mc_codec_DB m) (mc_av_sync m \<and> WebRtcNetEQ_IsSyncPayload (rtp_payload p) (rtp_payloadLen p)) p junk = Some r"
    "\<And>hs n red. r = Inr (hs, n, red) \<Longrightarrow> list_all packet_inside (take n hs)"
  shows "\<exists>ret m'. WebRtcNetEQ_RecInInternal call_duration junk m p uw32_timeRec = Some (ret, m') \<and> mcu_inv m'
    \<and> mc_codec_DB m' = mc_codec_DB m \<and> pb_memorySizeW16 (mc_PacketBuffer m') = pb_memorySizeW16 (mc_PacketBuffer m)"
proof -
  let ?sync = "mc_av_sync m \<and> WebRtcNetEQ_IsSyncPayload (rtp_payload p) (rtp_payloadLen p)"
  obtain old where old: "WebRtcNetEQ_PacketBufferGetSize call_duration (mc_PacketBuffer m) (mc_codec_DB m) (mc_av_sync m)
      = Some old"
    using buffer_size_some mc_inv_parts(1,2) [OF assms(1)] by blast
  define m1 where "m1 = (if ?sync then recin_new_source m p
    else (recin_new_source m p)\<lparr>mc_RTCP := WebRtcNetEQ_RTCPUpdate (mc_RTCP (recin_new_source m p)) (rtp_seqNumber p)
           (rtp_timeStamp p) uw32_timeRec\<rparr>)"
  have "mc_step a (a\<lparr>mc_RTCP := x\<rparr>)" if "mcu_inv a" for a x
    using that by (simp add: mc_step_def mcu_inv_def wt_inv_def mc_frame_def)
  then have m1: "mc_step m m1"
    using step_new_source [OF assms(1), of p] unfolding m1_def by (auto intro: mc_step_trans mc_step_inv)
  then have db: "mc_codec_DB m1 = mc_codec_DB m" by (simp add: mc_step_def mc_frame_def)
  have frame: "mc_step m m' \<Longrightarrow> mcu_inv m' \<and> mc_codec_DB m' = mc_codec_DB m
    \<and> pb_memorySizeW16 (mc_PacketBuffer m') = pb_memorySizeW16 (mc_PacketBuffer m)" for m'
    by (simp add: mc_step_def mc_frame_def)
  note run = WebRtcNetEQ_RecInInternal_def [of call_duration junk m p uw32_timeRec, unfolded Let_def old Option.bind_lunit,
      folded m1_def, unfolded db assms(2) Option.bind_lunit]
  show ?thesis
  proof (cases r)
    case (Inl i_ok)
    then show ?thesis unfolding run Inl sum.case using frame [OF m1] by blast
  next
    case (Inr t)
    then obtain hs n red where r: "r = Inr (hs, n, red)" by (cases t) auto
    have "\<forall>q \<in> set (take n hs). packet_inside q"
      using assms(3) [OF r] by (simp add: list_all_iff)
    from step_payloads [OF mc_step_inv [OF m1] this, of red ?sync 0 0] obtain i_ok m2 ps where
      m2: "recin_payloads red ?sync 0 (take n hs) m1 0 = Some (i_ok, m2, ps)" "mc_step m1 m2"
      "i_ok = 0 \<longrightarrow> list_all2 (\<lambda>p p'. \<exists>k ts. p' = p\<lparr>rtp_rcuPlCntr := k, rtp_timeStamp := ts\<rparr>) (take n hs) ps"
      by blast
    have step2: "mc_step m m2" by (rule mc_step_trans [OF m1 m2(2)])
    show ?thesis
    proof (cases "i_ok = 0")
      case False
      then show ?thesis unfolding run r sum.case prod.case m2(1) Option.bind_lunit using frame [OF step2] by simp
    next
      case True
      have n: "0 < n" "n \<le> length hs" using red_next assms(2) unfolding r by blast+
      then have "ps \<noteq> []" using m2(3) True by (auto dest: list_all2_lengthD)
      then obtain h0 rest where ps: "ps = h0 # rest" by (cases ps) auto
      have "packet_inside (hd (take n hs))"
        using \<open>\<forall>q \<in> set (take n hs). packet_inside q\<close> n by (cases hs; cases n) auto
      moreover have "\<exists>k ts. h0 = (hd (take n hs))\<lparr>rtp_rcuPlCntr := k, rtp_timeStamp := ts\<rparr>"
        using m2(3) True n unfolding ps by (cases "take n hs") auto
      ultimately have fits: "packet_inside h0" by auto
      note inv2 = mc_inv_parts [OF mc_step_inv [OF m2(2)]]
      obtain m3 where m3: "recin_statistics call_duration old m2 h0 = Some m3" "mc_step m2 m3"
        using step_statistics [OF mc_step_inv [OF m2(2)]] by blast
      show ?thesis
        using True frame [OF mc_step_trans [OF step2 m3(2)]]
        unfolding run r sum.case prod.case m2(1) Option.bind_lunit
        by (simp add: ps bandwidth_safe [OF inv2(1,2) fits] m3(1))
    qed
  qed
qed

text \<open>
  What the caller guarantees of a packet: its payload lies in its memory, and one that carries the payload type of redundant audio
  has headers and blocks that do, and a byte of memory behind it (the splitter reads words and believes the lengths in the headers).
\<close>

definition recin_ready :: "codec_db \<Rightarrow> rtp_packet \<Rightarrow> bool" where
  "recin_ready db p \<longleftrightarrow> packet_inside p
     \<and> (WebRtcNetEQ_DbGetPayload db kDecoderRED = Some (rtp_payloadType p) \<longrightarrow> red_complete p)"

lemma recin_red_inside:
  assumes "db_inv db" "recin_ready db p"
  shows "\<exists>r. recin_red db sync p junk = Some r \<and> (\<forall>hs n red. r = Inr (hs, n, red) \<longrightarrow> list_all packet_inside (take n hs))"
proof -
  obtain red where red: "WebRtcNetEQ_DbGetPayload db kDecoderRED = Some red" using get_payload_some [OF assms(1), of kDecoderRED] by (auto simp: codec_ok_def)
  obtain avt where avt: "WebRtcNetEQ_DbGetPayload db kDecoderAVT = Some avt" using get_payload_some [OF assms(1), of kDecoderAVT] by (auto simp: codec_ok_def)
  show ?thesis
  proof (cases "rtp_payloadType p = red")
    case False
    then show ?thesis using assms(2) by (auto simp: recin_red_def red recin_ready_def)
  next
    case True
    then have "red_complete p" using assms(2) red by (simp add: recin_ready_def)
    from red_split_inside [OF this, of junk] obtain hs k where s: "WebRtcNetEQ_RedundancySplit [p, junk] = Some (0, hs, Some k)"
      "k = 1 \<or> k = 2" "length hs = 2" "list_all packet_inside (take (nat k) hs)" by blast
    then obtain h0 h1 where "hs = [h0, h1]" by (auto simp: length_Suc_conv numeral_2_eq_2)
    then show ?thesis using s True by (auto simp: recin_red_def red avt numeral_2_eq_2)
  qed
qed

lemma recin_safe:
  assumes "mcu_inv m" "recin_ready (mc_codec_DB m) p"
  shows "\<exists>ret m'. WebRtcNetEQ_RecInInternal call_duration junk m p uw32_timeRec = Some (ret, m') \<and> mcu_inv m'
    \<and> mc_codec_DB m' = mc_codec_DB m \<and> pb_memorySizeW16 (mc_PacketBuffer m') = pb_memorySizeW16 (mc_PacketBuffer m)"
  using recin_red_inside [OF mc_inv_parts(1) [OF assms(1)] assms(2)] recin_safe_split [OF assms(1)] by blast

text \<open>
  C4: The arrival of a packet, whatever its source, payload type, sequence number and
  timestamp, and whatever the length of its payload (empty and too long for the packet buffer included, which are refused): if the
  payload lies in its memory, and the headers and the blocks a redundant one announces lie in the payload (with one byte of memory behind
  it, since the splitter reads words), the whole of the processing, with the codec look-ups, the splitting, the insertion, the
  telephone events and the statistics, ends without an access out of bounds and leaves a
  well-formed state, whether it succeeds or returns an error.
\<close>

theorem recin_keeps_invariant:
  assumes "mcu_inv m" "recin_ready (mc_codec_DB m) p"
  shows "\<exists>ret m'. WebRtcNetEQ_RecInInternal call_duration junk m p uw32_timeRec = Some (ret, m') \<and> mcu_inv m'
    \<and> mc_codec_DB m' = mc_codec_DB m \<and> pb_memorySizeW16 (mc_PacketBuffer m') = pb_memorySizeW16 (mc_PacketBuffer m)"
  using assms by (rule recin_safe)

text \<open>A control side with iLBC under payload type 102 and an empty buffer, and a frame for it.\<close>

definition recin_example :: mcu where
  "recin_example = (snd (WebRtcNetEQ_McuReset mc_blank))\<lparr>mc_PacketBuffer := pb_example, mc_codec_DB := db_example\<rparr>"

definition recin_packet :: rtp_packet where
  "recin_packet = rtp_blank\<lparr>rtp_payload := replicate 20 7, rtp_payloadLen := 20, rtp_payloadType := 102\<rparr>"

lemma recin_example_inv: "mcu_inv recin_example"
proof -
  obtain pb where "WebRtcNetEQ_PacketBufferInit 4 pb_blank 10 True 1000 = Some (0, pb)"
    by (simp add: WebRtcNetEQ_PacketBufferInit_def PBUFFER_MIN_MEMORY_SIZE_def)
  from mcu_reset_state [OF this, of mc_blank] show ?thesis
    using pb_example_inv(1) db_example_inv reachable_cng [OF db_reachable.add [OF db_reachable.reset db_example_inv(2)]]
    by (auto simp: recin_example_def mcu_inv_def wt_inv_def)
qed

text \<open>Every payload type is missing in a database that does not know redundant audio, so the packet is ready.\<close>

lemma recin_packet_ready: "recin_ready db_example recin_packet"
proof -
  have "WebRtcNetEQ_DbGetPayload db_example kDecoderRED = Some CODEC_DB_NOT_EXIST2" by code_simp
  then show ?thesis by (simp add: recin_ready_def packet_inside_def recin_packet_def rtp_blank_def db_errors)
qed

lemma recin_keeps_invariant_witness:
  "\<exists>ret m'. WebRtcNetEQ_RecInInternal (\<lambda>f s p n. 0) rtp_blank recin_example recin_packet 5 = Some (ret, m') \<and> mcu_inv m'
    \<and> mc_codec_DB m' = mc_codec_DB recin_example
    \<and> pb_memorySizeW16 (mc_PacketBuffer m') = pb_memorySizeW16 (mc_PacketBuffer recin_example)"
proof (rule recin_keeps_invariant [OF recin_example_inv])
  show "recin_ready (mc_codec_DB recin_example) recin_packet" using recin_packet_ready by (simp add: recin_example_def)
qed

text \<open>
  A telephone event sent as the redundant block of an RFC 2198 packet never reaches the event
  queue: the splitter hands out the block one byte late in its first word, the event decoder reads it from the
  start of that word, takes the header byte of the main block for the event, and drops it
  whenever the main payload type is above 15.
\<close>

theorem red_event_dropped:
  assumes "red_ok avt offset 4" "15 < pt1" "pt1 < 128" "length ev = 4"
    "rtp_payload p = red_header avt offset 4 @ byte_of pt1 # ev @ d1 @ rest"
    "rtp_payloadLen p = int (length d1) + 9" "length d1 < 16000"
  shows "\<exists>h1 h2. WebRtcNetEQ_RedundancySplit [p, junk] = Some (0, [h1, h2], Some 2)
    \<and> rtp_payloadType h2 = avt \<and> rtp_data h2 = ev
    \<and> (\<forall>m. recin_dtmf m h2 False = Some (0, if mc_usingStereo m = 0 then set_lastPack 1 m else m))"
proof -
  let ?H = "red_header avt offset 4" and ?body = "ev @ d1 @ rest"
  obtain x y z w where ev: "ev = [x, y, z, w]" using assms(4) by (auto simp: length_Suc_conv numeral_eq_Suc)
  have w0: "red_w0 avt offset AND 0x80 \<noteq> 0"
    using red_fields(1) [of avt offset 0] assms(1) by (simp add: red_ok_def)
  have w2: "rd_w16 (?H @ byte_of pt1 # ?body) (0 + 2) = Some (w16_of (byte_of pt1) x)"
    using rd_w16_skip [of ?H 2 "byte_of pt1 # ?body" 0] unfolding ev by (simp add: rd_w16_Some)
  have stop: "red_skip (?H @ byte_of pt1 # ?body) b 0 0 = Some (0, 0)" for b
    using assms(2,3) by (intro red_skip_stop [OF w2]) (simp add: w16_bit7 uint_byte_of)
  have "\<exists>h1 h2. WebRtcNetEQ_RedundancySplit [p, junk] = Some (0, clear_payloads 2 ([p, junk][0 := h1, 1 := h2]), Some 2)
    \<and> rtp_payloadType h2 = avt \<and> rtp_data h2 = take 4 ?body
    \<and> rtp_payload h2 = byte_of pt1 # ?body \<and> rtp_payloadLen h2 = int 4"
    using red_tail_fields [of avt offset 4 pt1 "[p, junk]" "?H @ byte_of pt1 # ?body" "[]" ?body 0 "red_w0 avt offset"
        "length d1" 0] stop red_header_words(1) w0 assms ev by fastforce
  then obtain h1 h2 where h: "WebRtcNetEQ_RedundancySplit [p, junk] = Some (0, [h1, h2], Some 2)"
    "rtp_payloadType h2 = avt" "rtp_data h2 = ev" "rtp_payload h2 = byte_of pt1 # ?body" "rtp_payloadLen h2 = 4"
    using assms(4) by (auto simp: clear_payloads_def)
  have "uint (byte_of pt1) = pt1" using assms(2,3) by (simp add: uint_byte_of)
  then have "WebRtcNetEQ_DtmfInsertEvent d (rtp_payload h2) (rtp_payloadLen h2) ts = Some (0, d)" for d ts
    using assms(2) unfolding h ev by (simp add: WebRtcNetEQ_DtmfInsertEvent_def rd_w16_Some w16_low8)
  then have "recin_dtmf m h2 False = Some (0, if mc_usingStereo m = 0 then set_lastPack 1 m else m)" for m
    by (simp add: recin_dtmf_def)
  with h show ?thesis by blast
qed

definition red_event_packet :: rtp_packet where
  "red_event_packet = rtp_blank\<lparr>rtp_payload := red_header 106 160 4 @ byte_of 96 # dtmf_payload 5 0 10 400 @ [1, 2, 3] @ [],
     rtp_payloadLen := 12\<rparr>"

lemma red_event_dropped_witness:
  "\<exists>h1 h2. WebRtcNetEQ_RedundancySplit [red_event_packet, rtp_blank] = Some (0, [h1, h2], Some 2)
    \<and> rtp_payloadType h2 = 106 \<and> rtp_data h2 = dtmf_payload 5 0 10 400
    \<and> (\<forall>m. recin_dtmf m h2 False = Some (0, if mc_usingStereo m = 0 then set_lastPack 1 m else m))"
  by (rule red_event_dropped [of 106 160 96 "dtmf_payload 5 0 10 400" red_event_packet "[1, 2, 3]" "[]" rtp_blank])
     (simp_all add: red_event_packet_def red_ok_def dtmf_payload_def)

lemma codec_ok_RED: "codec_ok kDecoderRED" and codec_ok_ILBC: "codec_ok kDecoderILBC"
  by (simp_all add: codec_ok_def)

lemma payload_known:
  assumes "db_inv db" "WebRtcNetEQ_DbGetCodec db pt = Some CODEC_DB_NOT_EXIST3" "codec_ok c" "0 \<le> pt"
  shows "WebRtcNetEQ_DbGetPayload db c \<noteq> Some pt"
  using assms(1)
proof (cases rule: get_codec_cases [where pt = pt])
  case (found d e)
  then show ?thesis using assms(2) found_ok [OF found(2)] by (auto simp: codec_ok_def db_errors)
next
  case absent
  then show ?thesis using assms(4) get_payload_abs [OF assms(1,3)] by (auto simp: db_errors split: option.splits)
qed

text \<open>
  C33: A packet whose payload type is not registered is refused with the error of the codec
  look-up (never with \<open>RECIN_UNKNOWNPAYLOAD\<close>, whose test comes later), and touches neither the codec in use, nor
  the splitting rules, the events or the statistics of the delay.  But the RTCP counters count it, and
  when it comes under a new SSRC it empties the packet buffer.
\<close>

theorem recin_unknown_payload:
  assumes "mcu_inv m" "0 \<le> rtp_payloadType p"
    "WebRtcNetEQ_DbGetCodec (mc_codec_DB m) (rtp_payloadType p) = Some CODEC_DB_NOT_EXIST3"
  shows "\<exists>m'. WebRtcNetEQ_RecInInternal call_duration junk m p uw32_timeRec = Some (CODEC_DB_NOT_EXIST3, m')
    \<and> CODEC_DB_NOT_EXIST3 \<noteq> RECIN_UNKNOWNPAYLOAD
    \<and> mc_current_Codec m' = mc_current_Codec m \<and> mc_PayloadSplit m' = mc_PayloadSplit m
    \<and> mc_DTMF m' = mc_DTMF m \<and> mc_BufferStat m' = mc_BufferStat m
    \<and> (if rtp_ssrc p = mc_ssrc m \<and> mc_first_packet m \<noteq> 1 then mc_PacketBuffer m' = mc_PacketBuffer m
       else pb_numPacketsInBuffer (mc_PacketBuffer m') = 0)"
proof -
  let ?sync = "mc_av_sync m \<and> WebRtcNetEQ_IsSyncPayload (rtp_payload p) (rtp_payloadLen p)"
  note inv = mc_inv_parts(1,2) [OF assms(1)]
  obtain old where old: "WebRtcNetEQ_PacketBufferGetSize call_duration (mc_PacketBuffer m) (mc_codec_DB m) (mc_av_sync m)
      = Some old"
    using buffer_size_some [OF inv] by blast
  define m1 where "m1 = (if ?sync then recin_new_source m p
    else (recin_new_source m p)\<lparr>mc_RTCP := WebRtcNetEQ_RTCPUpdate (mc_RTCP (recin_new_source m p)) (rtp_seqNumber p)
           (rtp_timeStamp p) uw32_timeRec\<rparr>)"
  have m1: "mc_codec_DB m1 = mc_codec_DB m" "mc_current_Codec m1 = mc_current_Codec m"
    "mc_PayloadSplit m1 = mc_PayloadSplit m" "mc_DTMF m1 = mc_DTMF m" "mc_BufferStat m1 = mc_BufferStat m"
    "mc_PacketBuffer m1 = (if rtp_ssrc p = mc_ssrc m \<and> mc_first_packet m \<noteq> 1 then mc_PacketBuffer m
      else snd (WebRtcNetEQ_PacketBufferFlush (mc_PacketBuffer m)))"
    by (simp_all add: m1_def recin_new_source_def mc_flush_def)
  obtain red ilbc where pay: "WebRtcNetEQ_DbGetPayload (mc_codec_DB m) kDecoderRED = Some red"
    "WebRtcNetEQ_DbGetPayload (mc_codec_DB m) kDecoderILBC = Some ilbc"
    using get_payload_some [OF inv(1)] by (metis codec_ok_RED codec_ok_ILBC)
  have ne: "rtp_payloadType p \<noteq> red" "rtp_payloadType p \<noteq> ilbc"
    using payload_known [OF inv(1) assms(3) codec_ok_RED assms(2)]
      payload_known [OF inv(1) assms(3) codec_ok_ILBC assms(2)] pay by auto
  have red: "recin_red (mc_codec_DB m) ?sync p junk = Some (Inr ([p, junk], 1, False))"
    by (simp add: recin_red_def pay ne)
  have scal: "WebRtcNetEQ_GetTimestampScaling m1 (rtp_payloadType p) = Some (CODEC_DB_NOT_EXIST3, m1)"
    by (simp add: WebRtcNetEQ_GetTimestampScaling_def m1(1) assms(3) db_errors)
  have "recin_payload m1 (p\<lparr>rtp_rcuPlCntr := 0\<rparr>) ?sync 0 = Some (CODEC_DB_NOT_EXIST3, m1, p\<lparr>rtp_rcuPlCntr := 0\<rparr>, 0)"
    using ne by (simp add: recin_payload_def recin_split_info_def m1(1) pay scal) (simp add: db_errors)
  then have run: "WebRtcNetEQ_RecInInternal call_duration junk m p uw32_timeRec = Some (CODEC_DB_NOT_EXIST3, m1)"
    unfolding WebRtcNetEQ_RecInInternal_def Let_def old Option.bind_lunit m1_def [symmetric] m1(1) red
    by (simp add: db_errors)
  have "pb_inv (mc_PacketBuffer m)" using assms(1) by (simp add: mcu_inv_def)
  then have "pb_numPacketsInBuffer (snd (WebRtcNetEQ_PacketBufferFlush (mc_PacketBuffer m))) = 0"
    by (simp add: WebRtcNetEQ_PacketBufferFlush_def pb_inv_def)
  then show ?thesis using run m1 by (intro exI [of _ m1]) (auto simp: recin_errors db_errors)
qed

lemma recin_unknown_payload_witness:
  "\<exists>m'. WebRtcNetEQ_RecInInternal (\<lambda>f s p n. 0) rtp_blank recin_example rtp_blank 5 = Some (CODEC_DB_NOT_EXIST3, m')
    \<and> CODEC_DB_NOT_EXIST3 \<noteq> RECIN_UNKNOWNPAYLOAD
    \<and> mc_current_Codec m' = mc_current_Codec recin_example \<and> mc_PayloadSplit m' = mc_PayloadSplit recin_example
    \<and> mc_DTMF m' = mc_DTMF recin_example \<and> mc_BufferStat m' = mc_BufferStat recin_example
    \<and> (if rtp_ssrc rtp_blank = mc_ssrc recin_example \<and> mc_first_packet recin_example \<noteq> 1
       then mc_PacketBuffer m' = mc_PacketBuffer recin_example
       else pb_numPacketsInBuffer (mc_PacketBuffer m') = 0)"
proof (rule recin_unknown_payload [OF recin_example_inv])
  have "WebRtcNetEQ_DbGetCodec db_example 0 = Some CODEC_DB_NOT_EXIST3" by code_simp
  then show "WebRtcNetEQ_DbGetCodec (mc_codec_DB recin_example) (rtp_payloadType rtp_blank) = Some CODEC_DB_NOT_EXIST3"
    by (simp add: recin_example_def rtp_blank_def)
qed (simp add: rtp_blank_def)

end
