(* ===== verification/Signal_Mcu.thy ===== *)
theory Signal_Mcu
  imports Recin
begin

text \<open>
  The step of the control side for a block of output (\<open>neteq/signal_mcu.c\<close>,
  \<open>WebRtcNetEQ_SignalMcu\<close>): it reads what the signal side left in the shared memory, decides
  what to play, takes packets out of the packet buffer and writes an instruction and the
  payloads back into the shared memory.

  The shared memory is a list of bytes, read and written in 16-bit little-endian words; the
  read and the write address are the same (\<open>WebRtcNetEQ_DSP2MCUinterrupt\<close>).  How the compiler lays out the structure
  \<open>CodecFuncInst_t\<close> and a pointer is not in the source: \<open>cinst_bytes\<close> and \<open>state_bytes\<close> give their bytes.
\<close>

section \<open>The instruction words\<close>

definition DSP_INSTR_NORMAL :: int where "DSP_INSTR_NORMAL = 0x1000"
definition DSP_INSTR_MERGE :: int where "DSP_INSTR_MERGE = 0x2000"
definition DSP_INSTR_EXPAND :: int where "DSP_INSTR_EXPAND = 0x3000"
definition DSP_INSTR_ACCELERATE :: int where "DSP_INSTR_ACCELERATE = 0x4000"
definition DSP_INSTR_DO_RFC3389CNG :: int where "DSP_INSTR_DO_RFC3389CNG = 0x5000"
definition DSP_INSTR_DTMF_GENERATE :: int where "DSP_INSTR_DTMF_GENERATE = 0x6000"
definition DSP_INSTR_NORMAL_ONE_DESC :: int where "DSP_INSTR_NORMAL_ONE_DESC = 0x7000"
definition DSP_INSTR_DO_CODEC_INTERNAL_CNG :: int where "DSP_INSTR_DO_CODEC_INTERNAL_CNG = 0x8000"
definition DSP_INSTR_PREEMPTIVE_EXPAND :: int where "DSP_INSTR_PREEMPTIVE_EXPAND = 0x9000"
definition DSP_INSTR_DO_ALTERNATIVE_PLC :: int where "DSP_INSTR_DO_ALTERNATIVE_PLC = 0xB000"
definition DSP_INSTR_DO_ALTERNATIVE_PLC_INC_TS :: int where "DSP_INSTR_DO_ALTERNATIVE_PLC_INC_TS = 0xC000"
definition DSP_INSTR_DO_AUDIO_REPETITION :: int where "DSP_INSTR_DO_AUDIO_REPETITION = 0xD000"
definition DSP_INSTR_DO_AUDIO_REPETITION_INC_TS :: int where "DSP_INSTR_DO_AUDIO_REPETITION_INC_TS = 0xE000"

definition DSP_CODEC_NEW_CODEC :: int where "DSP_CODEC_NEW_CODEC = 0x0200"
definition DSP_CODEC_ADD_LATE_PKT :: int where "DSP_CODEC_ADD_LATE_PKT = 0x0300"
definition DSP_CODEC_RESET :: int where "DSP_CODEC_RESET = 0x0400"
definition DSP_DTMF_PAYLOAD :: int where "DSP_DTMF_PAYLOAD = 0x0010"
definition DSP_CODEC_RED_FLAG :: int where "DSP_CODEC_RED_FLAG = 0x8000"

definition MODE_DTMF :: int where "MODE_DTMF = 0x0007"
definition MODE_ONE_DESCRIPTOR :: int where "MODE_ONE_DESCRIPTOR = 0x0008"
definition MODE_AWAITING_CODEC_PTR :: int where "MODE_AWAITING_CODEC_PTR = 0x0100"
definition MODE_BGN_ONLY :: int where "MODE_BGN_ONLY = 0x0200"
definition MODE_MASTER_DTMF_SIGNAL :: int where "MODE_MASTER_DTMF_SIGNAL = 0x0400"
definition MODE_USING_STEREO :: int where "MODE_USING_STEREO = 0x0800"

definition MAX_ONE_DESC :: int where "MAX_ONE_DESC = 5"
definition MAX_LOSS_REPORT_PERIOD :: int where "MAX_LOSS_REPORT_PERIOD = 60"
definition UNKNOWN_BUFSTAT_DECISION :: int where "UNKNOWN_BUFSTAT_DECISION = -2001"

section \<open>Writing to the shared memory\<close>

definition wr_bytes :: "byte list \<Rightarrow> nat \<Rightarrow> byte list \<Rightarrow> byte list option" where
  "wr_bytes mem i bs = (if 2 * i + length bs \<le> length mem then Some (blit (2 * i) bs mem) else None)"

definition le16 :: "int \<Rightarrow> byte list" where
  "le16 v = [byte_of v, byte_of (v div 256)]"

definition wr_w16 :: "byte list \<Rightarrow> nat \<Rightarrow> int \<Rightarrow> byte list option" where
  "wr_w16 mem i v = wr_bytes mem i (le16 v)"

text \<open>\<open>pw16_writeAddress[0] = (pw16_writeAddress[0] & keep) | v\<close>\<close>

definition wr_instr :: "int \<Rightarrow> int \<Rightarrow> byte list \<Rightarrow> byte list option" where
  "wr_instr keep v mem = do { w \<leftarrow> rd_w16 mem 0; wr_w16 mem 0 ((w AND keep) OR v) }"

section \<open>The report of the signal side\<close>

record dsp_info =
  di_playedOutTS :: int
  di_samplesLeft :: int
  di_MD :: int
  di_lastMode :: int
  di_frameLen :: int

definition read_dsp_info :: "byte list \<Rightarrow> dsp_info option" where
  "read_dsp_info mem = do {
     w0 \<leftarrow> rd_w16 mem 0; w1 \<leftarrow> rd_w16 mem 1; w2 \<leftarrow> rd_w16 mem 2; w3 \<leftarrow> rd_w16 mem 3;
     w4 \<leftarrow> rd_w16 mem 4; w5 \<leftarrow> rd_w16 mem 5;
     Some \<lparr>di_playedOutTS = u16 w0 + 65536 * u16 w1, di_samplesLeft = u16 w2, di_MD = w3,
       di_lastMode = w4, di_frameLen = w5\<rparr> }"

section \<open>The step and its local variables\<close>

record sig_state =
  sg_mcu :: mcu
  sg_mem :: "byte list"
  sg_block :: nat
  sg_info :: dsp_info
  sg_late :: bool
  sg_playDtmf :: int
  sg_bgnOnly :: bool
  sg_availableTS :: int
  sg_bufferpos :: int
  sg_payloadType :: int
  sg_instr :: int
  sg_wanted :: int
  sg_totalTS :: int

text \<open>
  A part of the step either returns from it with a code (\<open>Some r\<close>) or goes on (\<open>None\<close>); an
  access out of bounds is \<open>None\<close> as everywhere.
\<close>

type_synonym sig_part = "sig_state \<Rightarrow> (int option \<times> sig_state) option"

definition sig_then :: "sig_part \<Rightarrow> sig_part \<Rightarrow> sig_part" where
  "sig_then f g s = do { (r, s) \<leftarrow> f s; case r of Some _ \<Rightarrow> Some (r, s) | None \<Rightarrow> g s }"

definition sig_write :: "nat \<Rightarrow> int \<Rightarrow> sig_state \<Rightarrow> sig_state option" where
  "sig_write i v s = do { mem \<leftarrow> wr_w16 (sg_mem s) i v; Some (s\<lparr>sg_mem := mem\<rparr>) }"

definition sig_instr :: "int \<Rightarrow> int \<Rightarrow> sig_state \<Rightarrow> sig_state option" where
  "sig_instr keep v s = do { mem \<leftarrow> wr_instr keep v (sg_mem s); Some (s\<lparr>sg_mem := mem\<rparr>) }"

text \<open>Close the blocks with one of size zero, set the instruction, and return.\<close>

definition sig_finish :: "int \<Rightarrow> sig_part" where
  "sig_finish v s = do {
     s \<leftarrow> sig_instr 0x0fff v s;
     s \<leftarrow> sig_write (sg_block s) 0 s;
     Some (Some 0, s) }"

abbreviation sg_buffer :: "sig_state \<Rightarrow> packet_buf" where "sg_buffer s \<equiv> mc_PacketBuffer (sg_mcu s)"
abbreviation sg_db :: "sig_state \<Rightarrow> codec_db" where "sg_db s \<equiv> mc_codec_DB (sg_mcu s)"
abbreviation sg_stat :: "sig_state \<Rightarrow> bufstats" where "sg_stat s \<equiv> mc_BufferStat (sg_mcu s)"

definition set_mcu :: "(mcu \<Rightarrow> mcu) \<Rightarrow> sig_state \<Rightarrow> sig_state" where
  "set_mcu f s = s\<lparr>sg_mcu := f (sg_mcu s)\<rparr>"

definition set_buffer :: "packet_buf \<Rightarrow> sig_state \<Rightarrow> sig_state" where
  "set_buffer b = set_mcu (\<lambda>m. m\<lparr>mc_PacketBuffer := b\<rparr>)"

definition set_stat :: "bufstats \<Rightarrow> sig_state \<Rightarrow> sig_state" where
  "set_stat bs = set_mcu (\<lambda>m. m\<lparr>mc_BufferStat := bs\<rparr>)"

section \<open>Reading the report\<close>

definition sig_start :: "mcu \<Rightarrow> byte list \<Rightarrow> sig_state option" where
  "sig_start m mem =
     (let m = m\<lparr>mc_lastReportTS := u32 (mc_lastReportTS m + mc_timestampsPerCall m),
            mc_PacketBuffer := WebRtcNetEQ_IncrementWaitingTimes (mc_PacketBuffer m)\<rparr>
      in do {
        info \<leftarrow> read_dsp_info mem;
        mem \<leftarrow> wr_w16 mem 0 0; mem \<leftarrow> wr_w16 mem 1 0; mem \<leftarrow> wr_w16 mem 2 0;
        Some \<lparr>sg_mcu = m, sg_mem = mem, sg_block = 3, sg_info = info, sg_late = False, sg_playDtmf = 0,
          sg_bgnOnly = False, sg_availableTS = 0, sg_bufferpos = -1, sg_payloadType = -1, sg_instr = 0,
          sg_wanted = 0, sg_totalTS = 0\<rparr> })"

definition has_flag :: "sig_state \<Rightarrow> int \<Rightarrow> bool" where
  "has_flag s f \<longleftrightarrow> di_lastMode (sg_info s) AND f \<noteq> 0"

definition drop_flag :: "int \<Rightarrow> sig_state \<Rightarrow> sig_state" where
  "drop_flag f s = s\<lparr>sg_info := (sg_info s)\<lparr>di_lastMode := di_lastMode (sg_info s) XOR f\<rparr>\<rparr>"

definition sig_flags :: "sig_state \<Rightarrow> sig_state" where
  "sig_flags s =
     (let s = (if has_flag s MODE_AWAITING_CODEC_PTR
               then drop_flag MODE_AWAITING_CODEC_PTR
                 (if mc_new_codec (sg_mcu s) \<noteq> 1 then set_mcu (\<lambda>m. m\<lparr>mc_current_Codec := -1\<rparr>) s else s)
               else s);
          s = (if has_flag s MODE_MASTER_DTMF_SIGNAL
               then drop_flag MODE_MASTER_DTMF_SIGNAL (s\<lparr>sg_playDtmf := 1\<rparr>) else s);
          s = (if has_flag s MODE_USING_STEREO
               then drop_flag MODE_USING_STEREO (set_mcu (\<lambda>m. (if mc_usingStereo m = 0
                 then set_Automode (snd (WebRtcNetEQ_ResetAutomode (mc_Automode m)
                        (int (pb_maxInsertPositions (mc_PacketBuffer m))))) m
                 else m)\<lparr>mc_usingStereo := 1\<rparr>) s)
               else set_mcu (\<lambda>m. m\<lparr>mc_usingStereo := 0\<rparr>) s)
      in if has_flag s MODE_BGN_ONLY then drop_flag MODE_BGN_ONLY (s\<lparr>sg_bgnOnly := True\<rparr>) else s)"

definition sig_cng_clock :: "sig_state \<Rightarrow> sig_state" where
  "sig_cng_clock s =
     (let mode = di_lastMode (sg_info s); bs = sg_stat s
      in if mode = MODE_RFC3389CNG \<or> mode = MODE_CODEC_INTERNAL_CNG \<or> mode = MODE_EXPAND
         then set_stat (bs\<lparr>bs_CNGplayedTS := s32 (bs_CNGplayedTS bs + mc_timestampsPerCall (sg_mcu s)),
                bs_cngOn := (if mode = MODE_RFC3389CNG then CNG_RFC3389_ON
                  else if mode = MODE_CODEC_INTERNAL_CNG then CNG_INTERNAL_ON else bs_cngOn bs)\<rparr>) s
         else s)"

definition sig_frame_len :: "sig_state \<Rightarrow> sig_state" where
  "sig_frame_len s = (if di_frameLen (sg_info s) > 0
     then set_buffer ((sg_buffer s)\<lparr>pb_packSizeSamples := di_frameLen (sg_info s)\<rparr>) s else s)"

section \<open>Taking a packet out of the buffer\<close>

text \<open>
  The payload goes straight into the shared memory behind the word of its length, whose top bit marks a
  redundant payload; the result is the code of the extraction.
\<close>

definition sig_extract :: "sig_state \<Rightarrow> (int \<times> sig_state) option" where
  "sig_extract s = do {
     (i_res, p, b, waitingTime) \<leftarrow> WebRtcNetEQ_PacketBufferExtract (sg_buffer s) rtp_blank (sg_bufferpos s);
     let s = set_buffer b s
     in if i_res < 0 then Some (i_res, s)
        else do {
          mem \<leftarrow> wr_bytes (sg_mem s) (sg_block s + 1) (rtp_payload p);
          t \<leftarrow> waitingTime;
          m \<leftarrow> WebRtcNetEQ_StoreWaitingTime (sg_mcu s) t;
          mem \<leftarrow> wr_w16 mem (sg_block s)
            (if rtp_rcuPlCntr p > 0 then rtp_payloadLen p OR DSP_CODEC_RED_FLAG else rtp_payloadLen p);
          Some (i_res, s\<lparr>sg_mcu := m, sg_mem := mem,
            sg_block := sg_block s + pb_words (rtp_payloadLen p) + 1\<rparr>) } }"

text \<open>The outputs of the search for the oldest packet.\<close>

definition sig_find :: "int \<Rightarrow> bool \<Rightarrow> sig_state \<Rightarrow> int \<times> sig_state" where
  "sig_find ts erase s =
     (let (i_res, b, out) = WebRtcNetEQ_PacketBufferFindLowestTimestamp (sg_buffer s) ts erase;
          s = set_buffer b s
      in (i_res, case out of None \<Rightarrow> s
          | Some (av, pos, pt) \<Rightarrow> s\<lparr>sg_availableTS := av, sg_bufferpos := pos, sg_payloadType := pt\<rparr>))"

section \<open>The oldest packet\<close>

text \<open>A late packet of a multiple description codec (there is none: \<open>WebRtcNetEQ_DbIsMDCodec\<close>).\<close>

definition sig_late_packet :: sig_part where
  "sig_late_packet s =
     (if mc_new_codec (sg_mcu s) \<noteq> 1 \<and> WebRtcNetEQ_DbIsMDCodec (mc_current_Codec (sg_mcu s))
      then let s = snd (sig_find (mc_timeStamp (sg_mcu s)) True s)
      in if mc_timeStamp (sg_mcu s) = sg_availableTS s
           \<and> mc_timeStamp (sg_mcu s) < di_playedOutTS (sg_info s) \<and> sg_bufferpos s \<noteq> -1
         then do {
           pt \<leftarrow> WebRtcNetEQ_DbGetPayload (sg_db s) (mc_current_Codec (sg_mcu s));
           if pt = sg_payloadType s
           then do {
             (i_res, s) \<leftarrow> sig_extract s;
             if i_res < 0 then Some (Some i_res, s)
             else do {
               s \<leftarrow> sig_write (sg_block s) 0 s;
               s \<leftarrow> sig_instr 0xf0ff DSP_CODEC_ADD_LATE_PKT s;
               Some (None, s\<lparr>sg_late := True\<rparr>) } }
           else Some (None, s) }
         else Some (None, s)
      else Some (None, s))"

definition sig_find_first :: sig_part where
  "sig_find_first s =
     (let (i_res, s) = sig_find (di_playedOutTS (sg_info s)) (mc_new_codec (sg_mcu s) = 0) s
      in Some (if i_res < 0 then Some i_res else None, s))"

text \<open>
  While comfort noise is on, a comfort noise packet that is not newer than what was played
  last is thrown away, and the next one is looked at.
\<close>

definition stale_cng :: "sig_state \<Rightarrow> bool" where
  "stale_cng s \<longleftrightarrow> sg_bufferpos s \<noteq> -1 \<and> WebRtcNetEQ_DbIsCNGPayload (sg_db s) (sg_payloadType s)
     \<and> di_playedOutTS (sg_info s) \<ge> sg_availableTS s"

definition drop_packet :: "sig_state \<Rightarrow> sig_state option" where
  "drop_packet s = do {
     _ \<leftarrow> geti (pb_slots (sg_buffer s)) (sg_bufferpos s);
     Some (set_buffer (pb_clear_slot (nat (sg_bufferpos s)) (sg_buffer s)) s) }"

partial_function (option) sig_discard :: "sig_state \<Rightarrow> sig_state option" where
  "sig_discard s =
     (if stale_cng s
      then Option.bind (drop_packet s) (\<lambda>s.
        sig_discard (snd (sig_find (di_playedOutTS (sg_info s)) (mc_new_codec (sg_mcu s) = 0) s)))
      else Some s)"

declare sig_discard.simps [code]

definition sig_stale_cng :: sig_part where
  "sig_stale_cng s =
     (if bs_cngOn (sg_stat s) = CNG_RFC3389_ON then do { s \<leftarrow> sig_discard s; Some (None, s) }
      else Some (None, s))"

section \<open>The decision\<close>

definition WebRtcNetEQ_UpdatePackSizeSamples ::
    "(int \<Rightarrow> int \<Rightarrow> byte list \<Rightarrow> int \<Rightarrow> int) \<Rightarrow> mcu \<Rightarrow> int \<Rightarrow> int \<Rightarrow> int \<Rightarrow> int option" where
  "WebRtcNetEQ_UpdatePackSizeSamples call_duration inst buffer_pos payload_type pack_size_samples =
     (if buffer_pos < 0 then Some pack_size_samples
      else do {
        codec_pos \<leftarrow> WebRtcNetEQ_DbGetCodec (mc_codec_DB inst) payload_type;
        if codec_pos < 0 then Some pack_size_samples
        else do {
          codec_pos \<leftarrow> geti (db_position (mc_codec_DB inst)) codec_pos;
          if codec_pos < 0 then Some pack_size_samples
          else do {
            n \<leftarrow> WebRtcNetEQ_PacketBufferGetPacketSize call_duration (mc_PacketBuffer inst) (nat buffer_pos)
                  (mc_codec_DB inst) codec_pos pack_size_samples (mc_av_sync inst);
            Some (if n > 0 then n else pack_size_samples) } } })"

definition sig_pack_size :: "(int \<Rightarrow> int \<Rightarrow> byte list \<Rightarrow> int \<Rightarrow> int) \<Rightarrow> int \<Rightarrow> sig_state \<Rightarrow> sig_state option" where
  "sig_pack_size call_duration guess s = do {
     n \<leftarrow> WebRtcNetEQ_UpdatePackSizeSamples call_duration (sg_mcu s) (sg_bufferpos s) (sg_payloadType s) guess;
     Some (set_buffer ((sg_buffer s)\<lparr>pb_packSizeSamples := u16 n\<rparr>) s) }"

text \<open>A telephone event that is due goes into the first block.\<close>

definition sig_dtmf :: "sig_state \<Rightarrow> sig_state option" where
  "sig_dtmf s = do {
     (r, out, d) \<leftarrow> WebRtcNetEQ_DtmfDecode (mc_DTMF (sg_mcu s))
       (u32 (di_playedOutTS (sg_info s) + bs_CNGplayedTS (sg_stat s)));
     let s = set_mcu (\<lambda>m. m\<lparr>mc_DTMF := d\<rparr>) s
     in do {
       s \<leftarrow> (case out of None \<Rightarrow> Some s
          | Some (event, vol) \<Rightarrow> do {
              s \<leftarrow> sig_write (sg_block s + 1) event s; sig_write (sg_block s + 2) vol s });
       if r > 0
       then do {
         s \<leftarrow> sig_instr 0xffff DSP_DTMF_PAYLOAD (s\<lparr>sg_playDtmf := 1\<rparr>);
         s \<leftarrow> sig_write (sg_block s) 4 s;
         Some (s\<lparr>sg_block := sg_block s + 3\<rparr>) }
       else Some s } }"

definition sig_fs_mult :: "mcu \<Rightarrow> int" where
  "sig_fs_mult m = WebRtcSpl_DivW32W16ResW16 (mc_fs m) 8000"

definition sig_decide :: "(int \<Rightarrow> int \<Rightarrow> byte list \<Rightarrow> int \<Rightarrow> int) \<Rightarrow> int \<Rightarrow> sig_state \<Rightarrow> sig_state option" where
  "sig_decide call_duration fs_mult s = do {
     bufsize \<leftarrow> WebRtcNetEQ_PacketBufferGetSize call_duration (sg_buffer s) (sg_db s) (mc_av_sync (sg_mcu s));
     let s = (if time_scaled (di_lastMode (sg_info s))
              then set_mcu (\<lambda>m. set_Automode ((mc_Automode m)\<lparr>am_sampleMemory :=
                s32 (am_sampleMemory (mc_Automode m) - (di_samplesLeft (sg_info s) + mc_timestampsPerCall m))\<rparr>) m) s
              else s);
         bufsize = WebRtcSpl_DivW32W16 (s32 (bufsize + di_samplesLeft (sg_info s))) fs_mult
     in do {
       s \<leftarrow> sig_dtmf s;
       s \<leftarrow> sig_pack_size call_duration (pb_packSizeSamples (sg_buffer s)) s;
       let m = sg_mcu s;
           (instr, bs) = WebRtcNetEQ_BufstatsDecision (sg_stat s) (s16 (pb_packSizeSamples (sg_buffer s))) bufsize
             (di_playedOutTS (sg_info s)) (sg_availableTS s) (sg_bufferpos s = -1)
             (WebRtcNetEQ_DbIsCNGPayload (sg_db s) (sg_payloadType s)) (di_lastMode (sg_info s))
             (mc_NetEqPlayoutMode m) (mc_timestampsPerCall m) (mc_NoOfExpandCalls m) fs_mult (sg_bgnOnly s) (sg_playDtmf s);
           s = (set_stat bs s)\<lparr>sg_instr := instr\<rparr>
       in Some (if mc_lastReportTS (sg_mcu s) > u32 (mc_fs (sg_mcu s) * MAX_LOSS_REPORT_PERIOD)
                then set_mcu WebRtcNetEQ_ResetMcuInCallStats s else s) } }"

text \<open>Enough decoded samples, and nothing that needs more of them: play.\<close>

definition sig_enough :: sig_part where
  "sig_enough s =
     (if di_samplesLeft (sg_info s) \<ge> mc_timestampsPerCall (sg_mcu s)
         \<and> sg_instr s \<notin> {BUFSTATS_DO_ACCELERATE, BUFSTATS_DO_MERGE, BUFSTATS_DO_PREEMPTIVE_EXPAND}
      then sig_finish DSP_INSTR_NORMAL s
      else Some (None, set_mcu (\<lambda>m. m\<lparr>mc_NoOfExpandCalls := count_expands (sg_instr s) (mc_NoOfExpandCalls m)\<rparr>) s))"

section \<open>A new codec\<close>

text \<open>
  The structure handed to the signal side: the codec in use, or, before there is one, a cleared structure
  with a sample rate, that of the comfort noise packet in hand if there is one.  The
  result is the error or the functions, the sample rate and the state.
\<close>

definition sig_cinst :: "codec_funcs \<times> int \<Rightarrow> sig_state \<Rightarrow> (int \<times> codec_funcs \<times> int \<times> sig_state) option" where
  "sig_cinst old s =
     (if mc_current_Codec (sg_mcu s) \<noteq> -1
      then do {
        (i_res, cinst, fs) \<leftarrow> WebRtcNetEQ_DbGetPtrs (sg_db s) (mc_current_Codec (sg_mcu s)) old;
        Some (i_res, cinst, fs, s) }
      else do {
        s \<leftarrow> (if WebRtcNetEQ_DbIsCNGPayload (sg_db s) (sg_payloadType s)
          then do {
            tempFs \<leftarrow> WebRtcNetEQ_DbGetSampleRate (sg_db s) (sg_payloadType s);
            let tempFs = u16 tempFs
            in Some (if tempFs > 32000 then set_mcu (\<lambda>m. m\<lparr>mc_fs := 32000\<rparr>) s
                     else if tempFs > 0 then set_mcu (\<lambda>m. m\<lparr>mc_fs := tempFs\<rparr>) s else s) }
          else Some s);
        Some (0, null_funcs, mc_fs (sg_mcu s), s) })"

text \<open>A block of \<open>n\<close> bytes: the even length, then all the bytes; the next block begins behind the whole words.\<close>

definition sig_block :: "byte list \<Rightarrow> sig_state \<Rightarrow> sig_state option" where
  "sig_block bs s = do {
     s \<leftarrow> sig_write (sg_block s) (int (length bs div 2) * 2) s;
     mem \<leftarrow> wr_bytes (sg_mem s) (sg_block s + 1) bs;
     Some (s\<lparr>sg_mem := mem, sg_block := sg_block s + 1 + length bs div 2\<rparr>) }"

definition sig_new_codec ::
    "(int \<Rightarrow> int \<Rightarrow> byte list \<Rightarrow> int \<Rightarrow> int) \<Rightarrow> (codec_funcs \<Rightarrow> int \<Rightarrow> int \<Rightarrow> byte list) \<Rightarrow> (int \<Rightarrow> byte list)
      \<Rightarrow> codec_funcs \<times> int \<Rightarrow> sig_part" where
  "sig_new_codec call_duration cinst_bytes state_bytes old s =
     (if mc_new_codec (sg_mcu s) = 0 \<and> sg_instr s \<noteq> BUFSTAT_REINIT then Some (None, s)
      else do {
        s \<leftarrow> sig_write 0 0 (s\<lparr>sg_block := 3\<rparr>);
        let s = (set_mcu (\<lambda>m. m\<lparr>mc_timeStamp := sg_availableTS s\<rparr>) s)
                  \<lparr>sg_info := (sg_info s)\<lparr>di_playedOutTS := sg_availableTS s\<rparr>\<rparr>
        in do {
          (i_res, cinst, fs, s) \<leftarrow> sig_cinst old s;
          if i_res < 0 then Some (Some i_res, s)
          else do {
            s \<leftarrow> sig_block (cinst_bytes cinst fs (mc_timeStamp (sg_mcu s))) s;
            let (i_res, m) = WebRtcNetEQ_McuSetFs ((sg_mcu s)\<lparr>mc_new_codec := 0\<rparr>) fs;
                s = s\<lparr>sg_mcu := m\<rparr>
            in if i_res < 0 then Some (Some i_res, s)
            else do {
              s \<leftarrow> sig_pack_size call_duration (mc_timestampsPerCall (sg_mcu s) * 3) s;
              let s = set_mcu (\<lambda>m. set_Automode (snd (WebRtcNetEQ_ResetAutomode (mc_Automode m)
                        (int (pb_maxInsertPositions (mc_PacketBuffer m))))) m) s
              in do {
                (i_res, cng, fs) \<leftarrow> WebRtcNetEQ_DbGetPtrs (sg_db s) kDecoderCNG (cinst, fs);
                if i_res < 0 \<and> i_res \<noteq> CODEC_DB_NOT_EXIST1 then Some (Some i_res, s)
                else do {
                  s \<leftarrow> sig_block (state_bytes (codec_state cng)) s;
                  s \<leftarrow> sig_instr 0xf0ff DSP_CODEC_NEW_CODEC s;
                  let s = s\<lparr>sg_instr := (if sg_instr s = BUFSTATS_DO_RFC3389CNG_NOPACKET
                        \<or> sg_instr s = BUFSTATS_DO_RFC3389CNG_PACKET
                        then BUFSTATS_DO_RFC3389CNG_PACKET else BUFSTATS_DO_NORMAL)\<rparr>
                  in Some (None, set_mcu WebRtcNetEQ_ResetMcuInCallStats s) } } } } } })"

definition sig_reinit_decoder :: sig_part where
  "sig_reinit_decoder s =
     (if sg_instr s = BUFSTAT_REINIT_DECODER
      then do { s \<leftarrow> sig_instr 0xf0ff DSP_CODEC_RESET (s\<lparr>sg_instr := BUFSTATS_DO_NORMAL\<rparr>); Some (None, s) }
      else Some (None, s))"

section \<open>Instructions without a packet\<close>

definition sig_expand :: sig_part where
  "sig_expand s =
     (if sg_instr s \<noteq> BUFSTATS_DO_EXPAND then Some (None, s)
      else let s = set_mcu (\<lambda>m. m\<lparr>mc_timeStamp := di_playedOutTS (sg_info s)\<rparr>) s;
               md = WebRtcNetEQ_DbIsMDCodec (mc_current_Codec (sg_mcu s)) \<and> (di_MD (sg_info s) \<noteq> 0 \<or> sg_late s);
               s = (if md \<and> di_lastMode (sg_info s) \<noteq> MODE_ONE_DESCRIPTOR
                    then set_mcu (\<lambda>m. m\<lparr>mc_one_desc := 0\<rparr>) s else s)
           in if md \<and> mc_one_desc (sg_mcu s) < MAX_ONE_DESC
              then do {
                s \<leftarrow> sig_instr 0x0fff DSP_INSTR_NORMAL_ONE_DESC (set_mcu (\<lambda>m. m\<lparr>mc_one_desc := mc_one_desc m + 1,
                       mc_NoOfExpandCalls := max (mc_NoOfExpandCalls m - 1) 0\<rparr>) s);
                Some (Some 0, s) }
              else do {
                s \<leftarrow> sig_instr 0x0fff DSP_INSTR_EXPAND (if md then set_mcu (\<lambda>m. m\<lparr>mc_one_desc := 0\<rparr>) s else s);
                Some (Some 0, s) })"

definition sig_dtmf_only :: sig_part where
  "sig_dtmf_only s = do {
     let played = u32 (bs_CNGplayedTS (sg_stat s));
         jump = bs_CNGplayedTS (sg_stat s) > 0 \<and> di_lastMode (sg_info s) \<noteq> MODE_DTMF
     in do {
       s \<leftarrow> (if jump then do { s \<leftarrow> sig_write 1 (shr played 16) s; sig_write 2 (played AND 0xFFFF) s } else Some s);
       sig_finish DSP_INSTR_DTMF_GENERATE (set_mcu (\<lambda>m. m\<lparr>
         mc_timeStamp := u32 (di_playedOutTS (sg_info s) + (if jump then played else 0)),
         mc_BufferStat := (mc_BufferStat m)\<lparr>bs_CNGplayedTS := 0\<rparr>, mc_NoOfExpandCalls := 0\<rparr>) s) } }"

definition sig_no_packet :: sig_part where
  "sig_no_packet s =
     (if sg_instr s = BUFSTATS_DO_MERGE \<and> di_MD (sg_info s) \<noteq> 0 then sig_finish DSP_INSTR_NORMAL_ONE_DESC s
      else if sg_instr s = BUFSTATS_DO_RFC3389CNG_NOPACKET then sig_finish DSP_INSTR_DO_RFC3389CNG s
      else if sg_instr s = BUFSTATS_DO_INTERNAL_CNG_NOPACKET then sig_finish DSP_INSTR_DO_CODEC_INTERNAL_CNG s
      else if sg_instr s = BUFSTATS_DO_DTMF_ONLY then sig_dtmf_only s
      else Some (None, s))"

section \<open>How many samples are wanted\<close>

definition sig_time_scale :: "int \<Rightarrow> sig_part" where
  "sig_time_scale v s = sig_finish v (set_mcu (\<lambda>m. set_Automode ((mc_Automode m)\<lparr>
     am_sampleMemory := di_samplesLeft (sg_info s), am_prevTimeScale := 1\<rparr>) m) s)"

definition sig_accelerate :: "int \<Rightarrow> sig_part" where
  "sig_accelerate fs_mult s =
     (let left = di_samplesLeft (sg_info s); n = mc_timestampsPerCall (sg_mcu s);
          long = pb_packSizeSamples (sg_buffer s) \<ge> 240 * fs_mult
      in if left \<ge> 3 * 80 * fs_mult then sig_time_scale DSP_INSTR_ACCELERATE s
         else if left \<ge> 80 * fs_mult \<and> long then sig_finish DSP_INSTR_NORMAL s
         else if left < 80 * fs_mult \<and> long \<or> left \<ge> 2 * 80 * fs_mult
         then Some (None, s\<lparr>sg_wanted := s16 n\<rparr>)
         else Some (None, s\<lparr>sg_wanted := s16 (2 * n), sg_instr := BUFSTATS_DO_NORMAL\<rparr>))"

definition sig_preemptive :: "int \<Rightarrow> sig_part" where
  "sig_preemptive fs_mult s =
     (let left = di_samplesLeft (sg_info s); n = mc_timestampsPerCall (sg_mcu s);
          long = pb_packSizeSamples (sg_buffer s) \<ge> 240 * fs_mult
      in if left \<ge> 3 * 80 * fs_mult \<or> left \<ge> 80 * fs_mult \<and> long then sig_time_scale DSP_INSTR_PREEMPTIVE_EXPAND s
         else if left < 80 * fs_mult \<and> long \<or> left \<ge> 2 * 80 * fs_mult
         then Some (None, s\<lparr>sg_wanted := s16 n\<rparr>)
         else Some (None, s\<lparr>sg_wanted := s16 (2 * n)\<rparr>))"

definition sig_wanted :: "int \<Rightarrow> sig_part" where
  "sig_wanted fs_mult s =
     (if sg_instr s = BUFSTATS_DO_ACCELERATE then sig_accelerate fs_mult s
      else if sg_instr s = BUFSTATS_DO_PREEMPTIVE_EXPAND then sig_preemptive fs_mult s
      else Some (None, s\<lparr>sg_wanted := s16 (mc_timestampsPerCall (sg_mcu s))\<rparr>))"

section \<open>Taking packets out\<close>

text \<open>
  The loop: a packet is taken out, the next one is looked at, and it is taken too while more
  samples are wanted and it follows the last one.  \<open>prevTS\<close> is that of the first packet
  throughout.
\<close>

definition next_follows :: "int \<Rightarrow> int \<Rightarrow> int \<Rightarrow> packet_buf \<Rightarrow> pslot \<Rightarrow> bool" where
  "next_follows oldPT prevSeqNo prevTS b next \<longleftrightarrow> oldPT = sl_payloadType next
     \<and> (let w16_tmp = s16 (sl_seqNumber next - prevSeqNo); w32_tmp = s32 (sl_timeStamp next - prevTS)
        in w16_tmp = 1 \<or> w16_tmp = 0 \<and> w32_tmp = pb_packSizeSamples b)"

definition sig_next :: "int \<Rightarrow> int \<Rightarrow> int \<Rightarrow> sig_state \<Rightarrow> (bool \<times> int) option" where
  "sig_next oldPT prevSeqNo prevTS s =
     (if sg_bufferpos s > -1
      then do {
        next \<leftarrow> geti (pb_slots (sg_buffer s)) (sg_bufferpos s);
        Some (next_follows oldPT prevSeqNo prevTS (sg_buffer s) next,
          if oldPT = sl_payloadType next then sl_seqNumber next else prevSeqNo) }
      else Some (False, prevSeqNo))"

partial_function (option) sig_loop ::
    "(int \<Rightarrow> int \<Rightarrow> byte list \<Rightarrow> int \<Rightarrow> int) \<Rightarrow> int \<Rightarrow> int \<Rightarrow> int \<Rightarrow> int \<Rightarrow> sig_state \<Rightarrow> (int option \<times> sig_state) option" where
  "sig_loop call_duration oldTS oldPT prevTS prevSeqNo s =
     Option.bind (sig_extract (set_mcu (\<lambda>m. m\<lparr>mc_timeStamp := sg_availableTS s\<rparr>) s)) (\<lambda>(i_res, s).
       if i_res < 0 then Some (Some i_res, s)
       else Option.bind (Some (s\<lparr>sg_totalTS := s32 (sg_availableTS s - oldTS + pb_packSizeSamples (sg_buffer s))\<rparr>)) (\<lambda>s.
       Option.bind (Some (snd (sig_find (mc_timeStamp (sg_mcu s)) False s))) (\<lambda>s.
       Option.bind (sig_next oldPT prevSeqNo prevTS s) (\<lambda>(follows, prevSeqNo).
       Option.bind (sig_pack_size call_duration (pb_packSizeSamples (sg_buffer s)) s) (\<lambda>s.
         if sg_totalTS s < sg_wanted s \<and> follows
         then sig_loop call_duration oldTS oldPT prevTS prevSeqNo s
         else Some (None, s))))))"

declare sig_loop.simps [code]

definition sig_packets :: "(int \<Rightarrow> int \<Rightarrow> byte list \<Rightarrow> int \<Rightarrow> int) \<Rightarrow> sig_part" where
  "sig_packets call_duration s =
     (if sg_bufferpos s > -1 \<and> sg_instr s \<notin> {BUFSTATS_DO_ALTERNATIVE_PLC, BUFSTATS_DO_ALTERNATIVE_PLC_INC_TS,
          BUFSTATS_DO_AUDIO_REPETITION, BUFSTATS_DO_AUDIO_REPETITION_INC_TS}
      then let gap = u32 (sg_availableTS s - di_playedOutTS (sg_info s)); bs = sg_stat s in do {
        s \<leftarrow> sig_write 1 (shr gap 16) s;
        s \<leftarrow> sig_write 2 (gap AND 0xFFFF) s;
        first \<leftarrow> geti (pb_slots (sg_buffer s)) (sg_bufferpos s);
        s \<leftarrow> sig_instr 0xFF3F 0 (set_mcu (\<lambda>m. m\<lparr>
          mc_lostTS := (if bs_cngOn bs = CNG_OFF then u32 (mc_lostTS m + gap) else mc_lostTS m),
          mc_BufferStat := bs\<lparr>bs_CNGplayedTS := 0,
            bs_cngOn := (if sg_instr s \<noteq> BUFSTATS_DO_RFC3389CNG_PACKET then CNG_OFF else bs_cngOn bs)\<rparr>,
          mc_decoded_packet_sequence_number := sl_seqNumber first,
          mc_decoded_packet_timestamp := sl_timeStamp first\<rparr>) s);
        sig_loop call_duration (sg_availableTS s) (sl_payloadType first) (sl_timeStamp first) (sl_seqNumber first) s }
      else Some (None, s))"

section \<open>The instruction\<close>

definition sig_check_scale :: "sig_state \<Rightarrow> sig_state" where
  "sig_check_scale s =
     (if sg_instr s = BUFSTATS_DO_ACCELERATE \<or> sg_instr s = BUFSTATS_DO_PREEMPTIVE_EXPAND
      then if sg_totalTS s + di_samplesLeft (sg_info s) < 3 * mc_timestampsPerCall (sg_mcu s)
              \<and> sg_instr s = BUFSTATS_DO_ACCELERATE
           then s\<lparr>sg_instr := BUFSTATS_DO_NORMAL\<rparr>
           else set_mcu (\<lambda>m. set_Automode ((mc_Automode m)\<lparr>
             am_sampleMemory := s32 (di_samplesLeft (sg_info s) + sg_totalTS s), am_prevTimeScale := 1\<rparr>) m) s
      else s)"

definition dsp_instr :: "int \<Rightarrow> int option" where
  "dsp_instr instr = map_of [
     (BUFSTATS_DO_NORMAL, DSP_INSTR_NORMAL), (BUFSTATS_DO_ACCELERATE, DSP_INSTR_ACCELERATE),
     (BUFSTATS_DO_MERGE, DSP_INSTR_MERGE), (BUFSTATS_DO_RFC3389CNG_PACKET, DSP_INSTR_DO_RFC3389CNG),
     (BUFSTATS_DO_ALTERNATIVE_PLC, DSP_INSTR_DO_ALTERNATIVE_PLC),
     (BUFSTATS_DO_ALTERNATIVE_PLC_INC_TS, DSP_INSTR_DO_ALTERNATIVE_PLC_INC_TS),
     (BUFSTATS_DO_AUDIO_REPETITION, DSP_INSTR_DO_AUDIO_REPETITION),
     (BUFSTATS_DO_AUDIO_REPETITION_INC_TS, DSP_INSTR_DO_AUDIO_REPETITION_INC_TS),
     (BUFSTATS_DO_PREEMPTIVE_EXPAND, DSP_INSTR_PREEMPTIVE_EXPAND)] instr"

definition sig_write_instr :: sig_part where
  "sig_write_instr s = do {
     s \<leftarrow> sig_write (sg_block s) 0 s;
     case dsp_instr (sg_instr s) of
       None \<Rightarrow> Some (Some UNKNOWN_BUFSTAT_DECISION, s)
     | Some v \<Rightarrow> do {
         s \<leftarrow> (if sg_instr s \<in> {BUFSTATS_DO_ALTERNATIVE_PLC, BUFSTATS_DO_ALTERNATIVE_PLC_INC_TS,
                BUFSTATS_DO_AUDIO_REPETITION, BUFSTATS_DO_AUDIO_REPETITION_INC_TS} then sig_write 1 0 s else Some s);
         s \<leftarrow> sig_instr 0x0fff v s;
         Some (Some 0, set_mcu (\<lambda>m. m\<lparr>mc_timeStamp := di_playedOutTS (sg_info s)\<rparr>) s) } }"

section \<open>The step\<close>

definition sig_steps ::
    "(int \<Rightarrow> int \<Rightarrow> byte list \<Rightarrow> int \<Rightarrow> int) \<Rightarrow> (codec_funcs \<Rightarrow> int \<Rightarrow> int \<Rightarrow> byte list) \<Rightarrow> (int \<Rightarrow> byte list)
      \<Rightarrow> codec_funcs \<times> int \<Rightarrow> int \<Rightarrow> sig_part list" where
  "sig_steps call_duration cinst_bytes state_bytes old fs_mult =
     [sig_late_packet, sig_find_first, sig_stale_cng,
      (\<lambda>s. do { s \<leftarrow> sig_decide call_duration fs_mult s; Some (None, s) }), sig_enough,
      sig_new_codec call_duration cinst_bytes state_bytes old, sig_reinit_decoder, sig_expand, sig_no_packet,
      sig_wanted fs_mult, sig_packets call_duration, sig_write_instr \<circ> sig_check_scale]"

text \<open>The result is the return value, the control side and the shared memory.\<close>

definition WebRtcNetEQ_SignalMcu ::
    "(int \<Rightarrow> int \<Rightarrow> byte list \<Rightarrow> int \<Rightarrow> int) \<Rightarrow> (codec_funcs \<Rightarrow> int \<Rightarrow> int \<Rightarrow> byte list) \<Rightarrow> (int \<Rightarrow> byte list)
      \<Rightarrow> codec_funcs \<times> int \<Rightarrow> mcu \<Rightarrow> byte list \<Rightarrow> (int \<times> mcu \<times> byte list) option" where
  "WebRtcNetEQ_SignalMcu call_duration cinst_bytes state_bytes old inst mem = do {
     s \<leftarrow> sig_start inst mem;
     (r, s) \<leftarrow> foldr sig_then (sig_steps call_duration cinst_bytes state_bytes old (sig_fs_mult inst))
       (\<lambda>s. Some (None, s)) (sig_frame_len (sig_cng_clock (sig_flags s)));
     r \<leftarrow> r;
     Some (r, sg_mcu s, sg_mem s) }"

section \<open>Its entry points\<close>

text \<open>
  The addresses of the shared memory are not part of the state: the signal side passes the memory with every
  call, both addresses at once.
\<close>

definition WebRtcNetEQ_McuAddressInit :: "mcu \<Rightarrow> byte list option \<Rightarrow> (int \<times> mcu \<times> byte list option) option" where
  "WebRtcNetEQ_McuAddressInit inst Data2DspAddress =
     (let inst = inst\<lparr>mc_millisecondsPerCall := 10\<rparr>
      in case Data2DspAddress of
           None \<Rightarrow> Some (0, inst, None)
         | Some mem \<Rightarrow> do { mem \<leftarrow> wr_w16 mem 0 DSP_INSTR_EXPAND; Some (0, inst, Some mem) })"

definition WebRtcNetEQ_DSP2MCUinterrupt ::
    "(int \<Rightarrow> int \<Rightarrow> byte list \<Rightarrow> int \<Rightarrow> int) \<Rightarrow> (codec_funcs \<Rightarrow> int \<Rightarrow> int \<Rightarrow> byte list) \<Rightarrow> (int \<Rightarrow> byte list)
      \<Rightarrow> codec_funcs \<times> int \<Rightarrow> mcu \<Rightarrow> byte list \<Rightarrow> (int \<times> mcu \<times> byte list) option" where
  "WebRtcNetEQ_DSP2MCUinterrupt call_duration cinst_bytes state_bytes old inst pw16_shared_mem =
     WebRtcNetEQ_SignalMcu call_duration cinst_bytes state_bytes old inst pw16_shared_mem"

end
