(* ===== verification/Signal_Safe.thy ===== *)
theory Signal_Safe
  imports Signal_Mcu
begin

text \<open>
  The step of the control side is safe: with room in the shared memory for the payloads in
  the buffer it ends on every path, both loops included, without an access out of bounds,
  and leaves a well-formed state.
\<close>

section \<open>Total correctness of a part\<close>

text \<open>From a state with \<open>P\<close> the part goes on in one with \<open>Q\<close>, or returns with \<open>R\<close>.\<close>

definition sig_spec :: "(sig_state \<Rightarrow> bool) \<Rightarrow> sig_part \<Rightarrow> (sig_state \<Rightarrow> bool) \<Rightarrow> (int \<Rightarrow> sig_state \<Rightarrow> bool) \<Rightarrow> bool" where
  "sig_spec P f Q R \<longleftrightarrow> (\<forall>s. P s \<longrightarrow> (\<exists>r s'. f s = Some (r, s') \<and> (case r of None \<Rightarrow> Q s' | Some x \<Rightarrow> R x s')))"

lemma sig_specI:
  "(\<And>s. P s \<Longrightarrow> \<exists>r s'. f s = Some (r, s') \<and> (case r of None \<Rightarrow> Q s' | Some x \<Rightarrow> R x s')) \<Longrightarrow> sig_spec P f Q R"
  by (simp add: sig_spec_def)

lemma sig_specD:
  assumes "sig_spec P f Q R" "P s"
  obtains (goes_on) s' where "f s = Some (None, s')" "Q s'"
  | (returns) x s' where "f s = Some (Some x, s')" "R x s'"
proof -
  obtain r s' where "f s = Some (r, s')" "case r of None \<Rightarrow> Q s' | Some x \<Rightarrow> R x s'"
    using assms by (auto simp: sig_spec_def)
  then show thesis using goes_on returns by (cases r) auto
qed

lemma sig_spec_then: "sig_spec P f Q R \<Longrightarrow> sig_spec Q g Q' R \<Longrightarrow> sig_spec P (sig_then f g) Q' R"
  unfolding sig_spec_def [of P "sig_then f g"]
proof (intro allI impI)
  fix s assume f: "sig_spec P f Q R" and g: "sig_spec Q g Q' R" and "P s"
  show "\<exists>r s'. sig_then f g s = Some (r, s') \<and> (case r of None \<Rightarrow> Q' s' | Some x \<Rightarrow> R x s')"
    using f \<open>P s\<close>
  proof (cases rule: sig_specD)
    case (goes_on s')
    from g goes_on(2) show ?thesis by (cases rule: sig_specD) (auto simp: sig_then_def goes_on(1))
  qed (auto simp: sig_then_def)
qed

lemma sig_spec_skip: "sig_spec P (\<lambda>s. Some (None, s)) P R"
  by (simp add: sig_spec_def)

lemma sig_spec_weaken:
  assumes "sig_spec P f Q R" "\<And>s. P' s \<Longrightarrow> P s" "\<And>s. Q s \<Longrightarrow> Q' s"
  shows "sig_spec P' f Q' R"
proof (rule sig_specI)
  fix s assume "P' s"
  then have "P s" by (rule assms(2))
  with assms(1) show "\<exists>r s'. f s = Some (r, s') \<and> (case r of None \<Rightarrow> Q' s' | Some x \<Rightarrow> R x s')"
    by (cases rule: sig_specD) (auto dest: assms(3))
qed

section \<open>The shared memory\<close>

lemma wr_bytes_ok: "2 * i + length bs \<le> length mem \<Longrightarrow> \<exists>mem'. wr_bytes mem i bs = Some mem' \<and> length mem' = length mem"
  by (simp add: wr_bytes_def)

lemma length_le16 [simp]: "length (le16 v) = 2"
  by (simp add: le16_def)

lemma wr_w16_ok: "2 * i + 2 \<le> length mem \<Longrightarrow> \<exists>mem'. wr_w16 mem i v = Some mem' \<and> length mem' = length mem"
  using wr_bytes_ok [of i "le16 v" mem] by (simp add: wr_w16_def)

lemma rd_w16_ok: "2 * i + 2 \<le> length mem \<Longrightarrow> \<exists>w. rd_w16 mem i = Some w"
  by (simp add: rd_w16_def)

lemma wr_instr_ok: "2 \<le> length mem \<Longrightarrow> \<exists>mem'. wr_instr k v mem = Some mem' \<and> length mem' = length mem"
  using rd_w16_ok [of 0 mem] wr_w16_ok [of 0 mem] by (fastforce simp: wr_instr_def)

section \<open>Room for the payloads\<close>

text \<open>The words the packets in the buffer take in the shared memory, each with its length.\<close>

definition slot_room :: "pslot \<Rightarrow> nat" where
  "slot_room s = (if sl_used s then pb_words (sl_payloadLengthBytes s) + 1 else 0)"

definition pb_room :: "packet_buf \<Rightarrow> nat" where
  "pb_room b = sum_list (map slot_room (pb_slots b))"

lemma room_update:
  assumes "i < length ss"
  shows "sum_list (map slot_room (ss[i := s])) + slot_room (ss ! i) = sum_list (map slot_room ss) + slot_room s"
  using assms
proof (induction ss arbitrary: i)
  case (Cons t ss)
  then show ?case by (cases i) (auto simp: add.assoc)
qed simp

lemma room_mono: "(\<And>s. s \<in> set ss \<Longrightarrow> slot_room (f s) \<le> slot_room s) \<Longrightarrow>
  sum_list (map slot_room (map f ss)) \<le> sum_list (map slot_room ss)"
  by (induction ss) (auto intro: add_mono)

lemma pb_room_slots: "pb_slots b' = pb_slots b \<Longrightarrow> pb_room b' = pb_room b"
  by (simp add: pb_room_def)

lemma pb_room_fields [simp]:
  "pb_room (b\<lparr>pb_packSizeSamples := v\<rparr>) = pb_room b" "pb_room (b\<lparr>pb_discardedPackets := v\<rparr>) = pb_room b"
  by (simp_all add: pb_room_def)

lemma pb_inv_fields [simp]:
  "pb_inv (b\<lparr>pb_packSizeSamples := v\<rparr>) = pb_inv b" "pb_inv (b\<lparr>pb_discardedPackets := v\<rparr>) = pb_inv b"
  by (simp_all add: pb_inv_def)

lemma increment_ok:
  "pb_room (WebRtcNetEQ_IncrementWaitingTimes b) = pb_room b"
  "pb_inv (WebRtcNetEQ_IncrementWaitingTimes b) = pb_inv b"
proof -
  let ?f = "\<lambda>s. if sl_used s then s\<lparr>sl_waitingTime := sl_waitingTime s + 1\<rparr> else s"
  have "slot_room \<circ> ?f = slot_room" by (auto simp: slot_room_def)
  then show "pb_room (WebRtcNetEQ_IncrementWaitingTimes b) = pb_room b"
    by (simp add: pb_room_def WebRtcNetEQ_IncrementWaitingTimes_def)
  have "count_if sl_used (map ?f ss) = count_if sl_used ss" for ss
    by (induction ss) (auto simp: count_if_def)
  moreover have "sl_ok M (?f s) = sl_ok M s" for M s by (simp add: sl_ok_def sl_end_def)
  then have "(\<forall>s \<in> set (map ?f ss). sl_ok M s) = (\<forall>s \<in> set ss. sl_ok M s)" for M ss
    by (simp only: set_map ball_simps)
  ultimately show "pb_inv (WebRtcNetEQ_IncrementWaitingTimes b) = pb_inv b"
    by (simp del: set_map add: pb_inv_def WebRtcNetEQ_IncrementWaitingTimes_def)
qed

text \<open>A position in the buffer: none, or that of a packet.\<close>

definition pos_ok :: "packet_buf \<Rightarrow> int \<Rightarrow> bool" where
  "pos_ok b pos \<longleftrightarrow> pos = -1 \<or> 0 \<le> pos \<and> nat pos < length (pb_slots b) \<and> sl_used (pb_slots b ! nat pos)"

lemma find_ok:
  assumes "pb_inv b"
  shows "\<exists>b' av pos pt. WebRtcNetEQ_PacketBufferFindLowestTimestamp b ts e = (0, b', Some (av, pos, pt))
    \<and> pb_inv b' \<and> pb_room b' \<le> pb_room b \<and> pos_ok b' pos \<and> (\<not> e \<longrightarrow> pb_slots b' = pb_slots b)"
proof -
  obtain ss c n where f: "pb_find_lowest e ts (pb_slots b) 0 pb_no_candidate = (ss, c, n)"
    by (cases "pb_find_lowest e ts (pb_slots b) 0 pb_no_candidate") auto
  note r = find_lowest_correct [OF f]
  have ini: "pb_initialized b" using assms by (simp add: pb_inv_def)
  have room: "sum_list (map slot_room ss) \<le> sum_list (map slot_room (pb_slots b))"
    unfolding r(1) by (rule room_mono) (simp add: slot_room_def pb_erase_def)
  obtain r' b' out where find: "WebRtcNetEQ_PacketBufferFindLowestTimestamp b ts e = (r', b', out)"
    by (cases "WebRtcNetEQ_PacketBufferFindLowestTimestamp b ts e") auto
  have pos: "pos_ok b' (cd_position c)" if "pb_slots b' = ss"
    using r(3) that by (auto simp: pos_ok_def pb_no_candidate_def pb_cand_def pb_better_def r(1))
  have keep: "ss = pb_slots b" if "\<not> e" using that by (auto simp: r(1) pb_erase_def pb_erased_def intro!: map_idI)
  show ?thesis
    using find f ini find_lowest_inv [OF assms find] pos room keep
    by (auto simp: WebRtcNetEQ_PacketBufferFindLowestTimestamp_def pb_room_def pos_ok_def split: if_splits)
qed

lemma extract_ok:
  assumes "pb_inv b" "pos_ok b pos" "pos \<noteq> -1"
  obtains p b' t where "WebRtcNetEQ_PacketBufferExtract b p0 pos = Some (0, p, b', Some t)" "pb_inv b'"
    "pb_room b' + pb_words (rtp_payloadLen p) + 1 = pb_room b" "length (rtp_payload p) = 2 * pb_words (rtp_payloadLen p)"
proof -
  define i where "i = nat pos"
  have i: "pos = int i" "i < length (pb_slots b)" "sl_used (pb_slots b ! i)"
    using assms(2,3) by (auto simp: pos_ok_def i_def)
  note eq = extract_eq [OF assms(1) i(2,3), of p0]
  have "sl_ok (nat (pb_memorySizeW16 b)) (pb_slots b ! i)" using assms(1) i(2) by (simp add: pb_inv_def)
  then have "2 * sl_payloadLocation (pb_slots b ! i) + 2 * pb_words (sl_payloadLengthBytes (pb_slots b ! i)) \<le> length (pb_memory b)"
    using assms(1) i(3) by (auto simp: sl_ok_def sl_end_def pb_inv_def)
  then show thesis
    using room_update [OF i(2), of "(pb_slots b ! i)\<lparr>sl_payloadType := -1, sl_payloadLengthBytes := 0,
           sl_seqNumber := 0, sl_timeStamp := 0, sl_waitingTime := 0, sl_payloadLocation := 0\<rparr>"] i
    by (intro that [OF eq [folded i(1)] extract_inv [OF assms(1) eq]]) (simp_all add: pb_room_def slot_room_def)
qed

section \<open>The state between the parts\<close>

text \<open>
  Well formed, over a fixed codec database and shared memory, with \<open>C\<close> words left beside the
  payloads that are still in the buffer.
\<close>

definition sig_inv :: "codec_db \<Rightarrow> nat \<Rightarrow> nat \<Rightarrow> sig_state \<Rightarrow> bool" where
  "sig_inv db M C s \<longleftrightarrow> mcu_inv (sg_mcu s) \<and> sg_db s = db \<and> length (sg_mem s) = M
     \<and> 3 \<le> sg_block s \<and> 2 * (sg_block s + C + pb_room (sg_buffer s)) \<le> M"

definition sig_at :: "codec_db \<Rightarrow> nat \<Rightarrow> nat \<Rightarrow> sig_state \<Rightarrow> bool" where
  "sig_at db M C s \<longleftrightarrow> sig_inv db M C s \<and> pos_ok (sg_buffer s) (sg_bufferpos s)"

definition sig_codes :: "int set" where
  "sig_codes = {0, CODEC_DB_NOT_EXIST1, CODEC_DB_UNSUPPORTED_FS}"

definition sig_done :: "codec_db \<Rightarrow> nat \<Rightarrow> int \<Rightarrow> sig_state \<Rightarrow> bool" where
  "sig_done db M r s \<longleftrightarrow> r \<in> sig_codes \<and> mcu_inv (sg_mcu s) \<and> sg_db s = db \<and> length (sg_mem s) = M"

lemma mcu_inv_fields [simp]:
  "mcu_inv (m\<lparr>mc_timeStamp := v\<rparr>) = mcu_inv m" "mcu_inv (m\<lparr>mc_lastReportTS := v\<rparr>) = mcu_inv m"
  "mcu_inv (m\<lparr>mc_usingStereo := n\<rparr>) = mcu_inv m" "mcu_inv (m\<lparr>mc_NoOfExpandCalls := v\<rparr>) = mcu_inv m"
  "mcu_inv (m\<lparr>mc_one_desc := v\<rparr>) = mcu_inv m" "mcu_inv (m\<lparr>mc_lostTS := v\<rparr>) = mcu_inv m"
  "mcu_inv (m\<lparr>mc_new_codec := v\<rparr>) = mcu_inv m"
  "mcu_inv (m\<lparr>mc_decoded_packet_sequence_number := v\<rparr>) = mcu_inv m"
  "mcu_inv (m\<lparr>mc_decoded_packet_timestamp := v\<rparr>) = mcu_inv m"
  by (simp_all add: mcu_inv_def wt_inv_def)

lemma mcu_inv_sets:
  "mcu_inv m \<Longrightarrow> mcu_inv (m\<lparr>mc_current_Codec := -1\<rparr>)"
  "mcu_inv m \<Longrightarrow> am_inv (bs_Automode bs) \<Longrightarrow> mcu_inv (m\<lparr>mc_BufferStat := bs\<rparr>)"
  "mcu_inv m \<Longrightarrow> pb_inv b \<Longrightarrow> mcu_inv (m\<lparr>mc_PacketBuffer := b\<rparr>)"
  "mcu_inv m \<Longrightarrow> dtmf_inv d \<Longrightarrow> mcu_inv (m\<lparr>mc_DTMF := d\<rparr>)"
  "mcu_inv m \<Longrightarrow> am_inv am \<Longrightarrow> mcu_inv (set_Automode am m)"
  by (simp_all add: mcu_inv_def wt_inv_def set_Automode_def)

lemma am_inv_scale [simp]:
  "am_inv (am\<lparr>am_sampleMemory := v\<rparr>) = am_inv am" "am_inv (am\<lparr>am_prevTimeScale := v\<rparr>) = am_inv am"
  "am_inv (am\<lparr>am_timescaleHoldOff := v\<rparr>) = am_inv am" "am_inv (am\<lparr>am_packetIatCountSamp := v\<rparr>) = am_inv am"
  "am_inv (am\<lparr>am_peakIatCountSamp := v\<rparr>) = am_inv am"
  by (simp_all add: am_inv_def)

lemma reset_am_inv: "am_inv (snd (WebRtcNetEQ_ResetAutomode am k))"
  by (rule am_reach_inv [OF am_reach.reset])

lemma set_Automode_fields [simp]:
  "mc_codec_DB (set_Automode am m) = mc_codec_DB m" "mc_PacketBuffer (set_Automode am m) = mc_PacketBuffer m"
  "bs_Automode (mc_BufferStat (set_Automode am m)) = am"
  by (simp_all add: set_Automode_def)

text \<open>Changes of the state that keep what is left.\<close>

lemma sig_inv_mcu:
  "sig_inv db M C s \<Longrightarrow> mcu_inv m \<Longrightarrow> mc_codec_DB m = db \<Longrightarrow> pb_room (mc_PacketBuffer m) \<le> pb_room (sg_buffer s) \<Longrightarrow>
   sig_inv db M C (s\<lparr>sg_mcu := m\<rparr>)"
  by (simp add: sig_inv_def)

lemma sig_at_mcu:
  "sig_at db M C s \<Longrightarrow> mcu_inv m \<Longrightarrow> mc_codec_DB m = db \<Longrightarrow> pb_slots (mc_PacketBuffer m) = pb_slots (sg_buffer s) \<Longrightarrow>
   sig_at db M C (s\<lparr>sg_mcu := m\<rparr>)"
  using pb_room_slots [of "mc_PacketBuffer m" "sg_buffer s"] by (simp add: sig_at_def sig_inv_mcu pos_ok_def)

lemma sig_inv_locals [simp]:
  "sig_inv db M C (s\<lparr>sg_info := i\<rparr>) = sig_inv db M C s" "sig_inv db M C (s\<lparr>sg_playDtmf := v\<rparr>) = sig_inv db M C s"
  "sig_inv db M C (s\<lparr>sg_bgnOnly := l\<rparr>) = sig_inv db M C s" "sig_inv db M C (s\<lparr>sg_late := l\<rparr>) = sig_inv db M C s"
  "sig_inv db M C (s\<lparr>sg_availableTS := v\<rparr>) = sig_inv db M C s" "sig_inv db M C (s\<lparr>sg_bufferpos := v\<rparr>) = sig_inv db M C s"
  "sig_inv db M C (s\<lparr>sg_payloadType := v\<rparr>) = sig_inv db M C s" "sig_inv db M C (s\<lparr>sg_instr := v\<rparr>) = sig_inv db M C s"
  "sig_inv db M C (s\<lparr>sg_wanted := v\<rparr>) = sig_inv db M C s" "sig_inv db M C (s\<lparr>sg_totalTS := v\<rparr>) = sig_inv db M C s"
  by (simp_all add: sig_inv_def)

lemma sig_at_locals [simp]:
  "sig_at db M C (s\<lparr>sg_info := i\<rparr>) = sig_at db M C s" "sig_at db M C (s\<lparr>sg_playDtmf := v\<rparr>) = sig_at db M C s"
  "sig_at db M C (s\<lparr>sg_instr := v\<rparr>) = sig_at db M C s"
  "sig_at db M C (s\<lparr>sg_wanted := v\<rparr>) = sig_at db M C s" "sig_at db M C (s\<lparr>sg_totalTS := v\<rparr>) = sig_at db M C s"
  by (simp_all add: sig_at_def)

lemma sig_inv_less: "sig_inv db M C s \<Longrightarrow> C' \<le> C \<Longrightarrow> sig_inv db M C' s"
  by (simp add: sig_inv_def)

lemma sig_at_less: "sig_at db M C s \<Longrightarrow> C' \<le> C \<Longrightarrow> sig_at db M C' s"
  by (auto simp: sig_at_def intro: sig_inv_less)

lemma sig_atD: "sig_at db M C s \<Longrightarrow> sig_inv db M C s"
  by (simp add: sig_at_def)

lemma sig_doneI: "sig_inv db M C s \<Longrightarrow> r \<in> sig_codes \<Longrightarrow> sig_done db M r s"
  by (simp add: sig_done_def sig_inv_def)

text \<open>Writing a word of the header or of the block being written.\<close>

lemma sig_write_ok:
  assumes "sig_inv db M C s" "i < sg_block s + C"
  obtains mem where "sig_write i v s = Some (s\<lparr>sg_mem := mem\<rparr>)" "sig_inv db M C (s\<lparr>sg_mem := mem\<rparr>)"
proof -
  have "2 * i + 2 \<le> length (sg_mem s)" using assms by (simp add: sig_inv_def)
  from wr_w16_ok [OF this, of v] obtain mem where "wr_w16 (sg_mem s) i v = Some mem" "length mem = length (sg_mem s)" by blast
  then show thesis using assms(1) by (intro that [of mem]) (simp_all add: sig_write_def sig_inv_def)
qed

lemma sig_instr_ok:
  assumes "sig_inv db M C s"
  obtains mem where "sig_instr k v s = Some (s\<lparr>sg_mem := mem\<rparr>)" "sig_inv db M C (s\<lparr>sg_mem := mem\<rparr>)"
proof -
  have "2 \<le> length (sg_mem s)" using assms by (simp add: sig_inv_def)
  from wr_instr_ok [OF this, of k v] obtain mem where "wr_instr k v (sg_mem s) = Some mem" "length mem = length (sg_mem s)" by blast
  then show thesis using assms(1) by (intro that [of mem]) (simp_all add: sig_instr_def sig_inv_def)
qed

lemma sig_at_mem: "sig_at db M C s \<Longrightarrow> sig_inv db M C (s\<lparr>sg_mem := mem\<rparr>) \<Longrightarrow> sig_at db M C (s\<lparr>sg_mem := mem\<rparr>)"
  by (simp add: sig_at_def)

lemma finish_ok:
  assumes "sig_inv db M C s" "0 < C"
  shows "\<exists>s'. sig_finish v s = Some (Some 0, s') \<and> sig_done db M 0 s'"
proof -
  obtain mem where 1: "sig_instr 0x0fff v s = Some (s\<lparr>sg_mem := mem\<rparr>)" "sig_inv db M C (s\<lparr>sg_mem := mem\<rparr>)"
    using sig_instr_ok [OF assms(1)] .
  have "sg_block s < sg_block (s\<lparr>sg_mem := mem\<rparr>) + C" using assms(2) by simp
  from sig_write_ok [OF 1(2) this, of 0] obtain mem' where
    "sig_write (sg_block s) 0 (s\<lparr>sg_mem := mem\<rparr>) = Some (s\<lparr>sg_mem := mem\<rparr>\<lparr>sg_mem := mem'\<rparr>)"
    "sig_inv db M C (s\<lparr>sg_mem := mem\<rparr>\<lparr>sg_mem := mem'\<rparr>)" .
  then show ?thesis using 1(1) sig_doneI [of db M C] by (auto simp: sig_finish_def sig_codes_def)
qed

section \<open>Reading the report\<close>

lemma sig_invD:
  "sig_inv db M C s \<Longrightarrow> mcu_inv (sg_mcu s)" "sig_inv db M C s \<Longrightarrow> sg_db s = db"
  by (simp_all add: sig_inv_def)

lemma sig_inv_parts:
  assumes "sig_inv db M C s"
  shows "pb_inv (sg_buffer s)" "dtmf_inv (mc_DTMF (sg_mcu s))" "am_inv (mc_Automode (sg_mcu s))" "db_inv db" "db_cng_ok db"
  using assms by (auto simp: sig_inv_def mcu_inv_def)

lemma set_mcu_inv:
  assumes "sig_inv db M C s" "mcu_inv (sg_mcu s) \<Longrightarrow> mcu_inv (f (sg_mcu s))"
    "mc_codec_DB (f (sg_mcu s)) = mc_codec_DB (sg_mcu s)" "pb_room (mc_PacketBuffer (f (sg_mcu s))) \<le> pb_room (sg_buffer s)"
  shows "sig_inv db M C (set_mcu f s)"
  unfolding set_mcu_def using assms by (intro sig_inv_mcu) (simp_all add: sig_invD)

lemma set_mcu_at:
  assumes "sig_at db M C s" "mcu_inv (sg_mcu s) \<Longrightarrow> mcu_inv (f (sg_mcu s))"
    "mc_codec_DB (f (sg_mcu s)) = mc_codec_DB (sg_mcu s)" "pb_slots (mc_PacketBuffer (f (sg_mcu s))) = pb_slots (sg_buffer s)"
  shows "sig_at db M C (set_mcu f s)"
  unfolding set_mcu_def using assms sig_atD [OF assms(1)] by (intro sig_at_mcu) (simp_all add: sig_invD)

lemma start_ok:
  assumes "mcu_inv m" "mc_codec_DB m = db" "2 * (9 + k + pb_room (mc_PacketBuffer m)) \<le> length mem"
  shows "\<exists>s. sig_start m mem = Some s \<and> sig_inv db (length mem) (6 + k) s"
proof -
  have w: "\<exists>w. rd_w16 mem i = Some w" if "i < 6" for i using assms(3) that by (intro rd_w16_ok) simp
  obtain w0 w1 w2 w3 w4 w5 where
    "rd_w16 mem 0 = Some w0" "rd_w16 mem 1 = Some w1" "rd_w16 mem 2 = Some w2"
    "rd_w16 mem 3 = Some w3" "rd_w16 mem 4 = Some w4" "rd_w16 mem 5 = Some w5"
    using w [of 0] w [of 1] w [of 2] w [of 3] w [of 4] w [of 5] by auto
  then obtain info where info: "read_dsp_info mem = Some info" by (simp add: read_dsp_info_def)
  have "2 * 0 + 2 \<le> length mem" using assms(3) by simp
  from wr_w16_ok [OF this, of 0] obtain m1 where m1: "wr_w16 mem 0 0 = Some m1" "length m1 = length mem" by blast
  have "2 * 1 + 2 \<le> length m1" using assms(3) m1 by simp
  from wr_w16_ok [OF this, of 0] obtain m2 where m2: "wr_w16 m1 1 0 = Some m2" "length m2 = length mem" using m1 by auto
  have "2 * 2 + 2 \<le> length m2" using assms(3) m2 by simp
  from wr_w16_ok [OF this, of 0] obtain m3 where m3: "wr_w16 m2 2 0 = Some m3" "length m3 = length mem" using m2 by auto
  have "mcu_inv (m\<lparr>mc_lastReportTS := v, mc_PacketBuffer := WebRtcNetEQ_IncrementWaitingTimes (mc_PacketBuffer m)\<rparr>)" for v
    using assms(1) by (intro mcu_inv_sets(3)) (simp_all add: increment_ok mcu_inv_def wt_inv_def)
  then show ?thesis using m1 m2 m3 assms(2,3)
    by (simp add: sig_start_def Let_def info sig_inv_def increment_ok algebra_simps)
qed

lemma drop_flag_inv [simp]: "sig_inv db M C (drop_flag f s) = sig_inv db M C s"
  by (simp add: drop_flag_def)

lemma flags_ok:
  assumes "sig_inv db M C s"
  shows "sig_inv db M C (sig_flags s)"
proof -
  have 1: "sig_inv db M C (set_mcu (\<lambda>m. m\<lparr>mc_current_Codec := -1\<rparr>) s)" if "sig_inv db M C s" for s
    using that by (rule set_mcu_inv) (simp_all add: mcu_inv_sets)
  have 2: "sig_inv db M C (set_mcu (\<lambda>m. (if mc_usingStereo m = 0 then set_Automode (snd (WebRtcNetEQ_ResetAutomode
       (mc_Automode m) (int (pb_maxInsertPositions (mc_PacketBuffer m))))) m else m)\<lparr>mc_usingStereo := 1\<rparr>) s)"
    if "sig_inv db M C s" for s
    using that by (rule set_mcu_inv) (simp_all add: mcu_inv_sets reset_am_inv)
  have 3: "sig_inv db M C (set_mcu (\<lambda>m. m\<lparr>mc_usingStereo := 0\<rparr>) s)" if "sig_inv db M C s" for s
    using that by (rule set_mcu_inv) simp_all
  define a where "a = (if has_flag s MODE_AWAITING_CODEC_PTR then drop_flag MODE_AWAITING_CODEC_PTR
      (if mc_new_codec (sg_mcu s) \<noteq> 1 then set_mcu (\<lambda>m. m\<lparr>mc_current_Codec := -1\<rparr>) s else s) else s)"
  have a: "sig_inv db M C a" using 1 [OF assms] assms by (simp add: a_def)
  define b where "b = (if has_flag a MODE_MASTER_DTMF_SIGNAL
    then drop_flag MODE_MASTER_DTMF_SIGNAL (a\<lparr>sg_playDtmf := 1\<rparr>) else a)"
  have b: "sig_inv db M C b" using a by (simp add: b_def)
  show ?thesis
    unfolding sig_flags_def a_def [symmetric] Let_def b_def [symmetric] using 2 [OF b] 3 [OF b] by simp
qed

lemma cng_clock_ok:
  assumes "sig_inv db M C s"
  shows "sig_inv db M C (sig_cng_clock s)"
proof -
  have "sig_inv db M C (set_stat (bs\<lparr>bs_CNGplayedTS := v, bs_cngOn := w\<rparr>) s)" if "bs = sg_stat s" for bs v w
    unfolding set_stat_def using assms
    by (rule set_mcu_inv) (simp_all add: mcu_inv_sets that sig_inv_parts(3) [OF assms])
  then show ?thesis using assms by (simp add: sig_cng_clock_def Let_def)
qed

lemma pack_size_keeps:
  "sig_inv db M C s \<Longrightarrow> sig_inv db M C (set_buffer ((sg_buffer s)\<lparr>pb_packSizeSamples := v\<rparr>) s)"
  "sig_at db M C s \<Longrightarrow> sig_at db M C (set_buffer ((sg_buffer s)\<lparr>pb_packSizeSamples := v\<rparr>) s)"
  unfolding set_buffer_def
  by (auto intro!: set_mcu_inv set_mcu_at mcu_inv_sets(3) dest: mc_inv_parts(3))

lemma frame_len_ok: "sig_inv db M C s \<Longrightarrow> sig_inv db M C (sig_frame_len s)"
  by (simp add: sig_frame_len_def pack_size_keeps)

section \<open>The oldest packet\<close>

lemma sig_find_ok:
  assumes "sig_inv db M C s"
  obtains s' where "sig_find ts e s = (0, s')" "sig_at db M C s'" "sg_info s' = sg_info s"
    "pb_room (sg_buffer s') \<le> pb_room (sg_buffer s)" "sg_instr s' = sg_instr s"
proof -
  from find_ok [OF sig_inv_parts(1) [OF assms], of ts e] obtain b av pos pt where
    b: "WebRtcNetEQ_PacketBufferFindLowestTimestamp (sg_buffer s) ts e = (0, b, Some (av, pos, pt))"
      "pb_inv b" "pb_room b \<le> pb_room (sg_buffer s)" "pos_ok b pos" by blast
  have "sig_inv db M C (set_buffer b s)"
    unfolding set_buffer_def using assms by (rule set_mcu_inv) (simp_all add: mcu_inv_sets b)
  then show thesis using b
    by (intro that [of "(set_buffer b s)\<lparr>sg_availableTS := av, sg_bufferpos := pos, sg_payloadType := pt\<rparr>"])
       (simp_all add: sig_find_def sig_at_def set_buffer_def set_mcu_def)
qed

lemma late_packet_ok: "sig_spec (sig_inv db M C) sig_late_packet (sig_inv db M C) R"
  by (simp add: sig_spec_def sig_late_packet_def WebRtcNetEQ_DbIsMDCodec_def)

lemma find_first_ok: "sig_spec (sig_inv db M C) sig_find_first (sig_at db M C) R"
proof (rule sig_specI)
  fix s assume "sig_inv db M C s"
  then obtain s' where "sig_find (di_playedOutTS (sg_info s)) (mc_new_codec (sg_mcu s) = 0) s = (0, s')" "sig_at db M C s'"
    by (rule sig_find_ok)
  then show "\<exists>r s'. sig_find_first s = Some (r, s') \<and> (case r of None \<Rightarrow> sig_at db M C s' | Some x \<Rightarrow> R x s')"
    by (simp add: sig_find_first_def)
qed

text \<open>Every round throws a packet away, so the search ends.\<close>

lemma discard_ok:
  assumes "sig_at db M C s"
  shows "\<exists>s'. sig_discard s = Some s' \<and> sig_at db M C s'"
  using assms
proof (induction "pb_room (sg_buffer s)" arbitrary: s rule: less_induct)
  case less
  show ?case
  proof (cases "stale_cng s")
    case False
    then show ?thesis using less.prems by (simp add: sig_discard.simps)
  next
    case True
    define i where "i = nat (sg_bufferpos s)"
    have inv: "sig_inv db M C s" "pb_inv (sg_buffer s)" using less.prems sig_atD sig_inv_parts(1) by blast+
    have i: "sg_bufferpos s = int i" "i < length (pb_slots (sg_buffer s))" "sl_used (pb_slots (sg_buffer s) ! i)"
      using less.prems True by (auto simp: sig_at_def pos_ok_def stale_cng_def i_def)
    define b where "b = pb_clear_slot i (sg_buffer s)"
    have b: "pb_inv b" "pb_room b < pb_room (sg_buffer s)"
      using clear_slot_inv [OF inv(2) i(2,3)] i(3)
        room_update [OF i(2), of "(pb_slots (sg_buffer s) ! i)\<lparr>sl_payloadType := -1, sl_payloadLengthBytes := 0\<rparr>"]
      by (auto simp: b_def pb_room_def pb_clear_slot_def slot_room_def)
    have "drop_packet s = Some (set_buffer b s)" using i by (simp add: drop_packet_def b_def)
    moreover have "sig_inv db M C (set_buffer b s)"
      unfolding set_buffer_def using inv(1) by (rule set_mcu_inv) (use b in \<open>simp_all add: mcu_inv_sets\<close>)
    then obtain s2 where s2: "sig_find (di_playedOutTS (sg_info (set_buffer b s))) (mc_new_codec (sg_mcu (set_buffer b s)) = 0) (set_buffer b s) = (0, s2)"
      "sig_at db M C s2" "pb_room (sg_buffer s2) \<le> pb_room (sg_buffer (set_buffer b s))"
      using sig_find_ok by blast
    have "pb_room (sg_buffer s2) < pb_room (sg_buffer s)" using s2(3) b(2) by (simp add: set_buffer_def set_mcu_def)
    from less.hyps [OF this s2(2)] show ?thesis
      unfolding sig_discard.simps [of s] calculation Option.bind_lunit s2(1) snd_conv using True by simp
  qed
qed

lemma stale_cng_ok: "sig_spec (sig_at db M C) sig_stale_cng (sig_at db M C) R"
proof (rule sig_specI)
  fix s assume s: "sig_at db M C s"
  then obtain s' where "sig_discard s = Some s'" "sig_at db M C s'" using discard_ok by blast
  then show "\<exists>r s'. sig_stale_cng s = Some (r, s') \<and> (case r of None \<Rightarrow> sig_at db M C s' | Some x \<Rightarrow> R x s')"
    using s by (simp add: sig_stale_cng_def)
qed

section \<open>The decision\<close>

lemma update_pack_size_ok:
  assumes "db_inv (mc_codec_DB m)" "db_cng_ok (mc_codec_DB m)" "pos_ok (mc_PacketBuffer m) pos"
  shows "\<exists>n. WebRtcNetEQ_UpdatePackSizeSamples f m pos pt k = Some n"
  using assms(1,2)
proof (cases rule: get_codec_entry [where pt = pt])
  case unknown
  then show ?thesis by (simp add: WebRtcNetEQ_UpdatePackSizeSamples_def db_errors)
next
  case (known c p e)
  have "0 \<le> pos \<Longrightarrow> nat pos < length (pb_slots (mc_PacketBuffer m))" using assms(3) by (auto simp: pos_ok_def)
  then have "\<exists>n. WebRtcNetEQ_PacketBufferGetPacketSize f (mc_PacketBuffer m) (nat pos) (mc_codec_DB m) p k av = Some n"
    if "0 \<le> pos" for av
    using that known(5) by (simp add: WebRtcNetEQ_PacketBufferGetPacketSize_def Let_def)
  then obtain n where "0 \<le> pos \<Longrightarrow> WebRtcNetEQ_PacketBufferGetPacketSize f (mc_PacketBuffer m) (nat pos) (mc_codec_DB m) p k
      (mc_av_sync m) = Some n" by blast
  then show ?thesis using known by (auto simp: WebRtcNetEQ_UpdatePackSizeSamples_def)
qed

lemma pack_size_ok:
  assumes "sig_at db M C s"
  obtains v where "sig_pack_size f k s = Some (set_buffer ((sg_buffer s)\<lparr>pb_packSizeSamples := v\<rparr>) s)"
    "sig_at db M C (set_buffer ((sg_buffer s)\<lparr>pb_packSizeSamples := v\<rparr>) s)"
proof -
  have "\<exists>n. WebRtcNetEQ_UpdatePackSizeSamples f (sg_mcu s) (sg_bufferpos s) (sg_payloadType s) k = Some n"
    using assms mc_inv_parts(1,2) by (intro update_pack_size_ok) (auto simp: sig_at_def sig_inv_def)
  then show thesis using that pack_size_keeps(2) [OF assms] by (auto simp: sig_pack_size_def)
qed

lemma dtmf_decode_ok:
  assumes "dtmf_inv d"
  obtains r out d' where "WebRtcNetEQ_DtmfDecode d t = Some (r, out, d')" "dtmf_inv d'"
proof (cases "dtmf_abs d")
  case Nil
  then have "dtmf_EventBufferSize d < 1" using dtmf_shape [OF assms] by auto
  then show thesis using that assms by (simp add: WebRtcNetEQ_DtmfDecode_def)
next
  case (Cons e es)
  show thesis
  proof (cases "ev_start e \<le> t")
    case True
    show thesis using dtmf_decode_spec [OF assms Cons True] that by metis
  next
    case False
    then show thesis using that [of 0 None d] dtmf_second [OF assms Cons] assms
      by (simp add: WebRtcNetEQ_DtmfDecode_def)
  qed
qed

lemma sig_dtmf_ok:
  assumes "sig_at db M (C + 3) s" "0 < C"
  shows "\<exists>s'. sig_dtmf s = Some s' \<and> sig_at db M C s'"
proof -
  obtain r out d where d: "WebRtcNetEQ_DtmfDecode (mc_DTMF (sg_mcu s))
       (u32 (di_playedOutTS (sg_info s) + bs_CNGplayedTS (sg_stat s))) = Some (r, out, d)" "dtmf_inv d"
    using dtmf_decode_ok sig_inv_parts(2) [OF sig_atD [OF assms(1)]] by blast
  define s1 where "s1 = set_mcu (\<lambda>m. m\<lparr>mc_DTMF := d\<rparr>) s"
  have s1: "sig_at db M (C + 3) s1"
    unfolding s1_def using assms(1) by (rule set_mcu_at) (simp_all add: mcu_inv_sets d(2))
  have "\<exists>s2. (case out of None \<Rightarrow> Some s1 | Some (event, vol) \<Rightarrow>
      do { s \<leftarrow> sig_write (sg_block s1 + 1) event s1; sig_write (sg_block s + 2) vol s }) = Some s2 \<and> sig_at db M (C + 3) s2"
  proof (cases out)
    case None
    then show ?thesis using s1 by simp
  next
    case (Some ev)
    obtain event vol where ev: "ev = (event, vol)" by fastforce
    have "sg_block s1 + 1 < sg_block s1 + (C + 3)" by simp
    from sig_write_ok [OF sig_atD [OF s1] this, of event] obtain m1 where
      m1: "sig_write (sg_block s1 + 1) event s1 = Some (s1\<lparr>sg_mem := m1\<rparr>)" "sig_inv db M (C + 3) (s1\<lparr>sg_mem := m1\<rparr>)" .
    have "sg_block s1 + 2 < sg_block (s1\<lparr>sg_mem := m1\<rparr>) + (C + 3)" by simp
    from sig_write_ok [OF m1(2) this, of vol] obtain m2 where
      m2: "sig_write (sg_block s1 + 2) vol (s1\<lparr>sg_mem := m1\<rparr>) = Some (s1\<lparr>sg_mem := m1\<rparr>\<lparr>sg_mem := m2\<rparr>)"
        "sig_inv db M (C + 3) (s1\<lparr>sg_mem := m1\<rparr>\<lparr>sg_mem := m2\<rparr>)" .
    show ?thesis using m1(1) m2 sig_at_mem [OF s1, of m2] by (simp add: Some ev)
  qed
  then obtain s2 where s2: "(case out of None \<Rightarrow> Some s1 | Some (event, vol) \<Rightarrow>
      do { s \<leftarrow> sig_write (sg_block s1 + 1) event s1; sig_write (sg_block s + 2) vol s }) = Some s2"
    "sig_at db M (C + 3) s2" by blast
  have s3: "sig_at db M (C + 3) (s2\<lparr>sg_playDtmf := 1\<rparr>)" using s2(2) by simp
  obtain m3 where m3: "sig_instr 0xffff DSP_DTMF_PAYLOAD (s2\<lparr>sg_playDtmf := 1\<rparr>) = Some (s2\<lparr>sg_playDtmf := 1\<rparr>\<lparr>sg_mem := m3\<rparr>)"
    "sig_inv db M (C + 3) (s2\<lparr>sg_playDtmf := 1\<rparr>\<lparr>sg_mem := m3\<rparr>)" by (rule sig_instr_ok [OF sig_atD [OF s3]])
  have "sg_block s2 < sg_block (s2\<lparr>sg_playDtmf := 1\<rparr>\<lparr>sg_mem := m3\<rparr>) + (C + 3)" by simp
  from sig_write_ok [OF m3(2) this, of 4] obtain m4 where
    m4: "sig_write (sg_block s2) 4 (s2\<lparr>sg_playDtmf := 1\<rparr>\<lparr>sg_mem := m3\<rparr>) = Some (s2\<lparr>sg_playDtmf := 1\<rparr>\<lparr>sg_mem := m3\<rparr>\<lparr>sg_mem := m4\<rparr>)"
      "sig_inv db M (C + 3) (s2\<lparr>sg_playDtmf := 1\<rparr>\<lparr>sg_mem := m3\<rparr>\<lparr>sg_mem := m4\<rparr>)" .
  have "sig_at db M C (s2\<lparr>sg_playDtmf := 1, sg_mem := m4, sg_block := sg_block s2 + 3\<rparr>)"
    using m4(2) s2(2) by (simp add: sig_at_def sig_inv_def)
  moreover have "sig_at db M C s2" using s2(2) by (rule sig_at_less) simp
  ultimately show ?thesis
    unfolding sig_dtmf_def d(1) Option.bind_lunit prod.case s1_def [symmetric] Let_def s2(1)
    using m3(1) m4(1) by simp
qed

lemma decision_stat_inv:
  assumes "am_inv (bs_Automode bs)"
  shows "am_inv (bs_Automode (snd (WebRtcNetEQ_BufstatsDecision bs fr cur tts ats np cng prev mode tpc n fm bgn dt)))"
proof -
  have cng: "bs_Automode (snd (cng_packet_decision i t a p)) = bs_Automode i" for i t a p
    by (simp add: cng_packet_decision_def Let_def)
  have "bs_Automode (snd (on_decision i f1 c1 c2 t a np cng p tp n fm bgn dt)) = bs_Automode i" for i f1 c1 c2 t a p tp
    by (simp add: on_decision_def cng Let_def)
  then show ?thesis
    using assms filter_keeps_inv
    by (simp add: WebRtcNetEQ_BufstatsDecision_def decision_counters_def Let_def)
qed

lemma decide_ok:
  assumes "sig_at db M (C + 3) s" "0 < C"
  shows "\<exists>s'. sig_decide f fm s = Some s' \<and> sig_at db M C s'"
proof -
  note inv = sig_atD [OF assms(1)]
  note parts = sig_inv_parts [OF inv]
  obtain n where n: "WebRtcNetEQ_PacketBufferGetSize f (sg_buffer s) (sg_db s) (mc_av_sync (sg_mcu s)) = Some n"
    using buffer_size_some [OF parts(4,5)] sig_invD(2) [OF inv] by metis
  define s1 where "s1 = (if time_scaled (di_lastMode (sg_info s))
      then set_mcu (\<lambda>m. set_Automode ((mc_Automode m)\<lparr>am_sampleMemory :=
        s32 (am_sampleMemory (mc_Automode m) - (di_samplesLeft (sg_info s) + mc_timestampsPerCall m))\<rparr>) m) s
      else s)"
  have s1: "sig_at db M (C + 3) s1"
    using assms(1) set_mcu_at [OF assms(1), of "\<lambda>m. set_Automode ((mc_Automode m)\<lparr>am_sampleMemory :=
        s32 (am_sampleMemory (mc_Automode m) - (di_samplesLeft (sg_info s) + mc_timestampsPerCall m))\<rparr>) m"] parts(3)
    by (simp add: s1_def mcu_inv_sets)
  obtain s2 where s2: "sig_dtmf s1 = Some s2" "sig_at db M C s2" using sig_dtmf_ok [OF s1 assms(2)] by blast
  obtain v where v: "sig_pack_size f (pb_packSizeSamples (sg_buffer s2)) s2
      = Some (set_buffer ((sg_buffer s2)\<lparr>pb_packSizeSamples := v\<rparr>) s2)"
    "sig_at db M C (set_buffer ((sg_buffer s2)\<lparr>pb_packSizeSamples := v\<rparr>) s2)"
    using pack_size_ok [OF s2(2)] by metis
  define s3 where "s3 = set_buffer ((sg_buffer s2)\<lparr>pb_packSizeSamples := v\<rparr>) s2"
  define d where "d = WebRtcNetEQ_BufstatsDecision (sg_stat s3) (s16 (pb_packSizeSamples (sg_buffer s3)))
     (WebRtcSpl_DivW32W16 (s32 (n + di_samplesLeft (sg_info s1))) fm)
     (di_playedOutTS (sg_info s3)) (sg_availableTS s3) (sg_bufferpos s3 = -1)
     (WebRtcNetEQ_DbIsCNGPayload (sg_db s3) (sg_payloadType s3)) (di_lastMode (sg_info s3))
     (mc_NetEqPlayoutMode (sg_mcu s3)) (mc_timestampsPerCall (sg_mcu s3)) (mc_NoOfExpandCalls (sg_mcu s3)) fm
     (sg_bgnOnly s3) (sg_playDtmf s3)"
  have s3: "sig_at db M C s3" using v(2) by (simp add: s3_def)
  have "am_inv (bs_Automode (snd d))"
    unfolding d_def by (rule decision_stat_inv) (rule sig_inv_parts(3) [OF sig_atD [OF s3]])
  then have "sig_at db M C (set_stat (snd d) s3)"
    unfolding set_stat_def using s3 by (intro set_mcu_at) (simp_all add: mcu_inv_sets)
  then have s4: "sig_at db M C ((set_stat (snd d) s3)\<lparr>sg_instr := fst d\<rparr>)" by simp
  have reset: "mcu_inv m \<Longrightarrow> mcu_inv (WebRtcNetEQ_ResetMcuInCallStats m)" for m
    by (simp add: WebRtcNetEQ_ResetMcuInCallStats_def mcu_inv_def wt_inv_def)
  have s5: "sig_at db M C (set_mcu WebRtcNetEQ_ResetMcuInCallStats ((set_stat (snd d) s3)\<lparr>sg_instr := fst d\<rparr>))"
    using s4 by (rule set_mcu_at) (simp_all add: reset, simp_all add: WebRtcNetEQ_ResetMcuInCallStats_def)
  show ?thesis
    unfolding sig_decide_def n Option.bind_lunit Let_def s1_def [symmetric] s2(1) v(1) s3_def [symmetric]
      case_prod_beta d_def [symmetric]
    using s4 s5 by simp
qed

text \<open>The decision is one of the fifteen.\<close>

lemma decision_range:
  "fst (WebRtcNetEQ_BufstatsDecision bs fr cur tts ats np cng prev mode tpc n fm bgn dt) \<in> {0..14}"
proof -
  have cng: "fst (cng_packet_decision i t a p) \<in> {0..14}" for i t a p
    by (simp add: cng_packet_decision_def Let_def)
  have no: "no_packet_decision i p \<in> {0..14}" for i p by (simp add: no_packet_decision_def)
  have target: "target_available_decision i x fm p \<in> {0..14}" for i x p
    by (simp add: target_available_decision_def case_prod_beta Let_def)
  have later: "later_packet_decision i f1 c1 c2 t a p tp n x fm bgn dt \<in> {0..14}" for i f1 c1 c2 t a p tp x
    unfolding later_packet_decision_def Let_def by (simp split del: if_split add: if_distrib [of "\<lambda>d. d \<in> _"] cong: if_cong) simp
  have "fst (on_decision i f1 c1 c2 t a np cng p tp n fm bgn dt) \<in> {0..14}" for i f1 c1 c2 t a p tp
    unfolding on_decision_def Let_def using cng no target later by simp
  moreover have "off_decision i t a np cng mode \<in> {0..14}" for i t a
    by (simp add: off_decision_def Let_def)
  ultimately show ?thesis unfolding fst_decision Let_def by simp
qed

definition sig_on :: "int set \<Rightarrow> codec_db \<Rightarrow> nat \<Rightarrow> nat \<Rightarrow> sig_state \<Rightarrow> bool" where
  "sig_on D db M C s \<longleftrightarrow> sig_at db M C s \<and> sg_instr s \<in> D"

text \<open>The decisions that are left for the last part of the step.\<close>

definition played :: "int set" where
  "played = {BUFSTATS_DO_NORMAL, BUFSTATS_DO_ACCELERATE, BUFSTATS_DO_MERGE, BUFSTATS_DO_RFC3389CNG_PACKET,
     BUFSTATS_DO_PREEMPTIVE_EXPAND, BUFSTATS_DO_ALTERNATIVE_PLC, BUFSTATS_DO_ALTERNATIVE_PLC_INC_TS,
     BUFSTATS_DO_AUDIO_REPETITION, BUFSTATS_DO_AUDIO_REPETITION_INC_TS}"

lemma sig_onD: "sig_on D db M C s \<Longrightarrow> sig_at db M C s" "sig_on D db M C s \<Longrightarrow> sig_inv db M C s"
  by (simp_all add: sig_on_def sig_at_def)

lemma decide_instr:
  assumes "sig_decide f fm s = Some s'"
  shows "sg_instr s' \<in> {0..14}"
proof -
  obtain s0 bs a1 a2 a3 a4 a5 a6 a7 a8 a9 a10 a11 a12 a13 where
    "sg_instr s' = fst (WebRtcNetEQ_BufstatsDecision bs a1 a2 a3 a4 a5 a6 a7 a8 a9 a10 a11 a12 a13)"
    using assms unfolding sig_decide_def Let_def case_prod_beta
    by (auto simp: set_mcu_def set_stat_def split: bind_splits if_splits)
  then show ?thesis using decision_range by simp
qed

lemma decide_part_ok:
  assumes "0 < C"
  shows "sig_spec (sig_at db M (C + 3)) (\<lambda>s. do { s \<leftarrow> sig_decide f fm s; Some (None, s) }) (sig_on {0..14} db M C) R"
proof (rule sig_specI)
  fix s assume s: "sig_at db M (C + 3) s"
  obtain s' where s': "sig_decide f fm s = Some s'" "sig_at db M C s'" using decide_ok [OF s assms] by blast
  then show "\<exists>r s'. do { s \<leftarrow> sig_decide f fm s; Some (None, s) } = Some (r, s')
      \<and> (case r of None \<Rightarrow> sig_on {0..14} db M C s' | Some x \<Rightarrow> R x s')"
    using decide_instr [OF s'(1)] by (simp add: sig_on_def)
qed

section \<open>Returning early\<close>

lemma finish_part:
  assumes "sig_inv db M C s" "0 < C"
  shows "\<exists>r s'. sig_finish v s = Some (r, s') \<and> (case r of None \<Rightarrow> Q s' | Some x \<Rightarrow> sig_done db M x s')"
  using finish_ok [OF assms, of v] by fastforce

lemma enough_ok:
  assumes "0 < C"
  shows "sig_spec (sig_on D db M C) sig_enough (sig_on D db M C) (sig_done db M)"
proof (rule sig_specI)
  fix s assume s: "sig_on D db M C s"
  have "sig_at db M C (set_mcu (\<lambda>m. m\<lparr>mc_NoOfExpandCalls := count_expands (sg_instr s) (mc_NoOfExpandCalls m)\<rparr>) s)"
    using sig_onD(1) [OF s] by (rule set_mcu_at) simp_all
  then show "\<exists>r s'. sig_enough s = Some (r, s') \<and> (case r of None \<Rightarrow> sig_on D db M C s' | Some x \<Rightarrow> sig_done db M x s')"
    using finish_part [OF sig_onD(2) [OF s] assms, of DSP_INSTR_NORMAL] s
    by (simp add: sig_enough_def sig_on_def) (simp add: set_mcu_def)
qed

lemma reinit_decoder_ok: "sig_spec (sig_on D db M C) sig_reinit_decoder (sig_on (insert 0 D - {9}) db M C) R"
proof (rule sig_specI)
  fix s assume s: "sig_on D db M C s"
  have "sig_inv db M C (s\<lparr>sg_instr := BUFSTATS_DO_NORMAL\<rparr>)" using sig_onD(2) [OF s] by simp
  then obtain mem where mem: "sig_instr 0xf0ff DSP_CODEC_RESET (s\<lparr>sg_instr := BUFSTATS_DO_NORMAL\<rparr>)
      = Some (s\<lparr>sg_instr := BUFSTATS_DO_NORMAL\<rparr>\<lparr>sg_mem := mem\<rparr>)"
    "sig_inv db M C (s\<lparr>sg_instr := BUFSTATS_DO_NORMAL\<rparr>\<lparr>sg_mem := mem\<rparr>)" by (rule sig_instr_ok)
  then show "\<exists>r s'. sig_reinit_decoder s = Some (r, s')
      \<and> (case r of None \<Rightarrow> sig_on (insert 0 D - {9}) db M C s' | Some x \<Rightarrow> R x s')"
    using s by (simp add: sig_reinit_decoder_def sig_on_def sig_at_def)
qed

lemma expand_ok: "sig_spec (sig_on D db M C) sig_expand (sig_on (D - {3}) db M C) (sig_done db M)"
proof (rule sig_specI)
  fix s assume s: "sig_on D db M C s"
  define s1 where "s1 = set_mcu (\<lambda>m. m\<lparr>mc_timeStamp := di_playedOutTS (sg_info s)\<rparr>) s"
  have "sig_inv db M C s1" unfolding s1_def using sig_onD(2) [OF s] by (rule set_mcu_inv) simp_all
  then obtain mem where "sig_instr 0x0fff DSP_INSTR_EXPAND s1 = Some (s1\<lparr>sg_mem := mem\<rparr>)" "sig_inv db M C (s1\<lparr>sg_mem := mem\<rparr>)"
    by (rule sig_instr_ok)
  then have "\<exists>s'. sig_instr 0x0fff DSP_INSTR_EXPAND s1 = Some s' \<and> sig_done db M 0 s'"
    using sig_doneI by (auto simp: sig_codes_def)
  then show "\<exists>r s'. sig_expand s = Some (r, s') \<and> (case r of None \<Rightarrow> sig_on (D - {3}) db M C s' | Some x \<Rightarrow> sig_done db M x s')"
    using s by (auto simp: sig_expand_def s1_def WebRtcNetEQ_DbIsMDCodec_def sig_on_def Let_def)
qed

lemma dtmf_only_ok:
  assumes "sig_inv db M C s" "0 < C"
  shows "\<exists>r s'. sig_dtmf_only s = Some (r, s') \<and> (case r of None \<Rightarrow> Q s' | Some x \<Rightarrow> sig_done db M x s')"
proof -
  let ?p = "u32 (bs_CNGplayedTS (sg_stat s))"
  have i: "1 < sg_block s + C" "2 < sg_block s + C" using assms by (simp_all add: sig_inv_def)
  obtain m1 where m1: "sig_write 1 (shr ?p 16) s = Some (s\<lparr>sg_mem := m1\<rparr>)" "sig_inv db M C (s\<lparr>sg_mem := m1\<rparr>)"
    using sig_write_ok [OF assms(1) i(1)] .
  have "2 < sg_block (s\<lparr>sg_mem := m1\<rparr>) + C" using i(2) by simp
  from sig_write_ok [OF m1(2) this, of "?p AND 0xFFFF"] obtain m2 where
    m2: "sig_write 2 (?p AND 0xFFFF) (s\<lparr>sg_mem := m1\<rparr>) = Some (s\<lparr>sg_mem := m1\<rparr>\<lparr>sg_mem := m2\<rparr>)"
      "sig_inv db M C (s\<lparr>sg_mem := m1\<rparr>\<lparr>sg_mem := m2\<rparr>)" .
  have keep: "sig_inv db M C (set_mcu (\<lambda>m. m\<lparr>mc_timeStamp := x,
       mc_BufferStat := (mc_BufferStat m)\<lparr>bs_CNGplayedTS := 0\<rparr>, mc_NoOfExpandCalls := 0\<rparr>) t)" if "sig_inv db M C t" for x t
    using that by (rule set_mcu_inv) (simp_all add: mcu_inv_sets sig_inv_parts(3) [OF that])
  show ?thesis
    using finish_part [OF keep [OF assms(1)] assms(2)] finish_part [OF keep [OF m2(2)] assms(2)] m1(1) m2(1)
    by (simp add: sig_dtmf_only_def Let_def)
qed

lemma no_packet_ok:
  assumes "0 < C"
  shows "sig_spec (sig_on D db M C) sig_no_packet (sig_on (D - {6, 7, 10}) db M C) (sig_done db M)"
proof (rule sig_specI)
  fix s assume s: "sig_on D db M C s"
  note inv = sig_onD(2) [OF s]
  show "\<exists>r s'. sig_no_packet s = Some (r, s')
      \<and> (case r of None \<Rightarrow> sig_on (D - {6, 7, 10}) db M C s' | Some x \<Rightarrow> sig_done db M x s')"
    using finish_part [OF inv assms] dtmf_only_ok [OF inv assms] s by (simp add: sig_no_packet_def sig_on_def)
qed

section \<open>How many samples are wanted\<close>

lemma time_scale_ok:
  assumes "sig_inv db M C s" "0 < C"
  shows "\<exists>r s'. sig_time_scale v s = Some (r, s') \<and> (case r of None \<Rightarrow> Q s' | Some x \<Rightarrow> sig_done db M x s')"
proof -
  have "sig_inv db M C (set_mcu (\<lambda>m. set_Automode ((mc_Automode m)\<lparr>am_sampleMemory := x, am_prevTimeScale := 1\<rparr>) m) s)" for x
    using assms(1) by (rule set_mcu_inv) (simp_all add: mcu_inv_sets sig_inv_parts(3) [OF assms(1)])
  from finish_part [OF this assms(2)] show ?thesis by (simp add: sig_time_scale_def)
qed

lemma wanted_ok:
  assumes "0 < C" "0 \<in> D"
  shows "sig_spec (sig_on D db M C) (sig_wanted fm) (sig_on D db M C) (sig_done db M)"
proof (rule sig_specI)
  fix s assume s: "sig_on D db M C s"
  note inv = sig_onD(2) [OF s]
  have "sig_on D db M C (s\<lparr>sg_wanted := v\<rparr>)" "sig_on D db M C (s\<lparr>sg_wanted := v, sg_instr := 0\<rparr>)" for v
    using s assms(2) by (simp_all add: sig_on_def)
  then show "\<exists>r s'. sig_wanted fm s = Some (r, s') \<and> (case r of None \<Rightarrow> sig_on D db M C s' | Some x \<Rightarrow> sig_done db M x s')"
    using finish_part [OF inv assms(1)] time_scale_ok [OF inv assms(1)]
    by (simp add: sig_wanted_def sig_accelerate_def sig_preemptive_def Let_def)
qed

section \<open>A new codec\<close>

lemma block_ok:
  assumes "2 * (sg_block s + 1 + k) \<le> length (sg_mem s)" "length bs = 2 * k"
  shows "\<exists>mem. sig_block bs s = Some (s\<lparr>sg_mem := mem, sg_block := sg_block s + 1 + k\<rparr>) \<and> length mem = length (sg_mem s)"
proof -
  have "2 * sg_block s + 2 \<le> length (sg_mem s)" using assms(1) by simp
  from wr_w16_ok [OF this, of "int k * 2"] obtain m1 where
    m1: "wr_w16 (sg_mem s) (sg_block s) (int k * 2) = Some m1" "length m1 = length (sg_mem s)" by blast
  have "2 * (sg_block s + 1) + length bs \<le> length m1" using assms m1(2) by simp
  from wr_bytes_ok [OF this] obtain m2 where "wr_bytes m1 (sg_block s + 1) bs = Some m2" "length m2 = length (sg_mem s)"
    using m1(2) by auto
  then show ?thesis using m1(1) assms(2) by (intro exI [of _ m2]) (simp add: sig_block_def sig_write_def)
qed

lemma cng_rate:
  "WebRtcNetEQ_DbIsCNGPayload db pt \<Longrightarrow> \<exists>fs \<in> {8000, 16000, 32000}. WebRtcNetEQ_DbGetSampleRate db pt = Some fs"
proof -
  have "\<exists>fs \<in> {8000, 16000, 32000}. db_cng_rate cngs pt i = Some fs" if "\<exists>c \<in> set cngs. c \<noteq> -1 \<and> c = pt" for cngs i
    using that by (induction cngs pt i rule: db_cng_rate.induct) auto
  from this [of "db_CNGpayloadType db" 0] show "\<exists>fs \<in> {8000, 16000, 32000}. WebRtcNetEQ_DbGetSampleRate db pt = Some fs"
    if "WebRtcNetEQ_DbIsCNGPayload db pt"
    using that unfolding WebRtcNetEQ_DbIsCNGPayload_def WebRtcNetEQ_DbGetSampleRate_def by auto
qed

text \<open>The structure for the signal side: an error, the state as it is, or a sample rate that is supported.\<close>

lemma cinst_ok:
  assumes "mcu_inv (sg_mcu s)"
  obtains (error) c fs where "sig_cinst old s = Some (CODEC_DB_NOT_EXIST1, c, fs, s)"
  | (codec) c fs where "sig_cinst old s = Some (0, c, fs, s)"
  | (rate) c fs x where "sig_cinst old s = Some (0, c, fs, set_mcu (\<lambda>m. m\<lparr>mc_fs := x\<rparr>) s)" "fs \<in> {8000, 16000, 32000}"
proof (cases "mc_current_Codec (sg_mcu s) = -1")
  case False
  then have "codec_ok (mc_current_Codec (sg_mcu s))" "db_inv (sg_db s)" using assms by (auto simp: mcu_inv_def)
  note ptrs = get_ptrs_abs [OF this(2,1), of old]
  show thesis
  proof (cases "db_abs (sg_db s) (mc_current_Codec (sg_mcu s))")
    case None
    then show thesis using error ptrs False by (simp add: sig_cinst_def)
  next
    case (Some e)
    then show thesis using codec ptrs False by (simp add: sig_cinst_def)
  qed
next
  case True
  have fs: "mc_fs (sg_mcu s) \<in> {8000, 16000, 32000}" using assms by (simp add: mcu_inv_def)
  show thesis
  proof (cases "WebRtcNetEQ_DbIsCNGPayload (sg_db s) (sg_payloadType s)")
    case False
    then show thesis using codec True by (simp add: sig_cinst_def)
  next
    case cng: True
    then obtain r where r: "WebRtcNetEQ_DbGetSampleRate (sg_db s) (sg_payloadType s) = Some r" "r \<in> {8000, 16000, 32000}"
      using cng_rate by blast
    then have "u16 r = r" "r \<le> 32000" "0 < r" by (auto simp: u16_def)
    then have "sig_cinst old s = Some (0, null_funcs, r, set_mcu (\<lambda>m. m\<lparr>mc_fs := r\<rparr>) s)"
      using r(1) True cng by (simp add: sig_cinst_def set_mcu_def)
    then show thesis using rate r(2) by blast
  qed
qed

lemma set_fs_any:
  assumes "fs \<in> {8000, 16000, 32000}"
  shows "WebRtcNetEQ_McuSetFs (m\<lparr>mc_fs := x\<rparr>) fs = WebRtcNetEQ_McuSetFs m fs"
    "WebRtcNetEQ_McuSetFs (m\<lparr>mc_fs := x, mc_new_codec := n\<rparr>) fs = WebRtcNetEQ_McuSetFs (m\<lparr>mc_new_codec := n\<rparr>) fs"
  using assms by (auto simp: WebRtcNetEQ_McuSetFs_def case_prod_beta)

lemma set_fs_keeps:
  "mc_codec_DB (snd (WebRtcNetEQ_McuSetFs m fs)) = mc_codec_DB m"
  "mc_PacketBuffer (snd (WebRtcNetEQ_McuSetFs m fs)) = mc_PacketBuffer m"
  by (simp_all add: WebRtcNetEQ_McuSetFs_def case_prod_beta)

text \<open>The part behind the new sample rate: packet size, statistics, comfort noise, and the instruction.\<close>

definition sig_new_tail :: "(int \<Rightarrow> int \<Rightarrow> byte list \<Rightarrow> int \<Rightarrow> int) \<Rightarrow> (int \<Rightarrow> byte list) \<Rightarrow> codec_funcs \<times> int \<Rightarrow> sig_part" where
  "sig_new_tail call_duration state_bytes cinst s = do {
     s \<leftarrow> sig_pack_size call_duration (mc_timestampsPerCall (sg_mcu s) * 3) s;
     let s = set_mcu (\<lambda>m. set_Automode (snd (WebRtcNetEQ_ResetAutomode (mc_Automode m)
               (int (pb_maxInsertPositions (mc_PacketBuffer m))))) m) s
     in do {
       (i_res, cng, fs) \<leftarrow> WebRtcNetEQ_DbGetPtrs (sg_db s) kDecoderCNG cinst;
       if i_res < 0 \<and> i_res \<noteq> CODEC_DB_NOT_EXIST1 then Some (Some i_res, s)
       else do {
         s \<leftarrow> sig_block (state_bytes (codec_state cng)) s;
         s \<leftarrow> sig_instr 0xf0ff DSP_CODEC_NEW_CODEC s;
         let s = s\<lparr>sg_instr := (if sg_instr s = BUFSTATS_DO_RFC3389CNG_NOPACKET
               \<or> sg_instr s = BUFSTATS_DO_RFC3389CNG_PACKET
               then BUFSTATS_DO_RFC3389CNG_PACKET else BUFSTATS_DO_NORMAL)\<rparr>
         in Some (None, set_mcu WebRtcNetEQ_ResetMcuInCallStats s) } } }"

lemma reset_stats_ok: "sig_at db M C s \<Longrightarrow> sig_at db M C (set_mcu WebRtcNetEQ_ResetMcuInCallStats s)"
  by (erule set_mcu_at)
     (simp_all add: WebRtcNetEQ_ResetMcuInCallStats_def mcu_inv_def wt_inv_def)

lemma new_tail_ok:
  assumes "sig_at db M (C + 1 + ls) s" "0 < C" "\<And>p. length (state_bytes p) = 2 * ls"
  shows "\<exists>s'. sig_new_tail f state_bytes c s = Some (None, s') \<and> sig_on {0, 5} db M C s'"
proof -
  obtain v where v: "sig_pack_size f (mc_timestampsPerCall (sg_mcu s) * 3) s
      = Some (set_buffer ((sg_buffer s)\<lparr>pb_packSizeSamples := v\<rparr>) s)"
    "sig_at db M (C + 1 + ls) (set_buffer ((sg_buffer s)\<lparr>pb_packSizeSamples := v\<rparr>) s)"
    using pack_size_ok [OF assms(1)] by metis
  define s1 where "s1 = set_mcu (\<lambda>m. set_Automode (snd (WebRtcNetEQ_ResetAutomode (mc_Automode m)
      (int (pb_maxInsertPositions (mc_PacketBuffer m))))) m) (set_buffer ((sg_buffer s)\<lparr>pb_packSizeSamples := v\<rparr>) s)"
  have s1: "sig_at db M (C + 1 + ls) s1"
    unfolding s1_def using v(2) by (rule set_mcu_at) (simp_all add: mcu_inv_sets reset_am_inv)
  have "db_inv db" using sig_inv_parts(4) [OF sig_atD [OF s1]] .
  then have "db_inv (sg_db s1)" using sig_invD(2) [OF sig_atD [OF s1]] by simp
  moreover have "codec_ok kDecoderCNG" by (simp add: codec_ok_def)
  ultimately obtain r cng fs where ptrs: "WebRtcNetEQ_DbGetPtrs (sg_db s1) kDecoderCNG c = Some (r, cng, fs)"
    "\<not> (r < 0 \<and> r \<noteq> CODEC_DB_NOT_EXIST1)"
    using get_ptrs_abs [of "sg_db s1" kDecoderCNG c] by (cases "db_abs (sg_db s1) kDecoderCNG") auto
  have "2 * (sg_block s1 + 1 + ls) \<le> length (sg_mem s1)" using s1 by (simp add: sig_at_def sig_inv_def)
  from block_ok [OF this assms(3)] obtain mem where
    b: "sig_block (state_bytes (codec_state cng)) s1 = Some (s1\<lparr>sg_mem := mem, sg_block := sg_block s1 + 1 + ls\<rparr>)"
      "length mem = length (sg_mem s1)" by blast
  define s2 where "s2 = s1\<lparr>sg_mem := mem, sg_block := sg_block s1 + 1 + ls\<rparr>"
  have s2: "sig_at db M C s2" using s1 b(2) by (simp add: s2_def sig_at_def sig_inv_def)
  obtain mem2 where i: "sig_instr 0xf0ff DSP_CODEC_NEW_CODEC s2 = Some (s2\<lparr>sg_mem := mem2\<rparr>)"
    "sig_inv db M C (s2\<lparr>sg_mem := mem2\<rparr>)" by (rule sig_instr_ok [OF sig_atD [OF s2]])
  have s3: "sig_at db M C (s2\<lparr>sg_mem := mem2\<rparr>)" by (rule sig_at_mem [OF s2 i(2)])
  have s4: "sig_on {0, 5} db M C (set_mcu WebRtcNetEQ_ResetMcuInCallStats (s2\<lparr>sg_mem := mem2\<rparr>\<lparr>sg_instr := n\<rparr>))"
    if "n \<in> {0, 5}" for n
    using reset_stats_ok [of db M C "s2\<lparr>sg_mem := mem2\<rparr>\<lparr>sg_instr := n\<rparr>"] s3 that
    by (simp add: sig_on_def) (simp add: set_mcu_def)
  show ?thesis
    unfolding sig_new_tail_def v(1) Option.bind_lunit Let_def s1_def [symmetric] ptrs(1) prod.case if_not_P [OF ptrs(2)]
      b(1) s2_def [symmetric] i(1)
    using s4 [of 0] s4 [of 5] by auto
qed

lemma new_codec_ok:
  assumes "0 < C" "\<And>f x y. length (cinst_bytes f x y) = 2 * lc" "\<And>p. length (state_bytes p) = 2 * ls"
  shows "sig_spec (sig_on {0..14} db M (C + 2 + lc + ls)) (sig_new_codec f cinst_bytes state_bytes old)
    (sig_on ({0..14} - {4}) db M C) (sig_done db M)"
proof (rule sig_specI)
  fix s assume s: "sig_on {0..14} db M (C + 2 + lc + ls) s"
  let ?goal = "\<exists>r s'. sig_new_codec f cinst_bytes state_bytes old s = Some (r, s')
      \<and> (case r of None \<Rightarrow> sig_on ({0..14} - {4}) db M C s' | Some x \<Rightarrow> sig_done db M x s')"
  show ?goal
  proof (cases "mc_new_codec (sg_mcu s) = 0 \<and> sg_instr s \<noteq> BUFSTAT_REINIT")
    case True
    then show ?goal using s sig_at_less [of db M "C + 2 + lc + ls" s C] by (simp add: sig_new_codec_def sig_on_def)
  next
    case False
    have inv0: "sig_at db M (C + 2 + lc + ls) (s\<lparr>sg_block := 3\<rparr>)"
      using s by (simp add: sig_on_def sig_at_def sig_inv_def)
    have "0 < sg_block (s\<lparr>sg_block := 3\<rparr>) + (C + 2 + lc + ls)" by simp
    from sig_write_ok [OF sig_atD [OF inv0] this, of 0] obtain mem where
      w: "sig_write 0 0 (s\<lparr>sg_block := 3\<rparr>) = Some (s\<lparr>sg_block := 3\<rparr>\<lparr>sg_mem := mem\<rparr>)"
        "sig_inv db M (C + 2 + lc + ls) (s\<lparr>sg_block := 3\<rparr>\<lparr>sg_mem := mem\<rparr>)" .
    define t where "t = s\<lparr>sg_block := 3\<rparr>\<lparr>sg_mem := mem\<rparr>"
    have t: "sig_at db M (C + 2 + lc + ls) t" unfolding t_def by (rule sig_at_mem [OF inv0 w(2)])
    define s1 where "s1 = (set_mcu (\<lambda>m. m\<lparr>mc_timeStamp := sg_availableTS t\<rparr>) t)
        \<lparr>sg_info := (sg_info t)\<lparr>di_playedOutTS := sg_availableTS t\<rparr>\<rparr>"
    have "sig_at db M (C + 2 + lc + ls) (set_mcu (\<lambda>m. m\<lparr>mc_timeStamp := sg_availableTS t\<rparr>) t)"
      using t by (rule set_mcu_at) simp_all
    then have s1: "sig_at db M (C + 2 + lc + ls) s1" by (simp add: s1_def)
    note m1 = sig_invD(1) [OF sig_atD [OF s1]]
    define rest where "rest = (\<lambda>(i_res, cinst, fs, s). if i_res < 0 then Some (Some i_res, s)
          else do {
            s \<leftarrow> sig_block (cinst_bytes cinst fs (mc_timeStamp (sg_mcu s))) s;
            let (i_res, m) = WebRtcNetEQ_McuSetFs ((sg_mcu s)\<lparr>mc_new_codec := 0\<rparr>) fs;
                s = s\<lparr>sg_mcu := m\<rparr>
            in if i_res < 0 then Some (Some i_res, s) else sig_new_tail f state_bytes (cinst, fs) s })"
    have run: "sig_new_codec f cinst_bytes state_bytes old s = Option.bind (sig_cinst old s1) rest"
      unfolding sig_new_codec_def if_not_P [OF False] w(1) Option.bind_lunit t_def [symmetric] Let_def s1_def [symmetric]
        rest_def sig_new_tail_def by simp
    have tail: "\<exists>r s'. rest (0, c, fs, s1\<lparr>sg_mcu := m\<rparr>) = Some (r, s')
        \<and> (case r of None \<Rightarrow> sig_on ({0..14} - {4}) db M C s' | Some x \<Rightarrow> sig_done db M x s')"
      if m: "m = sg_mcu s1 \<or> (\<exists>x. m = (sg_mcu s1)\<lparr>mc_fs := x\<rparr>) \<and> fs \<in> {8000, 16000, 32000}" for c fs m
    proof -
      let ?bs = "cinst_bytes c fs (mc_timeStamp m)"
      have "2 * (sg_block (s1\<lparr>sg_mcu := m\<rparr>) + 1 + lc) \<le> length (sg_mem (s1\<lparr>sg_mcu := m\<rparr>))"
        using s1 by (simp add: sig_at_def sig_inv_def)
      from block_ok [OF this, of ?bs] assms(2) obtain mem' where
        b: "sig_block ?bs (s1\<lparr>sg_mcu := m\<rparr>) = Some (s1\<lparr>sg_mcu := m\<rparr>\<lparr>sg_mem := mem', sg_block := sg_block s1 + 1 + lc\<rparr>)"
          "length mem' = length (sg_mem s1)" by auto
      have eq: "WebRtcNetEQ_McuSetFs (m\<lparr>mc_new_codec := 0\<rparr>) fs = WebRtcNetEQ_McuSetFs ((sg_mcu s1)\<lparr>mc_new_codec := 0\<rparr>) fs"
        using m set_fs_any(2) by auto
      have "mcu_inv ((sg_mcu s1)\<lparr>mc_new_codec := 0\<rparr>)" using m1 by simp
      note fs = set_fs_inv [OF this, of fs]
      obtain r m' where r: "WebRtcNetEQ_McuSetFs ((sg_mcu s1)\<lparr>mc_new_codec := 0\<rparr>) fs = (r, m')" by fastforce
      have m': "mcu_inv m'" "r = (if fs \<in> {8000, 16000, 32000} then 0 else CODEC_DB_UNSUPPORTED_FS)"
        "mc_codec_DB m' = sg_db s1" "mc_PacketBuffer m' = sg_buffer s1"
        using fs r set_fs_keeps [of "(sg_mcu s1)\<lparr>mc_new_codec := 0\<rparr>" fs] by simp_all
      define s2 where "s2 = s1\<lparr>sg_mem := mem', sg_block := sg_block s1 + 1 + lc, sg_mcu := m'\<rparr>"
      have s2: "sig_at db M (C + 1 + ls) s2"
        using s1 b(2) m' by (simp add: s2_def sig_at_def sig_inv_def)
      have out: "rest (0, c, fs, s1\<lparr>sg_mcu := m\<rparr>)
        = (if r < 0 then Some (Some r, s2) else sig_new_tail f state_bytes (c, fs) s2)"
        using b(1) by (simp add: rest_def eq r s2_def)
      show ?thesis
      proof (cases "r < 0")
        case True
        then have "r \<in> sig_codes" using m'(2) by (auto simp: sig_codes_def)
        then show ?thesis using True out sig_doneI [OF sig_atD [OF s2]] by simp
      next
        case False
        obtain s3 where "sig_new_tail f state_bytes (c, fs) s2 = Some (None, s3)" "sig_on {0, 5} db M C s3"
          using new_tail_ok [where state_bytes = state_bytes and f = f and c = "(c, fs)", OF s2 assms(1)] assms(3) by blast
        then show ?thesis using False out by (auto simp: sig_on_def)
      qed
    qed
    show ?goal
      using m1
    proof (cases rule: cinst_ok [where old = old])
      case (error c fs)
      then show ?goal using sig_doneI [OF sig_atD [OF s1]] by (simp add: run rest_def sig_codes_def db_errors)
    next
      case (codec c fs)
      then show ?goal using tail [of "sg_mcu s1" fs c] by (simp add: run)
    next
      case (rate c fs x)
      then show ?goal using tail [of "(sg_mcu s1)\<lparr>mc_fs := x\<rparr>" fs c] by (auto simp: run set_mcu_def)
    qed
  qed
qed

section \<open>Taking packets out\<close>

lemma store_waiting_ok:
  assumes "mcu_inv m"
  obtains m' where "WebRtcNetEQ_StoreWaitingTime m t = Some m'" "mcu_inv m'" "mc_codec_DB m' = mc_codec_DB m"
    "mc_PacketBuffer m' = mc_PacketBuffer m"
proof -
  have "wt_inv m" using assms by (simp add: mcu_inv_def)
  from store_one [OF this, of t] obtain m' where m': "WebRtcNetEQ_StoreWaitingTime m t = Some m'" "wt_inv m'" by blast
  moreover have "mc_codec_DB m' = mc_codec_DB m" "mc_PacketBuffer m' = mc_PacketBuffer m" "mc_BufferStat m' = mc_BufferStat m"
    "mc_DTMF m' = mc_DTMF m" "mc_current_Codec m' = mc_current_Codec m" "mc_PayloadSplit m' = mc_PayloadSplit m"
    "mc_millisecondsPerCall m' = mc_millisecondsPerCall m" "mc_fs m' = mc_fs m" "mc_timestampsPerCall m' = mc_timestampsPerCall m"
    using m'(1) unfolding WebRtcNetEQ_StoreWaitingTime_def Let_def by (auto split: bind_splits if_splits)
  moreover from this have "mcu_inv m'" using m'(2) assms by (simp add: mcu_inv_def)
  ultimately show thesis using that by blast
qed

lemma sig_extract_ok:
  assumes "sig_at db M C s" "sg_bufferpos s \<noteq> -1" "0 < C"
  obtains s' where "sig_extract s = Some (0, s')" "sig_inv db M C s'"
    "pb_room (sg_buffer s') < pb_room (sg_buffer s)" "sg_instr s' = sg_instr s" "sg_wanted s' = sg_wanted s"
proof -
  note inv = sig_atD [OF assms(1)]
  have "pos_ok (sg_buffer s) (sg_bufferpos s)" using assms(1) by (simp add: sig_at_def)
  from extract_ok [OF sig_inv_parts(1) [OF inv] this assms(2), of rtp_blank] obtain p b t where
    e: "WebRtcNetEQ_PacketBufferExtract (sg_buffer s) rtp_blank (sg_bufferpos s) = Some (0, p, b, Some t)" "pb_inv b"
      "pb_room b + pb_words (rtp_payloadLen p) + 1 = pb_room (sg_buffer s)"
      "length (rtp_payload p) = 2 * pb_words (rtp_payloadLen p)" .
  have m: "mcu_inv ((sg_mcu s)\<lparr>mc_PacketBuffer := b\<rparr>)" using mcu_inv_sets(3) [OF sig_invD(1) [OF inv] e(2)] .
  obtain m' where m': "WebRtcNetEQ_StoreWaitingTime ((sg_mcu s)\<lparr>mc_PacketBuffer := b\<rparr>) t = Some m'" "mcu_inv m'"
    "mc_codec_DB m' = sg_db s" "mc_PacketBuffer m' = b" by (rule store_waiting_ok [OF m, of t]) simp
  have "2 * (sg_block s + 1) + length (rtp_payload p) \<le> length (sg_mem s)"
    using inv e(3,4) assms(3) by (simp add: sig_inv_def)
  from wr_bytes_ok [OF this] obtain m1 where m1: "wr_bytes (sg_mem s) (sg_block s + 1) (rtp_payload p) = Some m1"
    "length m1 = length (sg_mem s)" by blast
  have "2 * sg_block s + 2 \<le> length m1" using inv m1(2) assms(3) by (simp add: sig_inv_def)
  from wr_w16_ok [OF this] obtain m2 where m2: "wr_w16 m1 (sg_block s)
      (if rtp_rcuPlCntr p > 0 then rtp_payloadLen p OR DSP_CODEC_RED_FLAG else rtp_payloadLen p) = Some m2"
    "length m2 = length (sg_mem s)" using m1(2) by metis
  define s' where "s' = s\<lparr>sg_mcu := m', sg_mem := m2, sg_block := sg_block s + pb_words (rtp_payloadLen p) + 1\<rparr>"
  have "sig_extract s = Some (0, s')"
    using e(1) m1(1) m2(1) m'(1) by (simp add: sig_extract_def set_buffer_def set_mcu_def s'_def)
  moreover have "sig_inv db M C s'" using inv m' m2(2) e(3) by (simp add: s'_def sig_inv_def)
  moreover have "pb_room (sg_buffer s') < pb_room (sg_buffer s)" using e(3) m'(4) by (simp add: s'_def)
  ultimately show thesis using that by (simp add: s'_def)
qed

text \<open>Every round takes a packet out of the buffer, so the loop ends.\<close>

lemma loop_ok:
  assumes "sig_on D db M C s" "sg_bufferpos s \<noteq> -1" "0 < C"
  shows "\<exists>s'. sig_loop f oldTS oldPT prevTS prevSeqNo s = Some (None, s') \<and> sig_on D db M C s'"
  using assms(1,2)
proof (induction "pb_room (sg_buffer s)" arbitrary: s prevSeqNo rule: less_induct)
  case less
  define s0 where "s0 = set_mcu (\<lambda>m. m\<lparr>mc_timeStamp := sg_availableTS s\<rparr>) s"
  have s0: "sig_at db M C s0" "sg_bufferpos s0 \<noteq> -1" "sg_instr s0 = sg_instr s" "sg_buffer s0 = sg_buffer s"
    using set_mcu_at [OF sig_onD(1) [OF less.prems(1)], of "\<lambda>m. m\<lparr>mc_timeStamp := sg_availableTS s\<rparr>"] less.prems(2)
    by (simp add: s0_def) (simp_all add: s0_def less.prems(2) set_mcu_def)
  obtain s1 where s1: "sig_extract s0 = Some (0, s1)" "sig_inv db M C s1"
    "pb_room (sg_buffer s1) < pb_room (sg_buffer s)" "sg_instr s1 = sg_instr s"
    using sig_extract_ok [OF s0(1,2) assms(3)] s0(3,4) by metis
  define s2 where "s2 = s1\<lparr>sg_totalTS := s32 (sg_availableTS s1 - oldTS + pb_packSizeSamples (sg_buffer s1))\<rparr>"
  have "sig_inv db M C s2" using s1(2) by (simp add: s2_def)
  then obtain s3 where s3: "sig_find (mc_timeStamp (sg_mcu s2)) False s2 = (0, s3)" "sig_at db M C s3"
    "pb_room (sg_buffer s3) \<le> pb_room (sg_buffer s2)" "sg_instr s3 = sg_instr s2" by (rule sig_find_ok)
  have "\<exists>x. sig_next oldPT prevSeqNo prevTS s3 = Some x"
    using s3(2) by (auto simp: sig_next_def sig_at_def pos_ok_def)
  then obtain follows seq where nxt: "sig_next oldPT prevSeqNo prevTS s3 = Some (follows, seq)" by auto
  obtain v where v: "sig_pack_size f (pb_packSizeSamples (sg_buffer s3)) s3
      = Some (set_buffer ((sg_buffer s3)\<lparr>pb_packSizeSamples := v\<rparr>) s3)"
    "sig_at db M C (set_buffer ((sg_buffer s3)\<lparr>pb_packSizeSamples := v\<rparr>) s3)"
    using pack_size_ok [OF s3(2)] by metis
  define s4 where "s4 = set_buffer ((sg_buffer s3)\<lparr>pb_packSizeSamples := v\<rparr>) s3"
  have s4: "sig_on D db M C s4" using v(2) less.prems(1) s3(4) s1(4)
    by (simp add: s4_def sig_on_def) (simp add: set_buffer_def set_mcu_def s2_def)
  have room: "pb_room (sg_buffer s4) < pb_room (sg_buffer s)"
    using s3(3) s1(3) by (simp add: s4_def set_buffer_def set_mcu_def s2_def)
  note run = sig_loop.simps [of f oldTS oldPT prevTS prevSeqNo s, folded s0_def, unfolded s1(1) Option.bind_lunit prod.case,
      folded s2_def, unfolded s3(1) snd_conv Option.bind_lunit nxt prod.case v(1), folded s4_def]
  show ?case
  proof (cases "follows \<and> sg_totalTS s4 < sg_wanted s4")
    case False
    then show ?thesis unfolding run using s4 by auto
  next
    case True
    then have "sg_bufferpos s4 \<noteq> -1"
      using nxt by (auto simp: s4_def set_buffer_def set_mcu_def sig_next_def)
    from less.hyps [OF room s4 this, of seq] show ?thesis unfolding run using True by simp
  qed
qed

lemma packets_ok:
  assumes "0 < C"
  shows "sig_spec (sig_on D db M C) (sig_packets f) (sig_on D db M C) R"
proof (rule sig_specI)
  fix s assume s: "sig_on D db M C s"
  let ?goal = "\<exists>r s'. sig_packets f s = Some (r, s') \<and> (case r of None \<Rightarrow> sig_on D db M C s' | Some x \<Rightarrow> R x s')"
  show ?goal
  proof (cases "sg_bufferpos s > -1 \<and> sg_instr s \<notin> {BUFSTATS_DO_ALTERNATIVE_PLC, BUFSTATS_DO_ALTERNATIVE_PLC_INC_TS,
          BUFSTATS_DO_AUDIO_REPETITION, BUFSTATS_DO_AUDIO_REPETITION_INC_TS}")
    case False
    then show ?goal unfolding sig_packets_def if_not_P [OF False] using s by simp
  next
    case True
    note inv = sig_onD(2) [OF s]
    let ?gap = "u32 (sg_availableTS s - di_playedOutTS (sg_info s))"
    have i: "1 < sg_block s + C" "2 < sg_block s + C" using inv assms by (simp_all add: sig_inv_def)
    obtain m1 where m1: "sig_write 1 (shr ?gap 16) s = Some (s\<lparr>sg_mem := m1\<rparr>)" "sig_inv db M C (s\<lparr>sg_mem := m1\<rparr>)"
      using sig_write_ok [OF inv i(1)] .
    have "2 < sg_block (s\<lparr>sg_mem := m1\<rparr>) + C" using i(2) by simp
    from sig_write_ok [OF m1(2) this, of "?gap AND 0xFFFF"] obtain m2 where
      m2: "sig_write 2 (?gap AND 0xFFFF) (s\<lparr>sg_mem := m1\<rparr>) = Some (s\<lparr>sg_mem := m1\<rparr>\<lparr>sg_mem := m2\<rparr>)"
        "sig_inv db M C (s\<lparr>sg_mem := m1\<rparr>\<lparr>sg_mem := m2\<rparr>)" .
    define s2 where "s2 = s\<lparr>sg_mem := m1\<rparr>\<lparr>sg_mem := m2\<rparr>"
    have s2: "sig_at db M C s2" "sg_instr s2 = sg_instr s" "sg_bufferpos s2 = sg_bufferpos s"
      using sig_at_mem [OF sig_onD(1) [OF s], of m2] m2(2) by (simp_all add: s2_def)
    obtain first where first: "geti (pb_slots (sg_buffer s2)) (sg_bufferpos s2) = Some first"
      using s2 True by (auto simp: sig_at_def pos_ok_def)
    define g where "g = (\<lambda>m. m\<lparr>
          mc_lostTS := (if bs_cngOn (sg_stat s) = CNG_OFF then u32 (mc_lostTS m + ?gap) else mc_lostTS m),
          mc_BufferStat := (sg_stat s)\<lparr>bs_CNGplayedTS := 0,
            bs_cngOn := (if sg_instr s2 \<noteq> BUFSTATS_DO_RFC3389CNG_PACKET then CNG_OFF else bs_cngOn (sg_stat s))\<rparr>,
          mc_decoded_packet_sequence_number := sl_seqNumber first,
          mc_decoded_packet_timestamp := sl_timeStamp first\<rparr> :: mcu)"
    have "sig_at db M C (set_mcu g s2)"
      using s2(1) by (rule set_mcu_at) (simp_all add: g_def mcu_inv_sets sig_inv_parts(3) [OF inv])
    then have s3: "sig_at db M C (set_mcu g s2)" "sig_inv db M C (set_mcu g s2)" by (simp_all add: sig_atD)
    obtain m3 where m3: "sig_instr 0xFF3F 0 (set_mcu g s2) = Some ((set_mcu g s2)\<lparr>sg_mem := m3\<rparr>)"
      "sig_inv db M C ((set_mcu g s2)\<lparr>sg_mem := m3\<rparr>)" by (rule sig_instr_ok [OF s3(2)])
    define s4 where "s4 = (set_mcu g s2)\<lparr>sg_mem := m3\<rparr>"
    have s4: "sig_on D db M C s4" "sg_bufferpos s4 \<noteq> -1"
      using sig_at_mem [OF s3(1) m3(2)] s s2 True by (auto simp: s4_def sig_on_def set_mcu_def)
    show ?goal
      unfolding sig_packets_def if_P [OF True] Let_def m1(1) Option.bind_lunit m2(1) s2_def [symmetric] first
        g_def [symmetric] m3(1) s4_def [symmetric]
      using loop_ok [OF s4 assms] by fastforce
  qed
qed

section \<open>The instruction\<close>

lemma check_scale_ok:
  assumes "sig_on played db M C s"
  shows "sig_on played db M C (sig_check_scale s)"
proof -
  have "sig_on played db M C (set_mcu (\<lambda>m. set_Automode ((mc_Automode m)\<lparr>am_sampleMemory := x, am_prevTimeScale := 1\<rparr>) m) s)" for x
    using set_mcu_at [OF sig_onD(1) [OF assms], of "\<lambda>m. set_Automode ((mc_Automode m)\<lparr>am_sampleMemory := x, am_prevTimeScale := 1\<rparr>) m"]
      assms sig_inv_parts(3) [OF sig_onD(2) [OF assms]] by (simp add: sig_on_def mcu_inv_sets) (simp add: set_mcu_def)
  then show ?thesis using assms by (auto simp: sig_check_scale_def sig_on_def played_def)
qed

lemma dsp_instr_played: "d \<in> played \<longleftrightarrow> (\<exists>v. dsp_instr d = Some v)"
  by (simp add: dsp_instr_def played_def)

lemma write_instr_ok:
  assumes "0 < C"
  shows "sig_spec (sig_on played db M C) (sig_write_instr \<circ> sig_check_scale) Q (sig_done db M)"
proof (rule sig_specI)
  fix s0 assume "sig_on played db M C s0"
  then have "sig_on played db M C (sig_check_scale s0)" by (rule check_scale_ok)
  then obtain s where s: "s = sig_check_scale s0" "sig_on played db M C s" by blast
  note inv = sig_onD(2) [OF s(2)]
  obtain v where v: "dsp_instr (sg_instr s) = Some v" using s(2) dsp_instr_played by (auto simp: sig_on_def)
  have "sg_block s < sg_block s + C" using assms by simp
  from sig_write_ok [OF inv this, of 0] obtain m1 where
    m1: "sig_write (sg_block s) 0 s = Some (s\<lparr>sg_mem := m1\<rparr>)" "sig_inv db M C (s\<lparr>sg_mem := m1\<rparr>)" .
  have "1 < sg_block (s\<lparr>sg_mem := m1\<rparr>) + C" using inv by (simp add: sig_inv_def)
  from sig_write_ok [OF m1(2) this, of 0] obtain m2 where
    m2: "sig_write 1 0 (s\<lparr>sg_mem := m1\<rparr>) = Some (s\<lparr>sg_mem := m1\<rparr>\<lparr>sg_mem := m2\<rparr>)" "sig_inv db M C (s\<lparr>sg_mem := m1\<rparr>\<lparr>sg_mem := m2\<rparr>)" .
  define t where "t = s\<lparr>sg_mem := (if sg_instr s \<in> {BUFSTATS_DO_ALTERNATIVE_PLC, BUFSTATS_DO_ALTERNATIVE_PLC_INC_TS,
      BUFSTATS_DO_AUDIO_REPETITION, BUFSTATS_DO_AUDIO_REPETITION_INC_TS} then m2 else m1)\<rparr>"
  have t: "sig_inv db M C t" using m1(2) m2(2) by (simp add: t_def)
  obtain m3 where m3: "sig_instr 0x0fff v t = Some (t\<lparr>sg_mem := m3\<rparr>)" "sig_inv db M C (t\<lparr>sg_mem := m3\<rparr>)"
    by (rule sig_instr_ok [OF t])
  have fin: "sig_done db M 0 (set_mcu (\<lambda>m. m\<lparr>mc_timeStamp := x\<rparr>) (t\<lparr>sg_mem := m3\<rparr>))" for x
    using sig_doneI [OF set_mcu_inv [OF m3(2), of "\<lambda>m. m\<lparr>mc_timeStamp := x\<rparr>"]] by (simp add: sig_codes_def)
  have "sig_write_instr s = Some (Some 0, set_mcu (\<lambda>m. m\<lparr>mc_timeStamp := di_playedOutTS (sg_info (t\<lparr>sg_mem := m3\<rparr>))\<rparr>) (t\<lparr>sg_mem := m3\<rparr>))"
    using m1(1) m2(1) m3(1) v by (auto simp: sig_write_instr_def t_def split: if_splits)
  then show "\<exists>r s'. (sig_write_instr \<circ> sig_check_scale) s0 = Some (r, s')
      \<and> (case r of None \<Rightarrow> Q s' | Some x \<Rightarrow> sig_done db M x s')"
    using fin by (simp add: s(1))
qed

section \<open>The step\<close>

lemma left_to_play: "insert 0 ({0..14 :: int} - {4}) - {9} - {3} - {6, 7, 10} = played"
proof -
  have "{0..14 :: int} = {0, 1, 2, 3, 4, 5, 6, 7, 8, 9, 10, 11, 12, 13, 14}"
    by (simp only: set_eq_iff atLeastAtMost_iff insert_iff empty_iff) presburger
  then show ?thesis by (simp only:) (auto simp: played_def)
qed

lemma steps_ok:
  assumes "\<And>f x y. length (cinst_bytes f x y) = 2 * lc" "\<And>p. length (state_bytes p) = 2 * ls"
  shows "sig_spec (sig_inv db M (6 + lc + ls)) (foldr sig_then (sig_steps f cinst_bytes state_bytes old fm) (\<lambda>s. Some (None, s)))
    (\<lambda>s. False) (sig_done db M)"
proof -
  have rest: "sig_spec (sig_on {0..14} db M (1 + 2 + lc + ls)) (sig_then (sig_new_codec f cinst_bytes state_bytes old)
     (sig_then sig_reinit_decoder (sig_then sig_expand (sig_then sig_no_packet (sig_then (sig_wanted fm) (sig_then (sig_packets f)
       (sig_then (sig_write_instr \<circ> sig_check_scale) (\<lambda>s. Some (None, s))))))))) (\<lambda>s. False) (sig_done db M)"
    apply (rule sig_spec_then [OF new_codec_ok [where C = 1 and lc = lc and ls = ls]])
       apply (simp_all add: assms)
    apply (rule sig_spec_then [OF reinit_decoder_ok])
    apply (rule sig_spec_then [OF expand_ok])
    apply (rule sig_spec_then [OF no_packet_ok], simp)
    unfolding left_to_play
    apply (rule sig_spec_then [OF wanted_ok], simp, simp add: played_def)
    apply (rule sig_spec_then [OF packets_ok], simp)
    apply (rule sig_spec_then [OF write_instr_ok], simp)
    apply (rule sig_spec_skip)
    done
  have 6: "6 + lc + ls = (1 + 2 + lc + ls) + 3" by simp
  show ?thesis
    unfolding sig_steps_def foldr.simps comp_def [of "sig_then _"] id_def 6
    by (rule sig_spec_then [OF late_packet_ok sig_spec_then [OF find_first_ok sig_spec_then [OF stale_cng_ok
          sig_spec_then [OF decide_part_ok sig_spec_then [OF enough_ok rest]]]]]) simp_all
qed

lemma signal_safe:
  assumes "mcu_inv m" "\<And>f x y. length (cinst_bytes f x y) = 2 * lc" "\<And>p. length (state_bytes p) = 2 * ls"
    "2 * (9 + lc + ls + pb_room (mc_PacketBuffer m)) \<le> length mem"
  shows "\<exists>r m' mem'. WebRtcNetEQ_SignalMcu call_duration cinst_bytes state_bytes old m mem = Some (r, m', mem')
    \<and> r \<in> {0, CODEC_DB_NOT_EXIST1, CODEC_DB_UNSUPPORTED_FS} \<and> mcu_inv m' \<and> mc_codec_DB m' = mc_codec_DB m
    \<and> length mem' = length mem"
proof -
  have "2 * (9 + (lc + ls) + pb_room (mc_PacketBuffer m)) \<le> length mem" using assms(4) by (simp add: add.assoc)
  from start_ok [OF assms(1) refl this] obtain s where s: "sig_start m mem = Some s"
    "sig_inv (mc_codec_DB m) (length mem) (6 + lc + ls) s" by (auto simp: add.assoc)
  note steps = steps_ok [where cinst_bytes = cinst_bytes and state_bytes = state_bytes and f = call_duration and old = old
      and fm = "sig_fs_mult m" and lc = lc and ls = ls, OF assms(2,3)]
  from steps frame_len_ok [OF cng_clock_ok [OF flags_ok [OF s(2)]]] show ?thesis
    by (cases rule: sig_specD) (auto simp: WebRtcNetEQ_SignalMcu_def s(1) sig_done_def sig_codes_def)
qed

text \<open>
  C2: The step for a block of output is safe and ends: from a well-formed state, and with a shared memory
  that holds the header, the blocks of a new codec and the payloads that are in the packet buffer, it
  returns on every path, both loops included, without an access out of bounds.  It returns 0
  or the error of a codec that is no longer registered or has an unsupported rate (never
  \<open>UNKNOWN_BUFSTAT_DECISION\<close>), and leaves a well-formed state over the same codec database.
\<close>

theorem signal_mcu_safe:
  assumes "mcu_inv m" "\<And>f x y. length (cinst_bytes f x y) = 2 * lc" "\<And>p. length (state_bytes p) = 2 * ls"
    "2 * (9 + lc + ls + pb_room (mc_PacketBuffer m)) \<le> length mem"
  shows "\<exists>r m' mem'. WebRtcNetEQ_SignalMcu call_duration cinst_bytes state_bytes old m mem = Some (r, m', mem')
    \<and> r \<in> {0, CODEC_DB_NOT_EXIST1, CODEC_DB_UNSUPPORTED_FS} \<and> mcu_inv m' \<and> mc_codec_DB m' = mc_codec_DB m
    \<and> length mem' = length mem"
  using assms by (rule signal_safe)

lemma signal_mcu_safe_witness:
  "\<exists>r m' mem'. WebRtcNetEQ_SignalMcu (\<lambda>f s p n. 0) (\<lambda>f x y. replicate 44 0) (\<lambda>p. replicate 4 0) (null_funcs, 0)
      recin_example (replicate 66 0) = Some (r, m', mem')
    \<and> r \<in> {0, CODEC_DB_NOT_EXIST1, CODEC_DB_UNSUPPORTED_FS} \<and> mcu_inv m' \<and> mc_codec_DB m' = mc_codec_DB recin_example
    \<and> length mem' = length (replicate 66 (0 :: byte))"
proof (rule signal_mcu_safe [where lc = 22 and ls = 2, OF recin_example_inv])
  have "pb_room pb_example = 0" by code_simp
  then show "2 * (9 + 22 + 2 + pb_room (mc_PacketBuffer recin_example)) \<le> length (replicate 66 (0 :: byte))"
    by (simp add: recin_example_def)
qed simp_all

text \<open>
  C32: When a packet is taken out of the buffer its payload is written into the shared memory without
  a test of the room that is left: the write stays inside exactly when the length word and the payload, rounded up to
  words, fit behind what has been written so far.
\<close>

theorem extract_inside_iff:
  assumes "mcu_inv (sg_mcu s)" "0 \<le> sg_bufferpos s" "nat (sg_bufferpos s) < length (pb_slots (sg_buffer s))"
    "slot = pb_slots (sg_buffer s) ! nat (sg_bufferpos s)" "sl_payloadLengthBytes slot \<noteq> 0"
  shows "sig_extract s \<noteq> None \<longleftrightarrow>
    2 * (sg_block s + 1 + pb_words (sl_payloadLengthBytes slot)) \<le> length (sg_mem s)"
proof -
  define i where "i = nat (sg_bufferpos s)"
  have i: "sg_bufferpos s = int i" "i < length (pb_slots (sg_buffer s))" "slot = pb_slots (sg_buffer s) ! i"
    "sl_used (pb_slots (sg_buffer s) ! i)" using assms(2-5) by (simp_all add: i_def)
  have b: "pb_inv (sg_buffer s)" using assms(1) by (simp add: mcu_inv_def)
  have "pos_ok (sg_buffer s) (int i)" "int i \<noteq> -1" using i by (auto simp: pos_ok_def)
  from extract_ok [OF b this, of rtp_blank] obtain p b' t where
    e: "WebRtcNetEQ_PacketBufferExtract (sg_buffer s) rtp_blank (int i) = Some (0, p, b', Some t)" "pb_inv b'"
      "length (rtp_payload p) = 2 * pb_words (rtp_payloadLen p)" by metis
  have len: "rtp_payloadLen p = sl_payloadLengthBytes slot"
    using extract_eq [OF b i(2,4), of rtp_blank] e(1) i(3) by simp
  obtain m' where m': "WebRtcNetEQ_StoreWaitingTime ((sg_mcu s)\<lparr>mc_PacketBuffer := b'\<rparr>) t = Some m'"
    using store_waiting_ok [OF mcu_inv_sets(3) [OF assms(1) e(2)]] by metis
  have w: "wr_w16 m1 (sg_block s) v \<noteq> None" if "wr_bytes (sg_mem s) (sg_block s + 1) (rtp_payload p) = Some m1" for m1 v
    using that by (auto simp: wr_bytes_def wr_w16_def split: if_splits)
  have "sig_extract s \<noteq> None \<longleftrightarrow> wr_bytes (sg_mem s) (sg_block s + 1) (rtp_payload p) \<noteq> None"
  proof (cases "wr_bytes (sg_mem s) (sg_block s + 1) (rtp_payload p)")
    case None
    then show ?thesis using e(1) i(1) by (simp add: sig_extract_def set_buffer_def set_mcu_def)
  next
    case (Some m1)
    from w [OF this] obtain m2 where "wr_w16 m1 (sg_block s)
      (if rtp_rcuPlCntr p > 0 then rtp_payloadLen p OR DSP_CODEC_RED_FLAG else rtp_payloadLen p) = Some m2" by blast
    then show ?thesis using Some e(1) i(1) m' by (simp add: sig_extract_def set_buffer_def set_mcu_def)
  qed
  then show ?thesis using e(3) len by (simp add: wr_bytes_def algebra_simps)
qed

definition sig_example :: sig_state where
  "sig_example = \<lparr>sg_mcu = recin_example\<lparr>mc_PacketBuffer := pb_example1\<rparr>, sg_mem = replicate 18 0, sg_block = 3,
     sg_info = \<lparr>di_playedOutTS = 0, di_samplesLeft = 0, di_MD = 0, di_lastMode = 0, di_frameLen = 0\<rparr>, sg_late = False,
     sg_playDtmf = 0, sg_bgnOnly = False, sg_availableTS = 0, sg_bufferpos = 0, sg_payloadType = 0, sg_instr = 0,
     sg_wanted = 80, sg_totalTS = 0\<rparr>"

text \<open>Nine bytes and their length need six words behind the header; there are nine.\<close>

lemma extract_inside_iff_witness:
  "(sig_extract sig_example \<noteq> None) =
     (2 * (sg_block sig_example + 1 + pb_words (sl_payloadLengthBytes (pb_slots (sg_buffer sig_example) ! 0)))
      \<le> length (sg_mem sig_example))"
proof (rule extract_inside_iff)
  have "pb_inv pb_example1"
    using insert_inv [OF pb_example_inv(1) pb_cx_fits] by (metis option.sel pb_example1_def snd_conv)
  then show "mcu_inv (sg_mcu sig_example)"
    using mcu_inv_sets(3) [OF recin_example_inv] by (simp add: sig_example_def)
  have b: "0 < length (pb_slots pb_example1)" "sl_payloadLengthBytes (pb_slots pb_example1 ! 0) \<noteq> 0" by code_simp+
  then show "nat (sg_bufferpos sig_example) < length (pb_slots (sg_buffer sig_example))"
    "sl_payloadLengthBytes (pb_slots (sg_buffer sig_example) ! 0) \<noteq> 0" by (simp_all add: sig_example_def)
qed (simp_all add: sig_example_def)

end
