(* ===== verification/Session.thy ===== *)
theory Session
  imports Signal_Safe
begin

text \<open>
  The control side in operation: after a reset and the assignment of a packet buffer, codecs
  are registered and removed, the rate is changed, packets arrive and blocks of output are
  asked for, in any order.
\<close>

inductive mcu_reach :: "mcu \<Rightarrow> bool" where
  start: "WebRtcNetEQ_McuReset m = (0, m') \<Longrightarrow> WebRtcNetEQ_PacketBufferInit pw b n has_mem sz = Some (0, pb) \<Longrightarrow>
    mcu_reach (m'\<lparr>mc_PacketBuffer := pb\<rparr>)"
| add_codec: "mcu_reach m \<Longrightarrow> WebRtcNetEQ_DbAdd (mc_codec_DB m) codec pt funcs fs = Some (0, db) \<Longrightarrow>
    mcu_reach (m\<lparr>mc_codec_DB := db\<rparr>)"
| remove_codec: "mcu_reach m \<Longrightarrow> WebRtcNetEQ_DbRemove (mc_codec_DB m) codec = Some (0, db) \<Longrightarrow>
    mcu_reach (m\<lparr>mc_codec_DB := db\<rparr>)"
| set_fs: "mcu_reach m \<Longrightarrow> mcu_reach (snd (WebRtcNetEQ_McuSetFs m fs))"
| packet: "mcu_reach m \<Longrightarrow>
    recin_ready (mc_codec_DB m) p \<Longrightarrow>
    WebRtcNetEQ_RecInInternal call_duration junk m p t = Some (ret, m') \<Longrightarrow> mcu_reach m'"
| block: "mcu_reach m \<Longrightarrow> (\<And>f x y. length (cinst_bytes f x y) = 2 * lc) \<Longrightarrow> (\<And>p. length (state_bytes p) = 2 * ls) \<Longrightarrow>
    2 * (9 + lc + ls + pb_room (mc_PacketBuffer m)) \<le> length mem \<Longrightarrow>
    WebRtcNetEQ_SignalMcu call_duration cinst_bytes state_bytes old m mem = Some (ret, m', mem') \<Longrightarrow> mcu_reach m'"

text \<open>The codec database of such a state is the one of a sequence of registrations and removals.\<close>

lemma mcu_inv_db: "mcu_inv m \<Longrightarrow> db_inv db \<Longrightarrow> db_cng_ok db \<Longrightarrow> mcu_inv (m\<lparr>mc_codec_DB := db\<rparr>)"
  by (simp add: mcu_inv_def wt_inv_def)

lemma reach_inv: "mcu_reach m \<Longrightarrow> mcu_inv m \<and> db_reachable (mc_codec_DB m)"
proof (induction rule: mcu_reach.induct)
  case (start m m' pw b n has_mem sz pb)
  have "mc_codec_DB m' = WebRtcNetEQ_DbReset"
    using start(1) by (auto simp: WebRtcNetEQ_McuReset_def Let_def case_prod_beta WebRtcNetEQ_ResetMcuInCallStats_def
        WebRtcNetEQ_ResetWaitingTimeStats_def WebRtcNetEQ_ResetMcuJitterStat_def split: if_splits)
  then show ?case using mcu_reset_state [OF start(2), of m] start(1) by (auto intro: db_reachable.reset)
next
  case (add_codec m codec pt funcs fs db)
  then have "db_reachable db" by (auto intro: db_reachable.add)
  then show ?case using add_codec.IH mcu_inv_db reachable_inv reachable_cng by simp
next
  case (remove_codec m codec db)
  then have "db_reachable db" by (auto intro: db_reachable.remove)
  then show ?case using remove_codec.IH mcu_inv_db reachable_inv reachable_cng by simp
next
  case (set_fs m fs)
  then show ?case using set_fs_inv(1) set_fs_keeps(1) by simp
next
  case (packet m p call_duration junk t ret m')
  then show ?case using recin_safe [of m p call_duration junk t] by auto
next
  case (block m cinst_bytes lc state_bytes ls mem call_duration old ret m' mem')
  then show ?case using signal_safe [of m cinst_bytes lc state_bytes ls mem call_duration old] by auto
qed


lemma example_reach: "mcu_reach recin_example"
proof -
  let ?m = "(snd (WebRtcNetEQ_McuReset mc_blank))\<lparr>mc_PacketBuffer := pb_example\<rparr>"
  have "map_option fst (WebRtcNetEQ_PacketBufferInit 4 pb_blank 6 True 150) = Some 0" by code_simp
  then have pb: "WebRtcNetEQ_PacketBufferInit 4 pb_blank 6 True 150 = Some (0, pb_example)"
    by (auto simp: pb_example_def)
  have "fst (WebRtcNetEQ_McuReset mc_blank) = 0"
    by (simp add: WebRtcNetEQ_McuReset_def Let_def case_prod_beta WebRtcNetEQ_DtmfDecoderInit_def)
  then have "WebRtcNetEQ_McuReset mc_blank = (0, snd (WebRtcNetEQ_McuReset mc_blank))" by (metis prod.collapse)
  from mcu_reach.start [OF this pb] have "mcu_reach ?m" .
  moreover have "mc_codec_DB ?m = WebRtcNetEQ_DbReset"
    by (simp add: WebRtcNetEQ_McuReset_def Let_def case_prod_beta WebRtcNetEQ_ResetMcuInCallStats_def
        WebRtcNetEQ_ResetWaitingTimeStats_def WebRtcNetEQ_ResetMcuJitterStat_def)
  ultimately have "mcu_reach (?m\<lparr>mc_codec_DB := db_example\<rparr>)" using mcu_reach.add_codec db_example_inv(2) by metis
  then show ?thesis by (simp add: recin_example_def)
qed


end
