(* ===== verification/Spl_Norm.thy ===== *)
theory Spl_Norm
  imports Spl
begin

text \<open>
  Sizes and norms (\<open>common_audio/signal_processing/include/spl_inl.h\<close>) and the energy of a vector
  (\<open>get_scaling_square.c\<close>, \<open>energy.c\<close>): how far a number can be shifted left, and a sum of squares that
  is scaled down so that it does not overflow.
\<close>

section \<open>Saturation\<close>

definition WebRtcSpl_SatW32ToW16 :: "int \<Rightarrow> int" where
  "WebRtcSpl_SatW32ToW16 value32 = (if value32 > 32767 then 32767 else if value32 < -32768 then -32768 else s16 value32)"

definition WebRtcSpl_AddSatW16 :: "int \<Rightarrow> int \<Rightarrow> int" where
  "WebRtcSpl_AddSatW16 a b = WebRtcSpl_SatW32ToW16 (a + b)"

definition WebRtcSpl_SubSatW16 :: "int \<Rightarrow> int \<Rightarrow> int" where
  "WebRtcSpl_SubSatW16 var1 var2 = WebRtcSpl_SatW32ToW16 (var1 - var2)"

section \<open>Sizes and norms\<close>

definition WebRtcSpl_GetSizeInBits :: "int \<Rightarrow> nat" where
  "WebRtcSpl_GetSizeInBits n =
     (let bits = (if 0xFFFF0000 AND n \<noteq> 0 then 16 else 0);
          bits = (if 0x0000FF00 AND shr n bits \<noteq> 0 then bits + 8 else bits);
          bits = (if 0x000000F0 AND shr n bits \<noteq> 0 then bits + 4 else bits);
          bits = (if 0x0000000C AND shr n bits \<noteq> 0 then bits + 2 else bits);
          bits = (if 0x00000002 AND shr n bits \<noteq> 0 then bits + 1 else bits)
      in if 0x00000001 AND shr n bits \<noteq> 0 then bits + 1 else bits)"

text \<open>\<open>if (!(mask & (a << zeros))) zeros += n;\<close>\<close>

definition norm_step :: "int \<Rightarrow> nat \<Rightarrow> int \<Rightarrow> nat \<Rightarrow> nat" where
  "norm_step m n a zeros = (if m AND shl a zeros = 0 then zeros + n else zeros)"

definition WebRtcSpl_NormW32 :: "int \<Rightarrow> nat" where
  "WebRtcSpl_NormW32 a =
     (if a = 0 then 0
      else let a = (if a < 0 then NOT a else a);
               zeros = norm_step 0xFFFF8000 16 a 0;
               zeros = norm_step 0xFF800000 8 a zeros;
               zeros = norm_step 0xF8000000 4 a zeros;
               zeros = norm_step 0xE0000000 2 a zeros
           in norm_step 0xC0000000 1 a zeros)"

definition WebRtcSpl_NormU32 :: "int \<Rightarrow> nat" where
  "WebRtcSpl_NormU32 a =
     (if a = 0 then 0
      else let zeros = norm_step 0xFFFF0000 16 a 0;
               zeros = norm_step 0xFF000000 8 a zeros;
               zeros = norm_step 0xF0000000 4 a zeros;
               zeros = norm_step 0xC0000000 2 a zeros
           in norm_step 0x80000000 1 a zeros)"

definition WebRtcSpl_NormW16 :: "int \<Rightarrow> nat" where
  "WebRtcSpl_NormW16 a =
     (if a = 0 then 0
      else let a = (if a < 0 then NOT a else a);
               zeros = norm_step 0xFF80 8 a 0;
               zeros = norm_step 0xF800 4 a zeros;
               zeros = norm_step 0xE000 2 a zeros
           in norm_step 0xC000 1 a zeros)"

section \<open>Energy\<close>

text \<open>The absolute value is stored in 16 bits, where that of -32768 is -32768.\<close>

definition scaling_max :: "int list \<Rightarrow> int" where
  "scaling_max xs = foldl (\<lambda>smax x. let sabs = (if x > 0 then x else s16 (- x)) in if sabs > smax then sabs else smax)
     (-1) xs"

definition WebRtcSpl_GetScalingSquare :: "int list \<Rightarrow> int \<Rightarrow> nat" where
  "WebRtcSpl_GetScalingSquare in_vector n_times =
     (let nbits = WebRtcSpl_GetSizeInBits (u32 n_times); smax = scaling_max in_vector;
          t = WebRtcSpl_NormW32 (smax * smax)
      in if smax = 0 then 0 else if t > nbits then 0 else nbits - t)"

definition WebRtcSpl_Energy :: "int list \<Rightarrow> int \<times> nat" where
  "WebRtcSpl_Energy vector =
     (let scaling = WebRtcSpl_GetScalingSquare vector (int (length vector))
      in (foldl (\<lambda>en x. s32 (en + shr (x * x) scaling)) 0 vector, scaling))"

section \<open>What they compute\<close>

lemma int_div_less: "0 < b \<Longrightarrow> a < c * b \<Longrightarrow> a div b < (c :: int)"
  by (smt (verit) mult_right_mono pos_mod_sign mult_div_mod_eq mult.commute)

text \<open>A test of the high bits is a comparison.\<close>

lemma high_bits:
  fixes x :: int
  assumes "0 \<le> x" "x < 2 ^ n" "k \<le> n"
  shows "(2 ^ n - 2 ^ k) AND x = 0 \<longleftrightarrow> x < 2 ^ k"
proof -
  have e: "2 ^ n - 2 ^ k = shl (2 ^ (n - k) - 1 :: int) k"
    using assms(3) by (simp add: push_bit_eq_mult left_diff_distrib flip: power_add)
  have m: "shl (2 ^ (n - k) - 1) k AND x = shl (take_bit (n - k) (shr x k)) k"
    by (rule bit_eqI) (auto simp: bit_simps simp flip: mask_eq_exp_minus_1)
  have "x < 2 ^ (n - k) * 2 ^ k" using assms by (simp flip: power_add)
  then have "shr x k < 2 ^ (n - k)" by (simp add: drop_bit_eq_div int_div_less)
  then have "take_bit (n - k) (shr x k) = shr x k" using assms(1) by (simp add: take_bit_int_eq_self)
  then have "(2 ^ n - 2 ^ k) AND x = 0 \<longleftrightarrow> shr x k = 0" unfolding e m by simp
  also have "\<dots> \<longleftrightarrow> x < 2 ^ k" using assms(1) by (auto simp: drop_bit_eq_div zdiv_eq_0_iff intro: less_trans)
  finally show ?thesis .
qed


text \<open>
  The norm: the number of left shifts that bring the leading bit to the place below the sign
  (or, unsigned, to the top).
\<close>

lemma norm_step_ok:
  assumes "norm_step m n a z = z'" "m = 2 ^ N - 2 ^ (K - n)" "n \<le> K" "K \<le> N"
    "0 \<le> a" "shl a z < 2 ^ K" "2 ^ (K - w) \<le> shl a z" "2 * n = w \<or> w = K \<and> K \<le> 2 * n"
  shows "shl a z' < 2 ^ K \<and> 2 ^ (K - n) \<le> shl a z'"
proof -
  have z: "0 \<le> shl a z" "shl a (z + n) = shl a z * 2 ^ n"
    using assms(5) by (simp_all add: push_bit_eq_mult power_add)
  have "shl a z < 2 ^ N" using assms(4,6) power_increasing [of K N "2 :: int"] by linarith
  with high_bits [of "shl a z" N "K - n"] z(1) assms(2,4)
  have t: "m AND shl a z = 0 \<longleftrightarrow> shl a z < 2 ^ (K - n)" by simp
  show ?thesis
  proof (cases "shl a z < 2 ^ (K - n)")
    case True
    then have z': "z' = z + n" using assms(1) t by (simp add: norm_step_def)
    have "shl a z * 2 ^ n < 2 ^ (K - n) * 2 ^ n" using True by simp
    moreover have "(2 :: int) ^ (K - n) * 2 ^ n = 2 ^ K" using assms(3) by (simp flip: power_add)
    moreover have "2 ^ (K - w) * 2 ^ n \<le> shl a z * 2 ^ n" using assms(7) by simp
    moreover have "(2 :: int) ^ (K - n) \<le> 2 ^ (K - w) * 2 ^ n"
    proof -
      have "K - n \<le> (K - w) + n" using assms(8) by auto
      then have "(2 :: int) ^ (K - n) \<le> 2 ^ ((K - w) + n)" by (intro power_increasing) auto
      then show ?thesis by (simp add: power_add)
    qed
    ultimately show ?thesis unfolding z' z(2) by (metis order_trans)
  next
    case False
    then show ?thesis using assms(1,6) t by (simp add: norm_step_def)
  qed
qed

lemma norm_u32:
  assumes "0 < a" "a < 4294967296"
  shows "2147483648 \<le> a * 2 ^ WebRtcSpl_NormU32 a" "a * 2 ^ WebRtcSpl_NormU32 a < 4294967296"
proof -
  let ?z1 = "norm_step 0xFFFF0000 16 a 0"
  let ?z2 = "norm_step 0xFF000000 8 a ?z1"
  let ?z3 = "norm_step 0xF0000000 4 a ?z2"
  let ?z4 = "norm_step 0xC0000000 2 a ?z3"
  let ?z5 = "norm_step 0x80000000 1 a ?z4"
  have a: "0 \<le> a" using assms by simp
  have 1: "shl a ?z1 < 2 ^ 32 \<and> 2 ^ (32 - 16) \<le> shl a ?z1"
    by (rule norm_step_ok [OF refl, where N = 32 and w = 32]) (use assms in simp_all)
  have 2: "shl a ?z2 < 2 ^ 32 \<and> 2 ^ (32 - 8) \<le> shl a ?z2"
    by (rule norm_step_ok [OF refl, where N = 32 and w = 16]) (use 1 a in simp_all)
  have 3: "shl a ?z3 < 2 ^ 32 \<and> 2 ^ (32 - 4) \<le> shl a ?z3"
    by (rule norm_step_ok [OF refl, where N = 32 and w = 8]) (use 2 a in simp_all)
  have 4: "shl a ?z4 < 2 ^ 32 \<and> 2 ^ (32 - 2) \<le> shl a ?z4"
    by (rule norm_step_ok [OF refl, where N = 32 and w = 4]) (use 3 a in simp_all)
  have "shl a ?z5 < 2 ^ 32 \<and> 2 ^ (32 - 1) \<le> shl a ?z5"
    by (rule norm_step_ok [OF refl, where N = 32 and w = 2]) (use 4 a in simp_all)
  moreover have "WebRtcSpl_NormU32 a = ?z5" using assms by (simp add: WebRtcSpl_NormU32_def Let_def)
  ultimately show "2147483648 \<le> a * 2 ^ WebRtcSpl_NormU32 a" "a * 2 ^ WebRtcSpl_NormU32 a < 4294967296"
    by (simp_all add: push_bit_eq_mult)
qed

lemma norm_w32_pos:
  assumes "0 < a" "a < 2147483648"
  shows "1073741824 \<le> a * 2 ^ WebRtcSpl_NormW32 a" "a * 2 ^ WebRtcSpl_NormW32 a < 2147483648"
proof -
  let ?z1 = "norm_step 0xFFFF8000 16 a 0"
  let ?z2 = "norm_step 0xFF800000 8 a ?z1"
  let ?z3 = "norm_step 0xF8000000 4 a ?z2"
  let ?z4 = "norm_step 0xE0000000 2 a ?z3"
  let ?z5 = "norm_step 0xC0000000 1 a ?z4"
  have a: "0 \<le> a" using assms by simp
  have 1: "shl a ?z1 < 2 ^ 31 \<and> 2 ^ (31 - 16) \<le> shl a ?z1"
    by (rule norm_step_ok [OF refl, where N = 32 and w = 31]) (use assms in simp_all)
  have 2: "shl a ?z2 < 2 ^ 31 \<and> 2 ^ (31 - 8) \<le> shl a ?z2"
    by (rule norm_step_ok [OF refl, where N = 32 and w = 16]) (use 1 a in simp_all)
  have 3: "shl a ?z3 < 2 ^ 31 \<and> 2 ^ (31 - 4) \<le> shl a ?z3"
    by (rule norm_step_ok [OF refl, where N = 32 and w = 8]) (use 2 a in simp_all)
  have 4: "shl a ?z4 < 2 ^ 31 \<and> 2 ^ (31 - 2) \<le> shl a ?z4"
    by (rule norm_step_ok [OF refl, where N = 32 and w = 4]) (use 3 a in simp_all)
  have "shl a ?z5 < 2 ^ 31 \<and> 2 ^ (31 - 1) \<le> shl a ?z5"
    by (rule norm_step_ok [OF refl, where N = 32 and w = 2]) (use 4 a in simp_all)
  moreover have "WebRtcSpl_NormW32 a = ?z5" using assms by (simp add: WebRtcSpl_NormW32_def Let_def)
  ultimately show "1073741824 \<le> a * 2 ^ WebRtcSpl_NormW32 a" "a * 2 ^ WebRtcSpl_NormW32 a < 2147483648"
    by (simp_all add: push_bit_eq_mult)
qed

text \<open>The size in bits.\<close>

lemma size_step:
  assumes "bits' = (if m AND shr n bits \<noteq> 0 then bits + k else bits)" "m = 2 ^ w - 2 ^ k" "k \<le> w" "w \<le> 2 * k"
    "0 \<le> n" "shr n bits < 2 ^ w" "bits = 0 \<or> 0 < shr n (bits - 1)" "0 < k"
  shows "shr n bits' < 2 ^ k \<and> (bits' = 0 \<or> 0 < shr n (bits' - 1))"
proof -
  have z: "0 \<le> shr n bits" using assms(5) by simp
  have t: "m AND shr n bits = 0 \<longleftrightarrow> shr n bits < 2 ^ k"
    unfolding assms(2) by (rule high_bits [OF z assms(6,3)])
  show ?thesis
  proof (cases "shr n bits < 2 ^ k")
    case True
    then show ?thesis using assms(1,7) t by simp
  next
    case False
    then have b: "bits' = bits + k" using assms(1) t by simp
    have add: "shr n (i + j) = shr n i div 2 ^ j" for i j by (simp add: drop_bit_eq_div power_add flip: zdiv_zmult2_eq)
    have "shr n bits < 2 ^ k * 2 ^ k"
      using assms(4,6) power_increasing [of w "k + k" "2 :: int"] by (simp add: power_add)
    then have "shr n bits' < 2 ^ k" unfolding b add by (rule int_div_less [rotated]) simp
    moreover have "shr n (bits' - 1) = shr n bits div 2 ^ (k - 1)" using add [of bits "k - 1"] b assms(8) by simp
    moreover have "0 < shr n bits div 2 ^ (k - 1)"
    proof -
      have "(2 :: int) ^ (k - 1) \<le> 2 ^ k" by (intro power_increasing) simp_all
      then show ?thesis using False z by (smt (verit) pos_imp_zdiv_pos_iff zero_less_power)
    qed
    ultimately show ?thesis by simp
  qed
qed

lemma size_in_bits:
  assumes "0 \<le> n" "n < 4294967296"
  shows "n < 2 ^ WebRtcSpl_GetSizeInBits n"
    "0 < n \<Longrightarrow> 2 ^ (WebRtcSpl_GetSizeInBits n - 1) \<le> n"
proof -
  define b1 :: nat where "b1 = (if 0xFFFF0000 AND shr n 0 \<noteq> 0 then 0 + 16 else 0)"
  define b2 where "b2 = (if 0x0000FF00 AND shr n b1 \<noteq> 0 then b1 + 8 else b1)"
  define b3 where "b3 = (if 0x000000F0 AND shr n b2 \<noteq> 0 then b2 + 4 else b2)"
  define b4 where "b4 = (if 0x0000000C AND shr n b3 \<noteq> 0 then b3 + 2 else b3)"
  define b5 where "b5 = (if 0x00000002 AND shr n b4 \<noteq> 0 then b4 + 1 else b4)"
  define b6 where "b6 = (if 0x00000001 AND shr n b5 \<noteq> 0 then b5 + 1 else b5)"
  have 1: "shr n b1 < 2 ^ 16 \<and> (b1 = 0 \<or> 0 < shr n (b1 - 1))"
    by (rule size_step [OF b1_def, where w = 32]) (use assms in simp_all)
  have 2: "shr n b2 < 2 ^ 8 \<and> (b2 = 0 \<or> 0 < shr n (b2 - 1))"
    by (rule size_step [OF b2_def, where w = 16]) (use 1 assms in simp_all)
  have 3: "shr n b3 < 2 ^ 4 \<and> (b3 = 0 \<or> 0 < shr n (b3 - 1))"
    by (rule size_step [OF b3_def, where w = 8]) (use 2 assms in simp_all)
  have 4: "shr n b4 < 2 ^ 2 \<and> (b4 = 0 \<or> 0 < shr n (b4 - 1))"
    by (rule size_step [OF b4_def, where w = 4]) (use 3 assms in simp_all)
  have 5: "shr n b5 < 2 ^ 1 \<and> (b5 = 0 \<or> 0 < shr n (b5 - 1))"
    by (rule size_step [OF b5_def, where w = 2]) (use 4 assms in simp_all)
  moreover have "0 \<le> shr n b5" using assms(1) by simp
  ultimately have "shr n b5 = 0 \<or> shr n b5 = 1" by (simp only: power_one_right) linarith
  then have 6: "shr n b6 < 1 \<and> (b6 = 0 \<or> 0 < shr n (b6 - 1))"
  proof
    assume "shr n b5 = 0"
    then show ?thesis using 5 by (simp add: b6_def)
  next
    assume s: "shr n b5 = 1"
    then have "n div 2 ^ b5 = 1" by (simp add: drop_bit_eq_div)
    then have "n div 2 ^ b5 div 2 = 0" by simp
    then have "shr n (b5 + 1) = 0" by (simp add: drop_bit_eq_div power_add mult.commute flip: zdiv_zmult2_eq)
    then show ?thesis using s by (simp add: b6_def)
  qed
  have e: "WebRtcSpl_GetSizeInBits n = b6"
    by (simp add: WebRtcSpl_GetSizeInBits_def Let_def b1_def b2_def b3_def b4_def b5_def b6_def)
  have "n div 2 ^ b6 = 0" using 6 assms(1) by (simp add: drop_bit_eq_div order_antisym pos_imp_zdiv_nonneg_iff)
  then show "n < 2 ^ WebRtcSpl_GetSizeInBits n" using e assms(1) by (auto simp: zdiv_eq_0_iff intro: less_trans)
  show "2 ^ (WebRtcSpl_GetSizeInBits n - 1) \<le> n" if "0 < n"
  proof (cases "b6 = 0")
    case True
    then show ?thesis using that e by simp
  next
    case False
    then have "0 < n div 2 ^ (b6 - 1)" using 6 by (simp add: drop_bit_eq_div)
    then show ?thesis using e assms(1) by (simp add: pos_imp_zdiv_pos_iff)
  qed
qed

section \<open>The scaled sum of squares\<close>

lemma scaling_max_aux:
  "foldl (\<lambda>smax x. let sabs = (if x > 0 then x else s16 (- x)) in if sabs > smax then sabs else smax) m xs
    = fold max (map (\<lambda>x. if x > 0 then x else s16 (- x)) xs) m"
  by (induction xs arbitrary: m) (auto simp: Let_def max_def)

lemma scaling_max_abs:
  assumes "\<forall>x \<in> set xs. -32768 < x \<and> x < 32768" "xs \<noteq> []"
  shows "x \<in> set xs \<Longrightarrow> \<bar>x\<bar> \<le> scaling_max xs" "0 \<le> scaling_max xs" "scaling_max xs < 32768"
proof -
  have a: "map (\<lambda>x. if x > 0 then x else s16 (- x)) xs = map abs xs"
    using assms(1) by (intro map_cong) (auto simp: s16_id)
  have m: "scaling_max xs = Max (set (-1 # map abs xs))"
    unfolding scaling_max_def scaling_max_aux a by (simp only: Max.set_eq_fold)
  show le: "\<bar>x\<bar> \<le> scaling_max xs" if "x \<in> set xs" for x unfolding m using that by simp
  show "0 \<le> scaling_max xs" using le [of "hd xs"] assms(2) by (smt (verit) hd_in_set)
  have "scaling_max xs \<in> set (-1 # map abs xs)" unfolding m by (rule Max_in) simp_all
  then show "scaling_max xs < 32768" using assms(1) by auto
qed

lemma energy_foldl:
  assumes "\<forall>x \<in> set xs. shr (x * x) c \<le> M" "0 \<le> en" "en + int (length xs) * M < 2147483648" "0 \<le> M"
  shows "foldl (\<lambda>en x. s32 (en + shr (x * x) c)) en xs = en + (\<Sum>x \<leftarrow> xs. shr (x * x) c)"
  using assms
proof (induction xs arbitrary: en)
  case (Cons x xs)
  have nn: "0 \<le> shr (x * x) c" by simp
  have "0 \<le> int (length xs) * M" using Cons.prems(4) by simp
  moreover have "en + M + int (length xs) * M < 2147483648" using Cons.prems(3) by (simp add: algebra_simps)
  moreover have "shr (x * x) c \<le> M" using Cons.prems(1) by simp
  ultimately have b: "0 \<le> en + shr (x * x) c" "en + shr (x * x) c < 2147483648"
    and r: "en + shr (x * x) c + int (length xs) * M < 2147483648" using Cons.prems(2) nn by linarith+
  have i: "s32 (en + shr (x * x) c) = en + shr (x * x) c" by (rule s32_id) (use b in linarith)+
  show ?case using Cons.IH [of "en + shr (x * x) c"] Cons.prems i r nn by simp
qed simp

lemma scaling_room:
  assumes "\<forall>x \<in> set xs. -32768 < x \<and> x < 32768" "length xs < 65536" "xs \<noteq> []"
  shows "int (length xs) * (scaling_max xs * scaling_max xs div 2 ^ WebRtcSpl_GetScalingSquare xs (int (length xs))) < 2147483648"
proof -
  define s l b where "s = scaling_max xs * scaling_max xs" and "l = int (length xs)" and "b = WebRtcSpl_GetSizeInBits l"
  define t where "t = WebRtcSpl_NormW32 s"
  have sm: "0 \<le> scaling_max xs" "scaling_max xs < 32768" using scaling_max_abs [OF assms(1,3)] by auto
  have l: "0 < l" "l < 65536" using assms(2,3) by (simp_all add: l_def)
  have lb: "l < 2 ^ b" using size_in_bits(1) [of l] l by (simp add: b_def)
  show ?thesis
  proof (cases "scaling_max xs = 0")
    case False
    then have "0 < s" using sm by (simp add: s_def)
    have "s \<le> 32767 * 32767" unfolding s_def using sm by (intro mult_mono) simp_all
    then have st: "s * 2 ^ t < 2147483648" using norm_w32_pos(2) [of s] \<open>0 < s\<close> by (simp add: t_def)
    have sc: "WebRtcSpl_GetScalingSquare xs (int (length xs)) = (if t > b then 0 else b - t)"
      using False l by (simp add: WebRtcSpl_GetScalingSquare_def Let_def s_def t_def b_def l_def u32_id)
    show ?thesis
    proof (cases "t > b")
      case True
      have "l * s \<le> 2 ^ b * s" using lb \<open>0 < s\<close> by simp
      also have "\<dots> \<le> 2 ^ t * s" using True \<open>0 < s\<close> by simp
      finally show ?thesis using st True sc by (simp add: l_def s_def mult.commute)
    next
      case False
      define q where "q = s div 2 ^ (b - t)"
      have "q * 2 ^ (b - t) \<le> s" unfolding q_def by (smt (verit) mult.commute mult_div_mod_eq pos_mod_sign zero_less_power)
      then have "q * 2 ^ (b - t) * 2 ^ t \<le> s * 2 ^ t" by simp
      then have "q * 2 ^ b < 2147483648" using st False by (simp add: mult.assoc flip: power_add)
      moreover have "0 \<le> q" using \<open>0 < s\<close> by (simp add: q_def pos_imp_zdiv_nonneg_iff)
      then have "l * q \<le> 2 ^ b * q" using lb by (intro mult_right_mono) simp_all
      ultimately show ?thesis using sc False by (simp add: q_def s_def l_def mult.commute)
    qed
  qed (simp add: WebRtcSpl_GetScalingSquare_def)
qed

lemma energy_fits:
  assumes "\<forall>x \<in> set xs. -32768 < x \<and> x < 32768" "length xs < 65536"
  shows "\<exists>c. WebRtcSpl_Energy xs = ((\<Sum>x \<leftarrow> xs. x * x div 2 ^ c), c) \<and> c \<le> WebRtcSpl_GetSizeInBits (int (length xs))
      \<and> (\<Sum>x \<leftarrow> xs. x * x div 2 ^ c) < 2147483648"
proof -
  define c where "c = WebRtcSpl_GetScalingSquare xs (int (length xs))"
  define M where "M = scaling_max xs * scaling_max xs div 2 ^ c"
  have c: "c \<le> WebRtcSpl_GetSizeInBits (int (length xs))"
    using assms(2) by (simp add: c_def WebRtcSpl_GetScalingSquare_def Let_def u32_id)
  show "\<exists>c. WebRtcSpl_Energy xs = ((\<Sum>x \<leftarrow> xs. x * x div 2 ^ c), c) \<and> c \<le> WebRtcSpl_GetSizeInBits (int (length xs))
      \<and> (\<Sum>x \<leftarrow> xs. x * x div 2 ^ c) < 2147483648"
  proof (cases "xs = []")
    case True
    then show ?thesis by (simp add: WebRtcSpl_Energy_def Let_def) (use c True c_def in simp)
  next
    case False
    note m = scaling_max_abs [OF assms(1) False]
    have M: "shr (x * x) c \<le> M" if "x \<in> set xs" for x
    proof -
      have "x * x \<le> scaling_max xs * scaling_max xs" using m(1) [OF that] m(2) abs_mult_self_eq [of x]
        by (metis abs_ge_zero mult_mono)
      then show ?thesis by (simp add: M_def drop_bit_eq_div zdiv_mono1)
    qed
    have M0: "0 \<le> M" using m(2) by (simp add: M_def pos_imp_zdiv_nonneg_iff)
    have room: "0 + int (length xs) * M < 2147483648" using scaling_room [OF assms(1,2) False] by (simp add: M_def c_def)
    have e: "WebRtcSpl_Energy xs = ((\<Sum>x \<leftarrow> xs. x * x div 2 ^ c), c)"
      using energy_foldl [OF _ _ room M0] M by (simp add: WebRtcSpl_Energy_def Let_def drop_bit_eq_div flip: c_def)
    have "(\<Sum>x \<leftarrow> xs. x * x div 2 ^ c) \<le> (\<Sum>x \<leftarrow> xs. M)"
      using M by (intro sum_list_mono) (simp add: drop_bit_eq_div)
    then have "(\<Sum>x \<leftarrow> xs. x * x div 2 ^ c) < 2147483648" using room by (simp add: sum_list_triv)
    then show ?thesis using e c by blast
  qed
qed

lemma energy_lost:
  assumes "4 * n < 65536"
  shows "WebRtcSpl_Energy (replicate (4 * n) (-32768)) = (0, 0)"
proof -
  have s: "scaling_max (replicate k (-32768)) = -1" for k
    unfolding scaling_max_def by (induction k) (simp_all add: s16_def)
  have norm: "WebRtcSpl_NormW32 1 = 30" by code_simp
  have sq: "s32 1073741824 = 1073741824" "s32 2147483648 = -2147483648" "s32 (-1073741824) = -1073741824" "s32 0 = 0"
    by (simp_all add: s32_def)
  have f: "foldl (\<lambda>en x. s32 (en + shr (x * x) 0)) 0 (replicate (4 * k) (-32768)) = 0" for k
  proof (induction k)
    case (Suc k)
    have r: "replicate 4 x = [x, x, x, x]" for x :: int by (simp add: numeral_eq_Suc)
    have "4 * Suc k = 4 + 4 * k" by simp
    then show ?case using Suc.IH by (simp only: replicate_add r) (simp add: sq)
  qed simp
  have "WebRtcSpl_GetSizeInBits (u32 (int (4 * n))) < 30"
  proof (rule ccontr)
    assume big: "\<not> ?thesis"
    then have "(2 :: int) ^ 29 \<le> 2 ^ (WebRtcSpl_GetSizeInBits (u32 (int (4 * n))) - 1)" by (intro power_increasing) simp_all
    moreover have "u32 (int (4 * n)) = int (4 * n)" using assms by (intro u32_id) simp_all
    moreover have "WebRtcSpl_GetSizeInBits 0 = 0" by code_simp
    ultimately show False using size_in_bits(2) [of "int (4 * n)"] assms big by (cases "n = 0") simp_all
  qed
  then have "WebRtcSpl_GetScalingSquare (replicate (4 * n) (-32768)) (int (4 * n)) = 0"
    using norm by (simp add: WebRtcSpl_GetScalingSquare_def Let_def s)
  then show "WebRtcSpl_Energy (replicate (4 * n) (-32768)) = (0, 0)"
    using f [of n] by (simp add: WebRtcSpl_Energy_def Let_def)
qed

text \<open>
  The energy of a vector of at most 65535 samples, none of them -32768, is the sum of the squares, each
  scaled down by the same number of bits: the scaling is large enough that the 32-bit sum does not overflow, and
  no vector is scaled by more bits than its length has.  The absolute value of -32768 is lost in 16 bits, so
  a vector of such samples is not scaled at all, and the sum of every four of them vanishes.
\<close>

theorem energy_exact:
  assumes "\<forall>x \<in> set xs. -32768 < x \<and> x < 32768" "length xs < 65536" "4 * n < 65536"
  shows "(\<exists>c. WebRtcSpl_Energy xs = ((\<Sum>x \<leftarrow> xs. x * x div 2 ^ c), c) \<and> c \<le> WebRtcSpl_GetSizeInBits (int (length xs))
      \<and> (\<Sum>x \<leftarrow> xs. x * x div 2 ^ c) < 2147483648)
    \<and> WebRtcSpl_Energy (replicate (4 * n) (-32768)) = (0, 0)"
  using energy_fits [OF assms(1,2)] energy_lost [OF assms(3)] by blast

lemma energy_exact_witness:
  "(\<exists>c. WebRtcSpl_Energy [30000, -20000, 7] = ((\<Sum>x \<leftarrow> [30000, -20000, 7]. x * x div 2 ^ c), c)
      \<and> c \<le> WebRtcSpl_GetSizeInBits (int (length [30000, -20000, 7 :: int]))
      \<and> (\<Sum>x \<leftarrow> [30000, -20000, 7 :: int]. x * x div 2 ^ c) < 2147483648)
    \<and> WebRtcSpl_Energy (replicate (4 * 1) (-32768)) = (0, 0)"
  by (rule energy_exact) simp_all

end
