(* ===== verification/Spl_Resample.thy ===== *)
theory Spl_Resample
  imports Spl_Norm
begin

text \<open>
  The resamplers of \<open>common_audio/signal_processing\<close>: the chains of all-pass sections that change
  the rate by two (\<open>resample_by_2_internal.c\<close>, \<open>resample_by_2.c\<close>), the fractional filters
  (\<open>resample_fractional.c\<close>) and the converters made of both (\<open>resample_48khz.c\<close>, \<open>resample.c\<close>).

  A filter state of eight 32-bit words is a pair of all-pass chains, one of sixteen is four
  of them.  The by-two filters take the list of their input to that of their output; the scratch memory
  \<open>tmpmem\<close> of the converters, in which the fractional filters work in place, is a list of words, and an
  access outside of it is \<open>None\<close>.
\<close>

section \<open>All-pass chains\<close>

type_synonym allpass = "int \<times> int \<times> int \<times> int"

definition ap_zero :: allpass where "ap_zero = (0, 0, 0, 0)"

text \<open>\<open>kResampleAllpass\<close>, upper and lower.\<close>

definition ap_upper :: "int \<times> int \<times> int" where "ap_upper = (821, 6110, 12382)"
definition ap_lower :: "int \<times> int \<times> int" where "ap_lower = (3050, 9368, 15063)"

text \<open>\<open>diff >> 14\<close>, rounded towards zero.\<close>

definition ap_trunc :: "int \<Rightarrow> int" where
  "ap_trunc diff = (let diff = shr diff 14 in if diff < 0 then diff + 1 else diff)"

definition ap_step :: "int \<times> int \<times> int \<Rightarrow> allpass \<Rightarrow> int \<Rightarrow> allpass" where
  "ap_step c st tmp0 =
     (let (c0, c1, c2) = c; (s0, s1, s2, s3) = st;
          diff = shr (s32 (tmp0 - s1 + 8192)) 14;
          tmp1 = s32 (s0 + diff * c0);
          diff = ap_trunc (s32 (tmp1 - s2));
          tmp2 = s32 (s1 + diff * c1);
          diff = ap_trunc (s32 (tmp2 - s3))
      in (tmp0, tmp1, tmp2, s32 (s2 + diff * c2)))"

definition ap_out :: "allpass \<Rightarrow> int" where
  "ap_out st = (case st of (s0, s1, s2, s3) \<Rightarrow> s3)"

fun ap_run :: "int \<times> int \<times> int \<Rightarrow> allpass \<Rightarrow> int list \<Rightarrow> int list \<times> allpass" where
  "ap_run c st [] = ([], st)"
| "ap_run c st (x # xs) =
     (let st = ap_step c st x; (ys, st') = ap_run c st xs in (ap_out st # ys, st'))"

text \<open>The samples at even and at odd places of the pairs of a list, and the list with these samples.\<close>

fun evens :: "'a list \<Rightarrow> 'a list" where
  "evens (a # b # xs) = a # evens xs"
| "evens xs = []"

fun odds :: "'a list \<Rightarrow> 'a list" where
  "odds (a # b # xs) = b # odds xs"
| "odds xs = []"

fun interleave :: "'a list \<Rightarrow> 'a list \<Rightarrow> 'a list" where
  "interleave (a # xs) (b # ys) = a # b # interleave xs ys"
| "interleave xs ys = []"

definition short_in :: "int \<Rightarrow> int" where
  "short_in x = s32 (shl x 15 + 16384)"

definition sat16 :: "int \<Rightarrow> int" where
  "sat16 x = (let x = (if x > 32767 then 32767 else x) in if x < -32768 then -32768 else x)"

section \<open>Changes of the rate by two\<close>

text \<open>The state is the lower chain (words 0 to 3) and the upper one (words 4 to 7).\<close>

type_synonym ap2 = "allpass \<times> allpass"

text \<open>The outputs are combined two at a time: an odd number of them reads and writes past the end.\<close>

definition WebRtcSpl_DownBy2IntToShort :: "int list \<Rightarrow> ap2 \<Rightarrow> (int list \<times> ap2) option" where
  "WebRtcSpl_DownBy2IntToShort inp state =
     (let (lower, upper) = state;
          (a, lower) = ap_run ap_lower lower (evens inp);
          (b, upper) = ap_run ap_upper upper (odds inp)
      in if odd (length a) then None
         else Some (map2 (\<lambda>x y. sat16 (shr (s32 (shr x 1 + shr y 1)) 15)) a b, (lower, upper)))"

definition WebRtcSpl_DownBy2ShortToInt :: "int list \<Rightarrow> ap2 \<Rightarrow> int list \<times> ap2" where
  "WebRtcSpl_DownBy2ShortToInt inp state =
     (let (lower, upper) = state;
          (a, lower) = ap_run ap_lower lower (map short_in (evens inp));
          (b, upper) = ap_run ap_upper upper (map short_in (odds inp))
      in (map2 (\<lambda>x y. s32 (shr x 1 + shr y 1)) a b, (lower, upper)))"

definition WebRtcSpl_UpBy2ShortToInt :: "int list \<Rightarrow> ap2 \<Rightarrow> int list \<times> ap2" where
  "WebRtcSpl_UpBy2ShortToInt inp state =
     (let (lower, upper) = state;
          (a, upper) = ap_run ap_upper upper (map short_in inp);
          (b, lower) = ap_run ap_lower lower (map short_in inp)
      in (interleave (map (\<lambda>x. shr x 15) a) (map (\<lambda>x. shr x 15) b), (lower, upper)))"

definition WebRtcSpl_UpBy2IntToInt :: "int list \<Rightarrow> ap2 \<Rightarrow> int list \<times> ap2" where
  "WebRtcSpl_UpBy2IntToInt inp state =
     (let (lower, upper) = state;
          (a, upper) = ap_run ap_upper upper inp;
          (b, lower) = ap_run ap_lower lower inp
      in (interleave a b, (lower, upper)))"

definition WebRtcSpl_UpBy2IntToShort :: "int list \<Rightarrow> ap2 \<Rightarrow> int list \<times> ap2" where
  "WebRtcSpl_UpBy2IntToShort inp state =
     (let (lower, upper) = state;
          (a, upper) = ap_run ap_upper upper inp;
          (b, lower) = ap_run ap_lower lower inp
      in (interleave (map (\<lambda>x. sat16 (shr x 15)) a) (map (\<lambda>x. sat16 (shr x 15)) b), (lower, upper)))"

text \<open>
  The low-pass filters: four chains, of which the first is fed with the odd samples one sample late, the first
  of its inputs being the last odd sample before (word 12, the first of the fourth chain).
\<close>

type_synonym ap4 = "allpass \<times> allpass \<times> allpass \<times> allpass"

definition ap_late :: "allpass \<Rightarrow> int list \<Rightarrow> int list" where
  "ap_late st xs = take (length xs) ((case st of (s0, s1, s2, s3) \<Rightarrow> s0) # xs)"

definition WebRtcSpl_LPBy2IntToInt :: "int list \<Rightarrow> ap4 \<Rightarrow> int list \<times> ap4" where
  "WebRtcSpl_LPBy2IntToInt inp state =
     (let (p, q, r, s) = state;
          (a, p) = ap_run ap_lower p (ap_late s (odds inp));
          (b, q) = ap_run ap_upper q (evens inp);
          (c, r) = ap_run ap_lower r (evens inp);
          (d, s) = ap_run ap_upper s (odds inp);
          mean = (\<lambda>x y. shr (s32 (shr x 1 + shr y 1)) 15)
      in (interleave (map2 mean a b) (map2 mean c d), (p, q, r, s)))"

definition WebRtcSpl_LPBy2ShortToInt :: "int list \<Rightarrow> ap4 \<Rightarrow> int list \<times> ap4" where
  "WebRtcSpl_LPBy2ShortToInt inp state =
     (let (p, q, r, s) = state;
          (a, p) = ap_run ap_lower p (ap_late s (map short_in (odds inp)));
          (b, q) = ap_run ap_upper q (map short_in (evens inp));
          (c, r) = ap_run ap_lower r (map short_in (evens inp));
          (d, s) = ap_run ap_upper s (map short_in (odds inp));
          mean = (\<lambda>x y. shr (s32 (shr x 1 + shr y 1)) 15)
      in (interleave (map2 mean a b) (map2 mean c d), (p, q, r, s)))"

section \<open>Changes of the rate by two, with other coefficients\<close>

text \<open>\<open>WEBRTC_SPL_SCALEDIFF32\<close>\<close>

definition scalediff32 :: "int \<Rightarrow> int \<Rightarrow> int \<Rightarrow> int" where
  "scalediff32 a b c = s32 (c + shr b 16 * a + shr (u32 (u16 b * a)) 16)"

definition kResampleAllpass1 :: "int \<times> int \<times> int" where "kResampleAllpass1 = (3284, 24441, 49528)"
definition kResampleAllpass2 :: "int \<times> int \<times> int" where "kResampleAllpass2 = (12199, 37471, 60255)"

definition by2_step :: "int \<times> int \<times> int \<Rightarrow> allpass \<Rightarrow> int \<Rightarrow> allpass" where
  "by2_step c st in32 =
     (let (c0, c1, c2) = c; (s0, s1, s2, s3) = st;
          tmp1 = scalediff32 c0 (s32 (in32 - s1)) s0;
          tmp2 = scalediff32 c1 (s32 (tmp1 - s2)) s1
      in (in32, tmp1, tmp2, scalediff32 c2 (s32 (tmp2 - s3)) s2))"

fun WebRtcSpl_DownsampleBy2 :: "int list \<Rightarrow> ap2 \<Rightarrow> int list \<times> ap2" where
  "WebRtcSpl_DownsampleBy2 (x # y # inp) (lower, upper) =
     (let lower = by2_step kResampleAllpass2 lower (shl x 10);
          upper = by2_step kResampleAllpass1 upper (shl y 10);
          out32 = shr (s32 (ap_out lower + ap_out upper + 1024)) 11;
          (out, filtState) = WebRtcSpl_DownsampleBy2 inp (lower, upper)
      in (WebRtcSpl_SatW32ToW16 out32 # out, filtState))"
| "WebRtcSpl_DownsampleBy2 inp filtState = ([], filtState)"

fun WebRtcSpl_UpsampleBy2 :: "int list \<Rightarrow> ap2 \<Rightarrow> int list \<times> ap2" where
  "WebRtcSpl_UpsampleBy2 [] filtState = ([], filtState)"
| "WebRtcSpl_UpsampleBy2 (x # inp) (lower, upper) =
     (let lower = by2_step kResampleAllpass1 lower (shl x 10);
          upper = by2_step kResampleAllpass2 upper (shl x 10);
          (out, filtState) = WebRtcSpl_UpsampleBy2 inp (lower, upper)
      in (WebRtcSpl_SatW32ToW16 (shr (s32 (ap_out lower + 512)) 10)
          # WebRtcSpl_SatW32ToW16 (shr (s32 (ap_out upper + 512)) 10) # out, filtState))"

section \<open>Fractional filters, in the scratch memory\<close>

definition rd :: "int list \<Rightarrow> nat \<Rightarrow> nat \<Rightarrow> int list option" where
  "rd mem i n = (if i + n \<le> length mem then Some (slice i n mem) else None)"

definition wr :: "int list \<Rightarrow> nat \<Rightarrow> int list \<Rightarrow> int list option" where
  "wr mem i xs = (if i + length xs \<le> length mem then Some (blit i xs mem) else None)"

definition kCoefficients48To32 :: "int list list" where
  "kCoefficients48To32 = [
     [778, -2050, 1087, 23285, 12903, -3783, 441, 222],
     [222, 441, -3783, 12903, 23285, 1087, -2050, 778]]"

definition kCoefficients32To24 :: "int list list" where
  "kCoefficients32To24 = [
     [767, -2362, 2434, 24406, 10620, -3838, 721, 90],
     [386, -381, -2646, 19062, 19062, -2646, -381, 386],
     [90, 721, -3838, 10620, 24406, 2434, -2362, 767]]"

definition kCoefficients44To32 :: "int list list" where
  "kCoefficients44To32 = [
     [117, -669, 2245, -6183, 26267, 13529, -3245, 845, -138],
     [-101, 612, -2283, 8532, 29790, -5138, 1789, -524, 91],
     [50, -292, 1016, -3064, 32010, 3933, -1147, 315, -53],
     [-156, 974, -3863, 18603, 21691, -6246, 2353, -712, 126]]"

definition kCoefficients32To22 :: "int list list" where
  "kCoefficients32To22 = [
     [127, -712, 2359, -6333, 23456, 16775, -3695, 945, -154],
     [-39, 230, -830, 2785, 32366, -2324, 760, -218, 38],
     [117, -663, 2222, -6133, 26634, 13070, -3174, 831, -137],
     [-77, 457, -1677, 5958, 31175, -4136, 1405, -408, 71],
     [98, -560, 1900, -5406, 29240, 9423, -2480, 663, -110]]"

text \<open>\<open>tmp = 1 << 14\<close>, and the products added to it.\<close>

definition dot_prod :: "int list \<Rightarrow> int list \<Rightarrow> int" where
  "dot_prod coefs xs = s32 (16384 + sum_list (map2 (*) coefs xs))"

text \<open>One output sample from the input samples at \<open>i\<close>.\<close>

definition frac_one :: "int list \<Rightarrow> nat \<Rightarrow> nat \<Rightarrow> int list \<Rightarrow> int list option" where
  "frac_one coefs i out mem = do { xs \<leftarrow> rd mem i (length coefs); wr mem out [dot_prod coefs xs] }"

text \<open>
  Two output samples, from the samples at \<open>in1\<close> upwards and at \<open>in2\<close> downwards; the last sample of the
  second is read after the first is written.
\<close>

definition WebRtcSpl_ResampDotProduct :: "nat \<Rightarrow> nat \<Rightarrow> int list \<Rightarrow> nat \<Rightarrow> nat \<Rightarrow> int list \<Rightarrow> int list option" where
  "WebRtcSpl_ResampDotProduct in1 in2 coefs out1 out2 mem = do {
     xs \<leftarrow> rd mem in1 9;
     ys \<leftarrow> rd mem (in2 - 7) 8;
     mem \<leftarrow> wr mem out1 [dot_prod coefs xs];
     y \<leftarrow> rd mem (in2 - 8) 1;
     wr mem out2 [dot_prod coefs (rev (y @ ys))] }"

definition WebRtcSpl_DotProdIntToInt :: "nat \<Rightarrow> nat \<Rightarrow> int list \<Rightarrow> nat \<Rightarrow> nat \<Rightarrow> int list \<Rightarrow> int list option" where
  "WebRtcSpl_DotProdIntToInt in1 in2 coefs out1 out2 mem = do {
     xs \<leftarrow> rd mem in1 9;
     ys \<leftarrow> rd mem (in2 - 7) 8;
     mem \<leftarrow> wr mem out1 [dot_prod coefs xs];
     y \<leftarrow> rd mem (in2 - 8) 1;
     wr mem out2 [dot_prod coefs (rev (y @ ys))] }"

text \<open>The two samples of \<open>WebRtcSpl_DotProdIntToShort\<close>, which go to another array.\<close>

definition WebRtcSpl_DotProdIntToShort :: "nat \<Rightarrow> nat \<Rightarrow> int list \<Rightarrow> int list \<Rightarrow> (int \<times> int) option" where
  "WebRtcSpl_DotProdIntToShort in1 in2 coefs mem = do {
     xs \<leftarrow> rd mem in1 9;
     ys \<leftarrow> rd mem (in2 - 8) 9;
     Some (sat16 (shr (dot_prod coefs xs) 15), sat16 (shr (dot_prod coefs (rev ys)) 15)) }"

text \<open>A block of the filters, which reads from \<open>i\<close> on and writes from \<open>out\<close> on.\<close>

definition block_48_32 :: "nat \<Rightarrow> nat \<Rightarrow> int list \<Rightarrow> int list option" where
  "block_48_32 i out mem = do {
     mem \<leftarrow> frac_one (kCoefficients48To32 ! 0) i out mem;
     frac_one (kCoefficients48To32 ! 1) (i + 1) (out + 1) mem }"

definition block_32_24 :: "nat \<Rightarrow> nat \<Rightarrow> int list \<Rightarrow> int list option" where
  "block_32_24 i out mem = do {
     mem \<leftarrow> frac_one (kCoefficients32To24 ! 0) i out mem;
     mem \<leftarrow> frac_one (kCoefficients32To24 ! 1) (i + 1) (out + 1) mem;
     frac_one (kCoefficients32To24 ! 2) (i + 2) (out + 2) mem }"

definition block_44_32 :: "nat \<Rightarrow> nat \<Rightarrow> int list \<Rightarrow> int list option" where
  "block_44_32 i out mem = do {
     xs \<leftarrow> rd mem (i + 3) 1;
     mem \<leftarrow> wr mem out [s32 (shl (hd xs) 15 + 16384)];
     mem \<leftarrow> frac_one (kCoefficients44To32 ! 3) (i + 5) (out + 4) mem;
     mem \<leftarrow> WebRtcSpl_ResampDotProduct i (i + 17) (kCoefficients44To32 ! 0) (out + 1) (out + 7) mem;
     mem \<leftarrow> WebRtcSpl_ResampDotProduct (i + 2) (i + 15) (kCoefficients44To32 ! 1) (out + 2) (out + 6) mem;
     WebRtcSpl_ResampDotProduct (i + 3) (i + 14) (kCoefficients44To32 ! 2) (out + 3) (out + 5) mem }"

definition block_32_22 :: "nat \<Rightarrow> nat \<Rightarrow> int list \<Rightarrow> int list option" where
  "block_32_22 i out mem = do {
     xs \<leftarrow> rd mem (i + 3) 1;
     mem \<leftarrow> wr mem out [s32 (shl (hd xs) 15 + 16384)];
     mem \<leftarrow> WebRtcSpl_DotProdIntToInt i (i + 22) (kCoefficients32To22 ! 0) (out + 1) (out + 10) mem;
     mem \<leftarrow> WebRtcSpl_DotProdIntToInt (i + 2) (i + 20) (kCoefficients32To22 ! 1) (out + 2) (out + 9) mem;
     mem \<leftarrow> WebRtcSpl_DotProdIntToInt (i + 3) (i + 19) (kCoefficients32To22 ! 2) (out + 3) (out + 8) mem;
     mem \<leftarrow> WebRtcSpl_DotProdIntToInt (i + 5) (i + 17) (kCoefficients32To22 ! 3) (out + 4) (out + 7) mem;
     WebRtcSpl_DotProdIntToInt (i + 6) (i + 16) (kCoefficients32To22 ! 4) (out + 5) (out + 6) mem }"

text \<open>\<open>K\<close> blocks, from each of which the pointers move on by \<open>p\<close> input and \<open>q\<close> output samples.\<close>

fun frac_loop :: "(nat \<Rightarrow> nat \<Rightarrow> int list \<Rightarrow> int list option) \<Rightarrow> nat \<Rightarrow> nat \<Rightarrow> nat \<Rightarrow> nat \<Rightarrow> nat \<Rightarrow> int list \<Rightarrow> int list option"
where
  "frac_loop block p q 0 i out mem = Some mem"
| "frac_loop block p q (Suc K) i out mem = do {
     mem \<leftarrow> block i out mem; frac_loop block p q K (i + p) (out + q) mem }"

definition WebRtcSpl_Resample48khzTo32khz :: "nat \<Rightarrow> nat \<Rightarrow> nat \<Rightarrow> int list \<Rightarrow> int list option" where
  "WebRtcSpl_Resample48khzTo32khz i out K mem = frac_loop block_48_32 3 2 K i out mem"

definition WebRtcSpl_Resample32khzTo24khz :: "nat \<Rightarrow> nat \<Rightarrow> nat \<Rightarrow> int list \<Rightarrow> int list option" where
  "WebRtcSpl_Resample32khzTo24khz i out K mem = frac_loop block_32_24 4 3 K i out mem"

definition WebRtcSpl_Resample44khzTo32khz :: "nat \<Rightarrow> nat \<Rightarrow> nat \<Rightarrow> int list \<Rightarrow> int list option" where
  "WebRtcSpl_Resample44khzTo32khz i out K mem = frac_loop block_44_32 11 8 K i out mem"

definition WebRtcSpl_32khzTo22khzIntToInt :: "nat \<Rightarrow> nat \<Rightarrow> nat \<Rightarrow> int list \<Rightarrow> int list option" where
  "WebRtcSpl_32khzTo22khzIntToInt i out K mem = frac_loop block_32_22 16 11 K i out mem"

definition short_block_32_22 :: "nat \<Rightarrow> int list \<Rightarrow> int list option" where
  "short_block_32_22 i mem = do {
     xs \<leftarrow> rd mem (i + 3) 1;
     (o1, o10) \<leftarrow> WebRtcSpl_DotProdIntToShort i (i + 22) (kCoefficients32To22 ! 0) mem;
     (o2, o9) \<leftarrow> WebRtcSpl_DotProdIntToShort (i + 2) (i + 20) (kCoefficients32To22 ! 1) mem;
     (o3, o8) \<leftarrow> WebRtcSpl_DotProdIntToShort (i + 3) (i + 19) (kCoefficients32To22 ! 2) mem;
     (o4, o7) \<leftarrow> WebRtcSpl_DotProdIntToShort (i + 5) (i + 17) (kCoefficients32To22 ! 3) mem;
     (o5, o6) \<leftarrow> WebRtcSpl_DotProdIntToShort (i + 6) (i + 16) (kCoefficients32To22 ! 4) mem;
     Some [sat16 (hd xs), o1, o2, o3, o4, o5, o6, o7, o8, o9, o10] }"

fun WebRtcSpl_32khzTo22khzIntToShort :: "nat \<Rightarrow> nat \<Rightarrow> int list \<Rightarrow> int list option" where
  "WebRtcSpl_32khzTo22khzIntToShort i 0 mem = Some []"
| "WebRtcSpl_32khzTo22khzIntToShort i (Suc K) mem = do {
     ys \<leftarrow> short_block_32_22 i mem; zs \<leftarrow> WebRtcSpl_32khzTo22khzIntToShort (i + 16) K mem; Some (ys @ zs) }"

section \<open>Converters between 48 kHz and 8 or 16 kHz\<close>

definition zero8 :: "int list" where "zero8 = replicate 8 0"
definition ap2_zero :: ap2 where "ap2_zero = (ap_zero, ap_zero)"
definition ap4_zero :: ap4 where "ap4_zero = (ap_zero, ap_zero, ap_zero, ap_zero)"

record State48khzTo16khz =
  S_48_48 :: ap4
  S_48_32 :: "int list"
  S_32_16 :: ap2

record State16khzTo48khz =
  S_16_32 :: ap2
  S_32_24 :: "int list"
  S_24_48 :: ap2

record State48khzTo8khz =
  S_48_24 :: ap2
  S_24_24 :: ap4
  S_24_16 :: "int list"
  S_16_8 :: ap2

record State8khzTo48khz =
  S_8_16 :: ap2
  S_16_12 :: "int list"
  S_12_24 :: ap2
  S8_24_48 :: ap2

definition WebRtcSpl_Resample48khzTo16khz ::
    "int list \<Rightarrow> State48khzTo16khz \<Rightarrow> int list \<Rightarrow> (int list \<times> State48khzTo16khz) option" where
  "WebRtcSpl_Resample48khzTo16khz inp state tmpmem = do {
     inp \<leftarrow> rd inp 0 480;
     let (ys, s1) = WebRtcSpl_LPBy2ShortToInt inp (S_48_48 state) in do {
     tmpmem \<leftarrow> wr tmpmem 16 ys;
     tmpmem \<leftarrow> wr tmpmem 8 (S_48_32 state);
     s2 \<leftarrow> rd tmpmem 488 8;
     tmpmem \<leftarrow> WebRtcSpl_Resample48khzTo32khz 8 0 160 tmpmem;
     xs \<leftarrow> rd tmpmem 0 320;
     (out, s3) \<leftarrow> WebRtcSpl_DownBy2IntToShort xs (S_32_16 state);
     Some (out, \<lparr>S_48_48 = s1, S_48_32 = s2, S_32_16 = s3\<rparr>) } }"

definition WebRtcSpl_Resample16khzTo48khz ::
    "int list \<Rightarrow> State16khzTo48khz \<Rightarrow> int list \<Rightarrow> (int list \<times> State16khzTo48khz) option" where
  "WebRtcSpl_Resample16khzTo48khz inp state tmpmem = do {
     inp \<leftarrow> rd inp 0 160;
     let (ys, s1) = WebRtcSpl_UpBy2ShortToInt inp (S_16_32 state) in do {
     tmpmem \<leftarrow> wr tmpmem 16 ys;
     tmpmem \<leftarrow> wr tmpmem 8 (S_32_24 state);
     s2 \<leftarrow> rd tmpmem 328 8;
     tmpmem \<leftarrow> WebRtcSpl_Resample32khzTo24khz 8 0 80 tmpmem;
     xs \<leftarrow> rd tmpmem 0 240;
     let (out, s3) = WebRtcSpl_UpBy2IntToShort xs (S_24_48 state)
     in Some (out, \<lparr>S_16_32 = s1, S_32_24 = s2, S_24_48 = s3\<rparr>) } }"

definition WebRtcSpl_Resample48khzTo8khz ::
    "int list \<Rightarrow> State48khzTo8khz \<Rightarrow> int list \<Rightarrow> (int list \<times> State48khzTo8khz) option" where
  "WebRtcSpl_Resample48khzTo8khz inp state tmpmem = do {
     inp \<leftarrow> rd inp 0 480;
     let (ys, s1) = WebRtcSpl_DownBy2ShortToInt inp (S_48_24 state) in do {
     tmpmem \<leftarrow> wr tmpmem 256 ys;
     xs \<leftarrow> rd tmpmem 256 240;
     let (ys, s2) = WebRtcSpl_LPBy2IntToInt xs (S_24_24 state) in do {
     tmpmem \<leftarrow> wr tmpmem 16 ys;
     tmpmem \<leftarrow> wr tmpmem 8 (S_24_16 state);
     s3 \<leftarrow> rd tmpmem 248 8;
     tmpmem \<leftarrow> WebRtcSpl_Resample48khzTo32khz 8 0 80 tmpmem;
     xs \<leftarrow> rd tmpmem 0 160;
     (out, s4) \<leftarrow> WebRtcSpl_DownBy2IntToShort xs (S_16_8 state);
     Some (out, \<lparr>S_48_24 = s1, S_24_24 = s2, S_24_16 = s3, S_16_8 = s4\<rparr>) } } }"

definition WebRtcSpl_Resample8khzTo48khz ::
    "int list \<Rightarrow> State8khzTo48khz \<Rightarrow> int list \<Rightarrow> (int list \<times> State8khzTo48khz) option" where
  "WebRtcSpl_Resample8khzTo48khz inp state tmpmem = do {
     inp \<leftarrow> rd inp 0 80;
     let (ys, s1) = WebRtcSpl_UpBy2ShortToInt inp (S_8_16 state) in do {
     tmpmem \<leftarrow> wr tmpmem 264 ys;
     tmpmem \<leftarrow> wr tmpmem 256 (S_16_12 state);
     s2 \<leftarrow> rd tmpmem 416 8;
     tmpmem \<leftarrow> WebRtcSpl_Resample32khzTo24khz 256 240 40 tmpmem;
     xs \<leftarrow> rd tmpmem 240 120;
     let (ys, s3) = WebRtcSpl_UpBy2IntToInt xs (S_12_24 state) in do {
     tmpmem \<leftarrow> wr tmpmem 0 ys;
     xs \<leftarrow> rd tmpmem 0 240;
     let (out, s4) = WebRtcSpl_UpBy2IntToShort xs (S8_24_48 state)
     in Some (out, \<lparr>S_8_16 = s1, S_16_12 = s2, S_12_24 = s3, S8_24_48 = s4\<rparr>) } } }"

definition WebRtcSpl_ResetResample48khzTo16khz :: State48khzTo16khz where
  "WebRtcSpl_ResetResample48khzTo16khz = \<lparr>S_48_48 = ap4_zero, S_48_32 = zero8, S_32_16 = ap2_zero\<rparr>"

definition WebRtcSpl_ResetResample16khzTo48khz :: State16khzTo48khz where
  "WebRtcSpl_ResetResample16khzTo48khz = \<lparr>S_16_32 = ap2_zero, S_32_24 = zero8, S_24_48 = ap2_zero\<rparr>"

definition WebRtcSpl_ResetResample48khzTo8khz :: State48khzTo8khz where
  "WebRtcSpl_ResetResample48khzTo8khz = \<lparr>S_48_24 = ap2_zero, S_24_24 = ap4_zero, S_24_16 = zero8, S_16_8 = ap2_zero\<rparr>"

definition WebRtcSpl_ResetResample8khzTo48khz :: State8khzTo48khz where
  "WebRtcSpl_ResetResample8khzTo48khz = \<lparr>S_8_16 = ap2_zero, S_16_12 = zero8, S_12_24 = ap2_zero, S8_24_48 = ap2_zero\<rparr>"

section \<open>The fractional filters work in place\<close>

lemma wr_one: "wr mem i [x] = (if i < length mem then Some (mem[i := x]) else None)"
  by (simp add: wr_def blit_def upd_conv_take_nth_drop Suc_le_eq)

lemma rd_update [simp]: "j < i \<or> i + n \<le> j \<Longrightarrow> rd (mem[j := x]) i n = rd mem i n"
  by (auto simp: rd_def slice_def drop_update_swap)

lemma slice_update [simp]: "j < i \<or> i + n \<le> j \<Longrightarrow> slice i n (mem[j := x]) = slice i n mem"
  by (auto simp: slice_def drop_update_swap)

lemma rd_Some: "i + n \<le> length mem \<Longrightarrow> rd mem i n = Some (slice i n mem)"
  by (simp add: rd_def)

lemma blit_Cons: "out + length (x # xs) \<le> length mem \<Longrightarrow> blit out (x # xs) mem = (blit (out + 1) xs mem)[out := x]"
  by (simp add: blit_def list_update_append upd_conv_take_nth_drop take_Suc_conv_app_nth)

lemma blit_Nil: "blit out [] mem = mem"
  by (simp add: blit_def)

text \<open>What a block computes from the window of its input.\<close>

definition win_48_32 :: "int list \<Rightarrow> int list" where
  "win_48_32 xs = [dot_prod (kCoefficients48To32 ! 0) (slice 0 8 xs), dot_prod (kCoefficients48To32 ! 1) (slice 1 8 xs)]"

definition win_32_24 :: "int list \<Rightarrow> int list" where
  "win_32_24 xs = [dot_prod (kCoefficients32To24 ! 0) (slice 0 8 xs), dot_prod (kCoefficients32To24 ! 1) (slice 1 8 xs),
     dot_prod (kCoefficients32To24 ! 2) (slice 2 8 xs)]"

definition up_dot :: "int list \<Rightarrow> nat \<Rightarrow> int list \<Rightarrow> int" where
  "up_dot coefs i xs = dot_prod coefs (slice i 9 xs)"

definition down_dot :: "int list \<Rightarrow> nat \<Rightarrow> int list \<Rightarrow> int" where
  "down_dot coefs i xs = dot_prod coefs (rev (slice (i - 8) 9 xs))"

definition win_44_32 :: "int list \<Rightarrow> int list" where
  "win_44_32 xs = (let c = kCoefficients44To32 in
     [s32 (shl (xs ! 3) 15 + 16384), up_dot (c ! 0) 0 xs, up_dot (c ! 1) 2 xs, up_dot (c ! 2) 3 xs, up_dot (c ! 3) 5 xs,
      down_dot (c ! 2) 14 xs, down_dot (c ! 1) 15 xs, down_dot (c ! 0) 17 xs])"

definition win_32_22 :: "int list \<Rightarrow> int list" where
  "win_32_22 xs = (let c = kCoefficients32To22 in
     [s32 (shl (xs ! 3) 15 + 16384), up_dot (c ! 0) 0 xs, up_dot (c ! 1) 2 xs, up_dot (c ! 2) 3 xs, up_dot (c ! 3) 5 xs,
      up_dot (c ! 4) 6 xs, down_dot (c ! 4) 16 xs, down_dot (c ! 3) 17 xs, down_dot (c ! 2) 19 xs, down_dot (c ! 1) 20 xs,
      down_dot (c ! 0) 22 xs])"

text \<open>
  A block reads a window of \<open>w\<close> samples and writes \<open>q\<close>; it may overwrite the first
  sample of its window, which is no longer needed when its last output is written.
\<close>

definition block_ok :: "(nat \<Rightarrow> nat \<Rightarrow> int list \<Rightarrow> int list option) \<Rightarrow> nat \<Rightarrow> nat \<Rightarrow> (int list \<Rightarrow> int list) \<Rightarrow> bool" where
  "block_ok block w q win \<longleftrightarrow> (\<forall>xs. length (win xs) = q) \<and> (\<forall>i out mem. i + w \<le> length mem \<longrightarrow> out + q \<le> i + 1 \<longrightarrow>
     block i out mem = Some (blit out (win (slice i w mem)) mem))"

lemma slice_slice: "i + n \<le> w \<Longrightarrow> slice i n (slice j w xs) = slice (j + i) n xs"
  by (simp add: slice_def drop_take min_def add.commute)

lemma coefs_length [simp]:
  "j < 2 \<Longrightarrow> length (kCoefficients48To32 ! j) = 8" "j < 3 \<Longrightarrow> length (kCoefficients32To24 ! j) = 8"
  "j < 4 \<Longrightarrow> length (kCoefficients44To32 ! j) = 9" "j < 5 \<Longrightarrow> length (kCoefficients32To22 ! j) = 9"
  by (auto simp: kCoefficients48To32_def kCoefficients32To24_def kCoefficients44To32_def kCoefficients32To22_def
      nth_Cons' numeral_eq_Suc)

lemmas block_simps = frac_one_def rd_Some wr_one blit_Cons blit_Nil slice_slice list_update_swap

lemma block_48_32_ok: "block_ok block_48_32 9 2 win_48_32"
  unfolding block_ok_def win_48_32_def by (auto simp: block_48_32_def block_simps)

lemma block_32_24_ok: "block_ok block_32_24 10 3 win_32_24"
  unfolding block_ok_def win_32_24_def by (auto simp: block_32_24_def block_simps)

text \<open>A pair of samples, of which the first may be written over the first sample of the block.\<close>

lemma dot_pair:
  assumes "in1 + 9 \<le> length mem" "8 \<le> in2" "in2 < length mem" "out1 < in2 - 8" "out2 < length mem" 
  shows "WebRtcSpl_ResampDotProduct in1 in2 coefs out1 out2 mem
      = Some (mem[out1 := dot_prod coefs (slice in1 9 mem), out2 := dot_prod coefs (rev (slice (in2 - 8) 9 mem))])"
    "WebRtcSpl_DotProdIntToInt in1 in2 coefs out1 out2 mem
      = Some (mem[out1 := dot_prod coefs (slice in1 9 mem), out2 := dot_prod coefs (rev (slice (in2 - 8) 9 mem))])"
proof -
  have "in2 - 8 + 1 = in2 - 7" using assms(2) by simp
  then have "slice (in2 - 8) 9 mem = slice (in2 - 8) 1 mem @ slice (in2 - 7) 8 mem"
    using slice_add [of "in2 - 8" 1 8 mem] by (simp only: one_plus_numeral) simp
  then show "WebRtcSpl_ResampDotProduct in1 in2 coefs out1 out2 mem
      = Some (mem[out1 := dot_prod coefs (slice in1 9 mem), out2 := dot_prod coefs (rev (slice (in2 - 8) 9 mem))])"
    "WebRtcSpl_DotProdIntToInt in1 in2 coefs out1 out2 mem
      = Some (mem[out1 := dot_prod coefs (slice in1 9 mem), out2 := dot_prod coefs (rev (slice (in2 - 8) 9 mem))])"
    using assms by (auto simp: WebRtcSpl_ResampDotProduct_def WebRtcSpl_DotProdIntToInt_def rd_Some wr_one)
qed

lemma hd_slice: "j + 1 \<le> length xs \<Longrightarrow> hd (slice j 1 xs) = xs ! j"
  by (simp add: slice_def hd_drop_conv_nth)

lemma nth_slice_win: "j < n \<Longrightarrow> i + n \<le> length xs \<Longrightarrow> slice i n xs ! j = xs ! (i + j)"
  by (simp add: slice_def)

lemma blit_8:
  "out + 8 \<le> length mem \<Longrightarrow> blit out [a0, a1, a2, a3, a4, a5, a6, a7] mem
    = mem[out := a0, out + 1 := a1, out + 2 := a2, out + 3 := a3, out + 4 := a4, out + 5 := a5, out + 6 := a6, out + 7 := a7]"
  by (simp add: blit_Cons blit_Nil numeral_eq_Suc list_update_swap)

lemma blit_11:
  "out + 11 \<le> length mem \<Longrightarrow> blit out [a0, a1, a2, a3, a4, a5, a6, a7, a8, a9, a10] mem
    = mem[out := a0, out + 1 := a1, out + 2 := a2, out + 3 := a3, out + 4 := a4, out + 5 := a5, out + 6 := a6, out + 7 := a7,
        out + 8 := a8, out + 9 := a9, out + 10 := a10]"
  by (simp add: blit_Cons blit_Nil numeral_eq_Suc list_update_swap)

lemma block_44_32_ok: "block_ok block_44_32 18 8 win_44_32"
proof -
  have "block_44_32 i out mem = Some (blit out (win_44_32 (slice i 18 mem)) mem)"
    if "i + 18 \<le> length mem" "out + 8 \<le> i + 1" for i out mem
    using that by (simp add: block_44_32_def win_44_32_def frac_one_def rd_Some wr_one dot_pair blit_8 hd_slice [simplified]
        up_dot_def down_dot_def Let_def nth_slice_win slice_slice list_update_swap add.commute)
  then show ?thesis by (simp add: block_ok_def win_44_32_def Let_def)
qed

lemma block_32_22_ok: "block_ok block_32_22 23 11 win_32_22"
proof -
  have "block_32_22 i out mem = Some (blit out (win_32_22 (slice i 23 mem)) mem)"
    if "i + 23 \<le> length mem" "out + 11 \<le> i + 1" for i out mem
    using that by (simp add: block_32_22_def win_32_22_def frac_one_def rd_Some wr_one dot_pair blit_11 hd_slice [simplified]
        up_dot_def down_dot_def Let_def nth_slice_win slice_slice list_update_swap add.commute)
  then show ?thesis by (simp add: block_ok_def win_32_22_def Let_def)
qed

text \<open>The blocks one after the other, on a list of its own.\<close>

fun frac_pure :: "(int list \<Rightarrow> int list) \<Rightarrow> nat \<Rightarrow> nat \<Rightarrow> nat \<Rightarrow> int list \<Rightarrow> int list" where
  "frac_pure win w p 0 xs = []"
| "frac_pure win w p (Suc K) xs = win (take w xs) @ frac_pure win w p K (drop p xs)"

lemma length_frac_pure: "(\<And>xs. length (win xs) = q) \<Longrightarrow> length (frac_pure win w p K xs) = q * K"
  by (induction K arbitrary: xs) simp_all

lemma blit_append:
  "out + length xs + length ys \<le> length mem \<Longrightarrow>
   blit (out + length xs) ys (blit out xs mem) = blit out (xs @ ys) mem"
  by (simp add: blit_def add.commute add.left_commute)

lemma slice_blit_after: "out + length ys \<le> i \<Longrightarrow> i \<le> length mem \<Longrightarrow> drop i (blit out ys mem) = drop i mem"
  by (simp add: blit_def)

text \<open>
  The loop leaves the blocks computed from the original samples: no sample is overwritten before it was last
  read, as long as the output starts so far before the input that its first block does.
\<close>

lemma frac_loop_pure:
  assumes "block_ok block w q win" "q < p" "p * (K - 1) + w + i \<le> length mem" "out + q \<le> i + 1" "0 < w"
  shows "frac_loop block p q K i out mem = Some (blit out (frac_pure win w p K (drop i mem)) mem)"
  using assms(3,4)
proof (induction K arbitrary: i out mem)
  case 0
  then show ?case by (simp add: blit_def)
next
  case (Suc K)
  have len: "length (win xs) = q" for xs using assms(1) by (simp add: block_ok_def)
  have "i + w \<le> length mem" using Suc.prems by (simp add: add.commute)
  then have b: "block i out mem = Some (blit out (win (slice i w mem)) mem)"
    using assms(1) Suc.prems(2) by (simp add: block_ok_def)
  define mem' where "mem' = blit out (win (slice i w mem)) mem"
  have "q * K \<le> p * K" using assms(2) by (intro mult_right_mono) simp_all
  moreover have "p * K + w + i \<le> length mem" using Suc.prems(1) by simp
  ultimately have all: "out + q + q * K \<le> length mem" using Suc.prems(2) assms(5) by linarith
  then have fit: "out + q \<le> length mem" by simp
  then have l': "length mem' = length mem" by (simp add: mem'_def len)
  show ?case
  proof (cases K)
    case 0
    then show ?thesis using b by (simp add: slice_def)
  next
    case (Suc k)
    have "p * K + w + i \<le> length mem" using Suc.prems(1) by simp
    then have p1: "p * (K - 1) + w + (i + p) \<le> length mem'" using Suc l' by (simp add: algebra_simps)
    have p2: "out + q + q \<le> i + p + 1" using Suc.prems(2) assms(2) by simp
    have "frac_loop block p q (Suc K) i out mem = frac_loop block p q K (i + p) (out + q) mem'"
      using b by (simp add: mem'_def)
    also have "\<dots> = Some (blit (out + q) (frac_pure win w p K (drop (i + p) mem')) mem')"
      by (rule Suc.IH [OF p1 p2])
    also have "drop (i + p) mem' = drop p (drop i mem)"
      unfolding mem'_def using Suc.prems(2) assms(2) p1 l'
      by (subst slice_blit_after) (simp_all add: len add.commute)
    also have "blit (out + q) (frac_pure win w p K (drop p (drop i mem))) mem'
        = blit out (frac_pure win w p (Suc K) (drop i mem)) mem"
      using blit_append [of out "win (slice i w mem)" "frac_pure win w p K (drop p (drop i mem))" mem] all
      by (simp add: mem'_def len length_frac_pure slice_def)
    finally show ?thesis .
  qed
qed

lemma frac_pure_take: "p * (K - 1) + w \<le> n \<Longrightarrow> frac_pure win w p K (take n xs) = frac_pure win w p K xs"
proof (induction K arbitrary: n xs)
  case (Suc K)
  show ?case
  proof (cases "K = 0")
    case False
    then have "p * (K - 1) + p = p * K" by (cases K) simp_all
    then have "p * (K - 1) + w \<le> n - p" using Suc.prems by simp
    then have "frac_pure win w p K (take (n - p) (drop p xs)) = frac_pure win w p K (drop p xs)" by (rule Suc.IH)
    then show ?thesis using Suc.prems by (simp add: min_def drop_take)
  qed (use Suc.prems in \<open>simp add: min_def\<close>)
qed simp

lemma frac_pure_append: "frac_pure win w p (K + L) xs = frac_pure win w p K xs @ frac_pure win w p L (drop (p * K) xs)"
  by (induction K arbitrary: xs) (simp_all add: add.commute)

text \<open>
  The part all converters have in common: the samples go behind the eight kept from before, the last eight are
  kept, and the filter runs over them in place.
\<close>

lemma frac_stage:
  assumes "block_ok block w q win" "q < p" "0 < w" "p * (K - 1) + w \<le> n + 8" "out + q \<le> i + 1"
    "length keep = 8" "length ys = n" "i + 8 + n \<le> length mem" "j = i + 8" "k = i + n" "m = q * K"
  shows "\<exists>mem1 mem2. length mem2 = length mem \<and> wr mem j ys = Some mem1 \<and>
    (\<exists>mem3. wr mem1 i keep = Some mem3 \<and> rd mem3 k 8 = Some (drop n (keep @ ys)) \<and>
      frac_loop block p q K i out mem3 = Some mem2 \<and> rd mem2 out m = Some (frac_pure win w p K (keep @ ys)))"
proof -
  define mem1 mem3 where "mem1 = blit (i + 8) ys mem" and "mem3 = blit i keep mem1"
  have l: "length mem1 = length mem" "length mem3 = length mem" using assms(6-8) by (simp_all add: mem1_def mem3_def)
  have w1: "wr mem j ys = Some mem1" "wr mem1 i keep = Some mem3"
    using assms(6-9) l by (simp_all add: wr_def mem1_def mem3_def)
  have d3: "drop i mem3 = keep @ ys @ drop (i + 8 + n) mem"
    using assms(6-8) by (simp add: mem3_def mem1_def blit_def add.commute add.left_commute)
  have "rd mem3 k 8 = Some (slice (i + n) 8 mem3)" using assms(8,10) l by (simp add: rd_def)
  also have "slice (i + n) 8 mem3 = take 8 (drop n (drop i mem3))" by (simp add: slice_def add.commute)
  also have "\<dots> = drop n (keep @ ys)" unfolding d3 using assms(6,7) by simp
  finally have r: "rd mem3 k 8 = Some (drop n (keep @ ys))" .
  let ?P = "frac_pure win w p K (drop i mem3)"
  have len: "length ?P = q * K" using assms(1) by (intro length_frac_pure) (simp add: block_ok_def)
  have fit: "p * (K - 1) + w + i \<le> length mem3" using assms(4,8) l by simp
  have loop: "frac_loop block p q K i out mem3 = Some (blit out ?P mem3)"
    by (rule frac_loop_pure [OF assms(1,2) fit assms(5,3)])
  have room: "out + q * K \<le> length mem3"
  proof (cases K)
    case (Suc k)
    have "q * k \<le> p * k" using assms(2) by (intro mult_right_mono) simp_all
    moreover have "p * k + w + i \<le> length mem3" "q * K = q + q * k" using Suc fit by simp_all
    ultimately show ?thesis using assms(3,5) by linarith
  qed (use assms(2,3,5,8) fit in simp)
  have P: "?P = frac_pure win w p K (keep @ ys)"
    using frac_pure_take [OF assms(4), of win "drop i mem3"] assms(6,7) by (simp add: d3 add.commute)
  have "rd (blit out ?P mem3) out m = Some ?P"
    using room len assms(11) by (simp add: rd_def) (metis len slice_blit_same)
  then show ?thesis using w1 r loop l room len unfolding P by (intro exI [of _ mem1] exI [of _ "blit out ?P mem3"]) (auto simp: P)
qed

section \<open>By two, in one pass or in two\<close>

lemma ap_run_append: "ap_run c st (xs @ ys)
    = (let (a, st) = ap_run c st xs; (b, st) = ap_run c st ys in (a @ b, st))"
  by (induction xs arbitrary: st) (simp_all add: Let_def case_prod_beta)

lemma length_ap_run [simp]: "length (fst (ap_run c st xs)) = length xs"
  by (induction xs arbitrary: st) (simp_all add: Let_def case_prod_beta)

lemma evens_append: "even (length xs) \<Longrightarrow> evens (xs @ ys) = evens xs @ evens ys"
  by (induction xs rule: evens.induct) simp_all

lemma odds_append: "even (length xs) \<Longrightarrow> odds (xs @ ys) = odds xs @ odds ys"
  by (induction xs rule: odds.induct) simp_all

lemma length_evens [simp]: "length (evens xs) = length xs div 2"
  by (induction xs rule: evens.induct) simp_all

lemma length_odds [simp]: "length (odds xs) = length xs div 2"
  by (induction xs rule: odds.induct) simp_all

lemma length_interleave [simp]: "length (interleave xs ys) = 2 * min (length xs) (length ys)"
  by (induction xs ys rule: interleave.induct) simp_all

lemma interleave_append:
  "length xs = length ys \<Longrightarrow> interleave (xs @ xs') (ys @ ys') = interleave xs ys @ interleave xs' ys'"
  by (induction xs ys rule: list_induct2) simp_all

lemma set_interleave: "set (interleave xs ys) \<subseteq> set xs \<union> set ys"
  by (induction xs ys rule: interleave.induct) auto

lemma sat16_range: "-32768 \<le> sat16 x" "sat16 x < 32768"
  by (simp_all add: sat16_def Let_def)

text \<open>The lengths of the outputs.\<close>

lemma by2_lengths [simp]:
  "length (fst (WebRtcSpl_DownBy2ShortToInt xs st)) = length xs div 2"
  "length (fst (WebRtcSpl_UpBy2ShortToInt xs st)) = 2 * length xs"
  "length (fst (WebRtcSpl_UpBy2IntToInt xs st)) = 2 * length xs"
  "length (fst (WebRtcSpl_UpBy2IntToShort xs st)) = 2 * length xs"
  "even (length xs) \<Longrightarrow> length (fst (WebRtcSpl_LPBy2IntToInt xs st4)) = length xs"
  "even (length xs) \<Longrightarrow> length (fst (WebRtcSpl_LPBy2ShortToInt xs st4)) = length xs"
  by (simp_all add: WebRtcSpl_DownBy2ShortToInt_def WebRtcSpl_UpBy2ShortToInt_def WebRtcSpl_UpBy2IntToInt_def
      WebRtcSpl_UpBy2IntToShort_def WebRtcSpl_LPBy2IntToInt_def WebRtcSpl_LPBy2ShortToInt_def Let_def case_prod_beta ap_late_def)

definition int16s_list :: "int list \<Rightarrow> bool" where
  "int16s_list xs \<longleftrightarrow> (\<forall>x \<in> set xs. -32768 \<le> x \<and> x < 32768)"

lemma up_short_range: "int16s_list (fst (WebRtcSpl_UpBy2IntToShort xs st))"
  using set_interleave sat16_range
  by (fastforce simp: WebRtcSpl_UpBy2IntToShort_def Let_def case_prod_beta int16s_list_def)

lemma down_short_ok:
  assumes "4 dvd length xs"
  shows "\<exists>ys st'. WebRtcSpl_DownBy2IntToShort xs st = Some (ys, st') \<and> length ys = length xs div 2 \<and> int16s_list ys"
proof -
  have e: "even (length xs div 2)" using assms by (auto elim: dvdE)
  obtain a lower where a: "ap_run ap_lower (fst st) (evens xs) = (a, lower)" by (metis prod.collapse)
  obtain b upper where b: "ap_run ap_upper (snd st) (odds xs) = (b, upper)" by (metis prod.collapse)
  have "length a = length xs div 2" "length b = length xs div 2"
    using length_ap_run [of ap_lower "fst st" "evens xs"] length_ap_run [of ap_upper "snd st" "odds xs"] a b by simp_all
  then show ?thesis
    using e a b sat16_range
    by (cases lower, cases upper) (auto simp: WebRtcSpl_DownBy2IntToShort_def Let_def case_prod_beta int16s_list_def)
qed

lemma map2_append: "length xs = length ys \<Longrightarrow> map2 f (xs @ xs') (ys @ ys') = map2 f xs ys @ map2 f xs' ys'"
  by simp

lemma down_si_append:
  assumes "even (length xs)"
  shows "WebRtcSpl_DownBy2ShortToInt (xs @ ys) st = (let (a, st) = WebRtcSpl_DownBy2ShortToInt xs st;
      (b, st) = WebRtcSpl_DownBy2ShortToInt ys st in (a @ b, st))"
  using assms by (simp add: WebRtcSpl_DownBy2ShortToInt_def Let_def case_prod_beta evens_append odds_append ap_run_append)

lemma up_append:
  "WebRtcSpl_UpBy2ShortToInt (xs @ ys) st = (let (a, st) = WebRtcSpl_UpBy2ShortToInt xs st;
      (b, st) = WebRtcSpl_UpBy2ShortToInt ys st in (a @ b, st))"
  "WebRtcSpl_UpBy2IntToInt (xs @ ys) st = (let (a, st) = WebRtcSpl_UpBy2IntToInt xs st;
      (b, st) = WebRtcSpl_UpBy2IntToInt ys st in (a @ b, st))"
  "WebRtcSpl_UpBy2IntToShort (xs @ ys) st = (let (a, st) = WebRtcSpl_UpBy2IntToShort xs st;
      (b, st) = WebRtcSpl_UpBy2IntToShort ys st in (a @ b, st))"
  by (simp_all add: WebRtcSpl_UpBy2ShortToInt_def WebRtcSpl_UpBy2IntToInt_def WebRtcSpl_UpBy2IntToShort_def Let_def
      case_prod_beta ap_run_append interleave_append)

lemma ap_late_append: "ap_late st (xs @ ys) = ap_late st xs @ ap_late (snd (ap_run c st xs)) ys"
proof (induction xs arbitrary: st)
  case (Cons x xs)
  have "ap_late st (x # zs) = (case st of (s0, s1, s2, s3) \<Rightarrow> s0) # ap_late (ap_step c st x) zs" for zs
    by (simp add: ap_late_def ap_step_def Let_def case_prod_beta)
  then show ?case using Cons.IH by (simp add: Let_def case_prod_beta)
qed (simp add: ap_late_def)

lemma length_ap_late [simp]: "length (ap_late st xs) = length xs"
  by (simp add: ap_late_def)

lemma lp_append:
  assumes "even (length xs)"
  shows "WebRtcSpl_LPBy2IntToInt (xs @ ys) st = (let (a, st) = WebRtcSpl_LPBy2IntToInt xs st;
      (b, st) = WebRtcSpl_LPBy2IntToInt ys st in (a @ b, st))"
    "WebRtcSpl_LPBy2ShortToInt (xs @ ys) st = (let (a, st) = WebRtcSpl_LPBy2ShortToInt xs st;
      (b, st) = WebRtcSpl_LPBy2ShortToInt ys st in (a @ b, st))"
  using assms by (simp_all add: WebRtcSpl_LPBy2IntToInt_def WebRtcSpl_LPBy2ShortToInt_def Let_def case_prod_beta
      evens_append odds_append ap_run_append interleave_append ap_late_append [where c = ap_upper])

lemma down_is_append:
  assumes "4 dvd length xs"
  shows "WebRtcSpl_DownBy2IntToShort (xs @ ys) st = do { (a, st) \<leftarrow> WebRtcSpl_DownBy2IntToShort xs st;
      (b, st) \<leftarrow> WebRtcSpl_DownBy2IntToShort ys st; Some (a @ b, st) }"
proof -
  have e: "even (length xs div 2)" "even (length xs)" using assms by (auto elim: dvdE)
  then show ?thesis
    by (simp add: WebRtcSpl_DownBy2IntToShort_def Let_def case_prod_beta evens_append odds_append ap_run_append)
qed

section \<open>The converters as chains of filters\<close>

definition conv_48_16 :: "nat \<Rightarrow> int list \<Rightarrow> State48khzTo16khz \<Rightarrow> (int list \<times> State48khzTo16khz) option" where
  "conv_48_16 K inp state =
     (let (ys, s1) = WebRtcSpl_LPBy2ShortToInt inp (S_48_48 state); ys = S_48_32 state @ ys
      in do { (out, s3) \<leftarrow> WebRtcSpl_DownBy2IntToShort (frac_pure win_48_32 9 3 K ys) (S_32_16 state);
           Some (out, \<lparr>S_48_48 = s1, S_48_32 = drop (3 * K) ys, S_32_16 = s3\<rparr>) })"

definition conv_16_48 :: "nat \<Rightarrow> int list \<Rightarrow> State16khzTo48khz \<Rightarrow> (int list \<times> State16khzTo48khz) option" where
  "conv_16_48 K inp state =
     (let (ys, s1) = WebRtcSpl_UpBy2ShortToInt inp (S_16_32 state); ys = S_32_24 state @ ys;
          (out, s3) = WebRtcSpl_UpBy2IntToShort (frac_pure win_32_24 10 4 K ys) (S_24_48 state)
      in Some (out, \<lparr>S_16_32 = s1, S_32_24 = drop (4 * K) ys, S_24_48 = s3\<rparr>))"

definition conv_48_8 :: "nat \<Rightarrow> int list \<Rightarrow> State48khzTo8khz \<Rightarrow> (int list \<times> State48khzTo8khz) option" where
  "conv_48_8 K inp state =
     (let (ys, s1) = WebRtcSpl_DownBy2ShortToInt inp (S_48_24 state);
          (ys, s2) = WebRtcSpl_LPBy2IntToInt ys (S_24_24 state); ys = S_24_16 state @ ys
      in do { (out, s4) \<leftarrow> WebRtcSpl_DownBy2IntToShort (frac_pure win_48_32 9 3 K ys) (S_16_8 state);
           Some (out, \<lparr>S_48_24 = s1, S_24_24 = s2, S_24_16 = drop (3 * K) ys, S_16_8 = s4\<rparr>) })"

definition conv_8_48 :: "nat \<Rightarrow> int list \<Rightarrow> State8khzTo48khz \<Rightarrow> (int list \<times> State8khzTo48khz) option" where
  "conv_8_48 K inp state =
     (let (ys, s1) = WebRtcSpl_UpBy2ShortToInt inp (S_8_16 state); ys = S_16_12 state @ ys;
          (zs, s3) = WebRtcSpl_UpBy2IntToInt (frac_pure win_32_24 10 4 K ys) (S_12_24 state);
          (out, s4) = WebRtcSpl_UpBy2IntToShort zs (S8_24_48 state)
      in Some (out, \<lparr>S_8_16 = s1, S_16_12 = drop (4 * K) ys, S_12_24 = s3, S8_24_48 = s4\<rparr>))"

lemma rd_all: "length xs = n \<Longrightarrow> rd xs 0 n = Some xs"
  by (simp add: rd_def slice_def)

lemma convert_48_16:
  assumes "length inp = 480" "length (S_48_32 s) = 8" "496 \<le> length t"
  shows "WebRtcSpl_Resample48khzTo16khz inp s t = conv_48_16 160 inp s"
proof -
  obtain ys s1 where ys: "WebRtcSpl_LPBy2ShortToInt inp (S_48_48 s) = (ys, s1)" by (metis prod.collapse)
  then have l: "length ys = 480" using by2_lengths(6) [of inp "S_48_48 s"] assms(1) by simp
  have "\<exists>mem1 mem2. length mem2 = length t \<and> wr t 16 ys = Some mem1 \<and>
      (\<exists>mem3. wr mem1 8 (S_48_32 s) = Some mem3 \<and> rd mem3 488 8 = Some (drop 480 (S_48_32 s @ ys)) \<and>
        frac_loop block_48_32 3 2 160 8 0 mem3 = Some mem2 \<and>
        rd mem2 0 320 = Some (frac_pure win_48_32 9 3 160 (S_48_32 s @ ys)))"
    by (rule frac_stage [OF block_48_32_ok]) (use assms(2,3) l in simp_all)
  then obtain mem1 mem2 mem3 where "wr t 16 ys = Some mem1" "wr mem1 8 (S_48_32 s) = Some mem3"
    "rd mem3 488 8 = Some (drop 480 (S_48_32 s @ ys))" "frac_loop block_48_32 3 2 160 8 0 mem3 = Some mem2"
    "rd mem2 0 320 = Some (frac_pure win_48_32 9 3 160 (S_48_32 s @ ys))" by blast
  then show ?thesis
    by (simp add: WebRtcSpl_Resample48khzTo16khz_def conv_48_16_def rd_all assms(1) ys WebRtcSpl_Resample48khzTo32khz_def)
qed

lemma convert_16_48:
  assumes "length inp = 160" "length (S_32_24 s) = 8" "336 \<le> length t"
  shows "WebRtcSpl_Resample16khzTo48khz inp s t = conv_16_48 80 inp s"
proof -
  obtain ys s1 where ys: "WebRtcSpl_UpBy2ShortToInt inp (S_16_32 s) = (ys, s1)" by (metis prod.collapse)
  then have l: "length ys = 320" using by2_lengths(2) [of inp "S_16_32 s"] assms(1) by simp
  have "\<exists>mem1 mem2. length mem2 = length t \<and> wr t 16 ys = Some mem1 \<and>
      (\<exists>mem3. wr mem1 8 (S_32_24 s) = Some mem3 \<and> rd mem3 328 8 = Some (drop 320 (S_32_24 s @ ys)) \<and>
        frac_loop block_32_24 4 3 80 8 0 mem3 = Some mem2 \<and>
        rd mem2 0 240 = Some (frac_pure win_32_24 10 4 80 (S_32_24 s @ ys)))"
    by (rule frac_stage [OF block_32_24_ok]) (use assms(2,3) l in simp_all)
  then obtain mem1 mem2 mem3 where "wr t 16 ys = Some mem1" "wr mem1 8 (S_32_24 s) = Some mem3"
    "rd mem3 328 8 = Some (drop 320 (S_32_24 s @ ys))" "frac_loop block_32_24 4 3 80 8 0 mem3 = Some mem2"
    "rd mem2 0 240 = Some (frac_pure win_32_24 10 4 80 (S_32_24 s @ ys))" by blast
  then show ?thesis
    by (simp add: WebRtcSpl_Resample16khzTo48khz_def conv_16_48_def rd_all assms(1) ys WebRtcSpl_Resample32khzTo24khz_def)
qed

lemma convert_48_8:
  assumes "length inp = 480" "length (S_24_16 s) = 8" "496 \<le> length t"
  shows "WebRtcSpl_Resample48khzTo8khz inp s t = conv_48_8 80 inp s"
proof -
  obtain xs s1 where xs: "WebRtcSpl_DownBy2ShortToInt inp (S_48_24 s) = (xs, s1)" by (metis prod.collapse)
  then have lx: "length xs = 240" using by2_lengths(1) [of inp "S_48_24 s"] assms(1) by simp
  obtain ys s2 where ys: "WebRtcSpl_LPBy2IntToInt xs (S_24_24 s) = (ys, s2)" by (metis prod.collapse)
  then have l: "length ys = 240" using by2_lengths(5) [of xs "S_24_24 s"] lx by simp
  define t' where "t' = blit 256 xs t"
  have t': "wr t 256 xs = Some t'" "rd t' 256 240 = Some xs" "length t' = length t"
    using assms(3) lx slice_blit_same [of 256 xs t] by (simp_all add: wr_def rd_def t'_def)
  have "\<exists>mem1 mem2. length mem2 = length t' \<and> wr t' 16 ys = Some mem1 \<and>
      (\<exists>mem3. wr mem1 8 (S_24_16 s) = Some mem3 \<and> rd mem3 248 8 = Some (drop 240 (S_24_16 s @ ys)) \<and>
        frac_loop block_48_32 3 2 80 8 0 mem3 = Some mem2 \<and>
        rd mem2 0 160 = Some (frac_pure win_48_32 9 3 80 (S_24_16 s @ ys)))"
    by (rule frac_stage [OF block_48_32_ok]) (use assms(2,3) l t'(3) in simp_all)
  then obtain mem1 mem2 mem3 where "wr t' 16 ys = Some mem1" "wr mem1 8 (S_24_16 s) = Some mem3"
    "rd mem3 248 8 = Some (drop 240 (S_24_16 s @ ys))" "frac_loop block_48_32 3 2 80 8 0 mem3 = Some mem2"
    "rd mem2 0 160 = Some (frac_pure win_48_32 9 3 80 (S_24_16 s @ ys))" by blast
  then show ?thesis
    by (simp add: WebRtcSpl_Resample48khzTo8khz_def conv_48_8_def rd_all assms(1) xs t' ys WebRtcSpl_Resample48khzTo32khz_def)
qed

lemma convert_8_48:
  assumes "length inp = 80" "length (S_16_12 s) = 8" "424 \<le> length t"
  shows "WebRtcSpl_Resample8khzTo48khz inp s t = conv_8_48 40 inp s"
proof -
  obtain ys s1 where ys: "WebRtcSpl_UpBy2ShortToInt inp (S_8_16 s) = (ys, s1)" by (metis prod.collapse)
  then have l: "length ys = 160" using by2_lengths(2) [of inp "S_8_16 s"] assms(1) by simp
  have "\<exists>mem1 mem2. length mem2 = length t \<and> wr t 264 ys = Some mem1 \<and>
      (\<exists>mem3. wr mem1 256 (S_16_12 s) = Some mem3 \<and> rd mem3 416 8 = Some (drop 160 (S_16_12 s @ ys)) \<and>
        frac_loop block_32_24 4 3 40 256 240 mem3 = Some mem2 \<and>
        rd mem2 240 120 = Some (frac_pure win_32_24 10 4 40 (S_16_12 s @ ys)))"
    by (rule frac_stage [OF block_32_24_ok]) (use assms(2,3) l in simp_all)
  then obtain mem1 mem2 mem3 where "wr t 264 ys = Some mem1" "wr mem1 256 (S_16_12 s) = Some mem3"
    "rd mem3 416 8 = Some (drop 160 (S_16_12 s @ ys))" "frac_loop block_32_24 4 3 40 256 240 mem3 = Some mem2"
    and r: "rd mem2 240 120 = Some (frac_pure win_32_24 10 4 40 (S_16_12 s @ ys))" "length mem2 = length t" by blast
  moreover obtain zs s3 where zs: "WebRtcSpl_UpBy2IntToInt (frac_pure win_32_24 10 4 40 (S_16_12 s @ ys)) (S_12_24 s) = (zs, s3)"
    by (metis prod.collapse)
  moreover have lz: "length zs = 240"
    using by2_lengths(3) [of "frac_pure win_32_24 10 4 40 (S_16_12 s @ ys)" "S_12_24 s"] zs
    by (simp add: length_frac_pure [where q = 3] win_32_24_def)
  moreover have "wr mem2 0 zs = Some (blit 0 zs mem2)" "rd (blit 0 zs mem2) 0 240 = Some zs"
    using assms(3) r(2) lz slice_blit_same [of 0 zs mem2] by (simp_all add: wr_def rd_def)
  ultimately show ?thesis
    by (simp add: WebRtcSpl_Resample8khzTo48khz_def conv_8_48_def rd_all assms(1) ys WebRtcSpl_Resample32khzTo24khz_def)
qed

text \<open>The outputs, and what is kept.\<close>

lemma length_wins [simp]: "length (win_48_32 xs) = 2" "length (win_32_24 xs) = 3" "length (win_44_32 xs) = 8" "length (win_32_22 xs) = 11"
  by (simp_all add: win_48_32_def win_32_24_def win_44_32_def win_32_22_def Let_def)

lemma length_fracs [simp]: "length (frac_pure win_48_32 w p K xs) = 2 * K" "length (frac_pure win_32_24 w p K xs) = 3 * K"
    "length (frac_pure win_44_32 w p K xs) = 8 * K" "length (frac_pure win_32_22 w p K xs) = 11 * K"
  by (rule length_frac_pure, simp)+

lemma conv_48_16_ok:
  assumes "length inp = 480" "length (S_48_32 s) = 8"
  shows "\<exists>ys s'. conv_48_16 160 inp s = Some (ys, s') \<and> length ys = 160 \<and> int16s_list ys \<and> length (S_48_32 s') = 8"
proof -
  obtain ys s1 where ys: "WebRtcSpl_LPBy2ShortToInt inp (S_48_48 s) = (ys, s1)" by (metis prod.collapse)
  then have "length ys = 480" using by2_lengths(6) [of inp "S_48_48 s"] assms(1) by simp
  moreover obtain out s3 where "WebRtcSpl_DownBy2IntToShort (frac_pure win_48_32 9 3 160 (S_48_32 s @ ys)) (S_32_16 s) = Some (out, s3)"
    "length out = 160" "int16s_list out" using down_short_ok [of "frac_pure win_48_32 9 3 160 (S_48_32 s @ ys)" "S_32_16 s"] by auto
  ultimately show ?thesis using assms ys by (simp add: conv_48_16_def)
qed

lemma conv_16_48_ok:
  assumes "length inp = 160" "length (S_32_24 s) = 8"
  shows "\<exists>ys s'. conv_16_48 80 inp s = Some (ys, s') \<and> length ys = 480 \<and> int16s_list ys \<and> length (S_32_24 s') = 8"
proof -
  obtain ys s1 where ys: "WebRtcSpl_UpBy2ShortToInt inp (S_16_32 s) = (ys, s1)" by (metis prod.collapse)
  then have "length ys = 320" using by2_lengths(2) [of inp "S_16_32 s"] assms(1) by simp
  then show ?thesis using assms ys up_short_range by (simp add: conv_16_48_def Let_def case_prod_beta)
qed

lemma conv_48_8_ok:
  assumes "length inp = 480" "length (S_24_16 s) = 8"
  shows "\<exists>ys s'. conv_48_8 80 inp s = Some (ys, s') \<and> length ys = 80 \<and> int16s_list ys \<and> length (S_24_16 s') = 8"
proof -
  obtain xs s1 where xs: "WebRtcSpl_DownBy2ShortToInt inp (S_48_24 s) = (xs, s1)" by (metis prod.collapse)
  then have lx: "length xs = 240" using by2_lengths(1) [of inp "S_48_24 s"] assms(1) by simp
  obtain ys s2 where ys: "WebRtcSpl_LPBy2IntToInt xs (S_24_24 s) = (ys, s2)" by (metis prod.collapse)
  then have "length ys = 240" using by2_lengths(5) [of xs "S_24_24 s"] lx by simp
  moreover obtain out s4 where "WebRtcSpl_DownBy2IntToShort (frac_pure win_48_32 9 3 80 (S_24_16 s @ ys)) (S_16_8 s) = Some (out, s4)"
    "length out = 80" "int16s_list out" using down_short_ok [of "frac_pure win_48_32 9 3 80 (S_24_16 s @ ys)" "S_16_8 s"] by auto
  ultimately show ?thesis using assms xs ys by (simp add: conv_48_8_def)
qed

lemma conv_8_48_ok:
  assumes "length inp = 80" "length (S_16_12 s) = 8"
  shows "\<exists>ys s'. conv_8_48 40 inp s = Some (ys, s') \<and> length ys = 480 \<and> int16s_list ys \<and> length (S_16_12 s') = 8"
proof -
  obtain ys s1 where ys: "WebRtcSpl_UpBy2ShortToInt inp (S_8_16 s) = (ys, s1)" by (metis prod.collapse)
  then have "length ys = 160" using by2_lengths(2) [of inp "S_8_16 s"] assms(1) by simp
  then show ?thesis using assms ys up_short_range by (simp add: conv_8_48_def Let_def case_prod_beta)
qed

text \<open>
  C18: The converters between 8, 16 and 48 kHz turn 10 ms of samples into 10 ms at the other rate whatever is
  in their scratch memory, as long as it has the room they use (496, 336, 496 and 424 words): they read and
  write inside of it, the fractional filter works in place without overwriting a sample it still
  needs, the output has the length of the other rate and is saturated, and eight samples are kept for the next
  call.
\<close>

theorem converters_48khz_total:
  assumes "length x48 = 480" "length x16 = 160" "length x8 = 80"
    "length (S_48_32 s1) = 8" "length (S_32_24 s2) = 8" "length (S_24_16 s3) = 8" "length (S_16_12 s4) = 8"
    "496 \<le> length t1" "336 \<le> length t2" "496 \<le> length t3" "424 \<le> length t4"
  shows "(\<exists>ys s'. WebRtcSpl_Resample48khzTo16khz x48 s1 t1 = Some (ys, s') \<and> length ys = 160 \<and> int16s_list ys
      \<and> length (S_48_32 s') = 8)
    \<and> (\<exists>ys s'. WebRtcSpl_Resample16khzTo48khz x16 s2 t2 = Some (ys, s') \<and> length ys = 480 \<and> int16s_list ys
      \<and> length (S_32_24 s') = 8)
    \<and> (\<exists>ys s'. WebRtcSpl_Resample48khzTo8khz x48 s3 t3 = Some (ys, s') \<and> length ys = 80 \<and> int16s_list ys
      \<and> length (S_24_16 s') = 8)
    \<and> (\<exists>ys s'. WebRtcSpl_Resample8khzTo48khz x8 s4 t4 = Some (ys, s') \<and> length ys = 480 \<and> int16s_list ys
      \<and> length (S_16_12 s') = 8)"
  using conv_48_16_ok [OF assms(1,4)] conv_16_48_ok [OF assms(2,5)] conv_48_8_ok [OF assms(1,6)] conv_8_48_ok [OF assms(3,7)]
  by (simp only: convert_48_16 [OF assms(1,4,8)] convert_16_48 [OF assms(2,5,9)] convert_48_8 [OF assms(1,6,10)]
      convert_8_48 [OF assms(3,7,11)])

lemma converters_48khz_total_witness:
  "(\<exists>ys s'. WebRtcSpl_Resample48khzTo16khz (replicate 480 3) WebRtcSpl_ResetResample48khzTo16khz (replicate 496 7) = Some (ys, s')
      \<and> length ys = 160 \<and> int16s_list ys \<and> length (S_48_32 s') = 8)
    \<and> (\<exists>ys s'. WebRtcSpl_Resample16khzTo48khz (replicate 160 3) WebRtcSpl_ResetResample16khzTo48khz (replicate 336 7) = Some (ys, s')
      \<and> length ys = 480 \<and> int16s_list ys \<and> length (S_32_24 s') = 8)
    \<and> (\<exists>ys s'. WebRtcSpl_Resample48khzTo8khz (replicate 480 3) WebRtcSpl_ResetResample48khzTo8khz (replicate 496 7) = Some (ys, s')
      \<and> length ys = 80 \<and> int16s_list ys \<and> length (S_24_16 s') = 8)
    \<and> (\<exists>ys s'. WebRtcSpl_Resample8khzTo48khz (replicate 80 3) WebRtcSpl_ResetResample8khzTo48khz (replicate 424 7) = Some (ys, s')
      \<and> length ys = 480 \<and> int16s_list ys \<and> length (S_16_12 s') = 8)"
  by (rule converters_48khz_total) (simp_all add: WebRtcSpl_ResetResample48khzTo16khz_def WebRtcSpl_ResetResample16khzTo48khz_def
      WebRtcSpl_ResetResample48khzTo8khz_def WebRtcSpl_ResetResample8khzTo48khz_def zero8_def)

section \<open>Block after block is one pass\<close>

lemma frac_stream:
  assumes "p * (K - 1) + w \<le> 8 + length ys" "length keep = 8" "length ys = p * K"
  shows "frac_pure win w p (K + L) (keep @ ys @ zs)
    = frac_pure win w p K (keep @ ys) @ frac_pure win w p L (drop (p * K) (keep @ ys) @ zs)"
proof -
  have "frac_pure win w p K (keep @ ys @ zs) = frac_pure win w p K (keep @ ys)"
    using frac_pure_take [of p K w "8 + length ys" win "keep @ ys @ zs"] assms(1,2) by simp
  moreover have "drop (p * K) (keep @ ys @ zs) = drop (p * K) (keep @ ys) @ zs" using assms(2,3) by simp
  ultimately show ?thesis by (simp add: frac_pure_append)
qed

lemma conv_48_8_append:
  assumes "length xs = 6 * K" "even K" "0 < K" "length (S_24_16 s) = 8"
  shows "conv_48_8 (K + L) (xs @ ys) s = do { (a, s) \<leftarrow> conv_48_8 K xs s; (b, s) \<leftarrow> conv_48_8 L ys s; Some (a @ b, s) }"
proof -
  obtain u s1 where u: "WebRtcSpl_DownBy2ShortToInt xs (S_48_24 s) = (u, s1)" by (metis prod.collapse)
  then have lu: "length u = 3 * K" using by2_lengths(1) [of xs "S_48_24 s"] assms(1) by simp
  obtain u' s1' where u': "WebRtcSpl_DownBy2ShortToInt ys s1 = (u', s1')" by (metis prod.collapse)
  obtain v s2 where v: "WebRtcSpl_LPBy2IntToInt u (S_24_24 s) = (v, s2)" by (metis prod.collapse)
  then have lv: "length v = 3 * K" using by2_lengths(5) [of u "S_24_24 s"] assms(2) lu by simp
  obtain v' s2' where v': "WebRtcSpl_LPBy2IntToInt u' s2 = (v', s2')" by (metis prod.collapse)
  have "even (length xs)" "even (length u)" using assms(1,2) lu by simp_all
  then have 1: "WebRtcSpl_DownBy2ShortToInt (xs @ ys) (S_48_24 s) = (u @ u', s1')"
    "WebRtcSpl_LPBy2IntToInt (u @ u') (S_24_24 s) = (v @ v', s2')"
    by (simp_all add: down_si_append lp_append u u' v v')
  let ?a = "frac_pure win_48_32 9 3 K (S_24_16 s @ v)" and ?b = "frac_pure win_48_32 9 3 L (drop (3 * K) (S_24_16 s @ v) @ v')"
  have "3 * (K - 1) + 9 \<le> 8 + length v" using lv assms(3) by (cases K) simp_all
  then have 2: "frac_pure win_48_32 9 3 (K + L) (S_24_16 s @ v @ v') = ?a @ ?b"
    by (rule frac_stream) (use assms(4) lv in simp_all)
  have 4: "4 dvd length ?a" using assms(2) by (auto elim!: evenE)
  have "drop (3 * (K + L)) (S_24_16 s @ v @ v') = drop (3 * L) (drop (3 * K) ((S_24_16 s @ v) @ v'))"
    by (simp only: drop_drop append_assoc distrib_left add.commute)
  also have "drop (3 * K) ((S_24_16 s @ v) @ v') = drop (3 * K) (S_24_16 s @ v) @ v'" using lv by (simp only: drop_append) simp
  finally have 5: "drop (3 * (K + L)) (S_24_16 s @ v @ v') = drop (3 * L) (drop (3 * K) (S_24_16 s @ v) @ v')" .
  show ?thesis
    by (simp add: conv_48_8_def 1 2 5 [unfolded distrib_left] u u' v v' down_is_append [OF 4] del: drop_append split: bind_splits)
qed

text \<open>A signal resampled in blocks of 10 ms.\<close>

fun run_48_8 :: "int list \<Rightarrow> int list list \<Rightarrow> State48khzTo8khz \<Rightarrow> (int list \<times> State48khzTo8khz) option" where
  "run_48_8 tmpmem [] s = Some ([], s)"
| "run_48_8 tmpmem (b # bs) s = do {
     (x, s) \<leftarrow> WebRtcSpl_Resample48khzTo8khz b s tmpmem; (y, s) \<leftarrow> run_48_8 tmpmem bs s; Some (x @ y, s) }"

lemma run_48_8_eq:
  assumes "\<forall>b \<in> set blocks. length b = 480" "length (S_24_16 s) = 8" "496 \<le> length tmpmem"
  shows "run_48_8 tmpmem blocks s = conv_48_8 (80 * length blocks) (concat blocks) s"
  using assms(1,2)
proof (induction blocks arbitrary: s)
  case Nil
  then show ?case
    by (cases "S_48_24 s", cases "S_16_8 s", cases "S_24_24 s")
      (simp add: conv_48_8_def WebRtcSpl_DownBy2ShortToInt_def WebRtcSpl_LPBy2IntToInt_def WebRtcSpl_DownBy2IntToShort_def ap_late_def)
next
  case (Cons b bs)
  have b: "length b = 480" using Cons.prems(1) by simp
  obtain x s' where x: "conv_48_8 80 b s = Some (x, s')" "length (S_24_16 s') = 8"
    using conv_48_8_ok [OF b Cons.prems(2)] by auto
  have "run_48_8 tmpmem bs s' = conv_48_8 (80 * length bs) (concat bs) s'" using Cons.IH [OF _ x(2)] Cons.prems(1) by simp
  moreover have "conv_48_8 (80 + 80 * length bs) (b @ concat bs) s
      = do { (a, s) \<leftarrow> conv_48_8 80 b s; (c, s) \<leftarrow> conv_48_8 (80 * length bs) (concat bs) s; Some (a @ c, s) }"
    by (rule conv_48_8_append) (use b Cons.prems(2) in simp_all)
  ultimately show ?case using x convert_48_8 [OF b Cons.prems(2) assms(3)] by simp
qed

text \<open>
  C19: Resampling from 48 to 8 kHz is seamless: a signal resampled in blocks of 10 ms, with the state kept from
  block to block, comes out as from one pass of the filters over the whole signal.
\<close>

theorem resample_seamless:
  assumes "\<forall>b \<in> set blocks. length b = 480" "496 \<le> length tmpmem"
  shows "run_48_8 tmpmem blocks WebRtcSpl_ResetResample48khzTo8khz
    = conv_48_8 (80 * length blocks) (concat blocks) WebRtcSpl_ResetResample48khzTo8khz"
  by (rule run_48_8_eq [OF assms(1) _ assms(2)]) (simp add: WebRtcSpl_ResetResample48khzTo8khz_def zero8_def)

lemma resample_seamless_witness:
  "run_48_8 (replicate 496 0) [replicate 480 5, replicate 480 (-9)] WebRtcSpl_ResetResample48khzTo8khz
    = conv_48_8 (80 * length [replicate 480 5, replicate 480 (-9 :: int)])
        (concat [replicate 480 5, replicate 480 (-9)]) WebRtcSpl_ResetResample48khzTo8khz"
  by (rule resample_seamless) simp_all

end
