(* ===== verification/Spl_Resample_22.thy ===== *)
theory Spl_Resample_22
  imports Spl_Resample
begin

text \<open>
  The converters between 22 kHz and 8 or 16 kHz (\<open>common_audio/signal_processing/resample.c\<close>): they
  work on 10 ms in sub-blocks, so that less scratch memory is needed.  Every pass puts its samples
  into the scratch memory before it reads them, so each is given the memory as it was in the beginning.
\<close>

section \<open>The converters\<close>

definition SUB_BLOCKS_22_16 :: nat where "SUB_BLOCKS_22_16 = 5"
definition SUB_BLOCKS_16_22 :: nat where "SUB_BLOCKS_16_22 = 4"
definition SUB_BLOCKS_22_8 :: nat where "SUB_BLOCKS_22_8 = 2"
definition SUB_BLOCKS_8_22 :: nat where "SUB_BLOCKS_8_22 = 2"

record State22khzTo16khz =
  S_22_44 :: ap2
  S_44_32 :: "int list"
  S22_32_16 :: ap2

record State16khzTo22khz =
  S22_16_32 :: ap2
  S_32_22 :: "int list"

record State22khzTo8khz =
  S_22_22 :: ap4
  S_22_16 :: "int list"
  S22_16_8 :: ap2

record State8khzTo22khz =
  S22_8_16 :: ap2
  S_16_11 :: "int list"
  S_11_22 :: ap2

text \<open>\<open>k\<close> passes over \<open>n\<close> samples each.\<close>

fun sub_blocks :: "(int list \<Rightarrow> 's \<Rightarrow> (int list \<times> 's) option) \<Rightarrow> nat \<Rightarrow> nat \<Rightarrow> int list \<Rightarrow> 's \<Rightarrow> (int list \<times> 's) option" where
  "sub_blocks step n 0 inp state = Some ([], state)"
| "sub_blocks step n (Suc k) inp state = do {
     x \<leftarrow> rd inp 0 n;
     (y, state) \<leftarrow> step x state;
     (ys, state) \<leftarrow> sub_blocks step n k (drop n inp) state;
     Some (y @ ys, state) }"

definition sub_22_16 :: "int list \<Rightarrow> int list \<Rightarrow> State22khzTo16khz \<Rightarrow> (int list \<times> State22khzTo16khz) option" where
  "sub_22_16 tmpmem inp state = (let (ys, s1) = WebRtcSpl_UpBy2ShortToInt inp (S_22_44 state) in do {
     tmpmem \<leftarrow> wr tmpmem 16 ys;
     tmpmem \<leftarrow> wr tmpmem 8 (S_44_32 state);
     s2 \<leftarrow> rd tmpmem (440 div SUB_BLOCKS_22_16 + 8) 8;
     tmpmem \<leftarrow> WebRtcSpl_Resample44khzTo32khz 8 0 (40 div SUB_BLOCKS_22_16) tmpmem;
     xs \<leftarrow> rd tmpmem 0 (320 div SUB_BLOCKS_22_16);
     (out, s3) \<leftarrow> WebRtcSpl_DownBy2IntToShort xs (S22_32_16 state);
     Some (out, \<lparr>S_22_44 = s1, S_44_32 = s2, S22_32_16 = s3\<rparr>) })"

definition WebRtcSpl_Resample22khzTo16khz ::
    "int list \<Rightarrow> State22khzTo16khz \<Rightarrow> int list \<Rightarrow> (int list \<times> State22khzTo16khz) option" where
  "WebRtcSpl_Resample22khzTo16khz inp state tmpmem =
     sub_blocks (sub_22_16 tmpmem) (220 div SUB_BLOCKS_22_16) SUB_BLOCKS_22_16 inp state"

definition sub_16_22 :: "int list \<Rightarrow> int list \<Rightarrow> State16khzTo22khz \<Rightarrow> (int list \<times> State16khzTo22khz) option" where
  "sub_16_22 tmpmem inp state = (let (ys, s1) = WebRtcSpl_UpBy2ShortToInt inp (S22_16_32 state) in do {
     tmpmem \<leftarrow> wr tmpmem 8 ys;
     tmpmem \<leftarrow> wr tmpmem 0 (S_32_22 state);
     s2 \<leftarrow> rd tmpmem (320 div SUB_BLOCKS_16_22) 8;
     out \<leftarrow> WebRtcSpl_32khzTo22khzIntToShort 0 (20 div SUB_BLOCKS_16_22) tmpmem;
     Some (out, \<lparr>S22_16_32 = s1, S_32_22 = s2\<rparr>) })"

definition WebRtcSpl_Resample16khzTo22khz ::
    "int list \<Rightarrow> State16khzTo22khz \<Rightarrow> int list \<Rightarrow> (int list \<times> State16khzTo22khz) option" where
  "WebRtcSpl_Resample16khzTo22khz inp state tmpmem =
     sub_blocks (sub_16_22 tmpmem) (160 div SUB_BLOCKS_16_22) SUB_BLOCKS_16_22 inp state"

definition sub_22_8 :: "int list \<Rightarrow> int list \<Rightarrow> State22khzTo8khz \<Rightarrow> (int list \<times> State22khzTo8khz) option" where
  "sub_22_8 tmpmem inp state = (let (ys, s1) = WebRtcSpl_LPBy2ShortToInt inp (S_22_22 state) in do {
     tmpmem \<leftarrow> wr tmpmem 16 ys;
     tmpmem \<leftarrow> wr tmpmem 8 (S_22_16 state);
     s2 \<leftarrow> rd tmpmem (220 div SUB_BLOCKS_22_8 + 8) 8;
     tmpmem \<leftarrow> WebRtcSpl_Resample44khzTo32khz 8 0 (20 div SUB_BLOCKS_22_8) tmpmem;
     xs \<leftarrow> rd tmpmem 0 (160 div SUB_BLOCKS_22_8);
     (out, s3) \<leftarrow> WebRtcSpl_DownBy2IntToShort xs (S22_16_8 state);
     Some (out, \<lparr>S_22_22 = s1, S_22_16 = s2, S22_16_8 = s3\<rparr>) })"

definition WebRtcSpl_Resample22khzTo8khz ::
    "int list \<Rightarrow> State22khzTo8khz \<Rightarrow> int list \<Rightarrow> (int list \<times> State22khzTo8khz) option" where
  "WebRtcSpl_Resample22khzTo8khz inp state tmpmem =
     sub_blocks (sub_22_8 tmpmem) (220 div SUB_BLOCKS_22_8) SUB_BLOCKS_22_8 inp state"

definition sub_8_22 :: "int list \<Rightarrow> int list \<Rightarrow> State8khzTo22khz \<Rightarrow> (int list \<times> State8khzTo22khz) option" where
  "sub_8_22 tmpmem inp state = (let (ys, s1) = WebRtcSpl_UpBy2ShortToInt inp (S22_8_16 state) in do {
     tmpmem \<leftarrow> wr tmpmem 18 ys;
     tmpmem \<leftarrow> wr tmpmem 10 (S_16_11 state);
     s2 \<leftarrow> rd tmpmem (160 div SUB_BLOCKS_8_22 + 10) 8;
     tmpmem \<leftarrow> WebRtcSpl_32khzTo22khzIntToInt 10 0 (10 div SUB_BLOCKS_8_22) tmpmem;
     xs \<leftarrow> rd tmpmem 0 (110 div SUB_BLOCKS_8_22);
     let (out, s3) = WebRtcSpl_UpBy2IntToShort xs (S_11_22 state)
     in Some (out, \<lparr>S22_8_16 = s1, S_16_11 = s2, S_11_22 = s3\<rparr>) })"

definition WebRtcSpl_Resample8khzTo22khz ::
    "int list \<Rightarrow> State8khzTo22khz \<Rightarrow> int list \<Rightarrow> (int list \<times> State8khzTo22khz) option" where
  "WebRtcSpl_Resample8khzTo22khz inp state tmpmem =
     sub_blocks (sub_8_22 tmpmem) (80 div SUB_BLOCKS_8_22) SUB_BLOCKS_8_22 inp state"

definition WebRtcSpl_ResetResample22khzTo16khz :: State22khzTo16khz where
  "WebRtcSpl_ResetResample22khzTo16khz = \<lparr>S_22_44 = ap2_zero, S_44_32 = zero8, S22_32_16 = ap2_zero\<rparr>"

definition WebRtcSpl_ResetResample16khzTo22khz :: State16khzTo22khz where
  "WebRtcSpl_ResetResample16khzTo22khz = \<lparr>S22_16_32 = ap2_zero, S_32_22 = zero8\<rparr>"

definition WebRtcSpl_ResetResample22khzTo8khz :: State22khzTo8khz where
  "WebRtcSpl_ResetResample22khzTo8khz = \<lparr>S_22_22 = ap4_zero, S_22_16 = zero8, S22_16_8 = ap2_zero\<rparr>"

definition WebRtcSpl_ResetResample8khzTo22khz :: State8khzTo22khz where
  "WebRtcSpl_ResetResample8khzTo22khz = \<lparr>S22_8_16 = ap2_zero, S_16_11 = zero8, S_11_22 = ap2_zero\<rparr>"

section \<open>They return, with the samples of the other rate\<close>

lemma sub_blocks_ok:
  assumes "\<And>x s. length x = n \<Longrightarrow> P s \<Longrightarrow> \<exists>y s'. step x s = Some (y, s') \<and> length y = m \<and> int16s_list y \<and> P s'"
    "length inp = n * k" "P s"
  shows "\<exists>y s'. sub_blocks step n k inp s = Some (y, s') \<and> length y = m * k \<and> int16s_list y \<and> P s'"
  using assms(2,3)
proof (induction k arbitrary: inp s)
  case (Suc k)
  have x: "rd inp 0 n = Some (take n inp)" "length (take n inp) = n" using Suc.prems(1) by (simp_all add: rd_def slice_def)
  from assms(1) [OF x(2) Suc.prems(2)] obtain y s1 where
    y: "step (take n inp) s = Some (y, s1)" "length y = m" "int16s_list y" "P s1" by blast
  have "length (drop n inp) = n * k" using Suc.prems(1) by simp
  from Suc.IH [OF this y(4)] obtain ys s2 where
    ys: "sub_blocks step n k (drop n inp) s1 = Some (ys, s2)" "length ys = m * k" "int16s_list ys" "P s2" by blast
  have "int16s_list (y @ ys)" using y(3) ys(3) by (auto simp: int16s_list_def)
  then show ?case using x y ys by simp
qed (simp add: int16s_list_def)

lemma sub_22_16_ok:
  assumes "104 \<le> length t" "length inp = 44" "length (S_44_32 s) = 8"
  shows "\<exists>y s'. sub_22_16 t inp s = Some (y, s') \<and> length y = 32 \<and> int16s_list y \<and> length (S_44_32 s') = 8"
proof -
  obtain ys s1 where ys: "WebRtcSpl_UpBy2ShortToInt inp (S_22_44 s) = (ys, s1)" by (metis prod.collapse)
  then have l: "length ys = 88" using by2_lengths(2) [of inp "S_22_44 s"] assms(2) by simp
  have "\<exists>mem1 mem2. length mem2 = length t \<and> wr t 16 ys = Some mem1 \<and>
      (\<exists>mem3. wr mem1 8 (S_44_32 s) = Some mem3 \<and> rd mem3 96 8 = Some (drop 88 (S_44_32 s @ ys)) \<and>
        frac_loop block_44_32 11 8 8 8 0 mem3 = Some mem2 \<and> rd mem2 0 64 = Some (frac_pure win_44_32 18 11 8 (S_44_32 s @ ys)))"
    by (rule frac_stage [OF block_44_32_ok]) (use assms(1,3) l in simp_all)
  then obtain mem1 mem2 mem3 where m: "wr t 16 ys = Some mem1" "wr mem1 8 (S_44_32 s) = Some mem3"
    "rd mem3 96 8 = Some (drop 88 (S_44_32 s @ ys))" "frac_loop block_44_32 11 8 8 8 0 mem3 = Some mem2"
    "rd mem2 0 64 = Some (frac_pure win_44_32 18 11 8 (S_44_32 s @ ys))" by blast
  obtain out s3 where "WebRtcSpl_DownBy2IntToShort (frac_pure win_44_32 18 11 8 (S_44_32 s @ ys)) (S22_32_16 s) = Some (out, s3)"
    "length out = 32" "int16s_list out" using down_short_ok [of "frac_pure win_44_32 18 11 8 (S_44_32 s @ ys)" "S22_32_16 s"] by auto
  then show ?thesis using assms(3) l ys m by (simp add: sub_22_16_def WebRtcSpl_Resample44khzTo32khz_def SUB_BLOCKS_22_16_def)
qed

lemma sub_22_8_ok:
  assumes "126 \<le> length t" "length inp = 110" "length (S_22_16 s) = 8"
  shows "\<exists>y s'. sub_22_8 t inp s = Some (y, s') \<and> length y = 40 \<and> int16s_list y \<and> length (S_22_16 s') = 8"
proof -
  obtain ys s1 where ys: "WebRtcSpl_LPBy2ShortToInt inp (S_22_22 s) = (ys, s1)" by (metis prod.collapse)
  then have l: "length ys = 110" using by2_lengths(6) [of inp "S_22_22 s"] assms(2) by simp
  have "\<exists>mem1 mem2. length mem2 = length t \<and> wr t 16 ys = Some mem1 \<and>
      (\<exists>mem3. wr mem1 8 (S_22_16 s) = Some mem3 \<and> rd mem3 118 8 = Some (drop 110 (S_22_16 s @ ys)) \<and>
        frac_loop block_44_32 11 8 10 8 0 mem3 = Some mem2 \<and> rd mem2 0 80 = Some (frac_pure win_44_32 18 11 10 (S_22_16 s @ ys)))"
    by (rule frac_stage [OF block_44_32_ok]) (use assms(1,3) l in simp_all)
  then obtain mem1 mem2 mem3 where m: "wr t 16 ys = Some mem1" "wr mem1 8 (S_22_16 s) = Some mem3"
    "rd mem3 118 8 = Some (drop 110 (S_22_16 s @ ys))" "frac_loop block_44_32 11 8 10 8 0 mem3 = Some mem2"
    "rd mem2 0 80 = Some (frac_pure win_44_32 18 11 10 (S_22_16 s @ ys))" by blast
  obtain out s3 where "WebRtcSpl_DownBy2IntToShort (frac_pure win_44_32 18 11 10 (S_22_16 s @ ys)) (S22_16_8 s) = Some (out, s3)"
    "length out = 40" "int16s_list out" using down_short_ok [of "frac_pure win_44_32 18 11 10 (S_22_16 s @ ys)" "S22_16_8 s"] by auto
  then show ?thesis using assms(3) l ys m by (simp add: sub_22_8_def WebRtcSpl_Resample44khzTo32khz_def SUB_BLOCKS_22_8_def)
qed

lemma sub_8_22_ok:
  assumes "98 \<le> length t" "length inp = 40" "length (S_16_11 s) = 8"
  shows "\<exists>y s'. sub_8_22 t inp s = Some (y, s') \<and> length y = 110 \<and> int16s_list y \<and> length (S_16_11 s') = 8"
proof -
  obtain ys s1 where ys: "WebRtcSpl_UpBy2ShortToInt inp (S22_8_16 s) = (ys, s1)" by (metis prod.collapse)
  then have l: "length ys = 80" using by2_lengths(2) [of inp "S22_8_16 s"] assms(2) by simp
  have "\<exists>mem1 mem2. length mem2 = length t \<and> wr t 18 ys = Some mem1 \<and>
      (\<exists>mem3. wr mem1 10 (S_16_11 s) = Some mem3 \<and> rd mem3 90 8 = Some (drop 80 (S_16_11 s @ ys)) \<and>
        frac_loop block_32_22 16 11 5 10 0 mem3 = Some mem2 \<and> rd mem2 0 55 = Some (frac_pure win_32_22 23 16 5 (S_16_11 s @ ys)))"
    by (rule frac_stage [OF block_32_22_ok]) (use assms(1,3) l in simp_all)
  then obtain mem1 mem2 mem3 where m: "wr t 18 ys = Some mem1" "wr mem1 10 (S_16_11 s) = Some mem3"
    "rd mem3 90 8 = Some (drop 80 (S_16_11 s @ ys))" "frac_loop block_32_22 16 11 5 10 0 mem3 = Some mem2"
    "rd mem2 0 55 = Some (frac_pure win_32_22 23 16 5 (S_16_11 s @ ys))" by blast
  then show ?thesis using assms(3) l ys up_short_range
    by (simp add: sub_8_22_def WebRtcSpl_32khzTo22khzIntToInt_def SUB_BLOCKS_8_22_def Let_def case_prod_beta)
qed

lemma short_dot_ok:
  assumes "in1 + 9 \<le> length mem" "8 \<le> in2" "in2 < length mem"
  shows "\<exists>a b. WebRtcSpl_DotProdIntToShort in1 in2 coefs mem = Some (a, b) \<and> int16s_list [a, b]"
  using assms sat16_range by (auto simp: WebRtcSpl_DotProdIntToShort_def rd_def int16s_list_def)

lemma short_block_ok:
  assumes "i + 23 \<le> length mem"
  shows "\<exists>ys. short_block_32_22 i mem = Some ys \<and> length ys = 11 \<and> int16s_list ys"
proof -
  let ?d = "\<lambda>a b j. WebRtcSpl_DotProdIntToShort (i + a) (i + b) (kCoefficients32To22 ! j) mem"
  obtain o1 o10 where 1: "?d 0 22 0 = Some (o1, o10)" "int16s_list [o1, o10]"
    using short_dot_ok [of "i + 0" mem "i + 22" "kCoefficients32To22 ! 0"] assms by auto
  obtain o2 o9 where 2: "?d 2 20 1 = Some (o2, o9)" "int16s_list [o2, o9]"
    using short_dot_ok [of "i + 2" mem "i + 20" "kCoefficients32To22 ! 1"] assms by auto
  obtain o3 o8 where 3: "?d 3 19 2 = Some (o3, o8)" "int16s_list [o3, o8]"
    using short_dot_ok [of "i + 3" mem "i + 19" "kCoefficients32To22 ! 2"] assms by auto
  obtain o4 o7 where 4: "?d 5 17 3 = Some (o4, o7)" "int16s_list [o4, o7]"
    using short_dot_ok [of "i + 5" mem "i + 17" "kCoefficients32To22 ! 3"] assms by auto
  obtain o5 o6 where 5: "?d 6 16 4 = Some (o5, o6)" "int16s_list [o5, o6]"
    using short_dot_ok [of "i + 6" mem "i + 16" "kCoefficients32To22 ! 4"] assms by auto
  have "rd mem (i + 3) 1 = Some (slice (i + 3) 1 mem)" using assms by (simp add: rd_def)
  then show ?thesis using 1 2 3 4 5 sat16_range by (simp add: short_block_32_22_def int16s_list_def)
qed

lemma short_frac_ok:
  "16 * K + 7 + i \<le> length mem \<Longrightarrow> \<exists>ys. WebRtcSpl_32khzTo22khzIntToShort i K mem = Some ys \<and> length ys = 11 * K \<and> int16s_list ys"
proof (induction K arbitrary: i)
  case (Suc K)
  obtain ys where ys: "short_block_32_22 i mem = Some ys" "length ys = 11" "int16s_list ys"
    using short_block_ok [of i mem] Suc.prems by auto
  obtain zs where zs: "WebRtcSpl_32khzTo22khzIntToShort (i + 16) K mem = Some zs" "length zs = 11 * K" "int16s_list zs"
    using Suc.IH [of "i + 16"] Suc.prems by auto
  have "int16s_list (ys @ zs)" using ys(3) zs(3) by (auto simp: int16s_list_def)
  then show ?case using ys zs by simp
qed (simp add: int16s_list_def)

lemma sub_16_22_ok:
  assumes "88 \<le> length t" "length inp = 40" "length (S_32_22 s) = 8"
  shows "\<exists>y s'. sub_16_22 t inp s = Some (y, s') \<and> length y = 55 \<and> int16s_list y \<and> length (S_32_22 s') = 8"
proof -
  obtain ys s1 where ys: "WebRtcSpl_UpBy2ShortToInt inp (S22_16_32 s) = (ys, s1)" by (metis prod.collapse)
  then have l: "length ys = 80" using by2_lengths(2) [of inp "S22_16_32 s"] assms(2) by simp
  define m1 where "m1 = blit 8 ys t"
  define m2 where "m2 = blit 0 (S_32_22 s) m1"
  have m: "wr t 8 ys = Some m1" "wr m1 0 (S_32_22 s) = Some m2" "length m2 = length t"
    using assms(1,3) l by (simp_all add: wr_def m1_def m2_def)
  obtain out where "WebRtcSpl_32khzTo22khzIntToShort 0 5 m2 = Some out" "length out = 55" "int16s_list out"
    using short_frac_ok [of 5 0 m2] m(3) assms(1) by auto
  moreover have "rd m2 80 8 = Some (slice 80 8 m2)" "length (slice 80 8 m2) = 8" using m(3) assms(1) by (simp_all add: rd_def)
  ultimately show ?thesis using ys m by (simp add: sub_16_22_def SUB_BLOCKS_16_22_def)
qed

text \<open>
  The converters between 22 kHz and 8 or 16 kHz turn 10 ms of samples into 10 ms at the other rate whatever
  is in their scratch memory, as long as it has 104, 88, 126 and 98 words: no access leaves it, the
  filter of the last one, which overwrites the first sample of its own window, still computes
  from the original samples, and the output is saturated.
\<close>

theorem converters_22khz_total:
  assumes "length x22 = 220" "length x16 = 160" "length x8 = 80"
    "length (S_44_32 s1) = 8" "length (S_32_22 s2) = 8" "length (S_22_16 s3) = 8" "length (S_16_11 s4) = 8"
    "104 \<le> length t1" "88 \<le> length t2" "126 \<le> length t3" "98 \<le> length t4"
  shows "(\<exists>ys s'. WebRtcSpl_Resample22khzTo16khz x22 s1 t1 = Some (ys, s') \<and> length ys = 160 \<and> int16s_list ys
      \<and> length (S_44_32 s') = 8)
    \<and> (\<exists>ys s'. WebRtcSpl_Resample16khzTo22khz x16 s2 t2 = Some (ys, s') \<and> length ys = 220 \<and> int16s_list ys
      \<and> length (S_32_22 s') = 8)
    \<and> (\<exists>ys s'. WebRtcSpl_Resample22khzTo8khz x22 s3 t3 = Some (ys, s') \<and> length ys = 80 \<and> int16s_list ys
      \<and> length (S_22_16 s') = 8)
    \<and> (\<exists>ys s'. WebRtcSpl_Resample8khzTo22khz x8 s4 t4 = Some (ys, s') \<and> length ys = 220 \<and> int16s_list ys
      \<and> length (S_16_11 s') = 8)"
proof (intro conjI)
  show "\<exists>ys s'. WebRtcSpl_Resample22khzTo16khz x22 s1 t1 = Some (ys, s') \<and> length ys = 160 \<and> int16s_list ys \<and> length (S_44_32 s') = 8"
    using sub_blocks_ok [where n = 44 and P = "\<lambda>s. length (S_44_32 s) = 8" and step = "sub_22_16 t1" and m = 32
        and inp = x22 and k = 5 and s = s1, OF sub_22_16_ok [OF assms(8)]] assms(1,4)
    by (simp add: WebRtcSpl_Resample22khzTo16khz_def SUB_BLOCKS_22_16_def)
  show "\<exists>ys s'. WebRtcSpl_Resample16khzTo22khz x16 s2 t2 = Some (ys, s') \<and> length ys = 220 \<and> int16s_list ys \<and> length (S_32_22 s') = 8"
    using sub_blocks_ok [where n = 40 and P = "\<lambda>s. length (S_32_22 s) = 8" and step = "sub_16_22 t2" and m = 55
        and inp = x16 and k = 4 and s = s2, OF sub_16_22_ok [OF assms(9)]] assms(2,5)
    by (simp add: WebRtcSpl_Resample16khzTo22khz_def SUB_BLOCKS_16_22_def)
  show "\<exists>ys s'. WebRtcSpl_Resample22khzTo8khz x22 s3 t3 = Some (ys, s') \<and> length ys = 80 \<and> int16s_list ys \<and> length (S_22_16 s') = 8"
    using sub_blocks_ok [where n = 110 and P = "\<lambda>s. length (S_22_16 s) = 8" and step = "sub_22_8 t3" and m = 40
        and inp = x22 and k = 2 and s = s3, OF sub_22_8_ok [OF assms(10)]] assms(1,6)
    by (simp add: WebRtcSpl_Resample22khzTo8khz_def SUB_BLOCKS_22_8_def)
  show "\<exists>ys s'. WebRtcSpl_Resample8khzTo22khz x8 s4 t4 = Some (ys, s') \<and> length ys = 220 \<and> int16s_list ys \<and> length (S_16_11 s') = 8"
    using sub_blocks_ok [where n = 40 and P = "\<lambda>s. length (S_16_11 s) = 8" and step = "sub_8_22 t4" and m = 110
        and inp = x8 and k = 2 and s = s4, OF sub_8_22_ok [OF assms(11)]] assms(3,7)
    by (simp add: WebRtcSpl_Resample8khzTo22khz_def SUB_BLOCKS_8_22_def)
qed

lemma converters_22khz_total_witness:
  "(\<exists>ys s'. WebRtcSpl_Resample22khzTo16khz (replicate 220 3) WebRtcSpl_ResetResample22khzTo16khz (replicate 104 7) = Some (ys, s')
      \<and> length ys = 160 \<and> int16s_list ys \<and> length (S_44_32 s') = 8)
    \<and> (\<exists>ys s'. WebRtcSpl_Resample16khzTo22khz (replicate 160 3) WebRtcSpl_ResetResample16khzTo22khz (replicate 88 7) = Some (ys, s')
      \<and> length ys = 220 \<and> int16s_list ys \<and> length (S_32_22 s') = 8)
    \<and> (\<exists>ys s'. WebRtcSpl_Resample22khzTo8khz (replicate 220 3) WebRtcSpl_ResetResample22khzTo8khz (replicate 126 7) = Some (ys, s')
      \<and> length ys = 80 \<and> int16s_list ys \<and> length (S_22_16 s') = 8)
    \<and> (\<exists>ys s'. WebRtcSpl_Resample8khzTo22khz (replicate 80 3) WebRtcSpl_ResetResample8khzTo22khz (replicate 98 7) = Some (ys, s')
      \<and> length ys = 220 \<and> int16s_list ys \<and> length (S_16_11 s') = 8)"
  by (rule converters_22khz_total) (simp_all add: WebRtcSpl_ResetResample22khzTo16khz_def WebRtcSpl_ResetResample16khzTo22khz_def
      WebRtcSpl_ResetResample22khzTo8khz_def WebRtcSpl_ResetResample8khzTo22khz_def zero8_def)

end
