(* ===== verification/Vad_Features.thy ===== *)
theory Vad_Features
  imports Spl_Resample
begin

text \<open>
  The features of the voice activity detector (\<open>common_audio/vad/vad_filterbank.c\<close>, and the
  down-sampling of \<open>vad_sp.c\<close>): the signal at 8 kHz is split into six bands by all-pass filters,
  and the energy of each band is taken in decibels.
\<close>

section \<open>Filters\<close>

text \<open>\<open>WebRtcVad_Downsampling\<close>: the input in pairs, one chain for each of the two samples.\<close>

definition kAllPassCoefsQ13 :: "int \<times> int" where "kAllPassCoefsQ13 = (5243, 1392)"

fun vad_downsample :: "int list \<Rightarrow> int \<times> int \<Rightarrow> int list \<times> int \<times> int" where
  "vad_downsample (x # y # inp) (tmp32_1, tmp32_2) =
     (let (c0, c1) = kAllPassCoefsQ13;
          tmp16_1 = s16 (shr tmp32_1 1 + shr (c0 * x) 14);
          tmp32_1 = x - shr (c0 * tmp16_1) 12;
          tmp16_2 = s16 (shr tmp32_2 1 + shr (c1 * y) 14);
          tmp32_2 = y - shr (c1 * tmp16_2) 12;
          (out, filter_state) = vad_downsample inp (tmp32_1, tmp32_2)
      in (s16 (tmp16_1 + tmp16_2) # out, filter_state))"
| "vad_downsample inp filter_state = ([], filter_state)"

definition WebRtcVad_Downsampling :: "int list \<Rightarrow> int \<times> int \<Rightarrow> nat \<Rightarrow> (int list \<times> int \<times> int) option" where
  "WebRtcVad_Downsampling signal_in filter_state in_length = do {
     xs \<leftarrow> rd signal_in 0 (2 * (in_length div 2));
     Some (vad_downsample xs filter_state) }"

text \<open>The high-pass filter; its state is two inputs and two outputs.\<close>

type_synonym hp_state = "int \<times> int \<times> int \<times> int"

fun HighPassFilter :: "int list \<Rightarrow> hp_state \<Rightarrow> int list \<times> hp_state" where
  "HighPassFilter [] filter_state = ([], filter_state)"
| "HighPassFilter (x # data_in) (f0, f1, f2, f3) =
     (let tmp32 = s32 (6631 * x + -13262 * f0 + 6631 * f1 - -7756 * f2 - 5620 * f3);
          y = s16 (shr tmp32 14);
          (ys, filter_state) = HighPassFilter data_in (x, f0, y, f2)
      in (y # ys, filter_state))"

text \<open>The all-pass filter, on every second sample of the input.\<close>

definition kAllPassCoefsQ15 :: "int \<times> int" where "kAllPassCoefsQ15 = (20972, 5571)"

fun all_pass_loop :: "int \<Rightarrow> int list \<Rightarrow> int \<Rightarrow> int list \<times> int" where
  "all_pass_loop filter_coefficient [] state32 = ([], state32)"
| "all_pass_loop filter_coefficient (x # data_in) state32 =
     (let tmp16 = s16 (shr (s32 (state32 + filter_coefficient * x)) 16);
          state32 = s32 (shl (s32 (shl x 14 - filter_coefficient * tmp16)) 1);
          (out, state32) = all_pass_loop filter_coefficient data_in state32
      in (tmp16 # out, state32))"

definition AllPassFilter :: "int list \<Rightarrow> int \<Rightarrow> int \<Rightarrow> int list \<times> int" where
  "AllPassFilter data_in filter_coefficient filter_state =
     (let (out, state32) = all_pass_loop filter_coefficient data_in (shl filter_state 16)
      in (out, s16 (shr state32 16)))"

text \<open>The upper and the lower half of the spectrum, at half the rate, and the two filter states.\<close>

definition SplitFilter :: "int list \<Rightarrow> int \<Rightarrow> int \<Rightarrow> int list \<times> int list \<times> int \<times> int" where
  "SplitFilter data_in upper_state lower_state =
     (let (upper, upper_state) = AllPassFilter (evens data_in) (fst kAllPassCoefsQ15) upper_state;
          (lower, lower_state) = AllPassFilter (odds data_in) (snd kAllPassCoefsQ15) lower_state
      in (map2 (\<lambda>x y. s16 (x - y)) upper lower, map2 (\<lambda>x y. s16 (y + x)) upper lower, upper_state, lower_state))"

section \<open>Energy in decibels\<close>

definition kLogConst :: int where "kLogConst = 24660"
definition kLogEnergyIntPart :: int where "kLogEnergyIntPart = 14336"
definition kMinEnergy :: int where "kMinEnergy = 10"
definition kOffsetVector :: "int list" where "kOffsetVector = [368, 368, 272, 176, 176, 176]"

text \<open>The result is the energy and the updated total energy.\<close>

definition LogOfEnergy :: "int list \<Rightarrow> int \<Rightarrow> int \<Rightarrow> int \<times> int" where
  "LogOfEnergy data_in offset total_energy =
     (let (en, scaling) = WebRtcSpl_Energy data_in; energy = u32 en
      in if energy = 0 then (offset, total_energy)
         else let normalizing_rshifts = 17 - int (WebRtcSpl_NormU32 energy);
                  tot_rshifts = int scaling + normalizing_rshifts;
                  energy = (if normalizing_rshifts < 0 then u32 (shl energy (nat (- normalizing_rshifts)))
                            else shr energy (nat normalizing_rshifts));
                  log2_energy = s16 (kLogEnergyIntPart + s16 (shr (energy AND 0x3FFF) 4));
                  log_energy = s16 (shr (kLogConst * log2_energy) 19 + shr (s16 tot_rshifts * kLogConst) 9);
                  log_energy = s16 ((if log_energy < 0 then 0 else log_energy) + offset)
              in (log_energy,
                  if total_energy \<le> kMinEnergy
                  then if tot_rshifts \<ge> 0 then s16 (total_energy + kMinEnergy + 1)
                       else s16 (total_energy + s16 (shr energy (nat (- tot_rshifts))))
                  else total_energy))"

section \<open>The six features\<close>

text \<open>
  The states of the band filters are lists of five, one for each split; the buffers of the
  code hold 120 and 60 samples, so a frame of more than 240 is out of bounds, and so is a split without a state.
\<close>

record feature_state =
  fs_upper :: "int list"
  fs_lower :: "int list"
  fs_hp :: hp_state

definition split_band :: "nat \<Rightarrow> int list \<Rightarrow> feature_state \<Rightarrow> int list \<times> int list \<times> feature_state" where
  "split_band band data_in s =
     (let (hp, lp, u, l) = SplitFilter data_in (fs_upper s ! band) (fs_lower s ! band)
      in (hp, lp, s\<lparr>fs_upper := (fs_upper s)[band := u], fs_lower := (fs_lower s)[band := l]\<rparr>))"

definition WebRtcVad_CalculateFeatures :: "feature_state \<Rightarrow> int list \<Rightarrow> nat \<Rightarrow> (int \<times> int list \<times> feature_state) option" where
  "WebRtcVad_CalculateFeatures self data_in data_length = do {
     data_in \<leftarrow> rd data_in 0 data_length;
     if data_length > 240 \<or> length (fs_upper self) < 5 \<or> length (fs_lower self) < 5 then None
     else let (hp_120, lp_120, s) = split_band 0 data_in self;
              (hp_60, lp_60, s) = split_band 1 hp_120 s;
              (f5, total_energy) = LogOfEnergy hp_60 (kOffsetVector ! 5) 0;
              (f4, total_energy) = LogOfEnergy lp_60 (kOffsetVector ! 4) total_energy;
              (hp_60, lp_60, s) = split_band 2 lp_120 s;
              (f3, total_energy) = LogOfEnergy hp_60 (kOffsetVector ! 3) total_energy;
              (hp_120, lp_120, s) = split_band 3 lp_60 s;
              (f2, total_energy) = LogOfEnergy hp_120 (kOffsetVector ! 2) total_energy;
              (hp_60, lp_60, s) = split_band 4 lp_120 s;
              (f1, total_energy) = LogOfEnergy hp_60 (kOffsetVector ! 1) total_energy;
              (hp_120, hp) = HighPassFilter lp_60 (fs_hp s);
              (f0, total_energy) = LogOfEnergy hp_120 (kOffsetVector ! 0) total_energy
          in Some (total_energy, [f0, f1, f2, f3, f4, f5], s\<lparr>fs_hp := hp\<rparr>) }"

end
