(* ===== verification/Vad.thy ===== *)
theory Vad
  imports Vad_Features
begin

text \<open>
  The voice activity detector (\<open>common_audio/vad\<close>: \<open>vad_core.c\<close>, \<open>vad_gmm.c\<close>, \<open>vad_sp.c\<close>,
  \<open>webrtc_vad.c\<close>): in each of six bands the energy is tested against two Gaussian mixtures, one of
  noise and one of speech, and the mixture of the winning hypothesis is moved towards what was heard.

  A handle is \<open>None\<close> for a null pointer.  The arrays of the instance are lists; index \<open>channel + 6 * k\<close> is
  the \<open>k\<close>-th Gaussian of a channel.  A shift by a negative amount or by 32 bits, undefined in
  C, is \<open>None\<close>.
\<close>

section \<open>The instance\<close>

definition kNumChannels :: nat where "kNumChannels = 6"
definition kNumGaussians :: nat where "kNumGaussians = 2"
definition vad_kInitCheck :: int where "vad_kInitCheck = 42"

record VadInstT =
  vd_vad :: int
  vd_downsampling_filter_states :: "(int \<times> int) \<times> (int \<times> int)"
  vd_state_48_to_8 :: State48khzTo8khz
  vd_noise_means :: "int list"
  vd_speech_means :: "int list"
  vd_noise_stds :: "int list"
  vd_speech_stds :: "int list"
  vd_frame_counter :: int
  vd_over_hang :: int
  vd_num_of_speech :: int
  vd_index_vector :: "int list"
  vd_low_value_vector :: "int list"
  vd_mean_value :: "int list"
  vd_features :: feature_state
  vd_over_hang_max_1 :: "int list"
  vd_over_hang_max_2 :: "int list"
  vd_individual :: "int list"
  vd_total :: "int list"
  vd_init_flag :: int

definition kSpectrumWeight :: "int list" where "kSpectrumWeight = [6, 8, 10, 12, 14, 16]"
definition kNoiseUpdateConst :: int where "kNoiseUpdateConst = 655"
definition kSpeechUpdateConst :: int where "kSpeechUpdateConst = 6554"
definition kBackEta :: int where "kBackEta = 154"
definition kMinimumDifference :: "int list" where "kMinimumDifference = [544, 544, 576, 576, 576, 576]"
definition kMaximumSpeech :: "int list" where "kMaximumSpeech = [11392, 11392, 11520, 11520, 11520, 11520]"
definition kMinimumMean :: "int list" where "kMinimumMean = [640, 768]"
definition kMaximumNoise :: "int list" where "kMaximumNoise = [9216, 9088, 8960, 8832, 8704, 8576]"
definition kNoiseDataWeights :: "int list" where "kNoiseDataWeights = [34, 62, 72, 66, 53, 25, 94, 66, 56, 62, 75, 103]"
definition kSpeechDataWeights :: "int list" where "kSpeechDataWeights = [48, 82, 45, 87, 50, 47, 80, 46, 83, 41, 78, 81]"
definition kNoiseDataMeans :: "int list" where
  "kNoiseDataMeans = [6738, 4892, 7065, 6715, 6771, 3369, 7646, 3863, 7820, 7266, 5020, 4362]"
definition kSpeechDataMeans :: "int list" where
  "kSpeechDataMeans = [8306, 10085, 10078, 11823, 11843, 6309, 9473, 9571, 10879, 7581, 8180, 7483]"
definition kNoiseDataStds :: "int list" where "kNoiseDataStds = [378, 1064, 493, 582, 688, 593, 474, 697, 475, 688, 421, 455]"
definition kSpeechDataStds :: "int list" where "kSpeechDataStds = [555, 505, 567, 524, 585, 1231, 509, 828, 492, 1540, 1079, 850]"
definition kMaxSpeechFrames :: int where "kMaxSpeechFrames = 6"
definition kMinStd :: int where "kMinStd = 384"

section \<open>Set-up\<close>

definition set_limits :: "int list \<Rightarrow> int list \<Rightarrow> int list \<Rightarrow> int list \<Rightarrow> VadInstT \<Rightarrow> VadInstT" where
  "set_limits max1 max2 loc glob self =
     self\<lparr>vd_over_hang_max_1 := max1, vd_over_hang_max_2 := max2, vd_individual := loc, vd_total := glob\<rparr>"

definition WebRtcVad_set_mode_core :: "VadInstT \<Rightarrow> int \<Rightarrow> int \<times> VadInstT" where
  "WebRtcVad_set_mode_core self mode =
     (if mode = 0 then (0, set_limits [8, 4, 3] [14, 7, 5] [24, 21, 24] [57, 48, 57] self)
      else if mode = 1 then (0, set_limits [8, 4, 3] [14, 7, 5] [37, 32, 37] [100, 80, 100] self)
      else if mode = 2 then (0, set_limits [6, 3, 2] [9, 5, 3] [82, 78, 82] [285, 260, 285] self)
      else if mode = 3 then (0, set_limits [6, 3, 2] [9, 5, 3] [94, 94, 94] [1100, 1050, 1100] self)
      else (-1, self))"

definition WebRtcVad_InitCore :: "VadInstT option \<Rightarrow> int \<times> VadInstT option" where
  "WebRtcVad_InitCore handle = (case handle of None \<Rightarrow> (-1, None) | Some self \<Rightarrow>
     let self = self\<lparr>vd_vad := 1, vd_frame_counter := 0, vd_over_hang := 0, vd_num_of_speech := 0,
           vd_downsampling_filter_states := ((0, 0), (0, 0)), vd_state_48_to_8 := WebRtcSpl_ResetResample48khzTo8khz,
           vd_noise_means := kNoiseDataMeans, vd_speech_means := kSpeechDataMeans,
           vd_noise_stds := kNoiseDataStds, vd_speech_stds := kSpeechDataStds,
           vd_low_value_vector := replicate (16 * kNumChannels) 10000, vd_index_vector := replicate (16 * kNumChannels) 0,
           vd_features := \<lparr>fs_upper = replicate 5 0, fs_lower = replicate 5 0, fs_hp = (0, 0, 0, 0)\<rparr>,
           vd_mean_value := replicate kNumChannels 1600\<rparr>;
         (r, self) = WebRtcVad_set_mode_core self 0
     in if r \<noteq> 0 then (-1, Some self) else (0, Some (self\<lparr>vd_init_flag := vad_kInitCheck\<rparr>)))"

text \<open>\<open>handle\<close> tells whether the pointer to the result is given, \<open>memory\<close> is what \<open>malloc\<close> returns.\<close>

definition WebRtcVad_Create :: "bool \<Rightarrow> VadInstT option \<Rightarrow> int \<times> VadInstT option" where
  "WebRtcVad_Create handle memory =
     (if \<not> handle then (-1, None)
      else case memory of None \<Rightarrow> (-1, None) | Some self \<Rightarrow> (0, Some (self\<lparr>vd_init_flag := 0\<rparr>)))"

definition WebRtcVad_Free :: "VadInstT option \<Rightarrow> int" where
  "WebRtcVad_Free handle = (if handle = None then -1 else 0)"

definition WebRtcVad_Init :: "VadInstT option \<Rightarrow> int \<times> VadInstT option" where
  "WebRtcVad_Init handle = WebRtcVad_InitCore handle"

definition WebRtcVad_set_mode :: "VadInstT option \<Rightarrow> int \<Rightarrow> int \<times> VadInstT option" where
  "WebRtcVad_set_mode handle mode = (case handle of None \<Rightarrow> (-1, None) | Some self \<Rightarrow>
     if vd_init_flag self \<noteq> vad_kInitCheck then (-1, Some self)
     else let (r, self) = WebRtcVad_set_mode_core self mode in (r, Some self))"

section \<open>The probability under a Gaussian\<close>

definition kCompVar :: int where "kCompVar = 22005"
definition kLog2Exp :: int where "kLog2Exp = 5909"

text \<open>The exponential: \<open>exp_value\<close> for the exponent \<open>tmp32\<close>.\<close>

definition gauss_exp :: "int \<Rightarrow> int option" where
  "gauss_exp tmp32 =
     (if tmp32 < kCompVar
      then let tmp16 = s16 (- s16 (shr (kLog2Exp * s16 tmp32) 12));
               exp_value = 0x0400 OR (tmp16 AND 0x03FF);
               tmp16 = shr (s16 (tmp16 XOR 0xFFFF)) 10 + 1
           in if tmp16 < 0 \<or> tmp16 > 31 then None else Some (shr exp_value (nat tmp16))
      else Some 0)"

text \<open>The result is the probability and \<open>delta\<close>.\<close>

definition WebRtcVad_GaussianProbability :: "int \<Rightarrow> int \<Rightarrow> int \<Rightarrow> (int \<times> int) option" where
  "WebRtcVad_GaussianProbability inp mean std =
     (let inv_std = s16 (WebRtcSpl_DivW32W16 (131072 + shr std 1) std);
          tmp16 = shr inv_std 2;
          inv_std2 = s16 (shr (tmp16 * tmp16) 2);
          tmp16 = s16 (s16 (shl inp 3) - mean);
          delta = s16 (shr (inv_std2 * tmp16) 10)
      in do { exp_value \<leftarrow> gauss_exp (shr (delta * tmp16) 9); Some (inv_std * exp_value, delta) })"

section \<open>The smallest features of the last hundred frames\<close>

definition kSmoothingDown :: int where "kSmoothingDown = 6553"
definition kSmoothingUp :: int where "kSmoothingUp = 32439"

text \<open>
  The sixteen cells of a channel and the one behind them.  The loop that closes the gap at \<open>i\<close> copies from
  the cell behind; what it copies from there is overwritten at once.
\<close>

definition fm_close :: "nat \<Rightarrow> int list \<Rightarrow> int list" where
  "fm_close i cells = take i cells @ slice (i + 1) (16 - i) cells @ drop 16 cells"

text \<open>Every value gets a frame older; those of a hundred frames are removed.\<close>

fun fm_age :: "nat \<Rightarrow> nat \<Rightarrow> int list \<Rightarrow> int list \<Rightarrow> int list \<times> int list" where
  "fm_age i 0 age smallest_values = (age, smallest_values)"
| "fm_age i (Suc n) age smallest_values =
     (if age ! i \<noteq> 100 then fm_age (i + 1) n (age[i := s16 (age ! i + 1)]) smallest_values
      else fm_age (i + 1) n ((fm_close i age)[15 := 101]) ((fm_close i smallest_values)[15 := 10000]))"

text \<open>The binary search for the place of a new value.\<close>

definition fm_position :: "int \<Rightarrow> int list \<Rightarrow> int" where
  "fm_position x v =
     (if x < v ! 7 then
        if x < v ! 3 then
          if x < v ! 1 then if x < v ! 0 then 0 else 1
          else if x < v ! 2 then 2 else 3
        else if x < v ! 5 then if x < v ! 4 then 4 else 5
        else if x < v ! 6 then 6 else 7
      else if x < v ! 15 then
        if x < v ! 11 then
          if x < v ! 9 then if x < v ! 8 then 8 else 9
          else if x < v ! 10 then 10 else 11
        else if x < v ! 13 then if x < v ! 12 then 12 else 13
        else if x < v ! 14 then 14 else 15
      else -1)"

definition fm_insert :: "int \<Rightarrow> int \<Rightarrow> int list \<Rightarrow> int list" where
  "fm_insert position x cells =
     (if position > -1
      then take (nat position) cells @ [x] @ slice (nat position) (15 - nat position) cells @ drop 16 cells
      else cells)"

text \<open>\<open>current_median\<close> and the smoothed minimum.\<close>

definition fm_smooth :: "int \<Rightarrow> int list \<Rightarrow> int \<Rightarrow> int" where
  "fm_smooth frame_counter smallest_values mean =
     (let current_median = (if frame_counter > 2 then smallest_values ! 2
            else if frame_counter > 0 then smallest_values ! 0 else 1600);
          alpha = (if frame_counter > 0 then if current_median < mean then kSmoothingDown else kSmoothingUp else 0)
      in s16 (shr (s32 ((alpha + 1) * mean + (32767 - alpha) * current_median + 16384)) 15))"

text \<open>
  For the last channel the cell behind lies past the end of both arrays (\<open>vad_sp.c\<close>, line 89): what is read there is not
  known, and \<open>behind\<close> stands for it.  Every other access outside of an array is \<open>None\<close>.
\<close>

definition WebRtcVad_FindMinimum :: "int \<times> int \<Rightarrow> VadInstT \<Rightarrow> int \<Rightarrow> nat \<Rightarrow> (int \<times> VadInstT) option" where
  "WebRtcVad_FindMinimum behind self feature_value channel =
     (let offset = channel * 16 in
      if length (vd_index_vector self) < offset + 16 \<or> length (vd_low_value_vector self) < offset + 16
        \<or> length (vd_mean_value self) \<le> channel then None
      else let
          age = slice offset 17 (vd_index_vector self @ [fst behind]);
          smallest_values = slice offset 17 (vd_low_value_vector self @ [snd behind]);
          (age, smallest_values) = fm_age 0 16 age smallest_values;
          position = fm_position feature_value smallest_values;
          smallest_values = fm_insert position feature_value smallest_values;
          age = fm_insert position 1 age;
          mean = fm_smooth (vd_frame_counter self) smallest_values (vd_mean_value self ! channel)
      in Some (mean, self\<lparr>vd_index_vector := blit offset (take 16 age) (vd_index_vector self),
            vd_low_value_vector := blit offset (take 16 smallest_values) (vd_low_value_vector self),
            vd_mean_value := (vd_mean_value self)[channel := mean]\<rparr>))"

section \<open>The test of a channel\<close>

record gmm_chan =
  gc_deltaN :: "int list"
  gc_deltaS :: "int list"
  gc_ngprvec :: "int list"
  gc_sgprvec :: "int list"
  gc_log_likelihood_ratio :: int

text \<open>The probability of a feature under both Gaussians of a mixture: of each, their sum, and the deltas.\<close>

definition gmm_mixture :: "int \<Rightarrow> nat \<Rightarrow> int list \<Rightarrow> int list \<Rightarrow> int list \<Rightarrow> (int \<times> int \<times> int list) option" where
  "gmm_mixture feature channel means stds weights =
     (if length means \<le> channel + 6 \<or> length stds \<le> channel + 6 \<or> length weights \<le> channel + 6 then None
      else do {
     (p0, d0) \<leftarrow> WebRtcVad_GaussianProbability feature (means ! channel) (stds ! channel);
     (p1, d1) \<leftarrow> WebRtcVad_GaussianProbability feature (means ! (channel + 6)) (stds ! (channel + 6));
     let q0 = s32 (weights ! channel * p0); q1 = s32 (weights ! (channel + 6) * p1)
     in Some (q0, s32 (q0 + q1), [d0, d1]) })"

text \<open>The conditional probabilities of the two Gaussians in Q14, and what they are when none is likely.\<close>

definition gmm_conditional :: "int \<Rightarrow> int \<Rightarrow> int list \<Rightarrow> int list" where
  "gmm_conditional q0 h unlikely =
     (let h = s16 (shr h 12)
      in if h > 0 then let g = s16 (WebRtcSpl_DivW32W16 (s32 (shl (q0 AND 0xFFFFF000) 2)) h) in [g, s16 (16384 - g)]
         else unlikely)"

definition gmm_test :: "VadInstT \<Rightarrow> int list \<Rightarrow> nat \<Rightarrow> gmm_chan option" where
  "gmm_test self features channel = do {
     feature \<leftarrow> get features channel;
     (n0, h0_test, deltaN) \<leftarrow> gmm_mixture feature channel (vd_noise_means self) (vd_noise_stds self) kNoiseDataWeights;
     (s0, h1_test, deltaS) \<leftarrow> gmm_mixture feature channel (vd_speech_means self) (vd_speech_stds self) kSpeechDataWeights;
     let shifts_h0 = (if h0_test = 0 then 31 else int (WebRtcSpl_NormW32 h0_test));
         shifts_h1 = (if h1_test = 0 then 31 else int (WebRtcSpl_NormW32 h1_test))
     in Some \<lparr>gc_deltaN = deltaN, gc_deltaS = deltaS, gc_ngprvec = gmm_conditional n0 h0_test [16384, 0],
          gc_sgprvec = gmm_conditional s0 h1_test [0, 0], gc_log_likelihood_ratio = s16 (shifts_h0 - shifts_h1)\<rparr> }"

fun gmm_tests :: "VadInstT \<Rightarrow> int list \<Rightarrow> nat list \<Rightarrow> gmm_chan list option" where
  "gmm_tests self features [] = Some []"
| "gmm_tests self features (channel # channels) = do {
     t \<leftarrow> gmm_test self features channel; ts \<leftarrow> gmm_tests self features channels; Some (t # ts) }"

text \<open>The decision of a frame: one channel is sure of speech, or their weighted sum is.\<close>

definition gmm_decide :: "int \<Rightarrow> int \<Rightarrow> gmm_chan list \<Rightarrow> bool" where
  "gmm_decide individualTest totalTest ts \<longleftrightarrow>
     (\<exists>t \<in> set ts. shl (gc_log_likelihood_ratio t) 2 > individualTest)
     \<or> s32 (sum_list (map2 (\<lambda>t w. gc_log_likelihood_ratio t * w) ts kSpectrumWeight)) \<ge> totalTest"

section \<open>The update of a channel\<close>

text \<open>The weighted average of the two means of a channel, moved by \<open>offset\<close>.\<close>

definition WeightedAverage :: "int list \<Rightarrow> nat \<Rightarrow> int \<Rightarrow> int list \<Rightarrow> int \<times> int list" where
  "WeightedAverage data channel offset weights =
     (let data = data[channel := s16 (data ! channel + offset), channel + 6 := s16 (data ! (channel + 6) + offset)]
      in (s32 (data ! channel * weights ! channel + data ! (channel + 6) * weights ! (channel + 6)), data))"

text \<open>
  The mean of a noise Gaussian: moved towards a feature of noise, then towards the minimum of the last
  frames, and kept in its range.
\<close>

definition noise_mean_update :: "bool \<Rightarrow> gmm_chan \<Rightarrow> int \<Rightarrow> int \<Rightarrow> nat \<Rightarrow> nat \<Rightarrow> int \<Rightarrow> int" where
  "noise_mean_update vadflag t feature_minimum tmp1_s16 channel k nmk =
     (let delt = s16 (shr (gc_ngprvec t ! k * gc_deltaN t ! k) 11);
          nmk2 = (if \<not> vadflag then s16 (nmk + s16 (shr (delt * kNoiseUpdateConst) 22)) else nmk);
          ndelt = s16 (shl feature_minimum 4 - tmp1_s16);
          nmk3 = s16 (nmk2 + s16 (shr (ndelt * kBackEta) 9));
          lo = s16 (shl (int k + 5) 7); hi = s16 (shl (72 + int k - int channel) 7);
          nmk3 = (if nmk3 < lo then lo else nmk3)
      in if nmk3 > hi then hi else nmk3)"

definition speech_mean_update :: "gmm_chan \<Rightarrow> int \<Rightarrow> nat \<Rightarrow> int \<Rightarrow> int" where
  "speech_mean_update t maxspe k smk =
     (let delt = s16 (shr (gc_sgprvec t ! k * gc_deltaS t ! k) 11);
          tmp_s16 = s16 (shr (delt * kSpeechUpdateConst) 21);
          smk2 = s16 (smk + shr (tmp_s16 + 1) 1);
          maxmu = s16 (maxspe + 640);
          smk2 = (if smk2 < kMinimumMean ! k then kMinimumMean ! k else smk2)
      in if smk2 > maxmu then maxmu else smk2)"

definition speech_std_update :: "gmm_chan \<Rightarrow> int \<Rightarrow> nat \<Rightarrow> int \<Rightarrow> int \<Rightarrow> int" where
  "speech_std_update t feature k smk ssk =
     (let tmp_s16 = s16 (feature - s16 (shr (smk + 4) 3));
          tmp2_s32 = s32 (shr (gc_deltaS t ! k * tmp_s16) 3 - 4096);
          tmp2_s32 = shr (s32 (shr (gc_sgprvec t ! k) 2 * tmp2_s32)) 4;
          tmp_s16 = (if tmp2_s32 > 0 then s16 (WebRtcSpl_DivW32W16 tmp2_s32 (s16 (ssk * 10)))
                     else s16 (- s16 (WebRtcSpl_DivW32W16 (- tmp2_s32) (s16 (ssk * 10)))));
          ssk = s16 (ssk + shr (s16 (tmp_s16 + 128)) 8)
      in if ssk < kMinStd then kMinStd else ssk)"

definition noise_std_update :: "gmm_chan \<Rightarrow> int \<Rightarrow> nat \<Rightarrow> int \<Rightarrow> int \<Rightarrow> int" where
  "noise_std_update t feature k nmk nsk =
     (let tmp_s16 = s16 (feature - shr nmk 3);
          tmp1_s32 = s32 (shr (gc_deltaN t ! k * tmp_s16) 3 - 4096);
          tmp1_s32 = shr (s32 (s16 (shr (gc_ngprvec t ! k + 2) 2) * tmp1_s32)) 14;
          tmp_s16 = (if tmp1_s32 > 0 then s16 (WebRtcSpl_DivW32W16 tmp1_s32 nsk)
                     else s16 (- s16 (WebRtcSpl_DivW32W16 (- tmp1_s32) nsk)));
          nsk = s16 (nsk + shr (s16 (tmp_s16 + 32)) 6)
      in if nsk < kMinStd then kMinStd else nsk)"

text \<open>Both Gaussians of a channel: a frame of speech moves those of speech, a frame of noise those of noise.\<close>

definition gmm_update_k :: "bool \<Rightarrow> gmm_chan \<Rightarrow> int \<Rightarrow> int \<Rightarrow> int \<Rightarrow> int \<Rightarrow> nat \<Rightarrow> nat \<Rightarrow> VadInstT \<Rightarrow> VadInstT" where
  "gmm_update_k vadflag t feature feature_minimum tmp1_s16 maxspe channel k self =
     (let g = channel + 6 * k; nmk = vd_noise_means self ! g; smk = vd_speech_means self ! g;
          self = self\<lparr>vd_noise_means := (vd_noise_means self)
            [g := noise_mean_update vadflag t feature_minimum tmp1_s16 channel k nmk]\<rparr>
      in if vadflag
         then self\<lparr>vd_speech_means := (vd_speech_means self)[g := speech_mean_update t maxspe k smk],
                vd_speech_stds := (vd_speech_stds self)[g := speech_std_update t feature k smk (vd_speech_stds self ! g)]\<rparr>
         else self\<lparr>vd_noise_stds := (vd_noise_stds self)[g := noise_std_update t feature k nmk (vd_noise_stds self ! g)]\<rparr>)"

text \<open>The models are moved apart when they are too close.\<close>

definition gmm_separate :: "nat \<Rightarrow> VadInstT \<Rightarrow> int \<times> int \<times> VadInstT" where
  "gmm_separate channel self =
     (let noise_global_mean = fst (WeightedAverage (vd_noise_means self) channel 0 kNoiseDataWeights);
          speech_global_mean = fst (WeightedAverage (vd_speech_means self) channel 0 kSpeechDataWeights);
          diff = s16 (s16 (shr speech_global_mean 9) - s16 (shr noise_global_mean 9))
      in if diff < kMinimumDifference ! channel
         then let tmp_s16 = s16 (kMinimumDifference ! channel - diff);
                  tmp1_s16 = s16 (shr (13 * tmp_s16) 2); tmp2_s16 = s16 (shr (3 * tmp_s16) 2);
                  (speech_global_mean, speech) = WeightedAverage (vd_speech_means self) channel tmp1_s16 kSpeechDataWeights;
                  (noise_global_mean, noise) = WeightedAverage (vd_noise_means self) channel (s16 (- tmp2_s16)) kNoiseDataWeights
              in (noise_global_mean, speech_global_mean, self\<lparr>vd_speech_means := speech, vd_noise_means := noise\<rparr>)
         else (noise_global_mean, speech_global_mean, self))"

text \<open>Means above the limit \<open>maximum\<close> of their average are moved down by the excess.\<close>

definition gmm_limit :: "int \<Rightarrow> int \<Rightarrow> nat \<Rightarrow> int list \<Rightarrow> int list" where
  "gmm_limit maximum global_mean channel means =
     (let tmp2_s16 = s16 (shr global_mean 7)
      in if tmp2_s16 > maximum
         then let tmp2_s16 = s16 (tmp2_s16 - maximum)
              in means[channel := s16 (means ! channel - tmp2_s16), channel + 6 := s16 (means ! (channel + 6) - tmp2_s16)]
         else means)"

text \<open>The four tables of the models hold both Gaussians of a channel.\<close>

definition gmm_tables :: "nat \<Rightarrow> VadInstT \<Rightarrow> bool" where
  "gmm_tables channel self \<longleftrightarrow> channel < kNumChannels \<and> channel + 6 < length (vd_noise_means self) \<and> channel + 6 < length (vd_speech_means self)
     \<and> channel + 6 < length (vd_noise_stds self) \<and> channel + 6 < length (vd_speech_stds self)"

definition gmm_update :: "int \<times> int \<Rightarrow> bool \<Rightarrow> gmm_chan \<Rightarrow> int \<Rightarrow> int \<Rightarrow> nat \<Rightarrow> VadInstT \<Rightarrow> VadInstT option" where
  "gmm_update behind vadflag t feature maxspe channel self = do {
     (feature_minimum, self) \<leftarrow> WebRtcVad_FindMinimum behind self feature channel;
     if \<not> gmm_tables channel self then None
     else let
          (noise_global_mean, noise) = WeightedAverage (vd_noise_means self) channel 0 kNoiseDataWeights;
          tmp1_s16 = s16 (shr noise_global_mean 6);
          self = self\<lparr>vd_noise_means := noise\<rparr>;
          self = gmm_update_k vadflag t feature feature_minimum tmp1_s16 maxspe channel 0 self;
          self = gmm_update_k vadflag t feature feature_minimum tmp1_s16 maxspe channel 1 self;
          (noise_global_mean, speech_global_mean, self) = gmm_separate channel self
      in Some (self\<lparr>vd_speech_means := gmm_limit (kMaximumSpeech ! channel) speech_global_mean channel (vd_speech_means self),
           vd_noise_means := gmm_limit (kMaximumNoise ! channel) noise_global_mean channel (vd_noise_means self)\<rparr>) }"

text \<open>The channels one after the other: the limit \<open>maxspe\<close> in use is the one of the channel before.\<close>

fun gmm_updates :: "int \<times> int \<Rightarrow> bool \<Rightarrow> int list \<Rightarrow> int \<Rightarrow> nat \<Rightarrow> gmm_chan list \<Rightarrow> VadInstT \<Rightarrow> VadInstT option" where
  "gmm_updates behind vadflag features maxspe channel [] self = Some self"
| "gmm_updates behind vadflag features maxspe channel (t # ts) self = do {
     feature \<leftarrow> get features channel;
     self \<leftarrow> gmm_update behind vadflag t feature maxspe channel self;
     gmm_updates behind vadflag features (kMaximumSpeech ! channel) (channel + 1) ts self }"

section \<open>The decision\<close>

text \<open>The hysteresis: after speech the decision stays for \<open>over_hang\<close> frames.\<close>

definition vad_smooth :: "int \<Rightarrow> int \<Rightarrow> bool \<Rightarrow> VadInstT \<Rightarrow> int \<times> VadInstT" where
  "vad_smooth overhead1 overhead2 vadflag self =
     (if \<not> vadflag
      then if vd_over_hang self > 0
           then (s16 (2 + vd_over_hang self), self\<lparr>vd_over_hang := vd_over_hang self - 1, vd_num_of_speech := 0\<rparr>)
           else (0, self\<lparr>vd_num_of_speech := 0\<rparr>)
      else let num_of_speech = s16 (vd_num_of_speech self + 1)
      in if num_of_speech > kMaxSpeechFrames
         then (1, self\<lparr>vd_num_of_speech := kMaxSpeechFrames, vd_over_hang := overhead2\<rparr>)
         else (1, self\<lparr>vd_num_of_speech := num_of_speech, vd_over_hang := overhead1\<rparr>))"

definition GmmProbability :: "int \<times> int \<Rightarrow> VadInstT \<Rightarrow> int list \<Rightarrow> int \<Rightarrow> int \<Rightarrow> (int \<times> VadInstT) option" where
  "GmmProbability behind self features total_power frame_length =
     (let j = (if frame_length = 80 then 0 else if frame_length = 160 then 1 else 2)
      in do {
        overhead1 \<leftarrow> get (vd_over_hang_max_1 self) j; overhead2 \<leftarrow> get (vd_over_hang_max_2 self) j;
        individualTest \<leftarrow> get (vd_individual self) j; totalTest \<leftarrow> get (vd_total self) j;
        (vadflag, self') \<leftarrow>
          (if total_power > kMinEnergy
           then do {
             ts \<leftarrow> gmm_tests self features [0, 1, 2, 3, 4, 5];
             let vadflag = gmm_decide individualTest totalTest ts in do {
             self' \<leftarrow> gmm_updates behind vadflag features 12800 0 ts self;
             Some (vadflag, self'\<lparr>vd_frame_counter := s32 (vd_frame_counter self' + 1)\<rparr>) } }
           else Some (False, self));
        Some (vad_smooth overhead1 overhead2 vadflag self') })"

definition WebRtcVad_CalcVad8khz :: "int \<times> int \<Rightarrow> VadInstT \<Rightarrow> int list \<Rightarrow> nat \<Rightarrow> (int \<times> VadInstT) option" where
  "WebRtcVad_CalcVad8khz behind inst speech_frame frame_length = do {
     (total_power, feature_vector, fs) \<leftarrow> WebRtcVad_CalculateFeatures (vd_features inst) speech_frame frame_length;
     (r, inst) \<leftarrow> GmmProbability behind (inst\<lparr>vd_features := fs\<rparr>) feature_vector total_power (int frame_length);
     Some (r, inst\<lparr>vd_vad := r\<rparr>) }"

definition WebRtcVad_CalcVad16khz :: "int \<times> int \<Rightarrow> VadInstT \<Rightarrow> int list \<Rightarrow> nat \<Rightarrow> (int \<times> VadInstT) option" where
  "WebRtcVad_CalcVad16khz behind inst speech_frame frame_length = do {
     (speechNB, st) \<leftarrow> WebRtcVad_Downsampling speech_frame (fst (vd_downsampling_filter_states inst)) frame_length;
     WebRtcVad_CalcVad8khz behind (inst\<lparr>vd_downsampling_filter_states := (st, snd (vd_downsampling_filter_states inst))\<rparr>)
       speechNB (frame_length div 2) }"

definition WebRtcVad_CalcVad32khz :: "int \<times> int \<Rightarrow> VadInstT \<Rightarrow> int list \<Rightarrow> nat \<Rightarrow> (int \<times> VadInstT) option" where
  "WebRtcVad_CalcVad32khz behind inst speech_frame frame_length = do {
     let (st0, st2) = vd_downsampling_filter_states inst in do {
     (speechWB, st2) \<leftarrow> WebRtcVad_Downsampling speech_frame st2 frame_length;
     (speechNB, st0) \<leftarrow> WebRtcVad_Downsampling speechWB st0 (frame_length div 2);
     WebRtcVad_CalcVad8khz behind (inst\<lparr>vd_downsampling_filter_states := (st0, st2)\<rparr>) speechNB (frame_length div 2 div 2) } }"

text \<open>
  48 kHz: the loop over blocks of 10 ms passes the same pointer every time.  The scratch memory is
  zero at first; the converter fills what it reads of it.
\<close>

fun vad_resample_loop :: "nat \<Rightarrow> int list \<Rightarrow> State48khzTo8khz \<Rightarrow> (int list \<times> State48khzTo8khz) option" where
  "vad_resample_loop 0 speech_frame st = Some ([], st)"
| "vad_resample_loop (Suc n) speech_frame st = do {
     (x, st) \<leftarrow> WebRtcSpl_Resample48khzTo8khz speech_frame st (replicate (480 + 256) 0);
     (y, st) \<leftarrow> vad_resample_loop n speech_frame st;
     Some (x @ y, st) }"

definition WebRtcVad_CalcVad48khz :: "int \<times> int \<Rightarrow> VadInstT \<Rightarrow> int list \<Rightarrow> nat \<Rightarrow> (int \<times> VadInstT) option" where
  "WebRtcVad_CalcVad48khz behind inst speech_frame frame_length = do {
     (speech_nb, st) \<leftarrow> vad_resample_loop (frame_length div 480) speech_frame (vd_state_48_to_8 inst);
     WebRtcVad_CalcVad8khz behind (inst\<lparr>vd_state_48_to_8 := st\<rparr>) speech_nb (frame_length div 6) }"

section \<open>The interface\<close>

definition kValidRates :: "int list" where "kValidRates = [8000, 16000, 32000, 48000]"
definition kMaxFrameLengthMs :: int where "kMaxFrameLengthMs = 30"

definition WebRtcVad_ValidRateAndFrameLength :: "int \<Rightarrow> int \<Rightarrow> int" where
  "WebRtcVad_ValidRateAndFrameLength rate frame_length =
     (case List.find (\<lambda>r. r = rate) kValidRates of
        None \<Rightarrow> -1
      | Some r \<Rightarrow> if \<exists>ms \<in> set [10, 20, kMaxFrameLengthMs]. frame_length = r div 1000 * ms then 0 else -1)"

text \<open>The audio frame is \<open>None\<close> for a null pointer.\<close>

definition WebRtcVad_Process ::
    "int \<times> int \<Rightarrow> VadInstT option \<Rightarrow> int \<Rightarrow> int list option \<Rightarrow> int \<Rightarrow> (int \<times> VadInstT option) option" where
  "WebRtcVad_Process behind handle fs audio_frame frame_length =
     (case handle of None \<Rightarrow> Some (-1, None) | Some self \<Rightarrow>
        if vd_init_flag self \<noteq> vad_kInitCheck then Some (-1, Some self)
        else case audio_frame of None \<Rightarrow> Some (-1, Some self) | Some frame \<Rightarrow>
          if WebRtcVad_ValidRateAndFrameLength fs frame_length \<noteq> 0 then Some (-1, Some self)
          else do {
            (vad, self) \<leftarrow> (let n = nat frame_length in
               if fs = 48000 then WebRtcVad_CalcVad48khz behind self frame n
               else if fs = 32000 then WebRtcVad_CalcVad32khz behind self frame n
               else if fs = 16000 then WebRtcVad_CalcVad16khz behind self frame n
               else if fs = 8000 then WebRtcVad_CalcVad8khz behind self frame n
               else Some (-1, self));
            Some (if vad > 0 then 1 else vad, Some self) })"

end
