(* ===== verification/Vad_Models.thy ===== *)
theory Vad_Models
  imports Vad
begin

text \<open>
  The Gaussian models of the voice activity detector stay within reach of the features, so that
  the exponent of a probability is never negative and never shifts by 32 bits.
\<close>

section \<open>The probability is defined\<close>

lemma s16_xor: "s16 (x XOR 65535) = s16 (NOT x)"
proof -
  have m: "(65535 :: int) = mask 16" by (simp add: mask_eq_exp_minus_1)
  have "take_bit 16 (x XOR 65535) = take_bit 16 (NOT x)" unfolding m by (rule bit_eqI) (auto simp: bit_simps)
  then have "u16 (x XOR 65535) = u16 (NOT x)" by (simp add: u16_def take_bit_eq_mod)
  then show ?thesis by (simp add: s16_cases)
qed

lemma gauss_exp_ok:
  assumes "0 \<le> t"
  shows "\<exists>e. gauss_exp t = Some e \<and> 0 \<le> e \<and> e \<le> 2047"
proof (cases "t < kCompVar")
  case True
  define v where "v = shr (kLog2Exp * t) 12"
  have t: "t < 22005" using True by (simp add: kCompVar_def)
  have "kLog2Exp * t div 4096 \<le> 5909 * 22004 div 4096" using t by (simp add: kLog2Exp_def zdiv_mono1)
  then have v: "0 \<le> v" "v \<le> 31743"
    using assms by (simp_all add: v_def drop_bit_eq_div kLog2Exp_def pos_imp_zdiv_nonneg_iff)
  have s: "s16 t = t" "s16 v = v" "s16 (- v) = - v" using assms t v by (simp_all add: s16_id)
  have x: "s16 (- v XOR 65535) = v - 1" using v by (simp add: s16_xor not_int_def s16_id)
  define k where "k = shr (v - 1) 10 + 1"
  have k: "0 \<le> k" "k \<le> 31" using v zdiv_mono1 [of "v - 1" 31742 1024] zdiv_mono1 [of "-1" "v - 1" 1024]
    by (simp_all add: k_def drop_bit_eq_div)
  define e where "e = 1024 OR (- v AND 1023)"
  have "0 \<le> - v AND 1023" "- v AND 1023 \<le> 1023" using AND_upper2 [of 1023 "- v"] by simp_all
  then have e: "0 \<le> e" "e \<le> 2047"
    using OR_upper [of 1024 11 "- v AND 1023"] by (simp_all add: e_def)
  have "shr e (nat k) \<le> e" using e(1) by (cases "e = 0") (simp_all add: drop_bit_eq_div int_div_le_self)
  then have "0 \<le> shr e (nat k) \<and> shr e (nat k) \<le> 2047" using e by simp
  moreover have "gauss_exp t = Some (shr e (nat k))"
    using True k by (simp only: gauss_exp_def Let_def s v_def [symmetric] x k_def [symmetric] e_def [symmetric] if_True) simp
  ultimately show ?thesis by blast
qed (simp add: gauss_exp_def)

lemma inverse_std:
  assumes "378 \<le> std" "std < 32768"
  shows "0 \<le> s16 (WebRtcSpl_DivW32W16 (131072 + shr std 1) std)" "s16 (WebRtcSpl_DivW32W16 (131072 + shr std 1) std) \<le> 347"
proof -
  define d where "d = std div 2"
  have d: "0 \<le> d" "2 * d \<le> std" using assms(1) by (simp_all add: d_def)
  have q: "(131072 + d) div std < 348" by (rule int_div_less) (use assms d in linarith)+
  have "0 \<le> (131072 + d) div std" using assms d by (simp add: pos_imp_zdiv_nonneg_iff)
  moreover have "(131072 + shr std 1) sdiv std = (131072 + d) div std"
    using assms d by (simp add: signed_divide_int_def drop_bit_eq_div d_def)
  ultimately show "0 \<le> s16 (WebRtcSpl_DivW32W16 (131072 + shr std 1) std)"
    "s16 (WebRtcSpl_DivW32W16 (131072 + shr std 1) std) \<le> 347"
    using q assms by (simp_all add: WebRtcSpl_DivW32W16_def s32_id s16_id)
qed

text \<open>
  The probability of a feature is defined for every standard deviation the models take, as long as the
  feature and the mean are at most 18146 (in Q7, 141 dB) apart.
\<close>

lemma gaussian_ok:
  assumes "378 \<le> std" "std < 32768" "-4096 \<le> inp" "inp < 4096" "\<bar>8 * inp - mean\<bar> \<le> 18146"
  shows "\<exists>p delta. WebRtcVad_GaussianProbability inp mean std = Some (p, delta)"
proof -
  define i where "i = s16 (WebRtcSpl_DivW32W16 (131072 + shr std 1) std)"
  define d where "d = 8 * inp - mean"
  have i: "0 \<le> i" "i \<le> 347" using inverse_std [OF assms(1,2)] by (simp_all add: i_def)
  have h: "0 \<le> shr i 2" "shr i 2 \<le> 86" using i zdiv_mono1 [of i 347 4] by (simp_all add: drop_bit_eq_div)
  have hh: "0 \<le> shr i 2 * shr i 2" "shr i 2 * shr i 2 \<le> 86 * 86" using h mult_mono [of "shr i 2" 86 "shr i 2" 86] by simp_all
  then have j: "0 \<le> shr (shr i 2 * shr i 2) 2" "shr (shr i 2 * shr i 2) 2 \<le> 1849"
    using zdiv_mono1 [of "shr i 2 * shr i 2" "86 * 86" 4] by (simp_all add: drop_bit_eq_div [where n = 2 and 'a = int] pos_imp_zdiv_nonneg_iff)
  define k where "k = shr (shr i 2 * shr i 2) 2"
  have k: "0 \<le> k" "k \<le> 1849" using j by (simp_all add: k_def)
  then have ks: "s16 k = k" by (simp add: s16_id)
  have d: "\<bar>d\<bar> \<le> 18146" using assms(5) by (simp add: d_def)
  have sd: "s16 (s16 (shl inp 3) - mean) = d"
    using assms(3,4) d by (simp add: push_bit_eq_mult s16_id d_def mult.commute)
  have kd: "\<bar>k * d\<bar> \<le> 1849 * 18146" unfolding abs_mult using k d by (intro mult_mono) simp_all
  define e where "e = shr (k * d) 10"
  have e: "-32768 \<le> e" "e < 32768"
    using kd zdiv_mono1 [of "k * d" "1849 * 18146" 1024] zdiv_mono1 [of "- (1849 * 18146)" "k * d" 1024]
    by (simp_all add: e_def drop_bit_eq_div)
  have "0 \<le> e * d"
  proof (cases "0 \<le> d")
    case True
    then show ?thesis using k by (simp add: e_def)
  next
    case False
    then have "e \<le> 0" using k zdiv_mono1 [of "k * d" 0 1024]
      by (simp add: e_def drop_bit_eq_div mult_nonneg_nonpos)
    then show ?thesis using False by (simp add: mult_nonpos_nonpos)
  qed
  then obtain x where "gauss_exp (shr (e * d) 9) = Some x" using gauss_exp_ok [of "shr (e * d) 9"] by auto
  moreover have se: "s16 e = e" using e by (simp add: s16_id)
  have "WebRtcVad_GaussianProbability inp mean std = gauss_exp (shr (e * d) 9) \<bind> (\<lambda>ev. Some (i * ev, e))"
    by (simp only: WebRtcVad_GaussianProbability_def Let_def i_def [symmetric] k_def [symmetric] ks sd e_def [symmetric] se)
  ultimately show ?thesis by simp
qed

section \<open>The models of a channel\<close>

definition noise_ok :: "int \<Rightarrow> bool" where
  "noise_ok n \<longleftrightarrow> -1200 \<le> n \<and> n \<le> 9344"

definition speech_ok :: "nat \<Rightarrow> int \<Rightarrow> int \<Rightarrow> bool" where
  "speech_ok c a b \<longleftrightarrow> 640 \<le> a \<and> 640 \<le> b \<and> \<bar>a - b\<bar> \<le> (if c = 0 then 12800 else 11520)
     \<and> a * kSpeechDataWeights ! c + b * kSpeechDataWeights ! (c + 6) < 128 * (kMaximumSpeech ! c + 1)"

definition std_ok :: "int \<Rightarrow> bool" where
  "std_ok s \<longleftrightarrow> 378 \<le> s \<and> s < 32768"

lemma channel_cases: "c < 6 \<Longrightarrow> c = 0 \<or> c = 1 \<or> c = 2 \<or> c = 3 \<or> c = 4 \<or> c = (5 :: nat)"
  by auto

lemma tables:
  assumes "c < 6"
  shows "kNoiseDataWeights ! c + kNoiseDataWeights ! (c + 6) = 128" "kSpeechDataWeights ! c + kSpeechDataWeights ! (c + 6) = 128"
    "25 \<le> kNoiseDataWeights ! c" "25 \<le> kNoiseDataWeights ! (c + 6)" "0 \<le> kSpeechDataWeights ! c" "0 \<le> kSpeechDataWeights ! (c + 6)"
    "kSpeechDataWeights ! c * (if c = 0 then 12800 else 11520) \<le> 1024000"
    "kSpeechDataWeights ! (c + 6) * (if c = 0 then 12800 else 11520) \<le> 1024000"
    "544 \<le> kMinimumDifference ! c" "kMinimumDifference ! c \<le> 576" "11392 \<le> kMaximumSpeech ! c" "kMaximumSpeech ! c \<le> 11520"
    "8576 \<le> kMaximumNoise ! c" "kMaximumNoise ! c \<le> 9216"
  using channel_cases [OF assms]
  by (auto simp: kNoiseDataWeights_def kSpeechDataWeights_def kMinimumDifference_def kMaximumSpeech_def kMaximumNoise_def)

text \<open>A feature and a mean of its channel are close enough.\<close>

lemma noise_near:
  assumes "176 \<le> f" "f \<le> 2101" "noise_ok n"
  shows "\<bar>8 * f - n\<bar> \<le> 18146"
  using assms by (simp add: noise_ok_def abs_le_iff)

lemma weighted_diff:
  assumes "c < 6" "\<bar>a - b\<bar> \<le> (if c = 0 then 12800 else (11520 :: int))"
  shows "\<bar>kSpeechDataWeights ! c * (a - b)\<bar> \<le> 1024000" "\<bar>kSpeechDataWeights ! (c + 6) * (a - b)\<bar> \<le> 1024000"
proof -
  show "\<bar>kSpeechDataWeights ! c * (a - b)\<bar> \<le> 1024000"
    using mult_left_mono [OF assms(2) tables(5) [OF assms(1)]] tables(5,7) [OF assms(1)] by (simp add: abs_mult)
  show "\<bar>kSpeechDataWeights ! (c + 6) * (a - b)\<bar> \<le> 1024000"
    using mult_left_mono [OF assms(2) tables(6) [OF assms(1)]] tables(6,8) [OF assms(1)] by (simp add: abs_mult)
qed

lemma speech_sum:
  assumes "c < 6"
  shows "a * kSpeechDataWeights ! c + b * kSpeechDataWeights ! (c + 6) = 128 * b + kSpeechDataWeights ! c * (a - b)"
    "a * kSpeechDataWeights ! c + b * kSpeechDataWeights ! (c + 6) = 128 * a - kSpeechDataWeights ! (c + 6) * (a - b)"
proof -
  have w: "kSpeechDataWeights ! (c + 6) = 128 - kSpeechDataWeights ! c" using tables(2) [OF assms] by simp
  show "a * kSpeechDataWeights ! c + b * kSpeechDataWeights ! (c + 6) = 128 * b + kSpeechDataWeights ! c * (a - b)"
    "a * kSpeechDataWeights ! c + b * kSpeechDataWeights ! (c + 6) = 128 * a - kSpeechDataWeights ! (c + 6) * (a - b)"
    unfolding w by (simp_all add: algebra_simps)
qed

lemma speech_upper:
  assumes "c < 6" "speech_ok c a b"
  shows "a \<le> 19521" "b \<le> 19521"
  using assms(2) weighted_diff [OF assms(1), of a b] speech_sum [OF assms(1), of a b] tables(12) [OF assms(1)]
  by (auto simp: speech_ok_def abs_le_iff)

lemma speech_near:
  assumes "c < 6" "176 \<le> f" "f \<le> 2101" "speech_ok c a b"
  shows "\<bar>8 * f - a\<bar> \<le> 18146" "\<bar>8 * f - b\<bar> \<le> 18146"
  using speech_upper [OF assms(1,4)] assms(2-4) by (simp_all add: speech_ok_def abs_le_iff)

end
