(* ===== verification/Vad_Bounds.thy ===== *)
theory Vad_Bounds
  imports Vad
begin

text \<open>
  The features of the voice activity detector are bounded: the energy of a band lies between the offset of
  the band and what a band at full scale gives.
\<close>

section \<open>The features are bounded\<close>

lemma size_bits_le:
  assumes "0 \<le> n" "n < 2 ^ b" "n < 4294967296"
  shows "WebRtcSpl_GetSizeInBits n \<le> b"
proof (cases "n = 0")
  case True
  have "WebRtcSpl_GetSizeInBits 0 = 0" by code_simp
  then show ?thesis using True by simp
next
  case False
  then have "(2 :: int) ^ (WebRtcSpl_GetSizeInBits n - 1) < 2 ^ b" using size_in_bits(2) [of n] assms by linarith
  then have "WebRtcSpl_GetSizeInBits n - 1 < b" by simp
  then show ?thesis by simp
qed

lemma scaling_le:
  assumes "length xs < 2 ^ b" "b \<le> 16"
  shows "WebRtcSpl_GetScalingSquare xs (int (length xs)) \<le> b"
proof -
  have "(2 :: nat) ^ b \<le> 2 ^ 16" using assms(2) by (intro power_increasing) simp_all
  then have l: "int (length xs) < 65536" using assms(1) by simp
  have "int (length xs) < 2 ^ b" using assms(1) by (metis of_nat_less_numeral_power_cancel_iff of_nat_numeral)
  then have "WebRtcSpl_GetSizeInBits (int (length xs)) \<le> b" by (rule size_bits_le [rotated]) (use l in simp_all)
  then show ?thesis using l by (auto simp: WebRtcSpl_GetScalingSquare_def Let_def u32_id intro: order_trans [OF diff_le_self])
qed

lemma log_energy_range:
  assumes "length xs < 2 ^ b" "b \<le> 6" "0 \<le> offset" "offset \<le> 400"
  shows "offset \<le> fst (LogOfEnergy xs offset te)"
    "fst (LogOfEnergy xs offset te) \<le> offset + 722 + (int b + 17) * 24660 div 512"
proof -
  obtain en sc where e: "WebRtcSpl_Energy xs = (en, sc)" by fastforce
  have sc: "sc \<le> b" using scaling_le [OF assms(1)] assms(2) e by (simp add: WebRtcSpl_Energy_def Let_def)
  define z where "z = WebRtcSpl_NormU32 (u32 en)"
  have "offset \<le> fst (LogOfEnergy xs offset te) \<and> fst (LogOfEnergy xs offset te) \<le> offset + 722 + (int b + 17) * 24660 div 512"
  proof (cases "u32 en = 0")
    case False
    then have "0 < u32 en" "u32 en < 4294967296" using u32_range [of en] by simp_all
    have "1 * (2 :: int) ^ z \<le> u32 en * 2 ^ z" by (rule mult_right_mono) (use \<open>0 < u32 en\<close> in simp_all)
    also have "\<dots> < 2 ^ 32" using norm_u32(2) [OF \<open>0 < u32 en\<close> \<open>u32 en < 4294967296\<close>] by (simp add: z_def)
    finally have "2 ^ z < (2 :: int) ^ 32" by simp
    then have z: "z < 32" by (simp only: power_strict_increasing_iff)
    define tot where "tot = int sc + (17 - int z)"
    define E where "E = (if 17 - int z < 0 then u32 (shl (u32 en) (nat (- (17 - int z)))) else shr (u32 en) (nat (17 - int z)))"
    define fr where "fr = shr (E AND 0x3FFF) 4"
    have "0 \<le> E" using u32_range by (simp add: E_def)
    have fr: "0 \<le> fr" "fr \<le> 1023"
    proof -
      have "0 \<le> E AND 0x3FFF" "E AND 0x3FFF \<le> 0x3FFF" using AND_upper2 [of "0x3FFF" E] by simp_all
      then show "0 \<le> fr" "fr \<le> 1023" using zdiv_mono1 [of "E AND 0x3FFF" "0x3FFF" 16] by (simp_all add: fr_def drop_bit_eq_div pos_imp_zdiv_nonneg_iff)
    qed
    define x where "x = shr (kLogConst * (kLogEnergyIntPart + fr)) 19"
    define y where "y = shr (tot * kLogConst) 9"
    have x: "674 \<le> x" "x \<le> 722" using fr by (simp_all add: x_def kLogConst_def kLogEnergyIntPart_def drop_bit_eq_div)
    have tot: "-14 \<le> tot" "tot \<le> int b + 17" using z sc by (simp_all add: tot_def)
    have y: "-675 \<le> y" "y \<le> (int b + 17) * 24660 div 512"
      using tot by (simp_all add: y_def kLogConst_def drop_bit_eq_div zdiv_mono1)
    have "(int b + 17) * 24660 div 512 \<le> 1107" using assms(2) by simp
    then have s: "s16 (kLogEnergyIntPart + s16 fr) = kLogEnergyIntPart + fr" "s16 tot = tot" "s16 (x + y) = x + y"
      using fr x y tot assms(2) by (simp_all add: s16_id kLogEnergyIntPart_def)
    have "s16 ((if x + y < 0 then 0 else x + y) + offset) = (if x + y < 0 then 0 else x + y) + offset"
      using x y assms \<open>(int b + 17) * 24660 div 512 \<le> 1107\<close> by (intro s16_id) auto
    moreover have "fst (LogOfEnergy xs offset te) = s16 ((if x + y < 0 then 0 else x + y) + offset)"
      by (simp only: LogOfEnergy_def Let_def e prod.case False if_False fst_conv z_def [symmetric] tot_def [symmetric]
          E_def [symmetric] fr_def [symmetric] s(1,2) x_def [symmetric] y_def [symmetric] s(3))
    ultimately show ?thesis using x y by auto
  qed (use e assms in \<open>simp add: LogOfEnergy_def\<close>)
  then show "offset \<le> fst (LogOfEnergy xs offset te)"
    "fst (LogOfEnergy xs offset te) \<le> offset + 722 + (int b + 17) * 24660 div 512" by auto
qed

definition feature_lo :: "int list" where "feature_lo = [368, 368, 272, 176, 176, 176]"
definition feature_hi :: "int list" where "feature_hi = [2101, 2101, 2053, 2005, 2005, 2005]"

definition feature_state_ok :: "feature_state \<Rightarrow> bool" where
  "feature_state_ok s \<longleftrightarrow> length (fs_upper s) = 5 \<and> length (fs_lower s) = 5"

lemma length_all_pass [simp]: "length (fst (all_pass_loop c xs st)) = length xs"
  by (induction xs arbitrary: st) (simp_all add: Let_def case_prod_beta)

lemma length_hp [simp]: "length (fst (HighPassFilter xs st)) = length xs"
  by (induction xs st rule: HighPassFilter.induct) (simp_all add: Let_def case_prod_beta)

lemma length_downsample [simp]: "length (fst (vad_downsample xs st)) = length xs div 2"
  by (induction xs st rule: vad_downsample.induct) (simp_all add: Let_def case_prod_beta)

lemma split_band_ok:
  assumes "split_band band xs s = (hp, lp, s')"
  shows "length hp = length xs div 2" "length lp = length xs div 2" "feature_state_ok s \<Longrightarrow> feature_state_ok s'"
  using assms by (auto simp: split_band_def SplitFilter_def AllPassFilter_def Let_def case_prod_beta feature_state_ok_def)

text \<open>Each feature of a frame lies between the offset of its band and what full scale gives.\<close>

lemma features_ok:
  assumes "feature_state_ok self" "length xs = n" "n \<in> {80, 160, 240}"
  shows "\<exists>te fs s. WebRtcVad_CalculateFeatures self xs n = Some (te, fs, s) \<and> feature_state_ok s \<and> length fs = 6
    \<and> (\<forall>c < 6. feature_lo ! c \<le> fs ! c \<and> fs ! c \<le> feature_hi ! c)"
proof -
  obtain hp1 lp1 s1 where 1: "split_band 0 xs self = (hp1, lp1, s1)" by (metis prod.collapse)
  obtain hp2 lp2 s2 where 2: "split_band 1 hp1 s1 = (hp2, lp2, s2)" by (metis prod.collapse)
  obtain hp3 lp3 s3 where 3: "split_band 2 lp1 s2 = (hp3, lp3, s3)" by (metis prod.collapse)
  obtain hp4 lp4 s4 where 4: "split_band 3 lp3 s3 = (hp4, lp4, s4)" by (metis prod.collapse)
  obtain hp5 lp5 s5 where 5: "split_band 4 lp4 s4 = (hp5, lp5, s5)" by (metis prod.collapse)
  obtain hp6 st where 6: "HighPassFilter lp5 (fs_hp s5) = (hp6, st)" by (metis prod.collapse)
  note sb = split_band_ok [OF 1] split_band_ok [OF 2] split_band_ok [OF 3] split_band_ok [OF 4] split_band_ok [OF 5]
  have len: "length hp2 \<le> 60" "length lp2 \<le> 60" "length hp3 \<le> 60" "length hp4 \<le> 30" "length hp5 \<le> 15" "length hp6 \<le> 15"
    using sb assms(2,3) length_hp [of lp5 "fs_hp s5"] 6 by auto
  have ok: "feature_state_ok s5" using sb assms(1) by blast
  have rng: "kOffsetVector ! 5 = 176" "kOffsetVector ! 4 = 176" "kOffsetVector ! 3 = 176" "kOffsetVector ! 2 = 272"
    "kOffsetVector ! 1 = 368" "kOffsetVector ! 0 = 368"
    by (simp_all add: kOffsetVector_def nth_Cons' numeral_eq_Suc)
  obtain f5 t5 where f5: "LogOfEnergy hp2 176 0 = (f5, t5)" by (metis prod.collapse)
  obtain f4 t4 where f4: "LogOfEnergy lp2 176 t5 = (f4, t4)" by (metis prod.collapse)
  obtain f3 t3 where f3: "LogOfEnergy hp3 176 t4 = (f3, t3)" by (metis prod.collapse)
  obtain f2 t2 where f2: "LogOfEnergy hp4 272 t3 = (f2, t2)" by (metis prod.collapse)
  obtain f1 t1 where f1: "LogOfEnergy hp5 368 t2 = (f1, t1)" by (metis prod.collapse)
  obtain f0 t0 where f0: "LogOfEnergy hp6 368 t1 = (f0, t0)" by (metis prod.collapse)
  have b: "176 \<le> f5 \<and> f5 \<le> 2005" "176 \<le> f4 \<and> f4 \<le> 2005" "176 \<le> f3 \<and> f3 \<le> 2005" "272 \<le> f2 \<and> f2 \<le> 2053"
    "368 \<le> f1 \<and> f1 \<le> 2101" "368 \<le> f0 \<and> f0 \<le> 2101"
    using log_energy_range [of hp2 6 176 0] log_energy_range [of lp2 6 176 t5] log_energy_range [of hp3 6 176 t4]
      log_energy_range [of hp4 5 272 t3] log_energy_range [of hp5 4 368 t2] log_energy_range [of hp6 4 368 t1] len f0 f1 f2 f3 f4 f5
    by simp_all
  have "n \<le> 240" using assms(3) by auto
  then have "WebRtcVad_CalculateFeatures self xs n = Some (t0, [f0, f1, f2, f3, f4, f5], s5\<lparr>fs_hp := st\<rparr>)"
    using assms(1,2) by (simp add: WebRtcVad_CalculateFeatures_def feature_state_ok_def rd_all 1 2 [simplified] 3 4 5 6 rng rng(5) [simplified] f0 f1 f2 f3 f4 f5)
  moreover have "feature_state_ok (s5\<lparr>fs_hp := st\<rparr>)" using ok by (simp add: feature_state_ok_def)
  moreover have "\<forall>c < 6. feature_lo ! c \<le> [f0, f1, f2, f3, f4, f5] ! c \<and> [f0, f1, f2, f3, f4, f5] ! c \<le> feature_hi ! c"
    using b by (auto simp: feature_lo_def feature_hi_def less_Suc_eq numeral_eq_Suc)
  ultimately show ?thesis by auto
qed

end
