(* ===== verification/Vad_Safe.thy ===== *)
theory Vad_Safe
  imports Vad_Models Vad_Bounds "HOL-Library.Multiset"
begin

text \<open>
  The voice activity detector works on every frame: its Gaussians keep within reach of the features
  through the update of a channel, so the next frame is defined as well.
\<close>

section \<open>The two means of a channel\<close>

lemma avg_speech:
  assumes "c < 6" "length d = 12" "-32768 \<le> a + off" "a + off < 32768" "-32768 \<le> b + off" "b + off < 32768"
    "d ! c = a" "d ! (c + 6) = b"
  shows "WeightedAverage d c off kSpeechDataWeights =
    ((a + off) * kSpeechDataWeights ! c + (b + off) * kSpeechDataWeights ! (c + 6), d[c := a + off, c + 6 := b + off])"
proof -
  have w: "kSpeechDataWeights ! (c + 6) = 128 - kSpeechDataWeights ! c" using tables(2) [OF assms(1)] by simp
  define u where "u = kSpeechDataWeights ! c"
  have u: "0 \<le> u" "u \<le> 128" using tables(5,6) [OF assms(1)] w by (simp_all add: u_def)
  have "\<bar>(a + off) * u\<bar> \<le> 32768 * 128" "\<bar>(b + off) * (128 - u)\<bar> \<le> 32768 * 128"
    unfolding abs_mult by (intro mult_mono; use assms(3-6) u in simp)+
  then have "s32 ((a + off) * u + (b + off) * (128 - u)) = (a + off) * u + (b + off) * (128 - u)"
    by (intro s32_id) linarith+
  then show ?thesis using assms by (simp add: WeightedAverage_def Let_def s16_id w flip: u_def)
qed

lemma avg_noise:
  assumes "c < 6" "length d = 12" "-32768 \<le> a + off" "a + off < 32768" "-32768 \<le> b + off" "b + off < 32768"
    "d ! c = a" "d ! (c + 6) = b"
  shows "WeightedAverage d c off kNoiseDataWeights =
    ((a + off) * kNoiseDataWeights ! c + (b + off) * kNoiseDataWeights ! (c + 6), d[c := a + off, c + 6 := b + off])"
proof -
  have w: "kNoiseDataWeights ! (c + 6) = 128 - kNoiseDataWeights ! c" using tables(1) [OF assms(1)] by simp
  define u where "u = kNoiseDataWeights ! c"
  have u: "0 \<le> u" "u \<le> 128" using tables(3,4) [OF assms(1)] w by (simp_all add: u_def)
  have "\<bar>(a + off) * u\<bar> \<le> 32768 * 128" "\<bar>(b + off) * (128 - u)\<bar> \<le> 32768 * 128"
    unfolding abs_mult by (intro mult_mono; use assms(3-6) u in simp)+
  then have "s32 ((a + off) * u + (b + off) * (128 - u)) = (a + off) * u + (b + off) * (128 - u)"
    by (intro s32_id) linarith+
  then show ?thesis using assms by (simp add: WeightedAverage_def Let_def s16_id w flip: u_def)
qed

text \<open>What the average of the two means says about each.\<close>

lemma weighted_between:
  assumes "0 \<le> (w :: int)" "w \<le> 128" "lo \<le> a" "lo \<le> b" "a \<le> hi" "b \<le> hi"
  shows "128 * lo \<le> a * w + b * (128 - w)" "a * w + b * (128 - w) \<le> 128 * hi"
proof -
  have "lo * w \<le> a * w" "lo * (128 - w) \<le> b * (128 - w)" "a * w \<le> hi * w" "b * (128 - w) \<le> hi * (128 - w)"
    using assms by (simp_all add: mult_right_mono)
  then show "128 * lo \<le> a * w + b * (128 - w)" "a * w + b * (128 - w) \<le> 128 * hi" by (simp_all add: algebra_simps)
qed

lemma weighted_spread:
  assumes "25 \<le> (w :: int)" "w \<le> 103" "\<bar>a - b\<bar> \<le> d"
  shows "a * w + b * (128 - w) \<le> 128 * a + 103 * d" "a * w + b * (128 - w) \<le> 128 * b + 103 * d"
    "128 * a - 103 * d \<le> a * w + b * (128 - w)" "128 * b - 103 * d \<le> a * w + b * (128 - w)"
proof -
  have "\<bar>(a - b) * w\<bar> \<le> d * 103" "\<bar>(a - b) * (128 - w)\<bar> \<le> d * 103"
    unfolding abs_mult by (intro mult_mono; use assms in simp)+
  then have "(a - b) * w \<le> d * 103" "- (d * 103) \<le> (a - b) * w" "(a - b) * (128 - w) \<le> d * 103" "- (d * 103) \<le> (a - b) * (128 - w)"
    by linarith+
  then show "a * w + b * (128 - w) \<le> 128 * a + 103 * d" "a * w + b * (128 - w) \<le> 128 * b + 103 * d"
    "128 * a - 103 * d \<le> a * w + b * (128 - w)" "128 * b - 103 * d \<le> a * w + b * (128 - w)"
    by (simp_all add: algebra_simps)
qed

text \<open>The means of a channel after the update of both Gaussians and before the models are moved apart.\<close>

definition chan_pre :: "nat \<Rightarrow> VadInstT \<Rightarrow> bool" where
  "chan_pre c self \<longleftrightarrow> length (vd_noise_means self) = 12 \<and> length (vd_speech_means self) = 12
     \<and> (\<forall>n \<in> {vd_noise_means self ! c, vd_noise_means self ! (c + 6)}. 640 \<le> n \<and> n \<le> 9344)
     \<and> (\<forall>a \<in> {vd_speech_means self ! c, vd_speech_means self ! (c + 6)}. 640 \<le> a \<and> a \<le> 19521)
     \<and> \<bar>vd_speech_means self ! c - vd_speech_means self ! (c + 6)\<bar> \<le> (if c = 0 then 12800 else 11520)"

definition two_means :: "nat \<Rightarrow> int \<Rightarrow> int \<Rightarrow> int \<Rightarrow> int \<Rightarrow> VadInstT \<Rightarrow> VadInstT" where
  "two_means c n0 n1 a b self = self\<lparr>vd_speech_means := (vd_speech_means self)[c := a, c + 6 := b],
     vd_noise_means := (vd_noise_means self)[c := n0, c + 6 := n1]\<rparr>"

lemma separate_ok:
  assumes "c < 6" "chan_pre c self"
  shows "\<exists>n0 n1 a b. gmm_separate c self = (n0 * kNoiseDataWeights ! c + n1 * kNoiseDataWeights ! (c + 6),
       a * kSpeechDataWeights ! c + b * kSpeechDataWeights ! (c + 6), two_means c n0 n1 a b self)
     \<and> noise_ok n0 \<and> noise_ok n1 \<and> \<bar>n0 - n1\<bar> \<le> 8704 \<and> 640 \<le> a \<and> 640 \<le> b \<and> a \<le> 28465 \<and> b \<le> 28465
     \<and> \<bar>a - b\<bar> \<le> (if c = 0 then 12800 else 11520)"
proof -
  define n0 n1 a b where "n0 = vd_noise_means self ! c" "n1 = vd_noise_means self ! (c + 6)"
    "a = vd_speech_means self ! c" "b = vd_speech_means self ! (c + 6)"
  have l: "length (vd_noise_means self) = 12" "length (vd_speech_means self) = 12" using assms(2) by (simp_all add: chan_pre_def)
  have r: "640 \<le> n0" "n0 \<le> 9344" "640 \<le> n1" "n1 \<le> 9344" "640 \<le> a" "a \<le> 19521" "640 \<le> b" "b \<le> 19521"
    "\<bar>a - b\<bar> \<le> (if c = 0 then 12800 else 11520)"
    using assms(2) by (simp_all add: chan_pre_def n0_n1_a_b_def)
  define w v where "w = kSpeechDataWeights ! c" "v = kNoiseDataWeights ! c"
  have wv: "kSpeechDataWeights ! (c + 6) = 128 - w" "kNoiseDataWeights ! (c + 6) = 128 - v"
    "0 \<le> w" "w \<le> 128" "25 \<le> v" "v \<le> 103"
    using tables(1-6) [OF assms(1)] by (simp_all add: w_v_def)
  define sg ng where "sg = a * w + b * (128 - w)" "ng = n0 * v + n1 * (128 - v)"
  have S0: "WeightedAverage (vd_speech_means self) c 0 kSpeechDataWeights = (sg, vd_speech_means self)"
  proof -
    have "WeightedAverage (vd_speech_means self) c 0 kSpeechDataWeights =
        ((a + 0) * kSpeechDataWeights ! c + (b + 0) * kSpeechDataWeights ! (c + 6), (vd_speech_means self)[c := a + 0, c + 6 := b + 0])"
      by (rule avg_speech [OF assms(1) l(2)]) (use r in \<open>simp_all add: n0_n1_a_b_def\<close>)
    then show ?thesis unfolding sg_ng_def wv w_v_def(1) [symmetric] by (simp add: n0_n1_a_b_def)
  qed
  have N0: "WeightedAverage (vd_noise_means self) c 0 kNoiseDataWeights = (ng, vd_noise_means self)"
  proof -
    have "WeightedAverage (vd_noise_means self) c 0 kNoiseDataWeights =
        ((n0 + 0) * kNoiseDataWeights ! c + (n1 + 0) * kNoiseDataWeights ! (c + 6), (vd_noise_means self)[c := n0 + 0, c + 6 := n1 + 0])"
      by (rule avg_noise [OF assms(1) l(1)]) (use r in \<open>simp_all add: n0_n1_a_b_def\<close>)
    then show ?thesis unfolding sg_ng_def wv w_v_def(2) [symmetric] by (simp add: n0_n1_a_b_def)
  qed
  have sg: "128 * 640 \<le> sg" "sg \<le> 128 * 19521" using weighted_between [of w 640 a b 19521] r wv by (simp_all add: sg_ng_def)
  have ng: "128 * 640 \<le> ng" "ng \<le> 128 * 9344" using weighted_between [of v 640 n0 n1 9344] r wv by (simp_all add: sg_ng_def)
  have nd: "\<bar>n0 - n1\<bar> \<le> 8704" using r by (simp add: abs_le_iff)
  have ns: "ng \<le> 128 * n0 + 103 * 8704" "ng \<le> 128 * n1 + 103 * 8704"
    using weighted_spread [of v n0 n1 8704] nd wv by (simp_all add: sg_ng_def)
  define x y where "x = shr sg 9" "y = shr ng 9"
  have xy: "160 \<le> x" "x \<le> 4880" "160 \<le> y" "y \<le> 2336" "512 * y \<le> ng"
    using sg ng zdiv_mono1 [of "128 * 640" sg 512] zdiv_mono1 [of sg "128 * 19521" 512]
      zdiv_mono1 [of "128 * 640" ng 512] zdiv_mono1 [of ng "128 * 9344" 512] by (simp_all add: x_y_def drop_bit_eq_div)
  have diff: "s16 (s16 x - s16 y) = x - y" using xy by (simp add: s16_id)
  show ?thesis
  proof (cases "x - y < kMinimumDifference ! c")
    case False
    then have "gmm_separate c self = (ng, sg, self)"
      by (simp only: gmm_separate_def Let_def S0 N0 fst_conv x_y_def [symmetric] diff if_False)
    moreover have "two_means c n0 n1 a b self = self" by (cases self) (simp add: two_means_def n0_n1_a_b_def)
    ultimately have "gmm_separate c self = (n0 * kNoiseDataWeights ! c + n1 * kNoiseDataWeights ! (c + 6),
       a * kSpeechDataWeights ! c + b * kSpeechDataWeights ! (c + 6), two_means c n0 n1 a b self)"
      by (simp add: wv sg_ng_def flip: w_v_def)
    then show ?thesis using r nd by (intro exI [of _ n0] exI [of _ n1] exI [of _ a] exI [of _ b]) (simp add: noise_ok_def)
  next
    case True
    define z where "z = kMinimumDifference ! c - (x - y)"
    have z: "0 < z" "z \<le> 416 + y" using True xy tables(10) [OF assms(1)] by (simp_all add: z_def)
    define t1 t2 where "t1 = shr (13 * z) 2" "t2 = shr (3 * z) 2"
    have t: "0 \<le> t1" "t1 \<le> 8944" "0 \<le> t2" "4 * t2 \<le> 3 * z" "t2 \<le> 2064"
      using z xy zdiv_mono1 [of "13 * z" "13 * 2752" 4] zdiv_mono1 [of "3 * z" "3 * 2752" 4]
      by (simp_all add: t1_t2_def drop_bit_eq_div pos_imp_zdiv_nonneg_iff)
    have zz: "s16 (kMinimumDifference ! c - (x - y)) = z" "s16 t1 = t1" "s16 t2 = t2" "s16 (- t2) = - t2"
      using z xy t by (simp_all add: z_def [symmetric] s16_id)
    have S1: "WeightedAverage (vd_speech_means self) c t1 kSpeechDataWeights =
        ((a + t1) * kSpeechDataWeights ! c + (b + t1) * kSpeechDataWeights ! (c + 6), (vd_speech_means self)[c := a + t1, c + 6 := b + t1])"
      by (rule avg_speech [OF assms(1) l(2)]) (use r t in \<open>simp_all add: n0_n1_a_b_def\<close>)
    have N1: "WeightedAverage (vd_noise_means self) c (- t2) kNoiseDataWeights =
        ((n0 + - t2) * kNoiseDataWeights ! c + (n1 + - t2) * kNoiseDataWeights ! (c + 6), (vd_noise_means self)[c := n0 + - t2, c + 6 := n1 + - t2])"
      by (rule avg_noise [OF assms(1) l(1)]) (use r t in \<open>simp_all add: n0_n1_a_b_def\<close>)
    have eq: "gmm_separate c self = ((n0 + - t2) * kNoiseDataWeights ! c + (n1 + - t2) * kNoiseDataWeights ! (c + 6),
       (a + t1) * kSpeechDataWeights ! c + (b + t1) * kSpeechDataWeights ! (c + 6), two_means c (n0 + - t2) (n1 + - t2) (a + t1) (b + t1) self)"
      using True by (simp only: gmm_separate_def Let_def S0 N0 fst_conv x_y_def [symmetric] diff if_True zz t1_t2_def [symmetric]
          S1 N1 prod.case two_means_def)
    have "-1200 \<le> n0 - t2" "-1200 \<le> n1 - t2" using r ns xy z t by linarith+
    then have "noise_ok (n0 + - t2)" "noise_ok (n1 + - t2)" using r t by (simp_all add: noise_ok_def)
    then show ?thesis using r t nd unfolding eq
      by (intro exI [of _ "n0 + - t2"] exI [of _ "n1 + - t2"] exI [of _ "a + t1"] exI [of _ "b + t1"]) simp
  qed
qed

lemma limit_speech:
  assumes "c < 6" "length d = 12" "d ! c = a" "d ! (c + 6) = b" "640 \<le> a" "640 \<le> b" "a \<le> 28465" "b \<le> 28465"
    "\<bar>a - b\<bar> \<le> (if c = 0 then 12800 else 11520)"
  shows "\<exists>a' b'. gmm_limit (kMaximumSpeech ! c) (a * kSpeechDataWeights ! c + b * kSpeechDataWeights ! (c + 6)) c d = d[c := a', c + 6 := b']
    \<and> speech_ok c a' b'"
proof -
  define g M where "g = a * kSpeechDataWeights ! c + b * kSpeechDataWeights ! (c + 6)" "M = kMaximumSpeech ! c"
  have M: "11392 \<le> M" "M \<le> 11520" using tables(11,12) [OF assms(1)] by (simp_all add: g_M_def)
  define w where "w = kSpeechDataWeights ! c"
  have w: "kSpeechDataWeights ! (c + 6) = 128 - w" "0 \<le> w" "w \<le> 128" using tables(2,5,6) [OF assms(1)] by (simp_all add: w_def)
  have g': "g = a * w + b * (128 - w)" by (simp add: g_M_def w w_def)
  have g: "128 * 640 \<le> g" "g \<le> 128 * 28465" unfolding g' by (rule weighted_between; use w assms(5-8) in simp)+
  define q where "q = shr g 7"
  have q: "640 \<le> q" "q \<le> 28465" "128 * q \<le> g" "g < 128 * q + 128"
    using g zdiv_mono1 [of "128 * 640" g 128] zdiv_mono1 [of g "128 * 28465" 128] by (simp_all add: q_def drop_bit_eq_div)
  show ?thesis
  proof (cases "q > M")
    case False
    then have "gmm_limit M g c d = d[c := a, c + 6 := b]" using q assms(3,4) by (simp add: gmm_limit_def s16_id flip: q_def) (metis list_update_id)
    moreover have "speech_ok c a b" using False assms q M by (simp add: speech_ok_def flip: g_M_def)
    ultimately show ?thesis unfolding g_M_def [symmetric] by blast
  next
    case True
    have lo: "g \<le> 128 * a + 1024000" "g \<le> 128 * b + 1024000"
      using weighted_diff [OF assms(1) assms(9)] speech_sum [OF assms(1), of a b] by (simp_all add: g_M_def abs_le_iff)
    have e: "gmm_limit M g c d = d[c := a - (q - M), c + 6 := b - (q - M)]"
      using True q M assms lo by (simp add: gmm_limit_def Let_def s16_id flip: q_def)
    have "640 \<le> a - (q - M)" "640 \<le> b - (q - M)" using lo q M by linarith+
    moreover have "(a - (q - M)) * kSpeechDataWeights ! c + (b - (q - M)) * kSpeechDataWeights ! (c + 6) = g - 128 * (q - M)"
      unfolding g' w w_def [symmetric] by (simp add: algebra_simps)
    ultimately have "speech_ok c (a - (q - M)) (b - (q - M))" using q assms(9) by (simp add: speech_ok_def flip: g_M_def)
    then show ?thesis using e unfolding g_M_def [symmetric] by blast
  qed
qed


lemma limit_noise:
  assumes "c < 6" "length d = 12" "d ! c = n0" "d ! (c + 6) = n1" "noise_ok n0" "noise_ok n1" "\<bar>n0 - n1\<bar> \<le> 8704"
  shows "\<exists>n0' n1'. gmm_limit (kMaximumNoise ! c) (n0 * kNoiseDataWeights ! c + n1 * kNoiseDataWeights ! (c + 6)) c d = d[c := n0', c + 6 := n1']
    \<and> noise_ok n0' \<and> noise_ok n1'"
proof -
  define g M where "g = n0 * kNoiseDataWeights ! c + n1 * kNoiseDataWeights ! (c + 6)" "M = kMaximumNoise ! c"
  have M: "8576 \<le> M" "M \<le> 9216" using tables(13,14) [OF assms(1)] by (simp_all add: g_M_def)
  define w where "w = kNoiseDataWeights ! c"
  have w: "kNoiseDataWeights ! (c + 6) = 128 - w" "25 \<le> w" "w \<le> 103" using tables(1,3,4) [OF assms(1)] by (simp_all add: w_def)
  have g': "g = n0 * w + n1 * (128 - w)" by (simp add: g_M_def w w_def)
  have r: "-1200 \<le> n0" "n0 \<le> 9344" "-1200 \<le> n1" "n1 \<le> 9344" using assms(5,6) by (simp_all add: noise_ok_def)
  have g: "128 * (-1200) \<le> g" "g \<le> 128 * 9344" unfolding g' by (rule weighted_between; use w r in simp)+
  define q where "q = shr g 7"
  have q: "-1200 \<le> q" "q \<le> 9344" "128 * q \<le> g"
    using g zdiv_mono1 [of "128 * (-1200)" g 128] zdiv_mono1 [of g "128 * 9344" 128] by (simp_all add: q_def drop_bit_eq_div)
  show ?thesis
  proof (cases "q > M")
    case False
    then have "gmm_limit M g c d = d[c := n0, c + 6 := n1]" using q assms(3,4) by (simp add: gmm_limit_def s16_id flip: q_def) (metis list_update_id)
    then show ?thesis using assms(5,6) unfolding g_M_def [symmetric] by blast
  next
    case True
    have lo: "g \<le> 128 * n0 + 103 * 8704" "g \<le> 128 * n1 + 103 * 8704"
      unfolding g' by (rule weighted_spread [OF w(2,3) assms(7)])+
    have e: "gmm_limit M g c d = d[c := n0 - (q - M), c + 6 := n1 - (q - M)]"
      using True q M assms(2-4) r lo by (simp add: gmm_limit_def Let_def s16_id flip: q_def)
    have "noise_ok (n0 - (q - M))" "noise_ok (n1 - (q - M))" using lo q M r True unfolding noise_ok_def by linarith+
    then show ?thesis using e unfolding g_M_def [symmetric] by blast
  qed
qed

section \<open>The update of a channel\<close>

lemma noise_mean_range:
  assumes "c < 6" "k < 2"
  shows "640 \<le> noise_mean_update vadflag t fm tmp c k nmk" "noise_mean_update vadflag t fm tmp c k nmk \<le> 9344"
proof -
  have "s16 (shl (int k + 5) 7) = (int k + 5) * 128" "s16 (shl (72 + int k - int c) 7) = (72 + int k - int c) * 128"
    using assms by (simp_all add: push_bit_eq_mult s16_id)
  then show "640 \<le> noise_mean_update vadflag t fm tmp c k nmk" "noise_mean_update vadflag t fm tmp c k nmk \<le> 9344"
    using assms by (simp_all add: noise_mean_update_def Let_def)
qed

lemma speech_mean_range:
  assumes "k < 2" "11392 \<le> maxspe" "maxspe \<le> 12800"
  shows "640 \<le> speech_mean_update t maxspe k smk" "speech_mean_update t maxspe k smk \<le> maxspe + 640"
proof -
  have "s16 (maxspe + 640) = maxspe + 640" "640 \<le> kMinimumMean ! k" "kMinimumMean ! k \<le> 768"
    using assms by (auto simp: s16_id kMinimumMean_def less_2_cases_iff)
  then show "640 \<le> speech_mean_update t maxspe k smk" "speech_mean_update t maxspe k smk \<le> maxspe + 640"
    using assms by (simp_all add: speech_mean_update_def Let_def)
qed

lemma std_update_ok: "std_ok (speech_std_update t f k smk ssk)" "std_ok (noise_std_update t f k nmk nsk)"
proof -
  have "s16 x < 32768" for x using s16_range [of x] by simp
  then show "std_ok (speech_std_update t f k smk ssk)" "std_ok (noise_std_update t f k nmk nsk)"
    by (simp_all add: std_ok_def speech_std_update_def noise_std_update_def kMinStd_def Let_def)
qed


text \<open>The search for the minimum works inside the sixteen cells of its channel.\<close>

lemma length_fm_close: "length cells = 17 \<Longrightarrow> i < 16 \<Longrightarrow> length (fm_close i cells) = 17"
  by (simp add: fm_close_def)

lemma length_fm_age:
  assumes "length age = 17" "length v = 17" "i + n \<le> 16"
  shows "length (fst (fm_age i n age v)) = 17 \<and> length (snd (fm_age i n age v)) = 17"
  using assms by (induction i n age v rule: fm_age.induct) (simp_all add: length_fm_close)

lemma length_fm_insert: "length cells = 17 \<Longrightarrow> p < 16 \<Longrightarrow> length (fm_insert p x cells) = 17"
  by (simp add: fm_insert_def)

lemma fm_position_range: "-1 \<le> fm_position x v" "fm_position x v < 16"
  by (simp_all add: fm_position_def)

text \<open>The sixteen smallest values of a channel: sorted, with the unused cells at 10000.\<close>

definition low_cells_ok :: "int list \<Rightarrow> bool" where
  "low_cells_ok u \<longleftrightarrow> length u = 16 \<and> sorted u \<and> (\<forall>y \<in> set u. y \<le> 10000)"

lemma fm_close_cells:
  assumes "length v = 17" "i < 16" "low_cells_ok (take 16 v)"
  shows "low_cells_ok (take 16 ((fm_close i v)[15 := 10000]))"
proof -
  define u where "u = take 16 v"
  have u: "length u = 16" "sorted u" "\<forall>y \<in> set u. y \<le> 10000" using assms(3) by (simp_all add: low_cells_ok_def u_def)
  have e: "take 16 ((fm_close i v)[15 := 10000]) = take i u @ drop (Suc i) u @ [10000]"
    by (rule nth_equalityI) (use assms(1,2) in \<open>auto simp: fm_close_def slice_def u_def nth_append nth_list_update\<close>)
  have d: "u = take i u @ u ! i # drop (Suc i) u" using u(1) assms(2) by (simp add: id_take_nth_drop)
  have "sorted (take i u @ drop (Suc i) u)" using u(2) by (subst (asm) d) (auto simp: sorted_append)
  moreover have "\<forall>y \<in> set (take i u @ drop (Suc i) u). y \<le> 10000" using u(3) by (auto dest: in_set_takeD in_set_dropD)
  ultimately show ?thesis using u(1) assms(2) by (auto simp: low_cells_ok_def e sorted_append)
qed

lemma fm_age_cells:
  assumes "length age = 17" "length v = 17" "i + n \<le> 16" "low_cells_ok (take 16 v)"
  shows "low_cells_ok (take 16 (snd (fm_age i n age v)))"
  using assms by (induction i n age v rule: fm_age.induct) (simp_all add: length_fm_close fm_close_cells)

lemma fm_position_props:
  assumes "fm_position x v = p"
  shows "p = -1 \<Longrightarrow> v ! 15 \<le> x" "0 \<le> p \<Longrightarrow> x < v ! nat p" "0 < p \<Longrightarrow> v ! nat (p - 1) \<le> x"
  using assms by (auto simp: fm_position_def split: if_splits)

lemma sorted_below: "sorted u \<Longrightarrow> k < length u \<Longrightarrow> y \<in> set (take (Suc k) u) \<Longrightarrow> y \<le> u ! k"
  by (auto simp: in_set_conv_nth sorted_nth_mono)

lemma sorted_above: "sorted u \<Longrightarrow> k < length u \<Longrightarrow> y \<in> set (drop k u) \<Longrightarrow> u ! k \<le> y"
  by (auto simp: in_set_conv_nth sorted_nth_mono)

text \<open>The binary search and the shift of the cells are the insertion into a sorted list.\<close>

lemma fm_insert_insort:
  assumes "length v = 17" "low_cells_ok (take 16 v)"
  shows "take 16 (fm_insert (fm_position x v) x v) = take 16 (insort x (take 16 v))"
proof -
  define u p where "u = take 16 v" "p = fm_position x v"
  have u: "length u = 16" "sorted u" using assms(2) by (simp_all add: low_cells_ok_def u_p_def)
  have pd: "fm_position x v = p" by (simp add: u_p_def)
  have uv: "v ! j = u ! j" if "j < 16" for j using that by (simp add: u_p_def)
  have ins: "insort x u = take k u @ x # drop k u" if "k \<le> 16" "\<forall>y \<in> set (take k u). y \<le> x" "\<forall>y \<in> set (drop k u). x \<le> y" for k
  proof -
    have "sorted (take k u @ x # drop k u)"
      using u(2) that by (auto simp: sorted_append sorted_wrt_take sorted_wrt_drop) (metis order_trans)
    moreover have "mset (take k u @ x # drop k u) = mset (x # u)"
      using mset_append [of "take k u" "drop k u"] by simp
    ultimately have "sort (x # u) = take k u @ x # drop k u" by (rule properties_for_sort [rotated])
    then show ?thesis using u(2) by (simp add: sorted_sort_id)
  qed
  have pr: "-1 \<le> p" "p < 16" using fm_position_range by (simp_all add: u_p_def)
  show ?thesis
  proof (cases "p = -1")
    case True
    then have "u ! 15 \<le> x" using fm_position_props(1) [OF pd] uv [of 15] by simp
    then have "\<forall>y \<in> set (take 16 u). y \<le> x" using sorted_below [OF u(2), of 15] u(1) by (auto intro: order_trans)
    from ins [OF _ this] have "insort x u = u @ [x]" using u(1) by simp
    then show ?thesis using True u(1) by (simp add: fm_insert_def flip: u_p_def)
  next
    case False
    define k where "k = nat p"
    have k: "p = int k" "k < 16" using pr False by (simp_all add: k_def)
    have hi: "x < u ! k" using fm_position_props(2) [OF pd] k uv [of k] by simp
    have lo: "\<forall>y \<in> set (take k u). y \<le> x"
    proof (cases "k = 0")
      case False
      then have "u ! (k - 1) \<le> x" using fm_position_props(3) [OF pd] k uv [of "k - 1"] by (simp add: nat_diff_distrib)
      moreover have "\<forall>y \<in> set (take k u). y \<le> u ! (k - 1)" using sorted_below [OF u(2), of "k - 1"] u(1) k False by simp
      ultimately show ?thesis by fastforce
    qed simp
    have up: "\<forall>y \<in> set (drop k u). x \<le> y" using sorted_above [OF u(2), of k] u(1) k hi by fastforce
    have "insort x u = take k u @ x # drop k u" by (rule ins) (use k lo up in simp_all)
    moreover have "take 16 (fm_insert p x v) = take k u @ x # take (15 - k) (drop k u)"
      by (rule nth_equalityI) (use k assms(1) in \<open>auto simp: fm_insert_def slice_def u_p_def nth_append nth_Cons'\<close>)
    ultimately show ?thesis using k u(1) by (simp add: take_Cons' flip: u_p_def) 
  qed
qed

lemma insort_cells: "low_cells_ok u \<Longrightarrow> x \<le> 10000 \<Longrightarrow> low_cells_ok (take 16 (insort x u))"
  by (auto simp: low_cells_ok_def sorted_wrt_take sorted_insort set_insort_key dest!: in_set_takeD)

definition vectors_ok :: "VadInstT \<Rightarrow> bool" where
  "vectors_ok self \<longleftrightarrow> length (vd_index_vector self) = 96 \<and> length (vd_low_value_vector self) = 96 \<and> length (vd_mean_value self) = 6
     \<and> (\<forall>c < 6. low_cells_ok (slice (16 * c) 16 (vd_low_value_vector self)))"

definition with_vectors :: "int list \<Rightarrow> int list \<Rightarrow> int list \<Rightarrow> VadInstT \<Rightarrow> VadInstT" where
  "with_vectors iv lv mv self = self\<lparr>vd_index_vector := iv, vd_low_value_vector := lv, vd_mean_value := mv\<rparr>"

lemma slice_blit_cells:
  assumes "c < 6" "d < 6" "length xs = 96" "length ys = 16"
  shows "slice (16 * d) 16 (blit (c * 16) ys xs) = (if d = c then ys else slice (16 * d) 16 xs)"
proof (cases "d = c")
  case True
  then show ?thesis using assms slice_blit_same [of "c * 16" ys xs] by (simp add: mult.commute)
next
  case False
  then have "16 * d + 16 \<le> c * 16 \<or> c * 16 + length ys \<le> 16 * d" using assms(4) by linarith
  then show ?thesis using False assms slice_blit_disjoint [of "c * 16" ys xs "16 * d" 16] by simp
qed

text \<open>The cell behind those of a channel has no influence.\<close>

lemma fm_close_front:
  assumes "length cells = 16" "i < 16"
  shows "(fm_close i (cells @ [y]))[15 := k] = (take i cells @ drop (Suc i) cells @ [k]) @ [y]"
  using assms by (simp add: fm_close_def slice_def list_update_append)

lemma fm_age_front:
  assumes "length age = 16" "length v = 16" "i + n \<le> 16"
  shows "\<exists>age' v'. length age' = 16 \<and> length v' = 16 \<and> (\<forall>y z. fm_age i n (age @ [y]) (v @ [z]) = (age' @ [y], v' @ [z]))"
  using assms
proof (induction n arbitrary: i age v)
  case (Suc n)
  have i: "i < 16" "i + 1 + n \<le> 16" using Suc.prems(3) by simp_all
  show ?case
  proof (cases "age ! i = 100")
    case True
    then show ?thesis
      using Suc.IH [of "take i age @ drop (Suc i) age @ [101]" "take i v @ drop (Suc i) v @ [10000]" "i + 1"] Suc.prems(1,2) i
      by (simp add: nth_append fm_close_front)
  next
    case False
    then show ?thesis using Suc.IH [of "age[i := s16 (age ! i + 1)]" v "i + 1"] Suc.prems(1,2) i
      by (simp add: nth_append list_update_append)
  qed
qed auto

lemma fm_front:
  assumes "length v = 16" "p < 16"
  shows "fm_position x (v @ [z]) = fm_position x v" "fm_insert p x (v @ [z]) = fm_insert p x v @ [z]"
    "fm_smooth k (fm_insert p x v @ [z]) m = fm_smooth k (fm_insert p x v) m" "length (fm_insert p x v) = 16"
proof -
  show l: "length (fm_insert p x v) = 16" using assms by (simp add: fm_insert_def)
  show "fm_position x (v @ [z]) = fm_position x v" using assms(1) by (simp add: fm_position_def nth_append)
  show "fm_insert p x (v @ [z]) = fm_insert p x v @ [z]" using assms by (simp add: fm_insert_def slice_def)
  show "fm_smooth k (fm_insert p x v @ [z]) m = fm_smooth k (fm_insert p x v) m" using l by (simp add: fm_smooth_def nth_append)
qed

lemma slice_behind:
  assumes "off + 16 \<le> length xs"
  shows "\<exists>z. slice off 17 (xs @ [b]) = slice off 16 xs @ [z]"
proof -
  have "length (slice (off + 16) 1 (xs @ [b])) = 1" using assms by simp
  then obtain z where "slice (off + 16) 1 (xs @ [b]) = [z]" by (auto simp: length_Suc_conv)
  moreover have "slice off 16 (xs @ [b]) = slice off 16 xs" using assms by (simp add: slice_def)
  ultimately show ?thesis using slice_add [of off 16 1 "xs @ [b]"] by simp
qed

text \<open>The cells of a channel after the search, and the rest of the instance, whatever lies behind.\<close>

lemma find_minimum_cells:
  assumes "vectors_ok self" "c < 6" "x \<le> 10000"
  shows "\<exists>m iv lv mv. (\<forall>bh. WebRtcVad_FindMinimum bh self x c = Some (m, with_vectors iv lv mv self)) \<and> vectors_ok (with_vectors iv lv mv self)
    \<and> (\<forall>bh. \<forall>d < 6. slice (16 * d) 16 lv = (if d = c then take 16 (insort x (take 16 (snd (fm_age 0 16
          (slice (c * 16) 17 (vd_index_vector self @ [fst bh])) (slice (c * 16) 17 (vd_low_value_vector self @ [snd bh]))))))
        else slice (16 * d) 16 (vd_low_value_vector self)))"
proof -
  have l: "length (vd_index_vector self) = 96" "length (vd_low_value_vector self) = 96" "length (vd_mean_value self) = 6"
    using assms(1) by (simp_all add: vectors_ok_def)
  define age v where "age = slice (c * 16) 16 (vd_index_vector self)" "v = slice (c * 16) 16 (vd_low_value_vector self)"
  have av: "length age = 16" "length v = 16" using l assms(2) by (simp_all add: age_v_def)
  have cells: "low_cells_ok v" using assms(1,2) by (simp add: vectors_ok_def age_v_def mult.commute)
  obtain age1 v1 where a1: "length age1 = 16" "length v1 = 16" "\<And>y z. fm_age 0 16 (age @ [y]) (v @ [z]) = (age1 @ [y], v1 @ [z])"
    using fm_age_front [OF av, of 0 16] by auto
  have "low_cells_ok v1" using fm_age_cells [of "age @ [0]" "v @ [0]" 0 16] av cells a1 by simp
  define p where "p = fm_position x v1"
  have p: "p < 16" using fm_position_range by (simp add: p_def)
  note fr = fm_front [OF a1(1) p] fm_front [OF a1(2) p]
  define ic lc where "ic = fm_insert p 1 age1" "lc = fm_insert p x v1"
  have l2: "length ic = 16" "length lc = 16" using fr by (simp_all add: ic_lc_def)
  have lc: "lc = take 16 (insort x v1)"
    using fm_insert_insort [of "v1 @ [0]" x] \<open>low_cells_ok v1\<close> a1(2) fr(5,6) l2(2) by (simp add: p_def ic_lc_def)
  define m where "m = fm_smooth (vd_frame_counter self) lc (vd_mean_value self ! c)"
  define self' where "self' = with_vectors (blit (c * 16) ic (vd_index_vector self)) (blit (c * 16) lc (vd_low_value_vector self)) ((vd_mean_value self)[c := m]) self"
  have aged: "\<exists>y z. slice (c * 16) 17 (vd_index_vector self @ [fst bh]) = age @ [y] \<and> slice (c * 16) 17 (vd_low_value_vector self @ [snd bh]) = v @ [z]" for bh
    using slice_behind [of "c * 16" "vd_index_vector self" "fst bh"] slice_behind [of "c * 16" "vd_low_value_vector self" "snd bh"] l assms(2)
    by (auto simp: age_v_def)
  have "WebRtcVad_FindMinimum bh self x c = Some (m, self')" for bh
  proof -
    obtain y z where "slice (c * 16) 17 (vd_index_vector self @ [fst bh]) = age @ [y]" "slice (c * 16) 17 (vd_low_value_vector self @ [snd bh]) = v @ [z]"
      using aged by blast
    then show ?thesis using l assms(2) fr l2
      by (simp add: WebRtcVad_FindMinimum_def Let_def a1(3) p_def [symmetric] m_def with_vectors_def self'_def ic_lc_def)
  qed
  moreover have "slice (16 * d) 16 (blit (c * 16) lc (vd_low_value_vector self))
      = (if d = c then lc else slice (16 * d) 16 (vd_low_value_vector self))" if "d < 6" for d
    by (rule slice_blit_cells [OF assms(2) that l(2) l2(2)])
  moreover have "take 16 (snd (fm_age 0 16 (slice (c * 16) 17 (vd_index_vector self @ [fst bh])) (slice (c * 16) 17 (vd_low_value_vector self @ [snd bh])))) = v1" for bh
    using aged [of bh] a1 by auto
  moreover have "low_cells_ok lc" unfolding lc by (rule insort_cells [OF \<open>low_cells_ok v1\<close> assms(3)])
  moreover have "length (vd_index_vector self') = 96" "length (vd_low_value_vector self') = 96" "length (vd_mean_value self') = 6"
    using l l2 assms(2) by (simp_all add: self'_def with_vectors_def)
  ultimately show ?thesis using assms(1) lc
    by (intro exI [of _ m] exI [of _ "blit (c * 16) ic (vd_index_vector self)"] exI [of _ "blit (c * 16) lc (vd_low_value_vector self)"]
        exI [of _ "(vd_mean_value self)[c := m]"]) (auto simp: self'_def vectors_ok_def with_vectors_def)
qed

lemma find_minimum_ok:
  assumes "vectors_ok self" "c < 6" "x \<le> 10000"
  shows "\<exists>m iv lv mv. (\<forall>bh. WebRtcVad_FindMinimum bh self x c = Some (m, with_vectors iv lv mv self)) \<and> vectors_ok (with_vectors iv lv mv self)"
  using find_minimum_cells [OF assms] by blast

text \<open>The invariant of the four tables of the models.\<close>

definition models_ok :: "VadInstT \<Rightarrow> bool" where
  "models_ok self \<longleftrightarrow> length (vd_noise_means self) = 12 \<and> length (vd_speech_means self) = 12
     \<and> length (vd_noise_stds self) = 12 \<and> length (vd_speech_stds self) = 12
     \<and> (\<forall>s \<in> set (vd_noise_stds self). std_ok s) \<and> (\<forall>s \<in> set (vd_speech_stds self). std_ok s)
     \<and> (\<forall>c < 6. noise_ok (vd_noise_means self ! c) \<and> noise_ok (vd_noise_means self ! (c + 6))
          \<and> speech_ok c (vd_speech_means self ! c) (vd_speech_means self ! (c + 6)))"

definition with_models :: "int list \<Rightarrow> int list \<Rightarrow> int list \<Rightarrow> int list \<Rightarrow> VadInstT \<Rightarrow> VadInstT" where
  "with_models nm sm ns ss self = self\<lparr>vd_noise_means := nm, vd_speech_means := sm, vd_noise_stds := ns, vd_speech_stds := ss\<rparr>"

lemma upd_twice: "c < 6 \<Longrightarrow> length xs = 12 \<Longrightarrow> xs[c := x, c + 6 := y, c := x', c + 6 := y'] = xs[c := x', c + 6 := y']"
  by (rule nth_equalityI) (simp_all add: nth_list_update)

lemma set_upd: "set (xs[i := x, j := y]) \<subseteq> insert x (insert y (set xs))"
  using set_update_subset_insert [of "xs[i := x]" j y] set_update_subset_insert [of xs i x] by blast

lemma models_ok_upd:
  assumes "models_ok self" "c < 6" "noise_ok n0" "noise_ok n1" "speech_ok c a b" "std_ok e0" "std_ok e1" "std_ok f0" "std_ok f1"
  shows "models_ok (with_models ((vd_noise_means self)[c := n0, c + 6 := n1]) ((vd_speech_means self)[c := a, c + 6 := b])
     ((vd_noise_stds self)[c := e0, c + 6 := e1]) ((vd_speech_stds self)[c := f0, c + 6 := f1]) self)"
  using assms set_upd [of "vd_noise_stds self" c e0 "c + 6" e1] set_upd [of "vd_speech_stds self" c f0 "c + 6" f1]
  by (auto simp: models_ok_def with_models_def nth_list_update)

lemma update_both_eq:
  assumes "c < 6" "length (vd_noise_means self) = 12" "length (vd_speech_means self) = 12"
    "length (vd_noise_stds self) = 12" "length (vd_speech_stds self) = 12"
  shows "gmm_update_k v t f m tmp maxspe c 1 (gmm_update_k v t f m tmp maxspe c 0 self)
    = with_models
        ((vd_noise_means self)[c := noise_mean_update v t m tmp c 0 (vd_noise_means self ! c),
           c + 6 := noise_mean_update v t m tmp c 1 (vd_noise_means self ! (c + 6))])
        ((vd_speech_means self)[c := if v then speech_mean_update t maxspe 0 (vd_speech_means self ! c) else vd_speech_means self ! c,
           c + 6 := if v then speech_mean_update t maxspe 1 (vd_speech_means self ! (c + 6)) else vd_speech_means self ! (c + 6)])
        ((vd_noise_stds self)[c := if v then vd_noise_stds self ! c else noise_std_update t f 0 (vd_noise_means self ! c) (vd_noise_stds self ! c),
           c + 6 := if v then vd_noise_stds self ! (c + 6)
             else noise_std_update t f 1 (vd_noise_means self ! (c + 6)) (vd_noise_stds self ! (c + 6))])
        ((vd_speech_stds self)[c := if v then speech_std_update t f 0 (vd_speech_means self ! c) (vd_speech_stds self ! c) else vd_speech_stds self ! c,
           c + 6 := if v then speech_std_update t f 1 (vd_speech_means self ! (c + 6)) (vd_speech_stds self ! (c + 6))
             else vd_speech_stds self ! (c + 6)])
        self"
  using assms by (cases v) (simp_all add: gmm_update_k_def with_models_def Let_def)

lemma update_both:
  assumes "models_ok self" "c < 6" "maxspe = (if c = 0 then 12800 else kMaximumSpeech ! (c - 1))"
  shows "\<exists>n0 n1 a b e0 e1 f0 f1. gmm_update_k v t f m tmp maxspe c 1 (gmm_update_k v t f m tmp maxspe c 0 self)
       = with_models ((vd_noise_means self)[c := n0, c + 6 := n1]) ((vd_speech_means self)[c := a, c + 6 := b])
           ((vd_noise_stds self)[c := e0, c + 6 := e1]) ((vd_speech_stds self)[c := f0, c + 6 := f1]) self
     \<and> 640 \<le> n0 \<and> n0 \<le> 9344 \<and> 640 \<le> n1 \<and> n1 \<le> 9344 \<and> 640 \<le> a \<and> a \<le> 19521 \<and> 640 \<le> b \<and> b \<le> 19521
     \<and> \<bar>a - b\<bar> \<le> (if c = 0 then 12800 else 11520) \<and> std_ok e0 \<and> std_ok e1 \<and> std_ok f0 \<and> std_ok f1"
proof -
  have ms: "11392 \<le> maxspe" "maxspe \<le> (if c = 0 then 12800 else 11520)"
    using assms(2,3) tables(11,12) [of "c - 1"] by (auto split: if_splits)
  have l: "length (vd_noise_means self) = 12" "length (vd_speech_means self) = 12"
    "length (vd_noise_stds self) = 12" "length (vd_speech_stds self) = 12" using assms(1) by (simp_all add: models_ok_def)
  define a b where "a = (if v then speech_mean_update t maxspe 0 (vd_speech_means self ! c) else vd_speech_means self ! c)"
    "b = (if v then speech_mean_update t maxspe 1 (vd_speech_means self ! (c + 6)) else vd_speech_means self ! (c + 6))"
  have so: "speech_ok c (vd_speech_means self ! c) (vd_speech_means self ! (c + 6))" using assms(1,2) by (simp add: models_ok_def)
  have ab: "640 \<le> a \<and> a \<le> 19521 \<and> 640 \<le> b \<and> b \<le> 19521 \<and> \<bar>a - b\<bar> \<le> (if c = 0 then 12800 else 11520)"
  proof (cases v)
    case True
    have "maxspe \<le> 12800" using ms(2) by (simp split: if_splits)
    then have "640 \<le> a" "a \<le> maxspe + 640" "640 \<le> b" "b \<le> maxspe + 640"
      using speech_mean_range [OF _ ms(1)] True by (simp_all add: a_b_def)
    then show ?thesis using ms(2) by (simp add: abs_le_iff split: if_splits)
  next
    case False
    then show ?thesis using so speech_upper [OF assms(2) so] by (simp add: a_b_def speech_ok_def)
  qed
  then have ab': "640 \<le> a" "a \<le> 19521" "640 \<le> b" "b \<le> 19521" "\<bar>a - b\<bar> \<le> (if c = 0 then 12800 else 11520)" by blast+
  note ab' = ab' [unfolded a_b_def]
  have s: "std_ok (vd_noise_stds self ! c)" "std_ok (vd_noise_stds self ! (c + 6))"
    "std_ok (vd_speech_stds self ! c)" "std_ok (vd_speech_stds self ! (c + 6))" using assms(1,2) by (simp_all add: models_ok_def)
  have i: "std_ok (if v then x else y)" if "std_ok x" "std_ok y" for x y using that by simp
  show ?thesis
    by (intro exI conjI, rule update_both_eq [OF assms(2) l])
      (rule noise_mean_range [OF assms(2)] ab' i s std_update_ok | simp)+
qed

text \<open>The update of a channel keeps the invariant and touches nothing but the models and the vectors.\<close>

definition vad_frame :: "VadInstT \<Rightarrow> VadInstT \<Rightarrow> bool" where
  "vad_frame self self' \<longleftrightarrow> (\<exists>nm sm ns ss iv lv mv. self' = with_models nm sm ns ss (with_vectors iv lv mv self))"

lemma update_ok:
  assumes "models_ok self" "vectors_ok self" "c < 6" "maxspe = (if c = 0 then 12800 else kMaximumSpeech ! (c - 1))" "f \<le> 10000"
  shows "\<exists>self'. (\<forall>bh. gmm_update bh v t f maxspe c self = Some self') \<and> models_ok self' \<and> vectors_ok self' \<and> vad_frame self self'"
proof -
  obtain m iv lv mv where 1: "\<And>bh. WebRtcVad_FindMinimum bh self f c = Some (m, with_vectors iv lv mv self)" "vectors_ok (with_vectors iv lv mv self)"
    using find_minimum_ok [OF assms(2,3,5)] by blast
  define self1 where "self1 = with_vectors iv lv mv self"
  have m1: "models_ok self1" using assms(1) by (simp add: self1_def with_vectors_def models_ok_def)
  have no: "noise_ok (vd_noise_means self1 ! c)" "noise_ok (vd_noise_means self1 ! (c + 6))" "length (vd_noise_means self1) = 12"
    using m1 assms(3) by (simp_all add: models_ok_def)
  obtain g where 2: "WeightedAverage (vd_noise_means self1) c 0 kNoiseDataWeights = (g, vd_noise_means self1)"
  proof
    show "WeightedAverage (vd_noise_means self1) c 0 kNoiseDataWeights = (((vd_noise_means self1 ! c) + 0) * kNoiseDataWeights ! c
       + ((vd_noise_means self1 ! (c + 6)) + 0) * kNoiseDataWeights ! (c + 6), vd_noise_means self1)"
      using avg_noise [OF assms(3) no(3), of "vd_noise_means self1 ! c" 0 "vd_noise_means self1 ! (c + 6)"] no by (simp add: noise_ok_def)
  qed
  obtain n0 n1 a b e0 e1 f0 f1 where 3: "gmm_update_k v t f m (s16 (shr g 6)) maxspe c 1 (gmm_update_k v t f m (s16 (shr g 6)) maxspe c 0 self1)
       = with_models ((vd_noise_means self1)[c := n0, c + 6 := n1]) ((vd_speech_means self1)[c := a, c + 6 := b])
           ((vd_noise_stds self1)[c := e0, c + 6 := e1]) ((vd_speech_stds self1)[c := f0, c + 6 := f1]) self1"
    "640 \<le> n0" "n0 \<le> 9344" "640 \<le> n1" "n1 \<le> 9344" "640 \<le> a" "a \<le> 19521" "640 \<le> b" "b \<le> 19521"
    "\<bar>a - b\<bar> \<le> (if c = 0 then 12800 else 11520)" "std_ok e0" "std_ok e1" "std_ok f0" "std_ok f1"
    using update_both [OF m1 assms(3,4), of v t f m "s16 (shr g 6)"] by (elim exE conjE) (rule that)
  define self2 where "self2 = with_models ((vd_noise_means self1)[c := n0, c + 6 := n1]) ((vd_speech_means self1)[c := a, c + 6 := b])
           ((vd_noise_stds self1)[c := e0, c + 6 := e1]) ((vd_speech_stds self1)[c := f0, c + 6 := f1]) self1"
  have l: "length (vd_noise_means self1) = 12" "length (vd_speech_means self1) = 12" using m1 by (simp_all add: models_ok_def)
  have "chan_pre c self2" using 3 assms(3) l by (simp add: chan_pre_def self2_def with_models_def nth_list_update)
  then obtain n0' n1' a' b' where 4: "gmm_separate c self2 = (n0' * kNoiseDataWeights ! c + n1' * kNoiseDataWeights ! (c + 6),
       a' * kSpeechDataWeights ! c + b' * kSpeechDataWeights ! (c + 6), two_means c n0' n1' a' b' self2)"
    "noise_ok n0'" "noise_ok n1'" "\<bar>n0' - n1'\<bar> \<le> 8704" "640 \<le> a'" "640 \<le> b'" "a' \<le> 28465" "b' \<le> 28465"
    "\<bar>a' - b'\<bar> \<le> (if c = 0 then 12800 else 11520)"
    using separate_ok [OF assms(3)] by blast
  define nl sl where "nl = (vd_noise_means self1)[c := n0', c + 6 := n1']" "sl = (vd_speech_means self1)[c := a', c + 6 := b']"
  have l': "length nl = 12" "length sl = 12" "nl ! c = n0'" "nl ! (c + 6) = n1'" "sl ! c = a'" "sl ! (c + 6) = b'"
    using l assms(3) by (simp_all add: nl_sl_def nth_list_update)
  have t: "vd_noise_means (two_means c n0' n1' a' b' self2) = nl" "vd_speech_means (two_means c n0' n1' a' b' self2) = sl"
    using l upd_twice [OF assms(3) l(1)] upd_twice [OF assms(3) l(2)] by (simp_all add: two_means_def self2_def with_models_def nl_sl_def)
  obtain a2 b2 where 5: "gmm_limit (kMaximumSpeech ! c) (a' * kSpeechDataWeights ! c + b' * kSpeechDataWeights ! (c + 6)) c sl = sl[c := a2, c + 6 := b2]"
    "speech_ok c a2 b2" using limit_speech [OF assms(3) l'(2,5,6) 4(5-9)] by blast
  obtain x2 y2 where 6: "gmm_limit (kMaximumNoise ! c) (n0' * kNoiseDataWeights ! c + n1' * kNoiseDataWeights ! (c + 6)) c nl = nl[c := x2, c + 6 := y2]"
    "noise_ok x2" "noise_ok y2" using limit_noise [OF assms(3) l'(1,3,4) 4(2-4)] by blast
  have "gmm_update bh v t f maxspe c self = Some (with_models ((vd_noise_means self1)[c := x2, c + 6 := y2]) ((vd_speech_means self1)[c := a2, c + 6 := b2])
       ((vd_noise_stds self1)[c := e0, c + 6 := e1]) ((vd_speech_stds self1)[c := f0, c + 6 := f1]) self1)" for bh
  proof -
    have tb: "gmm_tables c self1" using m1 assms(3) by (simp add: gmm_tables_def models_ok_def kNumChannels_def)
    have nl: "self1\<lparr>vd_noise_means := vd_noise_means self1\<rparr> = self1" by (cases self1) simp
    have "gmm_update bh v t f maxspe c self = Some ((two_means c n0' n1' a' b' self2)\<lparr>vd_speech_means := sl[c := a2, c + 6 := b2], vd_noise_means := nl[c := x2, c + 6 := y2]\<rparr>)"
      by (simp only: gmm_update_def Let_def 1(1) Option.bind_lunit tb not_True_eq_False if_False self1_def [symmetric] prod.case 2 nl 3(1) self2_def [symmetric] 4(1) t 5(1) 6(1))
    also have "nl[c := x2, c + 6 := y2] = (vd_noise_means self1)[c := x2, c + 6 := y2]" unfolding nl_sl_def by (rule upd_twice [OF assms(3) l(1)])
    also have "sl[c := a2, c + 6 := b2] = (vd_speech_means self1)[c := a2, c + 6 := b2]" unfolding nl_sl_def by (rule upd_twice [OF assms(3) l(2)])
    finally show ?thesis by (simp add: two_means_def self2_def with_models_def)
  qed
  moreover note models_ok_upd [OF m1 assms(3) 6(2,3) 5(2) 3(11-14)]
  moreover have "vectors_ok (with_models nm sm ns ss self1)" for nm sm ns ss
    using 1(2) by (simp add: self1_def with_models_def with_vectors_def vectors_ok_def)
  ultimately show ?thesis unfolding vad_frame_def self1_def by fastforce
qed

end
