(* ===== verification/Vad_Total.thy ===== *)
theory Vad_Total
  imports Vad_Safe
begin

text \<open>
  The life of a voice activity detector: the states reached from \<open>WebRtcVad_Init\<close> by changes of mode and
  frames, the invariant they keep, and what a call of \<open>WebRtcVad_Process\<close> then returns.
\<close>

section \<open>The invariant of the instance\<close>

definition vad_inv :: "VadInstT \<Rightarrow> bool" where
  "vad_inv self \<longleftrightarrow> models_ok self \<and> vectors_ok self \<and> feature_state_ok (vd_features self)
     \<and> length (S_24_16 (vd_state_48_to_8 self)) = 8 \<and> vd_init_flag self = vad_kInitCheck
     \<and> 0 \<le> vd_over_hang self \<and> vd_over_hang self \<le> 14 \<and> 0 \<le> vd_num_of_speech self \<and> vd_num_of_speech self \<le> 6
     \<and> length (vd_over_hang_max_1 self) = 3 \<and> length (vd_over_hang_max_2 self) = 3
     \<and> length (vd_individual self) = 3 \<and> length (vd_total self) = 3
     \<and> (\<forall>x \<in> set (vd_over_hang_max_1 self @ vd_over_hang_max_2 self). 1 \<le> x \<and> x \<le> 14)"

lemma initial_models:
  assumes "vd_noise_means self = kNoiseDataMeans" "vd_speech_means self = kSpeechDataMeans"
    "vd_noise_stds self = kNoiseDataStds" "vd_speech_stds self = kSpeechDataStds"
  shows "models_ok self"
proof -
  have "noise_ok (kNoiseDataMeans ! c) \<and> noise_ok (kNoiseDataMeans ! (c + 6))
      \<and> speech_ok c (kSpeechDataMeans ! c) (kSpeechDataMeans ! (c + 6))" if "c < 6" for c
    using channel_cases [OF that] by (elim disjE)
      (simp_all add: noise_ok_def speech_ok_def kNoiseDataMeans_def kSpeechDataMeans_def kSpeechDataWeights_def kMaximumSpeech_def)
  moreover have "\<forall>s \<in> set kNoiseDataStds. std_ok s" "\<forall>s \<in> set kSpeechDataStds. std_ok s"
    by (simp_all add: std_ok_def kNoiseDataStds_def kSpeechDataStds_def)
  moreover have "length kNoiseDataMeans = 12" "length kSpeechDataMeans = 12" "length kNoiseDataStds = 12" "length kSpeechDataStds = 12"
    by (simp_all add: kNoiseDataMeans_def kSpeechDataMeans_def kNoiseDataStds_def kSpeechDataStds_def)
  ultimately show ?thesis using assms by (simp add: models_ok_def)
qed

lemma vad_init_inv:
  "\<exists>self'. WebRtcVad_Init (Some self) = (0, Some self') \<and> vad_inv self'"
  by (simp add: WebRtcVad_Init_def WebRtcVad_InitCore_def WebRtcVad_set_mode_core_def set_limits_def Let_def vad_inv_def initial_models
      vectors_ok_def kNumChannels_def feature_state_ok_def WebRtcSpl_ResetResample48khzTo8khz_def zero8_def
      low_cells_ok_def slice_def)

lemma limits_inv:
  assumes "vad_inv self" "length m1 = 3" "length m2 = 3" "length l = 3" "length g = 3" "\<forall>x \<in> set (m1 @ m2). 1 \<le> x \<and> x \<le> 14"
  shows "vad_inv (set_limits m1 m2 l g self)"
  using assms by (auto simp: vad_inv_def set_limits_def models_ok_def vectors_ok_def)

lemma set_mode_inv:
  assumes "vad_inv self" "WebRtcVad_set_mode (Some self) mode = (r, Some self')"
  shows "vad_inv self'"
proof -
  have "vad_inv (snd (WebRtcVad_set_mode_core self mode))"
    using assms(1) by (simp add: WebRtcVad_set_mode_core_def limits_inv)
  then show ?thesis using assms by (auto simp: WebRtcVad_set_mode_def vad_inv_def case_prod_beta)
qed

section \<open>The test and the update of all channels\<close>

lemma mixture_ok:
  assumes "c < 6" "length means = 12" "length stds = 12" "length w = 12" "std_ok (stds ! c)" "std_ok (stds ! (c + 6))" "176 \<le> f" "f \<le> 2101"
    "\<bar>8 * f - means ! c\<bar> \<le> 18146" "\<bar>8 * f - means ! (c + 6)\<bar> \<le> 18146"
  shows "\<exists>q h d. gmm_mixture f c means stds w = Some (q, h, d)"
proof -
  obtain p0 d0 where "WebRtcVad_GaussianProbability f (means ! c) (stds ! c) = Some (p0, d0)"
    using gaussian_ok [of "stds ! c" f "means ! c"] assms by (auto simp: std_ok_def)
  moreover obtain p1 d1 where "WebRtcVad_GaussianProbability f (means ! (c + 6)) (stds ! (c + 6)) = Some (p1, d1)"
    using gaussian_ok [of "stds ! (c + 6)" f "means ! (c + 6)"] assms by (auto simp: std_ok_def)
  ultimately show ?thesis using assms(1-4) by (simp add: gmm_mixture_def Let_def)
qed

lemma test_ok:
  assumes "models_ok self" "c < 6" "length fs = 6" "176 \<le> fs ! c" "fs ! c \<le> 2101"
  shows "\<exists>t. gmm_test self fs c = Some t"
proof -
  have m: "noise_ok (vd_noise_means self ! c)" "noise_ok (vd_noise_means self ! (c + 6))"
    "speech_ok c (vd_speech_means self ! c) (vd_speech_means self ! (c + 6))"
    "std_ok (vd_noise_stds self ! c)" "std_ok (vd_noise_stds self ! (c + 6))"
    "std_ok (vd_speech_stds self ! c)" "std_ok (vd_speech_stds self ! (c + 6))"
    using assms(1,2) by (simp_all add: models_ok_def)
  have l: "length (vd_noise_means self) = 12" "length (vd_noise_stds self) = 12" "length (vd_speech_means self) = 12" "length (vd_speech_stds self) = 12"
    "length kNoiseDataWeights = 12" "length kSpeechDataWeights = 12"
    using assms(1) by (simp_all add: models_ok_def kNoiseDataWeights_def kSpeechDataWeights_def)
  note f = assms(4,5)
  obtain n h d where 1: "gmm_mixture (fs ! c) c (vd_noise_means self) (vd_noise_stds self) kNoiseDataWeights = Some (n, h, d)"
    using mixture_ok [OF assms(2) l(1,2,5) m(4,5) f noise_near [OF f m(1)] noise_near [OF f m(2)]] by blast
  obtain n' h' d' where 2: "gmm_mixture (fs ! c) c (vd_speech_means self) (vd_speech_stds self) kSpeechDataWeights = Some (n', h', d')"
    using mixture_ok [OF assms(2) l(3,4,6) m(6,7) f speech_near [OF assms(2) f m(3)]] by blast
  show ?thesis using assms(2,3) by (simp add: gmm_test_def 1 2 Let_def)
qed

lemma tests_ok:
  assumes "models_ok self" "length fs = 6" "\<forall>c \<in> set cs. c < 6 \<and> 176 \<le> fs ! c \<and> fs ! c \<le> 2101"
  shows "\<exists>ts. gmm_tests self fs cs = Some ts \<and> length ts = length cs"
  using assms(3)
proof (induction cs)
  case (Cons c cs)
  then obtain t where "gmm_test self fs c = Some t" using test_ok [OF assms(1), of c fs] assms(2) by auto
  then show ?case using Cons by auto
qed simp

lemma frame_trans: "vad_frame a b \<Longrightarrow> vad_frame b c \<Longrightarrow> vad_frame a c"
  unfolding vad_frame_def by (elim exE) (simp add: with_models_def with_vectors_def, blast)

lemma frame_refl: "vad_frame a a"
  unfolding vad_frame_def
  by (rule exI [of _ "vd_noise_means a"], rule exI [of _ "vd_speech_means a"], rule exI [of _ "vd_noise_stds a"], rule exI [of _ "vd_speech_stds a"],
      rule exI [of _ "vd_index_vector a"], rule exI [of _ "vd_low_value_vector a"], rule exI [of _ "vd_mean_value a"])
    (simp add: with_models_def with_vectors_def)

lemma updates_ok:
  assumes "models_ok self" "vectors_ok self" "c + length ts \<le> 6" "maxspe = (if c = 0 then 12800 else kMaximumSpeech ! (c - 1))"
    "\<forall>c < 6. fs ! c \<le> 10000" "length fs = 6"
  shows "\<exists>self'. (\<forall>bh. gmm_updates bh v fs maxspe c ts self = Some self') \<and> models_ok self' \<and> vectors_ok self' \<and> vad_frame self self'"
  using assms
proof (induction ts arbitrary: maxspe c self)
  case Nil
  then show ?case by (simp add: frame_refl)
next
  case (Cons t ts)
  have c: "c < 6" using Cons.prems(3) by simp
  have "fs ! c \<le> 10000" using Cons.prems(5) c by simp
  then obtain self1 where u: "\<And>bh. gmm_update bh v t (fs ! c) maxspe c self = Some self1" "models_ok self1" "vectors_ok self1" "vad_frame self self1"
    using update_ok [OF Cons.prems(1,2) c Cons.prems(4), of "fs ! c" v t] by blast
  show ?case using u c Cons.IH [of self1 "c + 1" "kMaximumSpeech ! c"] Cons.prems(3,5,6)
    by (fastforce intro: frame_trans)
qed

section \<open>The decision\<close>

lemma smooth_result: "fst (vad_smooth o1 o2 v self) \<in> {0, 1} \<union> {3..16}" if "0 \<le> vd_over_hang self" "vd_over_hang self \<le> 14"
  using that by (simp add: vad_smooth_def Let_def s16_id)

lemma smooth_inv:
  assumes "vad_inv self" "1 \<le> o1" "o1 \<le> 14" "1 \<le> o2" "o2 \<le> 14"
  shows "vad_inv (snd (vad_smooth o1 o2 v self))"
  using assms by (auto simp: vad_smooth_def Let_def vad_inv_def s16_id models_ok_def vectors_ok_def kMaxSpeechFrames_def)

lemma frame_inv:
  assumes "vad_inv self" "vad_frame self self'" "models_ok self'" "vectors_ok self'"
  shows "vad_inv (self'\<lparr>vd_frame_counter := n\<rparr>)"
  using assms unfolding vad_inv_def vad_frame_def by (elim exE) (auto simp: with_models_def with_vectors_def models_ok_def vectors_ok_def)

lemma gmm_ok:
  assumes "vad_inv self" "length fs = 6" "\<forall>c < 6. feature_lo ! c \<le> fs ! c \<and> fs ! c \<le> feature_hi ! c"
  shows "\<exists>r self'. (\<forall>bh. GmmProbability bh self fs tp n = Some (r, self')) \<and> r \<in> {0, 1} \<union> {3..16} \<and> vad_inv self'"
proof -
  define j :: nat where "j = (if n = 80 then 0 else if n = 160 then 1 else 2)"
  have lim: "1 \<le> vd_over_hang_max_1 self ! j" "vd_over_hang_max_1 self ! j \<le> 14"
    "1 \<le> vd_over_hang_max_2 self ! j" "vd_over_hang_max_2 self ! j \<le> 14"
    using assms(1) by (simp_all add: vad_inv_def j_def)
  have j: "j < 3" by (simp add: j_def)
  define step where "step = (\<lambda>bh. if tp > kMinEnergy then do {
             ts \<leftarrow> gmm_tests self fs [0, 1, 2, 3, 4, 5];
             let vadflag = gmm_decide (vd_individual self ! j) (vd_total self ! j) ts in do {
             self' \<leftarrow> gmm_updates bh vadflag fs 12800 0 ts self;
             Some (vadflag, self'\<lparr>vd_frame_counter := s32 (vd_frame_counter self' + 1)\<rparr>) } }
           else Some (False, self))"
  have "\<exists>v self1. (\<forall>bh. step bh = Some (v, self1)) \<and> vad_inv self1"
  proof (cases "tp > kMinEnergy")
    case True
    have m: "models_ok self" "vectors_ok self" using assms(1) by (simp_all add: vad_inv_def)
    have fs: "176 \<le> fs ! c \<and> fs ! c \<le> 2101" if "c < 6" for c
      using assms(3) [rule_format, OF that] channel_cases [OF that] by (auto simp: feature_lo_def feature_hi_def)
    then have hi: "\<forall>c < 6. fs ! c \<le> 10000" by fastforce
    obtain ts where ts: "gmm_tests self fs [0, 1, 2, 3, 4, 5] = Some ts" "length ts = 6"
      using tests_ok [OF m(1) assms(2), of "[0, 1, 2, 3, 4, 5]"] fs by auto
    define v where "v = gmm_decide (vd_individual self ! j) (vd_total self ! j) ts"
    obtain self' where "\<And>bh. gmm_updates bh v fs 12800 0 ts self = Some self'" "models_ok self'" "vectors_ok self'" "vad_frame self self'"
      using updates_ok [OF m, of 0 ts 12800 fs v] ts(2) hi assms(2) by auto
    then show ?thesis using True ts(1) frame_inv [OF assms(1)] by (auto simp: step_def Let_def simp flip: v_def)
  qed (use assms(1) in \<open>auto simp: step_def\<close>)
  then obtain v self1 where 1: "\<And>bh. step bh = Some (v, self1)" "vad_inv self1" by blast
  have get: "get (vd_over_hang_max_1 self) j = Some (vd_over_hang_max_1 self ! j)" "get (vd_over_hang_max_2 self) j = Some (vd_over_hang_max_2 self ! j)"
    "get (vd_individual self) j = Some (vd_individual self ! j)" "get (vd_total self) j = Some (vd_total self ! j)"
    using assms(1) j by (simp_all add: vad_inv_def)
  have "GmmProbability bh self fs tp n = Some (vad_smooth (vd_over_hang_max_1 self ! j) (vd_over_hang_max_2 self ! j) v self1)" for bh
    using 1(1) [of bh, unfolded step_def]
    by (simp only: GmmProbability_def Let_def j_def [symmetric] get bind.bind_lunit prod.case)
  moreover have "0 \<le> vd_over_hang self1" "vd_over_hang self1 \<le> 14" using 1(2) by (simp_all add: vad_inv_def)
  ultimately show ?thesis using smooth_inv [OF 1(2) lim, of v] smooth_result [of self1 "vd_over_hang_max_1 self ! j" "vd_over_hang_max_2 self ! j" v] by (metis prod.collapse)
qed

lemma calc8_ok:
  assumes "vad_inv self" "length xs = n" "n \<in> {80, 160, 240}"
  shows "\<exists>r self'. (\<forall>bh. WebRtcVad_CalcVad8khz bh self xs n = Some (r, self')) \<and> r \<in> {0, 1} \<union> {3..16} \<and> vad_inv self'"
proof -
  have "feature_state_ok (vd_features self)" using assms(1) by (simp add: vad_inv_def)
  from features_ok [OF this assms(2,3)] obtain te fs s where 1: "WebRtcVad_CalculateFeatures (vd_features self) xs n = Some (te, fs, s)"
    "feature_state_ok s" "length fs = 6" "\<forall>c < 6. feature_lo ! c \<le> fs ! c \<and> fs ! c \<le> feature_hi ! c" by blast
  have "vad_inv (self\<lparr>vd_features := s\<rparr>)" using assms(1) 1(2) by (simp add: vad_inv_def models_ok_def vectors_ok_def)
  from gmm_ok [OF this 1(3,4), of te "int n"] obtain r self' where 2:
    "\<And>bh. GmmProbability bh (self\<lparr>vd_features := s\<rparr>) fs te (int n) = Some (r, self')" "r \<in> {0, 1} \<union> {3..16}" "vad_inv self'" by blast
  moreover have "vad_inv (self'\<lparr>vd_vad := r\<rparr>)" using 2(3) by (simp add: vad_inv_def models_ok_def vectors_ok_def)
  ultimately show ?thesis by (simp add: WebRtcVad_CalcVad8khz_def 1(1))
qed


section \<open>The other rates\<close>

lemma downsampling_ok:
  assumes "length xs = 2 * n"
  shows "\<exists>ys st'. WebRtcVad_Downsampling xs st (2 * n) = Some (ys, st') \<and> length ys = n"
  using assms length_downsample [of xs st]
  by (cases "vad_downsample xs st") (simp add: WebRtcVad_Downsampling_def rd_all)

lemma calc16_ok:
  assumes "vad_inv self" "length xs = 2 * n" "n \<in> {80, 160, 240}"
  shows "\<exists>r self'. (\<forall>bh. WebRtcVad_CalcVad16khz bh self xs (2 * n) = Some (r, self')) \<and> r \<in> {0, 1} \<union> {3..16} \<and> vad_inv self'"
proof -
  obtain ys st where 1: "WebRtcVad_Downsampling xs (fst (vd_downsampling_filter_states self)) (2 * n) = Some (ys, st)" "length ys = n"
    using downsampling_ok [OF assms(2)] by blast
  have "vad_inv (self\<lparr>vd_downsampling_filter_states := (st, snd (vd_downsampling_filter_states self))\<rparr>)"
    using assms(1) by (simp add: vad_inv_def models_ok_def vectors_ok_def)
  from calc8_ok [OF this 1(2) assms(3)] show ?thesis using 1(1) by (simp add: WebRtcVad_CalcVad16khz_def)
qed

lemma calc32_ok:
  assumes "vad_inv self" "length xs = 2 * (2 * n)" "n \<in> {80, 160, 240}"
  shows "\<exists>r self'. (\<forall>bh. WebRtcVad_CalcVad32khz bh self xs (2 * (2 * n)) = Some (r, self')) \<and> r \<in> {0, 1} \<union> {3..16} \<and> vad_inv self'"
proof -
  obtain st0 st2 where s: "vd_downsampling_filter_states self = (st0, st2)" by (metis prod.collapse)
  obtain ws st where 1: "WebRtcVad_Downsampling xs st2 (2 * (2 * n)) = Some (ws, st)" "length ws = 2 * n"
    using downsampling_ok [OF assms(2)] by blast
  obtain ys st' where 2: "WebRtcVad_Downsampling ws st0 (2 * n) = Some (ys, st')" "length ys = n"
    using downsampling_ok [OF 1(2)] by blast
  have "vad_inv (self\<lparr>vd_downsampling_filter_states := (st', st)\<rparr>)"
    using assms(1) by (simp add: vad_inv_def models_ok_def vectors_ok_def)
  from calc8_ok [OF this 2(2) assms(3)] show ?thesis using 1(1) 2(1) s by (simp add: WebRtcVad_CalcVad32khz_def)
qed

lemma rd_take: "k \<le> length xs \<Longrightarrow> rd (take k xs) 0 k = rd xs 0 k"
  by (simp add: rd_def slice_def)

lemma resample_take:
  assumes "480 \<le> length xs"
  shows "WebRtcSpl_Resample48khzTo8khz (take 480 xs) st t = WebRtcSpl_Resample48khzTo8khz xs st t"
  by (simp add: WebRtcSpl_Resample48khzTo8khz_def rd_take [OF assms])

lemma resample_loop_ok:
  assumes "480 \<le> length xs" "length (S_24_16 st) = 8"
  shows "\<exists>ys st'. vad_resample_loop n xs st = Some (ys, st') \<and> length ys = 80 * n \<and> length (S_24_16 st') = 8"
  using assms(2)
proof (induction n arbitrary: st)
  case (Suc n)
  have t: "length (take 480 xs) = 480" using assms(1) by simp
  obtain x st1 where 1: "WebRtcSpl_Resample48khzTo8khz xs st (replicate (480 + 256) 0) = Some (x, st1)" "length x = 80" "length (S_24_16 st1) = 8"
    using conv_48_8_ok [OF t Suc.prems] convert_48_8 [OF t Suc.prems, of "replicate (480 + 256) 0"] resample_take [OF assms(1), of st] by auto
  then show ?case using Suc.IH [OF 1(3)] by auto
qed simp

lemma calc48_ok:
  assumes "vad_inv self" "length xs = 6 * n" "n \<in> {80, 160, 240}"
  shows "\<exists>r self'. (\<forall>bh. WebRtcVad_CalcVad48khz bh self xs (6 * n) = Some (r, self')) \<and> r \<in> {0, 1} \<union> {3..16} \<and> vad_inv self'"
proof -
  have k: "80 * (6 * n div 480) = n" "480 \<le> length xs" using assms(2,3) by auto
  have "length (S_24_16 (vd_state_48_to_8 self)) = 8" using assms(1) by (simp add: vad_inv_def)
  from resample_loop_ok [OF k(2) this, of "6 * n div 480"] k(1) obtain ys st where 1:
    "vad_resample_loop (6 * n div 480) xs (vd_state_48_to_8 self) = Some (ys, st)" "length ys = n" "length (S_24_16 st) = 8" by auto
  have "vad_inv (self\<lparr>vd_state_48_to_8 := st\<rparr>)" using assms(1) 1(3) by (simp add: vad_inv_def models_ok_def vectors_ok_def)
  from calc8_ok [OF this 1(2) assms(3)] show ?thesis using 1(1) by (simp add: WebRtcVad_CalcVad48khz_def)
qed

section \<open>Every call returns\<close>

lemma valid_iff:
  "WebRtcVad_ValidRateAndFrameLength fs n = 0 \<longleftrightarrow>
     (fs = 8000 \<and> n \<in> {80, 160, 240}) \<or> (fs = 16000 \<and> n \<in> {160, 320, 480})
     \<or> (fs = 32000 \<and> n \<in> {320, 640, 960}) \<or> (fs = 48000 \<and> n \<in> {480, 960, 1440})"
  by (auto simp: WebRtcVad_ValidRateAndFrameLength_def kValidRates_def kMaxFrameLengthMs_def)

lemma process_ok:
  assumes "vad_inv self" "WebRtcVad_ValidRateAndFrameLength fs n = 0" "length frame = nat n"
  shows "\<exists>r self'. (\<forall>bh. WebRtcVad_Process bh (Some self) fs (Some frame) n = Some (r, Some self')) \<and> r \<in> {0, 1} \<and> vad_inv self'"
proof -
  define m where "m = nat n"
  have fin: "\<exists>r self'. (\<forall>bh. (do { (vad, self) \<leftarrow> c bh; Some (if vad > 0 then 1 else vad, Some self) }) = Some (r, Some self')) \<and> r \<in> {0, 1} \<and> vad_inv self'"
    if "\<exists>r self'. (\<forall>bh. c bh = Some (r, self')) \<and> r \<in> {0, 1} \<union> {3..16} \<and> vad_inv self'" for c :: "int \<times> int \<Rightarrow> (int \<times> VadInstT) option"
    using that by auto
  have i: "vd_init_flag self = vad_kInitCheck" using assms(1) by (simp add: vad_inv_def)
  from assms(2) [unfolded valid_iff] consider "fs = 8000" "m \<in> {80, 160, 240}" | "fs = 16000" "\<exists>k \<in> {80, 160, 240}. m = 2 * k"
    | "fs = 32000" "\<exists>k \<in> {80, 160, 240}. m = 2 * (2 * k)" | "fs = 48000" "\<exists>k \<in> {80, 160, 240}. m = 6 * k"
    unfolding m_def by (elim disjE conjE) auto
  then show ?thesis
  proof cases
    case 1
    show ?thesis using assms(2) fin [OF calc8_ok [OF assms(1) assms(3) [folded m_def] 1(2)]] 1(1)
      by (simp add: WebRtcVad_Process_def i flip: m_def)
  next
    case 2
    then obtain k where k: "k \<in> {80, 160, 240}" "m = 2 * k" by blast
    show ?thesis using assms(2) fin [OF calc16_ok [OF assms(1) _ k(1), of frame]] k(2) assms(3) 2(1)
      by (simp add: WebRtcVad_Process_def i flip: m_def)
  next
    case 3
    then obtain k where k: "k \<in> {80, 160, 240}" "m = 2 * (2 * k)" by blast
    show ?thesis using assms(2) fin [OF calc32_ok [OF assms(1) _ k(1), of frame]] k(2) assms(3) 3(1)
      by (simp add: WebRtcVad_Process_def i flip: m_def)
  next
    case 4
    then obtain k where k: "k \<in> {80, 160, 240}" "m = 6 * k" by blast
    show ?thesis using assms(2) fin [OF calc48_ok [OF assms(1) _ k(1), of frame]] k(2) assms(3) 4(1)
      by (simp add: WebRtcVad_Process_def i flip: m_def)
  qed
qed


section \<open>Reachable instances\<close>

text \<open>An instance is initialised from any memory, then modes are set and frames are processed.\<close>

inductive vad_reach :: "VadInstT \<Rightarrow> bool" where
  start: "WebRtcVad_Init (Some memory) = (r, Some self) \<Longrightarrow> vad_reach self"
| mode: "vad_reach self \<Longrightarrow> WebRtcVad_set_mode (Some self) mode = (r, Some self') \<Longrightarrow> vad_reach self'"
| frame: "vad_reach self \<Longrightarrow> length xs = nat n \<Longrightarrow> WebRtcVad_Process behind (Some self) fs (Some xs) n = Some (r, Some self')
    \<Longrightarrow> vad_reach self'"

lemma process_invalid:
  assumes "vad_inv self" "WebRtcVad_ValidRateAndFrameLength fs n \<noteq> 0"
  shows "WebRtcVad_Process bh (Some self) fs (Some xs) n = Some (-1, Some self)"
  using assms by (simp add: WebRtcVad_Process_def)

lemma vad_reach_inv: "vad_reach self \<Longrightarrow> vad_inv self"
proof (induction rule: vad_reach.induct)
  case (start memory r self)
  then show ?case using vad_init_inv [of memory] by auto
next
  case (mode self mode r self')
  then show ?case using set_mode_inv by blast
next
  case (frame self xs n behind fs r self')
  show ?case
  proof (cases "WebRtcVad_ValidRateAndFrameLength fs n = 0")
    case True
    from process_ok [OF frame.IH True frame.hyps(2)] obtain r1 self1 where
      "\<And>bh. WebRtcVad_Process bh (Some self) fs (Some xs) n = Some (r1, Some self1)" "vad_inv self1" by blast
    then show ?thesis using frame.hyps(3) by simp
  next
    case False
    then show ?thesis using process_invalid [OF frame.IH False, of _ xs] frame.hyps(3) frame.IH by simp
  qed
qed

definition vad_fresh :: VadInstT where
  "vad_fresh = the (snd (WebRtcVad_Init (Some \<lparr>vd_vad = 7, vd_downsampling_filter_states = ((0, 0), 0, 0),
     vd_state_48_to_8 = WebRtcSpl_ResetResample48khzTo8khz, vd_noise_means = [], vd_speech_means = [], vd_noise_stds = [],
     vd_speech_stds = [], vd_frame_counter = 0, vd_over_hang = 0, vd_num_of_speech = 0, vd_index_vector = [],
     vd_low_value_vector = [], vd_mean_value = [], vd_features = \<lparr>fs_upper = [], fs_lower = [], fs_hp = (0, 0, 0, 0)\<rparr>,
     vd_over_hang_max_1 = [], vd_over_hang_max_2 = [], vd_individual = [], vd_total = [], vd_init_flag = 0\<rparr>)))"

lemma fresh_reach: "vad_reach vad_fresh"
  using vad_init_inv unfolding vad_fresh_def by (metis option.sel snd_conv start)

text \<open>
  C10: The voice activity detector decides every frame.  Whatever modes were set and whatever audio was
  processed since the initialisation, a frame of 10, 20 or 30 ms at 8, 16, 32 or 48 kHz gives 0 or 1 and an
  initialised instance: no Gaussian has a variance so small or a mean so far off that the
  exponent of its probability becomes negative or a shift reaches 32 bits, and no index leaves an array, but for the
  one read behind the cells of the last channel when an old value is removed: whatever is found
  there (\<open>behind\<close>), the decision and the instance are the same.  Every other rate or length is
  refused with -1 and changes nothing.
\<close>

theorem vad_process_total:
  assumes "vad_reach self" "length xs = nat n"
  shows "\<exists>r self'. (\<forall>behind. WebRtcVad_Process behind (Some self) fs (Some xs) n = Some (r, Some self'))
    \<and> (if (fs, n) \<in> set (concat (map (\<lambda>f. map (\<lambda>ms. (f, f div 1000 * ms)) [10, 20, 30]) [8000, 16000, 32000, 48000]))
       then r \<in> {0, 1} \<and> vd_init_flag self' = 42 else r = -1 \<and> self' = self)"
proof (cases "WebRtcVad_ValidRateAndFrameLength fs n = 0")
  case True
  then show ?thesis using process_ok [OF vad_reach_inv [OF assms(1)] True assms(2)] unfolding valid_iff
    by (auto simp: vad_inv_def vad_kInitCheck_def)
next
  case False
  then show ?thesis using process_invalid [OF vad_reach_inv [OF assms(1)] False, of _ xs] unfolding valid_iff by auto
qed

lemma vad_process_total_witness:
  "\<exists>r self'. (\<forall>behind. WebRtcVad_Process behind (Some vad_fresh) 8000 (Some (replicate 80 1000)) 80 = Some (r, Some self'))
    \<and> (if (8000 :: int, 80 :: int) \<in> set (concat (map (\<lambda>f. map (\<lambda>ms. (f, f div 1000 * ms)) [10, 20, 30]) [8000, 16000, 32000, 48000]))
       then r \<in> {0, 1} \<and> vd_init_flag self' = 42 else r = -1 \<and> self' = (vad_fresh :: VadInstT))"
  by (rule vad_process_total [OF fresh_reach]) simp

section \<open>At 48 kHz only the first 10 ms are heard\<close>

text \<open>
  C24: At 48 kHz a frame of 20 or 30 ms is judged by its first 10 ms alone, resampled two or three times:
  frames that agree in their first 480 samples give the same decision and the same state.
\<close>

theorem vad48_ignores_tail:
  assumes "take 480 xs = take 480 ys" "480 \<le> length xs" "480 \<le> length ys"
  shows "WebRtcVad_Process behind handle 48000 (Some xs) n = WebRtcVad_Process behind handle 48000 (Some ys) n"
proof -
  have "vad_resample_loop k xs st = vad_resample_loop k ys st" for k st
  proof (induction k arbitrary: st)
    case (Suc k)
    then show ?case using resample_take [OF assms(2), of st] resample_take [OF assms(3), of st] assms(1) by (simp add: Suc)
  qed simp
  then show ?thesis by (cases handle) (simp_all add: WebRtcVad_Process_def WebRtcVad_CalcVad48khz_def)
qed

lemma vad48_ignores_tail_witness:
  "WebRtcVad_Process (0, 0) (Some vad_fresh) 48000 (Some (replicate 480 0 @ replicate 960 9000)) 1440
    = WebRtcVad_Process (0, 0) (Some vad_fresh) 48000 (Some (replicate 1440 0)) 1440"
  by (rule vad48_ignores_tail) simp_all

section \<open>The hysteresis\<close>

text \<open>The decisions of a sequence of frames, given what the test says of each.\<close>

fun smooth_run :: "int \<Rightarrow> int \<Rightarrow> bool list \<Rightarrow> VadInstT \<Rightarrow> bool list" where
  "smooth_run o1 o2 [] self = []"
| "smooth_run o1 o2 (v # vs) self = (let (r, self) = vad_smooth o1 o2 v self in (r > 0) # smooth_run o1 o2 vs self)"

lemma smooth_silent:
  assumes "vd_over_hang self = int h" "h \<le> 32000"
  shows "smooth_run o1 o2 (replicate d False) self = replicate (min d h) True @ replicate (d - h) False"
  using assms
proof (induction d arbitrary: self h)
  case (Suc d)
  show ?case
  proof (cases h)
    case 0
    then show ?thesis using Suc.IH [of "self\<lparr>vd_num_of_speech := 0\<rparr>" 0] Suc.prems by (simp add: vad_smooth_def)
  next
    case (Suc h')
    then show ?thesis using Suc.IH [of "self\<lparr>vd_over_hang := int h', vd_num_of_speech := 0\<rparr>" h'] Suc.prems
      by (simp add: vad_smooth_def s16_id)
  qed
qed simp

lemma smooth_speech:
  assumes "vd_num_of_speech self = int (min k 6)" "0 < k + j" "k = 0 \<or> vd_over_hang self = (if k > 6 then o2 else o1)"
  shows "\<exists>self'. vd_over_hang self' = (if k + j > 6 then o2 else o1)
    \<and> smooth_run o1 o2 (replicate j True @ vs) self = replicate j True @ smooth_run o1 o2 vs self'"
  using assms
proof (induction j arbitrary: self k)
  case 0
  then show ?case by auto
next
  case (Suc j)
  define self1 where "self1 = snd (vad_smooth o1 o2 True self)"
  have s: "vad_smooth o1 o2 True self = (1, self1)" "vd_num_of_speech self1 = int (min (Suc k) 6)"
    "vd_over_hang self1 = (if Suc k > 6 then o2 else o1)"
    using Suc.prems(1) by (auto simp: self1_def vad_smooth_def Let_def kMaxSpeechFrames_def s16_id min_def)
  show ?case using Suc.IH [OF s(2)] s by auto
qed

text \<open>
  C20: The hang-over of the detector: after \<open>j\<close> frames of speech in a row the decision stays active for exactly
  the number of frames of the mode, \<open>over_hang_max_1\<close> after at most six, \<open>over_hang_max_2\<close> after more, and
  is inactive from then on while the test hears no speech.
\<close>

theorem vad_hangover:
  assumes "vd_num_of_speech self = 0" "0 < j" "0 \<le> o1" "o1 \<le> 14" "0 \<le> o2" "o2 \<le> 14"
  shows "let h = nat (if j > 6 then o2 else o1) in
    smooth_run o1 o2 (replicate j True @ replicate d False) self = replicate (j + min d h) True @ replicate (d - h) False"
proof -
  define h where "h = nat (if j > 6 then o2 else o1)"
  have "0 < 0 + j" using assms(2) by simp
  with smooth_speech [of self 0 j o2 o1 "replicate d False"] assms(1) obtain self' where
    1: "vd_over_hang self' = (if j > 6 then o2 else o1)"
      "smooth_run o1 o2 (replicate j True @ replicate d False) self = replicate j True @ smooth_run o1 o2 (replicate d False) self'"
    by auto
  have "vd_over_hang self' = int h" "h \<le> 32000" using assms(3-6) 1(1) by (auto simp: h_def)
  from smooth_silent [OF this, of o1 o2 d] show ?thesis unfolding 1(2) Let_def h_def [symmetric] by (simp add: replicate_add)
qed

lemma vad_hangover_witness:
  "let h = nat (if (3 :: nat) > 6 then 14 else 8) in
    smooth_run 8 14 (replicate 3 True @ replicate 20 False) vad_fresh = replicate (3 + min 20 h) True @ replicate (20 - h) False"
  by (rule vad_hangover) (simp_all add: vad_fresh_def WebRtcVad_Init_def WebRtcVad_InitCore_def WebRtcVad_set_mode_core_def set_limits_def)

section \<open>The smallest values\<close>

text \<open>
  C17: \<open>WebRtcVad_FindMinimum\<close> keeps the sixteen smallest values of a channel sorted: its binary search and the
  shift of the cells insert the feature into the values that are left after those of a hundred frames were
  removed, the largest falls out, and the cells of the other five channels do not change.
\<close>

theorem vad_minimum_insort:
  assumes "vad_reach self" "c < 6" "x \<le> 10000" "WebRtcVad_FindMinimum behind self x c = Some (m, self')"
    "fm_age 0 16 (slice (c * 16) 17 (vd_index_vector self @ [fst behind]))
       (slice (c * 16) 17 (vd_low_value_vector self @ [snd behind])) = (ages, left)" "d < 6"
  shows "slice (16 * d) 16 (vd_low_value_vector self')
      = (if d = c then take 16 (insort x (take 16 left)) else slice (16 * d) 16 (vd_low_value_vector self))
    \<and> sorted (slice (16 * d) 16 (vd_low_value_vector self'))"
proof -
  have "vectors_ok self" using vad_reach_inv [OF assms(1)] by (simp add: vad_inv_def)
  from find_minimum_cells [OF this assms(2,3)] obtain k iv lv mv where
    fm: "\<And>bh. WebRtcVad_FindMinimum bh self x c = Some (k, with_vectors iv lv mv self)" "vectors_ok (with_vectors iv lv mv self)"
    and cells: "\<And>bh d. d < 6 \<Longrightarrow> slice (16 * d) 16 lv = (if d = c then take 16 (insort x (take 16 (snd (fm_age 0 16
          (slice (c * 16) 17 (vd_index_vector self @ [fst bh])) (slice (c * 16) 17 (vd_low_value_vector self @ [snd bh]))))))
        else slice (16 * d) 16 (vd_low_value_vector self))"
    by (elim exE conjE) (rule that, blast+)
  have "self' = with_vectors iv lv mv self" using fm(1) [of behind] assms(4) by simp
  moreover have "sorted (slice (16 * d) 16 lv)" using fm(2) assms(6) by (simp add: with_vectors_def vectors_ok_def low_cells_ok_def)
  moreover have "vd_low_value_vector (with_vectors iv lv mv self) = lv" by (simp add: with_vectors_def)
  ultimately show ?thesis using cells [OF assms(6), of behind] unfolding assms(5) snd_conv by metis
qed

lemma vad_minimum_insort_witness:
  "\<exists>m self' ages left. WebRtcVad_FindMinimum (7, 7) vad_fresh 500 0 = Some (m, self')
    \<and> fm_age 0 16 (slice (0 * 16) 17 (vd_index_vector vad_fresh @ [fst (7, 7 :: int)]))
       (slice (0 * 16) 17 (vd_low_value_vector vad_fresh @ [snd (7 :: int, 7)])) = (ages, left)
    \<and> slice (16 * 0) 16 (vd_low_value_vector self')
      = (if (0 :: nat) = 0 then take 16 (insort 500 (take 16 left)) else slice (16 * 0) 16 (vd_low_value_vector vad_fresh))
    \<and> sorted (slice (16 * 0) 16 (vd_low_value_vector self'))"
proof -
  have "vectors_ok vad_fresh" using vad_reach_inv [OF fresh_reach] by (simp add: vad_inv_def)
  from find_minimum_ok [OF this, of 0 500] obtain m self' where
    fm: "WebRtcVad_FindMinimum (7, 7) vad_fresh 500 0 = Some (m, self')" by auto
  obtain ages left where age: "fm_age 0 16 (slice (0 * 16) 17 (vd_index_vector vad_fresh @ [fst (7, 7 :: int)]))
       (slice (0 * 16) 17 (vd_low_value_vector vad_fresh @ [snd (7 :: int, 7)])) = (ages, left)" by (metis prod.collapse)
  have "(0 :: nat) < 6" "(500 :: int) \<le> 10000" by simp_all
  from vad_minimum_insort [OF fresh_reach this fm age this(1)] fm age show ?thesis by blast
qed

end
