(* ===== verification/G711.thy ===== *)
theory G711
  imports Spl_Norm
begin

text \<open>
  The codec G.711 (\<open>modules/audio_coding/codecs/g711\<close>): the companding laws of \<open>g711.h\<close> with the portable search for
  the segment, the transcoding tables of \<open>g711.c\<close>, and the functions the jitter buffer calls
  (\<open>g711_interface.c\<close>, little-endian), which pack two codes into a 16-bit word.
\<close>

section \<open>The laws\<close>

text \<open>\<open>top_bit\<close>: the number of the highest set bit of a 32-bit word, -1 for none.\<close>

definition top_bit_step :: "int \<Rightarrow> int \<Rightarrow> int \<times> int \<Rightarrow> int \<times> int" where
  "top_bit_step m n = (\<lambda>(bits, i). if bits AND m \<noteq> 0 then (bits AND m, i + n) else (bits, i))"

definition top_bit :: "int \<Rightarrow> int" where
  "top_bit bits =
     (if bits = 0 then -1
      else snd (top_bit_step 0xAAAAAAAA 1 (top_bit_step 0xCCCCCCCC 2 (top_bit_step 0xF0F0F0F0 4
             (top_bit_step 0xFF00FF00 8 (top_bit_step 0xFFFF0000 16 (bits, 0)))))))"

definition ULAW_BIAS :: int where "ULAW_BIAS = 0x84"
definition ALAW_AMI_MASK :: int where "ALAW_AMI_MASK = 0x55"

definition linear_to_ulaw :: "int \<Rightarrow> int" where
  "linear_to_ulaw linear =
     (let (linear, msk) = (if linear < 0 then (ULAW_BIAS - linear - 1, 0x7F) else (ULAW_BIAS + linear, 0xFF));
          seg = top_bit (u32 (linear OR 0xFF)) - 7
      in if seg \<ge> 8 then u8 (0x7F XOR msk)
         else u8 ((shl seg 4 OR (shr linear (nat (seg + 3)) AND 0xF)) XOR msk))"

definition ulaw_to_linear :: "int \<Rightarrow> int" where
  "ulaw_to_linear ulaw =
     (let ulaw = u8 (NOT ulaw);
          t = shl (shl (ulaw AND 0x0F) 3 + ULAW_BIAS) (nat (shr (ulaw AND 0x70) 4))
      in s16 (if ulaw AND 0x80 \<noteq> 0 then ULAW_BIAS - t else t - ULAW_BIAS))"

definition linear_to_alaw :: "int \<Rightarrow> int" where
  "linear_to_alaw linear =
     (let (linear, msk) = (if linear \<ge> 0 then (linear, ALAW_AMI_MASK OR 0x80) else (- linear - 1, ALAW_AMI_MASK));
          seg = top_bit (u32 (linear OR 0xFF)) - 7
      in if seg \<ge> 8 then if linear \<ge> 0 then u8 (0x7F XOR msk) else u8 (0x00 XOR msk)
         else u8 ((shl seg 4 OR (shr linear (nat (if seg \<noteq> 0 then seg + 3 else 4)) AND 0x0F)) XOR msk))"

definition alaw_to_linear :: "int \<Rightarrow> int" where
  "alaw_to_linear alaw =
     (let alaw = alaw XOR ALAW_AMI_MASK;
          i = shl (alaw AND 0x0F) 4;
          seg = shr (alaw AND 0x70) 4;
          i = (if seg \<noteq> 0 then shl (i + 0x108) (nat (seg - 1)) else i + 8)
      in s16 (if alaw AND 0x80 \<noteq> 0 then i else - i))"

definition ulaw_to_alaw_table :: "int list" where
  "ulaw_to_alaw_table = [
     42, 43, 40, 41, 46, 47, 44, 45, 34, 35, 32, 33, 38, 39, 36, 37, 58, 59, 56, 57, 62, 63, 60, 61, 50, 51, 48, 49, 54, 55, 52, 53,
     10, 11, 8, 9, 14, 15, 12, 13, 2, 3, 0, 1, 6, 7, 4, 26, 27, 24, 25, 30, 31, 28, 29, 18, 19, 16, 17, 22, 23, 20, 21, 106,
     104, 105, 110, 111, 108, 109, 98, 99, 96, 97, 102, 103, 100, 101, 122, 120, 126, 127, 124, 125, 114, 115, 112, 113, 118, 119, 116, 117, 75, 73, 79, 77,
     66, 67, 64, 65, 70, 71, 68, 69, 90, 91, 88, 89, 94, 95, 92, 93, 82, 82, 83, 83, 80, 80, 81, 81, 86, 86, 87, 87, 84, 84, 85, 85,
     170, 171, 168, 169, 174, 175, 172, 173, 162, 163, 160, 161, 166, 167, 164, 165, 186, 187, 184, 185, 190, 191, 188, 189, 178, 179, 176, 177, 182, 183, 180, 181,
     138, 139, 136, 137, 142, 143, 140, 141, 130, 131, 128, 129, 134, 135, 132, 154, 155, 152, 153, 158, 159, 156, 157, 146, 147, 144, 145, 150, 151, 148, 149, 234,
     232, 233, 238, 239, 236, 237, 226, 227, 224, 225, 230, 231, 228, 229, 250, 248, 254, 255, 252, 253, 242, 243, 240, 241, 246, 247, 244, 245, 203, 201, 207, 205,
     194, 195, 192, 193, 198, 199, 196, 197, 218, 219, 216, 217, 222, 223, 220, 221, 210, 210, 211, 211, 208, 208, 209, 209, 214, 214, 215, 215, 212, 212, 213, 213]"

definition alaw_to_ulaw_table :: "int list" where
  "alaw_to_ulaw_table = [
     42, 43, 40, 41, 46, 47, 44, 45, 34, 35, 32, 33, 38, 39, 36, 37, 57, 58, 55, 56, 61, 62, 59, 60, 49, 50, 47, 48, 53, 54, 51, 52,
     10, 11, 8, 9, 14, 15, 12, 13, 2, 3, 0, 1, 6, 7, 4, 5, 26, 27, 24, 25, 30, 31, 28, 29, 18, 19, 16, 17, 22, 23, 20, 21,
     98, 99, 96, 97, 102, 103, 100, 101, 93, 93, 92, 92, 95, 95, 94, 94, 116, 118, 112, 114, 124, 126, 120, 122, 106, 107, 104, 105, 110, 111, 108, 109,
     72, 73, 70, 71, 76, 77, 74, 75, 64, 65, 63, 63, 68, 69, 66, 67, 86, 87, 84, 85, 90, 91, 88, 89, 79, 79, 78, 78, 82, 83, 80, 81,
     170, 171, 168, 169, 174, 175, 172, 173, 162, 163, 160, 161, 166, 167, 164, 165, 185, 186, 183, 184, 189, 190, 187, 188, 177, 178, 175, 176, 181, 182, 179, 180,
     138, 139, 136, 137, 142, 143, 140, 141, 130, 131, 128, 129, 134, 135, 132, 133, 154, 155, 152, 153, 158, 159, 156, 157, 146, 147, 144, 145, 150, 151, 148, 149,
     226, 227, 224, 225, 230, 231, 228, 229, 221, 221, 220, 220, 223, 223, 222, 222, 244, 246, 240, 242, 252, 254, 248, 250, 234, 235, 232, 233, 238, 239, 236, 237,
     200, 201, 198, 199, 204, 205, 202, 203, 192, 193, 191, 191, 196, 197, 194, 195, 214, 215, 212, 213, 218, 219, 216, 217, 207, 207, 206, 206, 210, 211, 208, 209]"

definition alaw_to_ulaw :: "int \<Rightarrow> int" where
  "alaw_to_ulaw alaw = alaw_to_ulaw_table ! nat alaw"

definition ulaw_to_alaw :: "int \<Rightarrow> int" where
  "ulaw_to_alaw ulaw = ulaw_to_alaw_table ! nat ulaw"

section \<open>The interface\<close>

text \<open>The codes of an even and of the next odd sample go into the low and the high byte of a word.\<close>

fun g711_pack :: "int list \<Rightarrow> int list" where
  "g711_pack (a # b # codes) = s16 (s16 a OR shl b 8) # g711_pack codes"
| "g711_pack [a] = [s16 a]"
| "g711_pack [] = []"

text \<open>The code of sample \<open>n\<close>, from the word \<open>n >> 1\<close>; \<open>None\<close> behind the end of the input.\<close>

definition g711_code :: "int list \<Rightarrow> nat \<Rightarrow> int option" where
  "g711_code encoded n =
     (if n div 2 < length encoded
      then Some (u8 (if odd n then shr (encoded ! (n div 2)) 8 else encoded ! (n div 2) AND 0xFF)) else None)"

fun g711_codes :: "int list \<Rightarrow> nat \<Rightarrow> nat \<Rightarrow> int list option" where
  "g711_codes encoded n 0 = Some []"
| "g711_codes encoded n (Suc k) = do { c \<leftarrow> g711_code encoded n; cs \<leftarrow> g711_codes encoded (n + 1) k; Some (c # cs) }"

text \<open>
  The result is the return value and the output.  The output buffer is given by its length in words; a
  sample that does not exist or a word that does not fit is \<open>None\<close>.  The length is a 16-bit number, to which the call narrows it.
\<close>

definition g711_encode :: "(int \<Rightarrow> int) \<Rightarrow> int list \<Rightarrow> int \<Rightarrow> nat \<Rightarrow> (int \<times> int list) option" where
  "g711_encode law speechIn len room =
     (let len = s16 len in
      if len < 0 then Some (-1, [])
      else if nat len \<le> length speechIn \<and> (nat len + 1) div 2 \<le> room
      then Some (len, g711_pack (map law (take (nat len) speechIn))) else None)"

definition WebRtcG711_EncodeA :: "int list \<Rightarrow> int \<Rightarrow> nat \<Rightarrow> (int \<times> int list) option" where
  "WebRtcG711_EncodeA = g711_encode linear_to_alaw"

definition WebRtcG711_EncodeU :: "int list \<Rightarrow> int \<Rightarrow> nat \<Rightarrow> (int \<times> int list) option" where
  "WebRtcG711_EncodeU = g711_encode linear_to_ulaw"

text \<open>The result is the return value, the output and the speech type, if they are set.\<close>

definition g711_decode :: "(int \<Rightarrow> int) \<Rightarrow> int list \<Rightarrow> int \<Rightarrow> nat \<Rightarrow> (int \<times> int list \<times> int option) option" where
  "g711_decode law encoded len room =
     (let len = s16 len in
      if len < 0 then Some (-1, [], None)
      else if nat len \<le> room
      then do { cs \<leftarrow> g711_codes encoded 0 (nat len); Some (len, map law cs, Some 1) } else None)"

definition WebRtcG711_DecodeA :: "int list \<Rightarrow> int \<Rightarrow> nat \<Rightarrow> (int \<times> int list \<times> int option) option" where
  "WebRtcG711_DecodeA = g711_decode alaw_to_linear"

definition WebRtcG711_DecodeU :: "int list \<Rightarrow> int \<Rightarrow> nat \<Rightarrow> (int \<times> int list \<times> int option) option" where
  "WebRtcG711_DecodeU = g711_decode ulaw_to_linear"

definition WebRtcG711_DurationEst :: "int list \<Rightarrow> int \<Rightarrow> int" where
  "WebRtcG711_DurationEst payload payload_length_bytes = payload_length_bytes"

section \<open>The search for the segment\<close>

text \<open>
  After the step of width \<open>w\<close> the word holds the bits from \<open>w * (h div w)\<close> to \<open>h\<close>, the highest set bit,
  so the next mask meets it exactly when \<open>h\<close> lies in the upper half of its block.
\<close>

definition top_in :: "nat \<Rightarrow> nat \<Rightarrow> int \<Rightarrow> bool" where
  "top_in w h bits \<longleftrightarrow> bit bits h \<and> (\<forall>j. bit bits j \<longrightarrow> w * (h div w) \<le> j \<and> j \<le> h)"

lemma block_div:
  assumes "0 < (w :: nat)"
  shows "h div w = 2 * (h div (2 * w)) + h mod (2 * w) div w"
proof -
  have "2 * (h div (2 * w)) * w + h mod (2 * w) = h" by (metis div_mult_mod_eq mult.assoc mult.commute)
  then show ?thesis using div_mult_self3 [of w "2 * (h div (2 * w))" "h mod (2 * w)"] assms by simp
qed

lemma top_bit_step_ok:
  assumes "top_in (2 * w) h (fst s)" "0 < w" "h < 32" "\<forall>j < 32. bit m j \<longleftrightarrow> w \<le> j mod (2 * w)"
  shows "top_in w h (fst (top_bit_step m n s))" "snd (top_bit_step m n s) = snd s + (if w \<le> h mod (2 * w) then n else 0)"
proof -
  obtain bits i where s: "s = (bits, i)" by (cases s)
  have h: "h = 2 * w * (h div (2 * w)) + h mod (2 * w)" by simp
  have b: "bit bits h" "\<And>j. bit bits j \<Longrightarrow> 2 * w * (h div (2 * w)) \<le> j \<and> j \<le> h" using assms(1) by (auto simp: top_in_def s)
  have block: "j div (2 * w) = h div (2 * w)" if "bit bits j" for j
    using b(2) [OF that] assms(2) by (metis div_le_mono div_mult_self1_is_m le_antisym mult_pos_pos zero_less_numeral)
  have jm: "j mod (2 * w) = j - 2 * w * (h div (2 * w))" if "bit bits j" for j
    using block [OF that] by (metis minus_mult_div_eq_mod)
  have "top_in w h (fst (top_bit_step m n s)) \<and> snd (top_bit_step m n s) = snd s + (if w \<le> h mod (2 * w) then n else 0)"
  proof (cases "w \<le> h mod (2 * w)")
    case True
    have "bit (bits AND m) h" using b(1) True assms(3,4) by (simp add: bit_and_iff)
    then have nz: "bits AND m \<noteq> 0" by auto
    have "w * (h div w) = 2 * w * (h div (2 * w)) + w"
    proof -
      note block_div [OF assms(2), of h]
      moreover have "h mod (2 * w) < 2 * w" using assms(2) by simp
      then have "h mod (2 * w) div w = 1" using True by (intro div_nat_eqI) simp_all
      ultimately show ?thesis by (simp add: algebra_simps)
    qed
    moreover have "bit (bits AND m) j \<Longrightarrow> 2 * w * (h div (2 * w)) + w \<le> j \<and> j \<le> h" for j
      using b(2) [of j] jm [of j] assms(3,4) by (auto simp: bit_and_iff)
    ultimately have "top_in w h (bits AND m)" using \<open>bit (bits AND m) h\<close> by (simp add: top_in_def)
    then show ?thesis using nz True by (simp add: top_bit_step_def s)
  next
    case False
    have "\<not> bit (bits AND m) j" for j
    proof
      assume "bit (bits AND m) j"
      then have j: "bit bits j" "bit m j" by (simp_all add: bit_and_iff)
      have "j \<le> h" using b(2) j(1) by blast
      then have "w \<le> j mod (2 * w)" using j(2) assms(3,4) by auto
      moreover have "j mod (2 * w) \<le> h mod (2 * w)" using jm [OF j(1)] jm [OF b(1)] \<open>j \<le> h\<close> by simp
      ultimately show False using False by simp
    qed
    then have "bits AND m = 0" by (simp add: bit_eq_iff)
    moreover have e: "w * (h div w) = 2 * w * (h div (2 * w))" using False by (simp add: block_div [OF assms(2), of h])
    have "top_in w h bits" unfolding top_in_def e using b by blast
    ultimately show ?thesis using False by (simp add: top_bit_step_def s)
  qed
  then show "top_in w h (fst (top_bit_step m n s))" "snd (top_bit_step m n s) = snd s + (if w \<le> h mod (2 * w) then n else 0)"
    by blast+
qed

lemma top_bit_masks:
  "\<forall>j < 32. bit (0xFFFF0000 :: int) j \<longleftrightarrow> 16 \<le> j mod (2 * 16)"
  "\<forall>j < 32. bit (0xFF00FF00 :: int) j \<longleftrightarrow> 8 \<le> j mod (2 * 8)"
  "\<forall>j < 32. bit (0xF0F0F0F0 :: int) j \<longleftrightarrow> 4 \<le> j mod (2 * 4)"
  "\<forall>j < 32. bit (0xCCCCCCCC :: int) j \<longleftrightarrow> 2 \<le> j mod (2 * 2)"
  "\<forall>j < 32. bit (0xAAAAAAAA :: int) j \<longleftrightarrow> 1 \<le> j mod (2 * 1)"
proof -
  have up: "(\<forall>j < 32. P j) \<longleftrightarrow> list_all P [0..<32]" for P by (auto simp: list_all_iff)
  show "\<forall>j < 32. bit (0xFFFF0000 :: int) j \<longleftrightarrow> 16 \<le> j mod (2 * 16)" unfolding up by code_simp
  show "\<forall>j < 32. bit (0xFF00FF00 :: int) j \<longleftrightarrow> 8 \<le> j mod (2 * 8)" unfolding up by code_simp
  show "\<forall>j < 32. bit (0xF0F0F0F0 :: int) j \<longleftrightarrow> 4 \<le> j mod (2 * 4)" unfolding up by code_simp
  show "\<forall>j < 32. bit (0xCCCCCCCC :: int) j \<longleftrightarrow> 2 \<le> j mod (2 * 2)" unfolding up by code_simp
  show "\<forall>j < 32. bit (0xAAAAAAAA :: int) j \<longleftrightarrow> 1 \<le> j mod (2 * 1)" unfolding up by code_simp
qed

lemma bits_sum:
  assumes "h < (32 :: nat)"
  shows "(if 16 \<le> h mod (2 * 16) then 16 else 0) + (if 8 \<le> h mod (2 * 8) then 8 else 0) + (if 4 \<le> h mod (2 * 4) then 4 else 0)
    + (if 2 \<le> h mod (2 * 2) then 2 else 0) + (if 1 \<le> h mod (2 * 1) then 1 else 0) = int h"
proof -
  have "list_all (\<lambda>h. (if 16 \<le> h mod (2 * 16) then 16 else 0) + (if 8 \<le> h mod (2 * 8) then 8 else 0) + (if 4 \<le> h mod (2 * 4) then 4 else 0)
    + (if 2 \<le> h mod (2 * 2) then 2 else 0) + (if 1 \<le> h mod (2 * 1) then 1 else 0) = int h) [0..<32]" by code_simp
  then show ?thesis using assms by (simp add: list_all_iff)
qed

text \<open>The steps compute the binary logarithm.\<close>

lemma top_bit_log:
  assumes "2 ^ h \<le> x" "x < 2 ^ (h + 1)" "x < 2 ^ 32"
  shows "top_bit x = int h"
proof -
  have "(2 :: int) ^ h < 2 ^ 32" using assms(1,3) by (rule le_less_trans)
  then have h: "h < 32" by (simp only: power_strict_increasing_iff)
  have "0 < x" using assms(1) zero_less_power [of "2 :: int" h] by linarith
  have "x div 2 ^ h = 1" using assms(1,2) by (intro int_div_pos_eq [of _ _ 1 "x - 2 ^ h"]) simp_all
  then have "bit x h" by (simp add: bit_iff_odd)
  moreover have "j \<le> h" if "bit x j" for j
  proof (rule ccontr)
    assume "\<not> j \<le> h"
    then have "(2 :: int) ^ (h + 1) \<le> 2 ^ j" by (intro power_increasing) simp_all
    then have "x div 2 ^ j = 0" using assms(2) \<open>0 < x\<close> by simp
    then show False using that by (simp add: bit_iff_odd)
  qed
  ultimately have 0: "top_in (2 * 16) h (fst (x, 0 :: int))" using h by (simp add: top_in_def)
  note 1 = top_bit_step_ok [OF 0 _ h top_bit_masks(1), of 16]
  have "top_in (2 * 8) h (fst (top_bit_step 0xFFFF0000 16 (x, 0)))" using 1(1) by simp
  note 2 = top_bit_step_ok [OF this _ h top_bit_masks(2), of 8]
  have "top_in (2 * 4) h (fst (top_bit_step 0xFF00FF00 8 (top_bit_step 0xFFFF0000 16 (x, 0))))" using 2(1) by simp
  note 3 = top_bit_step_ok [OF this _ h top_bit_masks(3), of 4]
  have "top_in (2 * 2) h (fst (top_bit_step 0xF0F0F0F0 4 (top_bit_step 0xFF00FF00 8 (top_bit_step 0xFFFF0000 16 (x, 0)))))" using 3(1) by simp
  note 4 = top_bit_step_ok [OF this _ h top_bit_masks(4), of 2]
  have "top_in (2 * 1) h (fst (top_bit_step 0xCCCCCCCC 2 (top_bit_step 0xF0F0F0F0 4 (top_bit_step 0xFF00FF00 8
      (top_bit_step 0xFFFF0000 16 (x, 0))))))" using 4(1) by simp
  note 5 = top_bit_step_ok [OF this _ h top_bit_masks(5), of 1]
  show ?thesis using \<open>0 < x\<close> bits_sum [OF h] 1(2) 2(2) 3(2) 4(2) 5(2) by (simp add: top_bit_def)
qed

section \<open>Quantisation\<close>

text \<open>A sample with its bias lies in segment \<open>seg\<close>, and what its code says of it.\<close>

lemma segment:
  assumes "0 \<le> x" "x < 32768"
  shows "\<exists>seg. top_bit (u32 (x OR 0xFF)) - 7 = int seg \<and> seg < 8 \<and> x < 2 ^ (seg + 8) \<and> (seg \<noteq> 0 \<longrightarrow> 2 ^ (seg + 7) \<le> x)"
proof (cases "x < 256")
  case True
  have "x OR 0xFF = 255"
  proof (rule bit_eqI)
    fix j
    have m: "(255 :: int) = mask 8" by (simp add: mask_eq_exp_minus_1)
    have "take_bit 8 x = x" using True assms by (simp add: take_bit_int_eq_self)
    then have "bit x j \<Longrightarrow> j < 8" by (metis bit_take_bit_iff)
    then show "bit (x OR 255) j = bit (255 :: int) j" unfolding m by (auto simp: bit_or_iff bit_mask_iff)
  qed
  moreover have "top_bit 255 = 7" by code_simp
  ultimately show ?thesis using True by (intro exI [of _ 0]) (simp add: u32_id)
next
  case False
  have "\<exists>h. 2 ^ h \<le> nat x \<and> nat x < 2 ^ (h + 1)" by (rule ex_power_ivl1) (use False in simp_all)
  then obtain h where "2 ^ h \<le> nat x" "nat x < 2 ^ (h + 1)" by blast
  then have h: "2 ^ h \<le> x" "x < 2 ^ (h + 1)" using assms(1) by (simp_all add: nat_less_iff le_nat_iff)
  have "(2 :: int) ^ 8 < 2 ^ (h + 1)" using False h(2) by simp
  then have h7: "8 \<le> h" by (simp only: power_strict_increasing_iff)
  have "(2 :: int) ^ h < 2 ^ 15" using h(1) assms(2) by simp
  then have h15: "h < 15" by (simp only: power_strict_increasing_iff)
  define y where "y = x OR 0xFF"
  have y0: "x \<le> y" using or_greater_eq [of 255 x] by (simp add: y_def)
  have "(2 :: int) ^ 8 \<le> 2 ^ (h + 1)" using h7 by (intro power_increasing) simp_all
  then have "y < 2 ^ (h + 1)" unfolding y_def by (intro OR_upper) (use assms(1) h(2) in simp_all)
  moreover have "(2 :: int) ^ (h + 1) \<le> 2 ^ 15" using h15 by (intro power_increasing) simp_all
  ultimately have y: "2 ^ h \<le> y" "y < 2 ^ (h + 1)" "y < 2 ^ 32" "u32 y = y" using y0 h(1) assms(1) by (simp_all add: u32_id)
  have "top_bit (u32 y) = int h" using top_bit_log [OF y(1,2,3)] y(4) by simp
  then show ?thesis using h7 h15 h by (intro exI [of _ "h - 7"]) (simp add: y_def of_nat_diff)
qed

text \<open>The 128 magnitudes of each law, decoded.\<close>

lemma ulaw_codes:
  assumes "seg < 8" "0 \<le> q" "q < 16"
  shows "ulaw_to_linear (u8 ((shl (int seg) 4 OR q) XOR 0xFF)) = (8 * q + 132) * 2 ^ seg - 132"
    "ulaw_to_linear (u8 ((shl (int seg) 4 OR q) XOR 0x7F)) = 132 - (8 * q + 132) * 2 ^ seg"
proof -
  have "list_all (\<lambda>seg. list_all (\<lambda>q. ulaw_to_linear (u8 ((shl (int seg) 4 OR int q) XOR 0xFF)) = (8 * int q + 132) * 2 ^ seg - 132
      \<and> ulaw_to_linear (u8 ((shl (int seg) 4 OR int q) XOR 0x7F)) = 132 - (8 * int q + 132) * 2 ^ seg) [0..<16]) [0..<8]"
    by code_simp
  then have "ulaw_to_linear (u8 ((shl (int seg) 4 OR int (nat q)) XOR 0xFF)) = (8 * int (nat q) + 132) * 2 ^ seg - 132
      \<and> ulaw_to_linear (u8 ((shl (int seg) 4 OR int (nat q)) XOR 0x7F)) = 132 - (8 * int (nat q) + 132) * 2 ^ seg"
    using assms unfolding list_all_iff by (metis atLeastLessThan_iff atLeast_upt lessThan_iff nat_less_numeral_power_cancel_iff nat_numeral nat_mono_iff zero_less_numeral)
  then show "ulaw_to_linear (u8 ((shl (int seg) 4 OR q) XOR 0xFF)) = (8 * q + 132) * 2 ^ seg - 132"
    "ulaw_to_linear (u8 ((shl (int seg) 4 OR q) XOR 0x7F)) = 132 - (8 * q + 132) * 2 ^ seg"
    using assms(2) by simp_all
qed

definition alaw_level :: "nat \<Rightarrow> int \<Rightarrow> int" where
  "alaw_level seg q = (if seg = 0 then 16 * q + 8 else (16 * q + 264) * 2 ^ (seg - 1))"

lemma alaw_codes:
  assumes "seg < 8" "0 \<le> q" "q < 16"
  shows "alaw_to_linear (u8 ((shl (int seg) 4 OR q) XOR 0xD5)) = alaw_level seg q"
    "alaw_to_linear (u8 ((shl (int seg) 4 OR q) XOR 0x55)) = - alaw_level seg q"
proof -
  have "list_all (\<lambda>seg. list_all (\<lambda>q. alaw_to_linear (u8 ((shl (int seg) 4 OR int q) XOR 0xD5)) = alaw_level seg (int q)
      \<and> alaw_to_linear (u8 ((shl (int seg) 4 OR int q) XOR 0x55)) = - alaw_level seg (int q)) [0..<16]) [0..<8]"
    by code_simp
  then have "alaw_to_linear (u8 ((shl (int seg) 4 OR int (nat q)) XOR 0xD5)) = alaw_level seg (int (nat q))
      \<and> alaw_to_linear (u8 ((shl (int seg) 4 OR int (nat q)) XOR 0x55)) = - alaw_level seg (int (nat q))"
    using assms unfolding list_all_iff by (metis atLeastLessThan_iff atLeast_upt lessThan_iff nat_less_numeral_power_cancel_iff nat_numeral nat_mono_iff zero_less_numeral)
  then show "alaw_to_linear (u8 ((shl (int seg) 4 OR q) XOR 0xD5)) = alaw_level seg q"
    "alaw_to_linear (u8 ((shl (int seg) 4 OR q) XOR 0x55)) = - alaw_level seg q"
    using assms(2) by simp_all
qed

text \<open>The four bits behind the leading one, and the middle of their interval.\<close>

lemma interval:
  assumes "2 ^ (seg + 7) \<le> x" "x < 2 ^ (seg + 8)" "q = shr x (seg + 3) AND 15"
  shows "0 \<le> q" "q < 16" "\<bar>(8 * q + 132) * 2 ^ seg - x\<bar> \<le> 2 ^ (seg + 2)" "x - (8 * q + 132) * 2 ^ seg < 2 ^ (seg + 2)"
    "2 ^ (seg + 2) \<le> x div 32"
proof -
  define m where "m = x div 2 ^ (seg + 3)"
  define e :: int where "e = 2 ^ seg"
  have e: "0 < e" "2 ^ (seg + 2) = 4 * e" "2 ^ (seg + 3) = 8 * e" "2 ^ (seg + 7) = 128 * e" "2 ^ (seg + 8) = 256 * e"
    by (simp_all add: e_def power_add)
  have "16 * (8 * e) \<le> x" "x < 32 * (8 * e)" using assms(1,2) by (simp_all add: e)
  then have m: "16 \<le> m" "m < 32"
    using e(1) zdiv_mono1 [of "16 * (8 * e)" x "8 * e"] int_div_less [of "8 * e" x 32] by (simp_all add: m_def e)
  have fif: "k AND 15 = k mod 16" for k :: int using and_mask_field [of k 4] by simp
  have "m mod 16 = m - 16" using m by presburger
  then have q: "q = m - 16" by (simp add: assms(3) drop_bit_eq_div fif flip: m_def)
  show "0 \<le> q" "q < 16" using m by (simp_all add: q)
  define r where "r = x mod 2 ^ (seg + 3)"
  have r: "0 \<le> r" "r < 8 * e" using e(1) by (simp_all add: r_def e)
  have x: "x = m * (8 * e) + r" unfolding m_def r_def e(3) by (rule div_mult_mod_eq [symmetric])
  have t: "(8 * q + 132) * 2 ^ seg = m * (8 * e) + 4 * e" by (simp add: q e_def algebra_simps)
  show "\<bar>(8 * q + 132) * 2 ^ seg - x\<bar> \<le> 2 ^ (seg + 2)" "x - (8 * q + 132) * 2 ^ seg < 2 ^ (seg + 2)"
    unfolding t x e(2) using r by simp_all
  show "2 ^ (seg + 2) \<le> x div 32" using zdiv_mono1 [of "128 * e" x 32] assms(1) unfolding e(2,4) by simp
qed

text \<open>The error of a sample, in both laws.\<close>

lemma ulaw_error:
  assumes "-32768 \<le> x" "x < 32768"
  shows "\<bar>ulaw_to_linear (linear_to_ulaw x) - x\<bar> \<le> (\<bar>x\<bar> + 132) div 32"
proof -
  define y msk :: int where "y = (if x < 0 then 132 - x - 1 else 132 + x)" "msk = (if x < 0 then 0x7F else 0xFF)"
  have y: "132 \<le> y" "y < 32900" "y \<le> \<bar>x\<bar> + 132" using assms by (simp_all add: y_msk_def)
  have code: "linear_to_ulaw x = (let seg = top_bit (u32 (y OR 0xFF)) - 7 in if seg \<ge> 8 then u8 (0x7F XOR msk)
      else u8 ((shl seg 4 OR (shr y (nat (seg + 3)) AND 0xF)) XOR msk))"
    by (simp add: linear_to_ulaw_def ULAW_BIAS_def y_msk_def Let_def)
  show ?thesis
  proof (cases "y < 32768")
    case True
    obtain seg where s: "top_bit (u32 (y OR 0xFF)) - 7 = int seg" "seg < 8" "y < 2 ^ (seg + 8)" "seg \<noteq> 0 \<longrightarrow> 2 ^ (seg + 7) \<le> y"
      using segment [OF _ True] y(1) by auto
    have lo: "2 ^ (seg + 7) \<le> y" using s(4) y(1) by (cases "seg = 0") simp_all
    define q where "q = shr y (seg + 3) AND 15"
    note i = interval [OF lo s(3) q_def]
    have "nat (int seg + 3) = seg + 3" by simp
    then have c: "linear_to_ulaw x = u8 ((shl (int seg) 4 OR q) XOR msk)" using s(2) by (simp add: code s(1) q_def)
    have d: "y div 32 \<le> (\<bar>x\<bar> + 132) div 32" using y(3) by (rule zdiv_mono1) simp
    show ?thesis
    proof (cases "x < 0")
      case True
      then have "ulaw_to_linear (linear_to_ulaw x) - x = y - (8 * q + 132) * 2 ^ seg + 1"
        using ulaw_codes(2) [OF s(2) i(1,2)] c by (simp add: y_msk_def)
      then show ?thesis using i(3-5) d by (simp add: abs_le_iff)
    next
      case False
      then have "ulaw_to_linear (linear_to_ulaw x) - x = (8 * q + 132) * 2 ^ seg - y"
        using ulaw_codes(1) [OF s(2) i(1,2)] c by (simp add: y_msk_def)
      then show ?thesis using i(3,5) d by simp
    qed
  next
    case False
    have "2 ^ 15 \<le> y OR 255" using or_greater_eq [of 255 y] False by simp
    moreover have "y OR 255 < 2 ^ 16" using y by (intro OR_upper) simp_all
    moreover from calculation y(1) have "u32 (y OR 255) = y OR 255" by (intro u32_id) simp_all
    ultimately have "top_bit (u32 (y OR 0xFF)) = int 15" using top_bit_log [of 15 "y OR 0xFF"] by simp
    then have "linear_to_ulaw x = u8 (0x7F XOR msk)" by (simp add: code)
    moreover have "ulaw_to_linear (u8 (0x7F XOR 0x7F)) = -32124" "ulaw_to_linear (u8 (0x7F XOR 0xFF)) = 32124" by code_simp+
    ultimately have "ulaw_to_linear (linear_to_ulaw x) = (if x < 0 then -32124 else 32124)" by (simp add: y_msk_def)
    moreover have "1023 \<le> (\<bar>x\<bar> + 132) div 32" using zdiv_mono1 [of 32767 "\<bar>x\<bar> + 132" 32] y(3) False by simp
    ultimately show ?thesis using assms False by (simp add: y_msk_def abs_le_iff split: if_splits)
  qed
qed

lemma alaw_error:
  assumes "-32768 \<le> x" "x < 32768"
  shows "\<bar>alaw_to_linear (linear_to_alaw x) - x\<bar> \<le> max 8 (\<bar>x\<bar> div 32)"
proof -
  define y msk :: int where "y = (if 0 \<le> x then x else - x - 1)" "msk = (if 0 \<le> x then 0xD5 else 0x55)"
  have y: "0 \<le> y" "y < 32768" "y \<le> \<bar>x\<bar>" using assms by (simp_all add: y_msk_def)
  have "(0x55 :: int) OR 0x80 = 0xD5" by code_simp
  then have code: "linear_to_alaw x = (let seg = top_bit (u32 (y OR 0xFF)) - 7 in if seg \<ge> 8 then if y \<ge> 0 then u8 (0x7F XOR msk) else u8 (0x00 XOR msk)
      else u8 ((shl seg 4 OR (shr y (nat (if seg \<noteq> 0 then seg + 3 else 4)) AND 0x0F)) XOR msk))"
    by (simp add: linear_to_alaw_def ALAW_AMI_MASK_def y_msk_def Let_def)
  obtain seg where s: "top_bit (u32 (y OR 0xFF)) - 7 = int seg" "seg < 8" "y < 2 ^ (seg + 8)" "seg \<noteq> 0 \<longrightarrow> 2 ^ (seg + 7) \<le> y"
    using segment [OF y(1,2)] by blast
  define q where "q = shr y (if seg \<noteq> 0 then seg + 3 else 4) AND 15"
  have "nat (if int seg \<noteq> 0 then int seg + 3 else 4) = (if seg \<noteq> 0 then seg + 3 else 4)" by (simp add: nat_add_distrib)
  then have c: "linear_to_alaw x = u8 ((shl (int seg) 4 OR q) XOR msk)" using s(2) by (simp add: code s(1) q_def del: nat_numeral)
  have d: "y div 32 \<le> \<bar>x\<bar> div 32" using y(3) by (rule zdiv_mono1) simp
  have "0 \<le> q \<and> q < 16 \<and> \<bar>alaw_level seg q - y\<bar> \<le> max 8 (\<bar>x\<bar> div 32) \<and> y - alaw_level seg q < max 8 (\<bar>x\<bar> div 32)"
  proof (cases "seg = 0")
    case True
    have fif: "k AND 15 = k mod 16" for k :: int using and_mask_field [of k 4] by simp
    have "q = y div 16 mod 16" using True by (simp add: q_def drop_bit_eq_div fif)
    moreover have "0 \<le> y div 16" "y div 16 < 16" using y(1) s(3) True by (simp_all add: pos_imp_zdiv_nonneg_iff)
    ultimately have "q = y div 16" by simp
    then have "0 \<le> q" "q < 16" "16 * q \<le> y" "y < 16 * q + 16" using \<open>0 \<le> y div 16\<close> \<open>y div 16 < 16\<close> by simp_all
    then show ?thesis using True by (simp add: alaw_level_def abs_le_iff le_max_iff_disj less_max_iff_disj)
  next
    case False
    then have qd: "q = shr y (seg + 3) AND 15" and lo: "2 ^ (seg + 7) \<le> y" using s(4) by (simp_all add: q_def)
    note i = interval [OF lo s(3) qd]
    obtain k where k: "seg = Suc k" using False by (cases seg) simp_all
    have "alaw_level seg q = (8 * q + 132) * 2 ^ seg" by (simp add: alaw_level_def k algebra_simps)
    moreover have "y div 32 \<le> max 8 (\<bar>x\<bar> div 32)" using d by simp
    ultimately show ?thesis using i by linarith
  qed
  then have i: "0 \<le> q" "q < 16" "\<bar>alaw_level seg q - y\<bar> \<le> max 8 (\<bar>x\<bar> div 32)" "y - alaw_level seg q < max 8 (\<bar>x\<bar> div 32)" by blast+
  show ?thesis
  proof (cases "0 \<le> x")
    case True
    then have "alaw_to_linear (linear_to_alaw x) - x = alaw_level seg q - y" using alaw_codes(1) [OF s(2) i(1,2)] c by (simp add: y_msk_def)
    then show ?thesis using i(3) by simp
  next
    case False
    then have "alaw_to_linear (linear_to_alaw x) - x = y - alaw_level seg q + 1" using alaw_codes(2) [OF s(2) i(1,2)] c by (simp add: y_msk_def)
    then show ?thesis using i(3,4) by (simp add: abs_le_iff)
  qed
qed

section \<open>The claims\<close>

text \<open>
  C35: Companding a 16-bit sample and back is off by at most a thirty-second of its size: in the u-law by
  that of the biased magnitude, in the A-law by at least 8.  This covers both ends of the range, where
  the u-law clips.
\<close>

theorem g711_error_bound:
  assumes "-32768 \<le> x" "x < 32768"
  shows "\<bar>ulaw_to_linear (linear_to_ulaw x) - x\<bar> \<le> (\<bar>x\<bar> + 132) div 32
    \<and> \<bar>alaw_to_linear (linear_to_alaw x) - x\<bar> \<le> max 8 (\<bar>x\<bar> div 32)"
  using ulaw_error [OF assms] alaw_error [OF assms] by blast

lemma g711_error_bound_witness:
  "\<bar>ulaw_to_linear (linear_to_ulaw (-32768)) - (-32768)\<bar> \<le> (\<bar>-32768\<bar> + 132) div 32
    \<and> \<bar>alaw_to_linear (linear_to_alaw (-32768)) - (-32768)\<bar> \<le> max 8 (\<bar>-32768 :: int\<bar> div 32)"
  by (rule g711_error_bound) simp_all

text \<open>Codes, packed and unpacked.\<close>

lemma alaw_stable: "0 \<le> c \<Longrightarrow> c < 256 \<Longrightarrow> linear_to_alaw (alaw_to_linear c) = c"
proof -
  have "list_all (\<lambda>c. linear_to_alaw (alaw_to_linear c) = c) [0..255]" by code_simp
  then show "0 \<le> c \<Longrightarrow> c < 256 \<Longrightarrow> linear_to_alaw (alaw_to_linear c) = c" by (simp add: list_all_iff)
qed

lemma ulaw_stable: "0 \<le> c \<Longrightarrow> c < 256 \<Longrightarrow> linear_to_ulaw (ulaw_to_linear c) = (if c = 127 then 255 else c)"
proof -
  have "list_all (\<lambda>c. linear_to_ulaw (ulaw_to_linear c) = (if c = 127 then 255 else c)) [0..255]" by code_simp
  then show "0 \<le> c \<Longrightarrow> c < 256 \<Longrightarrow> linear_to_ulaw (ulaw_to_linear c) = (if c = 127 then 255 else c)"
    by (simp add: list_all_iff)
qed

lemma pack_word:
  assumes "0 \<le> a" "a < 256" "0 \<le> b" "b < 256"
  shows "u8 (s16 (s16 a OR shl b 8) AND 0xFF) = a" "u8 (shr (s16 (s16 a OR shl b 8)) 8) = b"
proof -
  have o: "s16 a OR shl b 8 = a + 256 * b" using assms or_shl [of a 8 b] by (simp add: s16_id)
  have fif: "k AND 255 = k mod 256" for k :: int using and_mask_field [of k 8] by simp
  have u: "u16 (a + 256 * b) = a + 256 * b" using assms by (intro u16_id) simp_all
  consider "s16 (a + 256 * b) = a + 256 * b" | "s16 (a + 256 * b) = a + 256 * (b - 256)"
    unfolding s16_cases u by (cases "a + 256 * b < 32768") simp_all
  then have "\<exists>k. s16 (a + 256 * b) = a + 256 * k \<and> k mod 256 = b"
  proof cases
    case 1
    have "b mod 256 = b" using assms(3,4) by simp
    then show ?thesis using 1 by (intro exI [of _ b]) (rule conjI)
  next
    case 2
    have "(b - 256) mod 256 = b" using assms(3,4) by simp
    then show ?thesis using 2 by (intro exI [of _ "b - 256"]) (rule conjI)
  qed
  then obtain k where k: "s16 (a + 256 * b) = a + 256 * k" "k mod 256 = b" by blast
  have m: "(a + 256 * k) mod 256 = a" and d: "(a + 256 * k) div 256 = k" using assms(1,2) by simp_all
  show "u8 (s16 (s16 a OR shl b 8) AND 0xFF) = a" unfolding o k(1) fif m using assms(1,2) by (rule u8_id)
  have "shr (a + 256 * k) 8 = k" using d by (simp add: drop_bit_eq_div)
  then show "u8 (shr (s16 (s16 a OR shl b 8)) 8) = b" unfolding o k(1) by (simp add: u8_def k(2))
qed

lemma pack_last: "0 \<le> a \<Longrightarrow> a < 256 \<Longrightarrow> u8 (s16 a AND 0xFF) = a"
  using pack_word(1) [of a 0] by simp

lemma codes_pack:
  assumes "\<forall>c \<in> set cs. 0 \<le> c \<and> c < 256"
  shows "g711_codes (pre @ g711_pack cs) (2 * length pre) (length cs) = Some cs"
  using assms
proof (induction cs arbitrary: pre rule: g711_pack.induct)
  case (1 a b cs)
  define w where "w = s16 (s16 a OR shl b 8)"
  have w: "u8 (w AND 0xFF) = a" "u8 (shr w 8) = b" using pack_word [of a b] 1(2) by (simp_all add: w_def)
  have "g711_codes ((pre @ [w]) @ g711_pack cs) (2 * length (pre @ [w])) (length cs) = Some cs" by (rule 1(1)) (use 1(2) in simp)
  then show ?case using w by (simp add: g711_code_def nth_append flip: w_def)
next
  case (2 a)
  then show ?case using pack_last [of a] by (simp add: g711_code_def nth_append)
qed simp

lemma length_pack [simp]: "length (g711_pack cs) = (length cs + 1) div 2"
  by (induction cs rule: g711_pack.induct) simp_all

lemma unpack_word: "-32768 \<le> w \<Longrightarrow> w < 32768 \<Longrightarrow> s16 (s16 (u8 (w AND 0xFF)) OR shl (u8 (shr w 8)) 8) = w"
proof -
  assume a: "-32768 \<le> w" "w < 32768"
  have fif: "k AND 255 = k mod 256" for k :: int using and_mask_field [of k 8] by simp
  have r: "0 \<le> u8 x" "u8 x < 256" for x using u8_range by simp_all
  have "s16 (u8 x) = u8 x" for x using r [of x] by (intro s16_id) simp_all
  then have "s16 (u8 (w AND 0xFF)) OR shl (u8 (shr w 8)) 8 = u8 (w AND 0xFF) + 256 * u8 (shr w 8)"
    using r or_shl [of "u8 (w AND 0xFF)" 8 "u8 (shr w 8)"] by simp
  also have "\<dots> = w mod 65536"
    using zmod_zmult2_eq [of 256 w 256] by (simp add: u8_def fif drop_bit_eq_div)
  finally show ?thesis using a s16_u16 [of w] by (simp add: s16_id u16_def)
qed


lemma codes_words:
  assumes "\<forall>w \<in> set ws. -32768 \<le> w \<and> w < 32768"
  shows "\<exists>cs. g711_codes (pre @ ws) (2 * length pre) (2 * length ws) = Some cs \<and> g711_pack cs = ws
    \<and> (\<forall>c \<in> set cs. 0 \<le> c \<and> c < 256)"
  using assms
proof (induction ws arbitrary: pre)
  case (Cons w ws)
  then obtain cs where "g711_codes ((pre @ [w]) @ ws) (2 * length (pre @ [w])) (2 * length ws) = Some cs" "g711_pack cs = ws"
    "\<forall>c \<in> set cs. 0 \<le> c \<and> c < 256" by fastforce
  moreover have "s16 (s16 (u8 (w AND 0xFF)) OR shl (u8 (shr w 8)) 8) = w" using Cons.prems by (intro unpack_word) simp_all
  ultimately show ?case
    by (intro exI [of _ "u8 (w AND 0xFF) # u8 (shr w 8) # cs"]) (use u8_range in \<open>simp add: g711_code_def nth_append\<close>)
qed simp

lemma law_range: "0 \<le> linear_to_alaw x" "linear_to_alaw x < 256" "0 \<le> linear_to_ulaw x" "linear_to_ulaw x < 256"
  using u8_range by (simp_all add: linear_to_alaw_def linear_to_ulaw_def Let_def)

lemma encode_decode:
  assumes "\<And>x. 0 \<le> law x \<and> law x < 256" "int (length xs) = len" "len < 32768"
  shows "\<exists>ws. g711_encode law xs len ((length xs + 1) div 2) = Some (len, ws)
    \<and> g711_decode dec ws len (length xs) = Some (len, map (\<lambda>x. dec (law x)) xs, Some 1)"
proof -
  have "nat len = length xs" "s16 len = len" using assms(2,3) by (simp_all add: s16_id)
  moreover have "g711_codes (g711_pack (map law xs)) 0 (length xs) = Some (map law xs)"
    using codes_pack [of "map law xs" "[]"] assms(1) by simp
  ultimately show ?thesis using assms(2) by (simp add: g711_encode_def g711_decode_def comp_def)
qed

text \<open>
  C31: Speech encoded by G.711 and decoded is the speech companded sample by sample, for every length that is a 16-bit number, odd
  lengths included.  An A-law stream survives being decoded and encoded again without a change, so
  coding in tandem costs nothing; of a u-law stream every code survives but 127, negative zero, which comes back as 255, positive zero.
\<close>

theorem g711_roundtrip:
  assumes "int (length xs) = len" "\<forall>w \<in> set ws. -32768 \<le> w \<and> w < 32768" "int (2 * length ws) = n"
    "len < 32768" "n < 32768"
  shows "(\<exists>vs. WebRtcG711_EncodeA xs len ((length xs + 1) div 2) = Some (len, vs)
      \<and> WebRtcG711_DecodeA vs len (length xs) = Some (len, map (\<lambda>x. alaw_to_linear (linear_to_alaw x)) xs, Some 1))
    \<and> (\<exists>vs. WebRtcG711_EncodeU xs len ((length xs + 1) div 2) = Some (len, vs)
      \<and> WebRtcG711_DecodeU vs len (length xs) = Some (len, map (\<lambda>x. ulaw_to_linear (linear_to_ulaw x)) xs, Some 1))
    \<and> (\<exists>ys. WebRtcG711_DecodeA ws n (2 * length ws) = Some (n, ys, Some 1) \<and> WebRtcG711_EncodeA ys n (length ws) = Some (n, ws))
    \<and> (\<exists>ys cs. WebRtcG711_DecodeU ws n (2 * length ws) = Some (n, ys, Some 1) \<and> g711_codes ws 0 (2 * length ws) = Some cs
      \<and> WebRtcG711_EncodeU ys n (length ws) = Some (n, g711_pack (map (\<lambda>c. if c = 127 then 255 else c) cs))
      \<and> (127 \<notin> set cs \<longrightarrow> WebRtcG711_EncodeU ys n (length ws) = Some (n, ws)))"
proof -
  obtain cs where cs: "g711_codes ws 0 (2 * length ws) = Some cs" "g711_pack cs = ws" "\<forall>c \<in> set cs. 0 \<le> c \<and> c < 256"
    using codes_words [OF assms(2), of "[]"] by auto
  have n: "nat n = 2 * length ws" "0 \<le> n" "s16 n = n" using assms(3,5) by (simp_all add: s16_id)
  have l: "length cs = 2 * length ws"
  proof -
    have "g711_codes e i k = Some c \<Longrightarrow> length c = k" for e i k c
      by (induction k arbitrary: i c) (auto simp: bind_eq_Some_conv)
    then show ?thesis using cs(1) by blast
  qed
  have a: "map (\<lambda>c. linear_to_alaw (alaw_to_linear c)) cs = cs" using alaw_stable cs(3) by (simp add: map_idI)
  have zero: "linear_to_ulaw (ulaw_to_linear 127) = 255" by code_simp
  have u: "map (\<lambda>c. linear_to_ulaw (ulaw_to_linear c)) cs = map (\<lambda>c. if c = 127 then 255 else c) cs"
    using ulaw_stable cs(3) zero by (intro map_cong) auto
  have u': "map (\<lambda>c. if c = 127 then 255 else c) cs = cs" if "127 \<notin> set cs"
    using that by (intro map_idI) auto
  have "\<exists>ys. WebRtcG711_DecodeA ws n (2 * length ws) = Some (n, ys, Some 1) \<and> WebRtcG711_EncodeA ys n (length ws) = Some (n, ws)"
    using n cs l a by (simp add: WebRtcG711_DecodeA_def WebRtcG711_EncodeA_def g711_decode_def g711_encode_def comp_def)
  moreover have "\<exists>ys cs. WebRtcG711_DecodeU ws n (2 * length ws) = Some (n, ys, Some 1) \<and> g711_codes ws 0 (2 * length ws) = Some cs
      \<and> WebRtcG711_EncodeU ys n (length ws) = Some (n, g711_pack (map (\<lambda>c. if c = 127 then 255 else c) cs))
      \<and> (127 \<notin> set cs \<longrightarrow> WebRtcG711_EncodeU ys n (length ws) = Some (n, ws))"
    using n cs l u' by (simp add: u WebRtcG711_DecodeU_def WebRtcG711_EncodeU_def g711_decode_def g711_encode_def comp_def)
  ultimately show ?thesis using encode_decode [of linear_to_alaw, OF _ assms(1,4)] encode_decode [of linear_to_ulaw, OF _ assms(1,4)] law_range
    by (simp add: WebRtcG711_EncodeA_def WebRtcG711_EncodeU_def WebRtcG711_DecodeA_def WebRtcG711_DecodeU_def)
qed

lemma g711_roundtrip_witness:
  "(\<exists>vs. WebRtcG711_EncodeA [700, -9, 31000] 3 ((length [700, -9, 31000 :: int] + 1) div 2) = Some (3, vs)
      \<and> WebRtcG711_DecodeA vs 3 (length [700, -9, 31000 :: int])
        = Some (3, map (\<lambda>x. alaw_to_linear (linear_to_alaw x)) [700, -9, 31000], Some 1))
    \<and> (\<exists>vs. WebRtcG711_EncodeU [700, -9, 31000] 3 ((length [700, -9, 31000 :: int] + 1) div 2) = Some (3, vs)
      \<and> WebRtcG711_DecodeU vs 3 (length [700, -9, 31000 :: int])
        = Some (3, map (\<lambda>x. ulaw_to_linear (linear_to_ulaw x)) [700, -9, 31000], Some 1))
    \<and> (\<exists>ys. WebRtcG711_DecodeA [-77] 2 (2 * length [-77 :: int]) = Some (2, ys, Some 1)
      \<and> WebRtcG711_EncodeA ys 2 (length [-77 :: int]) = Some (2, [-77]))
    \<and> (\<exists>ys cs. WebRtcG711_DecodeU [-77] 2 (2 * length [-77 :: int]) = Some (2, ys, Some 1)
      \<and> g711_codes [-77] 0 (2 * length [-77 :: int]) = Some cs
      \<and> WebRtcG711_EncodeU ys 2 (length [-77 :: int]) = Some (2, g711_pack (map (\<lambda>c. if c = 127 then 255 else c) cs))
      \<and> (127 \<notin> set cs \<longrightarrow> WebRtcG711_EncodeU ys 2 (length [-77 :: int]) = Some (2, [-77])))"
  by (rule g711_roundtrip) simp_all

lemma table_entry:
  assumes "0 \<le> c" "c < 256" "length ts = 256" "list_all (\<lambda>(c, t). P c t) (zip [0..255] ts)"
  shows "P c (ts ! nat c)"
proof -
  have "(c, ts ! nat c) \<in> set (zip [0..255] ts)"
    using assms(1-3) by (auto simp: in_set_zip intro!: exI [of _ "nat c"])
  then show ?thesis using assms(4) by (auto simp: list_all_iff)
qed

text \<open>Two laws and the table from codes of the first to codes of the second, entry by entry.\<close>

definition code_near :: "(int \<Rightarrow> int) \<Rightarrow> (int \<Rightarrow> int) \<Rightarrow> int \<Rightarrow> int \<Rightarrow> bool" where
  "code_near law law' c t \<longleftrightarrow> \<bar>law' t - law c\<bar> \<le> max 8 (\<bar>law c\<bar> div 32) \<and> t AND 0x80 = c AND 0x80 \<and> 0 \<le> t \<and> t < 256"

lemma table_lengths: "length alaw_to_ulaw_table = 256" "length ulaw_to_alaw_table = 256"
  by (simp_all add: alaw_to_ulaw_table_def ulaw_to_alaw_table_def)

lemma alaw_to_ulaw_near: "0 \<le> c \<Longrightarrow> c < 256 \<Longrightarrow> code_near alaw_to_linear ulaw_to_linear c (alaw_to_ulaw c)"
proof -
  have "list_all (\<lambda>(c, t). code_near alaw_to_linear ulaw_to_linear c t) (zip [0..255] alaw_to_ulaw_table)" by code_simp
  then show "0 \<le> c \<Longrightarrow> c < 256 \<Longrightarrow> code_near alaw_to_linear ulaw_to_linear c (alaw_to_ulaw c)"
    using table_entry [OF _ _ table_lengths(1)] unfolding alaw_to_ulaw_def by blast
qed

lemma ulaw_to_alaw_near: "0 \<le> c \<Longrightarrow> c < 256 \<Longrightarrow> code_near ulaw_to_linear alaw_to_linear c (ulaw_to_alaw c)"
proof -
  have "list_all (\<lambda>(c, t). code_near ulaw_to_linear alaw_to_linear c t) (zip [0..255] ulaw_to_alaw_table)" by code_simp
  then show "0 \<le> c \<Longrightarrow> c < 256 \<Longrightarrow> code_near ulaw_to_linear alaw_to_linear c (ulaw_to_alaw c)"
    using table_entry [OF _ _ table_lengths(2)] unfolding ulaw_to_alaw_def by blast
qed

text \<open>
  The transcoding tables between the laws lose no more than companding does: a code and its image are codes of
  the same sign for samples that differ by at most a thirty-second, or 8; so a code carried to the other law
  and back stands for a sample at most two such steps away.
\<close>

theorem g711_transcoding:
  assumes "0 \<le> c" "c < 256"
  shows "\<bar>ulaw_to_linear (alaw_to_ulaw c) - alaw_to_linear c\<bar> \<le> max 8 (\<bar>alaw_to_linear c\<bar> div 32)
    \<and> \<bar>alaw_to_linear (ulaw_to_alaw c) - ulaw_to_linear c\<bar> \<le> max 8 (\<bar>ulaw_to_linear c\<bar> div 32)
    \<and> \<bar>alaw_to_linear (ulaw_to_alaw (alaw_to_ulaw c)) - alaw_to_linear c\<bar>
      \<le> max 8 (\<bar>alaw_to_linear c\<bar> div 32) + max 8 (\<bar>ulaw_to_linear (alaw_to_ulaw c)\<bar> div 32)
    \<and> alaw_to_ulaw c AND 0x80 = c AND 0x80 \<and> ulaw_to_alaw c AND 0x80 = c AND 0x80"
proof -
  note a = alaw_to_ulaw_near [OF assms, unfolded code_near_def]
  note u = ulaw_to_alaw_near [OF assms, unfolded code_near_def]
  have "0 \<le> alaw_to_ulaw c" "alaw_to_ulaw c < 256" using a by blast+
  note au = ulaw_to_alaw_near [OF this, unfolded code_near_def]
  have tri: "\<bar>z - y\<bar> \<le> p + q" if "\<bar>x - y\<bar> \<le> p" "\<bar>z - x\<bar> \<le> q" for x y z p q :: int using that by linarith
  show ?thesis using a u tri [OF conjunct1 [OF a] conjunct1 [OF au]] by blast
qed

lemma g711_transcoding_witness:
  "\<bar>ulaw_to_linear (alaw_to_ulaw 5) - alaw_to_linear 5\<bar> \<le> max 8 (\<bar>alaw_to_linear 5\<bar> div 32)
    \<and> \<bar>alaw_to_linear (ulaw_to_alaw 5) - ulaw_to_linear 5\<bar> \<le> max 8 (\<bar>ulaw_to_linear 5\<bar> div 32)
    \<and> \<bar>alaw_to_linear (ulaw_to_alaw (alaw_to_ulaw 5)) - alaw_to_linear 5\<bar>
      \<le> max 8 (\<bar>alaw_to_linear 5\<bar> div 32) + max 8 (\<bar>ulaw_to_linear (alaw_to_ulaw 5)\<bar> div 32)
    \<and> alaw_to_ulaw 5 AND 0x80 = 5 AND 0x80 \<and> ulaw_to_alaw 5 AND 0x80 = 5 AND 0x80"
  by (rule g711_transcoding) simp_all

end
