(* ===== verification/Pcm16b.thy ===== *)
theory Pcm16b
  imports G711
begin

text \<open>
  Linear 16-bit sound on the wire (\<open>modules/audio_coding/codecs/pcm16b/pcm16b.c\<close>, little-endian): the samples in
  network byte order, as words with their bytes swapped or as bytes.  The results are the return value
  and the output; a sample or byte that does not exist is \<open>None\<close>.  The lengths are 16-bit numbers and narrowed as the call
  narrows them, so a length of 32768 or more is a negative one or a short one.
\<close>

section \<open>The functions\<close>

definition HIGHEND :: int where "HIGHEND = 0xFF00"
definition LOWEND :: int where "LOWEND = 0xFF"

definition WebRtcPcm16b_EncodeW16 :: "int list \<Rightarrow> int \<Rightarrow> (int \<times> int list) option" where
  "WebRtcPcm16b_EncodeW16 speechIn16b len =
     (let len = s16 len in
      if nat len \<le> length speechIn16b
      then Some (s16 (shl len 1), map (\<lambda>x. s16 (shr (u16 x) 8 OR (shl (u16 x) 8 AND 0xFF00))) (take (nat len) speechIn16b))
      else None)"

definition pcm_high :: "int \<Rightarrow> int" where
  "pcm_high x = (let short1 = s16 (HIGHEND AND x) in u8 (s16 (shr short1 8)))"

definition pcm_low :: "int \<Rightarrow> int" where
  "pcm_low x = (let short2 = s16 (LOWEND AND x) in u8 short2)"

definition WebRtcPcm16b_Encode :: "int list \<Rightarrow> int \<Rightarrow> (int \<times> int list) option" where
  "WebRtcPcm16b_Encode speech16b len =
     (let len = s16 len in
      if nat len \<le> length speech16b
      then Some (s16 (len * 2), concat (map (\<lambda>x. [pcm_high x, pcm_low x]) (take (nat len) speech16b))) else None)"

text \<open>The third result is the speech type; \<open>len\<close> counts bytes.\<close>

definition WebRtcPcm16b_DecodeW16 :: "int list \<Rightarrow> int \<Rightarrow> (int \<times> int list \<times> int) option" where
  "WebRtcPcm16b_DecodeW16 speechIn16b len =
     (let len = s16 len in
      if nat (shr len 1) \<le> length speechIn16b
      then Some (s16 (shr len 1), map (\<lambda>x. s16 (shr (u16 x) 8 OR shl (u16 (x AND 0xFF)) 8)) (take (nat (shr len 1)) speechIn16b), 1)
      else None)"

definition pcm_join :: "int \<Rightarrow> int \<Rightarrow> int" where
  "pcm_join hi lo = (let shortval = s16 (u16 hi); shortval = s16 (shl shortval 8 AND HIGHEND) in s16 (shortval OR (u16 lo AND LOWEND)))"

fun pcm_pairs :: "int list \<Rightarrow> int list" where
  "pcm_pairs (hi # lo # bytes) = pcm_join hi lo # pcm_pairs bytes"
| "pcm_pairs bytes = []"

definition WebRtcPcm16b_Decode :: "int list \<Rightarrow> int \<Rightarrow> (int \<times> int list) option" where
  "WebRtcPcm16b_Decode speech8b len =
     (let samples = s16 (shr (s16 len) 1) in
      if nat (2 * samples) \<le> length speech8b then Some (samples, pcm_pairs (take (nat (2 * samples)) speech8b)) else None)"

section \<open>Bytes of a sample\<close>

lemma byte_fields:
  "pcm_high x = x div 256 mod 256" "pcm_low x = x mod 256" "shr (u16 x) 8 = x div 256 mod 256"
proof -
  have f8: "k AND 255 = k mod 256" for k :: int using and_mask_field [of k 8] by simp
  have d: "u16 x div 256 = x div 256 mod 256" using zmod_zmult2_eq [of 256 x 256] by (simp add: u16_def)
  show "shr (u16 x) 8 = x div 256 mod 256" using d by (simp add: drop_bit_eq_div)
  have "pcm_low x = u8 (s16 (x mod 256))" by (simp add: pcm_low_def LOWEND_def f8 and.commute)
  also have "s16 (x mod 256) = x mod 256" by (intro s16_id) (simp_all add: less_trans [OF pos_mod_bound])
  finally show "pcm_low x = x mod 256" by (simp add: u8_def)
  have "s16 (HIGHEND AND x) mod 65536 = (HIGHEND AND x) mod 65536" by (metis u16_def u16_s16)
  then have "s16 (HIGHEND AND x) div 256 mod 256 = (HIGHEND AND x) div 256 mod 256"
    using bit_field_cong [of "s16 (HIGHEND AND x)" 16 "HIGHEND AND x" 8 8] by simp
  also have "\<dots> = x div 256 mod 256"
    using shr_and_field [of 8 x 8] by (simp add: HIGHEND_def push_bit_eq_mult drop_bit_eq_div and.commute)
  finally have "s16 (HIGHEND AND x) div 256 mod 256 = x div 256 mod 256" .
  moreover have "u8 (s16 y) = u8 y" for y
    using bit_field_cong [of "s16 y" 16 y 0 8] u16_s16 [of y] by (simp add: u8_def u16_def)
  ultimately show "pcm_high x = x div 256 mod 256" by (simp add: pcm_high_def drop_bit_eq_div u8_def)
qed

lemma bytes_word:
  assumes "-32768 \<le> x" "x < 32768"
  shows "s16 (x mod 256 + 256 * (x div 256 mod 256)) = x"
proof -
  have "x mod 256 + 256 * (x div 256 mod 256) = x mod 65536" using zmod_zmult2_eq [of 256 x 256] by simp
  then show ?thesis using assms s16_u16 [of x] by (simp add: s16_id u16_def)
qed

text \<open>The word of a sample holds its high byte in the low one.\<close>

definition swapped :: "int \<Rightarrow> int" where
  "swapped x = s16 (x div 256 mod 256 + 256 * (x mod 256))"

lemma encode_word: "s16 (shr (u16 x) 8 OR (shl (u16 x) 8 AND 0xFF00)) = swapped x"
proof -
  have f8: "k AND 255 = k mod 256" for k :: int using and_mask_field [of k 8] by simp
  have "shl (u16 x) 8 AND 0xFF00 = shl (u16 x) 8 AND shl 0xFF 8" by (simp add: push_bit_eq_mult)
  also have "\<dots> = shl (u16 x AND 0xFF) 8" by (simp only: push_bit_and)
  also have "u16 x AND 0xFF = x mod 256" by (simp add: f8 u16_def mod_mod_cancel)
  finally show ?thesis using or_shl [of "x div 256 mod 256" 8 "x mod 256"] by (simp add: byte_fields swapped_def mult.commute)
qed

lemma swapped_bytes: "u8 (swapped x) = x div 256 mod 256" "u8 (shr (swapped x) 8) = x mod 256"
proof -
  have f8: "k AND 255 = k mod 256" for k :: int using and_mask_field [of k 8] by simp
  define a b where "a = x div 256 mod 256" "b = x mod 256"
  have r: "0 \<le> a" "a < 256" "0 \<le> b" "b < 256" by (simp_all add: a_b_def)
  have "s16 a OR shl b 8 = a + 256 * b" using r or_shl [of a 8 b] by (simp add: s16_id)
  then have s: "swapped x = s16 (s16 a OR shl b 8)" by (simp add: swapped_def a_b_def)
  show "u8 (swapped x) = x div 256 mod 256" using pack_word(1) [OF r] by (simp add: s f8 u8_def a_b_def)
  show "u8 (shr (swapped x) 8) = x mod 256" using pack_word(2) [OF r] by (simp add: s a_b_def)
qed

lemma decode_word:
  assumes "-32768 \<le> x" "x < 32768"
  shows "s16 (shr (u16 (swapped x)) 8 OR shl (u16 (swapped x AND 0xFF)) 8) = x"
proof -
  have f8: "k AND 255 = k mod 256" for k :: int using and_mask_field [of k 8] by simp
  have "shr (u16 (swapped x)) 8 = x mod 256" using byte_fields(3) [of "swapped x"] swapped_bytes(2) [of x] by (simp add: u8_def drop_bit_eq_div)
  moreover have "swapped x AND 0xFF = x div 256 mod 256" using swapped_bytes(1) [of x] by (simp add: f8 u8_def)
  moreover have "u16 (x div 256 mod 256) = x div 256 mod 256" by (intro u16_id) (simp_all add: less_trans [OF pos_mod_bound])
  ultimately show ?thesis using or_shl [of "x mod 256" 8 "x div 256 mod 256"] bytes_word [OF assms] by (simp add: mult.commute)
qed

lemma join_bytes:
  assumes "-32768 \<le> x" "x < 32768"
  shows "pcm_join (x div 256 mod 256) (x mod 256) = x"
proof -
  define a b where "a = x div 256 mod 256" "b = x mod 256"
  have r: "0 \<le> a" "a < 256" "0 \<le> b" "b < 256" by (simp_all add: a_b_def)
  have f8: "k AND 255 = k mod 256" for k :: int using and_mask_field [of k 8] by simp
  have w: "u16 a = a" "u16 b = b" "s16 a = a" using r by (simp_all add: u16_id s16_id)
  have "shl a 8 AND 0xFF00 = shl a 8 AND shl 0xFF 8" by (simp add: push_bit_eq_mult)
  also have "\<dots> = shl (a AND 0xFF) 8" by (simp only: push_bit_and)
  finally have h: "shl a 8 AND HIGHEND = shl a 8" using r by (simp add: HIGHEND_def f8)
  have "s16 (b OR s16 (shl a 8)) = s16 (b OR shl a 8)"
  proof -
    have "take_bit 16 (s16 (shl a 8)) = take_bit 16 (shl a 8)" using u16_s16 [of "shl a 8"] by (simp add: u16_def take_bit_eq_mod)
    then have "take_bit 16 (b OR s16 (shl a 8)) = take_bit 16 (b OR shl a 8)" by (simp add: take_bit_or)
    then have "u16 (b OR s16 (shl a 8)) = u16 (b OR shl a 8)" by (simp add: u16_def take_bit_eq_mod)
    then show ?thesis by (metis s16_u16)
  qed
  then show ?thesis using or_shl [of b 8 a] r bytes_word [OF assms]
    by (simp add: pcm_join_def Let_def LOWEND_def f8 w h or.commute mult.commute flip: a_b_def)
qed

section \<open>The claim\<close>

text \<open>
  C34: Linear sound survives the wire: both encoders produce the same bytes in network order, seen as little-endian
  words by one and as bytes by the other, and both decoders give back the samples, for blocks whose number of bytes is a 16-bit number; of a
  longer block, whose number of bytes is negative to them, the decoders give back nothing.
\<close>

theorem pcm16b_roundtrip:
  assumes "\<forall>x \<in> set xs. -32768 \<le> x \<and> x < 32768" "int (length xs) = len" "len < 32768"
  shows "\<exists>ws bs. WebRtcPcm16b_EncodeW16 xs len = Some (s16 (2 * len), ws) \<and> WebRtcPcm16b_Encode xs len = Some (s16 (2 * len), bs)
    \<and> bs = concat (map (\<lambda>w. [u8 w, u8 (shr w 8)]) ws) \<and> length bs = 2 * length xs
    \<and> (len < 16384 \<longrightarrow> WebRtcPcm16b_DecodeW16 ws (2 * len) = Some (len, xs, 1) \<and> WebRtcPcm16b_Decode bs (2 * len) = Some (len, xs))
    \<and> (16384 \<le> len \<longrightarrow> WebRtcPcm16b_DecodeW16 ws (2 * len) = Some (len - 32768, [], 1)
        \<and> WebRtcPcm16b_Decode bs (2 * len) = Some (len - 32768, []))"
proof -
  have n: "nat len = length xs" "s16 len = len" "shl len 1 = 2 * len"
    using assms(2,3) by (simp_all add: push_bit_eq_mult s16_id)
  define bs where "bs = concat (map (\<lambda>x. [x div 256 mod 256, x mod 256]) xs)"
  have l: "length bs = 2 * length xs" unfolding bs_def by (induction xs) simp_all
  have p: "pcm_pairs bs = xs" unfolding bs_def using assms(1) by (induction xs) (simp_all add: join_bytes)
  have d: "map (\<lambda>x. s16 (shr (u16 x) 8 OR shl (u16 (x AND 0xFF)) 8)) (map swapped xs) = xs"
    using decode_word assms(1) by (simp add: map_idI)
  have "WebRtcPcm16b_EncodeW16 xs len = Some (s16 (2 * len), map swapped xs)" "WebRtcPcm16b_Encode xs len = Some (s16 (2 * len), bs)"
    using n by (simp_all add: WebRtcPcm16b_EncodeW16_def WebRtcPcm16b_Encode_def encode_word byte_fields(1,2) bs_def mult.commute)
  moreover have "bs = concat (map (\<lambda>w. [u8 w, u8 (shr w 8)]) (map swapped xs))"
    by (simp add: bs_def swapped_bytes comp_def)
  moreover have "WebRtcPcm16b_DecodeW16 (map swapped xs) (2 * len) = Some (len, xs, 1) \<and> WebRtcPcm16b_Decode bs (2 * len) = Some (len, xs)"
    if "len < 16384"
  proof -
    have "s16 (2 * len) = 2 * len" "shr (2 * len) 1 = len" "nat (2 * len) = 2 * length xs"
      using that assms(2) by (simp_all add: s16_id drop_bit_eq_div)
    then show ?thesis using n l p d by (simp add: WebRtcPcm16b_DecodeW16_def WebRtcPcm16b_Decode_def)
  qed
  moreover have "WebRtcPcm16b_DecodeW16 (map swapped xs) (2 * len) = Some (len - 32768, [], 1)
      \<and> WebRtcPcm16b_Decode bs (2 * len) = Some (len - 32768, [])" if "16384 \<le> len"
  proof -
    have "(2 * len + 32768) mod 65536 = (2 * len - 32768) mod 65536" by (simp add: add.commute flip: mod_add_self2 [of "2 * len - 32768" 65536])
    also have "\<dots> = 2 * len - 32768" using that assms(3) by (intro mod_pos_pos_trivial) simp_all
    finally have "s16 (2 * len) = 2 * (len - 32768)" by (simp add: s16_def)
    moreover have "shr (2 * (len - 32768)) 1 = len - 32768" by (simp add: drop_bit_eq_div)
    moreover have "s16 (len - 32768) = len - 32768" using that assms(3) by (simp add: s16_id)
    ultimately show ?thesis using that assms(3) by (simp add: WebRtcPcm16b_DecodeW16_def WebRtcPcm16b_Decode_def Let_def)
  qed
  ultimately show ?thesis using l by blast
qed

lemma pcm16b_roundtrip_witness:
  "\<exists>ws bs. WebRtcPcm16b_EncodeW16 [700, -9] 2 = Some (s16 (2 * 2), ws) \<and> WebRtcPcm16b_Encode [700, -9] 2 = Some (s16 (2 * 2), bs)
    \<and> bs = concat (map (\<lambda>w. [u8 w, u8 (shr w 8)]) ws) \<and> length bs = 2 * length [700, -9 :: int]
    \<and> ((2 :: int) < 16384 \<longrightarrow> WebRtcPcm16b_DecodeW16 ws (2 * 2) = Some (2, [700, -9], 1) \<and> WebRtcPcm16b_Decode bs (2 * 2) = Some (2, [700, -9]))
    \<and> (16384 \<le> (2 :: int) \<longrightarrow> WebRtcPcm16b_DecodeW16 ws (2 * 2) = Some (2 - 32768, [], 1)
        \<and> WebRtcPcm16b_Decode bs (2 * 2) = Some (2 - 32768, []))"
  by (rule pcm16b_roundtrip) simp_all

end
