(* ===== verification/Spl_Vector.thy ===== *)
theory Spl_Vector
  imports Spl_Resample
begin

text \<open>
  The vector routines of the signal processing library (\<open>common_audio/signal_processing\<close>): scaling, setting and
  copying, correlations and dot products, the decimating filter and the moving-average and autoregressive
  filters in Q12, and the division of numbers in two halves.

  A pointer into an array is the array with the index it points to, since the filters read in front of their
  pointers.  A routine that fills a vector returns it; an access outside of an array and a shift by a count that is not below
  the width are \<open>None\<close>.
\<close>

section \<open>Accesses and shifts\<close>

text \<open>The \<open>n\<close> elements from index \<open>i\<close>, of a loop that does not run when \<open>n\<close> is not positive.\<close>

definition rdz :: "int list \<Rightarrow> int \<Rightarrow> int \<Rightarrow> int list option" where
  "rdz mem i n = (if n \<le> 0 then Some [] else if i < 0 then None else rd mem (nat i) (nat n))"

definition shift_all :: "(nat \<Rightarrow> 'a \<Rightarrow> int) \<Rightarrow> int \<Rightarrow> 'a list \<Rightarrow> int list option" where
  "shift_all f k xs = (if xs = [] \<or> 0 \<le> k \<and> k < 32 then Some (map (f (nat k)) xs) else None)"

text \<open>\<open>sum += c * x\<close> and \<open>sum += (c * x) >> k\<close> over two vectors.\<close>

definition mac :: "int \<Rightarrow> (int \<times> int) list \<Rightarrow> int" where
  "mac = foldl (\<lambda>s (c, x). s32 (s + c * x))"

definition mac_shr :: "nat \<Rightarrow> int \<Rightarrow> (int \<times> int) list \<Rightarrow> int" where
  "mac_shr k = foldl (\<lambda>s (c, x). s32 (s + shr (c * x) k))"

section \<open>Scaling\<close>

definition WebRtcSpl_VectorBitShiftW16 :: "int \<Rightarrow> int list \<Rightarrow> int \<Rightarrow> int list option" where
  "WebRtcSpl_VectorBitShiftW16 len inp right_shifts = do {
     xs \<leftarrow> rdz inp 0 len;
     if right_shifts > 0 then shift_all (\<lambda>k x. shr x k) right_shifts xs
     else shift_all (\<lambda>k x. s16 (shl x k)) (- right_shifts) xs }"

definition WebRtcSpl_VectorBitShiftW32 :: "int \<Rightarrow> int list \<Rightarrow> int \<Rightarrow> int list option" where
  "WebRtcSpl_VectorBitShiftW32 vector_length in_vector right_shifts = do {
     xs \<leftarrow> rdz in_vector 0 vector_length;
     if right_shifts > 0 then shift_all (\<lambda>k x. shr x k) right_shifts xs
     else shift_all (\<lambda>k x. s32 (shl x k)) (- right_shifts) xs }"

definition WebRtcSpl_VectorBitShiftW32ToW16 :: "int \<Rightarrow> int list \<Rightarrow> int \<Rightarrow> int list option" where
  "WebRtcSpl_VectorBitShiftW32ToW16 len inp right_shifts = do {
     xs \<leftarrow> rdz inp 0 len;
     if right_shifts \<ge> 0 then shift_all (\<lambda>k x. WebRtcSpl_SatW32ToW16 (shr x k)) right_shifts xs
     else shift_all (\<lambda>k x. WebRtcSpl_SatW32ToW16 (s32 (shl x k))) (s16 (- right_shifts)) xs }"

definition WebRtcSpl_ScaleVector :: "int list \<Rightarrow> int \<Rightarrow> int \<Rightarrow> int \<Rightarrow> int list option" where
  "WebRtcSpl_ScaleVector in_vector gain in_vector_length right_shifts = do {
     xs \<leftarrow> rdz in_vector 0 in_vector_length;
     shift_all (\<lambda>k x. s16 (shr (x * gain) k)) right_shifts xs }"

definition WebRtcSpl_ScaleVectorWithSat :: "int list \<Rightarrow> int \<Rightarrow> int \<Rightarrow> int \<Rightarrow> int list option" where
  "WebRtcSpl_ScaleVectorWithSat in_vector gain in_vector_length right_shifts = do {
     xs \<leftarrow> rdz in_vector 0 in_vector_length;
     shift_all (\<lambda>k x. WebRtcSpl_SatW32ToW16 (shr (x * gain) k)) right_shifts xs }"

definition WebRtcSpl_ScaleAndAddVectors :: "int list \<Rightarrow> int \<Rightarrow> int \<Rightarrow> int list \<Rightarrow> int \<Rightarrow> int \<Rightarrow> int \<Rightarrow> int list option" where
  "WebRtcSpl_ScaleAndAddVectors in1 gain1 shift1 in2 gain2 shift2 vector_length = do {
     xs \<leftarrow> rdz in1 0 vector_length;
     ys \<leftarrow> rdz in2 0 vector_length;
     xs \<leftarrow> shift_all (\<lambda>k x. s16 (shr (gain1 * x) k)) shift1 xs;
     ys \<leftarrow> shift_all (\<lambda>k y. s16 (shr (gain2 * y) k)) shift2 ys;
     Some (map2 (\<lambda>x y. s16 (x + y)) xs ys) }"

text \<open>The vectors are \<open>None\<close> for a null pointer; the result is the return value and the vector written.\<close>

definition WebRtcSpl_ScaleAndAddVectorsWithRoundC ::
    "int list option \<Rightarrow> int \<Rightarrow> int list option \<Rightarrow> int \<Rightarrow> int \<Rightarrow> bool \<Rightarrow> int \<Rightarrow> (int \<times> int list) option" where
  "WebRtcSpl_ScaleAndAddVectorsWithRoundC in_vector1 in_vector1_scale in_vector2 in_vector2_scale right_shifts out_vector len =
     (case (in_vector1, in_vector2) of
        (Some in1, Some in2) \<Rightarrow>
          if \<not> out_vector \<or> len \<le> 0 \<or> right_shifts < 0 then Some (-1, [])
          else do {
            xs \<leftarrow> rdz in1 0 len;
            ys \<leftarrow> rdz in2 0 len;
            out \<leftarrow> shift_all (\<lambda>k (x, y). s16 (shr (s32 (x * in_vector1_scale + y * in_vector2_scale
              + shr (s32 (shl 1 k)) 1)) k)) right_shifts (zip xs ys);
            Some (0, out) }
      | _ \<Rightarrow> Some (-1, []))"

section \<open>Setting and copying\<close>

text \<open>On the array that is written; the result of the array routines is the return value and the array.\<close>

definition WebRtcSpl_MemSetW16 :: "int list \<Rightarrow> nat \<Rightarrow> int \<Rightarrow> int \<Rightarrow> int list option" where
  "WebRtcSpl_MemSetW16 mem ptr set_value len = wr mem ptr (replicate (nat len) set_value)"

definition WebRtcSpl_MemSetW32 :: "int list \<Rightarrow> nat \<Rightarrow> int \<Rightarrow> int \<Rightarrow> int list option" where
  "WebRtcSpl_MemSetW32 mem ptr set_value len = wr mem ptr (replicate (nat len) set_value)"

text \<open>The destination runs backwards from \<open>dest\<close>; source and destination are different arrays.\<close>

definition WebRtcSpl_MemCpyReversedOrder :: "int list \<Rightarrow> int \<Rightarrow> int list \<Rightarrow> int \<Rightarrow> int list option" where
  "WebRtcSpl_MemCpyReversedOrder mem dest source len = do {
     xs \<leftarrow> rdz source 0 len;
     if len \<le> 0 then Some mem else if dest - (len - 1) < 0 then None
     else wr mem (nat (dest - (len - 1))) (rev xs) }"

definition WebRtcSpl_CopyFromEndW16 :: "int list \<Rightarrow> int \<Rightarrow> int \<Rightarrow> (int \<times> int list) option" where
  "WebRtcSpl_CopyFromEndW16 vector_in len samples =
     (if samples < 0 then None else do { xs \<leftarrow> rdz vector_in (len - samples) samples; Some (samples, xs) })"

definition WebRtcSpl_ZerosArrayW16 :: "int list \<Rightarrow> int \<Rightarrow> (int \<times> int list) option" where
  "WebRtcSpl_ZerosArrayW16 vector len = do { v \<leftarrow> WebRtcSpl_MemSetW16 vector 0 0 len; Some (len, v) }"

definition WebRtcSpl_ZerosArrayW32 :: "int list \<Rightarrow> int \<Rightarrow> (int \<times> int list) option" where
  "WebRtcSpl_ZerosArrayW32 vector len = do { v \<leftarrow> WebRtcSpl_MemSetW32 vector 0 0 len; Some (len, v) }"

definition WebRtcSpl_OnesArrayW16 :: "int list \<Rightarrow> int \<Rightarrow> (int \<times> int list) option" where
  "WebRtcSpl_OnesArrayW16 vector len = do { v \<leftarrow> wr vector 0 (replicate (nat len) 1); Some (len, v) }"

definition WebRtcSpl_OnesArrayW32 :: "int list \<Rightarrow> int \<Rightarrow> (int \<times> int list) option" where
  "WebRtcSpl_OnesArrayW32 vector len = do { v \<leftarrow> wr vector 0 (replicate (nat len) 1); Some (len, v) }"

section \<open>Correlations\<close>

text \<open>The loop over four products at a time, and the one over the rest.\<close>

fun dot_by_four :: "nat \<Rightarrow> int \<Rightarrow> (int \<times> int) list \<Rightarrow> int" where
  "dot_by_four k s ((a, b) # (c, d) # (e, f) # (g, h) # ps) =
     dot_by_four k (s32 (s32 (s32 (s32 (s + shr (a * b) k) + shr (c * d) k) + shr (e * f) k) + shr (g * h) k)) ps"
| "dot_by_four k s ps = mac_shr k s ps"

definition WebRtcSpl_DotProductWithScale :: "int list \<Rightarrow> int list \<Rightarrow> int \<Rightarrow> int \<Rightarrow> int option" where
  "WebRtcSpl_DotProductWithScale vector1 vector2 len scaling = do {
     xs \<leftarrow> rdz vector1 0 len;
     ys \<leftarrow> rdz vector2 0 len;
     if len > 0 \<and> (scaling < 0 \<or> scaling > 31) then None else Some (dot_by_four (nat scaling) 0 (zip xs ys)) }"

text \<open>\<open>seq2\<close> is a position in an array.\<close>

definition WebRtcSpl_CrossCorrelationC :: "int list \<Rightarrow> int list \<Rightarrow> int \<Rightarrow> int \<Rightarrow> int \<Rightarrow> int \<Rightarrow> int \<Rightarrow> int list option" where
  "WebRtcSpl_CrossCorrelationC seq1 arr seq2 dim_seq dim_cross_correlation right_shifts step_seq2 =
     those (map (\<lambda>i. do {
         xs \<leftarrow> rdz seq1 0 dim_seq;
         ys \<leftarrow> rdz arr (seq2 + step_seq2 * int i) dim_seq;
         if dim_seq > 0 \<and> (right_shifts < 0 \<or> right_shifts > 31) then None
         else Some (mac_shr (nat right_shifts) 0 (zip xs ys)) })
       [0..<nat dim_cross_correlation])"

section \<open>Filters\<close>

text \<open>
  One output of the decimating filter, for \<open>data_in[i]\<close>, where \<open>data_in\<close> is position \<open>base\<close> of an array.
  A factor that is not positive would not advance the loop.
\<close>

definition down_sample :: "int list \<Rightarrow> int \<Rightarrow> int list \<Rightarrow> int \<Rightarrow> int \<Rightarrow> int option" where
  "down_sample arr base coefficients coefficients_length i = do {
     cs \<leftarrow> rdz coefficients 0 coefficients_length;
     xs \<leftarrow> rdz arr (base + i - (coefficients_length - 1)) coefficients_length;
     Some (WebRtcSpl_SatW32ToW16 (shr (mac 2048 (zip cs (rev xs))) 12)) }"

definition WebRtcSpl_DownsampleFastC :: "int list \<Rightarrow> int \<Rightarrow> int \<Rightarrow> int \<Rightarrow> int list \<Rightarrow> int \<Rightarrow> int \<Rightarrow> int \<Rightarrow> (int \<times> int list) option" where
  "WebRtcSpl_DownsampleFastC arr base data_in_length data_out_length coefficients coefficients_length factor delay =
     (let endpos = delay + factor * (data_out_length - 1) + 1
      in if data_out_length \<le> 0 \<or> coefficients_length \<le> 0 \<or> data_in_length < endpos then Some (-1, [])
         else if factor \<le> 0 then None
         else do {
           ys \<leftarrow> those (map (\<lambda>k. down_sample arr base coefficients coefficients_length (delay + factor * int k))
             [0..<nat data_out_length]);
           Some (0, ys) })"

text \<open>Saturation in Q12, and rounding to 16 bits.\<close>

definition round_q12 :: "int \<Rightarrow> int" where
  "round_q12 ob =
     (let ob = (if ob > 134215679 then 134215679 else if ob < -134217728 then -134217728 else ob)
      in s16 (shr (ob + 2048) 12))"

definition WebRtcSpl_FilterMAFastQ12 :: "int list \<Rightarrow> int \<Rightarrow> int list \<Rightarrow> int \<Rightarrow> int \<Rightarrow> int list option" where
  "WebRtcSpl_FilterMAFastQ12 arr in_ptr B B_length len =
     (let B_length = s16 B_length; len = s16 len in
      those (map (\<lambda>i. do {
         bs \<leftarrow> rdz B 0 B_length;
         xs \<leftarrow> rdz arr (in_ptr + int i - (B_length - 1)) B_length;
         Some (round_q12 (mac 0 (zip bs (rev xs)))) })
       [0..<nat len]))"

text \<open>
  The outputs of the autoregressive filter are its own inputs: \<open>data_out\<close> is a position in the array it writes,
  behind the outputs of the past.  The assertions on the lengths are \<open>None\<close> where they fail.
\<close>

definition ar_sample :: "int list \<Rightarrow> int list \<Rightarrow> int \<Rightarrow> int" where
  "ar_sample cs past x =
     round_q12 (s32 (s32 (hd cs * x) - mac 0 (zip (rev (tl cs)) past)))"

fun ar_loop :: "int list \<Rightarrow> int list \<Rightarrow> int list \<Rightarrow> int \<Rightarrow> int list option" where
  "ar_loop cs [] mem i = Some mem"
| "ar_loop cs (x # xs) mem i = do {
     past \<leftarrow> rdz mem (i - (int (length cs) - 1)) (int (length cs) - 1);
     mem \<leftarrow> wr mem (nat i) [ar_sample cs past x];
     ar_loop cs xs mem (i + 1) }"

definition WebRtcSpl_FilterARFastQ12 :: "int list \<Rightarrow> int list \<Rightarrow> int \<Rightarrow> int list \<Rightarrow> int \<Rightarrow> int \<Rightarrow> int list option" where
  "WebRtcSpl_FilterARFastQ12 data_in mem data_out coefficients coefficients_length data_length =
     (if data_length \<le> 0 \<or> coefficients_length \<le> 1 \<or> data_out < 0 then None
      else do {
        cs \<leftarrow> rdz coefficients 0 coefficients_length;
        xs \<leftarrow> rdz data_in 0 data_length;
        ar_loop cs xs mem data_out })"

section \<open>Division of a number in two halves\<close>

definition hi_part :: "int \<Rightarrow> int" where "hi_part x = s16 (shr x 16)"

definition low_part :: "int \<Rightarrow> int" where "low_part x = s16 (shr (s32 (x - s32 (shl (hi_part x) 16))) 1)"

definition WebRtcSpl_DivW32HiLow :: "int \<Rightarrow> int \<Rightarrow> int \<Rightarrow> int" where
  "WebRtcSpl_DivW32HiLow num den_hi den_low =
     (let approx = s16 (WebRtcSpl_DivW32W16 0x1FFFFFFF den_hi);
          tmpW32 = s32 (shl (den_hi * approx) 1 + shl (shr (den_low * approx) 15) 1);
          tmpW32 = s32 (0x7fffffff - tmpW32);
          tmp_hi = hi_part tmpW32; tmp_low = low_part tmpW32;
          tmpW32 = s32 (shl (s32 (tmp_hi * approx + shr (tmp_low * approx) 15)) 1);
          tmp_hi = hi_part tmpW32; tmp_low = low_part tmpW32;
          num_hi = hi_part num; num_low = low_part num;
          tmpW32 = s32 (num_hi * tmp_hi + shr (num_hi * tmp_low) 15 + shr (num_low * tmp_hi) 15)
      in s32 (shl tmpW32 3))"

section \<open>Products without overflow\<close>

lemma s32_sum_left [simp]: "s32 (s32 a + b) = s32 (a + b)"
  by (metis s32_u32 u32_add_left u32_s32)

lemma s32_diff_left [simp]: "s32 (s32 a - b) = s32 (a - b)"
  using s32_sum_left [of a "- b"] by simp

lemma s32_diff_right [simp]: "s32 (a - s32 b) = s32 (a - b)"
  by (metis s32_u32 u32_diff_right u32_s32)

lemma mac_append: "mac s (ps @ qs) = mac (mac s ps) qs"
  by (simp add: mac_def)

lemma mac_sum: "s32 (mac s ps) = s32 (s + (\<Sum>(c, x) \<leftarrow> ps. c * x))"
proof (induction ps rule: rev_induct)
  case (snoc p ps)
  obtain c x where p: "p = (c, x)" by (cases p)
  have "s32 (mac s (ps @ [p])) = s32 (s32 (mac s ps) + c * x)" by (simp add: mac_def p)
  also have "\<dots> = s32 (s + (\<Sum>(c, x) \<leftarrow> ps. c * x) + c * x)" unfolding snoc.IH by simp
  finally show ?case by (simp add: p add.assoc)
qed (simp add: mac_def)

lemma mac_shr_sum: "s32 (mac_shr k s ps) = s32 (s + (\<Sum>(c, x) \<leftarrow> ps. shr (c * x) k))"
proof (induction ps rule: rev_induct)
  case (snoc p ps)
  obtain c x where p: "p = (c, x)" by (cases p)
  have "s32 (mac_shr k s (ps @ [p])) = s32 (s32 (mac_shr k s ps) + shr (c * x) k)" by (simp add: mac_shr_def p)
  also have "\<dots> = s32 (s + (\<Sum>(c, x) \<leftarrow> ps. shr (c * x) k) + shr (c * x) k)" unfolding snoc.IH by simp
  finally show ?case by (simp add: p add.assoc)
qed (simp add: mac_shr_def)

lemma mac_range: "-2147483648 \<le> s \<Longrightarrow> s < 2147483648 \<Longrightarrow> s32 (mac s ps) = mac s ps"
  by (cases ps rule: rev_cases) (auto simp: mac_def s32_id)

lemma mac_shr_range: "-2147483648 \<le> s \<Longrightarrow> s < 2147483648 \<Longrightarrow> s32 (mac_shr k s ps) = mac_shr k s ps"
  by (cases ps rule: rev_cases) (auto simp: mac_shr_def s32_id)

lemma mac_exact:
  assumes "-2147483648 \<le> s" "s < 2147483648" "-2147483648 \<le> s + (\<Sum>(c, x) \<leftarrow> ps. c * x)" "s + (\<Sum>(c, x) \<leftarrow> ps. c * x) < 2147483648"
  shows "mac s ps = s + (\<Sum>(c, x) \<leftarrow> ps. c * x)"
  using mac_sum [of s ps] mac_range [OF assms(1,2)] s32_id [OF assms(3,4)] by simp

lemma dot_by_four_mac: "dot_by_four k s ps = mac_shr k s ps"
  by (induction k s ps rule: dot_by_four.induct) (simp_all add: mac_shr_def)

lemma sum_list_abs_bound:
  fixes f :: "'a \<Rightarrow> int"
  assumes "\<And>p. p \<in> set ps \<Longrightarrow> \<bar>f p\<bar> \<le> B"
  shows "\<bar>\<Sum>p \<leftarrow> ps. f p\<bar> \<le> int (length ps) * B"
  using assms by (induction ps) (fastforce simp: algebra_simps)+

lemma shr_abs_bound:
  assumes "\<bar>p\<bar> \<le> (M :: int)"
  shows "\<bar>shr p k\<bar> \<le> M div 2 ^ k + 1"
proof -
  have "p div 2 ^ k \<le> M div 2 ^ k" using assms by (intro zdiv_mono1) auto
  moreover have "- (M div 2 ^ k) - 1 \<le> p div 2 ^ k"
  proof -
    have "(- M) div 2 ^ k \<le> p div 2 ^ k" using assms by (intro zdiv_mono1) auto
    moreover have "- (M div 2 ^ k) - 1 \<le> (- M) div 2 ^ k" by (simp add: zdiv_zminus1_eq_if)
    ultimately show ?thesis by linarith
  qed
  ultimately show ?thesis by (simp add: drop_bit_eq_div abs_le_iff)
qed

lemma mac_shr_exact:
  assumes "\<And>c x. (c, x) \<in> set ps \<Longrightarrow> \<bar>c * x\<bar> \<le> M" "int (length ps) * (M div 2 ^ k + 1) < 2147483648"
  shows "mac_shr k 0 ps = (\<Sum>(c, x) \<leftarrow> ps. shr (c * x) k)"
proof -
  have "\<bar>\<Sum>(c, x) \<leftarrow> ps. shr (c * x) k\<bar> \<le> int (length ps) * (M div 2 ^ k + 1)"
    by (rule sum_list_abs_bound) (use assms(1) shr_abs_bound in auto)
  then show ?thesis using assms(2) mac_shr_sum [of k 0 ps] mac_shr_range [of 0 k ps] by (simp add: s32_id)
qed

lemma sum_shr_error:
  "(\<Sum>(c, x) \<leftarrow> ps. shr (c * x) k) * 2 ^ k \<le> (\<Sum>(c, x) \<leftarrow> ps. c * x)
   \<and> (\<Sum>(c, x) \<leftarrow> ps. c * x) \<le> (\<Sum>(c, x) \<leftarrow> ps. shr (c * x) k) * 2 ^ k + int (length ps) * (2 ^ k - 1)"
proof (induction ps)
  case (Cons p ps)
  obtain c x where p: "p = (c, x)" by (cases p)
  have "0 \<le> c * x mod 2 ^ k" "c * x mod 2 ^ k \<le> 2 ^ k - 1" by simp_all
  then have "shr (c * x) k * 2 ^ k \<le> c * x" "c * x \<le> shr (c * x) k * 2 ^ k + (2 ^ k - 1)"
    unfolding drop_bit_eq_div using div_mult_mod_eq [of "c * x" "2 ^ k"] by linarith+
  then show ?case using Cons by (simp add: p algebra_simps)
qed simp

lemma abs_mult_bound: "\<bar>x\<bar> \<le> m \<Longrightarrow> \<bar>y\<bar> \<le> m \<Longrightarrow> \<bar>x * y\<bar> \<le> m * (m :: int)"
  unfolding abs_mult by (intro mult_mono) auto

lemma rdz_whole: "rdz xs 0 (int (length xs)) = Some xs"
  by (simp add: rdz_def rd_def slice_def)

lemma dot_product_mac:
  assumes "length xs = length ys" "0 \<le> k" "k < 32"
  shows "WebRtcSpl_DotProductWithScale xs ys (int (length xs)) k = Some (mac_shr (nat k) 0 (zip xs ys))"
  using assms rdz_whole [of xs] rdz_whole [of ys] by (simp add: WebRtcSpl_DotProductWithScale_def dot_by_four_mac)

text \<open>
  The dot product that is unrolled by four is the sum of the products, each shifted down, as long as the scale
  leaves room for them; it is then the exact sum of products up to the bits shifted out.
\<close>

theorem dot_product_exact:
  assumes "length xs = length ys" "\<forall>x \<in> set xs \<union> set ys. \<bar>x\<bar> \<le> m" "0 \<le> k" "k < 32"
    "int (length xs) * (m * m div 2 ^ nat k + 1) < 2147483648"
  shows "\<exists>d. WebRtcSpl_DotProductWithScale xs ys (int (length xs)) k = Some d
    \<and> d = (\<Sum>(x, y) \<leftarrow> zip xs ys. shr (x * y) (nat k))
    \<and> d * 2 ^ nat k \<le> (\<Sum>(x, y) \<leftarrow> zip xs ys. x * y)
    \<and> (\<Sum>(x, y) \<leftarrow> zip xs ys. x * y) \<le> d * 2 ^ nat k + int (length xs) * (2 ^ nat k - 1)"
proof -
  have "mac_shr (nat k) 0 (zip xs ys) = (\<Sum>(x, y) \<leftarrow> zip xs ys. shr (x * y) (nat k))"
  proof (rule mac_shr_exact)
    show "(c, x) \<in> set (zip xs ys) \<Longrightarrow> \<bar>c * x\<bar> \<le> m * m" for c x
      using assms(2) by (intro abs_mult_bound) (auto dest: set_zip_leftD set_zip_rightD)
    show "int (length (zip xs ys)) * (m * m div 2 ^ nat k + 1) < 2147483648" using assms(1,5) by simp
  qed
  then show ?thesis
    using dot_product_mac [OF assms(1,3,4)] sum_shr_error [of "nat k" "zip xs ys"] assms(1) by simp
qed

lemma dot_product_exact_witness:
  "\<exists>d. WebRtcSpl_DotProductWithScale [3, -5, 7, 9, 30000] [1, 2, 3, 4, 30000] (int (length [3, -5, 7, 9, 30000 :: int])) 2 = Some d
    \<and> d = (\<Sum>(x, y) \<leftarrow> zip [3, -5, 7, 9, 30000] [1, 2, 3, 4, 30000]. shr (x * y) (nat 2))
    \<and> d * 2 ^ nat 2 \<le> (\<Sum>(x, y) \<leftarrow> zip [3, -5, 7, 9, 30000] [1, 2, 3, 4, 30000]. x * y)
    \<and> (\<Sum>(x, y) \<leftarrow> zip [3, -5, 7, 9, 30000] [1, 2, 3, 4, 30000]. x * y) \<le> d * 2 ^ nat 2
       + int (length [3, -5, 7, 9, 30000 :: int]) * (2 ^ nat 2 - 1)"
  by (rule dot_product_exact [where m = 30000]) simp_all

section \<open>The filters as sums\<close>

lemma those_map_Some: "(\<And>i. i \<in> set xs \<Longrightarrow> f i = Some (g i)) \<Longrightarrow> those (map f xs) = Some (map g xs)"
  by (induction xs) simp_all

text \<open>A window read backwards against the coefficients.\<close>

lemma window_sum:
  assumes "length cs = L" "i + L \<le> length arr"
  shows "(\<Sum>(c, x) \<leftarrow> zip cs (rev (slice i L arr)). c * x) = (\<Sum>j < L. cs ! j * arr ! (i + L - 1 - j))"
proof -
  have l: "length (zip cs (rev (slice i L arr))) = L" using assms by simp
  have "(\<Sum>(c, x) \<leftarrow> zip cs (rev (slice i L arr)). c * x) = (\<Sum>j = 0..<L. cs ! j * arr ! (i + L - 1 - j))"
    unfolding sum_list_sum_nth length_map l
  proof (rule sum.cong)
    fix j assume "j \<in> {0..<L}"
    then show "map (\<lambda>(c, x). c * x) (zip cs (rev (slice i L arr))) ! j = cs ! j * arr ! (i + L - 1 - j)"
      using assms l by (simp add: rev_nth) (simp add: slice_def)
  qed simp
  then show ?thesis by (simp add: atLeast0LessThan)
qed

lemma rdz_slice: "0 \<le> i \<Longrightarrow> i + int n \<le> int (length arr) \<Longrightarrow> rdz arr i (int n) = Some (slice (nat i) n arr)"
  by (auto simp: rdz_def rd_def slice_def nat_le_iff)

lemma fir_bound:
  assumes "length cs = L" "(\<Sum>c \<leftarrow> cs. \<bar>c\<bar>) \<le> K" "\<And>j. j < L \<Longrightarrow> \<bar>x j\<bar> \<le> M" "0 \<le> M"
  shows "\<bar>\<Sum>j < L. cs ! j * x j\<bar> \<le> K * (M :: int)"
proof -
  have "\<bar>\<Sum>j < L. cs ! j * x j\<bar> \<le> (\<Sum>j < L. \<bar>cs ! j\<bar> * M)"
    by (rule order_trans [OF sum_abs sum_mono]) (simp add: abs_mult assms(3) mult_left_mono)
  also have "\<dots> = (\<Sum>c \<leftarrow> cs. \<bar>c\<bar>) * M"
    using assms(1) by (simp add: sum_list_sum_nth atLeast0LessThan sum_distrib_right)
  finally show ?thesis using mult_right_mono [OF assms(2,4)] by linarith
qed

lemma saturate_div:
  "WebRtcSpl_SatW32ToW16 x = max (-32768) (min 32767 x)"
  by (auto simp: WebRtcSpl_SatW32ToW16_def s16_id)

lemma downsample_fir:
  assumes "int16s arr" "length cs = L" "0 < L" "(\<Sum>c \<leftarrow> cs. \<bar>c\<bar>) \<le> 65535" "0 < n" "0 < factor"
    "int L - 1 \<le> base + delay" "delay + factor * (int n - 1) + 1 \<le> len" "base + len \<le> int (length arr)"
  shows "WebRtcSpl_DownsampleFastC arr base len (int n) cs (int L) factor delay = Some (0, map (\<lambda>k.
      max (-32768) (min 32767 ((2048 + (\<Sum>j < L. cs ! j * arr ! nat (base + delay + factor * int k - int j))) div 4096))) [0..<n])"
proof -
  have "down_sample arr base cs (int L) (delay + factor * int k) = Some (max (-32768) (min 32767
      ((2048 + (\<Sum>j < L. cs ! j * arr ! nat (base + delay + factor * int k - int j))) div 4096)))" if "k < n" for k
  proof -
    define i where "i = nat (base + (delay + factor * int k) - (int L - 1))"
    have f: "factor * int k \<le> factor * (int n - 1)" "0 \<le> factor * int k" using that assms(6) by simp_all
    then have i: "int i = base + (delay + factor * int k) - (int L - 1)" using assms(7) by (simp add: i_def)
    have le: "i + L \<le> length arr" using i f assms(8,9) by linarith
    have nth: "arr ! (i + L - 1 - j) = arr ! nat (base + delay + factor * int k - int j)" if "j < L" for j
      using i that by (intro arg_cong [where f = "nth arr"]) linarith
    let ?S = "\<Sum>j < L. cs ! j * arr ! nat (base + delay + factor * int k - int j)"
    have S: "(\<Sum>(c, x) \<leftarrow> zip cs (rev (slice i L arr)). c * x) = ?S"
      unfolding window_sum [OF assms(2) le] using nth by (intro sum.cong) simp_all
    have "\<bar>arr ! nat (base + delay + factor * int k - int j)\<bar> \<le> 32768" if "j < L" for j
    proof -
      have "arr ! (i + L - 1 - j) \<in> set arr" using le that by (intro nth_mem) linarith
      then have "-32768 \<le> arr ! (i + L - 1 - j) \<and> arr ! (i + L - 1 - j) \<le> 32767" using assms(1) by (simp add: int16s_def)
      then show ?thesis unfolding nth [OF that, symmetric] by linarith
    qed
    with fir_bound [OF assms(2,4), of "\<lambda>j. arr ! nat (base + delay + factor * int k - int j)" 32768]
    have "\<bar>?S\<bar> \<le> 65535 * 32768" by simp
    then have "mac 2048 (zip cs (rev (slice i L arr))) = 2048 + ?S" unfolding S [symmetric] by (intro mac_exact) simp_all
    moreover have "rdz arr (base + (delay + factor * int k) - (int L - 1)) (int L) = Some (slice i L arr)"
      unfolding i [symmetric] using rdz_slice [of "int i" L arr] le by simp
    ultimately show ?thesis using rdz_whole [of cs] assms(2)
      by (simp add: down_sample_def saturate_div drop_bit_eq_div)
  qed
  then have "those (map (\<lambda>k. down_sample arr base cs (int L) (delay + factor * int k)) [0..<n]) = Some (map (\<lambda>k.
      max (-32768) (min 32767 ((2048 + (\<Sum>j < L. cs ! j * arr ! nat (base + delay + factor * int k - int j))) div 4096))) [0..<n])"
    by (intro those_map_Some) simp
  then show ?thesis using assms(3,5,6,8) by (simp add: WebRtcSpl_DownsampleFastC_def Let_def)
qed

text \<open>
  C25: Decimation is a finite impulse response filter: where the window of every output lies inside the array, the
  routine returns every output, which is the sum of products, rounded from Q12 and saturated to 16 bits; no
  sum overflows for coefficients of absolute sum below 16.
\<close>

theorem downsample_fast_fir:
  assumes "int16s arr" "length cs = L" "0 < L" "(\<Sum>c \<leftarrow> cs. \<bar>c\<bar>) \<le> 65535" "0 < n" "0 < factor"
    "int L - 1 \<le> base + delay" "delay + factor * (int n - 1) + 1 \<le> len" "base + len \<le> int (length arr)"
  shows "WebRtcSpl_DownsampleFastC arr base len (int n) cs (int L) factor delay = Some (0, map (\<lambda>k.
      max (-32768) (min 32767 ((2048 + (\<Sum>j < L. cs ! j * arr ! nat (base + delay + factor * int k - int j))) div 4096))) [0..<n])"
  by (rule downsample_fir [OF assms])

lemma downsample_fast_fir_witness:
  "WebRtcSpl_DownsampleFastC [1000, 2000, -3000, 4000, 32000, 32000] 2 4 (int 2) [1229, 1638, 1229] (int 3) 2 1 = Some (0, map (\<lambda>k.
      max (-32768) (min 32767 ((2048 + (\<Sum>j < 3. [1229, 1638, 1229] ! j *
        [1000, 2000, -3000, 4000, 32000, 32000] ! nat (2 + 1 + 2 * int k - int j))) div 4096))) [0..<2])"
  by (rule downsample_fast_fir) (simp_all add: int16s_def)

text \<open>The filters in Q12.\<close>

lemma ma_filter:
  assumes "length B = L" "0 < L" "int L - 1 \<le> p" "p + int n \<le> int (length arr)" "L < 32768" "n < 32768"
  shows "WebRtcSpl_FilterMAFastQ12 arr p B (int L) (int n)
    = Some (map (\<lambda>i. round_q12 (s32 (\<Sum>j < L. B ! j * arr ! nat (p + int i - int j)))) [0..<n])"
proof -
  have "rdz arr (p + int i - (int L - 1)) (int L) = Some (slice (nat (p + int i - (int L - 1))) L arr)"
    "mac 0 (zip B (rev (slice (nat (p + int i - (int L - 1))) L arr))) = s32 (\<Sum>j < L. B ! j * arr ! nat (p + int i - int j))"
    if "i < n" for i
  proof -
    let ?i = "nat (p + int i - (int L - 1))"
    have le: "?i + L \<le> length arr" using that assms(3,4) by linarith
    have "arr ! (?i + L - 1 - j) = arr ! nat (p + int i - int j)" if "j < L" for j
      using that assms(3) by (intro arg_cong [where f = "nth arr"]) linarith
    then have "(\<Sum>(c, x) \<leftarrow> zip B (rev (slice ?i L arr)). c * x) = (\<Sum>j < L. B ! j * arr ! nat (p + int i - int j))"
      unfolding window_sum [OF assms(1) le] by (intro sum.cong) simp_all
    then show "mac 0 (zip B (rev (slice ?i L arr))) = s32 (\<Sum>j < L. B ! j * arr ! nat (p + int i - int j))"
      using mac_sum [of 0 "zip B (rev (slice ?i L arr))"] mac_range [of 0 "zip B (rev (slice ?i L arr))"] by simp
    show "rdz arr (p + int i - (int L - 1)) (int L) = Some (slice ?i L arr)"
      using that assms(3,4) by (intro rdz_slice) linarith+
  qed
  moreover have "s16 (int L) = int L" "s16 (int n) = int n" using assms(5,6) by (simp_all add: s16_id)
  ultimately show ?thesis unfolding WebRtcSpl_FilterMAFastQ12_def Let_def
    using rdz_whole [of B] assms(1) by simp (intro those_map_Some, simp)
qed

lemma ar_step_sum:
  assumes "length cs = L" "0 < L" "L - 1 \<le> i" "i \<le> length mem"
  shows "ar_sample cs (slice (i - (L - 1)) (L - 1) mem) x
    = round_q12 (s32 (cs ! 0 * x - (\<Sum>j = 1..<L. cs ! j * mem ! (i - j))))"
proof -
  let ?past = "slice (i - (L - 1)) (L - 1) mem"
  have l: "length ?past = L - 1" "length (tl cs) = L - 1" using assms by simp_all
  have "rev (zip (rev (tl cs)) ?past) = zip (tl cs) (rev ?past)" using zip_rev [of "rev (tl cs)" ?past] l by simp
  then have "(\<Sum>(c, y) \<leftarrow> zip (rev (tl cs)) ?past. c * y) = (\<Sum>(c, y) \<leftarrow> zip (tl cs) (rev ?past). c * y)"
    by (metis (no_types, lifting) rev_map sum_list_rev)
  also have "\<dots> = (\<Sum>j < L - 1. tl cs ! j * mem ! (i - (L - 1) + (L - 1) - 1 - j))"
    using assms l by (intro window_sum) simp_all
  also have "\<dots> = (\<Sum>j < L - 1. cs ! Suc j * mem ! (i - Suc j))"
    using assms by (intro sum.cong) (simp_all add: nth_tl)
  also have "\<dots> = (\<Sum>j = 1..<L. cs ! j * mem ! (i - j))"
    using assms(2) by (intro sum.reindex_bij_witness [where i = "\<lambda>j. j - 1" and j = Suc]) auto
  finally have "s32 (mac 0 (zip (rev (tl cs)) ?past)) = s32 (\<Sum>j = 1..<L. cs ! j * mem ! (i - j))"
    using mac_sum [of 0 "zip (rev (tl cs)) ?past"] by simp
  then have "s32 (s32 (cs ! 0 * x) - mac 0 (zip (rev (tl cs)) ?past)) = s32 (cs ! 0 * x - (\<Sum>j = 1..<L. cs ! j * mem ! (i - j)))"
    using s32_diff_right [of "cs ! 0 * x" "mac 0 (zip (rev (tl cs)) ?past)"] s32_diff_right [of "cs ! 0 * x"] by simp
  then show ?thesis using assms by (cases cs) (simp_all add: ar_sample_def)
qed

lemma ar_loop_ok:
  assumes "length cs = L" "0 < L" "L - 1 \<le> i" "i + length xs \<le> length mem"
  shows "\<exists>ys. ar_loop cs xs mem (int i) = Some (blit i ys mem) \<and> length ys = length xs
    \<and> (\<forall>n < length xs. ys ! n = round_q12 (s32 (cs ! 0 * xs ! n - (\<Sum>j = 1..<L. cs ! j * blit i ys mem ! (i + n - j)))))"
  using assms(3,4)
proof (induction xs arbitrary: mem i)
  case Nil
  then show ?case by (simp add: blit_def)
next
  case (Cons x xs)
  let ?y = "ar_sample cs (slice (i - (L - 1)) (L - 1) mem) x"
  let ?mem = "mem[i := ?y]"
  from Cons.IH [of "Suc i" ?mem] Cons.prems obtain ys where ys: "ar_loop cs xs ?mem (int (Suc i)) = Some (blit (Suc i) ys ?mem)"
    "length ys = length xs"
    "\<forall>n < length xs. ys ! n = round_q12 (s32 (cs ! 0 * xs ! n - (\<Sum>j = 1..<L. cs ! j * blit (Suc i) ys ?mem ! (Suc i + n - j))))"
    by auto
  have b: "blit (Suc i) ys ?mem = blit i (?y # ys) mem"
    using Cons.prems ys(2) by (simp add: blit_def upd_conv_take_nth_drop add.commute)
  have "rdz mem (int i - (int L - 1)) (int L - 1) = Some (slice (i - (L - 1)) (L - 1) mem)"
  proof -
    have e: "int i - (int L - 1) = int (i - (L - 1))" "int L - 1 = int (L - 1)" using Cons.prems(1) assms(2) by linarith+
    have "int (i - (L - 1)) + int (L - 1) \<le> int (length mem)" using Cons.prems by simp
    then have "rdz mem (int (i - (L - 1))) (int (L - 1)) = Some (slice (i - (L - 1)) (L - 1) mem)"
      using rdz_slice [of "int (i - (L - 1))" "L - 1" mem] by simp
    then show ?thesis by (simp only: e [symmetric])
  qed
  moreover have "wr mem i [?y] = Some ?mem" using Cons.prems by (simp add: wr_def blit_def upd_conv_take_nth_drop)
  ultimately have "ar_loop cs (x # xs) mem (int i) = Some (blit i (?y # ys) mem)"
    using ys(1) [unfolded b] assms(1) by (simp add: add.commute)
  moreover have old: "blit i (?y # ys) mem ! (i - j) = mem ! (i - j)" if "1 \<le> j" "j < L" for j
  proof -
    have "i - j < i" using that Cons.prems(1) by linarith
    then show ?thesis using Cons.prems(2) ys(2) by (simp add: nth_blit)
  qed
  have y: "?y = round_q12 (s32 (cs ! 0 * x - (\<Sum>j = 1..<L. cs ! j * blit i (?y # ys) mem ! (i - j))))"
    using ar_step_sum [OF assms(1,2) Cons.prems(1), of mem x] Cons.prems(2) old by simp
  have "(?y # ys) ! n = round_q12 (s32 (cs ! 0 * (x # xs) ! n - (\<Sum>j = 1..<L. cs ! j * blit i (?y # ys) mem ! (i + n - j))))"
    if "n < length (x # xs)" for n
    using that ys(3) [unfolded b] y by (cases n) simp_all
  ultimately show ?case using ys(2) by (intro exI [of _ "?y # ys"]) simp
qed

lemma int16s_nth: "int16s xs \<Longrightarrow> i < length xs \<Longrightarrow> -32768 \<le> xs ! i \<and> xs ! i \<le> 32767"
  by (auto simp: int16s_def)

text \<open>The clip constants and the rounding constant together round to nearest and saturate to 16 bits.\<close>

lemma round_q12_value: "round_q12 x = max (-32768) (min 32767 ((2048 + x) div 4096))"
proof -
  have hi: "32767 < (2048 + x) div 4096" if "x > 134215679" using that zdiv_mono1 [of 134217728 "2048 + x" 4096] by simp
  have lo: "(2048 + x) div 4096 < - 32768 + 1" if "x < -134217728" using that zdiv_mono1 [of "2048 + x" "-134215681" 4096] by simp
  have mid: "- 32768 \<le> (2048 + x) div 4096" "(2048 + x) div 4096 \<le> 32767" if "-134217728 \<le> x" "x \<le> 134215679"
    using that zdiv_mono1 [of "-134215680" "2048 + x" 4096] zdiv_mono1 [of "2048 + x" 134217727 4096] by simp_all
  consider "x > 134215679" | "x < -134217728" | "-134217728 \<le> x" "x \<le> 134215679" by linarith
  then show ?thesis
  proof cases
    case 3
    then show ?thesis using mid by (simp add: round_q12_def shr_eq_div s16_id add.commute)
  qed (use hi lo in \<open>simp_all add: round_q12_def s16_def\<close>)
qed

lemma round_q12_range: "-32768 \<le> round_q12 x" "round_q12 x \<le> 32767"
  by (simp_all add: round_q12_value)

text \<open>
  C26: The filters in Q12 compute their difference equations: the moving average the sum over its inputs, the
  autoregressive filter that over its own outputs, the first of which refer to the outputs of the past in front of them.  The outputs are
  the sums over 4096, rounded to nearest and saturated to 16 bits; for 16-bit signals and coefficients of absolute sum below 16 no sum overflows,
  nothing outside of the output is written, and nothing outside of the arrays read.
\<close>

theorem q12_filters:
  assumes "length cs = L" "1 < L" "L < 32768" "L - 1 \<le> i" "xs \<noteq> []" "length xs < 32768" "i + length xs \<le> length mem"
    "int16s mem" "int16s xs" "(\<Sum>c \<leftarrow> cs. \<bar>c\<bar>) \<le> 65535"
  shows "WebRtcSpl_FilterMAFastQ12 mem (int i) cs (int L) (int (length xs))
      = Some (map (\<lambda>n. max (-32768) (min 32767 ((2048 + (\<Sum>j < L. cs ! j * mem ! (i + n - j))) div 4096))) [0..<length xs])
    \<and> (\<exists>ys. WebRtcSpl_FilterARFastQ12 xs mem (int i) cs (int L) (int (length xs)) = Some (take i mem @ ys @ drop (i + length xs) mem)
      \<and> length ys = length xs \<and> (\<forall>n < length xs. ys ! n = max (-32768) (min 32767
          ((2048 + (cs ! 0 * xs ! n - (\<Sum>j = 1..<L. cs ! j * (take i mem @ ys) ! (i + n - j)))) div 4096))))"
proof
  have L: "0 < L" using assms(2) by simp
  have "int L - 1 \<le> int i" "int i + int (length xs) \<le> int (length mem)" using assms(4,7) by linarith+
  note ma = ma_filter [OF assms(1) L this assms(3,6)]
  have "\<bar>\<Sum>j < L. cs ! j * mem ! (i + n - j)\<bar> \<le> 65535 * 32768" if "n < length xs" for n
  proof (intro fir_bound [OF assms(1,10)])
    show "\<bar>mem ! (i + n - j)\<bar> \<le> 32768" for j
      using int16s_nth [OF assms(8), of "i + n - j"] that assms(7) by linarith
  qed simp
  then have "s32 (\<Sum>j < L. cs ! j * mem ! (i + n - j)) = (\<Sum>j < L. cs ! j * mem ! (i + n - j))" if "n < length xs" for n
    using that by (intro s32_id) (fastforce simp: abs_le_iff)+
  moreover have "nat (int i + int n - int j) = i + n - j" for n j by simp
  ultimately show "WebRtcSpl_FilterMAFastQ12 mem (int i) cs (int L) (int (length xs))
      = Some (map (\<lambda>n. max (-32768) (min 32767 ((2048 + (\<Sum>j < L. cs ! j * mem ! (i + n - j))) div 4096))) [0..<length xs])"
    unfolding ma by (simp add: round_q12_value)
  from ar_loop_ok [OF assms(1) L assms(4,7)] obtain ys where ys: "ar_loop cs xs mem (int i) = Some (blit i ys mem)" "length ys = length xs"
    "\<forall>n < length xs. ys ! n = round_q12 (s32 (cs ! 0 * xs ! n - (\<Sum>j = 1..<L. cs ! j * blit i ys mem ! (i + n - j))))"
    by auto
  let ?m = "take i mem @ ys"
  have b: "blit i ys mem ! (i + n - j) = ?m ! (i + n - j)" if "n < length xs" "1 \<le> j" "j < L" for n j
  proof -
    have "i + n - j < length ?m" using that assms(4,7) ys(2) by simp
    then show ?thesis unfolding blit_def append_assoc [symmetric] by (rule nth_append_left)
  qed
  have "-32768 \<le> y \<and> y \<le> 32767" if "y \<in> set ys" for y
    using that ys(2,3) round_q12_range by (auto simp: in_set_conv_nth)
  then have m: "\<bar>?m ! k\<bar> \<le> 32768" if "k < length ?m" for k
    using that assms(8) nth_mem [OF that] by (fastforce simp: int16s_def abs_le_iff dest: in_set_takeD)
  have "ys ! n = max (-32768) (min 32767 ((2048 + (cs ! 0 * xs ! n - (\<Sum>j = 1..<L. cs ! j * ?m ! (i + n - j)))) div 4096))"
    if n: "n < length xs" for n
  proof -
    let ?x = "\<lambda>j. if j = 0 then xs ! n else - ?m ! (i + n - j)"
    have s: "(\<Sum>j < L. cs ! j * ?x j) = cs ! 0 * xs ! n - (\<Sum>j = 1..<L. cs ! j * ?m ! (i + n - j))"
      using L by (simp add: lessThan_atLeast0 sum.atLeast_Suc_lessThan sum_negf)
    have "\<bar>\<Sum>j < L. cs ! j * ?x j\<bar> \<le> 65535 * 32768"
    proof (intro fir_bound [OF assms(1,10)])
      fix j assume "j < L"
      then have "j \<noteq> 0 \<Longrightarrow> i + n - j < length ?m" using n assms(4,7) ys(2) by simp
      then show "\<bar>?x j\<bar> \<le> 32768" using m [of "i + n - j"] n assms(9) int16s_nth [of xs n] by (auto simp: abs_le_iff)
    qed simp
    then have "s32 (cs ! 0 * xs ! n - (\<Sum>j = 1..<L. cs ! j * ?m ! (i + n - j))) = cs ! 0 * xs ! n - (\<Sum>j = 1..<L. cs ! j * ?m ! (i + n - j))"
      unfolding s by (intro s32_id) (simp_all add: abs_le_iff)
    moreover have "(\<Sum>j = 1..<L. cs ! j * blit i ys mem ! (i + n - j)) = (\<Sum>j = 1..<L. cs ! j * ?m ! (i + n - j))"
      using b n by (intro sum.cong) simp_all
    ultimately show ?thesis using ys(3) n by (simp add: round_q12_value)
  qed
  moreover have "WebRtcSpl_FilterARFastQ12 xs mem (int i) cs (int L) (int (length xs)) = Some (blit i ys mem)"
    using ys(1) assms(1,2,5) rdz_whole [of cs] rdz_whole [of xs] by (simp add: WebRtcSpl_FilterARFastQ12_def)
  ultimately show "\<exists>ys. WebRtcSpl_FilterARFastQ12 xs mem (int i) cs (int L) (int (length xs)) = Some (take i mem @ ys @ drop (i + length xs) mem)
      \<and> length ys = length xs \<and> (\<forall>n < length xs. ys ! n = max (-32768) (min 32767
          ((2048 + (cs ! 0 * xs ! n - (\<Sum>j = 1..<L. cs ! j * (take i mem @ ys) ! (i + n - j)))) div 4096)))"
    using ys(2) by (auto simp: blit_def)
qed

lemma q12_filters_witness:
  "WebRtcSpl_FilterMAFastQ12 [100, -200, 300, 7, 7] (int 2) [4096, 1000, -500] (int 3) (int (length [5, 6 :: int]))
      = Some (map (\<lambda>n. max (-32768) (min 32767 ((2048 + (\<Sum>j < 3. [4096, 1000, -500] ! j * [100, -200, 300, 7, 7] ! (2 + n - j))) div 4096)))
          [0..<length [5, 6 :: int]])
    \<and> (\<exists>ys. WebRtcSpl_FilterARFastQ12 [5, 6] [100, -200, 300, 7, 7] (int 2) [4096, 1000, -500] (int 3) (int (length [5, 6 :: int]))
        = Some (take 2 [100, -200, 300, 7, 7] @ ys @ drop (2 + length [5, 6 :: int]) [100, -200, 300, 7, 7])
      \<and> length ys = length [5, 6 :: int] \<and> (\<forall>n < length [5, 6 :: int]. ys ! n = max (-32768) (min 32767
          ((2048 + ([4096, 1000, -500] ! 0 * [5, 6] ! n
            - (\<Sum>j = 1..<3. [4096, 1000, -500] ! j * (take 2 [100, -200, 300, 7, 7] @ ys) ! (2 + n - j)))) div 4096))))"
  by (rule q12_filters) (simp_all add: int16s_def)

end
