(* ===== verification/Neteq_Dsp.thy ===== *)
theory Neteq_Dsp
  imports Spl_Vector
begin

text \<open>
  The helpers of the signal side of NetEQ (\<open>modules/audio_coding/neteq\<close>): the rate as a multiple of 8 kHz and the
  downsampling to 4 kHz (\<open>dsp_helpfunctions.c\<close>), the search for a pitch peak with a parabolic fit
  (\<open>peak_detection.c\<close>), the lag of least distortion (\<open>min_distortion.c\<close>), mixing, muting and unmuting
  (\<open>mix_voice_unvoice.c\<close>, \<open>mute_signal.c\<close>, \<open>unmute_signal.c\<close>), the correlator (\<open>correlator.c\<close>) and the random vectors
  (\<open>random_vector.c\<close>).

  The build options are those of \<open>neteq.gypi\<close>: wideband and 32 kHz are on, 48 kHz is off.  A position in an array is the
  array with an index; an access outside is \<open>None\<close>.
\<close>

section \<open>Rates\<close>

definition WebRtcNetEQ_CalcFsMult :: "int \<Rightarrow> int" where
  "WebRtcNetEQ_CalcFsMult fsHz =
     (if fsHz = 8000 then 1 else if fsHz = 16000 then 2 else if fsHz = 32000 then 4 else if fsHz = 48000 then 6 else 1)"

definition WebRtcNetEQ_kDownsample8kHzTbl :: "int list" where "WebRtcNetEQ_kDownsample8kHzTbl = [1229, 1638, 1229]"
definition WebRtcNetEQ_kDownsample16kHzTbl :: "int list" where "WebRtcNetEQ_kDownsample16kHzTbl = [614, 819, 1229, 819, 614]"
definition WebRtcNetEQ_kDownsample32kHzTbl :: "int list" where "WebRtcNetEQ_kDownsample32kHzTbl = [584, 512, 625, 667, 625, 512, 584]"

text \<open>The filter for a rate, its factor and its delay, for the rates that are compiled in.\<close>

definition down_filter :: "int \<Rightarrow> (int list \<times> int \<times> int) option" where
  "down_filter fs =
     (if fs = 8000 then Some (WebRtcNetEQ_kDownsample8kHzTbl, 2, 1 + 1)
      else if fs = 16000 then Some (WebRtcNetEQ_kDownsample16kHzTbl, 4, 2 + 1)
      else if fs = 32000 then Some (WebRtcNetEQ_kDownsample32kHzTbl, 8, 3 + 1)
      else None)"

definition WebRtcNetEQ_DownSampleTo4kHz :: "int list \<Rightarrow> int \<Rightarrow> int \<Rightarrow> int \<Rightarrow> bool \<Rightarrow> (int \<times> int list) option" where
  "WebRtcNetEQ_DownSampleTo4kHz inp inLen inFsHz outLen compensateDelay =
     (case down_filter inFsHz of
        None \<Rightarrow> Some (-1, [])
      | Some (B, factor, filterDelay) \<Rightarrow>
          let Blen = int (length B); filterDelay = (if compensateDelay then filterDelay else 0)
          in WebRtcSpl_DownsampleFastC inp (Blen - 1) (s16 (inLen - (Blen - 1))) (s16 outLen) B Blen factor filterDelay)"

section \<open>Peaks\<close>

definition WebRtcNetEQ_kPrblCf :: "(int \<times> int \<times> int) list" where
  "WebRtcNetEQ_kPrblCf = [(120, 32, 64), (140, 44, 75), (150, 50, 80), (160, 57, 85), (180, 72, 96), (200, 89, 107), (210, 98, 112),
     (220, 108, 117), (240, 128, 128), (260, 150, 139), (270, 162, 144), (280, 174, 149), (300, 200, 160), (320, 228, 171),
     (330, 242, 176), (340, 257, 181), (360, 288, 192)]"

definition PFind :: "int \<Rightarrow> nat list" where
  "PFind fs_mult =
     (if fs_mult = 1 then [0, 8, 16] else if fs_mult = 2 then [0, 4, 8, 12, 16]
      else if fs_mult = 4 then [0, 2, 4, 6, 8, 10, 12, 14, 16]
      else [0, 1, 3, 4, 5, 7, 8, 9, 11, 12, 13, 15, 16])"

definition prbl_cf :: "int \<Rightarrow> int \<Rightarrow> int \<times> int \<times> int" where
  "prbl_cf fs_mult i = WebRtcNetEQ_kPrblCf ! (PFind fs_mult ! nat i)"

text \<open>
  The loops that move the flag: \<open>k\<close> is what is left until the flag is \<open>fs_mult\<close>, and the limit moves by
  \<open>stp\<close> from turn to turn.
\<close>

fun prbl_flag :: "(int \<Rightarrow> bool) \<Rightarrow> int \<Rightarrow> int \<Rightarrow> nat \<Rightarrow> int \<Rightarrow> int" where
  "prbl_flag reached stp lmt 0 flag = flag"
| "prbl_flag reached stp lmt (Suc k) flag =
     (if reached lmt then flag else prbl_flag reached stp (s16 (lmt + stp)) k (flag + 1))"

text \<open>The value of the parabola at entry \<open>i\<close>.\<close>

definition prbl_value :: "int \<Rightarrow> int \<Rightarrow> int \<Rightarrow> int \<Rightarrow> int \<Rightarrow> int" where
  "prbl_value fs_mult Num Den y0 i =
     (case prbl_cf fs_mult i of (_, c1, c2) \<Rightarrow> s16 (shr (s32 (s32 (Den * c1) + s32 (Num * c2) + y0 * 256)) 8))"

text \<open>On the three points and the index; the result is the new index and the value.\<close>

definition WebRtcNetEQ_PrblFit :: "int \<Rightarrow> int \<Rightarrow> int \<Rightarrow> int \<Rightarrow> int \<Rightarrow> int \<times> int" where
  "WebRtcNetEQ_PrblFit y0 y1 y2 Ind fs_mult =
     (let Num = y0 * (-3) + y1 * 4 - y2;
          Den = y0 + y1 * (-2) + y2;
          temp = s32 (Num * 120);
          stp = s16 (fst (prbl_cf fs_mult fs_mult) - fst (prbl_cf fs_mult (fs_mult - 1)));
          strt = s16 (shr (fst (prbl_cf fs_mult fs_mult) + fst (prbl_cf fs_mult (fs_mult - 1))) 1)
      in if temp < s32 (- Den * strt)
         then let flag = prbl_flag (\<lambda>lmt. temp > s32 (- Den * lmt)) (- stp) (s16 (strt - stp)) (nat (fs_mult - 1)) 1
              in (s16 (Ind * shl fs_mult 1 - flag), prbl_value fs_mult Num Den y0 (fs_mult - flag))
         else if temp > s32 (- Den * (strt + stp))
         then let flag = prbl_flag (\<lambda>lmt. temp < s32 (- Den * lmt)) stp (s16 (strt + shl stp 1)) (nat (fs_mult - 1)) 1
              in (s16 (Ind * shl fs_mult 1 + flag), prbl_value fs_mult Num Den y0 (fs_mult + flag))
         else (s16 (Ind * 2 * fs_mult), y1))"

definition ld :: "int list \<Rightarrow> int \<Rightarrow> int option" where
  "ld mem i = (if 0 \<le> i \<and> i < int (length mem) then Some (mem ! nat i) else None)"

definition peak_fit :: "int list \<Rightarrow> int \<Rightarrow> int \<Rightarrow> (int \<times> int) option" where
  "peak_fit data w fs_mult = do {
     y0 \<leftarrow> ld data (w - 1); y1 \<leftarrow> ld data w; y2 \<leftarrow> ld data (w + 1);
     Some (WebRtcNetEQ_PrblFit y0 y1 y2 w fs_mult) }"

text \<open>The index and the value for the largest element, at index \<open>w\<close>.\<close>

definition peak_at :: "int list \<Rightarrow> int \<Rightarrow> int \<Rightarrow> int \<Rightarrow> (int \<times> int) option" where
  "peak_at data dataLen w fs_mult =
     (if w \<noteq> 0 \<and> w \<noteq> dataLen - 2 then peak_fit data w fs_mult
      else if w = dataLen - 2
      then do {
        a \<leftarrow> ld data w; b \<leftarrow> ld data (w + 1);
        if a > b then peak_fit data w fs_mult else Some (s16 ((w * 2 + 1) * fs_mult), s16 (shr (a + b) 1)) }
      else do { a \<leftarrow> ld data w; Some (s16 (w * 2 * fs_mult), a) })"

text \<open>
  The search for \<open>n\<close> more peaks; after all but the last the surroundings of the peak are cleared.  The search for a single peak
  counts one more element than it is given.
\<close>

fun peak_loop :: "nat \<Rightarrow> bool \<Rightarrow> int \<Rightarrow> int list \<Rightarrow> int \<Rightarrow> ((int \<times> int) list \<times> int list) option" where
  "peak_loop 0 single fs_mult data dataLen = Some ([], data)"
| "peak_loop (Suc n) single fs_mult data dataLen0 =
     (let dataLen = (if single then s16 (dataLen0 + 1) else dataLen0) in do {
        w \<leftarrow> map_option s16 (WebRtcSpl_MaxIndexW16 (Some data) (s16 (dataLen - 1)));
        p \<leftarrow> peak_at data dataLen w fs_mult;
        let indMin = max 0 (s16 (w - 2)); indMax = min (s16 (dataLen - 1)) (s16 (w + 2)) in do {
          data \<leftarrow> (if n = 0 then Some data else WebRtcSpl_MemSetW16 data (nat indMin) 0 (indMax - indMin + 1));
          (ps, data) \<leftarrow> peak_loop n single fs_mult data dataLen;
          Some (p # ps, data) } })"

definition WebRtcNetEQ_PeakDetection :: "int list \<Rightarrow> int \<Rightarrow> int \<Rightarrow> int \<Rightarrow> ((int \<times> int) list \<times> int list) option" where
  "WebRtcNetEQ_PeakDetection data dataLen nmbPeaks fs_mult = peak_loop (nat nmbPeaks) (nmbPeaks = 1) fs_mult data dataLen"

section \<open>Distortion\<close>

definition distortion :: "int list \<Rightarrow> int list \<Rightarrow> int" where
  "distortion xs ys = foldl (\<lambda>s (x, y). s32 (s + \<bar>x - y\<bar>)) 0 (zip xs ys)"

text \<open>The lags from the least to the largest, with the best lag and its distortion so far.\<close>

fun min_dist_loop :: "int list \<Rightarrow> int \<Rightarrow> int \<Rightarrow> int list \<Rightarrow> int \<Rightarrow> int \<Rightarrow> (int \<times> int) option" where
  "min_dist_loop arr data len [] bestIndex minDist = Some (bestIndex, minDist)"
| "min_dist_loop arr data len (i # lags) bestIndex minDist = do {
     xs \<leftarrow> rdz arr data len; ys \<leftarrow> rdz arr (data - i) len;
     if distortion xs ys < minDist then min_dist_loop arr data len lags (s16 i) (distortion xs ys)
     else min_dist_loop arr data len lags bestIndex minDist }"

definition WebRtcNetEQ_MinDistortion :: "int list \<Rightarrow> int \<Rightarrow> int \<Rightarrow> int \<Rightarrow> int \<Rightarrow> (int \<times> int) option" where
  "WebRtcNetEQ_MinDistortion arr data minLag maxLag len = min_dist_loop arr data len [minLag..maxLag] (-1) 2147483647"

section \<open>Gains\<close>

fun mix_loop :: "int \<Rightarrow> int \<Rightarrow> int \<Rightarrow> (int \<times> int) list \<Rightarrow> int list \<times> int" where
  "mix_loop vfraction tmp2 change [] = ([], vfraction)"
| "mix_loop vfraction tmp2 change ((v, u) # ps) =
     (let (out, vfraction') = mix_loop (s16 (vfraction - change)) (s16 (tmp2 + change)) change ps
      in (s16 (shr (s32 (vfraction * v + tmp2 * u + 8192)) 14) # out, vfraction'))"

definition WebRtcNetEQ_MixVoiceUnvoice :: "int list \<Rightarrow> int list \<Rightarrow> int \<Rightarrow> int \<Rightarrow> int \<Rightarrow> (int list \<times> int) option" where
  "WebRtcNetEQ_MixVoiceUnvoice voicedVec unvoicedVec current_vfraction vfraction_change N = do {
     vs \<leftarrow> rdz voicedVec 0 N; us \<leftarrow> rdz unvoicedVec 0 N;
     Some (mix_loop current_vfraction (s16 (16384 - current_vfraction)) vfraction_change (zip vs us)) }"

fun mute_loop :: "int \<Rightarrow> int \<Rightarrow> int list \<Rightarrow> int list" where
  "mute_loop tmp slope [] = []"
| "mute_loop tmp slope (x # xs) = s16 (shr (s16 (shr tmp 6) * x + 8192) 14) # mute_loop (s32 (tmp - slope)) slope xs"

definition WebRtcNetEQ_MuteSignal :: "int list \<Rightarrow> int \<Rightarrow> int \<Rightarrow> int list option" where
  "WebRtcNetEQ_MuteSignal inout muteSlope N = do { xs \<leftarrow> rdz inout 0 N; Some (mute_loop 1048608 muteSlope xs) }"

fun unmute_loop :: "int \<Rightarrow> int \<Rightarrow> int \<Rightarrow> int list \<Rightarrow> int list \<times> int" where
  "unmute_loop fct tmp unmuteFact [] = ([], fct)"
| "unmute_loop fct tmp unmuteFact (x # xs) =
     (let tmp = max 0 (s32 (tmp + unmuteFact));
          (out, fct') = unmute_loop (min 16384 (u16 (shr tmp 6))) tmp unmuteFact xs
      in (s16 (shr (s16 fct * x + 8192) 14) # out, fct'))"

definition WebRtcNetEQ_UnmuteSignal :: "int list \<Rightarrow> int \<Rightarrow> int \<Rightarrow> int \<Rightarrow> (int list \<times> int) option" where
  "WebRtcNetEQ_UnmuteSignal inVec startMuteFact unmuteFact N = do {
     xs \<leftarrow> rdz inVec 0 N;
     let (out, fct) = unmute_loop (u16 startMuteFact) (s32 (shl (u16 startMuteFact) 6) + 32) unmuteFact xs
     in Some (out, s16 fct) }"

section \<open>Correlation of the past\<close>

text \<open>
  The signal is the \<open>dataLen\<close> samples from position \<open>data\<close>.  For a rate without a filter the code goes on with what the scratch memory holds, which
  is \<open>None\<close>.  The result is the correlation, its scale and the return value.
\<close>

definition WebRtcNetEQ_Correlator :: "int \<Rightarrow> int list \<Rightarrow> int \<Rightarrow> int \<Rightarrow> (int list \<times> int \<times> int) option" where
  "WebRtcNetEQ_Correlator fs arr data dataLen =
     (case down_filter fs of
        None \<Rightarrow> None
      | Some (B, factor, _) \<Rightarrow> do {
          (ok, ds) \<leftarrow> WebRtcSpl_DownsampleFastC arr (data + dataLen - 124 * factor) (s16 (124 * factor)) 124
            B (int (length B)) factor 0;
          maxVal \<leftarrow> WebRtcSpl_MaxAbsValueW16C (Some ds) 124;
          let normVal = s16 (16 - int (WebRtcSpl_NormW32 maxVal)) in do {
            ds \<leftarrow> WebRtcSpl_VectorBitShiftW16 124 ds normVal;
            corr \<leftarrow> WebRtcSpl_CrossCorrelationC (drop (124 - 60) ds) ds (124 - 60 - 10) 60 54 6 (-1);
            maxVal \<leftarrow> WebRtcSpl_MaxAbsValueW32C (Some corr) 54;
            let normVal2 = max 0 (s16 (18 - int (WebRtcSpl_NormW32 maxVal))) in do {
              out \<leftarrow> WebRtcSpl_VectorBitShiftW32ToW16 54 corr normVal2;
              Some (out, s16 (2 * normVal + 6 + normVal2), 50 + 1) } } })"

section \<open>Random vectors\<close>

definition WebRtcNetEQ_kRandnTbl :: "int list" where
  "WebRtcNetEQ_kRandnTbl = [
     2680, 5532, 441, 5520, 16170, -5146, -1024, -8733, 3115, 9598, -10380, -4959, -1280, -21716, 7133, -1522,
     13458, -3902, 2789, -675, 3441, 5016, -13599, -4003, -2739, 3922, -7209, 13352, -11617, -7241, 12905, -2314,
     5426, 10121, -9702, 11207, -13542, 1373, 816, -5934, -12504, 4798, 1811, 4112, -613, 201, -10367, -2960,
     -2419, 3442, 4299, -6116, -6092, 1552, -1650, -480, -1237, 18720, -11858, -8303, -8212, 865, -2890, -16968,
     12052, -5845, -5912, 9777, -5665, -6294, 5426, -4737, -6335, 1652, 761, 3832, 641, -8552, -9084, -5753,
     8146, 12156, -4915, 15086, -1231, -1869, 11749, -9319, -6403, 11407, 6232, -1683, 24340, -11166, 4017, -10448,
     3153, -2936, 6212, 2891, -866, -404, -4807, -2324, -1917, -2388, -6470, -3895, -10300, 5323, -5403, 2205,
     4640, 7022, -21186, -6244, -882, -10031, -3395, -12885, 7155, -5339, 5079, -2645, -9515, 6622, 14651, 15852,
     359, 122, 8246, -3502, -6696, -3679, -13535, -1409, -704, -7403, -4007, 1798, 279, -420, -12796, -14219,
     1141, 3359, 11434, 7049, -6684, -7473, 14283, -4115, -9123, -8969, 4152, 4117, 13792, 5742, 16168, 8661,
     -1609, -6095, 1881, 14380, -5588, 6758, -6425, -22969, -7269, 7031, 1119, -1611, -5850, -11281, 3559, -8952,
     -10146, -4667, -16251, -1538, 2062, -1012, -13073, 227, -3142, -5265, 20, 5770, -7559, 4740, -4819, 992,
     -8208, -7130, -4652, 6725, 7369, -1036, 13144, -1588, -5304, -2344, -449, -5705, -8894, 5205, -17904, -11188,
     -1022, 4852, 10101, -5255, -4200, -752, 7941, -1543, 5959, 14719, 13346, 17045, -15605, -1678, -1600, -9230,
     68, 23348, 1172, 7750, 11212, -18227, 9956, 4161, 883, 3947, 4341, 1014, -4889, -2603, 1246, -5630,
     -3596, -870, -1298, 2784, -3317, -6612, -20541, 4166, 4181, -8625, 3562, 12890, 4761, 3205, -12259, -8579]"

fun random_loop :: "int \<Rightarrow> int \<Rightarrow> nat \<Rightarrow> int list \<times> int" where
  "random_loop seed incval 0 = ([], seed)"
| "random_loop seed incval (Suc n) =
     (let seed = u32 (seed + incval); (xs, seed') = random_loop seed incval n
      in (WebRtcNetEQ_kRandnTbl ! nat (s16 (seed AND 255)) # xs, seed'))"

definition WebRtcNetEQ_RandomVec :: "int \<Rightarrow> int \<Rightarrow> int \<Rightarrow> int list \<times> int" where
  "WebRtcNetEQ_RandomVec seed len incval = random_loop seed incval (nat len)"

section \<open>The peak\<close>

lemma prbl_flag_range: "flag \<le> prbl_flag r stp lmt k flag \<and> prbl_flag r stp lmt k flag \<le> flag + int k"
proof (induction r stp lmt k flag rule: prbl_flag.induct)
  case (2 r stp lmt k flag)
  then show ?case by (cases "r lmt") auto
qed simp

text \<open>The fit moves the index by at most half of the step between two points.\<close>

lemma PrblFit_range:
  assumes "1 \<le> fs" "0 \<le> Ind * (2 * fs) - fs" "Ind * (2 * fs) + fs < 32768"
  shows "\<bar>fst (WebRtcNetEQ_PrblFit y0 y1 y2 Ind fs) - Ind * (2 * fs)\<bar> \<le> fs"
proof -
  have k: "1 + int (nat (fs - 1)) = fs" "shl fs 1 = 2 * fs" "Ind * 2 * fs = Ind * (2 * fs)" using assms(1) by (simp_all add: push_bit_eq_mult)
  have s: "\<bar>s16 (Ind * (2 * fs) + f) - Ind * (2 * fs)\<bar> \<le> fs" if "\<bar>f\<bar> \<le> fs" for f
    using that assms by (subst s16_id) linarith+
  have f: "\<bar>prbl_flag r stp lmt (nat (fs - 1)) 1\<bar> \<le> fs" "\<bar>- prbl_flag r stp lmt (nat (fs - 1)) 1\<bar> \<le> fs" for r stp lmt
    using prbl_flag_range [of 1 r stp lmt "nat (fs - 1)"] k(1) by linarith+
  show ?thesis unfolding WebRtcNetEQ_PrblFit_def Let_def k(2,3)
    using s [OF f(1)] s [OF f(2)] s [of 0] assms(1) by (simp split: if_split)
qed

lemma ld_Some: "0 \<le> i \<Longrightarrow> i < int (length mem) \<Longrightarrow> ld mem i = Some (mem ! nat i)"
  by (simp add: ld_def)

lemma max_index_first:
  assumes "0 < n" "n \<le> length data" "int16s data"
  shows "\<exists>w. WebRtcSpl_MaxIndexW16 (Some data) (int n) = Some (int w) \<and> first_max (\<lambda>x. x) (take n data) w"
proof -
  have "int16s (take n data)" using assms(3) by (auto simp: int16s_def dest: in_set_takeD)
  then have "first_max (\<lambda>x. x) (take n data) (max_index_scan (-32768) 0 0 (map (\<lambda>x. x) (take n data)))"
    using assms(1,2) by (intro max_index_scan_first) (auto simp: int16s_def)
  moreover have "WebRtcSpl_MaxIndexW16 (Some data) (int n) = Some (int (max_index_scan (-32768) 0 0 (take n data)))"
    using assms by (simp add: WebRtcSpl_MaxIndexW16_def over_vector_take)
  ultimately show ?thesis by simp
qed

text \<open>
  A single peak: the index found is that of the first largest element, scaled to twice the rate and moved by
  at most half of a step; it stays within the signal, and the only element read behind it is the next one.
\<close>

lemma peak_single:
  assumes "2 \<le> n" "n < length data" "int16s data" "1 \<le> fs" "(2 * int n - 1) * fs < 32768"
  shows "\<exists>w idx v. first_max (\<lambda>x. x) (take n data) w \<and> WebRtcNetEQ_PeakDetection data (int n) 1 fs = Some ([(idx, v)], data)
    \<and> \<bar>idx - int w * (2 * fs)\<bar> \<le> fs \<and> 0 \<le> idx \<and> idx \<le> (2 * int n - 1) * fs"
proof -
  from max_index_first [of n data] assms(1-3) obtain w where
    w: "WebRtcSpl_MaxIndexW16 (Some data) (int n) = Some (int w)" "first_max (\<lambda>x. x) (take n data) w" by auto
  have wn: "w < n" using w(2) assms(2) by (simp add: first_max_def)
  have nb: "2 * int n - 1 \<le> (2 * int n - 1) * fs" using assms(1,4) by simp
  then have n: "int n < 16385" using assms(5) by linarith
  have le: "int w * (2 * fs) + fs \<le> (2 * int n - 1) * fs"
  proof -
    have "(2 * int w + 1) * fs \<le> (2 * int n - 1) * fs" using wn assms(4) by (intro mult_right_mono) linarith+
    then show ?thesis by (simp add: algebra_simps)
  qed
  have fit: "\<exists>idx v. peak_fit data (int w) fs = Some (idx, v) \<and> \<bar>idx - int w * (2 * fs)\<bar> \<le> fs" if "w \<noteq> 0"
  proof -
    have "1 * (2 * fs) \<le> int w * (2 * fs)" using that assms(4) by (intro mult_right_mono) linarith+
    then have "\<bar>fst (WebRtcNetEQ_PrblFit y0 y1 y2 (int w) fs) - int w * (2 * fs)\<bar> \<le> fs" for y0 y1 y2
      using assms(4,5) le by (intro PrblFit_range) linarith+
    moreover have "ld data (int w - 1) = Some (data ! nat (int w - 1))" "ld data (int w) = Some (data ! w)"
      "ld data (int w + 1) = Some (data ! nat (int w + 1))" using that wn assms(2) by (simp_all add: ld_def)
    ultimately show ?thesis by (simp add: peak_fit_def) (metis prod.collapse)
  qed
  have "\<exists>idx v. peak_at data (int n + 1) (int w) fs = Some (idx, v) \<and> \<bar>idx - int w * (2 * fs)\<bar> \<le> fs"
  proof (cases "w = n - 1")
    case True
    have l: "ld data (int w) = Some (data ! w)" "ld data (int w + 1) = Some (data ! (w + 1))"
      using assms(2) wn by (simp_all add: ld_def nat_add_distrib)
    have e: "int w = int n + 1 - 2" "w \<noteq> 0" using True assms(1) by linarith+
    have "(int w * 2 + 1) * fs = int w * (2 * fs) + fs" by (simp add: algebra_simps)
    moreover have "0 \<le> int w * (2 * fs)" using assms(4) by simp
    then have "s16 (int w * (2 * fs) + fs) = int w * (2 * fs) + fs" using le assms(4,5) by (intro s16_id) linarith+
    ultimately have "s16 ((int w * 2 + 1) * fs) = int w * (2 * fs) + fs" by simp
    then show ?thesis using fit [OF e(2)] l e assms(4) by (auto simp: peak_at_def)
  next
    case False
    show ?thesis
    proof (cases "w = 0")
      case True
      have "ld data 0 = Some (data ! 0)" using assms(1,2) by (auto simp: ld_def)
      then show ?thesis using False True assms(1,4) by (simp add: peak_at_def s16_id)
    next
      case w0: False
      have "int w \<noteq> int n + 1 - 2" using False wn by linarith
      then show ?thesis using fit [OF w0] w0 by (simp add: peak_at_def)
    qed
  qed
  then obtain idx v where p: "peak_at data (int n + 1) (int w) fs = Some (idx, v)" "\<bar>idx - int w * (2 * fs)\<bar> \<le> fs" by blast
  have "s16 (int n + 1) = int n + 1" "s16 (int n) = int n" "s16 (int w) = int w" using n wn by (simp_all add: s16_id)
  then have "WebRtcNetEQ_PeakDetection data (int n) 1 fs = Some ([(idx, v)], data)"
    using w(1) p(1) by (simp add: WebRtcNetEQ_PeakDetection_def Let_def)
  moreover have "0 \<le> idx"
  proof (cases "w = 0")
    case True
    then have "peak_at data (int n + 1) (int w) fs = Some (s16 0, data ! 0)"
      using assms(1,2) by (auto simp: peak_at_def ld_def)
    then show ?thesis using p(1) by (simp add: s16_id)
  next
    case False
    then have "1 * (2 * fs) \<le> int w * (2 * fs)" using assms(4) by (intro mult_right_mono) linarith+
    then show ?thesis using p(2) assms(4) by linarith
  qed
  ultimately show ?thesis using w(2) p(2) le by (intro exI [of _ w] exI [of _ idx] exI [of _ v]) linarith
qed

section \<open>The least distortion\<close>

lemma distortion_sum:
  assumes "int16s xs" "int16s ys" "length xs < 32768"
  shows "distortion xs ys = (\<Sum>(x, y) \<leftarrow> zip xs ys. \<bar>x - y\<bar>) \<and> 0 \<le> distortion xs ys \<and> distortion xs ys < 2147483647"
proof -
  let ?d = "\<lambda>(x, y). \<bar>x - y\<bar> :: int"
  have b: "0 \<le> (\<Sum>p \<leftarrow> ps. ?d p) \<and> (\<Sum>p \<leftarrow> ps. ?d p) \<le> 65535 * int (length ps)" if "set ps \<subseteq> set (zip xs ys)" for ps
    using that
  proof (induction ps)
    case (Cons p ps)
    obtain x y where p: "p = (x, y)" by (cases p)
    then have "x \<in> set xs" "y \<in> set ys" using Cons.prems by (auto dest: set_zip_leftD set_zip_rightD)
    then have "-32768 \<le> x \<and> x \<le> 32767" "-32768 \<le> y \<and> y \<le> 32767" using assms(1,2) by (simp_all add: int16s_def)
    then have "\<bar>x - y\<bar> \<le> 65535" by linarith
    then show ?case using Cons p by (simp add: algebra_simps)
  qed simp
  have "foldl (\<lambda>s (x, y). s32 (s + \<bar>x - y\<bar>)) 0 ps = (\<Sum>p \<leftarrow> ps. ?d p)" if "set ps \<subseteq> set (zip xs ys)" "length ps < 32768" for ps
    using that
  proof (induction ps rule: rev_induct)
    case (snoc p ps)
    have "0 \<le> (\<Sum>p \<leftarrow> ps @ [p]. ?d p) \<and> (\<Sum>p \<leftarrow> ps @ [p]. ?d p) \<le> 65535 * int (length (ps @ [p]))" using snoc.prems(1) by (rule b)
    then have "s32 (\<Sum>p \<leftarrow> ps @ [p]. ?d p) = (\<Sum>p \<leftarrow> ps @ [p]. ?d p)" using snoc.prems(2) by (intro s32_id) linarith+
    then show ?case using snoc by (simp add: case_prod_unfold)
  qed simp
  from this [of "zip xs ys"] b [of "zip xs ys"] assms(3) show ?thesis by (auto simp: distortion_def)
qed

lemma min_dist_loop_least:
  assumes "\<And>i. i \<in> set lags \<Longrightarrow> rdz arr (data - i) len \<noteq> None" "rdz arr data len = Some xs"
  defines "D \<equiv> \<lambda>i. distortion xs (the (rdz arr (data - i) len))"
  shows "(\<exists>b m. min_dist_loop arr data len lags bi md = Some (b, m) \<and> m \<le> md \<and> (\<forall>i \<in> set lags. m \<le> D i)
    \<and> (b = bi \<and> m = md \<or> (\<exists>i \<in> set lags. b = s16 i \<and> m = D i \<and> m < md \<and> (\<forall>j. j \<in> set (takeWhile (\<lambda>j. j \<noteq> i) lags) \<longrightarrow> m < D j))))"
  using assms(1)
proof (induction lags arbitrary: bi md)
  case (Cons i lags)
  obtain ys where ys: "rdz arr (data - i) len = Some ys" using Cons.prems [of i] by auto
  then have D: "D i = distortion xs ys" by (simp add: D_def)
  show ?case
  proof (cases "D i < md")
    case True
    from Cons.IH [of "s16 i" "D i"] Cons.prems obtain b m where r:
      "min_dist_loop arr data len lags (s16 i) (D i) = Some (b, m)" "m \<le> D i" "\<forall>j \<in> set lags. m \<le> D j"
      "b = s16 i \<and> m = D i \<or> (\<exists>k \<in> set lags. b = s16 k \<and> m = D k \<and> m < D i \<and> (\<forall>j. j \<in> set (takeWhile (\<lambda>j. j \<noteq> k) lags) \<longrightarrow> m < D j))"
      by auto
    have "min_dist_loop arr data len (i # lags) bi md = Some (b, m)" using r(1) ys True assms(2) by (simp add: D)
    moreover have "\<exists>k \<in> set (i # lags). b = s16 k \<and> m = D k \<and> m < md
        \<and> (\<forall>j. j \<in> set (takeWhile (\<lambda>j. j \<noteq> k) (i # lags)) \<longrightarrow> m < D j)"
      using r(4)
    proof (elim disjE bexE conjE)
      fix k assume "k \<in> set lags" "b = s16 k" "m = D k" "m < D i" "\<forall>j. j \<in> set (takeWhile (\<lambda>j. j \<noteq> k) lags) \<longrightarrow> m < D j"
      then show ?thesis using True by (intro bexI [of _ k]) auto
    qed (use True in auto)
    ultimately show ?thesis using r(2,3) True by (intro exI [of _ b] exI [of _ m]) auto
  next
    case False
    from Cons.IH [of bi md] Cons.prems obtain b m where r:
      "min_dist_loop arr data len lags bi md = Some (b, m)" "m \<le> md" "\<forall>j \<in> set lags. m \<le> D j"
      "b = bi \<and> m = md \<or> (\<exists>k \<in> set lags. b = s16 k \<and> m = D k \<and> m < md \<and> (\<forall>j. j \<in> set (takeWhile (\<lambda>j. j \<noteq> k) lags) \<longrightarrow> m < D j))"
      by auto
    have "min_dist_loop arr data len (i # lags) bi md = Some (b, m)" using r(1) ys False assms(2) by (simp add: D)
    moreover have "b = bi \<and> m = md \<or> (\<exists>k \<in> set (i # lags). b = s16 k \<and> m = D k \<and> m < md
        \<and> (\<forall>j. j \<in> set (takeWhile (\<lambda>j. j \<noteq> k) (i # lags)) \<longrightarrow> m < D j))"
      using r(4)
    proof (elim disjE bexE)
      fix k assume k: "k \<in> set lags" "b = s16 k \<and> m = D k \<and> m < md \<and> (\<forall>j. j \<in> set (takeWhile (\<lambda>j. j \<noteq> k) lags) \<longrightarrow> m < D j)"
      then show ?thesis using False by (intro disjI2 bexI [of _ k]) auto
    qed auto
    ultimately show ?thesis using r(2,3) False by (intro exI [of _ b] exI [of _ m]) auto
  qed
qed simp

text \<open>
  The lag of least distortion: the routine returns the first lag in its range at which the signal differs least, in the
  sum of the absolute differences, from itself that many samples earlier; no sum overflows.
\<close>

theorem min_distortion_least:
  assumes "int16s arr" "minLag \<le> maxLag" "-32768 \<le> minLag" "maxLag < 32768" "maxLag \<le> int p" "n < 32768"
    "int p + int n \<le> int (length arr)" "int p - minLag + int n \<le> int (length arr)"
  shows "\<exists>best. minLag \<le> best \<and> best \<le> maxLag
    \<and> WebRtcNetEQ_MinDistortion arr (int p) minLag maxLag (int n)
        = Some (best, \<Sum>(x, y) \<leftarrow> zip (slice p n arr) (slice (nat (int p - best)) n arr). \<bar>x - y\<bar>)
    \<and> (\<forall>lag \<in> {minLag..maxLag}.
        (\<Sum>(x, y) \<leftarrow> zip (slice p n arr) (slice (nat (int p - best)) n arr). \<bar>x - y\<bar>)
          \<le> (\<Sum>(x, y) \<leftarrow> zip (slice p n arr) (slice (nat (int p - lag)) n arr). \<bar>x - y\<bar>)
      \<and> (lag < best \<longrightarrow> (\<Sum>(x, y) \<leftarrow> zip (slice p n arr) (slice (nat (int p - best)) n arr). \<bar>x - y\<bar>)
          < (\<Sum>(x, y) \<leftarrow> zip (slice p n arr) (slice (nat (int p - lag)) n arr). \<bar>x - y\<bar>)))"
proof -
  have sl: "int16s (slice q n arr)" "length (slice q n arr) < 32768" if "q + n \<le> length arr" for q
    using assms(1,6) that by (auto simp: int16s_def slice_def dest!: in_set_takeD in_set_dropD)
  have r: "rdz arr (int p - i) (int n) = Some (slice (nat (int p - i)) n arr)" "nat (int p - i) + n \<le> length arr"
    if "i \<in> {minLag..maxLag}" for i
  proof -
    have "0 \<le> int p - i" "int p - i + int n \<le> int (length arr)" using that assms(5,8) by simp_all
    then show "rdz arr (int p - i) (int n) = Some (slice (nat (int p - i)) n arr)" "nat (int p - i) + n \<le> length arr"
      by (simp add: rdz_slice, linarith)
  qed
  have p: "rdz arr (int p) (int n) = Some (slice p n arr)" "p + n \<le> length arr" using assms(7) by (simp_all add: rdz_slice)
  define S where "S i = (\<Sum>(x, y) \<leftarrow> zip (slice p n arr) (slice (nat (int p - i)) n arr). \<bar>x - y\<bar>)" for i
  have S: "distortion (slice p n arr) (the (rdz arr (int p - i) (int n))) = S i" "S i < 2147483647" if "i \<in> {minLag..maxLag}" for i
    using distortion_sum [OF sl(1) [OF p(2)] sl(1) [OF r(2) [OF that]] sl(2) [OF p(2)]] r(1) [OF that] by (simp_all add: S_def)
  obtain b m where bm: "min_dist_loop arr (int p) (int n) [minLag..maxLag] (-1) 2147483647 = Some (b, m)"
    "\<forall>i \<in> set [minLag..maxLag]. m \<le> distortion (slice p n arr) (the (rdz arr (int p - i) (int n)))"
    "b = -1 \<and> m = 2147483647 \<or> (\<exists>i \<in> set [minLag..maxLag]. b = s16 i \<and> m = distortion (slice p n arr) (the (rdz arr (int p - i) (int n)))
       \<and> (\<forall>j. j \<in> set (takeWhile (\<lambda>j. j \<noteq> i) [minLag..maxLag]) \<longrightarrow> m < distortion (slice p n arr) (the (rdz arr (int p - j) (int n)))))"
    using min_dist_loop_least [of "[minLag..maxLag]" arr "int p" "int n" "slice p n arr" "-1" 2147483647] r(1) p(1) by auto
  have mi: "minLag \<in> {minLag..maxLag}" using assms(2) by simp
  then have "m \<le> S minLag" using bm(2) S(1) [OF mi] by (metis set_upto)
  then have "m < 2147483647" using S(2) [OF mi] by linarith
  then obtain i where i: "i \<in> {minLag..maxLag}" "b = s16 i" "m = S i"
    "\<forall>j. j \<in> set (takeWhile (\<lambda>j. j \<noteq> i) [minLag..maxLag]) \<longrightarrow> S i < distortion (slice p n arr) (the (rdz arr (int p - j) (int n)))"
    using bm(3) S(1) by auto
  have "b = i" using i(1,2) assms(3,4) by (simp add: s16_id)
  have first: "j \<in> set (takeWhile (\<lambda>j. j \<noteq> i) [minLag..maxLag])" if "minLag \<le> j" "j < i" for j
  proof -
    have "[minLag..maxLag] = [minLag..i - 1] @ [i..maxLag]" using i(1) by (simp add: upto_split1 [of minLag i maxLag])
    moreover have "[i..maxLag] = i # [i + 1..maxLag]" using i(1) by (simp add: upto_rec1)
    ultimately have "takeWhile (\<lambda>j. j \<noteq> i) [minLag..maxLag] = [minLag..i - 1]" by (simp add: takeWhile_append)
    then show ?thesis using that by simp
  qed
  have "\<forall>lag \<in> {minLag..maxLag}. S i \<le> S lag \<and> (lag < i \<longrightarrow> S i < S lag)"
    using bm(2) S(1) i(3,4) first by fastforce
  then show ?thesis using i(1,3) bm(1) \<open>b = i\<close> unfolding S_def WebRtcNetEQ_MinDistortion_def by auto
qed

section \<open>Fades\<close>

text \<open>A mean of two samples, rounded, lies between them.\<close>

lemma mean_between:
  assumes "0 \<le> f" "f \<le> 16384" "-32768 \<le> v" "v < 32768" "-32768 \<le> u" "u < 32768"
  shows "min v u \<le> s16 (shr (s32 (f * v + (16384 - f) * u + 8192)) 14)" "s16 (shr (s32 (f * v + (16384 - f) * u + 8192)) 14) \<le> max v u"
    "s16 (shr (s32 (f * v + (16384 - f) * u + 8192)) 14) = (f * v + (16384 - f) * u + 8192) div 16384"
proof -
  let ?s = "f * v + (16384 - f) * u"
  have "f * v \<le> f * max v u" "(16384 - f) * u \<le> (16384 - f) * max v u" "f * min v u \<le> f * v" "(16384 - f) * min v u \<le> (16384 - f) * u"
    using assms(1,2) by (simp_all add: mult_left_mono)
  moreover have "f * x + (16384 - f) * x = 16384 * x" for x :: int by (simp add: algebra_simps)
  ultimately have s: "16384 * min v u \<le> ?s" "?s \<le> 16384 * max v u" by (metis add_mono)+
  have m: "-32768 \<le> min v u" "max v u < 32768" using assms(3-6) by simp_all
  have d: "min v u \<le> (?s + 8192) div 16384" "(?s + 8192) div 16384 \<le> max v u" using s by linarith+
  have "s32 (?s + 8192) = ?s + 8192" using s m by (intro s32_id) linarith+
  moreover have "s16 ((?s + 8192) div 16384) = (?s + 8192) div 16384" using d m by (intro s16_id) linarith+
  ultimately have e: "s16 (shr (s32 (?s + 8192)) 14) = (?s + 8192) div 16384" by (simp add: drop_bit_eq_div)
  show "min v u \<le> s16 (shr (s32 (?s + 8192)) 14)" "s16 (shr (s32 (?s + 8192)) 14) \<le> max v u"
    "s16 (shr (s32 (?s + 8192)) 14) = (?s + 8192) div 16384" unfolding e using d by simp_all
qed

text \<open>A crossfade whose factor falls from sample to sample and does not become negative.\<close>

lemma mix_loop_fade:
  assumes "int16s (map fst ps)" "int16s (map snd ps)" "0 \<le> ch" "vf \<le> 16384" "0 \<le> vf - ch * int (length ps)"
  shows "snd (mix_loop vf (16384 - vf) ch ps) = vf - ch * int (length ps) \<and> length (fst (mix_loop vf (16384 - vf) ch ps)) = length ps
    \<and> (\<forall>i < length ps. fst (mix_loop vf (16384 - vf) ch ps) ! i
         = ((vf - ch * int i) * fst (ps ! i) + (16384 - (vf - ch * int i)) * snd (ps ! i) + 8192) div 16384
       \<and> min (fst (ps ! i)) (snd (ps ! i)) \<le> fst (mix_loop vf (16384 - vf) ch ps) ! i
       \<and> fst (mix_loop vf (16384 - vf) ch ps) ! i \<le> max (fst (ps ! i)) (snd (ps ! i)))"
  using assms
proof (induction ps arbitrary: vf)
  case (Cons p ps)
  obtain v u where p: "p = (v, u)" by (cases p)
  have vu: "-32768 \<le> v" "v < 32768" "-32768 \<le> u" "u < 32768" using Cons.prems(1,2) p by (simp_all add: int16s_def)
  have "0 \<le> ch * int (length ps)" using Cons.prems(3) by simp
  moreover have "vf - ch * int (length (p # ps)) = vf - ch - ch * int (length ps)" by (simp add: algebra_simps)
  ultimately have r: "0 \<le> vf - ch - ch * int (length ps)" "0 \<le> vf - ch" "0 \<le> vf" using Cons.prems(3,5) by linarith+
  then have w: "s16 (vf - ch) = vf - ch" "s16 (16384 - vf + ch) = 16384 - (vf - ch)" using Cons.prems(3,4) by (simp_all add: s16_id)
  let ?m = "mix_loop (vf - ch) (16384 - (vf - ch)) ch ps"
  have IH: "snd ?m = vf - ch - ch * int (length ps) \<and> length (fst ?m) = length ps
    \<and> (\<forall>i < length ps. fst ?m ! i = ((vf - ch - ch * int i) * fst (ps ! i) + (16384 - (vf - ch - ch * int i)) * snd (ps ! i) + 8192) div 16384
       \<and> min (fst (ps ! i)) (snd (ps ! i)) \<le> fst ?m ! i \<and> fst ?m ! i \<le> max (fst (ps ! i)) (snd (ps ! i)))"
    using Cons.prems r by (intro Cons.IH) (simp_all add: int16s_def)
  have m: "mix_loop vf (16384 - vf) ch (p # ps) = (s16 (shr (s32 (vf * v + (16384 - vf) * u + 8192)) 14) # fst ?m, snd ?m)"
    by (simp add: p w case_prod_unfold Let_def)
  note b = mean_between [OF r(3) Cons.prems(4) vu]
  show ?case
  proof (intro conjI allI impI)
    show "snd (mix_loop vf (16384 - vf) ch (p # ps)) = vf - ch * int (length (p # ps))" using IH by (simp add: m algebra_simps)
    show "length (fst (mix_loop vf (16384 - vf) ch (p # ps))) = length (p # ps)" using IH by (simp add: m)
    fix i assume i: "i < length (p # ps)"
    have e: "vf - ch * int (Suc j) = vf - ch - ch * int j" for j by (simp add: algebra_simps)
    have "fst (mix_loop vf (16384 - vf) ch (p # ps)) ! i = ((vf - ch * int i) * fst ((p # ps) ! i)
        + (16384 - (vf - ch * int i)) * snd ((p # ps) ! i) + 8192) div 16384
      \<and> min (fst ((p # ps) ! i)) (snd ((p # ps) ! i)) \<le> fst (mix_loop vf (16384 - vf) ch (p # ps)) ! i
      \<and> fst (mix_loop vf (16384 - vf) ch (p # ps)) ! i \<le> max (fst ((p # ps) ! i)) (snd ((p # ps) ! i))"
    proof (cases i)
      case 0
      show ?thesis unfolding 0 m unfolding p using b by (simp only: nth_Cons_0 fst_conv snd_conv of_nat_0 mult_zero_right diff_zero) simp
    next
      case (Suc j)
      then have "j < length ps" using i by simp
      then show ?thesis using IH [THEN conjunct2, THEN conjunct2, rule_format, of j] unfolding Suc m e nth_Cons_Suc fst_conv by blast
    qed
    then show "fst (mix_loop vf (16384 - vf) ch (p # ps)) ! i = ((vf - ch * int i) * fst ((p # ps) ! i)
        + (16384 - (vf - ch * int i)) * snd ((p # ps) ! i) + 8192) div 16384"
      "min (fst ((p # ps) ! i)) (snd ((p # ps) ! i)) \<le> fst (mix_loop vf (16384 - vf) ch (p # ps)) ! i"
      "fst (mix_loop vf (16384 - vf) ch (p # ps)) ! i \<le> max (fst ((p # ps) ! i)) (snd ((p # ps) ! i))" by blast+
  qed
qed simp

text \<open>
  A crossfade from the first to the second signal over \<open>N\<close> samples, as the time-scaling starts it: with a step
  of \<open>16384 div (N + 1)\<close>.
\<close>

lemma crossfade:
  assumes "int16s vs" "int16s us" "N \<le> length vs" "N \<le> length us" "inc = 16384 div (int N + 1)"
  shows "\<exists>out. WebRtcNetEQ_MixVoiceUnvoice vs us (16384 - inc) inc (int N) = Some (out, 16384 - inc * (int N + 1)) \<and> length out = N
    \<and> (\<forall>i < N. out ! i = ((16384 - inc * (int i + 1)) * vs ! i + inc * (int i + 1) * us ! i + 8192) div 16384
       \<and> min (vs ! i) (us ! i) \<le> out ! i \<and> out ! i \<le> max (vs ! i) (us ! i))"
proof -
  let ?ps = "zip (take N vs) (take N us)"
  have r: "rdz vs 0 (int N) = Some (take N vs)" "rdz us 0 (int N) = Some (take N us)" using assms(3,4) by (simp_all add: rdz_slice slice_def)
  have l: "length ?ps = N" using assms(3,4) by simp
  have ch: "0 \<le> inc" "inc * (int N + 1) \<le> 16384"
    unfolding assms(5) using pos_mod_sign [of "int N + 1" 16384] minus_mod_eq_div_mult [of 16384 "int N + 1"]
    by (simp add: pos_imp_zdiv_nonneg_iff, linarith)
  have "map fst ?ps = take N vs" "map snd ?ps = take N us" using assms(3,4) by simp_all
  then have sub: "int16s (map fst ?ps)" "int16s (map snd ?ps)" using assms(1,2) by (auto simp: int16s_def dest: in_set_takeD)
  have "inc \<le> inc * (int N + 1)" using ch(1) by (simp add: algebra_simps)
  then have e: "s16 (16384 - (16384 - inc)) = 16384 - (16384 - inc)" using ch by (intro s16_id) linarith+
  let ?m = "mix_loop (16384 - inc) (16384 - (16384 - inc)) inc ?ps"
  have h: "16384 - inc \<le> 16384" "0 \<le> 16384 - inc - inc * int (length ?ps)" using ch unfolding l by (simp_all add: algebra_simps)
  note m = mix_loop_fade [OF sub ch(1) h, unfolded l]
  have x: "16384 - inc - inc * int i = 16384 - inc * (int i + 1)" "16384 - (16384 - inc * (int i + 1)) = inc * (int i + 1)" for i
    by (simp_all add: algebra_simps)
  have "WebRtcNetEQ_MixVoiceUnvoice vs us (16384 - inc) inc (int N) = Some (fst ?m, snd ?m)"
    using r e by (simp add: WebRtcNetEQ_MixVoiceUnvoice_def)
  moreover have "fst ?m ! i = ((16384 - inc * (int i + 1)) * vs ! i + inc * (int i + 1) * us ! i + 8192) div 16384
      \<and> min (vs ! i) (us ! i) \<le> fst ?m ! i \<and> fst ?m ! i \<le> max (vs ! i) (us ! i)" if i: "i < N" for i
  proof -
    have e: "fst (?ps ! i) = vs ! i" "snd (?ps ! i) = us ! i" using assms(3,4) i by simp_all
    show ?thesis using m i unfolding x e [symmetric] by blast
  qed
  moreover have "snd ?m = 16384 - inc * (int N + 1)" "length (fst ?m) = N" using m unfolding x by blast+
  ultimately show ?thesis by (intro exI [of _ "fst ?m"]) metis
qed

text \<open>Muting and unmuting do not make a signal louder.\<close>

lemma gain_bound:
  assumes "0 \<le> g" "g \<le> 16384" "-32768 \<le> x" "x \<le> 32767"
  shows "\<bar>s16 (shr (g * x + 8192) 14)\<bar> \<le> \<bar>x\<bar>"
proof -
  have "\<bar>g * x\<bar> \<le> 16384 * \<bar>x\<bar>" using assms(1,2) by (simp add: abs_mult mult_right_mono)
  then have "\<bar>(g * x + 8192) div 16384\<bar> \<le> \<bar>x\<bar>" by linarith
  moreover have "g * x \<le> 16384 * 32767"
  proof (cases "0 \<le> x")
    case True
    then have "g * x \<le> 16384 * x" using assms(2) by (intro mult_right_mono)
    then show ?thesis using assms(4) by linarith
  next
    case False
    then have "g * x \<le> 0" using assms(1) by (intro mult_nonneg_nonpos) simp_all
    then show ?thesis by linarith
  qed
  then have "(g * x + 8192) div 16384 < 32768" by linarith
  ultimately have "s16 ((g * x + 8192) div 16384) = (g * x + 8192) div 16384" using assms(3,4) by (intro s16_id) linarith+
  then show ?thesis using \<open>\<bar>(g * x + 8192) div 16384\<bar> \<le> \<bar>x\<bar>\<close> by (simp add: drop_bit_eq_div)
qed

lemma mute_loop_quieter:
  assumes "int16s xs" "0 \<le> slope" "tmp < 1048640" "slope * int (length xs) \<le> tmp"
  shows "length (mute_loop tmp slope xs) = length xs \<and> (\<forall>i < length xs. \<bar>mute_loop tmp slope xs ! i\<bar> \<le> \<bar>xs ! i\<bar>)"
  using assms
proof (induction xs arbitrary: tmp)
  case (Cons x xs)
  have sl: "slope * int (length (x # xs)) = slope + slope * int (length xs)" "0 \<le> slope * int (length xs)"
    using Cons.prems(2) by (simp_all add: algebra_simps)
  then have r: "0 \<le> tmp" "0 \<le> tmp - slope" "tmp - slope < 1048640" "slope * int (length xs) \<le> tmp - slope" using Cons.prems by linarith+
  have g: "0 \<le> shr tmp 6" "shr tmp 6 \<le> 16384" using r(1) Cons.prems(3) by (simp_all add: drop_bit_eq_div)
  then have "s16 (shr tmp 6) = shr tmp 6" by (intro s16_id) linarith+
  moreover have "s32 (tmp - slope) = tmp - slope" using r by (intro s32_id) linarith+
  ultimately have "mute_loop tmp slope (x # xs) = s16 (shr (shr tmp 6 * x + 8192) 14) # mute_loop (tmp - slope) slope xs" by simp
  moreover have "\<bar>s16 (shr (shr tmp 6 * x + 8192) 14)\<bar> \<le> \<bar>x\<bar>" using g Cons.prems(1) by (intro gain_bound) (simp_all add: int16s_def)
  ultimately show ?case using Cons.IH [of "tmp - slope"] Cons.prems(1,2) r by (auto simp: int16s_def nth_Cons split: nat.splits)
qed simp

lemma unmute_loop_quieter:
  assumes "int16s xs" "0 \<le> fct" "fct \<le> 16384"
  shows "length (fst (unmute_loop fct tmp un xs)) = length xs \<and> (\<forall>i < length xs. \<bar>fst (unmute_loop fct tmp un xs) ! i\<bar> \<le> \<bar>xs ! i\<bar>)
    \<and> 0 \<le> snd (unmute_loop fct tmp un xs) \<and> snd (unmute_loop fct tmp un xs) \<le> 16384"
  using assms
proof (induction xs arbitrary: fct tmp)
  case (Cons x xs)
  let ?t = "max 0 (s32 (tmp + un))" and ?f = "min 16384 (u16 (shr (max 0 (s32 (tmp + un))) 6))"
  have "s16 fct = fct" using Cons.prems(2,3) by (intro s16_id) linarith+
  then have "unmute_loop fct tmp un (x # xs) = (s16 (shr (fct * x + 8192) 14) # fst (unmute_loop ?f ?t un xs), snd (unmute_loop ?f ?t un xs))"
    by (simp add: Let_def case_prod_unfold)
  moreover have "\<bar>s16 (shr (fct * x + 8192) 14)\<bar> \<le> \<bar>x\<bar>" using Cons.prems by (intro gain_bound) (simp_all add: int16s_def)
  moreover have "0 \<le> ?f" "?f \<le> 16384" using u16_range(1) by simp_all
  ultimately show ?case using Cons.IH [of ?f ?t] Cons.prems(1) by (auto simp: int16s_def nth_Cons split: nat.splits)
qed simp

end
