(* ===== verification/Dsp_State.thy ===== *)
theory Dsp_State
  imports Neteq_Dsp Bufstats
begin

text \<open>
  The instance of the signal side of NetEQ (\<open>dsp.h\<close>, \<open>neteq_statistics.h\<close>, \<open>dtmf_tonegen.h\<close>), with its initialisation, its statistics and
  the detector of voice activity behind the decoder (\<open>dsp.c\<close>).

  The build has wideband and 32 kHz, so \<open>FSMULT\<close> is 4.  A pointer into the speech buffer is an index; the history of \<open>Expand\<close> and its
  vectors overlap there as in the code.  The detector is called through function pointers: its state and the three
  functions are parameters of the instance, and so is the comfort noise decoder.
\<close>

section \<open>Constants\<close>

abbreviation (input) MODE_MERGE :: int where "MODE_MERGE \<equiv> 2"
abbreviation (input) MODE_UNSUCCESS_ACCELERATE :: int where "MODE_UNSUCCESS_ACCELERATE \<equiv> 4"
abbreviation (input) MODE_DTMF :: int where "MODE_DTMF \<equiv> 7"
abbreviation (input) MODE_ONE_DESCRIPTOR :: int where "MODE_ONE_DESCRIPTOR \<equiv> 8"
abbreviation (input) MODE_UNSUCCESS_PREEMPTIVE :: int where "MODE_UNSUCCESS_PREEMPTIVE \<equiv> 11"

abbreviation (input) NETEQ_OTHER_ERROR :: int where "NETEQ_OTHER_ERROR \<equiv> -1000"
abbreviation (input) MASTER_SLAVE_ERROR :: int where "MASTER_SLAVE_ERROR \<equiv> -1007"

abbreviation (input) NETEQ_MONO :: int where "NETEQ_MONO \<equiv> 0"
abbreviation (input) NETEQ_MASTER :: int where "NETEQ_MASTER \<equiv> 1"
abbreviation (input) NETEQ_SLAVE :: int where "NETEQ_SLAVE \<equiv> 2"

abbreviation (input) ACC_FAIL :: int where "ACC_FAIL \<equiv> 1"
abbreviation (input) PE_EXP_FAIL :: int where "PE_EXP_FAIL \<equiv> 2"

definition SPEECH_BUF_SIZE :: nat where "SPEECH_BUF_SIZE = 565 * 4"
definition BGN_LPC_ORDER :: nat where "BGN_LPC_ORDER = 4 + 4"
definition UNVOICED_LPC_ORDER :: nat where "UNVOICED_LPC_ORDER = 6"
definition NETEQ_MAX_OUTPUT_SIZE :: int where "NETEQ_MAX_OUTPUT_SIZE = 4320"

section \<open>State\<close>

record BGNInst =
  bg_energy :: int
  bg_energyMax :: int
  bg_energyUpdate :: int
  bg_energyUpdateLow :: int
  bg_filterState :: "int list"
  bg_filter :: "int list"
  bg_mutefactor :: int
  bg_scale :: int
  bg_scaleShift :: int
  bg_initialized :: int
  bg_bgnMode :: int

record ExpandInst =
  ex_overlap :: int
  ex_consecExp :: int
  ex_arFilter :: nat
  ex_arState :: nat
  ex_arGain :: int
  ex_arGainScale :: int
  ex_vFraction :: int
  ex_currentVFraction :: int
  ex_expVecs0 :: nat
  ex_expVecs1 :: nat
  ex_lags :: "int list"
  ex_maxLag :: int
  ex_overlapVec :: nat
  ex_lagsDirection :: int
  ex_lagsPosition :: int
  ex_expandMuteFactor :: int
  ex_stopMuting :: int
  ex_onset :: int
  ex_muteSlope :: int

record 'v PostDecodeVAD =
  pv_VADState :: "'v option"
  pv_VADEnabled :: int
  pv_VADMode :: int
  pv_VADDecision :: int
  pv_SIDintervalCounter :: int
  pv_initFunction :: "('v \<Rightarrow> int \<times> 'v) option"
  pv_setmodeFunction :: "('v \<Rightarrow> int \<Rightarrow> int \<times> 'v) option"
  pv_VADFunction :: "('v \<Rightarrow> int \<Rightarrow> int list \<Rightarrow> int \<Rightarrow> int \<times> 'v) option"

record MasterSlaveInfo =
  ms_msMode :: int
  ms_extraInfo :: int
  ms_instruction :: int
  ms_distLag :: int
  ms_corrLag :: int
  ms_bestIndex :: int
  ms_endTimestamp :: int
  ms_samplesLeftWithOverlap :: int

record dtmf_tone_inst =
  dt_reinit :: int
  dt_oldOutputLow :: "int \<times> int"
  dt_oldOutputHigh :: "int \<times> int"
  dt_lastDtmfSample :: int

record DSPStats =
  st_expandLength :: int
  st_preemptiveLength :: int
  st_accelerateLength :: int
  st_addedSamples :: int
  st_expandedVoiceSamples :: int
  st_expandedNoiseSamples :: int

record ActivityStats =
  ac_preemptive_expand_bgn :: int
  ac_preemptive_expand_normal :: int
  ac_expand_bgn :: int
  ac_expand_normal :: int
  ac_merge_expand_bgn :: int
  ac_merge_expand_normal :: int
  ac_accelerate_bgn :: int
  ac_accelarate_normal :: int

record ('v, 'c) DSPInst =
  di_millisecondsPerCall :: int
  di_timestampsPerCall :: int
  di_speechBuffer :: "int list"
  di_curPosition :: int
  di_endPosition :: int
  di_endTimestamp :: int
  di_videoSyncTimestamp :: int
  di_fs :: int
  di_frameLen :: int
  di_mode :: int
  di_muteFactor :: int
  di_speechHistory :: nat
  di_speechHistoryLen :: int
  di_seedInc :: int
  di_seed :: int
  di_concealedTS :: int
  di_CNG :: "'c option"
  di_DTMFInst :: dtmf_tone_inst
  di_VADInst :: "'v PostDecodeVAD"
  di_ExpandInst :: ExpandInst
  di_BGNInst :: BGNInst
  di_statInst :: DSPStats
  di_activity_stats :: ActivityStats
  di_msInfo :: "MasterSlaveInfo option"

section \<open>The detector behind the decoder\<close>

definition WebRtcNetEQ_SetVADModeInternal :: "'v PostDecodeVAD \<Rightarrow> int \<Rightarrow> (int \<times> 'v PostDecodeVAD) option" where
  "WebRtcNetEQ_SetVADModeInternal v md =
     (let v = v\<lparr>pv_VADMode := md\<rparr> in
      case pv_VADState v of None \<Rightarrow> Some (0, v)
      | Some s \<Rightarrow> (case pv_setmodeFunction v of None \<Rightarrow> None
          | Some f \<Rightarrow> (case f s md of (res, s) \<Rightarrow> Some (res, v\<lparr>pv_VADState := Some s\<rparr>))))"

definition WebRtcNetEQ_InitVAD :: "'v PostDecodeVAD \<Rightarrow> int \<Rightarrow> (int \<times> 'v PostDecodeVAD) option" where
  "WebRtcNetEQ_InitVAD v fs =
     (let v = v\<lparr>pv_VADEnabled := 0\<rparr> in do {
        (res, v) \<leftarrow>
          (case (pv_VADState v, pv_initFunction v, pv_setmodeFunction v, pv_VADFunction v) of
             (Some s, Some init, Some setmode, Some process) \<Rightarrow>
               (case init s of (res, s) \<Rightarrow> do {
                  (res', v) \<leftarrow> WebRtcNetEQ_SetVADModeInternal (v\<lparr>pv_VADState := Some s\<rparr>) (pv_VADMode v);
                  let res = res OR res' in
                  Some (res, if res \<noteq> 0 then v\<lparr>pv_VADState := None\<rparr> else if fs \<le> 16000 then v\<lparr>pv_VADEnabled := 1\<rparr> else v) })
           | _ \<Rightarrow> Some (0, v));
        Some (res, v\<lparr>pv_SIDintervalCounter := 0, pv_VADDecision := 1\<rparr>) })"

section \<open>Initialisation\<close>

text \<open>The instance cleared, with what the code saves before put back, and the main part, the vectors and the noise set up.\<close>

definition dsp_start :: "('v, 'c) DSPInst \<Rightarrow> int \<Rightarrow> int \<Rightarrow> ('v, 'c) DSPInst" where
  "dsp_start inst fs fs_mult =
     (let perCall = s16 (di_millisecondsPerCall inst * 8 * fs_mult);
          overlap = s16 (5 * fs_mult); endPos = 565 * fs_mult; histLen = s16 (256 * fs_mult);
          hist = nat (endPos - histLen);
          v = di_VADInst inst
      in \<lparr>di_millisecondsPerCall = di_millisecondsPerCall inst, di_timestampsPerCall = perCall,
           di_speechBuffer = replicate SPEECH_BUF_SIZE 0, di_curPosition = endPos - overlap, di_endPosition = endPos,
           di_endTimestamp = 0, di_videoSyncTimestamp = 0, di_fs = fs, di_frameLen = s16 (3 * perCall), di_mode = 0,
           di_muteFactor = 16384, di_speechHistory = hist, di_speechHistoryLen = histLen,
           di_seedInc = 1, di_seed = 777, di_concealedTS = 0, di_CNG = di_CNG inst,
           di_DTMFInst = \<lparr>dt_reinit = 0, dt_oldOutputLow = (0, 0), dt_oldOutputHigh = (0, 0), dt_lastDtmfSample = 0\<rparr>,
           di_VADInst = v\<lparr>pv_VADDecision := 0, pv_SIDintervalCounter := 0\<rparr>,
           di_ExpandInst = \<lparr>ex_overlap = overlap, ex_consecExp = 0, ex_arFilter = nat (2 * 126 * fs_mult + int UNVOICED_LPC_ORDER),
             ex_arState = nat (2 * 126 * fs_mult), ex_arGain = 0, ex_arGainScale = 0, ex_vFraction = 0, ex_currentVFraction = 0,
             ex_expVecs0 = 0, ex_expVecs1 = nat (126 * fs_mult), ex_lags = [0, 0, 0], ex_maxLag = 0,
             ex_overlapVec = hist + nat (histLen - overlap), ex_lagsDirection = 0, ex_lagsPosition = 0,
             ex_expandMuteFactor = 16384, ex_stopMuting = 0, ex_onset = 0, ex_muteSlope = 0\<rparr>,
           di_BGNInst = \<lparr>bg_energy = 2500, bg_energyMax = 0, bg_energyUpdate = 500000, bg_energyUpdateLow = 0,
             bg_filterState = replicate BGN_LPC_ORDER 0, bg_filter = 4096 # replicate BGN_LPC_ORDER 0, bg_mutefactor = 0,
             bg_scale = 20000, bg_scaleShift = 24, bg_initialized = 0, bg_bgnMode = bg_bgnMode (di_BGNInst inst)\<rparr>,
           di_statInst = di_statInst inst,
           di_activity_stats = \<lparr>ac_preemptive_expand_bgn = 0, ac_preemptive_expand_normal = 0, ac_expand_bgn = 0, ac_expand_normal = 0,
             ac_merge_expand_bgn = 0, ac_merge_expand_normal = 0, ac_accelerate_bgn = 0, ac_accelarate_normal = 0\<rparr>,
           di_msInfo = di_msInfo inst\<rparr>)"

text \<open>\<open>cng_init\<close> is \<open>WebRtcCng_InitDec\<close>.\<close>

definition WebRtcNetEQ_DSPInit :: "('c \<Rightarrow> int \<times> 'c) \<Rightarrow> ('v, 'c) DSPInst \<Rightarrow> int \<Rightarrow> (int \<times> ('v, 'c) DSPInst) option" where
  "WebRtcNetEQ_DSPInit cng_init inst fs =
     (if fs \<noteq> 8000 \<and> fs \<noteq> 16000 \<and> fs \<noteq> 32000 then Some (-5009, inst)
      else
        let inst = dsp_start inst fs (WebRtcSpl_DivW32W16ResW16 fs 8000);
            (res, cng) = (case di_CNG inst of None \<Rightarrow> (0, None) | Some c \<Rightarrow> (case cng_init c of (r, c) \<Rightarrow> (r, Some c)))
        in do {
          (res', v) \<leftarrow> WebRtcNetEQ_InitVAD (di_VADInst inst) fs;
          Some (res OR res', inst\<lparr>di_CNG := cng, di_VADInst := v\<rparr>) })"

text \<open>The addresses of the shared memory are not part of the model.\<close>

definition WebRtcNetEQ_AddressInit :: "('v, 'c) DSPInst \<Rightarrow> int \<times> ('v, 'c) DSPInst" where
  "WebRtcNetEQ_AddressInit inst = (0, inst\<lparr>di_millisecondsPerCall := 10, di_timestampsPerCall := 80\<rparr>)"

definition WebRtcNetEQ_ClearInCallStats :: "('v, 'c) DSPInst \<Rightarrow> int \<times> ('v, 'c) DSPInst" where
  "WebRtcNetEQ_ClearInCallStats inst =
     (0, inst\<lparr>di_statInst := (di_statInst inst)\<lparr>st_accelerateLength := 0, st_expandLength := 0, st_preemptiveLength := 0, st_addedSamples := 0\<rparr>\<rparr>)"

definition WebRtcNetEQ_ClearPostCallStats :: "('v, 'c) DSPInst \<Rightarrow> int \<times> ('v, 'c) DSPInst" where
  "WebRtcNetEQ_ClearPostCallStats inst =
     (0, inst\<lparr>di_statInst := (di_statInst inst)\<lparr>st_expandedVoiceSamples := 0, st_expandedNoiseSamples := 0\<rparr>\<rparr>)"

definition WebRtcNetEQ_ClearActivityStats :: "('v, 'c) DSPInst \<Rightarrow> ('v, 'c) DSPInst" where
  "WebRtcNetEQ_ClearActivityStats inst =
     inst\<lparr>di_activity_stats := \<lparr>ac_preemptive_expand_bgn = 0, ac_preemptive_expand_normal = 0, ac_expand_bgn = 0, ac_expand_normal = 0,
       ac_merge_expand_bgn = 0, ac_merge_expand_normal = 0, ac_accelerate_bgn = 0, ac_accelarate_normal = 0\<rparr>\<rparr>"

definition WebRtcNetEQ_FlushSpeechBuffer :: "('v, 'c) DSPInst \<Rightarrow> (int \<times> ('v, 'c) DSPInst) option" where
  "WebRtcNetEQ_FlushSpeechBuffer inst =
     (let fs_mult = WebRtcSpl_DivW32W16ResW16 (di_fs inst) 8000 in do {
        buf \<leftarrow> WebRtcSpl_MemSetW16 (di_speechBuffer inst) 0 0 (int SPEECH_BUF_SIZE);
        Some (0, inst\<lparr>di_speechBuffer := buf, di_endPosition := 565 * fs_mult,
          di_curPosition := 565 * fs_mult - ex_overlap (di_ExpandInst inst)\<rparr>) })"

section \<open>Tones\<close>

definition dtfm_aTbl :: "int \<Rightarrow> int list" where
  "dtfm_aTbl fs =
     (if fs = 8000 then [27980, 26956, 25701, 24219, 19073, 16325, 13085, 9315]
      else if fs = 16000 then [31548, 31281, 30951, 30556, 29144, 28361, 27409, 26258]
      else [32462, 32394, 32311, 32210, 31849, 31647, 31400, 31098])"

definition dtfm_yInitTab :: "int \<Rightarrow> int list" where
  "dtfm_yInitTab fs =
     (if fs = 8000 then [8528, 9315, 10163, 11036, 13323, 14206, 15021, 15708]
      else if fs = 16000 then [4429, 4879, 5380, 5918, 7490, 8207, 8979, 9801]
      else [2235, 2468, 2728, 3010, 3853, 4249, 4685, 5164])"

definition WebRtcNetEQ_dtfm_dBm0 :: "int list" where
  "WebRtcNetEQ_dtfm_dBm0 = [16141, 14386, 12821, 11427, 10184, 9077, 8090, 7210, 6426, 5727, 5104, 4549, 4054, 3614, 3221, 2870, 2558,
     2280, 2032, 1811, 1614, 1439, 1282, 1143, 1018, 908, 809, 721, 643, 573, 510, 455, 405, 361, 322, 287, 256]"

definition dtmf_lowIndex :: "int \<Rightarrow> nat option" where
  "dtmf_lowIndex value =
     (if value = 1 \<or> value = 2 \<or> value = 3 \<or> value = 12 then Some 0
      else if value = 4 \<or> value = 5 \<or> value = 6 \<or> value = 13 then Some 1
      else if value = 7 \<or> value = 8 \<or> value = 9 \<or> value = 14 then Some 2
      else if value = 0 \<or> value = 10 \<or> value = 11 \<or> value = 15 then Some 3 else None)"

definition dtmf_highIndex :: "int \<Rightarrow> nat" where
  "dtmf_highIndex value =
     (if value = 1 \<or> value = 4 \<or> value = 7 \<or> value = 10 then 4
      else if value = 2 \<or> value = 5 \<or> value = 8 \<or> value = 0 then 5
      else if value = 3 \<or> value = 6 \<or> value = 9 \<or> value = 11 then 6
      else if value = 12 \<or> value = 13 \<or> value = 14 \<or> value = 15 then 7 else 4)"

text \<open>One step of an oscillator: its memory and the sample.\<close>

definition dtmf_osc :: "int \<Rightarrow> int \<times> int \<Rightarrow> (int \<times> int) \<times> int" where
  "dtmf_osc a = (\<lambda>(y2, y1). let y = s16 (shr (a * y1 + 8192) 14 - y2) in ((y1, y), y))"

definition dtmf_mix :: "int \<Rightarrow> int \<Rightarrow> int \<Rightarrow> int" where
  "dtmf_mix volume low high =
     (let tempVal = s32 (23171 * low + shl high 15); tempVal = shr (s32 (tempVal + 16384)) 15
      in s16 (shr (s16 tempVal * WebRtcNetEQ_dtfm_dBm0 ! nat volume + 8192) 14))"

fun dtmf_loop :: "int \<Rightarrow> int \<Rightarrow> int \<Rightarrow> nat \<Rightarrow> int \<times> int \<Rightarrow> int \<times> int \<Rightarrow> int list \<times> (int \<times> int) \<times> (int \<times> int)" where
  "dtmf_loop a1 a2 volume 0 lo hi = ([], lo, hi)"
| "dtmf_loop a1 a2 volume (Suc n) lo hi =
     (let (lo, low) = dtmf_osc a1 lo; (hi, high) = dtmf_osc a2 hi; (out, lo', hi') = dtmf_loop a1 a2 volume n lo hi
      in (dtmf_mix volume low high # out, lo', hi'))"

text \<open>The result is the return value, the samples and the instance.\<close>

definition WebRtcNetEQ_DTMFGenerate :: "dtmf_tone_inst \<Rightarrow> int \<Rightarrow> int \<Rightarrow> int \<Rightarrow> int \<Rightarrow> int \<times> int list \<times> dtmf_tone_inst" where
  "WebRtcNetEQ_DTMFGenerate inst value volume sampFreq extFrameLen =
     (if volume < 0 \<or> volume > 36 then (-6001, [], inst)
      else if extFrameLen < -1 then (-6001, [], inst)
      else if sampFreq \<noteq> 8000 \<and> sampFreq \<noteq> 16000 \<and> sampFreq \<noteq> 32000 then (-6003, [], inst)
      else
        let frameLen = (if extFrameLen \<ge> 0 then extFrameLen else if sampFreq = 8000 then 80 else if sampFreq = 16000 then 160 else 320) in
        case dtmf_lowIndex value of
          None \<Rightarrow> (-6001, [], inst)
        | Some lowIndex \<Rightarrow>
            let highIndex = dtmf_highIndex value;
                a1 = dtfm_aTbl sampFreq ! lowIndex; a2 = dtfm_aTbl sampFreq ! highIndex;
                inst = (if dt_reinit inst \<noteq> 0
                        then inst\<lparr>dt_oldOutputLow := (dtfm_yInitTab sampFreq ! lowIndex, 0),
                          dt_oldOutputHigh := (dtfm_yInitTab sampFreq ! highIndex, 0), dt_reinit := 0\<rparr>
                        else inst);
                (out, lo, hi) = dtmf_loop a1 a2 volume (nat frameLen) (dt_oldOutputLow inst) (dt_oldOutputHigh inst)
            in (s16 frameLen, out, inst\<lparr>dt_oldOutputLow := lo, dt_oldOutputHigh := hi\<rparr>))"

section \<open>The instance after initialisation\<close>

lemma InitVAD_total: "\<exists>res v'. WebRtcNetEQ_InitVAD v fs = Some (res, v')"
proof -
  have "\<exists>res v'. WebRtcNetEQ_SetVADModeInternal w md = Some (res, v')" if "pv_setmodeFunction w = Some f" for w f md
    using that by (cases "pv_VADState w") (simp_all add: WebRtcNetEQ_SetVADModeInternal_def case_prod_unfold)
  note S = this
  show ?thesis
  proof (cases "\<exists>s i m p. (pv_VADState v, pv_initFunction v, pv_setmodeFunction v, pv_VADFunction v) = (Some s, Some i, Some m, Some p)")
    case True
    then obtain s i m p where f: "pv_VADState v = Some s" "pv_initFunction v = Some i" "pv_setmodeFunction v = Some m" "pv_VADFunction v = Some p"
      by auto
    obtain r w where "WebRtcNetEQ_SetVADModeInternal (v\<lparr>pv_VADEnabled := 0, pv_VADState := Some (snd (i s))\<rparr>) (pv_VADMode v) = Some (r, w)"
      using S [of "v\<lparr>pv_VADEnabled := 0, pv_VADState := Some (snd (i s))\<rparr>" m "pv_VADMode v"] f(3) by auto
    then show ?thesis using f by (simp add: WebRtcNetEQ_InitVAD_def Let_def case_prod_unfold)
  next
    case False
    then show ?thesis
      by (cases "pv_VADState v"; cases "pv_initFunction v"; cases "pv_setmodeFunction v"; cases "pv_VADFunction v")
        (simp_all add: WebRtcNetEQ_InitVAD_def)
  qed
qed

text \<open>
  What \<open>Expand\<close> reuses of the speech buffer does not overlap, neither among itself nor with the history and the future.
\<close>

definition dsp_layout :: "int \<Rightarrow> ('v, 'c) DSPInst \<Rightarrow> bool" where
  "dsp_layout fs_mult inst \<longleftrightarrow>
     (let e = di_ExpandInst inst in
      length (di_speechBuffer inst) = SPEECH_BUF_SIZE \<and> di_endPosition inst \<le> int SPEECH_BUF_SIZE
      \<and> ex_overlap e = 5 * fs_mult \<and> di_curPosition inst + ex_overlap e = di_endPosition inst \<and> 0 \<le> di_curPosition inst
      \<and> int (di_speechHistory inst) + di_speechHistoryLen inst = di_endPosition inst
      \<and> int (ex_overlapVec e) + ex_overlap e = di_endPosition inst
      \<and> int (ex_expVecs0 e) + 126 * fs_mult \<le> int (ex_expVecs1 e) \<and> int (ex_expVecs1 e) + 126 * fs_mult \<le> int (ex_arState e)
      \<and> ex_arState e + UNVOICED_LPC_ORDER \<le> ex_arFilter e \<and> ex_arFilter e + UNVOICED_LPC_ORDER + 1 \<le> di_speechHistory inst)"

text \<open>
  C28: Initialisation for a rate that is compiled in always returns and lays the instance out: the speech buffer is silent and
  ends with the history, the overlap is 5 samples per 8 kHz, and the vectors of \<open>Expand\<close>, the state and the coefficients of its
  filter lie one behind the other in front of the history; the statistics survive.  Any other rate is refused and changes nothing.
\<close>

theorem dsp_init_layout:
  "(\<exists>res inst'. WebRtcNetEQ_DSPInit cng_init inst fs = Some (res, inst')
      \<and> (if fs = 8000 \<or> fs = 16000 \<or> fs = 32000
         then dsp_layout (fs div 8000) inst' \<and> di_fs inst' = fs \<and> set (di_speechBuffer inst') = {0}
           \<and> di_statInst inst' = di_statInst inst \<and> di_msInfo inst' = di_msInfo inst
           \<and> di_timestampsPerCall inst' = s16 (di_millisecondsPerCall inst * 8 * (fs div 8000))
         else res = -5009 \<and> inst' = inst))"
proof (cases "fs = 8000 \<or> fs = 16000 \<or> fs = 32000")
  case True
  let ?i = "dsp_start inst fs (fs div 8000)"
  obtain res v where v: "WebRtcNetEQ_InitVAD (di_VADInst ?i) fs = Some (res, v)" using InitVAD_total by metis
  have m: "WebRtcSpl_DivW32W16ResW16 fs 8000 = fs div 8000" using True by (auto simp: WebRtcSpl_DivW32W16ResW16_def s16_id)
  have "dsp_layout (fs div 8000) (?i\<lparr>di_CNG := c, di_VADInst := v\<rparr>)" for c
    using True by (elim disjE) (simp_all add: dsp_layout_def dsp_start_def Let_def SPEECH_BUF_SIZE_def UNVOICED_LPC_ORDER_def s16_id)
  moreover have "di_fs ?i = fs \<and> set (di_speechBuffer ?i) = {0} \<and> di_statInst ?i = di_statInst inst \<and> di_msInfo ?i = di_msInfo inst
      \<and> di_timestampsPerCall ?i = s16 (di_millisecondsPerCall inst * 8 * (fs div 8000))"
    by (simp add: dsp_start_def Let_def SPEECH_BUF_SIZE_def)
  ultimately show ?thesis using True v unfolding WebRtcNetEQ_DSPInit_def m by (auto simp: case_prod_unfold Let_def)
qed (simp add: WebRtcNetEQ_DSPInit_def)

section \<open>Tones are seamless\<close>

lemma dtmf_loop_add:
  "dtmf_loop a1 a2 vol (m + n) lo hi
    = (case dtmf_loop a1 a2 vol m lo hi of (xs, lo', hi') \<Rightarrow> case dtmf_loop a1 a2 vol n lo' hi' of (ys, lo'', hi'') \<Rightarrow> (xs @ ys, lo'', hi''))"
  by (induction m arbitrary: lo hi) (simp_all add: case_prod_unfold Let_def)

lemma dtmf_loop_length: "length (fst (dtmf_loop a1 a2 vol n lo hi)) = n"
  by (induction n arbitrary: lo hi) (simp_all add: case_prod_unfold Let_def)

text \<open>
  C27: A tone may be generated in pieces: the samples of \<open>m\<close> and then of \<open>n\<close> more are the \<open>m + n\<close> samples of one call, and leave the
  oscillators in the same state; no seam is heard when a tone begins in the middle of what is already in the buffer.
\<close>

theorem dtmf_seamless:
  assumes "0 \<le> m" "0 \<le> n" "m + n < 32768" "0 \<le> volume" "volume \<le> 36" "fs \<in> {8000, 16000, 32000}" "0 \<le> value" "value \<le> 15"
  shows "\<exists>xs ys inst' inst''. WebRtcNetEQ_DTMFGenerate inst value volume fs m = (m, xs, inst')
    \<and> WebRtcNetEQ_DTMFGenerate inst' value volume fs n = (n, ys, inst'')
    \<and> WebRtcNetEQ_DTMFGenerate inst value volume fs (m + n) = (m + n, xs @ ys, inst'')
    \<and> int (length xs) = m \<and> int (length ys) = n"
proof -
  have "list_all (\<lambda>v. dtmf_lowIndex v \<noteq> None) [0..15]" by code_simp
  then have "dtmf_lowIndex value \<noteq> None" using assms(7,8) unfolding list_all_iff set_upto by simp
  then obtain l where l: "dtmf_lowIndex value = Some l" by blast
  have s: "s16 m = m" "s16 n = n" "s16 (m + n) = m + n" using assms(1-3) by (simp_all add: s16_id)
  have g: "volume \<ge> 0 \<and> volume \<le> 36 \<and> (fs = 8000 \<or> fs = 16000 \<or> fs = 32000)" using assms(4-6) by simp
  let ?a1 = "dtfm_aTbl fs ! l" and ?a2 = "dtfm_aTbl fs ! dtmf_highIndex value"
  define i where "i = (if dt_reinit inst \<noteq> 0 then inst\<lparr>dt_oldOutputLow := (dtfm_yInitTab fs ! l, 0),
    dt_oldOutputHigh := (dtfm_yInitTab fs ! dtmf_highIndex value, 0), dt_reinit := 0\<rparr> else inst)"
  have G: "WebRtcNetEQ_DTMFGenerate inst value volume fs k = (case dtmf_loop ?a1 ?a2 volume (nat k) (dt_oldOutputLow i) (dt_oldOutputHigh i) of
      (out, lo, hi) \<Rightarrow> (s16 k, out, i\<lparr>dt_oldOutputLow := lo, dt_oldOutputHigh := hi\<rparr>))" if "0 \<le> k" for k
    using g that l by (auto simp: WebRtcNetEQ_DTMFGenerate_def Let_def i_def)
  obtain xs lo hi where x: "dtmf_loop ?a1 ?a2 volume (nat m) (dt_oldOutputLow i) (dt_oldOutputHigh i) = (xs, lo, hi)" by (metis prod.collapse)
  obtain ys lo' hi' where y: "dtmf_loop ?a1 ?a2 volume (nat n) lo hi = (ys, lo', hi')" by (metis prod.collapse)
  let ?i = "i\<lparr>dt_oldOutputLow := lo, dt_oldOutputHigh := hi\<rparr>"
  have r: "dt_reinit ?i = 0" by (simp add: i_def)
  have "WebRtcNetEQ_DTMFGenerate ?i value volume fs n = (n, ys, i\<lparr>dt_oldOutputLow := lo', dt_oldOutputHigh := hi'\<rparr>)"
    using g assms(2) l r y s(2) by (auto simp: WebRtcNetEQ_DTMFGenerate_def Let_def)
  moreover have "dtmf_loop ?a1 ?a2 volume (nat (m + n)) (dt_oldOutputLow i) (dt_oldOutputHigh i) = (xs @ ys, lo', hi')"
    using assms(1,2) x y by (simp add: nat_add_distrib dtmf_loop_add)
  ultimately show ?thesis using G [OF assms(1)] G [of "m + n"] assms(1,2) x s
      dtmf_loop_length [of ?a1 ?a2 volume "nat m" "dt_oldOutputLow i" "dt_oldOutputHigh i"] dtmf_loop_length [of ?a1 ?a2 volume "nat n" lo hi] y
    by (intro exI [of _ xs] exI [of _ ys] exI [of _ ?i] exI [of _ "i\<lparr>dt_oldOutputLow := lo', dt_oldOutputHigh := hi'\<rparr>"]) simp
qed

lemma dtmf_seamless_witness:
  "\<exists>xs ys inst' inst''. WebRtcNetEQ_DTMFGenerate \<lparr>dt_reinit = 1, dt_oldOutputLow = (0, 0), dt_oldOutputHigh = (0, 0), dt_lastDtmfSample = 0\<rparr> 5 10 8000 30
      = (30, xs, inst')
    \<and> WebRtcNetEQ_DTMFGenerate inst' 5 10 8000 50 = (50, ys, inst'')
    \<and> WebRtcNetEQ_DTMFGenerate \<lparr>dt_reinit = 1, dt_oldOutputLow = (0, 0), dt_oldOutputHigh = (0, 0), dt_lastDtmfSample = 0\<rparr> 5 10 8000 (30 + 50)
      = (30 + 50, xs @ ys, inst'')
    \<and> int (length xs) = 30 \<and> int (length ys) = 50"
  by (rule dtmf_seamless) simp_all

end
