(* ===== verification/Time_Scale.thy ===== *)
theory Time_Scale
  imports Dsp_State
begin

text \<open>
  Playing faster and slower: \<open>WebRtcNetEQ_Accelerate\<close> (\<open>accelerate.c\<close>) removes a pitch period from the decoded signal and
  \<open>WebRtcNetEQ_PreEmptiveExpand\<close> (\<open>preemptive_expand.c\<close>) inserts one, both by a crossfade, when the signal is
  periodic enough or passive.  The steps up to the decision are the same text in both files and one definition here.

  The build has stereo and the scratch memory.  In the scratch memory the correlation overwrites the first 50 words of the downsampled signal, so
  what lies behind it is the rest of that signal.
\<close>

section \<open>The lag\<close>

text \<open>
  The 50 correlations in 14 bits with what lies behind them in the scratch memory, and the largest absolute value; \<open>Inl ()\<close> when the downsampling
  refuses.
\<close>

definition ts_correlate :: "int list \<Rightarrow> int \<Rightarrow> int \<Rightarrow> (unit + int \<times> int list) option" where
  "ts_correlate decoded len fs = do {
     decodedMax \<leftarrow> map_option s16 (WebRtcSpl_MaxAbsValueW16C (Some decoded) (s16 len));
     (ok, ds) \<leftarrow> WebRtcNetEQ_DownSampleTo4kHz decoded len fs 110 True;
     if ok \<noteq> 0 then Some (Inl ())
     else let tmp = max 0 (s16 (6 - int (WebRtcSpl_NormW32 (decodedMax * decodedMax)))) in do {
       corr \<leftarrow> WebRtcSpl_CrossCorrelationC (drop 60 ds) ds (60 - 10) 50 (60 - 10) tmp (-1);
       m \<leftarrow> WebRtcSpl_MaxAbsValueW32C (Some corr) 50;
       let tmp = max 0 (s16 (17 - int (WebRtcSpl_NormW32 m))) in do {
         corr16 \<leftarrow> WebRtcSpl_VectorBitShiftW32ToW16 50 corr tmp;
         Some (Inr (decodedMax, corr16 @ drop 50 ds)) } } }"

definition ts_peak :: "int list \<Rightarrow> int \<Rightarrow> int \<Rightarrow> int option" where
  "ts_peak corr corrLen fsMult = do {
     (ps, _) \<leftarrow> WebRtcNetEQ_PeakDetection corr corrLen 1 fsMult;
     Some (s16 (fst (hd ps) + 10 * shl fsMult 1)) }"

section \<open>The decision\<close>

text \<open>A right shift, undefined for a count outside of the width.\<close>

definition shr_chk :: "int \<Rightarrow> int \<Rightarrow> int option" where
  "shr_chk x k = (if 0 \<le> k \<and> k < 32 then Some (shr x (nat k)) else None)"

definition shl_chk :: "int \<Rightarrow> int \<Rightarrow> int option" where
  "shl_chk x k = (if 0 \<le> k \<and> k < 32 then Some (s32 (shl x (nat k))) else None)"

definition ts_dot_scale :: "int \<Rightarrow> int \<Rightarrow> int" where
  "ts_dot_scale decodedMax bestIndex =
     (let tmp = s16 (31 - int (WebRtcSpl_NormW32 (decodedMax * decodedMax)));
          tmp = s16 (tmp + (31 - int (WebRtcSpl_NormW32 bestIndex)))
      in max 0 (s16 (tmp - 31)))"

text \<open>Whether the energies are at most those of the background noise.\<close>

definition ts_passive :: "BGNInst \<Rightarrow> int \<Rightarrow> int \<Rightarrow> int \<Rightarrow> int \<Rightarrow> bool option" where
  "ts_passive bgn bestIndex scal en1 en2 =
     (let tmp32 = shr (s32 (en1 + en2)) 4;
          thr = (if bg_initialized bgn = 1 then bg_energy bgn else 75000);
          sh = max 0 (s16 (16 - int (WebRtcSpl_NormW32 thr))) in do {
        tmp32 \<leftarrow> shr_chk tmp32 sh;
        t16 \<leftarrow> map_option s16 (shr_chk thr sh);
        let thr = bestIndex * t16; n = int (WebRtcSpl_NormW32 tmp32) in
        if n < shl scal 1
        then do { tmp32 \<leftarrow> shl_chk tmp32 n; thr \<leftarrow> shr_chk thr (shl scal 1 - n); Some (tmp32 \<le> thr) }
        else do { tmp32 \<leftarrow> shl_chk tmp32 (shl scal 1); Some (tmp32 \<le> thr) } })"

text \<open>The correlation at the lag over the root of the product of the energies, in Q14.\<close>

definition ts_bestCorr :: "int \<Rightarrow> int \<Rightarrow> int \<Rightarrow> int option" where
  "ts_bestCorr en1 en2 cc =
     (let en1Scale = max 0 (s16 (16 - int (WebRtcSpl_NormW32 en1)));
          en2Scale = max 0 (s16 (16 - int (WebRtcSpl_NormW32 en2)));
          en1Scale = (if (en1Scale + en2Scale) AND 1 \<noteq> 0 then s16 (en1Scale + 1) else en1Scale) in do {
        e1 \<leftarrow> map_option s16 (shr_chk en1 en1Scale);
        e2 \<leftarrow> map_option s16 (shr_chk en2 en2Scale);
        let sqrtEn1En2 = s16 (WebRtcSpl_SqrtFloor (e1 * e2));
            tmp = s16 (14 - shr (en1Scale + en2Scale) 1) in do {
          cc \<leftarrow> (if tmp \<ge> 0 then shl_chk cc tmp else shr_chk cc (- tmp));
          Some (min 16384 (s16 (WebRtcSpl_DivW32W16 (max 0 cc) sqrtEn1En2))) } })"

text \<open>The decision on voice and the correlation, for a lag.\<close>

definition ts_decide :: "BGNInst \<Rightarrow> int list \<Rightarrow> int \<Rightarrow> int \<Rightarrow> int \<Rightarrow> (bool \<times> int) option" where
  "ts_decide bgn decoded fsMult120 decodedMax bestIndex =
     (let scal = ts_dot_scale decodedMax bestIndex in do {
        vec1 \<leftarrow> rdz decoded (fsMult120 - bestIndex) bestIndex;
        vec2 \<leftarrow> rdz decoded fsMult120 bestIndex;
        en1 \<leftarrow> WebRtcSpl_DotProductWithScale vec1 vec1 bestIndex scal;
        en2 \<leftarrow> WebRtcSpl_DotProductWithScale vec2 vec2 bestIndex scal;
        cc \<leftarrow> WebRtcSpl_DotProductWithScale vec1 vec2 bestIndex scal;
        passive \<leftarrow> ts_passive bgn bestIndex scal en1 en2;
        if passive then Some (False, 0) else do { c \<leftarrow> ts_bestCorr en1 en2 cc; Some (True, c) } })"

section \<open>Moving samples\<close>

text \<open>\<open>memmove\<close> of \<open>n\<close> samples from position \<open>i\<close>; a negative count is a huge one.\<close>

definition move16 :: "int list \<Rightarrow> int \<Rightarrow> int \<Rightarrow> int list option" where
  "move16 mem i n = (if n < 0 then None else rdz mem i n)"

text \<open>The crossfade over \<open>n\<close> samples from those at \<open>i\<close> to those at \<open>j\<close>.\<close>

definition ts_fade :: "int list \<Rightarrow> int \<Rightarrow> int \<Rightarrow> int \<Rightarrow> int list option" where
  "ts_fade decoded i j n =
     (let inc = s16 (WebRtcSpl_DivW32W16 16384 (s16 (n + 1))) in do {
        v1 \<leftarrow> rdz decoded i n; v2 \<leftarrow> rdz decoded j n;
        (out, _) \<leftarrow> WebRtcNetEQ_MixVoiceUnvoice v1 v2 (s16 (16384 - inc)) inc n;
        Some out })"

text \<open>
  What the functions return: the return value, the length if it is written, the output, and the instance.
\<close>

type_synonym ('v, 'c) ts_result = "int \<times> int option \<times> int list \<times> ('v, 'c) DSPInst"

definition ts_unchanged :: "int \<Rightarrow> int \<Rightarrow> int list \<Rightarrow> int \<Rightarrow> ('v, 'c) DSPInst \<Rightarrow> ('v, 'c) ts_result option" where
  "ts_unchanged res md decoded len inst = do { out \<leftarrow> move16 decoded 0 (s16 len); Some (res, Some (s16 len), out, inst\<lparr>di_mode := md\<rparr>) }"

definition set_consecExp :: "int \<Rightarrow> ('v, 'c) DSPInst \<Rightarrow> ('v, 'c) DSPInst" where
  "set_consecExp n inst = inst\<lparr>di_ExpandInst := (di_ExpandInst inst)\<lparr>ex_consecExp := n\<rparr>\<rparr>"

section \<open>Accelerate\<close>

definition acc_bgn :: "int list \<Rightarrow> int \<Rightarrow> int \<Rightarrow> ('v, 'c) DSPInst \<Rightarrow> ('v, 'c) ts_result option" where
  "acc_bgn decoded len fsMult inst =
     (let bestIndex = s16 (8 * shl fsMult 3) in
      if bestIndex > len then ts_unchanged NETEQ_OTHER_ERROR MODE_UNSUCCESS_ACCELERATE decoded len inst
      else do {
        out \<leftarrow> move16 decoded 0 (s16 (len - bestIndex));
        Some (0, Some (s16 (len - bestIndex)), out, inst\<lparr>di_mode := MODE_LOWEN_ACCELERATE,
          di_statInst := (di_statInst inst)\<lparr>st_accelerateLength := u32 (st_accelerateLength (di_statInst inst) + bestIndex)\<rparr>,
          di_activity_stats := (di_activity_stats inst)\<lparr>ac_accelerate_bgn := s32 (ac_accelerate_bgn (di_activity_stats inst) + bestIndex)\<rparr>\<rparr>) })"

definition acc_remove :: "int list \<Rightarrow> int \<Rightarrow> int \<Rightarrow> int \<Rightarrow> bool \<Rightarrow> ('v, 'c) DSPInst \<Rightarrow> ('v, 'c) ts_result option" where
  "acc_remove decoded len fsMult120 bestIndex active inst = do {
     head \<leftarrow> move16 decoded 0 (s16 (fsMult120 - bestIndex));
     mid \<leftarrow> ts_fade decoded (fsMult120 - bestIndex) fsMult120 bestIndex;
     tail \<leftarrow> move16 decoded (fsMult120 + bestIndex) (s16 (len - fsMult120 - bestIndex));
     Some (0, Some (s16 (len - bestIndex)), head @ mid @ tail, inst\<lparr>
       di_mode := (if active then MODE_SUCCESS_ACCELERATE else MODE_LOWEN_ACCELERATE),
       di_statInst := (di_statInst inst)\<lparr>st_accelerateLength := u32 (st_accelerateLength (di_statInst inst) + bestIndex)\<rparr>,
       di_activity_stats := (di_activity_stats inst)\<lparr>ac_accelarate_normal := s32 (ac_accelarate_normal (di_activity_stats inst) + bestIndex)\<rparr>\<rparr>) }"

text \<open>With the information on master and slave \<open>ms\<close>.\<close>

definition acc_search :: "int list \<Rightarrow> int \<Rightarrow> int \<Rightarrow> int \<Rightarrow> MasterSlaveInfo \<Rightarrow> ('v, 'c) DSPInst \<Rightarrow> ('v, 'c) ts_result option" where
  "acc_search decoded len fsMult fsMult120 ms inst =
     (if ms_msMode ms = NETEQ_SLAVE
      then if ms_extraInfo ms \<noteq> ACC_FAIL then acc_remove decoded len fsMult120 (ms_bestIndex ms) True inst
           else ts_unchanged 0 MODE_UNSUCCESS_ACCELERATE decoded len inst
      else do {
        r \<leftarrow> ts_correlate decoded len (di_fs inst);
        case r of
          Inl _ \<Rightarrow> ts_unchanged NETEQ_OTHER_ERROR MODE_UNSUCCESS_ACCELERATE decoded len inst
        | Inr (decodedMax, corr) \<Rightarrow>
            if ms_msMode ms \<noteq> NETEQ_MASTER \<and> ms_msMode ms \<noteq> NETEQ_MONO then Some (MASTER_SLAVE_ERROR, None, [], inst)
            else do {
              bestIndex \<leftarrow> ts_peak corr 50 fsMult;
              (active, bestCorr) \<leftarrow> ts_decide (di_BGNInst inst) decoded fsMult120 decodedMax bestIndex;
              let ms = ms\<lparr>ms_bestIndex := bestIndex\<rparr> in
              if bestCorr > 14746 \<or> \<not> active
              then acc_remove decoded len fsMult120 bestIndex active (inst\<lparr>di_msInfo := Some ms\<rparr>)
              else ts_unchanged 0 MODE_UNSUCCESS_ACCELERATE decoded len (inst\<lparr>di_msInfo :=
                Some (if ms_msMode ms = NETEQ_MASTER then ms\<lparr>ms_extraInfo := ACC_FAIL\<rparr> else ms)\<rparr>) } })"

definition WebRtcNetEQ_Accelerate :: "('v, 'c) DSPInst \<Rightarrow> int list \<Rightarrow> int \<Rightarrow> bool \<Rightarrow> ('v, 'c) ts_result option" where
  "WebRtcNetEQ_Accelerate inst decoded len BGNonly =
     (let fsMult = WebRtcNetEQ_CalcFsMult (di_fs inst);
          fsMult120 = s16 (fsMult * 120);
          inst = set_consecExp 0 inst
      in if len < s16 ((120 + 119) * fsMult) then ts_unchanged NETEQ_OTHER_ERROR MODE_UNSUCCESS_ACCELERATE decoded len inst
         else if BGNonly then acc_bgn decoded len fsMult inst
         else case di_msInfo inst of
             None \<Rightarrow> Some (MASTER_SLAVE_ERROR, None, [], inst)
           | Some ms \<Rightarrow> acc_search decoded len fsMult fsMult120 ms inst)"

section \<open>Pre-emptive expand\<close>

definition pre_bgn :: "int list \<Rightarrow> int \<Rightarrow> int \<Rightarrow> ('v, 'c) DSPInst \<Rightarrow> ('v, 'c) ts_result option" where
  "pre_bgn decoded len fsMult inst =
     (let bestIndex = s16 (8 * shl fsMult 3) in
      if bestIndex > len then ts_unchanged NETEQ_OTHER_ERROR MODE_UNSUCCESS_PREEMPTIVE decoded len inst
      else do {
        out \<leftarrow> move16 decoded 0 len;
        more \<leftarrow> move16 decoded 0 bestIndex;
        Some (0, Some (s16 (len + bestIndex)), out @ more, inst\<lparr>di_mode := MODE_LOWEN_PREEMPTIVE,
          di_statInst := (di_statInst inst)\<lparr>st_preemptiveLength := u32 (st_preemptiveLength (di_statInst inst) + bestIndex)\<rparr>,
          di_activity_stats := (di_activity_stats inst)\<lparr>ac_preemptive_expand_bgn :=
            s32 (ac_preemptive_expand_bgn (di_activity_stats inst) + bestIndex)\<rparr>\<rparr>) })"

definition pre_insert :: "int list \<Rightarrow> int \<Rightarrow> int \<Rightarrow> int \<Rightarrow> int \<Rightarrow> bool \<Rightarrow> ('v, 'c) DSPInst \<Rightarrow> ('v, 'c) ts_result option" where
  "pre_insert decoded len oldDataLen fsMult120 bestIndex active inst =
     (let startIndex = s16 (max oldDataLen fsMult120) in do {
        head \<leftarrow> move16 decoded 0 startIndex;
        mid \<leftarrow> ts_fade decoded startIndex (startIndex - bestIndex) bestIndex;
        tail \<leftarrow> move16 decoded startIndex (s16 (len - startIndex));
        Some (0, Some (s16 (len + bestIndex)), head @ mid @ tail, inst\<lparr>
          di_mode := (if active then MODE_SUCCESS_PREEMPTIVE else MODE_LOWEN_PREEMPTIVE),
          di_statInst := (di_statInst inst)\<lparr>st_preemptiveLength := u32 (st_preemptiveLength (di_statInst inst) + bestIndex)\<rparr>,
          di_activity_stats := (di_activity_stats inst)\<lparr>ac_preemptive_expand_normal :=
            s32 (ac_preemptive_expand_normal (di_activity_stats inst) + bestIndex)\<rparr>\<rparr>) })"

text \<open>The peak is sought where the output still fits into the buffer of the algorithm.\<close>

definition pre_corrLen :: "int \<Rightarrow> int \<Rightarrow> int" where
  "pre_corrLen len fsMult = min 50 (s16 (WebRtcSpl_DivW32W16ResW16 (NETEQ_MAX_OUTPUT_SIZE - len) (s16 (shl fsMult 1)) - 10))"

definition pre_search :: "int list \<Rightarrow> int \<Rightarrow> int \<Rightarrow> int \<Rightarrow> int \<Rightarrow> MasterSlaveInfo \<Rightarrow> ('v, 'c) DSPInst \<Rightarrow> ('v, 'c) ts_result option" where
  "pre_search decoded len oldDataLen fsMult fsMult120 ms inst =
     (if ms_msMode ms = NETEQ_MASTER \<or> ms_msMode ms = NETEQ_MONO
      then do {
        r \<leftarrow> ts_correlate decoded len (di_fs inst);
        case r of
          Inl _ \<Rightarrow> ts_unchanged NETEQ_OTHER_ERROR MODE_UNSUCCESS_PREEMPTIVE decoded len inst
        | Inr (decodedMax, corr) \<Rightarrow> do {
            bestIndex \<leftarrow> ts_peak corr (pre_corrLen len fsMult) fsMult;
            (active, bestCorr) \<leftarrow> ts_decide (di_BGNInst inst) decoded fsMult120 decodedMax bestIndex;
            let ms = ms\<lparr>ms_bestIndex := bestIndex\<rparr>;
                bestIndex = (if active then bestIndex else s16 (min bestIndex (len - oldDataLen))) in
            if bestCorr > 14746 \<and> oldDataLen \<le> fsMult120 \<or> \<not> active
            then pre_insert decoded len oldDataLen fsMult120 bestIndex active (inst\<lparr>di_msInfo := Some ms\<rparr>)
            else ts_unchanged 0 MODE_UNSUCCESS_PREEMPTIVE decoded len (inst\<lparr>di_msInfo :=
              Some (if ms_msMode ms = NETEQ_MASTER then ms\<lparr>ms_extraInfo := PE_EXP_FAIL\<rparr> else ms)\<rparr>) } }
      else if ms_msMode ms = NETEQ_SLAVE
      then if ms_extraInfo ms \<noteq> PE_EXP_FAIL then pre_insert decoded len oldDataLen fsMult120 (ms_bestIndex ms) True inst
           else ts_unchanged 0 MODE_UNSUCCESS_PREEMPTIVE decoded len inst
      else Some (MASTER_SLAVE_ERROR, None, [], inst))"

definition WebRtcNetEQ_PreEmptiveExpand :: "('v, 'c) DSPInst \<Rightarrow> int list \<Rightarrow> int \<Rightarrow> int \<Rightarrow> bool \<Rightarrow> ('v, 'c) ts_result option" where
  "WebRtcNetEQ_PreEmptiveExpand inst decoded len oldDataLen BGNonly =
     (let fsMult = WebRtcNetEQ_CalcFsMult (di_fs inst);
          fsMult120 = s16 (fsMult * 120);
          inst = set_consecExp 0 inst
      in if len < s16 ((120 + 119) * fsMult) \<or> oldDataLen \<ge> len - ex_overlap (di_ExpandInst inst)
         then ts_unchanged NETEQ_OTHER_ERROR MODE_UNSUCCESS_PREEMPTIVE decoded len inst
         else if BGNonly then pre_bgn decoded len fsMult inst
         else case di_msInfo inst of
             None \<Rightarrow> Some (MASTER_SLAVE_ERROR, None, [], inst)
           | Some ms \<Rightarrow> pre_search decoded len oldDataLen fsMult fsMult120 ms inst)"

section \<open>Norms and correlations return\<close>

lemma norm_w32_le: "WebRtcSpl_NormW32 a \<le> 31"
  by (simp add: WebRtcSpl_NormW32_def norm_step_def Let_def)

lemma norm_w32_ge:
  assumes "0 < a" "a < 2 ^ k" "k \<le> 31"
  shows "31 - k \<le> WebRtcSpl_NormW32 a"
proof (rule ccontr)
  assume "\<not> 31 - k \<le> WebRtcSpl_NormW32 a"
  then have n: "WebRtcSpl_NormW32 a \<le> 30 - k" "k < 31" using assms(3) by simp_all
  have "(2 :: int) ^ k \<le> 2 ^ 31" using assms(3) by (intro power_increasing) simp_all
  then have b: "a < 2147483648" using assms(2) by simp
  have "a * 2 ^ WebRtcSpl_NormW32 a < 2 ^ k * 2 ^ WebRtcSpl_NormW32 a" using assms(2) by simp
  also have "\<dots> \<le> 2 ^ k * 2 ^ (30 - k)" using n(1) by (simp add: power_increasing)
  also have "\<dots> = (2 :: int) ^ 30" using n(2) by (simp flip: power_add)
  finally show False using norm_w32_pos(1) [OF assms(1) b] by simp
qed

lemma int16s_take: "int16s xs \<Longrightarrow> int16s (take n xs)"
  by (auto simp: int16s_def dest: in_set_takeD)

lemma int16s_drop: "int16s xs \<Longrightarrow> int16s (drop n xs)"
  by (auto simp: int16s_def dest: in_set_dropD)

lemma int16s_append [simp]: "int16s (xs @ ys) \<longleftrightarrow> int16s xs \<and> int16s ys"
  by (auto simp: int16s_def)

lemma int16s_slice: "int16s xs \<Longrightarrow> int16s (slice i n xs)"
  by (simp add: slice_def int16s_take int16s_drop)

lemma int16s_sat: "int16s (map (\<lambda>x. WebRtcSpl_SatW32ToW16 (f x)) xs)"
  by (auto simp: int16s_def saturate_div)

lemma max_abs16_some:
  assumes "0 < n" "n \<le> length xs"
  shows "\<exists>m. WebRtcSpl_MaxAbsValueW16C (Some xs) (int n) = Some m \<and> 0 \<le> m \<and> m \<le> 32767"
proof -
  have "0 \<le> max_scan 0 ys" for ys by (simp add: max_scan_Max)
  then show ?thesis using assms by (simp add: WebRtcSpl_MaxAbsValueW16C_def over_vector_take Let_def)
qed

lemma max_abs32_some:
  assumes "0 < n" "n \<le> length xs"
  shows "\<exists>m. WebRtcSpl_MaxAbsValueW32C (Some xs) (int n) = Some m"
  using assms by (simp add: WebRtcSpl_MaxAbsValueW32C_def over_vector_take)

lemma cross_correlation_some:
  assumes "n \<le> length seq1" "0 \<le> rs" "rs < 32"
    "\<And>i. i < dim \<Longrightarrow> 0 \<le> p + step * int i \<and> p + step * int i + int n \<le> int (length arr)"
  shows "\<exists>cs. WebRtcSpl_CrossCorrelationC seq1 arr p (int n) (int dim) rs step = Some cs \<and> length cs = dim"
proof -
  have "rdz seq1 0 (int n) = Some (slice 0 n seq1)" using assms(1) by (simp add: rdz_slice)
  moreover have "rdz arr (p + step * int i) (int n) = Some (slice (nat (p + step * int i)) n arr)" if "i < dim" for i
    using assms(4) [OF that] by (simp add: rdz_slice)
  ultimately have "WebRtcSpl_CrossCorrelationC seq1 arr p (int n) (int dim) rs step
      = Some (map (\<lambda>i. mac_shr (nat rs) 0 (zip (slice 0 n seq1) (slice (nat (p + step * int i)) n arr))) [0..<dim])"
    unfolding WebRtcSpl_CrossCorrelationC_def nat_int using assms(2,3) by (intro those_map_Some) simp
  then show ?thesis by simp
qed

lemma shift_w32_w16_some:
  assumes "n \<le> length xs" "0 \<le> k" "k < 32"
  shows "\<exists>ys. WebRtcSpl_VectorBitShiftW32ToW16 (int n) xs k = Some ys \<and> length ys = n \<and> int16s ys"
proof -
  have "rdz xs 0 (int n) = Some (take n xs)" using assms(1) by (simp add: rdz_slice slice_def)
  then show ?thesis using assms by (simp add: WebRtcSpl_VectorBitShiftW32ToW16_def shift_all_def int16s_sat)
qed

section \<open>The lag returns\<close>

text \<open>The rates of the build, with the multiple of 8 kHz.\<close>

definition ts_rate :: "int \<Rightarrow> int \<Rightarrow> bool" where
  "ts_rate fs m \<longleftrightarrow> fs = 8000 \<and> m = 1 \<or> fs = 16000 \<and> m = 2 \<or> fs = 32000 \<and> m = 4"

lemma ts_rate_facts:
  assumes "ts_rate fs m"
  shows "WebRtcNetEQ_CalcFsMult fs = m" "1 \<le> m" "m \<le> 4"
  using assms by (auto simp: ts_rate_def WebRtcNetEQ_CalcFsMult_def)

lemma downsample_some:
  assumes "ts_rate fs m" "int16s decoded" "239 * m \<le> len" "len < 32768" "len \<le> int (length decoded)"
  shows "\<exists>ds. WebRtcNetEQ_DownSampleTo4kHz decoded len fs 110 True = Some (0, ds) \<and> length ds = 110 \<and> int16s ds"
proof -
  obtain B factor del where f: "down_filter fs = Some (B, factor, del)" "2 \<le> length B" "length B \<le> 7" "(\<Sum>c \<leftarrow> B. \<bar>c\<bar>) \<le> 65535" "0 < factor"
    "0 \<le> del" "del + factor * 109 + 1 \<le> 239 * m - (int (length B) - 1)"
    using assms(1) by (auto simp: ts_rate_def down_filter_def WebRtcNetEQ_kDownsample8kHzTbl_def
        WebRtcNetEQ_kDownsample16kHzTbl_def WebRtcNetEQ_kDownsample32kHzTbl_def)
  have s: "s16 (len - (int (length B) - 1)) = len - (int (length B) - 1)" "s16 110 = int 110"
    using assms(3,4) f(2,3) ts_rate_facts(2) [OF assms(1)] by (simp_all add: s16_id)
  have "int (length B) - 1 \<le> int (length B) - 1 + del" "del + factor * (int 110 - 1) + 1 \<le> len - (int (length B) - 1)"
    "int (length B) - 1 + (len - (int (length B) - 1)) \<le> int (length decoded)" using f(6,7) assms(3,5) by simp_all
  with downsample_fir [OF assms(2) refl _ f(4) _ f(5), of 110 "int (length B) - 1" del "len - (int (length B) - 1)"] f(2)
  obtain g where g: "WebRtcSpl_DownsampleFastC decoded (int (length B) - 1) (len - (int (length B) - 1)) (int 110) B (int (length B)) factor del
      = Some (0, map (\<lambda>k. max (-32768) (min 32767 (g k))) [0..<110])" by fastforce
  moreover have "int16s (map (\<lambda>k. max (-32768) (min 32767 (g k))) [0..<110])" by (auto simp: int16s_def)
  ultimately show ?thesis using f(1) by (simp add: WebRtcNetEQ_DownSampleTo4kHz_def Let_def s)
qed

lemma ts_correlate_some:
  assumes "ts_rate fs m" "int16s decoded" "239 * m \<le> len" "len < 32768" "len \<le> int (length decoded)"
  shows "\<exists>dm corr. ts_correlate decoded len fs = Some (Inr (dm, corr)) \<and> length corr = 110 \<and> int16s corr \<and> 0 \<le> dm \<and> dm \<le> 32767"
proof -
  have len: "s16 len = int (nat len)" "0 < nat len" "nat len \<le> length decoded" using assms(3-5) ts_rate_facts(2) [OF assms(1)] by (simp_all add: s16_id)
  obtain dm where dm: "WebRtcSpl_MaxAbsValueW16C (Some decoded) (s16 len) = Some dm" "0 \<le> dm" "dm \<le> 32767"
    using max_abs16_some [OF len(2,3)] unfolding len(1) by auto
  obtain ds where ds: "WebRtcNetEQ_DownSampleTo4kHz decoded len fs 110 True = Some (0, ds)" "length ds = 110" "int16s ds"
    using downsample_some [OF assms] by auto
  define t where "t = max 0 (s16 (6 - int (WebRtcSpl_NormW32 (dm * dm))))"
  have "int (WebRtcSpl_NormW32 (dm * dm)) \<le> 31" using norm_w32_le [of "dm * dm"] by simp
  then have t: "0 \<le> t" "t < 32" by (simp_all add: t_def s16_id)
  obtain cs where cs: "WebRtcSpl_CrossCorrelationC (drop 60 ds) ds 50 (int 50) (int 50) t (-1) = Some cs" "length cs = 50"
    using cross_correlation_some [of 50 "drop 60 ds" t 50 50 "-1" ds] t ds(2) by auto
  obtain mx where mx: "WebRtcSpl_MaxAbsValueW32C (Some cs) (int 50) = Some mx" using max_abs32_some [of 50 cs] cs(2) by auto
  define u where "u = max 0 (s16 (17 - int (WebRtcSpl_NormW32 mx)))"
  have "int (WebRtcSpl_NormW32 mx) \<le> 31" using norm_w32_le [of mx] by simp
  then have u: "0 \<le> u" "u < 32" by (simp_all add: u_def s16_id)
  obtain ys where ys: "WebRtcSpl_VectorBitShiftW32ToW16 (int 50) cs u = Some ys" "length ys = 50" "int16s ys"
    using shift_w32_w16_some [of 50 cs u] cs(2) u by auto
  have "s16 dm = dm" using dm(2,3) by (simp add: s16_id)
  then have "ts_correlate decoded len fs = Some (Inr (dm, ys @ drop 50 ds))"
    using dm(1) ds(1) cs(1) mx ys(1) by (simp add: ts_correlate_def t_def u_def)
  then show ?thesis using dm(2,3) ys(2,3) ds(2,3) by (simp add: int16s_drop)
qed

lemma ts_peak_some:
  assumes "2 \<le> n" "n < length corr" "int16s corr" "1 \<le> m" "m \<le> 4" "n \<le> 50"
  shows "\<exists>b. ts_peak corr (int n) m = Some b \<and> 20 * m \<le> b \<and> b \<le> (2 * int n - 1) * m + 20 * m"
proof -
  have "(2 * int n - 1) * m \<le> 99 * 4" using assms by (intro mult_mono) simp_all
  then obtain idx v where p: "WebRtcNetEQ_PeakDetection corr (int n) 1 m = Some ([(idx, v)], corr)" "0 \<le> idx" "idx \<le> (2 * int n - 1) * m"
    using peak_single [OF assms(1-4)] by auto
  have "s16 (idx + 10 * shl m 1) = idx + 20 * m" using p(2,3) assms(4,5) \<open>(2 * int n - 1) * m \<le> 99 * 4\<close>
    by (simp add: push_bit_eq_mult s16_id)
  then show ?thesis using p by (simp add: ts_peak_def)
qed

section \<open>The decision returns\<close>

lemma shr_chk_some: "0 \<le> k \<Longrightarrow> k < 32 \<Longrightarrow> shr_chk x k = Some (shr x (nat k))"
  by (simp add: shr_chk_def)

lemma shl_chk_some: "0 \<le> k \<Longrightarrow> k < 32 \<Longrightarrow> shl_chk x k = Some (s32 (shl x (nat k)))"
  by (simp add: shl_chk_def)

lemma norm_scale: "0 \<le> max 0 (s16 (16 - int (WebRtcSpl_NormW32 a)))" "max 0 (s16 (16 - int (WebRtcSpl_NormW32 a))) \<le> 16"
  using norm_w32_le [of a] by (simp_all add: s16_id)

lemma ts_dot_scale_range:
  assumes "0 < b" "b < 512"
  shows "0 \<le> ts_dot_scale dm b \<and> ts_dot_scale dm b \<le> 9"
proof -
  have "31 - 9 \<le> WebRtcSpl_NormW32 b" using assms by (intro norm_w32_ge) simp_all
  then show ?thesis using norm_w32_le [of b] norm_w32_le [of "dm * dm"] by (simp add: ts_dot_scale_def Let_def s16_id)
qed

lemma ts_passive_some:
  assumes "0 \<le> scal" "scal \<le> 9"
  shows "\<exists>p. ts_passive bgn b scal en1 en2 = Some p"
proof -
  have n: "int (WebRtcSpl_NormW32 x) < 32" for x using norm_w32_le [of x] by simp
  have sh: "max 0 (s16 (16 - int (WebRtcSpl_NormW32 x))) < 32" for x using norm_scale(2) [of x] by simp
  show ?thesis unfolding ts_passive_def Let_def push_bit_eq_mult
    using assms by (simp add: shr_chk_some [OF norm_scale(1) sh] shl_chk_some [OF _ n] shl_chk_some shr_chk_some not_less)
qed

lemma ts_bestCorr_some: "\<exists>c. ts_bestCorr en1 en2 cc = Some c \<and> c \<le> 16384"
proof -
  define a b where "a = max 0 (s16 (16 - int (WebRtcSpl_NormW32 en1)))" "b = max 0 (s16 (16 - int (WebRtcSpl_NormW32 en2)))"
  define a' where "a' = (if (a + b) AND 1 \<noteq> 0 then s16 (a + 1) else a)"
  have r: "0 \<le> a" "a \<le> 16" "0 \<le> b" "b \<le> 16" using norm_scale by (simp_all add: a_b_def)
  then have a': "0 \<le> a'" "a' \<le> 17" by (simp_all add: a'_def s16_id)
  have t: "s16 (14 - shr (a' + b) 1) = 14 - (a' + b) div 2" using a' r by (simp add: drop_bit_eq_div s16_id)
  have "0 \<le> (a' + b) div 2" "(a' + b) div 2 \<le> 17" using a' r by simp_all
  then have "\<exists>x. (if 14 - (a' + b) div 2 \<ge> 0 then shl_chk cc (14 - (a' + b) div 2) else shr_chk cc (- (14 - (a' + b) div 2))) = Some x"
    by (auto simp: shl_chk_some shr_chk_some)
  moreover have "shr_chk en1 a' = Some (shr en1 (nat a'))" "shr_chk en2 b = Some (shr en2 (nat b))"
    using a' r by (simp_all add: shr_chk_some)
  ultimately show ?thesis unfolding ts_bestCorr_def Let_def a_b_def [symmetric] a'_def [symmetric] t by auto
qed

lemma dot_product_some:
  assumes "length xs = nat n" "length ys = nat n" "0 < n" "0 \<le> k" "k < 32"
  shows "\<exists>d. WebRtcSpl_DotProductWithScale xs ys n k = Some d"
proof -
  have "int (length xs) = n" using assms(1,3) by simp
  then show ?thesis using dot_product_mac [of xs ys k] assms by simp
qed

lemma ts_decide_some:
  assumes "0 < b" "b < 512" "b \<le> p" "p + b \<le> int (length decoded)"
  shows "\<exists>a c. ts_decide bgn decoded p dm b = Some (a, c)"
proof -
  define k where "k = ts_dot_scale dm b"
  have k: "0 \<le> k" "k \<le> 9" using ts_dot_scale_range [OF assms(1,2)] by (simp_all add: k_def)
  have r: "rdz decoded (p - b) b = Some (slice (nat (p - b)) (nat b) decoded)" "rdz decoded p b = Some (slice (nat p) (nat b) decoded)"
    using rdz_slice [of "p - b" "nat b" decoded] rdz_slice [of p "nat b" decoded] assms by simp_all
  have l: "length (slice (nat (p - b)) (nat b) decoded) = nat b" "length (slice (nat p) (nat b) decoded) = nat b"
    using assms by (simp_all add: slice_def)
  note d = dot_product_some [OF _ _ assms(1) k(1)]
  obtain en1 en2 cc where "WebRtcSpl_DotProductWithScale (slice (nat (p - b)) (nat b) decoded) (slice (nat (p - b)) (nat b) decoded) b k = Some en1"
    "WebRtcSpl_DotProductWithScale (slice (nat p) (nat b) decoded) (slice (nat p) (nat b) decoded) b k = Some en2"
    "WebRtcSpl_DotProductWithScale (slice (nat (p - b)) (nat b) decoded) (slice (nat p) (nat b) decoded) b k = Some cc"
    using d [OF l(1) l(1)] d [OF l(2) l(2)] d [OF l(1) l(2)] k(2) by auto
  then show ?thesis using r ts_passive_some [OF k, of bgn b en1 en2] ts_bestCorr_some [of en1 en2 cc]
    by (auto simp: ts_decide_def Let_def k_def [symmetric])
qed

section \<open>The crossfade\<close>

lemma ts_fade_some:
  assumes "int16s decoded" "0 < n" "n < 32767" "0 \<le> i" "i + n \<le> int (length decoded)" "0 \<le> j" "j + n \<le> int (length decoded)"
  shows "\<exists>out. ts_fade decoded i j n = Some out \<and> length out = nat n
    \<and> (\<forall>k < nat n. min (decoded ! (nat i + k)) (decoded ! (nat j + k)) \<le> out ! k \<and> out ! k \<le> max (decoded ! (nat i + k)) (decoded ! (nat j + k)))"
proof -
  have r: "rdz decoded i n = Some (slice (nat i) (nat n) decoded)" "rdz decoded j n = Some (slice (nat j) (nat n) decoded)"
    using rdz_slice [of i "nat n" decoded] rdz_slice [of j "nat n" decoded] assms by simp_all
  define inc where "inc = 16384 div (int (nat n) + 1)"
  have "0 \<le> inc" "inc \<le> 16384" using assms(2) zdiv_mono2 [of 16384 1 "int (nat n) + 1"] by (simp_all add: inc_def pos_imp_zdiv_nonneg_iff)
  then have inc: "s16 (WebRtcSpl_DivW32W16 16384 (s16 (n + 1))) = inc" "s16 (16384 - inc) = 16384 - inc"
    using assms(2,3) by (simp_all add: WebRtcSpl_DivW32W16_def s16_id s32_id inc_def signed_divide_int_def)
  have l: "length (slice (nat i) (nat n) decoded) = nat n" "length (slice (nat j) (nat n) decoded) = nat n"
    using assms by (simp_all add: slice_def)
  have nth: "slice (nat i) (nat n) decoded ! k = decoded ! (nat i + k)" "slice (nat j) (nat n) decoded ! k = decoded ! (nat j + k)" if "k < nat n" for k
    using that assms by (simp_all add: slice_def)
  obtain out where "WebRtcNetEQ_MixVoiceUnvoice (slice (nat i) (nat n) decoded) (slice (nat j) (nat n) decoded) (16384 - inc) inc (int (nat n))
      = Some (out, 16384 - inc * (int (nat n) + 1))" "length out = nat n"
    "\<forall>k < nat n. min (slice (nat i) (nat n) decoded ! k) (slice (nat j) (nat n) decoded ! k) \<le> out ! k
       \<and> out ! k \<le> max (slice (nat i) (nat n) decoded ! k) (slice (nat j) (nat n) decoded ! k)"
    using crossfade [OF int16s_slice [OF assms(1)] int16s_slice [OF assms(1)], of "nat n" "nat i" "nat n" "nat j" "nat n" inc] l
    unfolding inc_def by auto
  then show ?thesis using r inc nth assms(2) by (intro exI [of _ out]) (simp add: ts_fade_def Let_def)
qed

section \<open>What the functions do to the signal\<close>

text \<open>The output is the first \<open>len\<close> samples without \<open>n\<close> of them: those in front of \<open>p\<close> fade into those behind it.\<close>

definition removes_period :: "int list \<Rightarrow> int \<Rightarrow> int \<Rightarrow> int \<Rightarrow> int list \<Rightarrow> bool" where
  "removes_period decoded len p n out \<longleftrightarrow> length out = nat (len - n)
     \<and> (\<forall>i < nat (p - n). out ! i = decoded ! i)
     \<and> (\<forall>k < nat n. min (decoded ! (nat (p - n) + k)) (decoded ! (nat p + k)) \<le> out ! (nat (p - n) + k)
         \<and> out ! (nat (p - n) + k) \<le> max (decoded ! (nat (p - n) + k)) (decoded ! (nat p + k)))
     \<and> (\<forall>i. nat p \<le> i \<and> i < nat (len - n) \<longrightarrow> out ! i = decoded ! (i + nat n))"

text \<open>The output is the first \<open>len\<close> samples with \<open>n\<close> more at \<open>p\<close>: what follows \<open>p\<close> fades into what was in front of it.\<close>

definition inserts_period :: "int list \<Rightarrow> int \<Rightarrow> int \<Rightarrow> int \<Rightarrow> int list \<Rightarrow> bool" where
  "inserts_period decoded len p n out \<longleftrightarrow> length out = nat (len + n)
     \<and> (\<forall>i < nat p. out ! i = decoded ! i)
     \<and> (\<forall>k < nat n. min (decoded ! (nat p + k)) (decoded ! (nat (p - n) + k)) \<le> out ! (nat p + k)
         \<and> out ! (nat p + k) \<le> max (decoded ! (nat p + k)) (decoded ! (nat (p - n) + k)))
     \<and> (\<forall>i. nat p \<le> i \<and> i < nat len \<longrightarrow> out ! (i + nat n) = decoded ! i)"

text \<open>Only the mode, the count of expansions, the statistics and the information for the slave change.\<close>

definition ts_frame :: "('v, 'c) DSPInst \<Rightarrow> ('v, 'c) DSPInst \<Rightarrow> bool" where
  "ts_frame inst inst' \<longleftrightarrow> inst' = inst\<lparr>di_mode := di_mode inst', di_ExpandInst := (di_ExpandInst inst)\<lparr>ex_consecExp := 0\<rparr>,
     di_statInst := di_statInst inst', di_activity_stats := di_activity_stats inst', di_msInfo := di_msInfo inst'\<rparr>"

lemma move16_some: "0 \<le> i \<Longrightarrow> 0 \<le> n \<Longrightarrow> i + n \<le> int (length mem) \<Longrightarrow> move16 mem i n = Some (slice (nat i) (nat n) mem)"
  using rdz_slice [of i "nat n" mem] by (simp add: move16_def)

lemma acc_remove_some:
  assumes "int16s decoded" "0 < n" "n < 512" "n \<le> p" "p < 1000" "p + n \<le> len" "len < 32768" "len \<le> int (length decoded)"
  shows "\<exists>out. acc_remove decoded len p n act inst = Some (0, Some (len - n), out, inst\<lparr>
       di_mode := (if act then MODE_SUCCESS_ACCELERATE else MODE_LOWEN_ACCELERATE),
       di_statInst := (di_statInst inst)\<lparr>st_accelerateLength := u32 (st_accelerateLength (di_statInst inst) + n)\<rparr>,
       di_activity_stats := (di_activity_stats inst)\<lparr>ac_accelarate_normal := s32 (ac_accelarate_normal (di_activity_stats inst) + n)\<rparr>\<rparr>)
     \<and> removes_period decoded len p n out"
proof -
  have c: "n < 32767" "0 \<le> p - n" "p - n + n \<le> int (length decoded)" "0 \<le> p" "p + n \<le> int (length decoded)"
    using assms(2-8) by linarith+
  obtain mid where mid: "ts_fade decoded (p - n) p n = Some mid" "length mid = nat n"
    "\<forall>k < nat n. min (decoded ! (nat (p - n) + k)) (decoded ! (nat p + k)) \<le> mid ! k
      \<and> mid ! k \<le> max (decoded ! (nat (p - n) + k)) (decoded ! (nat p + k))"
    using ts_fade_some [OF assms(1,2) c] by blast
  let ?h = "slice 0 (nat (p - n)) decoded" and ?t = "slice (nat (p + n)) (nat (len - p - n)) decoded"
  have l: "length ?h = nat (p - n)" "length ?t = nat (len - p - n)" using assms by (simp_all add: slice_def)
  have "move16 decoded 0 (p - n) = Some ?h" "move16 decoded (p + n) (len - p - n) = Some ?t"
    using move16_some [of 0 "p - n" decoded] move16_some [of "p + n" "len - p - n" decoded] assms by simp_all
  moreover have "s16 (p - n) = p - n" "s16 (len - p - n) = len - p - n" "s16 (len - n) = len - n" using assms by (simp_all add: s16_id)
  moreover have "removes_period decoded len p n (?h @ mid @ ?t)"
    unfolding removes_period_def
  proof (intro conjI allI impI)
    show "length (?h @ mid @ ?t) = nat (len - n)" using l mid(2) assms by simp
    show "i < nat (p - n) \<Longrightarrow> (?h @ mid @ ?t) ! i = decoded ! i" for i using l(1) assms by (simp add: nth_append slice_def)
    fix k assume "k < nat n"
    then have "(?h @ mid @ ?t) ! (nat (p - n) + k) = mid ! k" using l(1) mid(2) by (simp add: nth_append)
    then show "min (decoded ! (nat (p - n) + k)) (decoded ! (nat p + k)) \<le> (?h @ mid @ ?t) ! (nat (p - n) + k)"
      "(?h @ mid @ ?t) ! (nat (p - n) + k) \<le> max (decoded ! (nat (p - n) + k)) (decoded ! (nat p + k))"
      using mid(3) \<open>k < nat n\<close> by simp_all
  next
    fix i assume i: "nat p \<le> i \<and> i < nat (len - n)"
    have e: "length (?h @ mid) = nat p" using l(1) mid(2) assms by simp
    have "(?h @ mid @ ?t) ! i = ((?h @ mid) @ ?t) ! i" by simp
    also have "\<dots> = ?t ! (i - nat p)" unfolding nth_append e using i by simp
    also have "\<dots> = decoded ! (nat (p + n) + (i - nat p))"
    proof -
      have "i - nat p < nat (len - p - n)" "nat (p + n) \<le> length decoded" using i assms(2,4-8) by linarith+
      then show ?thesis by (simp only: slice_def nth_take nth_drop)
    qed
    also have "nat (p + n) + (i - nat p) = i + nat n" using i assms by simp
    finally show "(?h @ mid @ ?t) ! i = decoded ! (i + nat n)" .
  qed
  ultimately show ?thesis using mid(1) by (intro exI [of _ "?h @ mid @ ?t"]) (simp add: acc_remove_def)
qed

lemma pre_insert_some:
  assumes "int16s decoded" "0 < n" "n < 512" "0 \<le> old" "p = max old f" "n \<le> f" "p + n \<le> len" "len + n < 32768" "len \<le> int (length decoded)"
  shows "\<exists>out. pre_insert decoded len old f n act inst = Some (0, Some (len + n), out, inst\<lparr>
       di_mode := (if act then MODE_SUCCESS_PREEMPTIVE else MODE_LOWEN_PREEMPTIVE),
       di_statInst := (di_statInst inst)\<lparr>st_preemptiveLength := u32 (st_preemptiveLength (di_statInst inst) + n)\<rparr>,
       di_activity_stats := (di_activity_stats inst)\<lparr>ac_preemptive_expand_normal :=
         s32 (ac_preemptive_expand_normal (di_activity_stats inst) + n)\<rparr>\<rparr>)
     \<and> inserts_period decoded len p n out"
proof -
  have np: "n \<le> p" "0 \<le> p" using assms(2,4,5,6) by simp_all
  have c: "n < 32767" "0 \<le> p" "p + n \<le> int (length decoded)" "0 \<le> p - n" "p - n + n \<le> int (length decoded)"
    using assms(2,3,7-9) np by linarith+
  obtain mid where mid: "ts_fade decoded p (p - n) n = Some mid" "length mid = nat n"
    "\<forall>k < nat n. min (decoded ! (nat p + k)) (decoded ! (nat (p - n) + k)) \<le> mid ! k
      \<and> mid ! k \<le> max (decoded ! (nat p + k)) (decoded ! (nat (p - n) + k))"
    using ts_fade_some [OF assms(1,2) c] by blast
  let ?h = "slice 0 (nat p) decoded" and ?t = "slice (nat p) (nat (len - p)) decoded"
  have l: "length ?h = nat p" "length ?t = nat (len - p)" using assms np by (simp_all add: slice_def)
  have "p \<le> len" "p \<le> int (length decoded)" using assms(2,7,9) by linarith+
  then have "move16 decoded 0 p = Some ?h" "move16 decoded p (len - p) = Some ?t"
    using move16_some [of 0 p decoded] move16_some [of p "len - p" decoded] assms(9) np by simp_all
  moreover have "p < 32768" "len < 32768" using assms(2,7,8) by linarith+
  then have "s16 (max old f) = p" "s16 (len - p) = len - p" "s16 (len + n) = len + n"
    unfolding assms(5) [symmetric] using assms(2,8) np \<open>p \<le> len\<close> by (simp_all add: s16_id)
  moreover have "inserts_period decoded len p n (?h @ mid @ ?t)"
    unfolding inserts_period_def
  proof (intro conjI allI impI)
    show "length (?h @ mid @ ?t) = nat (len + n)" using l mid(2) np(2) \<open>p \<le> len\<close> assms(2) by simp linarith
    show "i < nat p \<Longrightarrow> (?h @ mid @ ?t) ! i = decoded ! i" for i using l(1) assms by (simp add: nth_append slice_def)
    fix k assume "k < nat n"
    then have "(?h @ mid @ ?t) ! (nat p + k) = mid ! k" using l(1) mid(2) by (simp add: nth_append)
    then show "min (decoded ! (nat p + k)) (decoded ! (nat (p - n) + k)) \<le> (?h @ mid @ ?t) ! (nat p + k)"
      "(?h @ mid @ ?t) ! (nat p + k) \<le> max (decoded ! (nat p + k)) (decoded ! (nat (p - n) + k))"
      using mid(3) \<open>k < nat n\<close> by simp_all
  next
    fix i assume i: "nat p \<le> i \<and> i < nat len"
    have e: "length (?h @ mid) = nat p + nat n" using l(1) mid(2) by simp
    have "(?h @ mid @ ?t) ! (i + nat n) = ((?h @ mid) @ ?t) ! (i + nat n)" by simp
    also have "\<dots> = ?t ! (i - nat p)" unfolding nth_append e using i by simp
    also have "\<dots> = decoded ! i"
    proof -
      have "i - nat p < nat (len - p)" "nat p \<le> length decoded" "nat p + (i - nat p) = i" using i np(2) \<open>p \<le> len\<close> assms(9) by linarith+
      then show ?thesis by (simp only: slice_def nth_take nth_drop)
    qed
    finally show "(?h @ mid @ ?t) ! (i + nat n) = decoded ! i" .
  qed
  ultimately show ?thesis using mid(1) by (intro exI [of _ "?h @ mid @ ?t"]) (simp add: pre_insert_def)
qed

lemma ts_unchanged_some:
  "0 \<le> len \<Longrightarrow> len < 32768 \<Longrightarrow> len \<le> int (length decoded) \<Longrightarrow>
    ts_unchanged res md decoded len inst = Some (res, Some len, take (nat len) decoded, inst\<lparr>di_mode := md\<rparr>)"
  using move16_some [of 0 len decoded] by (simp add: ts_unchanged_def s16_id slice_def)

section \<open>Playing faster\<close>

lemma acc_bgn_some:
  assumes "1 \<le> m" "m \<le> 4" "239 * m \<le> len" "len < 32768" "len \<le> int (length decoded)"
  shows "acc_bgn decoded len m inst = Some (0, Some (len - 64 * m), take (nat (len - 64 * m)) decoded, inst\<lparr>di_mode := MODE_LOWEN_ACCELERATE,
    di_statInst := (di_statInst inst)\<lparr>st_accelerateLength := u32 (st_accelerateLength (di_statInst inst) + 64 * m)\<rparr>,
    di_activity_stats := (di_activity_stats inst)\<lparr>ac_accelerate_bgn := s32 (ac_accelerate_bgn (di_activity_stats inst) + 64 * m)\<rparr>\<rparr>)"
proof -
  have "s16 (8 * shl m 3) = 64 * m" "s16 (len - 64 * m) = len - 64 * m" "\<not> len < 64 * m"
    using assms by (simp_all add: push_bit_eq_mult s16_id)
  then show ?thesis using move16_some [of 0 "len - 64 * m" decoded] assms by (simp add: acc_bgn_def Let_def slice_def)
qed

text \<open>What a call removes, \<open>n\<close>, in each of the three ways it may go.\<close>

definition acc_outcome :: "int list \<Rightarrow> int \<Rightarrow> int \<Rightarrow> bool \<Rightarrow> MasterSlaveInfo \<Rightarrow> ('v, 'c) DSPInst \<Rightarrow> int \<Rightarrow> int list \<Rightarrow> ('v, 'c) DSPInst \<Rightarrow> bool" where
  "acc_outcome decoded len m bgn ms inst n out inst' \<longleftrightarrow>
     n = 0 \<and> di_mode inst' = MODE_UNSUCCESS_ACCELERATE \<and> out = take (nat len) decoded \<and> di_statInst inst' = di_statInst inst
     \<or> n \<noteq> 0 \<and> di_statInst inst' = (di_statInst inst)\<lparr>st_accelerateLength := u32 (st_accelerateLength (di_statInst inst) + n)\<rparr>
       \<and> (bgn \<and> n = 64 * m \<and> di_mode inst' = MODE_LOWEN_ACCELERATE \<and> out = take (nat (len - n)) decoded
          \<or> \<not> bgn \<and> (if ms_msMode ms = NETEQ_SLAVE then n = ms_bestIndex ms else 20 * m \<le> n \<and> n \<le> 119 * m)
            \<and> di_mode inst' \<in> {MODE_SUCCESS_ACCELERATE, MODE_LOWEN_ACCELERATE} \<and> removes_period decoded len (120 * m) n out)"

lemma acc_search_some:
  assumes "ts_rate (di_fs inst) m" "int16s decoded" "239 * m \<le> len" "len < 32768" "len \<le> int (length decoded)"
    "ms_msMode ms \<in> {NETEQ_MONO, NETEQ_MASTER, NETEQ_SLAVE}"
    "ms_msMode ms = NETEQ_SLAVE \<Longrightarrow> 0 < ms_bestIndex ms \<and> ms_bestIndex ms \<le> 119 * m" "ex_consecExp (di_ExpandInst inst) = 0"
  shows "\<exists>n out inst'. acc_search decoded len m (120 * m) ms inst = Some (0, Some (len - n), out, inst')
    \<and> ts_frame inst inst' \<and> acc_outcome decoded len m False ms inst n out inst'
    \<and> (ms_msMode ms \<noteq> NETEQ_SLAVE \<longrightarrow> (\<exists>ms'. di_msInfo inst' = Some ms' \<and> ms_msMode ms' = ms_msMode ms
        \<and> (if n = 0 then ms_msMode ms = NETEQ_MASTER \<longrightarrow> ms_extraInfo ms' = ACC_FAIL
           else ms_bestIndex ms' = n \<and> ms_extraInfo ms' = ms_extraInfo ms)))"
proof -
  note m = ts_rate_facts [OF assms(1)]
  have c: "0 \<le> len" using assms(3) m(2) by simp
  note keep = ts_unchanged_some [OF c assms(4,5)]
  have rem: "\<exists>out. acc_remove decoded len (120 * m) n act i = Some (0, Some (len - n), out, i\<lparr>
       di_mode := (if act then MODE_SUCCESS_ACCELERATE else MODE_LOWEN_ACCELERATE),
       di_statInst := (di_statInst i)\<lparr>st_accelerateLength := u32 (st_accelerateLength (di_statInst i) + n)\<rparr>,
       di_activity_stats := (di_activity_stats i)\<lparr>ac_accelarate_normal := s32 (ac_accelarate_normal (di_activity_stats i) + n)\<rparr>\<rparr>)
     \<and> removes_period decoded len (120 * m) n out" if "0 < n" "n \<le> 119 * m" for n act and i :: "('a, 'b) DSPInst"
    using that assms(3,4,5) m(2,3) by (intro acc_remove_some [OF assms(2)]) simp_all
  have fr: "ts_frame inst (inst\<lparr>di_mode := a, di_statInst := b, di_activity_stats := d\<rparr>)"
    "ts_frame inst (inst\<lparr>di_msInfo := e, di_mode := a, di_statInst := b, di_activity_stats := d\<rparr>)"
    "ts_frame inst (inst\<lparr>di_mode := a\<rparr>)" "ts_frame inst (inst\<lparr>di_msInfo := e, di_mode := a\<rparr>)" for a b d e
    using assms(8) by (simp_all add: ts_frame_def)
  show ?thesis
  proof (cases "ms_msMode ms = NETEQ_SLAVE")
    case True
    show ?thesis
    proof (cases "ms_extraInfo ms = ACC_FAIL")
      case f: True
      show ?thesis using True f keep [of 0 MODE_UNSUCCESS_ACCELERATE inst] fr
        by (intro exI [of _ 0] exI) (auto simp: acc_search_def acc_outcome_def)
    next
      case False
      show ?thesis using True False assms(7) [OF True] rem [of "ms_bestIndex ms" True inst] fr
        by (intro exI [of _ "ms_bestIndex ms"]) (auto simp: acc_search_def acc_outcome_def)
    qed
  next
    case False
    obtain dm corr where r: "ts_correlate decoded len (di_fs inst) = Some (Inr (dm, corr))" "length corr = 110" "int16s corr"
      using ts_correlate_some [OF assms(1-5)] by auto
    obtain b where b: "ts_peak corr 50 m = Some b" "20 * m \<le> b" "b \<le> 119 * m"
      using ts_peak_some [of 50 corr m] r(2,3) m(2,3) by (auto simp: algebra_simps)
    obtain a cr where d: "ts_decide (di_BGNInst inst) decoded (120 * m) dm b = Some (a, cr)"
      using ts_decide_some [of b "120 * m" decoded "di_BGNInst inst" dm] b(2,3) m(2,3) assms(3,5) by auto
    have mode: "\<not> (ms_msMode ms \<noteq> NETEQ_MASTER \<and> ms_msMode ms \<noteq> NETEQ_MONO)" using assms(6) False by auto
    show ?thesis
    proof (cases "cr > 14746 \<or> \<not> a")
      case True
      show ?thesis using True False mode r(1) b d m(2) rem [of b a "inst\<lparr>di_msInfo := Some (ms\<lparr>ms_bestIndex := b\<rparr>)\<rparr>"] fr
        by (intro exI [of _ b]) (auto simp: acc_search_def acc_outcome_def Let_def)
    next
      case f: False
      show ?thesis using f False mode r(1) b d fr
          keep [of 0 MODE_UNSUCCESS_ACCELERATE "inst\<lparr>di_msInfo := Some (ms\<lparr>ms_bestIndex := b, ms_extraInfo := 1\<rparr>)\<rparr>"]
          keep [of 0 MODE_UNSUCCESS_ACCELERATE "inst\<lparr>di_msInfo := Some (ms\<lparr>ms_bestIndex := b\<rparr>)\<rparr>"]
        by (intro exI [of _ 0]) (auto simp: acc_search_def acc_outcome_def Let_def)
    qed
  qed
qed

lemma accelerate_some:
  assumes "ts_rate (di_fs inst) m" "int16s decoded" "239 * m \<le> len" "len < 32768" "len \<le> int (length decoded)"
    "di_msInfo inst = Some ms" "ms_msMode ms \<in> {NETEQ_MONO, NETEQ_MASTER, NETEQ_SLAVE}"
    "ms_msMode ms = NETEQ_SLAVE \<Longrightarrow> 0 < ms_bestIndex ms \<and> ms_bestIndex ms \<le> 119 * m"
  shows "\<exists>n out inst'. WebRtcNetEQ_Accelerate inst decoded len bgn = Some (0, Some (len - n), out, inst')
    \<and> ts_frame inst inst' \<and> acc_outcome decoded len m bgn ms inst n out inst'
    \<and> (\<not> bgn \<and> ms_msMode ms \<noteq> NETEQ_SLAVE \<longrightarrow> (\<exists>ms'. di_msInfo inst' = Some ms' \<and> ms_msMode ms' = ms_msMode ms
        \<and> (if n = 0 then ms_msMode ms = NETEQ_MASTER \<longrightarrow> ms_extraInfo ms' = ACC_FAIL
           else ms_bestIndex ms' = n \<and> ms_extraInfo ms' = ms_extraInfo ms)))"
proof -
  note m = ts_rate_facts [OF assms(1)]
  let ?i = "set_consecExp 0 inst"
  have s: "s16 (m * 120) = 120 * m" "s16 (239 * m) = 239 * m" using m(2,3) by (simp_all add: s16_id)
  have i: "di_fs ?i = di_fs inst" "di_msInfo ?i = Some ms" "ex_consecExp (di_ExpandInst ?i) = 0" "di_statInst ?i = di_statInst inst"
    using assms(6) by (simp_all add: set_consecExp_def)
  have frame: "ts_frame ?i i \<longleftrightarrow> ts_frame inst i" for i by (simp add: ts_frame_def set_consecExp_def)
  show ?thesis
  proof (cases bgn)
    case True
    note b = acc_bgn_some [OF m(2,3) assms(3-5), of ?i]
    have "WebRtcNetEQ_Accelerate inst decoded len bgn = acc_bgn decoded len m ?i"
      using True assms(3) by (simp add: WebRtcNetEQ_Accelerate_def Let_def m(1) s)
    moreover have "ts_frame inst (?i\<lparr>di_mode := a, di_statInst := b, di_activity_stats := d\<rparr>)" for a b d
      by (simp add: ts_frame_def set_consecExp_def)
    ultimately show ?thesis using b True m(2) i(4)
      by (intro exI [of _ "64 * m"]) (simp add: acc_outcome_def)
  next
    case False
    have "WebRtcNetEQ_Accelerate inst decoded len bgn = acc_search decoded len m (120 * m) ms ?i"
      using False assms(3) i(2) by (simp add: WebRtcNetEQ_Accelerate_def Let_def m(1) s)
    then show ?thesis
      using acc_search_some [of ?i m decoded len ms] assms(1-5,7,8) i False unfolding frame acc_outcome_def by simp
  qed
qed

text \<open>
  C11: Playing faster is safe and honest: for every decoded signal of at least 239 samples per 8 kHz, at every rate of the build, alone, as
  master or as slave with the lag of its master, the function returns, reads and shifts within bounds, and either leaves the
  signal as it is, or drops 8 ms at its end when only background noise is played, or removes between 2.5 and about 15 ms: the
  signal in front of the gap and behind it is untouched, and in between every sample lies between the two it fades between.
  The count of removed samples grows by exactly what is missing, and nothing else of the instance changes.
\<close>

theorem accelerate_shortens:
  assumes "ts_rate (di_fs inst) m" "int16s decoded" "239 * m \<le> len" "len < 32768" "len \<le> int (length decoded)"
    "di_msInfo inst = Some ms" "ms_msMode ms \<in> {NETEQ_MONO, NETEQ_MASTER, NETEQ_SLAVE}"
    "ms_msMode ms = NETEQ_SLAVE \<Longrightarrow> 0 < ms_bestIndex ms \<and> ms_bestIndex ms \<le> 119 * m"
  shows "\<exists>n out inst'. WebRtcNetEQ_Accelerate inst decoded len bgn = Some (0, Some (len - n), out, inst')
    \<and> ts_frame inst inst' \<and> acc_outcome decoded len m bgn ms inst n out inst'"
  using accelerate_some [OF assms(1-7), of bgn] assms(8) by blast

text \<open>
  C12: Two channels stay in step: when a master has been accelerated, a slave that is given the master's information, with as many
  samples at the same rate, removes as many samples as the master did, or none when the master did not remove any.
\<close>

theorem accelerate_in_step:
  assumes "ts_rate (di_fs inst) m" "int16s decoded" "239 * m \<le> len" "len < 32768" "len \<le> int (length decoded)"
    "di_msInfo inst = Some ms" "ms_msMode ms = NETEQ_MASTER" "ms_extraInfo ms \<noteq> ACC_FAIL"
    "di_fs slave = di_fs inst" "int16s decoded2" "len \<le> int (length decoded2)"
  shows "\<exists>len' out inst' ms' out2 slave'. WebRtcNetEQ_Accelerate inst decoded len False = Some (0, Some len', out, inst')
    \<and> di_msInfo inst' = Some ms'
    \<and> WebRtcNetEQ_Accelerate (slave\<lparr>di_msInfo := Some (ms'\<lparr>ms_msMode := NETEQ_SLAVE\<rparr>)\<rparr>) decoded2 len False = Some (0, Some len', out2, slave')"
proof -
  obtain n out inst' ms' where a: "WebRtcNetEQ_Accelerate inst decoded len False = Some (0, Some (len - n), out, inst')"
    "acc_outcome decoded len m False ms inst n out inst'" "di_msInfo inst' = Some ms'"
    "if n = 0 then ms_extraInfo ms' = ACC_FAIL else ms_bestIndex ms' = n \<and> ms_extraInfo ms' = ms_extraInfo ms"
    using accelerate_some [OF assms(1-6), of False] assms(7) by auto
  let ?ms = "ms'\<lparr>ms_msMode := NETEQ_SLAVE\<rparr>"
  let ?s = "slave\<lparr>di_msInfo := Some ?ms\<rparr>"
  note m = ts_rate_facts [OF assms(1)]
  have s: "WebRtcNetEQ_CalcFsMult (di_fs slave) = m" "s16 (239 * m) = 239 * m" using m assms(9) by (simp_all add: s16_id)
  show ?thesis
  proof (cases "n = 0")
    case True
    have "0 \<le> len" using assms(3) m(2) by simp
    from ts_unchanged_some [OF this assms(4,11), of 0 MODE_UNSUCCESS_ACCELERATE "set_consecExp 0 ?s"]
    have "WebRtcNetEQ_Accelerate ?s decoded2 len False
        = Some (0, Some len, take (nat len) decoded2, (set_consecExp 0 ?s)\<lparr>di_mode := MODE_UNSUCCESS_ACCELERATE\<rparr>)"
      using True a(4) assms(3) s by (simp add: WebRtcNetEQ_Accelerate_def acc_search_def set_consecExp_def Let_def)
    then show ?thesis using a(1,3) True by auto
  next
    case False
    then have n: "20 * m \<le> n" "n \<le> 119 * m" using a(2) assms(7) by (auto simp: acc_outcome_def)
    obtain o3 where "acc_remove decoded2 len (120 * m) n True (set_consecExp 0 ?s) = Some (0, Some (len - n), o3)"
      using acc_remove_some [OF assms(10), of n "120 * m" len True "set_consecExp 0 ?s"] n m(2,3) assms(3,4,11) by auto
    then have "WebRtcNetEQ_Accelerate ?s decoded2 len False = Some (0, Some (len - n), o3)"
      using False a(4) assms(3,8) s m(2,3) by (simp add: WebRtcNetEQ_Accelerate_def acc_search_def set_consecExp_def Let_def s16_id mult.commute)
    then show ?thesis using a(1,3) by (cases o3) auto
  qed
qed

section \<open>Pre-emptive expand returns\<close>

text \<open>The peak is sought so far that the output stays within the buffer of the algorithm.\<close>

lemma pre_corrLen_range:
  assumes "1 \<le> m" "m \<le> 4" "239 * m \<le> len" "len \<le> 4320 - 64 * m"
  shows "\<exists>n. pre_corrLen len m = int n \<and> 2 \<le> n \<and> n \<le> 50 \<and> (2 * int n - 1) * m + 20 * m \<le> 4320 - len"
proof -
  define q where "q = (4320 - len) div (2 * m)"
  have "64 * m div (2 * m) = 32" using assms(1) by simp
  then have q: "32 \<le> q" unfolding q_def using assms(1,4) zdiv_mono1 [of "64 * m" "4320 - len" "2 * m"] by simp
  have "q * (2 * m) \<le> 4320 - len" using assms(1) minus_mod_eq_div_mult [of "4320 - len" "2 * m"] pos_mod_sign [of "2 * m" "4320 - len"]
    unfolding q_def by linarith
  moreover have "q * 2 \<le> q * (2 * m)" using q assms(1) by simp
  ultimately have q2: "q * 2 \<le> 4320 - len" "2 * q * m \<le> 4320 - len" by (simp_all add: algebra_simps)
  have "WebRtcSpl_DivW32W16ResW16 (4320 - len) (2 * m) = q"
    using assms q q2(1) by (simp add: WebRtcSpl_DivW32W16ResW16_def signed_divide_int_def q_def [symmetric] s16_id)
  moreover have "s16 (shl m 1) = 2 * m" using assms(1,2) by (simp add: push_bit_eq_mult s16_id)
  moreover have "s16 (q - 10) = q - 10" using q q2(1) assms(3,1) by (simp add: s16_id)
  ultimately have e: "pre_corrLen len m = min 50 (q - 10)" by (simp add: pre_corrLen_def NETEQ_MAX_OUTPUT_SIZE_def)
  have "(2 * min 50 (q - 10) - 1) * m + 20 * m \<le> 2 * q * m"
  proof -
    have "(2 * min 50 (q - 10) - 1) * m \<le> (2 * q - 20) * m" using assms(1) by (intro mult_right_mono) (auto simp: min_def)
    then show ?thesis by (simp add: algebra_simps)
  qed
  then show ?thesis using e q q2(2) by (intro exI [of _ "nat (min 50 (q - 10))"]) auto
qed

lemma pre_bgn_some:
  assumes "1 \<le> m" "m \<le> 4" "239 * m \<le> len" "len \<le> 4320 - 64 * m" "len \<le> int (length decoded)"
  shows "pre_bgn decoded len m inst = Some (0, Some (len + 64 * m), take (nat len) decoded @ take (nat (64 * m)) decoded, inst\<lparr>di_mode := MODE_LOWEN_PREEMPTIVE,
    di_statInst := (di_statInst inst)\<lparr>st_preemptiveLength := u32 (st_preemptiveLength (di_statInst inst) + 64 * m)\<rparr>,
    di_activity_stats := (di_activity_stats inst)\<lparr>ac_preemptive_expand_bgn :=
      s32 (ac_preemptive_expand_bgn (di_activity_stats inst) + 64 * m)\<rparr>\<rparr>)"
proof -
  have "s16 (8 * shl m 3) = 64 * m" using assms(1,2) by (simp add: push_bit_eq_mult s16_id)
  moreover have "move16 decoded 0 len = Some (take (nat len) decoded)" "move16 decoded 0 (64 * m) = Some (take (nat (64 * m)) decoded)"
    using assms move16_some [of 0 len decoded] move16_some [of 0 "64 * m" decoded] by (simp_all add: slice_def)
  ultimately show ?thesis using assms by (simp add: pre_bgn_def Let_def s16_id)
qed

text \<open>What a call may do to the signal, the mode and the count of inserted samples.\<close>

definition pre_outcome :: "int list \<Rightarrow> int \<Rightarrow> int \<Rightarrow> int \<Rightarrow> bool \<Rightarrow> MasterSlaveInfo \<Rightarrow> ('v, 'c) DSPInst \<Rightarrow> int \<Rightarrow> int list \<Rightarrow> ('v, 'c) DSPInst \<Rightarrow> bool" where
  "pre_outcome decoded len old m bgn ms inst n out inst' \<longleftrightarrow>
     n = 0 \<and> di_mode inst' = MODE_UNSUCCESS_PREEMPTIVE \<and> out = take (nat len) decoded \<and> di_statInst inst' = di_statInst inst
     \<or> 0 < n \<and> di_statInst inst' = (di_statInst inst)\<lparr>st_preemptiveLength := u32 (st_preemptiveLength (di_statInst inst) + n)\<rparr>
       \<and> (bgn \<and> n = 64 * m \<and> di_mode inst' = MODE_LOWEN_PREEMPTIVE \<and> out = take (nat len) decoded @ take (nat n) decoded
          \<or> \<not> bgn \<and> (if ms_msMode ms = NETEQ_SLAVE then n = ms_bestIndex ms else n \<le> 119 * m)
            \<and> di_mode inst' \<in> {MODE_SUCCESS_PREEMPTIVE, MODE_LOWEN_PREEMPTIVE}
            \<and> inserts_period decoded len (max old (120 * m)) n out)"

lemma pre_search_some:
  assumes "ts_rate (di_fs inst) m" "int16s decoded" "239 * m \<le> len" "len \<le> 4320 - 64 * m" "len \<le> int (length decoded)" "0 \<le> old" "old < len"
    "ms_msMode ms \<in> {NETEQ_MONO, NETEQ_MASTER, NETEQ_SLAVE}"
    "ms_msMode ms = NETEQ_SLAVE \<Longrightarrow> 0 < ms_bestIndex ms \<and> ms_bestIndex ms \<le> 119 * m \<and> ms_bestIndex ms \<le> len - old \<and> ms_bestIndex ms \<le> 4320 - len"
    "ex_consecExp (di_ExpandInst inst) = 0"
  shows "\<exists>n out inst'. pre_search decoded len old m (120 * m) ms inst = Some (0, Some (len + n), out, inst')
    \<and> len + n \<le> NETEQ_MAX_OUTPUT_SIZE \<and> ts_frame inst inst' \<and> pre_outcome decoded len old m False ms inst n out inst'"
proof -
  note m = ts_rate_facts [OF assms(1)]
  have c: "0 \<le> len" "len < 32768" using assms(3,4) m(2) by simp_all
  note keep = ts_unchanged_some [OF c assms(5)]
  have fits: "len \<le> NETEQ_MAX_OUTPUT_SIZE" using assms(4) m(2) by (simp add: NETEQ_MAX_OUTPUT_SIZE_def)
  have ins: "\<exists>out. pre_insert decoded len old (120 * m) n act i = Some (0, Some (len + n), out, i\<lparr>
       di_mode := (if act then MODE_SUCCESS_PREEMPTIVE else MODE_LOWEN_PREEMPTIVE),
       di_statInst := (di_statInst i)\<lparr>st_preemptiveLength := u32 (st_preemptiveLength (di_statInst i) + n)\<rparr>,
       di_activity_stats := (di_activity_stats i)\<lparr>ac_preemptive_expand_normal := s32 (ac_preemptive_expand_normal (di_activity_stats i) + n)\<rparr>\<rparr>)
     \<and> inserts_period decoded len (max old (120 * m)) n out"
    if "0 < n" "n \<le> 119 * m" "n \<le> len - old" for n act and i :: "('a, 'b) DSPInst"
  proof -
    have h: "n < 512" "n \<le> 120 * m" "max old (120 * m) + n \<le> len" "len + n < 32768" using that assms(3,4) m(2,3) by simp_all
    show ?thesis by (rule pre_insert_some [OF assms(2) that(1) h(1) assms(6) refl h(2-4) assms(5)])
  qed
  have fr: "ts_frame inst (inst\<lparr>di_mode := a, di_statInst := b, di_activity_stats := d\<rparr>)"
    "ts_frame inst (inst\<lparr>di_msInfo := e, di_mode := a, di_statInst := b, di_activity_stats := d\<rparr>)"
    "ts_frame inst (inst\<lparr>di_mode := a\<rparr>)" "ts_frame inst (inst\<lparr>di_msInfo := e, di_mode := a\<rparr>)" for a b d e
    using assms(10) by (simp_all add: ts_frame_def)
  show ?thesis
  proof (cases "ms_msMode ms = NETEQ_SLAVE")
    case True
    show ?thesis
    proof (cases "ms_extraInfo ms = PE_EXP_FAIL")
      case f: True
      show ?thesis using True f keep [of 0 MODE_UNSUCCESS_PREEMPTIVE inst] fr fits
        by (intro exI [of _ 0] exI) (auto simp: pre_search_def pre_outcome_def)
    next
      case False
      show ?thesis using True False assms(9) [OF True] ins [of "ms_bestIndex ms" True inst] fr
        by (intro exI [of _ "ms_bestIndex ms"]) (auto simp: pre_search_def pre_outcome_def NETEQ_MAX_OUTPUT_SIZE_def)
    qed
  next
    case False
    obtain dm corr where r: "ts_correlate decoded len (di_fs inst) = Some (Inr (dm, corr))" "length corr = 110" "int16s corr"
      using ts_correlate_some [OF assms(1-3) c(2) assms(5)] by auto
    obtain k where k: "pre_corrLen len m = int k" "2 \<le> k" "k \<le> 50" "(2 * int k - 1) * m + 20 * m \<le> 4320 - len"
      using pre_corrLen_range [OF m(2,3) assms(3,4)] by auto
    have "(2 * int k - 1) * m \<le> 99 * m" using k(3) m(2) by (intro mult_right_mono) simp_all
    moreover obtain b where b: "ts_peak corr (int k) m = Some b" "20 * m \<le> b" "b \<le> (2 * int k - 1) * m + 20 * m"
      using ts_peak_some [of k corr m] k(2,3) r(2,3) m(2,3) by auto
    ultimately have b': "0 < b" "b \<le> 119 * m" "b \<le> 4320 - len" using k(4) m(2) by linarith+
    obtain a cr where d: "ts_decide (di_BGNInst inst) decoded (120 * m) dm b = Some (a, cr)"
      using ts_decide_some [of b "120 * m" decoded "di_BGNInst inst" dm] b' m(2,3) assms(3,5) by auto
    have mode: "ms_msMode ms = NETEQ_MASTER \<or> ms_msMode ms = NETEQ_MONO" using assms(8) False by auto
    define n where "n = (if a then b else s16 (min b (len - old)))"
    let ?ms = "ms\<lparr>ms_bestIndex := b\<rparr>"
    have n: "0 < n" "n \<le> b" "\<not> a \<Longrightarrow> n \<le> len - old" using b' m(2,3) assms(7) by (auto simp: n_def s16_id)
    have e: "pre_search decoded len old m (120 * m) ms inst
      = (if cr > 14746 \<and> old \<le> 120 * m \<or> \<not> a then pre_insert decoded len old (120 * m) n a (inst\<lparr>di_msInfo := Some ?ms\<rparr>)
         else ts_unchanged 0 MODE_UNSUCCESS_PREEMPTIVE decoded len (inst\<lparr>di_msInfo :=
              Some (if ms_msMode ms = NETEQ_MASTER then ?ms\<lparr>ms_extraInfo := PE_EXP_FAIL\<rparr> else ?ms)\<rparr>))"
      using mode r(1) k(1) b(1) d by (simp add: pre_search_def Let_def n_def)
    show ?thesis
    proof (cases "cr > 14746 \<and> old \<le> 120 * m \<or> \<not> a")
      case True
      then have "n \<le> len - old" using n(2,3) b'(2) assms(3) m(2) by auto
      then show ?thesis using True False e n(1,2) b' ins [of n a "inst\<lparr>di_msInfo := Some ?ms\<rparr>"] fr
        by (intro exI [of _ n]) (auto simp: pre_outcome_def NETEQ_MAX_OUTPUT_SIZE_def)
    next
      case f: False
      show ?thesis unfolding e if_not_P [OF f] keep using fr fits by (intro exI [of _ 0]) (auto simp: pre_outcome_def)
    qed
  qed
qed

lemma preemptive_some:
  assumes "ts_rate (di_fs inst) m" "int16s decoded" "239 * m \<le> len" "len \<le> 4320 - 64 * m" "len \<le> int (length decoded)"
    "0 \<le> old" "old < len - ex_overlap (di_ExpandInst inst)" "0 \<le> ex_overlap (di_ExpandInst inst)"
    "di_msInfo inst = Some ms" "ms_msMode ms \<in> {NETEQ_MONO, NETEQ_MASTER, NETEQ_SLAVE}"
    "ms_msMode ms = NETEQ_SLAVE \<Longrightarrow> 0 < ms_bestIndex ms \<and> ms_bestIndex ms \<le> 119 * m \<and> ms_bestIndex ms \<le> len - old \<and> ms_bestIndex ms \<le> 4320 - len"
  shows "\<exists>n out inst'. WebRtcNetEQ_PreEmptiveExpand inst decoded len old bgn = Some (0, Some (len + n), out, inst')
    \<and> len + n \<le> NETEQ_MAX_OUTPUT_SIZE \<and> ts_frame inst inst' \<and> pre_outcome decoded len old m bgn ms inst n out inst'"
proof -
  note m = ts_rate_facts [OF assms(1)]
  let ?i = "set_consecExp 0 inst"
  have s: "s16 (m * 120) = 120 * m" "s16 (239 * m) = 239 * m" using m(2,3) by (simp_all add: s16_id)
  have i: "di_fs ?i = di_fs inst" "di_msInfo ?i = Some ms" "ex_consecExp (di_ExpandInst ?i) = 0" "di_statInst ?i = di_statInst inst"
    "ex_overlap (di_ExpandInst ?i) = ex_overlap (di_ExpandInst inst)"
    using assms(9) by (simp_all add: set_consecExp_def)
  have frame: "ts_frame ?i i \<longleftrightarrow> ts_frame inst i" for i by (simp add: ts_frame_def set_consecExp_def)
  have ok: "\<not> (len < 239 * m \<or> old \<ge> len - ex_overlap (di_ExpandInst inst))" using assms(3,7) by simp
  show ?thesis
  proof (cases bgn)
    case True
    have "WebRtcNetEQ_PreEmptiveExpand inst decoded len old bgn = pre_bgn decoded len m ?i"
      using True ok by (simp add: WebRtcNetEQ_PreEmptiveExpand_def Let_def m(1) s i(5))
    moreover have "ts_frame inst (?i\<lparr>di_mode := a, di_statInst := b, di_activity_stats := d\<rparr>)" for a b d
      by (simp add: ts_frame_def set_consecExp_def)
    ultimately show ?thesis using pre_bgn_some [OF m(2,3) assms(3-5), of ?i] True m(2) i(4) assms(4)
      by (intro exI [of _ "64 * m"]) (simp add: pre_outcome_def NETEQ_MAX_OUTPUT_SIZE_def)
  next
    case False
    have "WebRtcNetEQ_PreEmptiveExpand inst decoded len old bgn = pre_search decoded len old m (120 * m) ms ?i"
      using False ok i(2) by (simp add: WebRtcNetEQ_PreEmptiveExpand_def Let_def m(1) s i(5))
    moreover have "old < len" using assms(7,8) by linarith
    ultimately show ?thesis
      using pre_search_some [of ?i m decoded len old ms] assms(1-6,10,11) i False unfolding frame pre_outcome_def by simp
  qed
qed

text \<open>
  C13: Playing slower is safe and honest: for every decoded signal of at least 239 samples per 8 kHz that leaves room for 8 ms, at every rate
  of the build, alone, as master or as slave with a lag that the new samples bear, the function returns, reads and shifts within bounds, and the output
  fits into the buffer of the algorithm.  It is the signal as it is, or with its first 8 ms again at the end when only background noise is
  played, or with a period inserted behind the old samples and 15 ms: what is in front of it and behind it is untouched, and in between every
  sample lies between the two it fades between.  The count of inserted samples grows by exactly what was inserted, and nothing else of
  the instance changes.
\<close>

theorem preemptive_lengthens:
  assumes "ts_rate (di_fs inst) m" "int16s decoded" "239 * m \<le> len" "len \<le> 4320 - 64 * m" "len \<le> int (length decoded)"
    "0 \<le> old" "old < len - ex_overlap (di_ExpandInst inst)" "0 \<le> ex_overlap (di_ExpandInst inst)"
    "di_msInfo inst = Some ms" "ms_msMode ms \<in> {NETEQ_MONO, NETEQ_MASTER, NETEQ_SLAVE}"
    "ms_msMode ms = NETEQ_SLAVE \<Longrightarrow> 0 < ms_bestIndex ms \<and> ms_bestIndex ms \<le> 119 * m \<and> ms_bestIndex ms \<le> len - old \<and> ms_bestIndex ms \<le> 4320 - len"
  shows "\<exists>n out inst'. WebRtcNetEQ_PreEmptiveExpand inst decoded len old bgn = Some (0, Some (len + n), out, inst')
    \<and> len + n \<le> NETEQ_MAX_OUTPUT_SIZE \<and> ts_frame inst inst' \<and> pre_outcome decoded len old m bgn ms inst n out inst'"
  by (rule preemptive_some [OF assms])

text \<open>An instance for the witnesses: freshly initialised at 8 kHz, alone or as a master.\<close>

definition ts_inst0 :: "int \<Rightarrow> (unit, unit) DSPInst" where
  "ts_inst0 md = \<lparr>di_millisecondsPerCall = 10, di_timestampsPerCall = 80, di_speechBuffer = [], di_curPosition = 560, di_endPosition = 565,
     di_endTimestamp = 0, di_videoSyncTimestamp = 0, di_fs = 8000, di_frameLen = 240, di_mode = 0, di_muteFactor = 16384,
     di_speechHistory = 309, di_speechHistoryLen = 256, di_seedInc = 1, di_seed = 777, di_concealedTS = 0, di_CNG = None,
     di_DTMFInst = \<lparr>dt_reinit = 0, dt_oldOutputLow = (0, 0), dt_oldOutputHigh = (0, 0), dt_lastDtmfSample = 0\<rparr>,
     di_VADInst = \<lparr>pv_VADState = None, pv_VADEnabled = 0, pv_VADMode = 0, pv_VADDecision = 1, pv_SIDintervalCounter = 0,
       pv_initFunction = None, pv_setmodeFunction = None, pv_VADFunction = None\<rparr>,
     di_ExpandInst = \<lparr>ex_overlap = 5, ex_consecExp = 0, ex_arFilter = 258, ex_arState = 252, ex_arGain = 0, ex_arGainScale = 0,
       ex_vFraction = 0, ex_currentVFraction = 0, ex_expVecs0 = 0, ex_expVecs1 = 126, ex_lags = [0, 0, 0], ex_maxLag = 0,
       ex_overlapVec = 560, ex_lagsDirection = 0, ex_lagsPosition = 0, ex_expandMuteFactor = 16384, ex_stopMuting = 0,
       ex_onset = 0, ex_muteSlope = 0\<rparr>,
     di_BGNInst = \<lparr>bg_energy = 2500, bg_energyMax = 0, bg_energyUpdate = 500000, bg_energyUpdateLow = 0, bg_filterState = replicate 8 0,
       bg_filter = 4096 # replicate 8 0, bg_mutefactor = 0, bg_scale = 20000, bg_scaleShift = 24, bg_initialized = 0, bg_bgnMode = 0\<rparr>,
     di_statInst = \<lparr>st_expandLength = 0, st_preemptiveLength = 0, st_accelerateLength = 0, st_addedSamples = 0,
       st_expandedVoiceSamples = 0, st_expandedNoiseSamples = 0\<rparr>,
     di_activity_stats = \<lparr>ac_preemptive_expand_bgn = 0, ac_preemptive_expand_normal = 0, ac_expand_bgn = 0, ac_expand_normal = 0,
       ac_merge_expand_bgn = 0, ac_merge_expand_normal = 0, ac_accelerate_bgn = 0, ac_accelarate_normal = 0\<rparr>,
     di_msInfo = Some \<lparr>ms_msMode = md, ms_extraInfo = 0, ms_instruction = 0, ms_distLag = 0, ms_corrLag = 0, ms_bestIndex = 0,
       ms_endTimestamp = 0, ms_samplesLeftWithOverlap = 0\<rparr>\<rparr>"

lemma accelerate_shortens_witness:
  "\<exists>n out inst'. WebRtcNetEQ_Accelerate (ts_inst0 NETEQ_MONO) (replicate 240 700) 240 False = Some (0, Some (240 - n), out, inst')
    \<and> ts_frame (ts_inst0 NETEQ_MONO) inst'
    \<and> acc_outcome (replicate 240 700) 240 1 False (the (di_msInfo (ts_inst0 NETEQ_MONO))) (ts_inst0 NETEQ_MONO) n out inst'"
  by (rule accelerate_shortens) (simp_all add: ts_inst0_def ts_rate_def int16s_def)

lemma accelerate_in_step_witness:
  "\<exists>len' out inst' ms' out2 slave'. WebRtcNetEQ_Accelerate (ts_inst0 NETEQ_MASTER) (replicate 240 700) 240 False = Some (0, Some len', out, inst')
    \<and> di_msInfo inst' = Some ms'
    \<and> WebRtcNetEQ_Accelerate ((ts_inst0 NETEQ_SLAVE)\<lparr>di_msInfo := Some (ms'\<lparr>ms_msMode := NETEQ_SLAVE\<rparr>)\<rparr>) (replicate 240 9) 240 False
      = Some (0, Some len', out2, slave')"
  by (rule accelerate_in_step [where m = 1 and ms = "the (di_msInfo (ts_inst0 NETEQ_MASTER))"])
    (simp_all add: ts_inst0_def ts_rate_def int16s_def)

lemma preemptive_lengthens_witness:
  "\<exists>n out inst'. WebRtcNetEQ_PreEmptiveExpand (ts_inst0 NETEQ_MONO) (replicate 240 700) 240 100 False = Some (0, Some (240 + n), out, inst')
    \<and> 240 + n \<le> NETEQ_MAX_OUTPUT_SIZE \<and> ts_frame (ts_inst0 NETEQ_MONO) inst'
    \<and> pre_outcome (replicate 240 700) 240 100 1 False (the (di_msInfo (ts_inst0 NETEQ_MONO))) (ts_inst0 NETEQ_MONO) n out inst'"
  by (rule preemptive_lengthens) (simp_all add: ts_inst0_def ts_rate_def int16s_def)

section \<open>Two channels out of step, and full scale\<close>

lemma silence_correlation: "ts_correlate (replicate 240 0) 240 8000 = Some (Inr (0, replicate 110 0))"
  by code_simp

lemma silence_decision:
  "pre_corrLen 240 1 = 50" "ts_peak (replicate 110 0) 50 1 = Some 20"
  "ts_decide (di_BGNInst (set_consecExp 0 (ts_inst0 md))) (replicate 240 0) 120 0 20 = Some (False, 0)"
proof -
  show "pre_corrLen 240 1 = 50" "ts_peak (replicate 110 0) 50 1 = Some 20" by code_simp+
  show "ts_decide (di_BGNInst (set_consecExp 0 (ts_inst0 md))) (replicate 240 0) 120 0 20 = Some (False, 0)"
    unfolding ts_inst0_def by code_simp
qed

text \<open>What a master inserts, and the lag it leaves for its slave.\<close>

lemma pre_master:
  assumes "ts_rate (di_fs inst) m" "int16s decoded" "239 * m \<le> len" "len \<le> 4320 - 64 * m" "len \<le> int (length decoded)" "0 \<le> old" "old < len"
    "ms_msMode ms = NETEQ_MASTER"
  shows "\<exists>b n out inst'. 0 < b \<and> b \<le> 119 * m \<and> pre_search decoded len old m (120 * m) ms inst = Some (0, Some (len + n), out, inst')
    \<and> (n = 0 \<and> di_msInfo inst' = Some (ms\<lparr>ms_bestIndex := b, ms_extraInfo := PE_EXP_FAIL\<rparr>)
      \<or> n = min b (len - old) \<and> di_msInfo inst' = Some (ms\<lparr>ms_bestIndex := b\<rparr>))"
proof -
  note m = ts_rate_facts [OF assms(1)]
  have c: "0 \<le> len" "len < 32768" using assms(3,4) m(2) by simp_all
  obtain dm corr where r: "ts_correlate decoded len (di_fs inst) = Some (Inr (dm, corr))" "length corr = 110" "int16s corr"
    using ts_correlate_some [OF assms(1-3) c(2) assms(5)] by auto
  obtain k where k: "pre_corrLen len m = int k" "2 \<le> k" "k \<le> 50" using pre_corrLen_range [OF m(2,3) assms(3,4)] by auto
  have "(2 * int k - 1) * m \<le> 99 * m" using k(3) m(2) by (intro mult_right_mono) simp_all
  moreover obtain b where b: "ts_peak corr (int k) m = Some b" "20 * m \<le> b" "b \<le> (2 * int k - 1) * m + 20 * m"
    using ts_peak_some [of k corr m] k(2,3) r(2,3) m(2,3) by auto
  ultimately have b': "0 < b" "b \<le> 119 * m" using m(2) by linarith+
  obtain a cr where d: "ts_decide (di_BGNInst inst) decoded (120 * m) dm b = Some (a, cr)"
    using ts_decide_some [of b "120 * m" decoded "di_BGNInst inst" dm] b' m(2,3) assms(3,5) by auto
  let ?ms = "ms\<lparr>ms_bestIndex := b\<rparr>"
  define n where "n = (if a then b else min b (len - old))"
  have w: "s16 (min b (len - old)) = min b (len - old)" using b' m(2,3) assms(6,7) c(2) by (simp add: s16_id)
  have e: "pre_search decoded len old m (120 * m) ms inst
    = (if cr > 14746 \<and> old \<le> 120 * m \<or> \<not> a then pre_insert decoded len old (120 * m) n a (inst\<lparr>di_msInfo := Some ?ms\<rparr>)
       else ts_unchanged 0 MODE_UNSUCCESS_PREEMPTIVE decoded len (inst\<lparr>di_msInfo := Some (?ms\<lparr>ms_extraInfo := PE_EXP_FAIL\<rparr>)\<rparr>))"
    using assms(8) r(1) k(1) b(1) d by (simp add: pre_search_def Let_def n_def w)
  show ?thesis
  proof (cases "cr > 14746 \<and> old \<le> 120 * m \<or> \<not> a")
    case True
    have n: "n = min b (len - old)" using True b'(2) assms(3) m(2) by (auto simp: n_def)
    have h: "0 < n" "n < 512" "n \<le> 120 * m" "max old (120 * m) + n \<le> len" "len + n < 32768"
      using n b' m(2,3) assms(3,4,7) by auto
    show ?thesis
      using True e b' n pre_insert_some [OF assms(2) h(1,2) assms(6) refl h(3-5) assms(5), of a "inst\<lparr>di_msInfo := Some ?ms\<rparr>"]
      by (intro exI [of _ b] exI [of _ n]) auto
  next
    case False
    show ?thesis
      using b' ts_unchanged_some [OF c assms(5), of 0 MODE_UNSUCCESS_PREEMPTIVE "inst\<lparr>di_msInfo := Some (?ms\<lparr>ms_extraInfo := PE_EXP_FAIL\<rparr>)\<rparr>"]
      unfolding e if_not_P [OF False]
      by (intro exI [of _ b] exI [of _ 0] exI [of _ "take (nat len) decoded"] exI
          [of _ "inst\<lparr>di_msInfo := Some (?ms\<lparr>ms_extraInfo := PE_EXP_FAIL\<rparr>), di_mode := MODE_UNSUCCESS_PREEMPTIVE\<rparr>"]) simp
  qed
qed

text \<open>What a slave with a lag inserts: it fails when the old samples and the lag are more than there is to read.\<close>

lemma pre_insert_reads:
  assumes "int16s decoded" "0 < n" "n < 512" "0 \<le> old" "n \<le> f" "f + n \<le> len" "old \<le> len" "len + n < 32768" "len \<le> int (length decoded)"
  shows "old + n \<le> int (length decoded) \<Longrightarrow> \<exists>r. pre_insert decoded len old f n act inst = Some (0, Some (len + n), r)"
    "int (length decoded) < old + n \<Longrightarrow> pre_insert decoded len old f n act inst = None"
proof -
  let ?p = "max old f"
  have p: "0 \<le> ?p" "n \<le> ?p" "?p \<le> len" "?p < 32768" using assms by auto
  have w: "s16 ?p = ?p" "s16 (len - ?p) = len - ?p" "s16 (len + n) = len + n" using p assms by (simp_all add: s16_id)
  {
    assume "old + n \<le> int (length decoded)"
    then have "?p + n \<le> int (length decoded)" using assms(6,9) by auto
    then obtain mid where "ts_fade decoded ?p (?p - n) n = Some mid"
      using ts_fade_some [OF assms(1,2), of ?p "?p - n"] p assms(3,9) by auto
    then show "\<exists>r. pre_insert decoded len old f n act inst = Some (0, Some (len + n), r)"
      using move16_some [of 0 ?p decoded] move16_some [of ?p "len - ?p" decoded] p assms(9) by (simp add: pre_insert_def w Let_def)
  next
    assume "int (length decoded) < old + n"
    then have "rdz decoded ?p n = None" using p assms(2,6,9) by (auto simp: rdz_def rd_def)
    then show "pre_insert decoded len old f n act inst = None" by (simp add: pre_insert_def ts_fade_def w)
  }
qed

text \<open>
  C30: Two channels that are played slower get out of step exactly when the lag is longer than the new samples.  When a slave
  is given the information of its master, it inserts the whole lag, while the master, in passive speech, inserts no more than the new
  samples; and a slave that has no samples behind the decoded signal reads outside of it exactly in that case.
\<close>

theorem preemptive_out_of_step:
  assumes "ts_rate (di_fs inst) m" "int16s decoded" "239 * m \<le> len" "len \<le> 4320 - 64 * m" "len \<le> int (length decoded)"
    "0 \<le> old" "old < len - ex_overlap (di_ExpandInst inst)" "0 \<le> ex_overlap (di_ExpandInst inst)"
    "di_msInfo inst = Some ms" "ms_msMode ms = NETEQ_MASTER" "ms_extraInfo ms \<noteq> PE_EXP_FAIL"
    "di_fs slave = di_fs inst" "ex_overlap (di_ExpandInst slave) = ex_overlap (di_ExpandInst inst)"
    "int16s decoded2" "int (length decoded2) = len" "int16s extra" "119 * m \<le> int (length extra)"
  shows "\<exists>lag n out inst' ms' out2 slave'. WebRtcNetEQ_PreEmptiveExpand inst decoded len old False = Some (0, Some (len + n), out, inst')
    \<and> di_msInfo inst' = Some ms' \<and> 0 \<le> lag \<and> lag \<le> 119 * m \<and> n = min lag (len - old)
    \<and> (let s = slave\<lparr>di_msInfo := Some (ms'\<lparr>ms_msMode := NETEQ_SLAVE\<rparr>)\<rparr> in
         WebRtcNetEQ_PreEmptiveExpand s (decoded2 @ extra) len old False = Some (0, Some (len + lag), out2, slave')
         \<and> (WebRtcNetEQ_PreEmptiveExpand s decoded2 len old False = None \<longleftrightarrow> len - old < lag))"
proof -
  note m = ts_rate_facts [OF assms(1)]
  let ?i = "set_consecExp 0 inst"
  have w: "s16 (m * 120) = 120 * m" "s16 (239 * m) = 239 * m" "s16 (120 * m) = 120 * m" using m(2,3) by (simp_all add: s16_id)
  have ok: "\<not> (len < 239 * m \<or> old \<ge> len - ex_overlap (di_ExpandInst inst))" "old < len" using assms(3,7,8) by simp_all
  have i: "di_fs ?i = di_fs inst" "di_msInfo ?i = Some ms" "ex_overlap (di_ExpandInst ?i) = ex_overlap (di_ExpandInst inst)"
    using assms(9) by (simp_all add: set_consecExp_def)
  obtain b n out inst' where b: "0 < b" "b \<le> 119 * m" and run: "pre_search decoded len old m (120 * m) ms ?i = Some (0, Some (len + n), out, inst')"
    and ms': "n = 0 \<and> di_msInfo inst' = Some (ms\<lparr>ms_bestIndex := b, ms_extraInfo := PE_EXP_FAIL\<rparr>)
      \<or> n = min b (len - old) \<and> di_msInfo inst' = Some (ms\<lparr>ms_bestIndex := b\<rparr>)"
    using pre_master [of ?i m decoded len old ms] assms(1-6,10) ok(2) i(1) by auto
  have master: "WebRtcNetEQ_PreEmptiveExpand inst decoded len old False = Some (0, Some (len + n), out, inst')"
    using run ok i by (simp add: WebRtcNetEQ_PreEmptiveExpand_def Let_def m(1) w)
  define s where "s ms' = slave\<lparr>di_msInfo := Some (ms'\<lparr>ms_msMode := NETEQ_SLAVE\<rparr>)\<rparr>" for ms'
  have call: "WebRtcNetEQ_PreEmptiveExpand (s ms') d len old False
      = (if ms_extraInfo ms' \<noteq> PE_EXP_FAIL then pre_insert d len old (120 * m) (ms_bestIndex ms') True (set_consecExp 0 (s ms'))
         else ts_unchanged 0 MODE_UNSUCCESS_PREEMPTIVE d len (set_consecExp 0 (s ms')))" for d ms'
    using ok m(1) assms(12,13) by (simp add: WebRtcNetEQ_PreEmptiveExpand_def Let_def pre_search_def s_def set_consecExp_def w)
  have c: "0 \<le> len" "len < 32768" using assms(3,4) m(2) by simp_all
  from ms' show ?thesis
  proof (elim disjE conjE)
    let ?ms = "ms\<lparr>ms_bestIndex := b, ms_extraInfo := PE_EXP_FAIL\<rparr>"
    assume a: "n = 0" "di_msInfo inst' = Some ?ms"
    have "WebRtcNetEQ_PreEmptiveExpand (s ?ms) d len old False
        = Some (0, Some len, take (nat len) d, (set_consecExp 0 (s ?ms))\<lparr>di_mode := MODE_UNSUCCESS_PREEMPTIVE\<rparr>)" if "len \<le> int (length d)" for d
      using ts_unchanged_some [OF c that] by (simp add: call)
    then show ?thesis using master a ok(2) assms(15) m(2) unfolding Let_def s_def
      by (intro exI [of _ 0] exI [of _ out] exI [of _ inst'] exI [of _ ?ms] exI [of _ "take (nat len) (decoded2 @ extra)"]
          exI [of _ "(set_consecExp 0 (slave\<lparr>di_msInfo := Some (?ms\<lparr>ms_msMode := NETEQ_SLAVE\<rparr>)\<rparr>))\<lparr>di_mode := MODE_UNSUCCESS_PREEMPTIVE\<rparr>"]) simp
  next
    let ?ms = "ms\<lparr>ms_bestIndex := b\<rparr>"
    assume a: "n = min b (len - old)" "di_msInfo inst' = Some ?ms"
    have h: "b < 512" "b \<le> 120 * m" "120 * m + b \<le> len" "old \<le> len" "len + b < 32768" using b m(2,3) assms(3,4) ok(2) by simp_all
    have l: "int16s (decoded2 @ extra)" "len \<le> int (length (decoded2 @ extra))" "old + b \<le> int (length (decoded2 @ extra))" "len \<le> int (length decoded2)"
      using assms(14-17) b(2) ok(2) by simp_all
    note reads = pre_insert_reads [OF _ b(1) h(1) assms(6) h(2-5), of _ True "set_consecExp 0 (s ?ms)"]
    obtain r where r: "WebRtcNetEQ_PreEmptiveExpand (s ?ms) (decoded2 @ extra) len old False = Some (0, Some (len + b), r)"
      using reads(1) [OF l(1-3)] assms(11) by (auto simp: call)
    moreover have "WebRtcNetEQ_PreEmptiveExpand (s ?ms) decoded2 len old False = None \<longleftrightarrow> len - old < b"
      using reads [OF assms(14) l(4)] assms(11,15) by (cases "len < old + b") (auto simp: call)
    ultimately show ?thesis using master a b unfolding s_def Let_def
      by (intro exI [of _ b] exI [of _ n] exI [of _ out] exI [of _ inst'] exI [of _ ?ms] exI [of _ "fst r"] exI [of _ "snd r"]) simp
  qed
qed

text \<open>
  The case exists: of 240 samples of silence 230 are old; the master inserts ten, and passes on a lag of 20.
\<close>

lemma silence_out_of_step:
  "\<exists>out inst' ms' out2 slave'. WebRtcNetEQ_PreEmptiveExpand (ts_inst0 NETEQ_MASTER) (replicate 240 0) 240 230 False = Some (0, Some 250, out, inst')
    \<and> di_msInfo inst' = Some ms'
    \<and> (let slave = (ts_inst0 NETEQ_SLAVE)\<lparr>di_msInfo := Some (ms'\<lparr>ms_msMode := NETEQ_SLAVE\<rparr>)\<rparr> in
         WebRtcNetEQ_PreEmptiveExpand slave (replicate 240 0) 240 230 False = None
         \<and> WebRtcNetEQ_PreEmptiveExpand slave (replicate 250 0) 240 230 False = Some (0, Some 260, out2, slave'))"
proof -
  let ?ms = "\<lambda>md b. \<lparr>ms_msMode = md, ms_extraInfo = 0, ms_instruction = 0, ms_distLag = 0, ms_corrLag = 0, ms_bestIndex = b,
       ms_endTimestamp = 0, ms_samplesLeftWithOverlap = 0\<rparr>"
  let ?i = "(set_consecExp 0 (ts_inst0 NETEQ_MASTER))\<lparr>di_msInfo := Some (?ms NETEQ_MASTER 20)\<rparr>"
  let ?s = "(ts_inst0 NETEQ_SLAVE)\<lparr>di_msInfo := Some (?ms NETEQ_SLAVE 20)\<rparr>"
  have m: "di_fs (ts_inst0 md) = 8000" "di_msInfo (set_consecExp 0 (ts_inst0 md)) = Some (?ms md 0)"
    "ex_overlap (di_ExpandInst (set_consecExp 0 (ts_inst0 md))) = 5" "di_fs (set_consecExp 0 (ts_inst0 md)) = 8000"
    "ex_overlap (di_ExpandInst (set_consecExp 0 ?s)) = 5" "di_msInfo (set_consecExp 0 ?s) = Some (?ms NETEQ_SLAVE 20)" "di_fs ?s = 8000" for md
    by (simp_all add: ts_inst0_def set_consecExp_def)
  have f: "WebRtcNetEQ_CalcFsMult 8000 = 1" by (simp add: WebRtcNetEQ_CalcFsMult_def)
  have e: "WebRtcNetEQ_PreEmptiveExpand (ts_inst0 NETEQ_MASTER) (replicate 240 0) 240 230 False = pre_insert (replicate 240 0) 240 230 120 10 False ?i"
    by (simp add: WebRtcNetEQ_PreEmptiveExpand_def pre_search_def m f silence_correlation silence_decision Let_def s16_id)
  have s: "WebRtcNetEQ_PreEmptiveExpand ?s d 240 230 False = pre_insert d 240 230 120 20 True (set_consecExp 0 ?s)" for d
    by (simp add: WebRtcNetEQ_PreEmptiveExpand_def pre_search_def m f Let_def s16_id)
  have "int16s (replicate 240 0)" by (simp add: int16s_def)
  then obtain out where o: "pre_insert (replicate 240 0) 240 230 120 10 False ?i = Some (0, Some 250, out, ?i\<lparr>
       di_mode := MODE_LOWEN_PREEMPTIVE,
       di_statInst := (di_statInst ?i)\<lparr>st_preemptiveLength := u32 (st_preemptiveLength (di_statInst ?i) + 10)\<rparr>,
       di_activity_stats := (di_activity_stats ?i)\<lparr>ac_preemptive_expand_normal := s32 (ac_preemptive_expand_normal (di_activity_stats ?i) + 10)\<rparr>\<rparr>)"
    using pre_insert_some [of "replicate 240 0" 10 230 230 120 240 False ?i] by auto
  have n: "pre_insert (replicate 240 0) 240 230 120 20 True (set_consecExp 0 ?s) = None"
    by (simp add: pre_insert_def ts_fade_def rdz_def rd_def s16_id Let_def)
  have "int16s (replicate 250 0)" by (simp add: int16s_def)
  then obtain mid where "ts_fade (replicate 250 0) 230 210 20 = Some mid"
    using ts_fade_some [of "replicate 250 0" 20 230 210] by auto
  then obtain r where "pre_insert (replicate 250 0) 240 230 120 20 True (set_consecExp 0 ?s) = Some (0, Some 260, r)"
    by (simp add: pre_insert_def move16_some s16_id)
  with e s n o show ?thesis by (cases r) (simp add: Let_def)
qed

lemma preemptive_out_of_step_witness:
  "\<exists>lag n out inst' ms' out2 slave'. WebRtcNetEQ_PreEmptiveExpand (ts_inst0 NETEQ_MASTER) (replicate 240 0) 240 230 False = Some (0, Some (240 + n), out, inst')
    \<and> di_msInfo inst' = Some ms' \<and> 0 \<le> lag \<and> lag \<le> 119 * 1 \<and> n = min lag (240 - 230)
    \<and> (let s = (ts_inst0 NETEQ_SLAVE)\<lparr>di_msInfo := Some (ms'\<lparr>ms_msMode := NETEQ_SLAVE\<rparr>)\<rparr> in
         WebRtcNetEQ_PreEmptiveExpand s (replicate 240 9 @ replicate 119 (- 3)) 240 230 False = Some (0, Some (240 + lag), out2, slave')
         \<and> (WebRtcNetEQ_PreEmptiveExpand s (replicate 240 9) 240 230 False = None \<longleftrightarrow> 240 - 230 < lag))"
  by (rule preemptive_out_of_step [where ms = "the (di_msInfo (ts_inst0 NETEQ_MASTER))"])
    (simp_all add: ts_inst0_def ts_rate_def int16s_def)

text \<open>A negative number stays negative when it is shifted up by no more than its norm.\<close>

lemma norm_w32_neg:
  assumes "a < 0" "-2147483648 \<le> a" "k \<le> WebRtcSpl_NormW32 a"
  shows "s32 (a * 2 ^ k) < 0"
proof -
  let ?n = "WebRtcSpl_NormW32 a"
  have "-2147483648 \<le> a * 2 ^ ?n"
  proof (cases "a = -1")
    case True
    have "(2 :: int) ^ ?n \<le> 2 ^ 31" using norm_w32_le [of a] by (intro power_increasing) simp_all
    then show ?thesis using True by simp
  next
    case False
    then have p: "0 < NOT a" "NOT a < 2147483648" using assms(1,2) by (simp_all add: not_int_def)
    then have "?n = WebRtcSpl_NormW32 (NOT a)" using assms(1) by (simp add: WebRtcSpl_NormW32_def)
    then have "(- a - 1) * 2 ^ ?n < 2147483648" using norm_w32_pos(2) [OF p] by (simp add: not_int_def)
    also have "(2147483648 :: int) = 2 ^ (31 - ?n) * 2 ^ ?n" using norm_w32_le [of a] by (simp flip: power_add)
    finally have "- a \<le> 2 ^ (31 - ?n)" by simp
    then have "- a * 2 ^ ?n \<le> 2 ^ (31 - ?n) * 2 ^ ?n" by (intro mult_right_mono) simp_all
    also have "\<dots> = 2147483648" using norm_w32_le [of a] by (simp flip: power_add)
    finally show ?thesis by simp
  qed
  moreover have "(2 :: int) ^ k \<le> 2 ^ ?n" using assms(3) by (intro power_increasing) simp_all
  then have "a * 2 ^ ?n \<le> a * 2 ^ k" using assms(1) by (intro mult_left_mono_neg) simp_all
  ultimately have "-2147483648 \<le> a * 2 ^ k" by linarith
  moreover have "a * 2 ^ k < 0" using assms(1) by (simp add: mult_neg_pos)
  ultimately show ?thesis by (simp add: s32_id)
qed

lemma shr_neg:
  assumes "x < 0" shows "x \<le> shr x k" "shr x k < 0"
  using zdiv_mono2_neg [of x 1 "2 ^ k"] assms by (simp_all add: drop_bit_eq_div div_neg_pos_less0)

lemma thr_nonneg:
  assumes "0 \<le> thr" "thr < 2147483648"
  shows "0 \<le> s16 (shr thr (nat (max 0 (s16 (16 - int (WebRtcSpl_NormW32 thr))))))"
proof -
  let ?n = "WebRtcSpl_NormW32 thr"
  define j where "j = nat (max 0 (16 - int ?n))"
  have j: "16 - ?n \<le> j" by (simp add: j_def)
  have "thr div 2 ^ j < 32768"
  proof (cases "thr = 0")
    case False
    have "thr * 2 ^ ?n < 2 ^ 31" using norm_w32_pos(2) [of thr] False assms by simp
    then have "thr * 2 ^ ?n < 2 ^ 15 * 2 ^ 16" by simp
    also have "(2 :: int) ^ 15 * 2 ^ 16 \<le> 2 ^ 15 * 2 ^ (j + ?n)" using j by (intro mult_left_mono power_increasing) simp_all
    finally have "thr < 2 ^ 15 * 2 ^ j" by (simp add: power_add)
    moreover have "thr div 2 ^ j * 2 ^ j \<le> thr" by (simp add: minus_mod_eq_div_mult [symmetric])
    ultimately have "thr div 2 ^ j * 2 ^ j < 2 ^ 15 * 2 ^ j" by linarith
    then show ?thesis by simp
  qed simp
  moreover have "0 \<le> thr div 2 ^ j" using assms(1) by (simp add: pos_imp_zdiv_nonneg_iff)
  moreover have "s16 (16 - int ?n) = 16 - int ?n" using norm_w32_le [of thr] by (simp add: s16_id)
  ultimately show ?thesis by (simp add: drop_bit_eq_div j_def [symmetric] s16_id)
qed

text \<open>A sum of energies that overflows is below every threshold.\<close>

lemma ts_passive_overflow:
  assumes "s32 (en1 + en2) < 0" "0 \<le> scal" "scal \<le> 9" "0 < b" "bg_initialized bgn = 1 \<Longrightarrow> 0 \<le> bg_energy bgn \<and> bg_energy bgn < 2147483648"
  shows "ts_passive bgn b scal en1 en2 = Some True"
proof -
  define thr where "thr = (if bg_initialized bgn = 1 then bg_energy bgn else 75000)"
  define sh where "sh = max 0 (s16 (16 - int (WebRtcSpl_NormW32 thr)))"
  define x where "x = shr (shr (s32 (en1 + en2)) 4) (nat sh)"
  define t where "t = b * s16 (shr thr (nat sh))"
  have thr: "0 \<le> thr" "thr < 2147483648" using assms(5) by (auto simp: thr_def)
  have sh: "0 \<le> sh" "sh < 32" using norm_scale [of thr] by (simp_all add: sh_def)
  have t: "0 \<le> t" using thr_nonneg [OF thr] assms(4) by (simp add: t_def sh_def)
  have "-2147483648 \<le> s32 (en1 + en2)" using s32_range [of "en1 + en2"] by simp
  then have x: "x < 0" "-2147483648 \<le> x" 
    using assms(1) shr_neg [of "s32 (en1 + en2)" 4] shr_neg [of "shr (s32 (en1 + en2)) 4" "nat sh"] unfolding x_def by linarith+
  have n: "int (WebRtcSpl_NormW32 y) < 32" for y using norm_w32_le [of y] by simp
  have neg: "s32 (shl x k) \<le> shr t j" if "k \<le> WebRtcSpl_NormW32 x" for k j
    using norm_w32_neg [OF x that] t by (simp add: push_bit_eq_mult drop_bit_eq_div pos_imp_zdiv_nonneg_iff less_imp_le order_trans [of _ 0])
  from neg [of _ 0] show ?thesis
    using neg assms(2,3) unfolding ts_passive_def Let_def thr_def [symmetric] sh_def [symmetric]
    by (simp del: drop_bit_drop_bit add: nat_le_iff shr_chk_some [OF sh] x_def [symmetric] t_def [symmetric] shl_chk_some [OF _ n] shl_chk_some shr_chk_some push_bit_eq_mult not_less)
qed

lemma full_scale_energy:
  assumes "int (length v) = b" "\<forall>x \<in> set v. \<bar>x\<bar> = 32767" "b < 128"
  shows "WebRtcSpl_DotProductWithScale v v b 6 = Some (b * 16776192)"
proof -
  have sq: "x * x = 1073676289" if "x \<in> set v" for x
  proof -
    have "x = 32767 \<or> x = -32767" using assms(2) that by fastforce
    then show ?thesis by auto
  qed
  have z: "(c, x) \<in> set (zip v v) \<Longrightarrow> c = x \<and> x \<in> set v" for c x by (auto simp: zip_same)
  have "mac_shr 6 0 (zip v v) = (\<Sum>(x, y) \<leftarrow> zip v v. shr (x * y) 6)"
  proof (rule mac_shr_exact [where M = 1073676289])
    show "(c, x) \<in> set (zip v v) \<Longrightarrow> \<bar>c * x\<bar> \<le> 1073676289" for c x using z [of c x] sq by auto
    show "int (length (zip v v)) * (1073676289 div 2 ^ 6 + 1) < 2147483648" using assms(1,3) by simp
  qed
  also have "\<dots> = (\<Sum>p \<leftarrow> zip v v. 16776192)"
  proof (intro arg_cong [of _ _ sum_list] map_cong refl)
    fix p assume "p \<in> set (zip v v)"
    then have "fst p * snd p = 1073676289" using z [of "fst p" "snd p"] sq [of "fst p"] by simp
    then show "(case p of (x, y) \<Rightarrow> shr (x * y) 6) = 16776192" by (simp add: case_prod_beta drop_bit_eq_div)
  qed
  also have "\<dots> = b * 16776192" using assms(1) by (simp add: sum_list_const_mult sum_list_triv)
  finally show ?thesis using dot_product_mac [of v v 6] assms(1) by simp
qed

text \<open>
  C29: The loudest signal passes for silence: when every sample of the decoded signal is at full scale and the lag is from 65 to 119 samples at 8 kHz,
  the sum of the two energies does not fit into 32 bits, and the decision is that there is no active speech, whatever the
  energy of the background noise is.
\<close>

theorem full_scale_is_passive:
  assumes "\<forall>x \<in> set decoded. \<bar>x\<bar> = 32767" "240 \<le> length decoded" "65 \<le> lag" "lag \<le> 119"
    "bg_initialized bgn = 1 \<Longrightarrow> 0 \<le> bg_energy bgn \<and> bg_energy bgn < 2147483648"
  shows "ts_decide bgn decoded 120 32767 lag = Some (False, 0)"
proof -
  define v1 where "v1 = slice (nat (120 - lag)) (nat lag) decoded"
  define v2 where "v2 = slice 120 (nat lag) decoded"
  have l: "int (length v1) = lag" "int (length v2) = lag" using assms(2-4) by (simp_all add: v1_def v2_def slice_def)
  have f: "\<forall>x \<in> set v1. \<bar>x\<bar> = 32767" "\<forall>x \<in> set v2. \<bar>x\<bar> = 32767"
    using assms(1) by (auto simp: v1_def v2_def slice_def dest: in_set_takeD in_set_dropD)
  have r: "rdz decoded (120 - lag) lag = Some v1" "rdz decoded 120 lag = Some v2"
    using rdz_slice [of "120 - lag" "nat lag" decoded] rdz_slice [of 120 "nat lag" decoded] assms(2-4) by (simp_all add: v1_def v2_def)
  have b: "lag < 128" "0 < lag" using assms(3,4) by simp_all
  have "WebRtcSpl_NormW32 lag = 24"
  proof -
    have "lag * 2 ^ WebRtcSpl_NormW32 lag < 2147483648" "1073741824 \<le> lag * 2 ^ WebRtcSpl_NormW32 lag"
      using norm_w32_pos [of lag] assms(3,4) by simp_all
    moreover have "24 \<le> WebRtcSpl_NormW32 lag" using norm_w32_ge [of lag 7] assms(3,4) by simp
    moreover have "(2 :: int) ^ 25 \<le> 2 ^ WebRtcSpl_NormW32 lag" if "25 \<le> WebRtcSpl_NormW32 lag" using that by (intro power_increasing) simp_all
    then have "65 * 2 ^ 25 \<le> lag * 2 ^ WebRtcSpl_NormW32 lag" if "25 \<le> WebRtcSpl_NormW32 lag" using that assms(3) by (intro mult_mono) simp_all
    ultimately show ?thesis by (cases "25 \<le> WebRtcSpl_NormW32 lag") simp_all
  qed
  moreover have "WebRtcSpl_NormW32 (32767 * 32767) = 1" by code_simp
  ultimately have k: "ts_dot_scale 32767 lag = 6" by (simp add: ts_dot_scale_def Let_def s16_id)
  have "s32 (lag * 16776192 + lag * 16776192) < 0" using assms(3,4) by (simp add: s32_cases u32_def)
  then have p: "ts_passive bgn lag 6 (lag * 16776192) (lag * 16776192) = Some True"
    using assms(5) b(2) by (intro ts_passive_overflow) simp_all
  have "length v1 = nat lag" "length v2 = nat lag" using l by simp_all
  then obtain cc where "WebRtcSpl_DotProductWithScale v1 v2 lag 6 = Some cc" using dot_product_some [of v1 lag v2 6] b by auto
  then show ?thesis using r k p full_scale_energy [OF l(1) f(1) b(1)] full_scale_energy [OF l(2) f(2) b(1)]
    by (simp add: ts_decide_def)
qed

lemma full_scale_is_passive_witness:
  "ts_decide (di_BGNInst (ts_inst0 NETEQ_MONO)) (concat (replicate 3 (replicate 40 32767 @ replicate 40 (-32767)))) 120 32767 80 = Some (False, 0)"
  by (rule full_scale_is_passive) (simp_all add: ts_inst0_def numeral_3_eq_3)

end
