(* ===== verification/Spl_Lpc.thy ===== *)
theory Spl_Lpc
  imports Spl_Vector
begin

text \<open>
  Linear prediction (\<open>common_audio/signal_processing\<close>: \<open>auto_correlation.c\<close>, \<open>levinson_durbin.c\<close>, \<open>auto_corr_to_refl_coef.c\<close>,
  \<open>refl_coef_to_lpc.c\<close>, \<open>lpc_to_refl_coef.c\<close>), the window (\<open>get_hanning_window.c\<close>), element-wise operations
  (\<open>ilbc_specific_functions.c\<close>) and the square root by a Taylor series (\<open>spl_sqrt.c\<close>, \<open>sqrt_of_one_minus_x_squared.c\<close>).
  The arguments are values of their types in C, so lengths and orders declared as 16-bit numbers are below 32768.
\<close>

section \<open>Element-wise operations\<close>

definition WebRtcSpl_ReverseOrderMultArrayElements :: "int list \<Rightarrow> int list \<Rightarrow> int \<Rightarrow> int \<Rightarrow> int \<Rightarrow> int list option" where
  "WebRtcSpl_ReverseOrderMultArrayElements inp win p vector_length right_shifts = do {
     xs \<leftarrow> rdz inp 0 vector_length;
     ws \<leftarrow> rdz win (p - (vector_length - 1)) vector_length;
     shift_all (\<lambda>k (x, w). s16 (shr (x * w) k)) right_shifts (zip xs (rev ws)) }"

definition WebRtcSpl_ElementwiseVectorMult :: "int list \<Rightarrow> int list \<Rightarrow> int \<Rightarrow> int \<Rightarrow> int list option" where
  "WebRtcSpl_ElementwiseVectorMult inp win vector_length right_shifts = do {
     xs \<leftarrow> rdz inp 0 vector_length; ws \<leftarrow> rdz win 0 vector_length;
     shift_all (\<lambda>k (x, w). s16 (shr (x * w) k)) right_shifts (zip xs ws) }"

definition WebRtcSpl_AddVectorsAndShift :: "int list \<Rightarrow> int list \<Rightarrow> int \<Rightarrow> int \<Rightarrow> int list option" where
  "WebRtcSpl_AddVectorsAndShift in1 in2 vector_length right_shifts = do {
     xs \<leftarrow> rdz in1 0 vector_length; ys \<leftarrow> rdz in2 0 vector_length;
     shift_all (\<lambda>k (x, y). s16 (shr (x + y) k)) right_shifts (zip xs ys) }"

definition WebRtcSpl_AddAffineVectorToVector :: "int list \<Rightarrow> int list \<Rightarrow> int \<Rightarrow> int \<Rightarrow> int \<Rightarrow> int \<Rightarrow> int list option" where
  "WebRtcSpl_AddAffineVectorToVector out inp gain add_constant right_shifts vector_length = do {
     xs \<leftarrow> rdz inp 0 vector_length; os \<leftarrow> rdz out 0 vector_length;
     shift_all (\<lambda>k (ob, x). s16 (ob + s16 (shr (s32 (x * gain + add_constant)) k))) right_shifts (zip os xs) }"

definition WebRtcSpl_AffineTransformVector :: "int list \<Rightarrow> int \<Rightarrow> int \<Rightarrow> int \<Rightarrow> int \<Rightarrow> int list option" where
  "WebRtcSpl_AffineTransformVector inp gain add_constant right_shifts vector_length = do {
     xs \<leftarrow> rdz inp 0 vector_length;
     shift_all (\<lambda>k x. s16 (shr (s32 (x * gain + add_constant)) k)) right_shifts xs }"

section \<open>Autocorrelation\<close>

text \<open>The result is the return value, the correlations for the lags from 0 on, and the scale.\<close>

definition autocorr_scaling :: "int \<Rightarrow> int \<Rightarrow> int" where
  "autocorr_scaling smax in_vector_length =
     (if smax = 0 then 0
      else let nbits = int (WebRtcSpl_GetSizeInBits (u32 in_vector_length)); t = int (WebRtcSpl_NormW32 (smax * smax))
           in if t > nbits then 0 else nbits - t)"

definition WebRtcSpl_AutoCorrelation :: "int list \<Rightarrow> int \<Rightarrow> int \<Rightarrow> (int \<times> int list \<times> int) option" where
  "WebRtcSpl_AutoCorrelation in_vector in_vector_length order =
     (if order > in_vector_length then Some (-1, [], 0)
      else let order = (if order < 0 then in_vector_length else order) in do {
        smax \<leftarrow> map_option s16 (WebRtcSpl_MaxAbsValueW16C (Some in_vector) in_vector_length);
        xs \<leftarrow> rdz in_vector 0 in_vector_length;
        let scaling = autocorr_scaling smax in_vector_length;
            R = map (\<lambda>i. dot_by_four (nat scaling) 0 (zip xs (drop i xs))) [0..<nat (order + 1)] in
        if 0 \<le> scaling \<and> scaling < 32 then Some (order + 1, R, scaling) else None })"

section \<open>Levinson and Durbin\<close>

text \<open>A number of 32 bits as a high and a low part, the product of two, and the absolute value.\<close>

definition split_hl :: "int \<Rightarrow> int \<times> int" where
  "split_hl x = (hi_part x, low_part x)"

definition join_hl :: "int \<times> int \<Rightarrow> int" where
  "join_hl p = s32 (s32 (shl (fst p) 16) + s32 (shl (snd p) 1))"

definition mul_hl :: "int \<times> int \<Rightarrow> int \<times> int \<Rightarrow> int" where
  "mul_hl p q = s32 (shl (s32 (fst p * fst q + shr (fst p * snd q) 15 + shr (snd p * fst q) 15)) 1)"

definition abs_w32 :: "int \<Rightarrow> int" where
  "abs_w32 x = (if x \<ge> 0 then x else s32 (- x))"

text \<open>\<open>1 - K * K\<close> in Q31.\<close>

definition one_minus_sq :: "int \<times> int \<Rightarrow> int" where
  "one_minus_sq K = s32 (0x7fffffff - abs_w32 (s32 (shl (s32 (shr (fst K * snd K) 14 + fst K * fst K)) 1)))"

text \<open>The reflection coefficient for the prediction error so far, in Q31; it is saturated where the shift would overflow, and zero is zero whatever the count of the shift.\<close>

definition lev_reflect :: "int \<Rightarrow> int \<times> int \<Rightarrow> int \<Rightarrow> int" where
  "lev_reflect t Alpha Alpha_exp =
     (let q = WebRtcSpl_DivW32HiLow (abs_w32 t) (fst Alpha) (snd Alpha);
          q = (if t > 0 then s32 (- q) else q)
      in if q = 0 then 0
         else if Alpha_exp \<le> int (WebRtcSpl_NormW32 q) then s32 (shl q (nat Alpha_exp))
         else if q > 0 then 0x7fffffff else -0x80000000)"

text \<open>The correlation with the coefficients so far.\<close>

definition lev_sum :: "(int \<times> int) list \<Rightarrow> (int \<times> int) list \<Rightarrow> int" where
  "lev_sum R A = foldl (\<lambda>s (r, a). s32 (s + s32 (s32 (shl (fst r * fst a) 1)
     + shl (shr (fst r * snd a) 15 + shr (snd r * fst a) 15) 1))) 0 (zip R (rev A))"

definition lev_update :: "int \<times> int \<Rightarrow> (int \<times> int) list \<Rightarrow> (int \<times> int) list" where
  "lev_update K A = map2 (\<lambda>a b. split_hl (s32 (join_hl a + mul_hl K b))) A (rev A)"

text \<open>
  The iterations for the correlations \<open>Ri\<close> of the lags to come; \<open>R\<close> are those of the lags from 1 on, \<open>A\<close> the coefficients so far.  The
  result is the coefficients, or nothing for an unstable filter, and the reflection coefficients.
\<close>

fun lev_loop :: "(int \<times> int) list \<Rightarrow> (int \<times> int) list \<Rightarrow> (int \<times> int) list \<Rightarrow> int \<times> int \<Rightarrow> int \<Rightarrow> (int \<times> int) list option \<times> int list" where
  "lev_loop R [] A Alpha Alpha_exp = (Some A, [])"
| "lev_loop R (ri # Ri) A Alpha Alpha_exp =
     (let t = s32 (s32 (shl (lev_sum R A) 4) + join_hl ri);
          q = lev_reflect t Alpha Alpha_exp; K = split_hl q in
      if \<bar>fst K\<bar> > 32750 then (None, [fst K])
      else
        let A = lev_update K A @ [split_hl (shr q 4)];
            a = mul_hl Alpha (split_hl (one_minus_sq K)); norm = WebRtcSpl_NormW32 a;
            (res, Ks) = lev_loop R Ri A (split_hl (s32 (shl a norm))) (Alpha_exp + int norm)
        in (res, fst K # Ks))"

text \<open>The result is the return value, the coefficients in Q12 if they are written, and the reflection coefficients that are.\<close>

definition WebRtcSpl_LevinsonDurbin :: "int list \<Rightarrow> int \<Rightarrow> (int \<times> int list \<times> int list) option" where
  "WebRtcSpl_LevinsonDurbin R order =
     (if order < 1 \<or> order > 20 then None
      else do {
        Rs \<leftarrow> rdz R 0 (order + 1);
        let norm = WebRtcSpl_NormW32 (hd Rs); Rs = map (\<lambda>r. split_hl (s32 (shl r norm))) Rs;
            t = join_hl (Rs ! 1);
            q = WebRtcSpl_DivW32HiLow (abs_w32 t) (fst (hd Rs)) (snd (hd Rs));
            q = (if t > 0 then s32 (- q) else q); K = split_hl q;
            a = mul_hl (hd Rs) (split_hl (one_minus_sq K)); Alpha_exp = WebRtcSpl_NormW32 a;
            (res, Ks) = lev_loop (tl Rs) (drop 2 Rs) [split_hl (shr q 4)] (split_hl (s32 (shl a Alpha_exp))) (int Alpha_exp) in
        Some (case res of
            None \<Rightarrow> (0, [], fst K # Ks)
          | Some A \<Rightarrow> (1, 4096 # map (\<lambda>p. s16 (shr (s32 (s32 (shl (join_hl p) 1) + 32768)) 16)) A, fst K # Ks)) })"

section \<open>Reflection coefficients\<close>

text \<open>The division of \<open>tmp\<close> by \<open>den\<close> in Q15, bit by bit.\<close>

fun refl_div :: "nat \<Rightarrow> int \<Rightarrow> int \<Rightarrow> int \<Rightarrow> int" where
  "refl_div 0 L_num L_den K = K"
| "refl_div (Suc n) L_num L_den K =
     (let K = s16 (shl K 1); L_num = s32 (shl L_num 1)
      in if L_num \<ge> L_den then refl_div n (s32 (L_num - L_den)) L_den (s16 (K + 1)) else refl_div n L_num L_den K)"

definition round_q15 :: "int \<Rightarrow> int \<Rightarrow> int" where
  "round_q15 x K = s16 (shr (x * K + 16384) 15)"

text \<open>The coefficient and the vectors after it, and the recursion of Schur for \<open>n\<close> more coefficients; \<open>W\<close> is from index 1 on.\<close>

definition schur_coef :: "int \<Rightarrow> int \<Rightarrow> int" where
  "schur_coef p0 p1 =
     (let tmp = s16 (if p1 \<ge> 0 then p1 else - p1);
          K = (if tmp = 0 then 0 else refl_div 15 tmp p0 0)
      in if tmp \<noteq> 0 \<and> p1 > 0 then s16 (- K) else K)"

definition schur_P :: "int \<Rightarrow> int list \<Rightarrow> int list \<Rightarrow> int list" where
  "schur_P K P W =
     WebRtcSpl_AddSatW16 (hd P) (round_q15 (P ! 1) K) # map2 (\<lambda>p w. WebRtcSpl_AddSatW16 p (round_q15 w K)) (drop 2 P) W"

definition schur_W :: "int \<Rightarrow> int list \<Rightarrow> int list \<Rightarrow> int list" where
  "schur_W K P W = map2 (\<lambda>w p. WebRtcSpl_AddSatW16 w (round_q15 p K)) W (drop 2 P)"

primrec schur :: "nat \<Rightarrow> int list \<Rightarrow> int list \<Rightarrow> int list" where
  "schur 0 P W = []"
| "schur (Suc n) P W =
     (if hd P < s16 (if P ! 1 \<ge> 0 then P ! 1 else - (P ! 1)) then replicate (Suc n) 0
      else let K = schur_coef (hd P) (P ! 1) in K # schur n (schur_P K P W) (schur_W K P W))"

definition WebRtcSpl_AutoCorrToReflCoef :: "int list \<Rightarrow> int \<Rightarrow> int list option" where
  "WebRtcSpl_AutoCorrToReflCoef R use_order =
     (if use_order > 13 then None
      else do {
        Rs \<leftarrow> rdz R 0 (max 0 use_order + 1);
        let tmp = WebRtcSpl_NormW32 (hd Rs); ACF = map (\<lambda>r. s16 (shr (s32 (shl r tmp)) 16)) Rs in
        Some (schur (nat use_order) ACF (tl ACF)) })"

definition lpc_step :: "int list \<Rightarrow> int \<Rightarrow> int list" where
  "lpc_step a k = map2 (\<lambda>x y. s16 (x + s16 (shr (y * k) 15))) a (rev a) @ [shr k 3]"

definition WebRtcSpl_ReflCoefToLpc :: "int list \<Rightarrow> int \<Rightarrow> int list option" where
  "WebRtcSpl_ReflCoefToLpc k use_order =
     (if use_order > 14 then None
      else do {
        ks \<leftarrow> rdz k 0 (max 1 use_order);
        Some (4096 # foldl lpc_step [shr (hd ks) 3] (tl ks)) })"

text \<open>The coefficients below \<open>k16[m]\<close>, and what is left in the array of coefficients.\<close>

function lpc_refl :: "int \<Rightarrow> int list \<Rightarrow> int list \<times> int list" where
  "lpc_refl km as =
     (if as = [] then ([], [])
      else let den = s16 (shr (s32 (1073741823 - km * km)) 15);
               tmp32 = map2 (\<lambda>a b. WebRtcSpl_DivW32W16 (s32 (s32 (shl a 16) - s32 (shl (km * b) 1))) den) as (rev as);
               as' = map (\<lambda>t. s16 (shr t 1)) (butlast tmp32);
               k = s16 (shl (max (-8191) (min 8191 (last tmp32))) 2);
               (r, ks) = lpc_refl k as'
           in (r @ [last as], ks @ [k]))"
  by pat_completeness auto
termination by (relation "measure (length \<circ> snd)") auto

text \<open>The result is the array of coefficients and the reflection coefficients.\<close>

definition WebRtcSpl_LpcToReflCoef :: "int list \<Rightarrow> int \<Rightarrow> (int list \<times> int list) option" where
  "WebRtcSpl_LpcToReflCoef a16 use_order =
     (if use_order < 1 \<or> use_order > 50 then None
      else do {
        as \<leftarrow> rdz a16 0 (use_order + 1);
        let k = s16 (shl (last as) 3); (r, ks) = lpc_refl k (butlast (tl as)) in
        Some (hd as # r @ [last as], ks @ [k]) })"

section \<open>The window\<close>

definition kHanningTable :: "int list" where
  "kHanningTable = [
   1, 2, 6, 10, 15, 22, 30, 39, 50, 62, 75, 89, 104, 121, 138, 157,
   178, 199, 222, 246, 271, 297, 324, 353, 383, 413, 446, 479, 513, 549, 586, 624,
   663, 703, 744, 787, 830, 875, 920, 967, 1015, 1064, 1114, 1165, 1218, 1271, 1325, 1381,
   1437, 1494, 1553, 1612, 1673, 1734, 1796, 1859, 1924, 1989, 2055, 2122, 2190, 2259, 2329, 2399,
   2471, 2543, 2617, 2691, 2765, 2841, 2918, 2995, 3073, 3152, 3232, 3312, 3393, 3475, 3558, 3641,
   3725, 3809, 3895, 3980, 4067, 4154, 4242, 4330, 4419, 4509, 4599, 4689, 4781, 4872, 4964, 5057,
   5150, 5244, 5338, 5432, 5527, 5622, 5718, 5814, 5910, 6007, 6104, 6202, 6299, 6397, 6495, 6594,
   6693, 6791, 6891, 6990, 7090, 7189, 7289, 7389, 7489, 7589, 7690, 7790, 7890, 7991, 8091, 8192,
   8293, 8393, 8494, 8594, 8694, 8795, 8895, 8995, 9095, 9195, 9294, 9394, 9493, 9593, 9691, 9790,
   9889, 9987, 10085, 10182, 10280, 10377, 10474, 10570, 10666, 10762, 10857, 10952, 11046, 11140, 11234, 11327,
   11420, 11512, 11603, 11695, 11785, 11875, 11965, 12054, 12142, 12230, 12317, 12404, 12489, 12575, 12659, 12743,
   12826, 12909, 12991, 13072, 13152, 13232, 13311, 13389, 13466, 13543, 13619, 13693, 13767, 13841, 13913, 13985,
   14055, 14125, 14194, 14262, 14329, 14395, 14460, 14525, 14588, 14650, 14711, 14772, 14831, 14890, 14947, 15003,
   15059, 15113, 15166, 15219, 15270, 15320, 15369, 15417, 15464, 15509, 15554, 15597, 15640, 15681, 15721, 15760,
   15798, 15835, 15871, 15905, 15938, 15971, 16001, 16031, 16060, 16087, 16113, 16138, 16162, 16185, 16206, 16227,
   16246, 16263, 16280, 16295, 16309, 16322, 16334, 16345, 16354, 16362, 16369, 16374, 16378, 16382, 16383, 16384]"

text \<open>An access outside of the table is \<open>None\<close>; a size that is not positive writes nothing.\<close>

definition WebRtcSpl_GetHanningWindow :: "int \<Rightarrow> int list option" where
  "WebRtcSpl_GetHanningWindow sz =
     (let factor = WebRtcSpl_DivW32W16 0x40000000 sz;
          index = (if sz < 513 then -0x200000 else -0x100000)
      in those (map (\<lambda>jj. let k = shr (index + factor * (int jj + 1)) 22 in
           if 0 \<le> k \<and> k < 256 then Some (kHanningTable ! nat k) else None) [0..<nat sz]))"

section \<open>Square roots\<close>

definition WebRtcSpl_SqrtLocal :: "int \<Rightarrow> int" where
  "WebRtcSpl_SqrtLocal inp =
     (let B = s32 (shr inp 1 - 0x40000000);
          x_half = s16 (shr B 16);
          B = s32 (s32 (B + 0x40000000) + 0x40000000);
          x2 = s32 (x_half * x_half * 2);
          A = s32 (- x2);
          B = s32 (B + shr A 1);
          A = shr A 16;
          A = s32 (A * A * 2);
          t16 = s16 (shr A 16);
          B = s32 (B + s32 (-20480 * t16 * 2));
          A = s32 (x_half * t16 * 2);
          t16 = s16 (shr A 16);
          B = s32 (B + s32 (28672 * t16 * 2));
          t16 = s16 (shr x2 16);
          A = s32 (x_half * t16 * 2);
          B = s32 (B + shr A 1)
      in s32 (B + 32768))"

definition WebRtcSpl_Sqrt :: "int \<Rightarrow> int" where
  "WebRtcSpl_Sqrt value =
     (if value = 0 then 0
      else let sh = WebRtcSpl_NormW32 value;
               A = s32 (shl value sh);
               A = (if A < 2147483647 - 32767 then s32 (A + 32768) else 2147483647);
               x_norm = s16 (shr A 16);
               nshift = sh div 2;
               A = WebRtcSpl_SqrtLocal (abs_w32 (s32 (shl x_norm 16)));
               A = (if 2 * nshift = sh
                    then shr (s32 (s32 (23170 * s16 (shr A 16) * 2) + 32768) AND 0x7fff0000) 15
                    else shr A 16)
           in shr (A AND 0xffff) nshift)"

definition WebRtcSpl_SqrtOfOneMinusXSquared :: "int list \<Rightarrow> int \<Rightarrow> int list option" where
  "WebRtcSpl_SqrtOfOneMinusXSquared xQ15 vector_length = do {
     xs \<leftarrow> rdz xQ15 0 vector_length;
     Some (map (\<lambda>x. s16 (WebRtcSpl_Sqrt (s32 (1073741823 - x * x)))) xs) }"

section \<open>The autocorrelation does not overflow\<close>

lemma shr_pow_bound:
  assumes "\<bar>p\<bar> \<le> (2 :: int) ^ m" "k \<le> m"
  shows "\<bar>shr p k\<bar> \<le> 2 ^ (m - k)"
proof -
  have e: "(2 :: int) ^ m = 2 ^ (m - k) * 2 ^ k" using assms(2) by (simp flip: power_add)
  have "p div 2 ^ k \<le> 2 ^ m div 2 ^ k" "- (2 ^ m) div 2 ^ k \<le> p div 2 ^ k" using assms(1) by (intro zdiv_mono1; simp)+
  moreover have "2 ^ m div 2 ^ k = (2 ^ (m - k) :: int)" "- (2 ^ m) div 2 ^ k = - (2 ^ (m - k) :: int)"
    unfolding e minus_mult_left by (rule nonzero_mult_div_cancel_right; simp)+
  ultimately show ?thesis by (simp add: drop_bit_eq_div)
qed

lemma autocorr_room:
  assumes "0 < n" "n < 2 ^ 24" "0 \<le> smax" "smax \<le> 32767" "\<bar>x\<bar> \<le> smax \<or> smax = 32767 \<and> \<bar>x\<bar> \<le> 32768" "\<bar>y\<bar> \<le> smax \<or> smax = 32767 \<and> \<bar>y\<bar> \<le> 32768"
  shows "0 \<le> autocorr_scaling smax n" "autocorr_scaling smax n \<le> 24"
    "\<bar>shr (x * y) (nat (autocorr_scaling smax n))\<bar> \<le> 2 ^ (31 - WebRtcSpl_GetSizeInBits (u32 n))"
proof -
  define b t where "b = WebRtcSpl_GetSizeInBits (u32 n)" and "t = WebRtcSpl_NormW32 (smax * smax)"
  have u: "u32 n = n" using assms(1,2) by (simp add: u32_def)
  have "2 ^ (b - 1) \<le> n" using size_in_bits(2) [of n] assms(1,2) unfolding b_def u by simp
  then have "(2 :: int) ^ (b - 1) < 2 ^ 24" using assms(2) by linarith
  then have b: "b \<le> 24" using power_strict_increasing_iff [of "2 :: int" "b - 1" 24] by simp
  have "n < 2 ^ b" using size_in_bits(1) [of n] assms(1,2) unfolding b_def u by simp
  then have b1: "1 \<le> b" using assms(1) by (cases b) simp_all
  have k: "autocorr_scaling smax n = (if smax = 0 \<or> t > b then 0 else int b - int t)"
    by (simp add: autocorr_scaling_def b_def t_def Let_def)
  show "0 \<le> autocorr_scaling smax n" "autocorr_scaling smax n \<le> 24" using b by (simp_all add: k)
  show "\<bar>shr (x * y) (nat (autocorr_scaling smax n))\<bar> \<le> 2 ^ (31 - WebRtcSpl_GetSizeInBits (u32 n))"
  proof (cases "smax = 0")
    case True
    then have "x = 0" using assms(5) by simp
    then show ?thesis by simp
  next
    case False
    have "1 * 1 \<le> smax * smax" "smax * smax \<le> 32767 * 32767" using False assms(3,4) by (intro mult_mono; simp)+
    then have s: "smax * smax * 2 ^ t < 2 ^ 31" "2 ^ 30 \<le> smax * smax * 2 ^ t" using norm_w32_pos [of "smax * smax"] by (simp_all add: t_def)
    have t31: "t < 31"
    proof (rule ccontr)
      assume "\<not> t < 31"
      then have "(2 :: int) ^ 31 \<le> 2 ^ t" by (intro power_increasing) simp_all
      moreover have "1 * 2 ^ t \<le> smax * smax * 2 ^ t" using \<open>1 * 1 \<le> smax * smax\<close> by (intro mult_right_mono) simp_all
      ultimately show False using s(1) by linarith
    qed
    have e: "(2 :: int) ^ 31 = 2 ^ (31 - t) * 2 ^ t" using t31 by (simp flip: power_add)
    have "\<bar>x * y\<bar> \<le> 2 ^ (31 - t)"
    proof (cases "smax = 32767")
      case True
      have "t \<le> 1"
      proof (rule ccontr)
        assume "\<not> t \<le> 1"
        then have "(2 :: int) ^ 2 \<le> 2 ^ t" by (intro power_increasing) simp_all
        then show False using s(1) True by simp
      qed
      then have "(2 :: int) ^ 30 \<le> 2 ^ (31 - t)" by (intro power_increasing) simp_all
      moreover have "\<bar>x * y\<bar> \<le> 32768 * 32768" using assms(5,6) True by (intro abs_mult_bound) auto
      ultimately show ?thesis by simp
    next
      case f: False
      then have "\<bar>x * y\<bar> \<le> smax * smax" using assms(5,6) by (intro abs_mult_bound) auto
      also have "smax * smax < 2 ^ (31 - t)" using s(1) unfolding e by simp
      finally show ?thesis by simp
    qed
    then have "\<bar>shr (x * y) (nat (autocorr_scaling smax n))\<bar> \<le> 2 ^ (31 - t - nat (autocorr_scaling smax n))"
      using t31 b by (intro shr_pow_bound) (auto simp: k)
    also have "\<dots> \<le> (2 :: int) ^ (31 - b)" using False t31 b by (intro power_increasing) (auto simp: k)
    finally show ?thesis by (simp add: b_def)
  qed
qed

lemma autocorr_terms:
  assumes "int16s xs" "0 < length xs" "int (length xs) < 2 ^ 24"
  shows "\<exists>k < 32. WebRtcSpl_MaxAbsValueW16C (Some xs) (int (length xs)) \<noteq> None
    \<and> autocorr_scaling (s16 (the (WebRtcSpl_MaxAbsValueW16C (Some xs) (int (length xs))))) (int (length xs)) = int k
    \<and> (\<forall>i. mac_shr k 0 (zip xs (drop i xs)) = (\<Sum>(x, y) \<leftarrow> zip xs (drop i xs). shr (x * y) k))"
proof -
  define n where "n = int (length xs)"
  define smax where "smax = min 32767 (max_scan 0 (map abs xs))"
  have m: "WebRtcSpl_MaxAbsValueW16C (Some xs) n = Some smax"
    using assms(2) by (simp add: WebRtcSpl_MaxAbsValueW16C_def over_vector_take Let_def n_def smax_def min_def)
  have mx: "max_scan 0 (map abs xs) = Max (insert 0 (set (map abs xs)))" by (rule max_scan_Max)
  have r: "0 \<le> smax" "smax \<le> 32767" by (simp_all add: smax_def mx)
  then have s: "s16 smax = smax" by (simp add: s16_id)
  have le: "\<bar>x\<bar> \<le> smax \<or> smax = 32767 \<and> \<bar>x\<bar> \<le> 32768" if "x \<in> set xs" for x
  proof -
    have "\<bar>x\<bar> \<le> max_scan 0 (map abs xs)" unfolding mx using that by (intro Max_ge) auto
    moreover have "\<bar>x\<bar> \<le> 32768" using assms(1) that by (auto simp: int16s_def)
    ultimately show ?thesis by (auto simp: smax_def min_def)
  qed
  have n: "0 < n" "n < 2 ^ 24" using assms(2,3) by (simp_all add: n_def)
  note room = autocorr_room [OF n r]
  obtain x0 where "x0 \<in> set xs" using assms(2) by (cases xs) auto
  then have k: "0 \<le> autocorr_scaling smax n" "autocorr_scaling smax n \<le> 24" using room(1,2) le by blast+
  define B where "B = (2 :: int) ^ (31 - WebRtcSpl_GetSizeInBits (u32 n))"
  have u: "u32 n = n" using n by (simp add: u32_def)
  have "2 ^ (WebRtcSpl_GetSizeInBits n - 1) \<le> n" using size_in_bits(2) [of n] n by simp
  then have "(2 :: int) ^ (WebRtcSpl_GetSizeInBits n - 1) < 2 ^ 24" using n(2) by linarith
  then have b: "WebRtcSpl_GetSizeInBits n \<le> 24" using power_strict_increasing_iff [of "2 :: int" "WebRtcSpl_GetSizeInBits n - 1" 24] by simp
  have "n * B < 2 ^ WebRtcSpl_GetSizeInBits n * B" using size_in_bits(1) [of n] n by (simp add: B_def)
  also have "\<dots> = 2 ^ 31" using b by (simp add: B_def u flip: power_add)
  finally have nB: "n * B < 2147483648" by simp
  have "mac_shr (nat (autocorr_scaling smax n)) 0 (zip xs (drop i xs)) = (\<Sum>(x, y) \<leftarrow> zip xs (drop i xs). shr (x * y) (nat (autocorr_scaling smax n)))" for i
  proof -
    let ?ps = "zip xs (drop i xs)" and ?k = "nat (autocorr_scaling smax n)"
    have "\<bar>\<Sum>(x, y) \<leftarrow> ?ps. shr (x * y) ?k\<bar> \<le> int (length ?ps) * B"
    proof (rule sum_list_abs_bound)
      fix p assume p: "p \<in> set ?ps"
      obtain x y where xy: "p = (x, y)" by (cases p)
      have "x \<in> set xs" "y \<in> set xs" using p set_zip_leftD [of x y] set_zip_rightD [of x y] in_set_dropD [of y i xs] unfolding xy by blast+
      then show "\<bar>case p of (x, y) \<Rightarrow> shr (x * y) ?k\<bar> \<le> B" unfolding xy B_def prod.case by (intro room(3) le)
    qed
    moreover have "int (length ?ps) * B \<le> n * B" by (intro mult_right_mono) (simp_all add: n_def B_def)
    ultimately show ?thesis using nB mac_shr_sum [of ?k 0 ?ps] mac_shr_range [of 0 ?k ?ps] by (simp add: s32_id)
  qed
  then show ?thesis using m k s unfolding n_def [symmetric] by (intro exI [of _ "nat (autocorr_scaling smax n)"]) auto
qed

lemma autocorr_sum:
  assumes "i \<le> length xs"
  shows "(\<Sum>(x, y) \<leftarrow> zip xs (drop i xs). f x y) = (\<Sum>j < length xs - i. f (xs ! j) (xs ! (i + j)))"
proof -
  have "zip xs (drop i xs) = map (\<lambda>j. (xs ! j, xs ! (i + j))) [0..<length xs - i]"
    using assms by (intro nth_equalityI) simp_all
  then show ?thesis by (simp add: comp_def interv_sum_list_conv_sum_set_nat atLeast0LessThan)
qed

text \<open>
  C38: The scale of the autocorrelation is enough: for every vector of up to 2 to the 24 samples, with -32768 among them or not, no sum overflows, and
  every correlation is the exact one up to the bits that the scale shifts out of each product.
\<close>

theorem autocorrelation_exact:
  assumes "int16s xs" "0 < length xs" "length xs < 2 ^ 24" "q \<le> length xs"
  shows "\<exists>R k. WebRtcSpl_AutoCorrelation xs (int (length xs)) (int q) = Some (int q + 1, R, int k) \<and> length R = q + 1 \<and> k < 32
    \<and> (\<forall>i \<le> q. let c = \<Sum>j < length xs - i. xs ! j * xs ! (i + j)
         in R ! i * 2 ^ k \<le> c \<and> c \<le> R ! i * 2 ^ k + int (length xs - i) * (2 ^ k - 1))"
proof -
  have "int (length xs) < 2 ^ 24" using assms(3) by simp
  then obtain k m where k: "k < 32" "WebRtcSpl_MaxAbsValueW16C (Some xs) (int (length xs)) = Some m"
    "autocorr_scaling (s16 m) (int (length xs)) = int k"
    "\<And>i. mac_shr k 0 (zip xs (drop i xs)) = (\<Sum>(x, y) \<leftarrow> zip xs (drop i xs). shr (x * y) k)"
    using autocorr_terms [OF assms(1,2)] by auto
  define R where "R = map (\<lambda>i. \<Sum>(x, y) \<leftarrow> zip xs (drop i xs). shr (x * y) k) [0..<q + 1]"
  have "WebRtcSpl_AutoCorrelation xs (int (length xs)) (int q) = Some (int q + 1, R, int k)"
    using assms(4) k rdz_whole [of xs] by (simp add: WebRtcSpl_AutoCorrelation_def R_def dot_by_four_mac nat_add_distrib)
  moreover have "R ! i * 2 ^ k \<le> (\<Sum>j < length xs - i. xs ! j * xs ! (i + j))"
    "(\<Sum>j < length xs - i. xs ! j * xs ! (i + j)) \<le> R ! i * 2 ^ k + int (length xs - i) * (2 ^ k - 1)" if "i \<le> q" for i
  proof -
    have "R ! i = (\<Sum>(x, y) \<leftarrow> zip xs (drop i xs). shr (x * y) k)" using that by (simp add: R_def nth_append del: upt_Suc)
    then show "R ! i * 2 ^ k \<le> (\<Sum>j < length xs - i. xs ! j * xs ! (i + j))"
      "(\<Sum>j < length xs - i. xs ! j * xs ! (i + j)) \<le> R ! i * 2 ^ k + int (length xs - i) * (2 ^ k - 1)"
      using sum_shr_error [of k "zip xs (drop i xs)"] autocorr_sum [of i xs "\<lambda>x y. x * y"] that assms(4) by simp_all
  qed
  ultimately show ?thesis using k(1) by (intro exI [of _ R] exI [of _ k]) (simp add: R_def Let_def)
qed

lemma autocorrelation_exact_witness:
  "\<exists>R k. WebRtcSpl_AutoCorrelation [1000, -32768, 32767, 5] (int (length [1000, -32768, 32767, 5 :: int])) (int 2) = Some (int 2 + 1, R, int k)
    \<and> length R = 2 + 1 \<and> k < 32
    \<and> (\<forall>i \<le> 2. let c = \<Sum>j < length [1000, -32768, 32767, 5 :: int] - i. [1000, -32768, 32767, 5] ! j * [1000, -32768, 32767, 5] ! (i + j)
         in R ! i * 2 ^ k \<le> c \<and> c \<le> R ! i * 2 ^ k + int (length [1000, -32768, 32767, 5 :: int] - i) * (2 ^ k - 1))"
  by (rule autocorrelation_exact) (simp_all add: int16s_def)

section \<open>Levinson and Durbin: total, and stable or refused\<close>

lemma lev_loop_result:
  "lev_loop R Ri A Alpha e = (res, Ks) \<Longrightarrow>
     (case res of
        Some A' \<Rightarrow> length A' = length A + length Ri \<and> length Ks = length Ri \<and> (\<forall>k \<in> set Ks. \<bar>k\<bar> \<le> 32750)
      | None \<Rightarrow> Ks \<noteq> [] \<and> length Ks \<le> length Ri \<and> \<bar>last Ks\<bar> > 32750 \<and> (\<forall>k \<in> set (butlast Ks). \<bar>k\<bar> \<le> 32750))"
proof (induction R Ri A Alpha e arbitrary: res Ks rule: lev_loop.induct)
  case (1 R A Alpha e)
  then show ?case by auto
next
  case (2 R ri Ri A Alpha e)
  define t where "t = s32 (s32 (shl (lev_sum R A) 4) + join_hl ri)"
  define q where "q = lev_reflect t Alpha e"
  define K where "K = split_hl q"
  define a where "a = mul_hl Alpha (split_hl (one_minus_sq K))"
  define A' where "A' = lev_update K A @ [split_hl (shr q 4)]"
  show ?case
  proof (cases "\<bar>fst K\<bar> > 32750")
    case True
    then have "res = None" "Ks = [fst K]" using "2.prems" by (auto simp: K_def q_def t_def Let_def)
    then show ?thesis using True by simp
  next
    case False
    obtain res' Ks' where r: "lev_loop R Ri A' (split_hl (s32 (shl a (WebRtcSpl_NormW32 a)))) (e + int (WebRtcSpl_NormW32 a)) = (res', Ks')"
      by fastforce
    have e: "res = res'" "Ks = fst K # Ks'"
      using "2.prems" False r by (auto simp: K_def q_def t_def a_def A'_def Let_def split: prod.splits)
    have l: "length A' = length A + 1" by (simp add: A'_def lev_update_def)
    show ?thesis
      using "2.IH" [OF t_def q_def K_def False A'_def a_def refl r] False l unfolding e by (auto split: option.splits)
  qed
qed

lemma rdz_room: "0 \<le> n \<Longrightarrow> n \<le> int (length xs) \<Longrightarrow> rdz xs 0 n = Some (take (nat n) xs)"
  using rdz_slice [of 0 "nat n" xs] by (simp add: slice_def)

lemma lev_final:
  assumes "int (length rs') = order - 1"
  shows "\<exists>ret A Ks. (case fst (lev_loop y rs' [k] al e) of
        None \<Rightarrow> (0, [], K0 # snd (lev_loop y rs' [k] al e))
      | Some A \<Rightarrow> (1, 4096 # map g A, K0 # snd (lev_loop y rs' [k] al e))) = (ret :: int, A :: int list, Ks) \<and>
    (ret = 1 \<and> int (length A) = order + 1 \<and> hd A = 4096 \<and> int (length Ks) = order \<and> (\<forall>k \<in> set (tl Ks). \<bar>k\<bar> \<le> 32750) \<or>
     ret = 0 \<and> A = [] \<and> 1 < length Ks \<and> int (length Ks) \<le> order \<and> \<bar>last Ks\<bar> > 32750 \<and> (\<forall>k \<in> set (butlast (tl Ks)). \<bar>k\<bar> \<le> 32750))"
proof -
  obtain res Ks where r: "lev_loop y rs' [k] al e = (res, Ks)" by fastforce
  show ?thesis using lev_loop_result [OF r] assms by (cases res) (auto simp: r)
qed

text \<open>
  For an order from 1 to 20 and correlations for all its lags, the recursion ends with a result: either it returns 1, the filter
  has one coefficient more than its order, begins with 1 in Q12, and every reflection coefficient after the first one is at most 32750 in absolute value; or
  it returns 0 at the first reflection coefficient that is not, and writes no filter.
\<close>

lemma levinson_total:
  assumes "1 \<le> order" "order \<le> 20" "order < int (length R)"
  shows "\<exists>ret A K. WebRtcSpl_LevinsonDurbin R order = Some (ret, A, K) \<and>
    (ret = 1 \<and> int (length A) = order + 1 \<and> hd A = 4096 \<and> int (length K) = order \<and> (\<forall>k \<in> set (tl K). \<bar>k\<bar> \<le> 32750) \<or>
     ret = 0 \<and> A = [] \<and> 1 < length K \<and> int (length K) \<le> order \<and> \<bar>last K\<bar> > 32750 \<and> (\<forall>k \<in> set (butlast (tl K)). \<bar>k\<bar> \<le> 32750))"
proof -
  obtain r0 r1 rs where R: "take (nat (order + 1)) R = r0 # r1 # rs"
  proof -
    have "length (take (nat (order + 1)) R) = nat (order + 1)" using assms by simp
    with assms(1) that show ?thesis by (cases "take (nat (order + 1)) R" rule: remdups_adj.cases) auto
  qed
  have l: "int (length rs) = order - 1" using arg_cong [OF R, of length] assms by simp
  have "rdz R 0 (order + 1) = Some (r0 # r1 # rs)" using assms rdz_room [of "order + 1" R] R by simp
  moreover have "\<not> (order < 1 \<or> order > 20)" using assms by simp
  ultimately show ?thesis
    unfolding WebRtcSpl_LevinsonDurbin_def
    by (simp only: Let_def bind.bind_lunit split_beta if_False option.inject list.map drop_Suc_Cons drop_0 numeral_2_eq_2 diff_Suc_1)
      (rule lev_final, simp add: l)
qed

lemma levinson_total_witness:
  "\<exists>ret A K. WebRtcSpl_LevinsonDurbin [1000, 500, 200] 2 = Some (ret, A, K) \<and>
    (ret = 1 \<and> int (length A) = 2 + 1 \<and> hd A = 4096 \<and> int (length K) = 2 \<and> (\<forall>k \<in> set (tl K). \<bar>k\<bar> \<le> 32750) \<or>
     ret = 0 \<and> A = [] \<and> 1 < length K \<and> int (length K) \<le> 2 \<and> \<bar>last K\<bar> > 32750 \<and> (\<forall>k \<in> set (butlast (tl K)). \<bar>k\<bar> \<le> 32750))"
  by (rule levinson_total) simp_all

end
