(* ===== verification/Spec2Isabelle.thy ===== *)
theory Spec2Isabelle
  imports Neteq_Prelude Neteq_Rtp Fifo Packet_Buffer Packet_Queue Codec_Db Packet_Size Rtcp Dtmf_Buffer Split_Insert Ring_Buffer Spl Automode Bufstats Mcu Recin
    Signal_Mcu Signal_Safe Session
    Spl_Resample_22 Vad_Total Pcm16b Time_Scale Red_Safe Spl_Lpc
begin

text \<open>
  A verification library for the C code at the core of the WebRTC audio path: the NetEQ jitter buffer
  (\<open>src/trunk/webrtc/modules/audio_coding/neteq\<close>), the voice activity detector
  (\<open>common_audio/vad\<close>), the resamplers and integer routines of the signal processing library both rest
  on, the speech codecs G.711 and PCM16B, and the ring buffer of the audio processing module.

  \<^bold>\<open>The program.\<close>  NetEQ receives RTP packets in any order and plays out 10 ms of sound per
  call.  A datagram is parsed and, when it is a redundant one, split into packets
  (\<open>rtp.c\<close>); a payload is split into frames of the codec in use (\<open>split_and_insert.c\<close>, with
  the rules of \<open>codec_db.c\<close>) and every frame goes into the packet buffer (\<open>packet_buffer.c\<close>).
  The arrival updates the statistics of inter-arrival times and from them the buffer level
  aimed at (\<open>automode.c\<close>), and the RTCP counters (\<open>rtcp.c\<close>); telephone events go into a queue
  of their own (\<open>dtmf_buffer.c\<close>).  For every block of output the oldest packet of the buffer
  and the filtered buffer level decide whether to play, shorten, stretch, conceal or restart
  (\<open>bufstats_decision.c\<close>).

  \<^bold>\<open>How C is modelled.\<close>  \<open>Neteq_Prelude\<close>: C integers are mathematical integers, and every
  conversion to a width is written out (\<open>u8\<close> to \<open>s32\<close>), so overflow is part of every model.
  Memory is a list of bytes or elements, and an access outside of it, undefined in C, is the
  value \<open>None\<close>; a theorem with \<open>Some\<close> on the right states that no such access happens.
  A structure is a record, the arrays of the packet buffer are one list with a record per
  slot, a pointer into a buffer is an offset from its start.  Error codes are returned as in
  the code.  The codecs are reached through function pointers: where a size in samples is asked of a
  codec it is the parameter \<open>call_duration\<close> of the model, on which no theorem puts a condition except
  where it says so, and the second, uninitialised local packet of the arrival code is the parameter \<open>junk\<close>.  The bytes of a
  \<open>CodecFuncInst_t\<close> and of a pointer, which the compiler lays out, are the parameters \<open>cinst_bytes\<close> and
  \<open>state_bytes\<close>; only that their length does not vary is assumed of them.

  \<^bold>\<open>Theories.\<close>

  \<^item> \<open>Neteq_Prelude\<close>: conversions, bit fields, memory access, and the facts about them.
  \<^item> \<open>Neteq_Rtp\<close> (\<open>rtp.c\<close>): \<open>WebRtcNetEQ_RTPPayloadInfo\<close> against a specification written from
    RFC 3550 (\<open>rfc3550\<close>), with the payloads it refuses in addition, a round trip with an encoder, the exact condition of memory safety;
    \<open>WebRtcNetEQ_RedundancySplit\<close> for one, two and three blocks (RFC 2198).
  \<^item> \<open>Fifo\<close>: the locale \<open>fifo_store\<close>, a bounded queue with its laws and what a client may
    conclude from them; interpreted in \<open>Packet_Queue\<close> and \<open>Ring_Buffer\<close>.
  \<^item> \<open>Packet_Buffer\<close>, \<open>Packet_Queue\<close> (\<open>packet_buffer.c\<close>): all operations on slots and payload
    memory; the invariant \<open>pb_inv\<close>, memory safety, the abstraction to a queue of packets
    (\<open>pb_abs\<close>, \<open>pb_fifo\<close>) and the refinement of insert and extract, the search for the oldest
    packet, and the run in which a stored payload is overwritten.
  \<^item> \<open>Codec_Db\<close> (\<open>codec_db.c\<close>): registration, removal, look-up, sample rates and split rules
    under the codec options of \<open>neteq.gypi\<close>; totality and the effect of every operation.
  \<^item> \<open>Packet_Size\<close> (\<open>packet_buffer.c\<close>): the functions that ask the codec database for sizes.
  \<^item> \<open>Split_Insert\<close> (\<open>split_and_insert.c\<close>): the splitting loops as a \<open>partial_function\<close> (they
    need not end for every split rule); the locales \<open>safe_sink\<close> and \<open>packet_sink\<close> state what a
    receiver of frames promises, and the packet buffer is shown to be one.  That the loops
    return, which frames they insert and that the frames cover the payload is proved there.
  \<^item> \<open>Red_Safe\<close>: the redundant payloads (RFC 2198) whose headers and announced blocks lie in the payload, for which the
    splitter of \<open>rtp.c\<close> stays in memory.
  \<^item> \<open>Rtcp\<close> (\<open>rtcp.c\<close>): loss and jitter statistics.
  \<^item> \<open>Dtmf_Buffer\<close> (\<open>dtmf_buffer.c\<close>): the queue of telephone events.
  \<^item> \<open>Spl\<close> (\<open>common_audio/signal_processing\<close>: \<open>division_operations.c\<close>,
    \<open>spl_sqrt_floor.c\<close>, \<open>min_max_operations.c\<close>): exact results of divisions and square root,
    first index of extreme values.
  \<^item> \<open>Spl_Norm\<close> (\<open>spl_inl.h\<close>, \<open>get_scaling_square.c\<close>, \<open>energy.c\<close>): saturation, the normalisations as searches
    for the highest bit, the scaling of a vector, and the energy as a sum that does not overflow.
  \<^item> \<open>Spl_Resample\<close>, \<open>Spl_Resample_22\<close> (\<open>resample_by_2_internal.c\<close>, \<open>resample_by_2.c\<close>, \<open>resample_fractional.c\<close>,
    \<open>resample_48khz.c\<close>, \<open>resample.c\<close>): the by-two filters as runs of all-pass sections, the fractional
    filters in the scratch memory, and the converters; \<open>frac_stage\<close> shows that a fractional filter working
    in place computes what it would on a copy, from which follow memory safety, lengths and that blocks join
    without a seam.
  \<^item> \<open>G711\<close>, \<open>Pcm16b\<close> (\<open>audio_coding/codecs/g711\<close>, \<open>pcm16b\<close>): the companding laws with the search for
    the segment shown to be a binary logarithm, their error, the packing into words, the transcoding tables; the two
    linear encoders and decoders.
  \<^item> \<open>Spl_Vector\<close> (\<open>vector_scaling_operations.c\<close>, \<open>copy_set_operations.c\<close>, \<open>dot_product_with_scale.c\<close>,
    \<open>cross_correlation.c\<close>, \<open>downsample_fast.c\<close>, \<open>filter_ma_fast_q12.c\<close>, \<open>filter_ar_fast_q12.c\<close>): scaling and copying of vectors,
    sums of products and the filters, which are shown to compute the sums and difference equations they stand for.
  \<^item> \<open>Spl_Lpc\<close> (\<open>auto_correlation.c\<close>, \<open>levinson_durbin.c\<close>, \<open>auto_corr_to_refl_coef.c\<close>, \<open>refl_coef_to_lpc.c\<close>,
    \<open>lpc_to_refl_coef.c\<close>, \<open>get_hanning_window.c\<close>, \<open>ilbc_specific_functions.c\<close>, \<open>spl_sqrt.c\<close>, \<open>sqrt_of_one_minus_x_squared.c\<close>): linear
    prediction, the window and the square root; that the autocorrelation does not overflow, and how Levinson and Durbin's recursion ends.
  \<^item> \<open>Neteq_Dsp\<close> (\<open>dsp_helpfunctions.c\<close>, \<open>peak_detection.c\<close>, \<open>min_distortion.c\<close>, \<open>correlator.c\<close>, \<open>random_vector.c\<close>,
    \<open>mix_voice_unvoice.c\<close>, \<open>mute_signal.c\<close>, \<open>unmute_signal.c\<close>): the helpers of the signal side; a peak is near its sample,
    the best lag has the least distortion, a crossfade stays between its two signals.
  \<^item> \<open>Dsp_State\<close> (\<open>dsp.h\<close>, \<open>dsp.c\<close>, \<open>dtmf_tonegen.c\<close>): the instance of the signal side, its initialisation and the layout of
    the speech buffer, its statistics, and the tones, which go on over the border of a block.
  \<^item> \<open>Time_Scale\<close> (\<open>accelerate.c\<close>, \<open>preemptive_expand.c\<close>): playing faster and slower; that the functions return, read within
    bounds and only remove or insert a period (\<open>removes_period\<close>, \<open>inserts_period\<close>), and when master and slave keep in step.
  \<^item> \<open>Vad_Features\<close>, \<open>Vad\<close> (\<open>common_audio/vad\<close>): the filter bank, the Gaussian mixtures and their
    update, the search for the minimum, the decision and its hang-over, the interface for four rates; an index outside of an array
    is \<open>None\<close>, but for the one read behind the cells of the last channel, whose value is the parameter \<open>behind\<close>.
    \<open>Vad_Bounds\<close>: the features are bounded; \<open>Vad_Models\<close>: a probability is defined as long as the models
    are near the features; \<open>Vad_Safe\<close>: the update of a channel keeps them near and the cells of the minimum
    sorted; \<open>Vad_Total\<close>: the reachable instances, and what a frame gives.
  \<^item> \<open>Automode\<close> (\<open>automode.c\<close>): the histogram of inter-arrival times as a forgetting
    distribution in Q30, the level as its quantile, the level filter; \<open>am_reach\<close> is the set of
    states of any run after a reset, \<open>am_inv\<close> its invariant.
  \<^item> \<open>Bufstats\<close> (\<open>bufstats_decision.c\<close>): the decision for a block of output, branch by branch;
    how the buffer level is steered, when a packet ahead restarts NetEQ, that waiting for a later
    packet or for comfort noise ends.
  \<^item> \<open>Mcu\<close> (\<open>mcu.h\<close>, \<open>mcu_reset.c\<close>, \<open>set_fs.c\<close>, the scaling of \<open>recin.c\<close>): the state of the control
    side, which holds all of the states above, its invariant \<open>mcu_inv\<close>, reset and change of the sample rate, the
    last hundred waiting times, and the two directions of the timestamp scaling.
  \<^item> \<open>Recin\<close> (\<open>recin.c\<close>): the arrival of a packet, \<open>WebRtcNetEQ_RecInInternal\<close>, part by part in the order of
    the code.  \<open>recin_ready\<close> is what the caller guarantees of a packet; \<open>mc_step\<close> says that a part keeps the invariant, the codec database and the
    capacity of the buffer; every part is a step, so the whole arrival is one, on every path.
  \<^item> \<open>Signal_Mcu\<close> (\<open>signal_mcu.c\<close>): a block of output, \<open>WebRtcNetEQ_SignalMcu\<close>, as the sequence of its
    parts over the memory shared with the signal side; \<open>Signal_Safe\<close>: every part is a
    total-correctness triple (\<open>sig_spec\<close>) with the room that is left in the shared memory as its
    resource, so the whole returns; when the unchecked write of a payload leaves the memory.
  \<^item> \<open>Session\<close>: the states reachable by registrations, changes of the rate, arrivals and blocks
    of output in any order, and that the next step is safe in each.
  \<^item> \<open>Ring_Buffer\<close> (\<open>audio_processing/utility/ring_buffer.c\<close>): the ring with its two regions,
    refined to a list and interpreted as a \<open>fifo_store\<close>; any history of block operations is one of a bounded queue (\<open>queue_run\<close>).

  \<^bold>\<open>Bounds and fuel.\<close>  Hypotheses on sizes are those of the code: at most 600 slots and a
  memory of words within 32 bits, datagrams below 2 to the 15 bytes, levels below 2 to the 24
  in Q8.  No model uses fuel: loops are structural recursion, recursion with a measure, or
  \<open>partial_function\<close> with a proof that they return.  \<open>expand_rounds\<close> takes the list of the buffer sizes
  of its rounds, of which eleven are shown to be enough.

  \<^bold>\<open>Not modelled.\<close>  Of the signal side of NetEQ the output and its modes \<open>Expand\<close>, \<open>Merge\<close> and \<open>Normal\<close>
  (\<open>recout.c\<close>, \<open>expand.c\<close>, \<open>merge.c\<close>, \<open>normal.c\<close>, \<open>bgn_update.c\<close>, \<open>cng_internal.c\<close>); the codecs other than G.711 and PCM16B, the echo, gain and
  noise components, and the Fourier transforms of the signal processing library: fixed-point
  signal processing, planned where it is integer code with a contract of its own.  The C++
  modules, libjingle, the engines and the vendored code are outside of the language modelled.
  Offline delay logging (\<open>NETEQ_DELAY_LOGGING\<close>) is compiled out and left out.

  \<^bold>\<open>Plan.\<close>  The accuracy of the square root and the window of the signal processing library, the update of the background noise, the normal mode, and \<open>webrtc_neteq.c\<close>.
\<close>

end
